(* ===== verification/Prelude.thy ===== *)
theory Prelude
  imports Main "HOL-Library.Word" "HOL-Library.Signed_Division"
begin

text \<open>
  Shared vocabulary of the development: machine integers, the faults a C++ operation can end in,
  the result type with its sequencing and loop combinators, vector access with bounds, and the
  two predicate transformers \<open>succeeds\<close> (total correctness) and \<open>on_success\<close> (partial
  correctness) that carry most proofs about the components.

  Unsigned C++ integers are words of their width and wrap; \<open>int\<close> and \<open>long\<close> are
  mathematical integers, since their overflow is undefined behaviour.  An access outside a
  vector, a division by zero, a failed \<open>assert\<close>, a call of \<open>AbruptExit\<close> or \<open>exit\<close>
  and an uncaught exception are values of \<open>fault\<close>; so is a loop that never ends.
\<close>

unbundle bit_operations_syntax

section \<open>Machine integers\<close>

type_synonym u8 = "8 word"
type_synonym u16 = "16 word"
type_synonym u32 = "32 word"
type_synonym u64 = "64 word"

text \<open>The conversion of an \<open>int\<close> to \<open>uint64_t\<close> or \<open>size_t\<close>, and of a container size.\<close>

abbreviation to_u64 :: "int \<Rightarrow> u64" where
  "to_u64 \<equiv> word_of_int"

abbreviation size_u64 :: "'a list \<Rightarrow> u64" where
  "size_u64 xs \<equiv> word_of_nat (length xs)"

text \<open>\<open>static_cast<int>\<close> of a wider integer keeps the low 32 bits in two's complement.\<close>

definition to_int32 :: "int \<Rightarrow> int" where
  "to_int32 x = sint (word_of_int x :: u32)"

definition u64_to_int :: "u64 \<Rightarrow> int" where
  "u64_to_int x = sint (ucast x :: u32)"

text \<open>Conversions that keep the value.\<close>

lemma unat_widen: "unat (ucast (w :: u32) :: u64) = unat w"
  using unsigned_less [of w, where ?'a = nat] by (simp add: unsigned_ucast_eq take_bit_nat_eq_self)

lemma unat_ucast_small: "unat w < 2 ^ 32 \<Longrightarrow> unat (ucast (w :: u64) :: u32) = unat w"
  by (simp add: unsigned_ucast_eq take_bit_nat_eq_self)

section \<open>Faults and results\<close>

datatype fault =
    AbruptExit
  | OutOfBounds
  | DivisionByZero
  | AssertionFailed
  | ExitWith int
  | RuntimeError
  | OutOfRangeKey
  | UndefinedShift
  | SignedOverflow
  | Diverges

type_synonym 'a res = "fault + 'a"

named_theorems wp \<open>rules that push succeeds and on_success through a program\<close>

definition bind_res :: "'a res \<Rightarrow> ('a \<Rightarrow> 'b res) \<Rightarrow> 'b res" where
  "bind_res m f = (case m of Inl e \<Rightarrow> Inl e | Inr x \<Rightarrow> f x)"

definition require :: "fault \<Rightarrow> bool \<Rightarrow> unit res" where
  "require e c = (if c then Inr () else Inl e)"

primrec fold_res :: "('x \<Rightarrow> 's \<Rightarrow> 's res) \<Rightarrow> 'x list \<Rightarrow> 's \<Rightarrow> 's res" where
  "fold_res f [] s = Inr s"
| "fold_res f (x # xs) s = bind_res (f x s) (fold_res f xs)"

primrec iter_res :: "nat \<Rightarrow> ('s \<Rightarrow> 's res) \<Rightarrow> 's \<Rightarrow> 's res" where
  "iter_res 0 f s = Inr s"
| "iter_res (Suc n) f s = bind_res (f s) (iter_res n f)"

lemma bind_res_simps [simp]:
  "bind_res (Inl e) f = Inl e"
  "bind_res (Inr x) f = f x"
  by (simp_all add: bind_res_def)

lemma bind_res_eq_Inr:
  "bind_res m f = Inr y \<longleftrightarrow> (\<exists>x. m = Inr x \<and> f x = Inr y)"
  by (cases m) auto

lemma bind_res_eq_Inl:
  "bind_res m f = Inl e \<longleftrightarrow> m = Inl e \<or> (\<exists>x. m = Inr x \<and> f x = Inl e)"
  by (cases m) auto

lemma bind_res_assoc:
  "bind_res (bind_res m f) g = bind_res m (\<lambda>x. bind_res (f x) g)"
  by (cases m) simp_all

lemma bind_res_cong [fundef_cong]:
  "m = m' \<Longrightarrow> (\<And>x. m' = Inr x \<Longrightarrow> f x = f' x) \<Longrightarrow> bind_res m f = bind_res m' f'"
  by (cases m') simp_all

lemma require_eq_Inr [simp]: "require e c = Inr u \<longleftrightarrow> c"
  by (simp add: require_def)

lemma require_simps [simp]: "require e True = Inr ()" "require e False = Inl e"
  by (simp_all add: require_def)

lemma fold_res_append:
  "fold_res f (xs @ ys) s = bind_res (fold_res f xs s) (fold_res f ys)"
  by (induction xs arbitrary: s) (auto simp: bind_res_assoc intro!: bind_res_cong)

section \<open>Predicate transformers\<close>

definition succeeds :: "'a res \<Rightarrow> ('a \<Rightarrow> bool) \<Rightarrow> bool" where
  "succeeds r P = (case r of Inl _ \<Rightarrow> False | Inr x \<Rightarrow> P x)"

definition on_success :: "'a res \<Rightarrow> ('a \<Rightarrow> bool) \<Rightarrow> bool" where
  "on_success r P = (case r of Inl _ \<Rightarrow> True | Inr x \<Rightarrow> P x)"

lemma succeeds_simps [simp, wp]:
  "succeeds (Inr x) P = P x"
  "succeeds (Inl e) P = False"
  by (simp_all add: succeeds_def)

lemma on_success_simps [simp, wp]:
  "on_success (Inr x) P = P x"
  "on_success (Inl e) P = True"
  by (simp_all add: on_success_def)

lemma succeeds_bind [simp, wp]:
  "succeeds (bind_res m f) P = succeeds m (\<lambda>x. succeeds (f x) P)"
  by (cases m) simp_all

lemma on_success_bind [simp, wp]:
  "on_success (bind_res m f) P = on_success m (\<lambda>x. on_success (f x) P)"
  by (cases m) simp_all

lemma succeeds_require [simp, wp]: "succeeds (require e c) P \<longleftrightarrow> c \<and> P ()"
  by (simp add: require_def)

lemma on_success_require [simp, wp]: "on_success (require e c) P \<longleftrightarrow> (c \<longrightarrow> P ())"
  by (simp add: require_def)

lemma succeeds_iff: "succeeds r P \<longleftrightarrow> (\<exists>x. r = Inr x \<and> P x)"
  by (cases r) auto

lemma on_success_iff: "on_success r P \<longleftrightarrow> (\<forall>x. r = Inr x \<longrightarrow> P x)"
  by (cases r) auto

lemma succeedsE:
  assumes "succeeds r P"
  obtains x where "r = Inr x" and "P x"
  using assms by (auto simp: succeeds_iff)

lemma succeeds_mono: "succeeds r P \<Longrightarrow> (\<And>x. P x \<Longrightarrow> Q x) \<Longrightarrow> succeeds r Q"
  by (cases r) auto

lemma on_success_mono: "on_success r P \<Longrightarrow> (\<And>x. P x \<Longrightarrow> Q x) \<Longrightarrow> on_success r Q"
  by (cases r) auto

lemma on_success_always: "(\<And>x. P x) \<Longrightarrow> on_success r P"
  by (cases r) auto

lemma on_success_True [simp, wp]: "on_success r (\<lambda>x. True)"
  by (cases r) auto

lemma succeeds_on_success: "succeeds r P \<Longrightarrow> on_success r P"
  by (cases r) auto

lemma succeeds_conj: "succeeds r P \<Longrightarrow> on_success r Q \<Longrightarrow> succeeds r (\<lambda>x. P x \<and> Q x)"
  by (cases r) auto

text \<open>Sequencing with an intermediate assertion, for programs whose first part is known by a lemma.\<close>

lemma on_success_bindI:
  "on_success m P \<Longrightarrow> (\<And>x. P x \<Longrightarrow> on_success (f x) Q) \<Longrightarrow> on_success (bind_res m f) Q"
  by (cases m) auto

lemma succeeds_bindI:
  "succeeds m P \<Longrightarrow> (\<And>x. P x \<Longrightarrow> succeeds (f x) Q) \<Longrightarrow> succeeds (bind_res m f) Q"
  by (cases m) auto

text \<open>An invariant of every iteration is an invariant of the loop.\<close>

lemma fold_res_succeeds:
  assumes "I s" and "\<And>x s. x \<in> set xs \<Longrightarrow> I s \<Longrightarrow> succeeds (f x s) I"
  shows "succeeds (fold_res f xs s) I"
  using assms
proof (induction xs arbitrary: s)
  case Nil
  then show ?case by simp
next
  case (Cons x xs)
  have rest: "succeeds (fold_res f xs t) I" if "I t" for t
    using that by (rule Cons.IH) (auto intro: Cons.prems(2))
  have "succeeds (f x s) I" using Cons.prems by simp
  then show ?case
    by (auto elim!: succeeds_mono intro: rest)
qed

lemma fold_res_on_success:
  assumes "I s" and "\<And>x s. x \<in> set xs \<Longrightarrow> I s \<Longrightarrow> on_success (f x s) I"
  shows "on_success (fold_res f xs s) I"
  using assms
proof (induction xs arbitrary: s)
  case Nil
  then show ?case by simp
next
  case (Cons x xs)
  have rest: "on_success (fold_res f xs t) I" if "I t" for t
    using that by (rule Cons.IH) (auto intro: Cons.prems(2))
  have "on_success (f x s) I" using Cons.prems by simp
  then show ?case
    by (auto elim!: on_success_mono intro: rest)
qed

lemma iter_res_succeeds:
  assumes "I s" and "\<And>s. I s \<Longrightarrow> succeeds (f s) I"
  shows "succeeds (iter_res n f s) I"
  using assms
proof (induction n arbitrary: s)
  case 0
  then show ?case by simp
next
  case (Suc n)
  have "succeeds (f s) I" using Suc.prems by simp
  then show ?case
    by (auto elim!: succeeds_mono intro: Suc.IH Suc.prems(2))
qed

lemma iter_res_on_success:
  assumes "I s" and "\<And>s. I s \<Longrightarrow> on_success (f s) I"
  shows "on_success (iter_res n f s) I"
  using assms
proof (induction n arbitrary: s)
  case 0
  then show ?case by simp
next
  case (Suc n)
  have "on_success (f s) I" using Suc.prems by simp
  then show ?case
    by (auto elim!: on_success_mono intro: Suc.IH Suc.prems(2))
qed

text \<open>The last iteration split off.\<close>

lemma iter_res_snoc: "iter_res (Suc n) f s = bind_res (iter_res n f s) f"
proof (induction n arbitrary: s)
  case (Suc n)
  have "iter_res (Suc (Suc n)) f s = bind_res (f s) (iter_res (Suc n) f)" by simp
  also have "\<dots> = bind_res (f s) (\<lambda>t. bind_res (iter_res n f t) f)"
    by (intro bind_res_cong [OF refl]) (rule Suc)
  finally show ?case by (simp add: bind_res_assoc)
next
  case 0
  then show ?case by (cases "f s") simp_all
qed

section \<open>Division, remainder and shifts\<close>

text \<open>\<open>/\<close> and \<open>%\<close> on \<open>int\<close> truncate towards zero; on unsigned values they are those of the
  word.  A zero divisor traps; a shift by a negative amount or by the width or more is undefined.\<close>

definition quot_int :: "int \<Rightarrow> int \<Rightarrow> int res" where
  "quot_int a b = bind_res (require DivisionByZero (b \<noteq> 0)) (\<lambda>_. Inr (a sdiv b))"

definition rem_int :: "int \<Rightarrow> int \<Rightarrow> int res" where
  "rem_int a b = bind_res (require DivisionByZero (b \<noteq> 0)) (\<lambda>_. Inr (a smod b))"

definition rem_word :: "'a::len word \<Rightarrow> 'a word \<Rightarrow> 'a word res" where
  "rem_word a b = bind_res (require DivisionByZero (b \<noteq> 0)) (\<lambda>_. Inr (a mod b))"

definition div_word :: "'a::len word \<Rightarrow> 'a word \<Rightarrow> 'a word res" where
  "div_word a b = bind_res (require DivisionByZero (b \<noteq> 0)) (\<lambda>_. Inr (a div b))"

definition shr_u64 :: "u64 \<Rightarrow> int \<Rightarrow> u64 res" where
  "shr_u64 x n = bind_res (require UndefinedShift (0 \<le> n \<and> n < 64)) (\<lambda>_. Inr (drop_bit (nat n) x))"

lemma sdiv_nonneg: "0 \<le> a \<Longrightarrow> 0 < b \<Longrightarrow> a sdiv b = (a :: int) div b"
  by (cases "a = 0") (auto simp: signed_divide_int_def sgn_if)

lemma smod_nonneg: "0 \<le> a \<Longrightarrow> 0 < b \<Longrightarrow> a smod b = (a :: int) mod b"
  by (cases "a = 0") (auto simp: signed_modulo_int_def sgn_if)

lemma succeeds_arith [wp]:
  "succeeds (quot_int a b) P \<longleftrightarrow> b \<noteq> 0 \<and> P (a sdiv b)"
  "succeeds (rem_int a b) P \<longleftrightarrow> b \<noteq> 0 \<and> P (a smod b)"
  "succeeds (rem_word x y) Q \<longleftrightarrow> y \<noteq> 0 \<and> Q (x mod y)"
  "succeeds (shr_u64 z n) R \<longleftrightarrow> 0 \<le> n \<and> n < 64 \<and> R (drop_bit (nat n) z)"
  by (auto simp: quot_int_def rem_int_def rem_word_def shr_u64_def)

lemma on_success_arith [wp]:
  "on_success (quot_int a b) P \<longleftrightarrow> (b \<noteq> 0 \<longrightarrow> P (a sdiv b))"
  "on_success (rem_int a b) P \<longleftrightarrow> (b \<noteq> 0 \<longrightarrow> P (a smod b))"
  "on_success (rem_word x y) Q \<longleftrightarrow> (y \<noteq> 0 \<longrightarrow> Q (x mod y))"
  "on_success (shr_u64 z n) R \<longleftrightarrow> (0 \<le> n \<and> n < 64 \<longrightarrow> R (drop_bit (nat n) z))"
  by (auto simp: quot_int_def rem_int_def rem_word_def shr_u64_def)

section \<open>Vectors\<close>

definition vec_get :: "'a list \<Rightarrow> int \<Rightarrow> 'a res" where
  "vec_get xs i = (if 0 \<le> i \<and> i < int (length xs) then Inr (xs ! nat i) else Inl OutOfBounds)"

definition vec_set :: "'a list \<Rightarrow> int \<Rightarrow> 'a \<Rightarrow> 'a list res" where
  "vec_set xs i v = (if 0 \<le> i \<and> i < int (length xs) then Inr (xs[nat i := v]) else Inl OutOfBounds)"

definition vec_upd :: "'a list \<Rightarrow> int \<Rightarrow> ('a \<Rightarrow> 'a) \<Rightarrow> 'a list res" where
  "vec_upd xs i f = bind_res (vec_get xs i) (\<lambda>x. vec_set xs i (f x))"

lemma vec_get_ok: "0 \<le> i \<Longrightarrow> i < int (length xs) \<Longrightarrow> vec_get xs i = Inr (xs ! nat i)"
  by (simp add: vec_get_def)

lemma vec_set_ok: "0 \<le> i \<Longrightarrow> i < int (length xs) \<Longrightarrow> vec_set xs i v = Inr (xs[nat i := v])"
  by (simp add: vec_set_def)

lemma vec_upd_ok:
  "0 \<le> i \<Longrightarrow> i < int (length xs) \<Longrightarrow> vec_upd xs i f = Inr (xs[nat i := f (xs ! nat i)])"
  by (simp add: vec_upd_def vec_get_def vec_set_def)

lemma vec_get_Inr:
  "vec_get xs i = Inr x \<longleftrightarrow> 0 \<le> i \<and> i < int (length xs) \<and> x = xs ! nat i"
  by (auto simp: vec_get_def)

lemma vec_set_Inr:
  "vec_set xs i v = Inr ys \<longleftrightarrow> 0 \<le> i \<and> i < int (length xs) \<and> ys = xs[nat i := v]"
  by (auto simp: vec_set_def)

lemma vec_upd_Inr:
  "vec_upd xs i f = Inr ys \<longleftrightarrow>
     0 \<le> i \<and> i < int (length xs) \<and> ys = xs[nat i := f (xs ! nat i)]"
  by (auto simp: vec_upd_def bind_res_eq_Inr vec_get_Inr vec_set_Inr)

lemma succeeds_vec_get [wp]:
  "succeeds (vec_get xs i) P \<longleftrightarrow> 0 \<le> i \<and> i < int (length xs) \<and> P (xs ! nat i)"
  by (auto simp: vec_get_def)

lemma succeeds_vec_set [wp]:
  "succeeds (vec_set xs i v) P \<longleftrightarrow> 0 \<le> i \<and> i < int (length xs) \<and> P (xs[nat i := v])"
  by (auto simp: vec_set_def)

lemma succeeds_vec_upd [wp]:
  "succeeds (vec_upd xs i f) P \<longleftrightarrow>
     0 \<le> i \<and> i < int (length xs) \<and> P (xs[nat i := f (xs ! nat i)])"
  by (auto simp: vec_upd_def succeeds_vec_get succeeds_vec_set)

lemma on_success_vec_get [wp]:
  "on_success (vec_get xs i) P \<longleftrightarrow> (0 \<le> i \<and> i < int (length xs) \<longrightarrow> P (xs ! nat i))"
  by (auto simp: vec_get_def)

lemma on_success_vec_set [wp]:
  "on_success (vec_set xs i v) P \<longleftrightarrow> (0 \<le> i \<and> i < int (length xs) \<longrightarrow> P (xs[nat i := v]))"
  by (auto simp: vec_set_def)

lemma on_success_vec_upd [wp]:
  "on_success (vec_upd xs i f) P \<longleftrightarrow>
     (0 \<le> i \<and> i < int (length xs) \<longrightarrow> P (xs[nat i := f (xs ! nat i)]))"
  by (auto simp: vec_upd_def on_success_vec_get on_success_vec_set)

text \<open>The first element a scan finds, with its position: \<open>for (it = v.begin(); ...)\<close> with a
  \<open>break\<close>, and the erasure of that element.\<close>

fun find_index :: "('a \<Rightarrow> bool) \<Rightarrow> 'a list \<Rightarrow> nat option" where
  "find_index p [] = None"
| "find_index p (x # xs) = (if p x then Some 0 else map_option Suc (find_index p xs))"

fun erase_first :: "('a \<Rightarrow> bool) \<Rightarrow> 'a list \<Rightarrow> 'a list" where
  "erase_first p [] = []"
| "erase_first p (x # xs) = (if p x then xs else x # erase_first p xs)"

lemma find_index_Some:
  "find_index p xs = Some i \<Longrightarrow> i < length xs \<and> p (xs ! i) \<and> (\<forall>j < i. \<not> p (xs ! j))"
proof (induction xs arbitrary: i)
  case Nil
  then show ?case by simp
next
  case (Cons x xs)
  then show ?case
    by (cases i) (auto split: if_splits simp: less_Suc_eq_0_disj)
qed

lemma find_index_None: "find_index p xs = None \<longleftrightarrow> (\<forall>x \<in> set xs. \<not> p x)"
  by (induction xs) auto

lemma erase_first_none [simp]: "\<forall>x \<in> set xs. \<not> p x \<Longrightarrow> erase_first p xs = xs"
  by (induction xs) auto

lemma set_erase_first: "set (erase_first p xs) \<subseteq> set xs"
  by (induction xs) auto

lemma distinct_map_erase_first:
  "distinct (map f xs) \<Longrightarrow> distinct (map f (erase_first p xs))"
  using set_erase_first by (induction xs) (auto, fastforce)

lemma length_erase_first:
  "length (erase_first p xs) = (if \<exists>x \<in> set xs. p x then length xs - 1 else length xs)"
proof (induction xs)
  case Nil
  then show ?case by simp
next
  case (Cons x xs)
  then show ?case
    by (cases xs) auto
qed

section \<open>Decimal numbers\<close>

text \<open>\<open>std::to_string\<close> on \<open>int\<close>.\<close>

fun digits :: "nat \<Rightarrow> string" where
  "digits n = (if n < 10 then [char_of (48 + n)] else digits (n div 10) @ [char_of (48 + n mod 10)])"

definition to_string :: "int \<Rightarrow> string" where
  "to_string i = (if i < 0 then ''-'' @ digits (nat (- i)) else digits (nat i))"

end
