(* ===== verification/Common.thy ===== *)
theory Common
  imports Prelude "HOL-Library.Multiset"
begin

text \<open>
  The types every component shares (\<open>DRAMsim3/src/common.h\<close>) and the helpers of
  \<open>common.cc\<close>: addresses, command types, commands and transactions, bit-field extraction,
  the integer logarithm, command names and string splitting.
\<close>

section \<open>Addresses, commands and transactions\<close>

record Address =
  channel :: int
  rank :: int
  bankgroup :: int
  bank :: int
  row :: int
  column :: int

definition mk_Address :: "int \<Rightarrow> int \<Rightarrow> int \<Rightarrow> int \<Rightarrow> int \<Rightarrow> int \<Rightarrow> Address" where
  "mk_Address ch ra bg ba ro co =
     \<lparr>channel = ch, rank = ra, bankgroup = bg, bank = ba, row = ro, column = co\<rparr>"

definition default_Address :: Address where
  "default_Address = mk_Address (-1) (-1) (-1) (-1) (-1) (-1)"

lemma mk_Address_sel [simp]:
  "channel (mk_Address ch ra bg ba ro co) = ch"
  "rank (mk_Address ch ra bg ba ro co) = ra"
  "bankgroup (mk_Address ch ra bg ba ro co) = bg"
  "bank (mk_Address ch ra bg ba ro co) = ba"
  "row (mk_Address ch ra bg ba ro co) = ro"
  "column (mk_Address ch ra bg ba ro co) = co"
  by (simp_all add: mk_Address_def)

datatype CommandType =
    READ | READ_PRECHARGE | WRITE | WRITE_PRECHARGE | ACTIVATE | PRECHARGE
  | READ_PRECHARGE2 | WRITE_PRECHARGE2 | PRECHARGE2
  | REFRESH_BANK | REFsb | REFab | SREF_ENTER | SREF_EXIT | RFMsb | RFMab
  | CMD_SIZE

text \<open>The value of an enumerator under \<open>static_cast<int>\<close>.\<close>

primrec cmd_index :: "CommandType \<Rightarrow> int" where
  "cmd_index READ = 0"
| "cmd_index READ_PRECHARGE = 1"
| "cmd_index WRITE = 2"
| "cmd_index WRITE_PRECHARGE = 3"
| "cmd_index ACTIVATE = 4"
| "cmd_index PRECHARGE = 5"
| "cmd_index READ_PRECHARGE2 = 6"
| "cmd_index WRITE_PRECHARGE2 = 7"
| "cmd_index PRECHARGE2 = 8"
| "cmd_index REFRESH_BANK = 9"
| "cmd_index REFsb = 10"
| "cmd_index REFab = 11"
| "cmd_index SREF_ENTER = 12"
| "cmd_index SREF_EXIT = 13"
| "cmd_index RFMsb = 14"
| "cmd_index RFMab = 15"
| "cmd_index CMD_SIZE = 16"

text \<open>The type is finite, so statements about all command types are decided by evaluation.\<close>

definition all_CommandTypes :: "CommandType list" where
  "all_CommandTypes =
     [READ, READ_PRECHARGE, WRITE, WRITE_PRECHARGE, ACTIVATE, PRECHARGE, READ_PRECHARGE2,
      WRITE_PRECHARGE2, PRECHARGE2, REFRESH_BANK, REFsb, REFab, SREF_ENTER, SREF_EXIT,
      RFMsb, RFMab, CMD_SIZE]"

lemma UNIV_CommandType: "(UNIV :: CommandType set) = set all_CommandTypes"
proof -
  have "x \<in> set all_CommandTypes" for x
    by (cases x) (simp_all add: all_CommandTypes_def)
  then show ?thesis by blast
qed

instantiation CommandType :: enum
begin

definition enum_CommandType :: "CommandType list" where
  "enum_CommandType = all_CommandTypes"

definition enum_all_CommandType :: "(CommandType \<Rightarrow> bool) \<Rightarrow> bool" where
  "enum_all_CommandType P \<longleftrightarrow> list_all P all_CommandTypes"

definition enum_ex_CommandType :: "(CommandType \<Rightarrow> bool) \<Rightarrow> bool" where
  "enum_ex_CommandType P \<longleftrightarrow> list_ex P all_CommandTypes"

instance
proof
  show "(UNIV :: CommandType set) = set enum_class.enum"
    by (simp add: enum_CommandType_def UNIV_CommandType)
  show "distinct (enum_class.enum :: CommandType list)"
    by (simp add: enum_CommandType_def all_CommandTypes_def)
  show "enum_class.enum_all P \<longleftrightarrow> Ball UNIV P" for P :: "CommandType \<Rightarrow> bool"
    by (simp add: enum_all_CommandType_def UNIV_CommandType list_all_iff)
  show "enum_class.enum_ex P \<longleftrightarrow> Bex UNIV P" for P :: "CommandType \<Rightarrow> bool"
    by (simp add: enum_ex_CommandType_def UNIV_CommandType list_ex_iff)
qed

end

lemma cmd_index_range [simp]: "0 \<le> cmd_index c" "cmd_index c \<le> 16"
  by (cases c; simp)+

lemma cmd_index_less [simp]: "c \<noteq> CMD_SIZE \<Longrightarrow> cmd_index c < 16"
  by (cases c) simp_all

lemma cmd_index_inj: "cmd_index c = cmd_index d \<Longrightarrow> c = d"
  by (cases c; cases d; simp)

record Command =
  cmd_type :: CommandType
  addr :: Address
  hex_addr :: u64

definition mk_Command :: "CommandType \<Rightarrow> Address \<Rightarrow> u64 \<Rightarrow> Command" where
  "mk_Command t a h = \<lparr>cmd_type = t, addr = a, hex_addr = h\<rparr>"

definition invalid_Command :: Command where
  "invalid_Command = mk_Command CMD_SIZE default_Address 0"

definition IsValid :: "Command \<Rightarrow> bool" where
  "IsValid c \<longleftrightarrow> cmd_type c \<noteq> CMD_SIZE"

definition IsRefresh :: "Command \<Rightarrow> bool" where
  "IsRefresh c \<longleftrightarrow> cmd_type c = REFab \<or> cmd_type c = REFsb \<or> cmd_type c = REFRESH_BANK"

definition IsRFM :: "Command \<Rightarrow> bool" where
  "IsRFM c \<longleftrightarrow> cmd_type c = RFMab \<or> cmd_type c = RFMsb"

definition IsRead :: "Command \<Rightarrow> bool" where
  "IsRead c \<longleftrightarrow> cmd_type c = READ \<or> cmd_type c = READ_PRECHARGE \<or> cmd_type c = READ_PRECHARGE2"

definition IsWrite :: "Command \<Rightarrow> bool" where
  "IsWrite c \<longleftrightarrow> cmd_type c = WRITE \<or> cmd_type c = WRITE_PRECHARGE \<or> cmd_type c = WRITE_PRECHARGE2"

definition IsReadWrite :: "Command \<Rightarrow> bool" where
  "IsReadWrite c \<longleftrightarrow> IsRead c \<or> IsWrite c"

definition IsSbCMD :: "Command \<Rightarrow> bool" where
  "IsSbCMD c \<longleftrightarrow> cmd_type c = RFMsb \<or> cmd_type c = REFsb"

definition IsRankCMD :: "Command \<Rightarrow> bool" where
  "IsRankCMD c \<longleftrightarrow> cmd_type c = REFab \<or> cmd_type c = SREF_ENTER \<or> cmd_type c = SREF_EXIT
     \<or> cmd_type c = RFMab"

abbreviation Channel :: "Command \<Rightarrow> int" where "Channel c \<equiv> channel (addr c)"
abbreviation Rank :: "Command \<Rightarrow> int" where "Rank c \<equiv> rank (addr c)"
abbreviation Bankgroup :: "Command \<Rightarrow> int" where "Bankgroup c \<equiv> bankgroup (addr c)"
abbreviation Bank :: "Command \<Rightarrow> int" where "Bank c \<equiv> bank (addr c)"
abbreviation Row :: "Command \<Rightarrow> int" where "Row c \<equiv> row (addr c)"
abbreviation Column :: "Command \<Rightarrow> int" where "Column c \<equiv> column (addr c)"

lemmas command_kind_defs =
  IsValid_def IsRefresh_def IsRFM_def IsRead_def IsWrite_def IsReadWrite_def IsSbCMD_def
  IsRankCMD_def

lemma mk_Command_sel [simp]:
  "cmd_type (mk_Command t a h) = t"
  "addr (mk_Command t a h) = a"
  "hex_addr (mk_Command t a h) = h"
  by (simp_all add: mk_Command_def)

lemma IsValid_simps [simp]:
  "IsValid (mk_Command t a h) \<longleftrightarrow> t \<noteq> CMD_SIZE"
  "\<not> IsValid invalid_Command"
  by (simp_all add: IsValid_def invalid_Command_def)

text \<open>The five classes of command types are disjoint where the code tests them in sequence.\<close>

lemma command_classes_disjoint:
  "IsRankCMD c \<Longrightarrow> \<not> IsSbCMD c" "IsRankCMD c \<Longrightarrow> \<not> IsReadWrite c"
  "IsSbCMD c \<Longrightarrow> \<not> IsReadWrite c" "IsRead c \<Longrightarrow> \<not> IsWrite c"
  by (auto simp: command_kind_defs)

record Transaction =
  trans_addr :: u64
  added_cycle :: u64
  complete_cycle :: u64
  is_write :: bool

definition mk_Transaction :: "u64 \<Rightarrow> bool \<Rightarrow> Transaction" where
  "mk_Transaction a w = \<lparr>trans_addr = a, added_cycle = 0, complete_cycle = 0, is_write = w\<rparr>"

lemma mk_Transaction_sel [simp]:
  "trans_addr (mk_Transaction a w) = a" "is_write (mk_Transaction a w) = w"
  by (simp_all add: mk_Transaction_def)

section \<open>Bit fields and the integer logarithm\<close>

text \<open>A shift of a 64-bit value by 64 or more is undefined behaviour.\<close>

definition ModuloWidth :: "u64 \<Rightarrow> u32 \<Rightarrow> u32 \<Rightarrow> u32 res" where
  "ModuloWidth a bit_width pos =
     bind_res (require UndefinedShift (unat pos < 64 \<and> unat bit_width < 64)) (\<lambda>_.
       let store = drop_bit (unat pos) a;
           a' = push_bit (unat bit_width) (drop_bit (unat bit_width) store)
       in Inr (ucast (store XOR a')))"

definition GetBitInPos :: "u64 \<Rightarrow> int \<Rightarrow> int res" where
  "GetBitInPos bits pos =
     bind_res (require UndefinedShift (0 \<le> pos \<and> pos < 64)) (\<lambda>_.
       Inr (uint (drop_bit (nat pos) bits AND 1)))"

function LogBase2_loop :: "int \<Rightarrow> int \<Rightarrow> int" where
  "LogBase2_loop p i = (if p > 1 then LogBase2_loop (p div 2) (i + 1) else i)"
  by pat_completeness auto
termination
  by (relation "measure (\<lambda>(p, i). nat p)") auto

declare LogBase2_loop.simps [simp del]

definition LogBase2 :: "int \<Rightarrow> int" where
  "LogBase2 power_of_two = LogBase2_loop power_of_two 0"

lemma LogBase2_loop_shift: "LogBase2_loop p (i + k) = LogBase2_loop p i + k"
proof (induction p i rule: LogBase2_loop.induct)
  case (1 p i)
  show ?case
  proof (cases "p > 1")
    case True
    have "LogBase2_loop (p div 2) (i + 1 + k) = LogBase2_loop (p div 2) (i + 1) + k"
      using True by (rule "1.IH")
    with True show ?thesis
      by (simp add: LogBase2_loop.simps [of p "i + k"] LogBase2_loop.simps [of p i] ac_simps)
  next
    case False
    then show ?thesis by (simp add: LogBase2_loop.simps)
  qed
qed

lemma LogBase2_rec: "p > 1 \<Longrightarrow> LogBase2 p = LogBase2 (p div 2) + 1"
  using LogBase2_loop_shift [of "p div 2" 0 1]
  by (simp add: LogBase2_def LogBase2_loop.simps [of p 0])

lemma LogBase2_small [simp]: "p \<le> 1 \<Longrightarrow> LogBase2 p = 0"
  by (simp add: LogBase2_def LogBase2_loop.simps)

lemma LogBase2_nonneg: "0 \<le> LogBase2 p"
proof (induction "nat p" arbitrary: p rule: less_induct)
  case less
  show ?case
  proof (cases "p > 1")
    case True
    then have "0 \<le> LogBase2 (p div 2)" by (intro less) simp
    with True show ?thesis by (simp add: LogBase2_rec)
  next
    case False
    then show ?thesis by simp
  qed
qed

lemma LogBase2_bounds:
  "1 \<le> p \<Longrightarrow> 2 ^ nat (LogBase2 p) \<le> p \<and> p < 2 ^ (nat (LogBase2 p) + 1)"
proof (induction "nat p" arbitrary: p rule: less_induct)
  case less
  show ?case
  proof (cases "p > 1")
    case True
    have IH: "2 ^ nat (LogBase2 (p div 2)) \<le> p div 2 \<and>
              p div 2 < 2 ^ (nat (LogBase2 (p div 2)) + 1)"
      using True by (intro less) simp_all
    have "nat (LogBase2 p) = Suc (nat (LogBase2 (p div 2)))"
      using True LogBase2_nonneg [of "p div 2"] by (simp add: LogBase2_rec)
    with IH show ?thesis by (simp, linarith)
  next
    case False
    with less.prems show ?thesis by simp
  qed
qed

lemma LogBase2_power2 [simp]: "LogBase2 (2 ^ n) = int n"
proof (induction n)
  case 0
  then show ?case by simp
next
  case (Suc n)
  have "(2::int) ^ Suc n > 1" by (rule one_less_power) simp_all
  then show ?case using Suc by (simp add: LogBase2_rec)
qed

lemma LogBase2_eq:
  assumes "2 ^ n \<le> p" and "p < 2 ^ (n + 1)"
  shows "LogBase2 p = int n"
proof -
  have p: "1 \<le> p" using assms(1) one_le_power [of "2::int" n] by linarith
  let ?m = "nat (LogBase2 p)"
  have "2 ^ ?m \<le> p" and "p < 2 ^ (?m + 1)" using LogBase2_bounds [OF p] by auto
  then have "(2::int) ^ n < 2 ^ (?m + 1)" and "(2::int) ^ ?m < 2 ^ (n + 1)"
    using assms by linarith+
  then have "n < ?m + 1" and "?m < n + 1"
    by (simp_all only: power_strict_increasing_iff [of "2::int"] one_less_numeral_iff semiring_norm)
  then have "?m = n" by simp
  then show ?thesis using LogBase2_nonneg [of p] by linarith
qed

text \<open>The low \<open>w\<close> bits of a word, as \<open>store ^ ((store >> w) << w)\<close> computes them.\<close>

lemma xor_high_bits: "x XOR push_bit w (drop_bit w x) = take_bit w (x :: 'a::len word)"
  by (rule bit_eqI) (auto simp: bit_simps)

lemma ModuloWidth_take_bit:
  "unat pos < 64 \<Longrightarrow> unat bw < 64 \<Longrightarrow>
     ModuloWidth a bw pos = Inr (ucast (take_bit (unat bw) (drop_bit (unat pos) a)))"
  by (simp add: ModuloWidth_def xor_high_bits Let_def)

section \<open>Command names\<close>

definition command_string :: "string list" where
  "command_string =
     [''read'', ''read_p'', ''write'', ''write_p'', ''activate'', ''precharge'',
      ''refresh_bank'', ''ref_sb'', ''ref_ab'', ''self_refresh_enter'', ''self_refresh_exit'',
      ''rfm_sb'', ''rfm_ab'', ''WRONG'']"

definition CommandTypeToString :: "CommandType \<Rightarrow> string res" where
  "CommandTypeToString typ = vec_get command_string (cmd_index typ)"

section \<open>Splitting strings\<close>

text \<open>The pieces \<open>std::getline\<close> reads up to each delimiter; empty pieces are dropped.\<close>

fun getline_items :: "char \<Rightarrow> string \<Rightarrow> string list" where
  "getline_items d [] = [[]]"
| "getline_items d (c # cs) =
     (if c = d then [] # getline_items d cs
      else (case getline_items d cs of
              [] \<Rightarrow> [[c]]
            | item # items \<Rightarrow> (c # item) # items))"

definition StringSplit :: "string \<Rightarrow> char \<Rightarrow> string list" where
  "StringSplit s delim = filter (\<lambda>item. item \<noteq> []) (getline_items delim s)"

lemma getline_items_nonempty: "getline_items d cs \<noteq> []"
  by (cases cs) (auto split: list.splits)

lemma getline_items_delim: "item \<in> set (getline_items d cs) \<Longrightarrow> d \<notin> set item"
  by (induction cs arbitrary: item) (auto split: list.splits if_splits)

lemma concat_getline_items: "concat (getline_items d cs) = filter (\<lambda>c. c \<noteq> d) cs"
  by (induction cs) (auto split: list.splits simp: getline_items_nonempty)

lemma concat_filter_nonempty: "concat (filter (\<lambda>item. item \<noteq> []) items) = concat items"
  by (induction items) auto

end
