(* ===== verification/Simple_Stats.thy ===== *)
theory Simple_Stats
  imports Common
begin

text \<open>
  The statistics object of a channel (\<open>DRAMsim3/src/simple_stats.h\<close> and \<open>.cc\<close>): event
  counters, vector counters and histograms, each kept per epoch and in total.  The maps from
  names are partial functions; the counts of a histogram are an association list, whose order no
  operation depends on.  Floating-point statistics, the JSON and text output and the header strings are
  left out: no other component reads them.
\<close>

record SimpleStats =
  counters :: "string \<rightharpoonup> u64"
  epoch_counters :: "string \<rightharpoonup> u64"
  vec_counters :: "string \<rightharpoonup> u64 list"
  epoch_vec_counters :: "string \<rightharpoonup> u64 list"
  histo_bounds :: "string \<rightharpoonup> int \<times> int"
  bin_widths :: "string \<rightharpoonup> int"
  histo_counts :: "string \<rightharpoonup> (int \<times> u64) list"
  epoch_histo_counts :: "string \<rightharpoonup> (int \<times> u64) list"
  histo_bins :: "string \<rightharpoonup> u64 list"
  epoch_histo_bins :: "string \<rightharpoonup> u64 list"

text \<open>\<open>operator[]\<close> of \<open>std::unordered_map\<close>: a missing key is inserted with a zero value.\<close>

definition ctr_at :: "(string \<rightharpoonup> u64) \<Rightarrow> string \<Rightarrow> u64" where
  "ctr_at m k = (case m k of None \<Rightarrow> 0 | Some v \<Rightarrow> v)"

definition Increment :: "string \<Rightarrow> SimpleStats \<Rightarrow> SimpleStats" where
  "Increment name s =
     s\<lparr>epoch_counters := (epoch_counters s)(name \<mapsto> ctr_at (epoch_counters s) name + 1)\<rparr>"

definition IncrementVecBy :: "string \<Rightarrow> int \<Rightarrow> int \<Rightarrow> SimpleStats \<Rightarrow> SimpleStats res" where
  "IncrementVecBy name pos num s =
     (let v = (case epoch_vec_counters s name of None \<Rightarrow> [] | Some v \<Rightarrow> v)
      in bind_res (vec_upd v pos (\<lambda>x. x + to_u64 num)) (\<lambda>v'.
           Inr (s\<lparr>epoch_vec_counters := (epoch_vec_counters s)(name \<mapsto> v')\<rparr>)))"

definition IncrementVec :: "string \<Rightarrow> int \<Rightarrow> SimpleStats \<Rightarrow> SimpleStats res" where
  "IncrementVec name pos s =
     (let v = (case epoch_vec_counters s name of None \<Rightarrow> [] | Some v \<Rightarrow> v)
      in bind_res (vec_upd v pos (\<lambda>x. x + 1)) (\<lambda>v'.
           Inr (s\<lparr>epoch_vec_counters := (epoch_vec_counters s)(name \<mapsto> v')\<rparr>)))"

text \<open>The count of a value in a histogram, created or raised; the value is an \<open>int\<close> parameter and the
  histogram of an unknown name starts empty.\<close>

definition histo_put :: "int \<Rightarrow> u64 \<Rightarrow> (int \<times> u64) list \<Rightarrow> (int \<times> u64) list" where
  "histo_put v m l =
     (if v \<in> fst ` set l then map (\<lambda>(k, n). (k, if k = v then n + m else n)) l else l @ [(v, m)])"

definition histo_at :: "(string \<rightharpoonup> (int \<times> u64) list) \<Rightarrow> string \<Rightarrow> (int \<times> u64) list" where
  "histo_at h name = (case h name of None \<Rightarrow> [] | Some l \<Rightarrow> l)"

definition AddValue :: "string \<Rightarrow> int \<Rightarrow> SimpleStats \<Rightarrow> SimpleStats" where
  "AddValue name val s =
     s\<lparr>epoch_histo_counts := (epoch_histo_counts s)(name \<mapsto> histo_put val 1 (histo_at (epoch_histo_counts s) name))\<rparr>"

definition GetCtr :: "string \<Rightarrow> SimpleStats \<Rightarrow> u64" where
  "GetCtr name s = ctr_at (counters s) name"

definition GetECtr :: "string \<Rightarrow> SimpleStats \<Rightarrow> u64" where
  "GetECtr name s = ctr_at (epoch_counters s) name"

section \<open>Construction\<close>

text \<open>\<open>emplace\<close> does not overwrite an existing entry.\<close>

definition emplace :: "('k \<rightharpoonup> 'v) \<Rightarrow> 'k \<Rightarrow> 'v \<Rightarrow> ('k \<rightharpoonup> 'v)" where
  "emplace m k v = (case m k of None \<Rightarrow> m(k \<mapsto> v) | Some _ \<Rightarrow> m)"

definition InitStat :: "string \<Rightarrow> string \<Rightarrow> SimpleStats \<Rightarrow> SimpleStats" where
  "InitStat name stat_type s =
     (if stat_type = ''counter'' then
        s\<lparr>counters := emplace (counters s) name 0,
          epoch_counters := emplace (epoch_counters s) name 0\<rparr>
      else s)"

definition InitVecStat :: "string \<Rightarrow> string \<Rightarrow> int \<Rightarrow> SimpleStats \<Rightarrow> SimpleStats" where
  "InitVecStat name stat_type vec_len s =
     (if stat_type = ''vec_counter'' then
        s\<lparr>vec_counters := emplace (vec_counters s) name (replicate (nat vec_len) 0),
          epoch_vec_counters := emplace (epoch_vec_counters s) name (replicate (nat vec_len) 0)\<rparr>
      else s)"

definition InitHistoStat :: "string \<Rightarrow> int \<Rightarrow> int \<Rightarrow> int \<Rightarrow> SimpleStats \<Rightarrow> SimpleStats" where
  "InitHistoStat name start_val end_val num_bins s =
     s\<lparr>bin_widths := emplace (bin_widths s) name ((end_val - start_val) sdiv num_bins),
       histo_bounds := emplace (histo_bounds s) name (start_val, end_val),
       histo_counts := emplace (histo_counts s) name [],
       epoch_histo_counts := emplace (epoch_histo_counts s) name [],
       histo_bins := emplace (histo_bins s) name (replicate (nat (num_bins + 2)) 0),
       epoch_histo_bins := emplace (epoch_histo_bins s) name (replicate (nat (num_bins + 2)) 0)\<rparr>"

definition counter_names :: "string list" where
  "counter_names =
     [''num_cycles'', ''epoch_num'', ''num_reads_done'', ''num_writes_done'',
      ''num_write_buf_hits'', ''num_read_row_hits'', ''num_write_row_hits'', ''num_read_cmds'',
      ''num_write_cmds'', ''num_act_cmds'', ''num_pre_cmds'', ''num_pre2_cmds'',
      ''num_ondemand_pres'', ''num_refab_cmds'', ''num_refsb_cmds'', ''num_refb_cmds'',
      ''num_srefe_cmds'', ''num_srefx_cmds'', ''hbm_dual_cmds'', ''num_rfmab_cmds'',
      ''num_rfmsb_cmds'', ''num_alerts'', ''num_write_drains'', ''num_opp_write_drains'',
      ''num_opp_write_drains_post_10M'', ''num_moat_mitigations'', ''num_mopac_alerts_buf_full'',
      ''num_mopac_buf_ins'', ''num_mopac_alerts_qth'', ''rows_ge_32_acts'', ''rows_ge_64_acts'',
      ''rows_ge_128_acts'', ''rows_ge_200_acts'', ''rows_ge_256_acts'']"

definition empty_stats :: SimpleStats where
  "empty_stats =
     \<lparr>counters = Map.empty, epoch_counters = Map.empty, vec_counters = Map.empty,
      epoch_vec_counters = Map.empty, histo_bounds = Map.empty, bin_widths = Map.empty,
      histo_counts = Map.empty, epoch_histo_counts = Map.empty, histo_bins = Map.empty,
      epoch_histo_bins = Map.empty\<rparr>"

text \<open>The constructor, for a configuration with the given number of ranks.  The registrations of
  statistics kinds that are not modelled are skipped; the others commute.\<close>

definition vec_stats :: "int \<Rightarrow> (string \<times> int) list" where
  "vec_stats ranks = [(''prac_per_tREFI'', 13), (''acts_per_tREFI'', 13), (''all_bank_idle_cycles'', ranks),
     (''rank_active_cycles'', ranks), (''sref_cycles'', ranks)]"

definition histo_stats :: "(string \<times> int \<times> int \<times> int) list" where
  "histo_stats = [(''read_latency'', 0, 200, 10), (''write_latency'', 0, 200, 10), (''interarrival_latency'', 0, 100, 10),
     (''t_btwn_write_drains'', 0, 10000, 10), (''t_btwn_opp_write_drains'', 0, 10000, 10), (''row_open_time'', 0, 32, 8)]"

definition new_SimpleStats :: "int \<Rightarrow> SimpleStats" where
  "new_SimpleStats ranks =
     (let s = fold (\<lambda>n. InitStat n ''counter'') counter_names empty_stats;
          s = fold (\<lambda>(n, k). InitVecStat n ''vec_counter'' k) (vec_stats ranks) s
      in fold (\<lambda>(n, a, b, k). InitHistoStat n a b k) histo_stats s)"

section \<open>Reset\<close>

definition Reset :: "SimpleStats \<Rightarrow> SimpleStats" where
  "Reset s =
     s\<lparr>counters := map_option (\<lambda>_. 0) \<circ> counters s,
       epoch_counters := map_option (\<lambda>_. 0) \<circ> epoch_counters s,
       vec_counters := map_option (map (\<lambda>_. 0)) \<circ> vec_counters s,
       epoch_vec_counters := map_option (map (\<lambda>_. 0)) \<circ> epoch_vec_counters s,
       histo_counts := map_option (\<lambda>_. []) \<circ> histo_counts s,
       epoch_histo_counts := map_option (\<lambda>_. []) \<circ> epoch_histo_counts s\<rparr>"

section \<open>What the operations keep\<close>

text \<open>The vector counters a channel increments exist with the lengths the constructor gives.\<close>

definition vec_len_is :: "SimpleStats \<Rightarrow> string \<Rightarrow> int \<Rightarrow> bool" where
  "vec_len_is s name n \<longleftrightarrow>
     (case epoch_vec_counters s name of None \<Rightarrow> False | Some v \<Rightarrow> int (length v) = n)"

definition vec_names :: "string list" where
  "vec_names = map fst (vec_stats 0)"

definition histo_names :: "string list" where
  "histo_names = map fst histo_stats"

text \<open>Every registered vector and histogram is there, with bins for all values.\<close>

definition histo_ok :: "SimpleStats \<Rightarrow> string \<Rightarrow> bool" where
  "histo_ok s n \<longleftrightarrow> (\<exists>lo hi w b e. histo_bounds s n = Some (lo, hi) \<and> bin_widths s n = Some w \<and> histo_bins s n = Some b \<and>
     epoch_histo_bins s n = Some e \<and> 0 < w \<and> lo \<le> hi \<and> length b = length e \<and> (hi - lo) div w + 2 \<le> int (length e))"

definition vec_ok :: "SimpleStats \<Rightarrow> string \<Rightarrow> bool" where
  "vec_ok s n \<longleftrightarrow> (\<exists>v e. vec_counters s n = Some v \<and> epoch_vec_counters s n = Some e \<and> length e = length v)"

definition shape_ok :: "SimpleStats \<Rightarrow> bool" where
  "shape_ok s \<longleftrightarrow> (\<forall>n \<in> set histo_names. histo_ok s n) \<and> (\<forall>n \<in> set vec_names. vec_ok s n)"

definition stats_wf :: "int \<Rightarrow> SimpleStats \<Rightarrow> bool" where
  "stats_wf nr s \<longleftrightarrow>
     vec_len_is s ''prac_per_tREFI'' 13 \<and> vec_len_is s ''acts_per_tREFI'' 13 \<and>
     vec_len_is s ''all_bank_idle_cycles'' nr \<and> vec_len_is s ''rank_active_cycles'' nr \<and>
     vec_len_is s ''sref_cycles'' nr \<and> shape_ok s"

lemma shape_ok_updates [simp]:
  "shape_ok (Increment n s) = shape_ok s" "shape_ok (AddValue n v s) = shape_ok s"
  by (simp_all add: shape_ok_def histo_ok_def vec_ok_def Increment_def AddValue_def)

lemma vec_len_is_Increment [simp]: "vec_len_is (Increment n s) = vec_len_is s"
  by (simp add: vec_len_is_def Increment_def fun_eq_iff)

lemma vec_len_is_AddValue [simp]: "vec_len_is (AddValue n v s) = vec_len_is s"
  by (simp add: vec_len_is_def AddValue_def Let_def fun_eq_iff)

lemma stats_wf_Increment [simp]: "stats_wf nr (Increment n s) = stats_wf nr s"
  by (simp add: stats_wf_def)

lemma stats_wf_AddValue [simp]: "stats_wf nr (AddValue n v s) = stats_wf nr s"
  by (simp add: stats_wf_def)

lemma IncrementVec_succeeds:
  assumes "vec_len_is s name n" and "0 \<le> pos" and "pos < n"
  shows "succeeds (IncrementVec name pos s) (\<lambda>s'. (\<forall>k m. vec_len_is s' k m = vec_len_is s k m) \<and> (shape_ok s \<longrightarrow> shape_ok s'))"
proof -
  obtain v where v: "epoch_vec_counters s name = Some v" "int (length v) = n"
    using assms(1) by (auto simp: vec_len_is_def split: option.splits)
  have "vec_ok (s\<lparr>epoch_vec_counters := (epoch_vec_counters s)(name \<mapsto> v[i := x])\<rparr>) m = vec_ok s m" for i x m
    using v by (auto simp: vec_ok_def)
  moreover have "histo_ok (s\<lparr>epoch_vec_counters := y\<rparr>) m = histo_ok s m" for y m by (simp add: histo_ok_def)
  ultimately show ?thesis
    using assms(2,3) v by (auto simp: IncrementVec_def vec_len_is_def shape_ok_def wp)
qed

lemma IncrementVec_stats_wf:
  assumes "stats_wf nr s" and "vec_len_is s name n" and "0 \<le> pos" and "pos < n"
  shows "succeeds (IncrementVec name pos s) (stats_wf nr)"
  using IncrementVec_succeeds [OF assms(2-4)] assms(1)
  by (auto simp: stats_wf_def elim!: succeeds_mono)

text \<open>A constructed object is well formed.\<close>

lemma vec_len_is_InitStat [simp]: "vec_len_is (InitStat n k s) = vec_len_is s"
  by (simp add: vec_len_is_def InitStat_def fun_eq_iff)

lemma stats_wf_InitStat [simp]: "stats_wf nr (InitStat n k s) = stats_wf nr s"
  by (simp add: stats_wf_def shape_ok_def histo_ok_def vec_ok_def InitStat_def vec_len_is_def)

lemma vec_len_is_InitHistoStat [simp]: "vec_len_is (InitHistoStat n a b k s) = vec_len_is s"
  by (simp add: vec_len_is_def InitHistoStat_def fun_eq_iff)

lemma vec_len_is_InitStats: "vec_len_is (fold (\<lambda>n. InitStat n k) ns s) = vec_len_is s"
  by (induction ns arbitrary: s) simp_all

lemma epoch_vec_InitStats:
  "epoch_vec_counters (fold (\<lambda>n. InitStat n k) ns s) = epoch_vec_counters s"
  by (induction ns arbitrary: s) (simp_all add: InitStat_def)

lemma vec_len_is_InitVecStat:
  "vec_len_is (InitVecStat n ''vec_counter'' k s) m l \<longleftrightarrow>
     (if m = n \<and> epoch_vec_counters s n = None then int (nat k) = l else vec_len_is s m l)"
  by (auto simp: vec_len_is_def InitVecStat_def emplace_def split: option.splits)

lemma epoch_vec_InitVecStat:
  "epoch_vec_counters (InitVecStat n ''vec_counter'' k s) m = None \<longleftrightarrow>
     m \<noteq> n \<and> epoch_vec_counters s m = None"
  by (auto simp: InitVecStat_def emplace_def split: option.splits)

lemma new_SimpleStats_shape: "shape_ok (new_SimpleStats nr)"
proof -
  have h: "histo_ok (new_SimpleStats nr) n" if "n \<in> set histo_names" for n
  proof -
    have v: "histo_bounds (fold (\<lambda>(n, k). InitVecStat n ''vec_counter'' k) l s) = histo_bounds s"
      "bin_widths (fold (\<lambda>(n, k). InitVecStat n ''vec_counter'' k) l s) = bin_widths s"
      "histo_bins (fold (\<lambda>(n, k). InitVecStat n ''vec_counter'' k) l s) = histo_bins s"
      "epoch_histo_bins (fold (\<lambda>(n, k). InitVecStat n ''vec_counter'' k) l s) = epoch_histo_bins s" for l s
      by (induction l arbitrary: s) (auto simp: InitVecStat_def)
    have c: "histo_bounds (fold (\<lambda>n. InitStat n k) l s) = histo_bounds s" "bin_widths (fold (\<lambda>n. InitStat n k) l s) = bin_widths s"
      "histo_bins (fold (\<lambda>n. InitStat n k) l s) = histo_bins s"
      "epoch_histo_bins (fold (\<lambda>n. InitStat n k) l s) = epoch_histo_bins s" for k l s
      by (induction l arbitrary: s) (auto simp: InitStat_def)
    let ?s = "fold (\<lambda>(n, k). InitVecStat n ''vec_counter'' k) (vec_stats nr) (fold (\<lambda>n. InitStat n ''counter'') counter_names empty_stats)"
    have "histo_bounds ?s = Map.empty" "bin_widths ?s = Map.empty" "histo_bins ?s = Map.empty" "epoch_histo_bins ?s = Map.empty"
      unfolding v c by (simp_all add: empty_stats_def)
    then show ?thesis
      using that by (auto simp: histo_names_def histo_stats_def new_SimpleStats_def histo_ok_def InitHistoStat_def emplace_def
          sdiv_nonneg Let_def)
  qed
  have v: "vec_ok (new_SimpleStats nr) n" if "n \<in> set vec_names" for n
  proof -
    have hs: "vec_counters (fold (\<lambda>(n, a, b, k). InitHistoStat n a b k) l s) = vec_counters s"
      "epoch_vec_counters (fold (\<lambda>(n, a, b, k). InitHistoStat n a b k) l s) = epoch_vec_counters s" for l s
      by (induction l arbitrary: s) (auto simp: InitHistoStat_def)
    have cs: "vec_counters (fold (\<lambda>n. InitStat n k) l s) = vec_counters s"
      "epoch_vec_counters (fold (\<lambda>n. InitStat n k) l s) = epoch_vec_counters s" for k l s
      by (induction l arbitrary: s) (auto simp: InitStat_def)
    show ?thesis
      using that by (auto simp: vec_names_def vec_stats_def new_SimpleStats_def vec_ok_def hs cs InitVecStat_def emplace_def
          empty_stats_def Let_def)
  qed
  show ?thesis using h v by (simp add: shape_ok_def)
qed

lemma new_SimpleStats_wf: "0 \<le> nr \<Longrightarrow> stats_wf nr (new_SimpleStats nr)"
  using new_SimpleStats_shape [of nr]
  by (simp add: new_SimpleStats_def vec_stats_def histo_stats_def stats_wf_def vec_len_is_InitVecStat epoch_vec_InitVecStat
      epoch_vec_InitStats empty_stats_def)

end
