(* ===== verification/Configuration.thy ===== *)
theory Configuration
  imports Common
begin

text \<open>
  The configuration object (\<open>DRAMsim3/src/configuration.h\<close> and \<open>.cc\<close>): its enumerations and
  fields, the initialisation steps of the constructor, the size computation, and the address
  mapping set up from a mapping string.  The parsed configuration file is the parameter
  \<open>INIReader\<close>: the lookups the code makes of the third-party reader.  Fields of the floating-point
  power model are left out; a field a step does not assign keeps its indeterminate value.
\<close>

datatype DRAMProtocol =
    DDR3 | DDR4 | DDR5 | GDDR5 | GDDR5X | GDDR6 | LPDDR | LPDDR3 | LPDDR4 | HBM | HBM2 | HMC
  | PROTOCOL_SIZE

datatype RefreshPolicy =
    RANK_LEVEL_SIMULTANEOUS | RANK_LEVEL_STAGGERED | BANKSET_LEVEL_STAGGERED
  | BANK_LEVEL_STAGGERED | NO_REFRESH | REFRESH_SIZE

datatype RowBufPolicy = OPEN_PAGE | CLOSE_PAGE | SOFT_CLOSE_PAGE | ROWBUF_SIZE

record Config =
  protocol :: DRAMProtocol
  channel_size :: int
  channels :: int
  ranks :: int
  banks :: int
  bankgroups :: int
  banks_per_group :: int
  rows :: int
  columns :: int
  device_width :: int
  bus_width :: int
  devices_per_rank :: int
  BL :: int
  moat_ath :: int
  pac_prob :: int
  mopac_buf_size :: int
  mopac_abo_updates :: int
  mopac_ref_updates :: int
  mopac_drain_freq :: int
  mopac_queue_th :: int
  shift_bits :: int
  ch_pos :: int
  ra_pos :: int
  bg_pos :: int
  ba_pos :: int
  ro_pos :: int
  co_pos :: int
  hi_pos :: int
  lo_pos :: int
  ch_mask :: u64
  ra_mask :: u64
  bg_mask :: u64
  ba_mask :: u64
  ro_mask :: u64
  co_mask :: u64
  hi_mask :: u64
  lo_mask :: u64
  burst_cycle :: int
  AL :: int
  CL :: int
  CWL :: int
  RL :: int
  WL :: int
  tCCD_L :: int
  tCCD_S :: int
  tRTRS :: int
  tRTP :: int
  tWTR_L :: int
  tWTR_S :: int
  tWR :: int
  tRP :: int
  tRRD_L :: int
  tRRD_S :: int
  tRAS :: int
  tRCD :: int
  tRC :: int
  tCKE :: int
  tCKESR :: int
  tXS :: int
  tXP :: int
  tREFSBRD :: int
  tRFC :: int
  tRFCsb :: int
  tRFCb :: int
  tREFI :: int
  tREFIsb :: int
  tREFIb :: int
  tFAW :: int
  tRPRE :: int
  tWPRE :: int
  read_delay :: int
  write_delay :: int
  tPPD :: int
  t32AW :: int
  tRCDRD :: int
  tRCDWR :: int
  num_links :: int
  num_dies :: int
  link_width :: int
  link_speed :: int
  block_size :: int
  xbar_queue_depth :: int
  address_mapping :: string
  mop_size :: int
  mop_enabled :: bool
  queue_structure :: string
  row_buf_policy :: RowBufPolicy
  refresh_policy :: RefreshPolicy
  cmd_queue_size :: int
  unified_queue :: bool
  trans_queue_size :: int
  write_buf_size :: int
  enable_self_refresh :: bool
  sref_threshold :: int
  aggressive_precharging_enabled :: bool
  enable_hbm_dual_cmd :: bool
  rfm_mode :: int
  raaimt :: int
  raammt :: int
  rfm_raa_decrement :: int
  ref_raa_decrement :: int
  tRFM :: int
  tRFMsb :: int
  alert_mode :: int
  rows_refreshed :: int
  tABO :: int
  ABO_delay_acts :: int
  tRP2 :: int
  tRAS2 :: int
  tON :: int
  epoch_period :: int
  request_size_bytes :: int
  ideal_memory_latency :: int

definition IsGDDR :: "Config \<Rightarrow> bool" where
  "IsGDDR c \<longleftrightarrow> protocol c = GDDR5 \<or> protocol c = GDDR5X \<or> protocol c = GDDR6"

definition IsHBM :: "Config \<Rightarrow> bool" where
  "IsHBM c \<longleftrightarrow> protocol c = HBM \<or> protocol c = HBM2"

definition IsHMC :: "Config \<Rightarrow> bool" where
  "IsHMC c \<longleftrightarrow> protocol c = HMC"

section \<open>Reading the parameters\<close>

text \<open>The lookups of the parsed configuration file: section, name and default value.\<close>

record INIReader =
  ini_Get :: "string \<Rightarrow> string \<Rightarrow> string \<Rightarrow> string"
  ini_GetInteger :: "string \<Rightarrow> string \<Rightarrow> int \<Rightarrow> int"
  ini_GetBoolean :: "string \<Rightarrow> string \<Rightarrow> bool \<Rightarrow> bool"

definition GetInteger :: "INIReader \<Rightarrow> string \<Rightarrow> string \<Rightarrow> int \<Rightarrow> int" where
  "GetInteger rd sec opt default_val = to_int32 (ini_GetInteger rd sec opt default_val)"

definition protocol_pairs :: "(string \<times> DRAMProtocol) list" where
  "protocol_pairs =
     [(''DDR3'', DDR3), (''DDR4'', DDR4), (''DDR5'', DDR5), (''GDDR5'', GDDR5),
      (''GDDR5X'', GDDR5X), (''GDDR6'', GDDR6), (''LPDDR'', LPDDR), (''LPDDR3'', LPDDR3),
      (''LPDDR4'', LPDDR4), (''HBM'', HBM), (''HBM2'', HBM2), (''HMC'', HMC)]"

definition GetDRAMProtocol :: "string \<Rightarrow> DRAMProtocol res" where
  "GetDRAMProtocol protocol_str =
     (case map_of protocol_pairs protocol_str of
        None \<Rightarrow> Inl AbruptExit
      | Some p \<Rightarrow> Inr p)"

definition parse_row_buf_policy :: "string \<Rightarrow> RowBufPolicy res" where
  "parse_row_buf_policy s =
     (if s = ''OPEN_PAGE'' then Inr OPEN_PAGE
      else if s = ''CLOSE_PAGE'' then Inr CLOSE_PAGE
      else if s = ''SOFT_CLOSE_PAGE'' then Inr SOFT_CLOSE_PAGE
      else Inl AbruptExit)"

definition parse_refresh_policy :: "string \<Rightarrow> RefreshPolicy res" where
  "parse_refresh_policy s =
     (if s = ''RANK_LEVEL_SIMULTANEOUS'' then Inr RANK_LEVEL_SIMULTANEOUS
      else if s = ''RANK_LEVEL_STAGGERED'' then Inr RANK_LEVEL_STAGGERED
      else if s = ''BANKSET_LEVEL_STAGGERED'' then Inr BANKSET_LEVEL_STAGGERED
      else if s = ''BANK_LEVEL_STAGGERED'' then Inr BANK_LEVEL_STAGGERED
      else if s = ''NO_REFRESH'' then Inr NO_REFRESH
      else Inl AbruptExit)"

definition InitSystemParams :: "INIReader \<Rightarrow> Config \<Rightarrow> Config res" where
  "InitSystemParams rd c =
     bind_res (parse_row_buf_policy (ini_Get rd ''system'' ''row_buf_policy'' ''OPEN_PAGE'')) (\<lambda>rbp.
     bind_res (parse_refresh_policy (ini_Get rd ''system'' ''refresh_policy'' ''RANK_LEVEL_STAGGERED'')) (\<lambda>rp.
     let gi = GetInteger rd ''system'' in
     Inr (c\<lparr>channel_size := gi ''channel_size'' 1024,
            channels := gi ''channels'' 1,
            bus_width := gi ''bus_width'' 64,
            address_mapping := ini_Get rd ''system'' ''address_mapping'' ''chrobabgraco'',
            mop_size := gi ''mop_size'' 0,
            queue_structure := ini_Get rd ''system'' ''queue_structure'' ''PER_BANK'',
            row_buf_policy := rbp,
            cmd_queue_size := gi ''cmd_queue_size'' 16,
            trans_queue_size := gi ''trans_queue_size'' 32,
            unified_queue := ini_GetBoolean rd ''system'' ''unified_queue'' False,
            write_buf_size := gi ''write_buf_size'' 16,
            refresh_policy := rp,
            enable_self_refresh := ini_GetBoolean rd ''system'' ''enable_self_refresh'' False,
            sref_threshold := gi ''sref_threshold'' 1000,
            aggressive_precharging_enabled :=
              ini_GetBoolean rd ''system'' ''aggressive_precharging_enabled'' False,
            moat_ath := gi ''MoatATH'' 256,
            pac_prob := gi ''PacProb'' 8,
            mopac_buf_size := gi ''MopacBufSize'' 5,
            mopac_abo_updates := gi ''MopacABOUpdates'' 5,
            mopac_ref_updates := gi ''MopacREFUpdates'' 2,
            mopac_drain_freq := gi ''MopacDrainFrequency'' 1,
            mopac_queue_th := gi ''MopacQueueThreshold'' 4\<rparr>)))"

text \<open>The burst length in cycles by protocol, and the burst length a zero stands for.\<close>

definition burst_divisor :: "DRAMProtocol \<Rightarrow> int" where
  "burst_divisor p = (case p of GDDR5 \<Rightarrow> 4 | GDDR5X \<Rightarrow> 8 | GDDR6 \<Rightarrow> 16 | _ \<Rightarrow> 2)"

definition set_burst :: "Config \<Rightarrow> Config" where
  "set_burst c =
     c\<lparr>burst_cycle := (if BL c = 0 then 0 else BL c sdiv burst_divisor (protocol c)),
       BL := (if BL c = 0 then (if IsHBM c then 4 else 8) else BL c)\<rparr>"

definition InitDRAMParams :: "INIReader \<Rightarrow> Config \<Rightarrow> Config res" where
  "InitDRAMParams rd c =
     bind_res (GetDRAMProtocol (ini_Get rd ''dram_structure'' ''protocol'' ''DDR3'')) (\<lambda>p.
     let gi = GetInteger rd ''dram_structure'';
         bg = gi ''bankgroups'' 2;
         bpg = gi ''banks_per_group'' 2;
         enable = ini_GetBoolean rd ''dram_structure'' ''bankgroup_enable'' True;
         bpg = (if enable then bpg else bpg * bg);
         bg = (if enable then bg else 1);
         c = c\<lparr>protocol := p, bankgroups := bg, banks_per_group := bpg, banks := bg * bpg,
               rows := gi ''rows'' (2 ^ 16), columns := gi ''columns'' (2 ^ 10),
               device_width := gi ''device_width'' 8, BL := gi ''BL'' 8,
               num_dies := gi ''num_dies'' 1\<rparr>;
         c = c\<lparr>enable_hbm_dual_cmd :=
                 (ini_GetBoolean rd ''dram_structure'' ''hbm_dual_cmd'' True \<and> IsHBM c),
               num_links := GetInteger rd ''hmc'' ''num_links'' 4,
               link_width := GetInteger rd ''hmc'' ''link_width'' 16,
               link_speed := GetInteger rd ''hmc'' ''link_speed'' 15000,
               block_size := GetInteger rd ''hmc'' ''block_size'' 64,
               xbar_queue_depth := GetInteger rd ''hmc'' ''xbar_queue_depth'' 16\<rparr>
     in bind_res (if IsHMC c then quot_int (block_size c * 8) (device_width c) else Inr (BL c)) (\<lambda>bl.
        let c = set_burst (c\<lparr>BL := bl\<rparr>)
        in Inr (if IsGDDR c then c\<lparr>columns := columns c * BL c\<rparr>
                else if IsHBM c then c\<lparr>columns := columns c * 2\<rparr>
                else c)))"

definition CalculateSize :: "Config \<Rightarrow> Config res" where
  "CalculateSize c =
     bind_res (quot_int (bus_width c) (device_width c)) (\<lambda>dpr.
     let page_size = (columns c * device_width c) sdiv 8;
         megs_per_bank = (page_size * (rows c sdiv 1024)) sdiv 1024;
         megs_per_rank = megs_per_bank * banks c * dpr;
         c = c\<lparr>devices_per_rank := dpr\<rparr>
     in if megs_per_rank > channel_size c
        then Inr (c\<lparr>ranks := 1, channel_size := megs_per_rank\<rparr>)
        else bind_res (quot_int (channel_size c) megs_per_rank) (\<lambda>r.
             Inr (c\<lparr>ranks := r, channel_size := r * megs_per_rank\<rparr>)))"

definition InitTimingParams :: "INIReader \<Rightarrow> Config \<Rightarrow> Config" where
  "InitTimingParams rd c =
     (let gi = GetInteger rd ''timing'';
          c = c\<lparr>AL := gi ''AL'' 0, CL := gi ''CL'' 12, CWL := gi ''CWL'' 12,
                tCCD_L := gi ''tCCD_L'' 6, tCCD_S := gi ''tCCD_S'' 4, tRTRS := gi ''tRTRS'' 2,
                tRTP := gi ''tRTP'' 5, tWTR_L := gi ''tWTR_L'' 5, tWTR_S := gi ''tWTR_S'' 5,
                tWR := gi ''tWR'' 10, tRP := gi ''tRP'' 10, tRRD_L := gi ''tRRD_L'' 4,
                tRRD_S := gi ''tRRD_S'' 4, tRAS := gi ''tRAS'' 24, tRCD := gi ''tRCD'' 10\<rparr>;
          c = c\<lparr>tRC := tRAS c + tRP c,
                tCKE := gi ''tCKE'' 6, tCKESR := gi ''tCKESR'' 12, tXS := gi ''tXS'' 432,
                tXP := gi ''tXP'' 8, tREFSBRD := gi ''tREFSBRD'' 72, tRFC := gi ''tRFC'' 74,
                tRFCsb := gi ''tRFCsb'' 74, tRFCb := gi ''tRFCb'' 20, tREFI := gi ''tREFI'' 7800,
                tREFIsb := gi ''tREFIsb'' 1950, tREFIb := gi ''tREFIb'' 1950,
                tFAW := gi ''tFAW'' 50, tRPRE := gi ''tRPRE'' 1, tWPRE := gi ''tWPRE'' 1,
                tPPD := gi ''tPPD'' 0, t32AW := gi ''t32AW'' 330, tRCDRD := gi ''tRCDRD'' 24,
                tRCDWR := gi ''tRCDWR'' 20,
                ideal_memory_latency := gi ''ideal_memory_latency'' 10,
                tRP2 := gi ''tRP2'' 86, tRAS2 := gi ''tRAS2'' 38, tON := gi ''tON'' 433\<rparr>;
          c = c\<lparr>RL := AL c + CL c, WL := AL c + CWL c\<rparr>
      in c\<lparr>read_delay := RL c + burst_cycle c, write_delay := WL c + burst_cycle c\<rparr>)"

text \<open>The default of \<open>ref_raa_decrement\<close> is \<open>raaimt * 0.5\<close> and that of \<open>tRFMsb\<close> is
  \<open>0.5 * tRFC\<close>, converted to an integer: both truncate towards zero.\<close>

definition InitRFMParams :: "INIReader \<Rightarrow> Config \<Rightarrow> Config" where
  "InitRFMParams rd c =
     (let gi = GetInteger rd ''rfm'';
          c = c\<lparr>raaimt := gi ''raaimt'' 32\<rparr>
      in c\<lparr>raammt := gi ''raammt'' (raaimt c * 3),
           rfm_raa_decrement := gi ''rfm_raa_decrement'' (raaimt c),
           ref_raa_decrement := gi ''ref_raa_decrement'' (raaimt c sdiv 2),
           tRFM := gi ''tRFM'' (tRFC c),
           tRFMsb := gi ''tRFMsb'' (tRFC c sdiv 2),
           rfm_mode := gi ''rfm_mode'' 0\<rparr>)"

text \<open>The quotient by \<open>refchunks\<close> is taken in \<open>long\<close> and then converted to \<open>int\<close>.\<close>

definition InitALERTParams :: "INIReader \<Rightarrow> Config \<Rightarrow> Config res" where
  "InitALERTParams rd c =
     bind_res (quot_int (rows c) (ini_GetInteger rd ''alert'' ''refchunks'' 8192)) (\<lambda>q.
     Inr (c\<lparr>alert_mode := GetInteger rd ''alert'' ''alert_mode'' 0,
            rows_refreshed := to_int32 q,
            tABO := GetInteger rd ''alert'' ''tABO'' 432,
            ABO_delay_acts := GetInteger rd ''alert'' ''ABO_delay_acts'' 1\<rparr>))"

section \<open>The address mapping\<close>

definition field_width :: "Config \<Rightarrow> string \<Rightarrow> int option" where
  "field_width c =
     (let actual_col_bits = LogBase2 (columns c) - LogBase2 (BL c)
      in map_of
           [(''ch'', LogBase2 (channels c)), (''ra'', LogBase2 (ranks c)),
            (''bg'', LogBase2 (bankgroups c)), (''ba'', LogBase2 (banks_per_group c)),
            (''ro'', LogBase2 (rows c)), (''co'', actual_col_bits),
            (''hi'', actual_col_bits - LogBase2 (mop_size c)), (''lo'', LogBase2 (mop_size c))])"

fun two_char_fields :: "string \<Rightarrow> string list" where
  "two_char_fields [] = []"
| "two_char_fields [a] = [[a]]"
| "two_char_fields (a # b # cs) = [a, b] # two_char_fields cs"

text \<open>The loop takes the fields from the back of the mapping string, least significant first.\<close>

fun place_fields ::
  "(string \<Rightarrow> int option) \<Rightarrow> string list \<Rightarrow> int \<Rightarrow> (string \<rightharpoonup> int) \<Rightarrow> (string \<rightharpoonup> int) res" where
  "place_fields fw [] pos field_pos = Inr field_pos"
| "place_fields fw (token # toks) pos field_pos =
     (case fw token of
        None \<Rightarrow> Inl AbruptExit
      | Some w \<Rightarrow> place_fields fw toks (pos + w) (field_pos(token \<mapsto> pos)))"

definition map_at :: "('k \<rightharpoonup> 'v) \<Rightarrow> 'k \<Rightarrow> 'v res" where
  "map_at m k = (case m k of None \<Rightarrow> Inl OutOfRangeKey | Some v \<Rightarrow> Inr v)"

text \<open>\<open>(1 << width) - 1\<close> in \<open>int\<close>, stored as \<open>uint64_t\<close>.\<close>

definition field_mask :: "(string \<Rightarrow> int option) \<Rightarrow> string \<Rightarrow> u64 res" where
  "field_mask fw k =
     bind_res (map_at fw k) (\<lambda>w.
     bind_res (require UndefinedShift (0 \<le> w \<and> w < 31)) (\<lambda>_.
     Inr (to_u64 (2 ^ nat w - 1))))"

definition SetAddressMapping :: "Config \<Rightarrow> Config res" where
  "SetAddressMapping c =
     (let rsb = (bus_width c sdiv 8) * BL c;
          c = c\<lparr>request_size_bytes := rsb, shift_bits := LogBase2 rsb\<rparr>;
          fw = field_width c;
          n = length (address_mapping c)
      in bind_res (require AbruptExit (n = 12 \<or> n = 14)) (\<lambda>_.
         let c = (if n = 14 then c\<lparr>mop_enabled := True\<rparr> else c);
             toks = two_char_fields (address_mapping c)
         in bind_res (place_fields fw (rev toks) 0 Map.empty) (\<lambda>fp.
            bind_res (map_at fp ''ch'') (\<lambda>ch. bind_res (map_at fp ''ra'') (\<lambda>ra.
            bind_res (map_at fp ''bg'') (\<lambda>bg. bind_res (map_at fp ''ba'') (\<lambda>ba.
            bind_res (map_at fp ''ro'') (\<lambda>ro.
            let c = c\<lparr>ch_pos := ch, ra_pos := ra, bg_pos := bg, ba_pos := ba, ro_pos := ro\<rparr> in
            bind_res
              (if mop_enabled c then
                 bind_res (map_at fp ''hi'') (\<lambda>hi. bind_res (map_at fp ''lo'') (\<lambda>lo.
                 Inr (c\<lparr>hi_pos := hi, lo_pos := lo\<rparr>)))
               else bind_res (map_at fp ''co'') (\<lambda>co. Inr (c\<lparr>co_pos := co\<rparr>))) (\<lambda>c.
            bind_res (field_mask fw ''ch'') (\<lambda>mch. bind_res (field_mask fw ''ra'') (\<lambda>mra.
            bind_res (field_mask fw ''bg'') (\<lambda>mbg. bind_res (field_mask fw ''ba'') (\<lambda>mba.
            bind_res (field_mask fw ''ro'') (\<lambda>mro.
            let c = c\<lparr>ch_mask := mch, ra_mask := mra, bg_mask := mbg, ba_mask := mba, ro_mask := mro\<rparr> in
            if mop_enabled c then
              bind_res (field_mask fw ''hi'') (\<lambda>mhi. bind_res (field_mask fw ''lo'') (\<lambda>mlo.
              Inr (c\<lparr>hi_mask := mhi, lo_mask := mlo\<rparr>)))
            else bind_res (field_mask fw ''co'') (\<lambda>mco. Inr (c\<lparr>co_mask := mco\<rparr>))))))))))))))))"

text \<open>One field of an address: \<open>(hex_addr >> pos) & mask\<close> assigned to an \<open>int\<close>.\<close>

definition addr_field :: "u64 \<Rightarrow> int \<Rightarrow> u64 \<Rightarrow> int res" where
  "addr_field h pos m = bind_res (shr_u64 h pos) (\<lambda>x. Inr (u64_to_int (x AND m)))"

definition AddressMapping :: "Config \<Rightarrow> u64 \<Rightarrow> Address res" where
  "AddressMapping c hex =
     bind_res (shr_u64 hex (shift_bits c)) (\<lambda>h.
     bind_res (addr_field h (ch_pos c) (ch_mask c)) (\<lambda>ch.
     bind_res (addr_field h (ra_pos c) (ra_mask c)) (\<lambda>ra.
     bind_res (addr_field h (bg_pos c) (bg_mask c)) (\<lambda>bg.
     bind_res (addr_field h (ba_pos c) (ba_mask c)) (\<lambda>ba.
     bind_res (addr_field h (ro_pos c) (ro_mask c)) (\<lambda>ro.
     bind_res
       (if mop_enabled c then
          bind_res (addr_field h (hi_pos c) (hi_mask c)) (\<lambda>hi.
          bind_res (addr_field h (lo_pos c) (lo_mask c)) (\<lambda>lo.
          Inr (push_bit (nat (LogBase2 (mop_size c))) hi OR lo)))
        else addr_field h (co_pos c) (co_mask c)) (\<lambda>co.
     Inr (mk_Address ch ra bg ba ro co))))))))"

text \<open>The constructor runs the steps in this order.\<close>

definition new_Config :: "INIReader \<Rightarrow> Config \<Rightarrow> Config res" where
  "new_Config rd c0 =
     bind_res (InitSystemParams rd (c0\<lparr>mop_enabled := False\<rparr>)) (\<lambda>c.
     bind_res (InitDRAMParams rd c) (\<lambda>c.
     bind_res (CalculateSize c) (\<lambda>c.
     bind_res (SetAddressMapping c) (\<lambda>c.
     let c = InitTimingParams rd c;
         c = c\<lparr>epoch_period := GetInteger rd ''other'' ''epoch_period'' 100000\<rparr>;
         c = InitRFMParams rd c
     in InitALERTParams rd c))))"

section \<open>Bit-field layouts\<close>

text \<open>Two words agree on consecutive fields from a position on exactly when they agree on all the
  bits those fields cover.\<close>

fun fields_agree :: "(string \<Rightarrow> nat) \<Rightarrow> string list \<Rightarrow> nat \<Rightarrow> u64 \<Rightarrow> u64 \<Rightarrow> bool" where
  "fields_agree w [] p x y = True"
| "fields_agree w (t # ts) p x y =
     (take_bit (w t) (drop_bit p x) = take_bit (w t) (drop_bit p y) \<and>
      fields_agree w ts (p + w t) x y)"

lemma take_bit_add_split:
  fixes x y :: "'a::len word"
  shows "take_bit (p + w) x = take_bit (p + w) y \<longleftrightarrow>
    take_bit p x = take_bit p y \<and> take_bit w (drop_bit p x) = take_bit w (drop_bit p y)"
    (is "?l \<longleftrightarrow> ?r1 \<and> ?r2")
proof
  assume l: ?l
  have "take_bit p (take_bit (p + w) x) = take_bit p (take_bit (p + w) y)" using l by simp
  moreover have "take_bit w (drop_bit p (take_bit (p + w) x)) =
      take_bit w (drop_bit p (take_bit (p + w) y))" using l by simp
  ultimately show "?r1 \<and> ?r2" by (simp add: drop_bit_take_bit)
next
  assume r: "?r1 \<and> ?r2"
  show ?l
  proof (rule bit_eqI)
    fix n
    assume "possible_bit TYPE('a word) n"
    show "bit (take_bit (p + w) x) n = bit (take_bit (p + w) y) n"
    proof (cases "n < p")
      case True
      from r have "bit (take_bit p x) n = bit (take_bit p y) n" by simp
      with True show ?thesis by (simp add: bit_take_bit_iff)
    next
      case False
      from r have "bit (take_bit w (drop_bit p x)) (n - p) = bit (take_bit w (drop_bit p y)) (n - p)"
        by simp
      with False show ?thesis by (auto simp: bit_take_bit_iff bit_drop_bit_eq)
    qed
  qed
qed

lemma fields_agree_take_bit:
  "take_bit p x = take_bit p y \<Longrightarrow>
     fields_agree w ts p x y \<longleftrightarrow>
       take_bit (p + sum_list (map w ts)) x = take_bit (p + sum_list (map w ts)) y"
proof (induction ts arbitrary: p)
  case Nil
  then show ?case by simp
next
  case (Cons t ts)
  let ?q = "p + w t" and ?n = "p + sum_list (map w (t # ts))"
  have mono: "take_bit ?n x = take_bit ?n y \<Longrightarrow> take_bit ?q x = take_bit ?q y"
    using take_bit_add_split [of ?q "sum_list (map w ts)" x y] by (simp add: add.assoc)
  show ?case
  proof (cases "take_bit ?q x = take_bit ?q y")
    case True
    with Cons.IH [OF True] show ?thesis
      by (simp add: take_bit_add_split [of p "w t"] add.assoc)
  next
    case False
    with mono Cons.prems show ?thesis
      by (auto simp: take_bit_add_split [of p "w t"])
  qed
qed

text \<open>What \<open>place_fields\<close> assigns: every token of the list a position, old entries of other
  tokens kept.\<close>

lemma place_fields_dom:
  "place_fields fw ts p m = Inr m' \<Longrightarrow> dom m' = dom m \<union> set ts"
  by (induction fw ts p m rule: place_fields.induct) (auto split: option.splits)

lemma place_fields_other:
  "place_fields fw ts p m = Inr m' \<Longrightarrow> t \<notin> set ts \<Longrightarrow> m' t = m t"
  by (induction fw ts p m rule: place_fields.induct) (auto split: option.splits)

lemma place_fields_agree:
  assumes "place_fields fw ts p m = Inr m'" and "distinct ts" and "0 \<le> p"
    and "\<forall>t \<in> set ts. fw t = Some (int (w t))"
  shows "fields_agree w ts (nat p) x y \<longleftrightarrow>
    (\<forall>t \<in> set ts. take_bit (w t) (drop_bit (nat (the (m' t))) x) =
                  take_bit (w t) (drop_bit (nat (the (m' t))) y))"
  using assms
proof (induction ts arbitrary: p m)
  case Nil
  then show ?case by simp
next
  case (Cons t ts)
  have step: "place_fields fw ts (p + int (w t)) (m(t \<mapsto> p)) = Inr m'"
    using Cons.prems by simp
  then have "m' t = Some p"
    using Cons.prems(2) place_fields_other by fastforce
  moreover have "nat (p + int (w t)) = nat p + w t"
    using Cons.prems(3) by (simp add: nat_add_distrib)
  ultimately show ?case
    using Cons.IH [OF step] Cons.prems by simp
qed

lemma u64_to_int_small: "uint x < 2 ^ 31 \<Longrightarrow> u64_to_int x = uint x"
  using signed_take_bit_int_eq_self [of 31 "uint x"] order_trans [OF _ uint_ge_0 [of x]]
  by (simp add: u64_to_int_def sint_uint unsigned_ucast_eq take_bit_int_eq_self)

lemma and_field_mask: "x AND (2 ^ n - 1 :: u64) = take_bit n x"
  by (simp add: take_bit_eq_mask mask_eq_exp_minus_1)

lemma uint_take_bit_bound: "uint (take_bit n x) < 2 ^ n"
  by (simp add: unsigned_take_bit_eq)

lemma addr_field_eq:
  assumes "n < 31"
  shows "addr_field h pos (to_u64 (2 ^ n - 1)) =
    bind_res (require UndefinedShift (0 \<le> pos \<and> pos < 64)) (\<lambda>_.
      Inr (uint (take_bit n (drop_bit (nat pos) h))))"
proof -
  have "uint (take_bit n x) < 2 ^ 31" for x :: u64
    using uint_take_bit_bound [of n x] power_strict_increasing [OF assms, of "2::int"]
    by simp
  then show ?thesis
    by (cases "0 \<le> pos \<and> pos < 64")
      (auto simp: addr_field_def shr_u64_def and_field_mask u64_to_int_small require_def)
qed

section \<open>Correctness of the address mapping\<close>

abbreviation six_fields :: "string list" where
  "six_fields \<equiv> [''ch'', ''ra'', ''bg'', ''ba'', ''ro'', ''co'']"

definition width_of :: "Config \<Rightarrow> string \<Rightarrow> nat" where
  "width_of c t = nat (the (field_width c t))"

definition mapped_width :: "Config \<Rightarrow> nat" where
  "mapped_width c = sum_list (map (width_of c) six_fields)"

lemma length_two_char_fields: "length (two_char_fields s) = (length s + 1) div 2"
  by (induction s rule: two_char_fields.induct) auto

lemma field_width_update [simp]:
  "field_width (c\<lparr>request_size_bytes := a, shift_bits := b\<rparr>) = field_width c"
  by (simp add: field_width_def)

lemma field_mask_Inr:
  "field_mask fw k = Inr m \<Longrightarrow> \<exists>n < 31. fw k = Some (int n) \<and> m = to_u64 (2 ^ n - 1)"
  by (auto simp: field_mask_def map_at_def bind_res_eq_Inr split: option.splits)
    (metis int_nat_eq nat_less_iff of_nat_numeral)

lemma map_at_Inr: "map_at m k = Inr v \<longleftrightarrow> m k = Some v"
  by (auto simp: map_at_def split: option.splits)

text \<open>What a successful \<open>SetAddressMapping\<close> leaves in the configuration: the positions and masks
  of the fields, of the column in one piece under a mapping of twelve characters and in two pieces
  under one of fourteen.\<close>

abbreviation seven_fields :: "string list" where
  "seven_fields \<equiv> [''ch'', ''ra'', ''bg'', ''ba'', ''ro'', ''hi'', ''lo'']"

lemma SetAddressMapping_fields:
  assumes "SetAddressMapping c = Inr c'" and "\<not> mop_enabled c"
  obtains fp where
    "place_fields (field_width c) (rev (two_char_fields (address_mapping c))) 0 Map.empty = Inr fp"
    "fp ''ch'' = Some (ch_pos c')" "fp ''ra'' = Some (ra_pos c')" "fp ''bg'' = Some (bg_pos c')"
    "fp ''ba'' = Some (ba_pos c')" "fp ''ro'' = Some (ro_pos c')"
    "field_mask (field_width c) ''ch'' = Inr (ch_mask c')"
    "field_mask (field_width c) ''ra'' = Inr (ra_mask c')"
    "field_mask (field_width c) ''bg'' = Inr (bg_mask c')"
    "field_mask (field_width c) ''ba'' = Inr (ba_mask c')"
    "field_mask (field_width c) ''ro'' = Inr (ro_mask c')"
    "mop_size c' = mop_size c"
    "\<not> mop_enabled c' \<and> length (address_mapping c) = 12 \<and> fp ''co'' = Some (co_pos c') \<and>
       field_mask (field_width c) ''co'' = Inr (co_mask c') \<or>
     mop_enabled c' \<and> length (address_mapping c) = 14 \<and> fp ''hi'' = Some (hi_pos c') \<and>
       fp ''lo'' = Some (lo_pos c') \<and> field_mask (field_width c) ''hi'' = Inr (hi_mask c') \<and>
       field_mask (field_width c) ''lo'' = Inr (lo_mask c')"
  using assms
  by (cases "length (address_mapping c) = 14")
    (auto simp: SetAddressMapping_def Let_def bind_res_eq_Inr map_at_Inr)

lemma placed_tokens:
  assumes "place_fields fw ts 0 Map.empty = Inr fp" and "distinct fs" and "length ts = length fs"
    and "\<forall>t \<in> set fs. fp t \<noteq> None"
  shows "distinct ts" and "set ts = set fs"
proof -
  have dom: "dom fp = set ts" using place_fields_dom [OF assms(1)] by simp
  then have sub: "set fs \<subseteq> set ts" using assms(4) by (auto simp: dom_def)
  have card: "card (set fs) = length fs" by (rule distinct_card [OF assms(2)])
  have "card (set ts) \<le> length fs" using card_length [of ts] assms(3) by simp
  then show eq: "set ts = set fs"
    using card_seteq [OF finite_set sub] card by simp
  show "distinct ts" using card_distinct [of ts] card assms(3) by (simp only: eq)
qed

lemma AddressMapping_fields:
  assumes "AddressMapping c h = Inr A"
  shows "addr_field (drop_bit (nat (shift_bits c)) h) (ch_pos c) (ch_mask c) = Inr (channel A)"
    "addr_field (drop_bit (nat (shift_bits c)) h) (ra_pos c) (ra_mask c) = Inr (rank A)"
    "addr_field (drop_bit (nat (shift_bits c)) h) (bg_pos c) (bg_mask c) = Inr (bankgroup A)"
    "addr_field (drop_bit (nat (shift_bits c)) h) (ba_pos c) (ba_mask c) = Inr (bank A)"
    "addr_field (drop_bit (nat (shift_bits c)) h) (ro_pos c) (ro_mask c) = Inr (row A)"
  using assms by (auto simp: AddressMapping_def bind_res_eq_Inr shr_u64_def)

lemma AddressMapping_column:
  assumes "AddressMapping c h = Inr A" and "\<not> mop_enabled c"
  shows "addr_field (drop_bit (nat (shift_bits c)) h) (co_pos c) (co_mask c) = Inr (column A)"
  using assms by (auto simp: AddressMapping_def bind_res_eq_Inr shr_u64_def)

lemma AddressMapping_column_mop:
  assumes "AddressMapping c h = Inr A" and "mop_enabled c"
  obtains hi lo where
    "addr_field (drop_bit (nat (shift_bits c)) h) (hi_pos c) (hi_mask c) = Inr hi"
    "addr_field (drop_bit (nat (shift_bits c)) h) (lo_pos c) (lo_mask c) = Inr lo"
    "column A = push_bit (nat (LogBase2 (mop_size c))) hi OR lo"
  using assms by (auto simp: AddressMapping_def bind_res_eq_Inr shr_u64_def)

lemma addr_field_value:
  assumes "field_mask fw k = Inr m" and "addr_field h pos m = Inr v"
  shows "v = uint (take_bit (nat (the (fw k))) (drop_bit (nat pos) h))"
proof -
  obtain n where "n < 31" "fw k = Some (int n)" "m = to_u64 (2 ^ n - 1)"
    using field_mask_Inr [OF assms(1)] by blast
  then show ?thesis
    using assms(2) addr_field_eq [of n h pos]
    by (cases "0 \<le> pos \<and> pos < 64") (auto simp: require_def)
qed

lemma field_width_Some:
  "field_mask (field_width c) k = Inr m \<Longrightarrow> field_width c k = Some (int (width_of c k))"
  using field_mask_Inr by (fastforce simp: width_of_def)

text \<open>The value of each field of a decoded address; the column of a mapping of fourteen characters
  is put together from its two pieces.\<close>

definition field_value :: "Config \<Rightarrow> string \<Rightarrow> int \<Rightarrow> u64 \<Rightarrow> int" where
  "field_value c t p x = uint (take_bit (width_of c t) (drop_bit (nat p) x))"

lemma AddressMapping_values:
  assumes "SetAddressMapping c = Inr c'" and "\<not> mop_enabled c" and "AddressMapping c' h = Inr A"
  defines "x \<equiv> drop_bit (nat (shift_bits c')) h"
  shows "channel A = field_value c ''ch'' (ch_pos c') x"
    "rank A = field_value c ''ra'' (ra_pos c') x"
    "bankgroup A = field_value c ''bg'' (bg_pos c') x"
    "bank A = field_value c ''ba'' (ba_pos c') x"
    "row A = field_value c ''ro'' (ro_pos c') x"
    "column A = (if mop_enabled c'
       then push_bit (width_of c ''lo'') (field_value c ''hi'' (hi_pos c') x) OR
            field_value c ''lo'' (lo_pos c') x
       else field_value c ''co'' (co_pos c') x)"
proof -
  have val: "v = field_value c t p x"
    if "field_mask (field_width c) t = Inr m" and "addr_field x p m = Inr v" for t p m v
    unfolding field_value_def width_of_def by (rule addr_field_value [OF that])
  obtain fp where fp: "field_mask (field_width c) ''ch'' = Inr (ch_mask c')"
    "field_mask (field_width c) ''ra'' = Inr (ra_mask c')"
    "field_mask (field_width c) ''bg'' = Inr (bg_mask c')"
    "field_mask (field_width c) ''ba'' = Inr (ba_mask c')"
    "field_mask (field_width c) ''ro'' = Inr (ro_mask c')" "mop_size c' = mop_size c"
    and co: "\<not> mop_enabled c' \<and> length (address_mapping c) = 12 \<and> fp ''co'' = Some (co_pos c') \<and>
       field_mask (field_width c) ''co'' = Inr (co_mask c') \<or>
     mop_enabled c' \<and> length (address_mapping c) = 14 \<and> fp ''hi'' = Some (hi_pos c') \<and>
       fp ''lo'' = Some (lo_pos c') \<and> field_mask (field_width c) ''hi'' = Inr (hi_mask c') \<and>
       field_mask (field_width c) ''lo'' = Inr (lo_mask c')"
    by (rule SetAddressMapping_fields [OF assms(1,2)])
  note f = AddressMapping_fields [OF assms(3), folded x_def]
  show "channel A = field_value c ''ch'' (ch_pos c') x" by (rule val [OF fp(1) f(1)])
  show "rank A = field_value c ''ra'' (ra_pos c') x" by (rule val [OF fp(2) f(2)])
  show "bankgroup A = field_value c ''bg'' (bg_pos c') x" by (rule val [OF fp(3) f(3)])
  show "bank A = field_value c ''ba'' (ba_pos c') x" by (rule val [OF fp(4) f(4)])
  show "row A = field_value c ''ro'' (ro_pos c') x" by (rule val [OF fp(5) f(5)])
  show "column A = (if mop_enabled c'
       then push_bit (width_of c ''lo'') (field_value c ''hi'' (hi_pos c') x) OR
            field_value c ''lo'' (lo_pos c') x
       else field_value c ''co'' (co_pos c') x)"
  proof (cases "mop_enabled c'")
    case True
    obtain hi lo where p: "addr_field x (hi_pos c') (hi_mask c') = Inr hi"
      "addr_field x (lo_pos c') (lo_mask c') = Inr lo"
      and col: "column A = push_bit (nat (LogBase2 (mop_size c'))) hi OR lo"
      by (rule AddressMapping_column_mop [OF assms(3) True, folded x_def])
    have "nat (LogBase2 (mop_size c')) = width_of c ''lo''"
      by (simp add: width_of_def field_width_def Let_def fp(6))
    with col True co val [OF _ p(1), of "''hi''"] val [OF _ p(2), of "''lo''"] show ?thesis by simp
  next
    case False
    with co val [OF _ AddressMapping_column [OF assms(3) False, folded x_def], of "''co''"]
    show ?thesis by simp
  qed
qed

lemma sum_list_map_mset_eq:
  fixes f :: "'a \<Rightarrow> nat"
  assumes "mset xs = mset ys"
  shows "sum_list (map f xs) = sum_list (map f ys)"
proof -
  have "sum_mset (image_mset f (mset xs)) = sum_mset (image_mset f (mset ys))"
    using assms by simp
  then show ?thesis by (simp only: mset_map [symmetric] sum_mset_sum_list)
qed

definition field_eq :: "Config \<Rightarrow> string \<Rightarrow> int \<Rightarrow> u64 \<Rightarrow> u64 \<Rightarrow> bool" where
  "field_eq c t p x y \<longleftrightarrow> field_value c t p x = field_value c t p y"

text \<open>Fields placed without a gap cover exactly the lowest bits, as many as their widths add up to.\<close>

lemma fields_layout:
  fixes x y :: u64
  assumes pf: "place_fields (field_width c) ts 0 Map.empty = Inr fp"
    and fs: "distinct fs" and len: "length ts = length fs"
    and pos: "\<forall>t \<in> set fs. fp t \<noteq> None"
    and fw: "\<forall>t \<in> set fs. field_width c t = Some (int (width_of c t))"
  defines "n \<equiv> sum_list (map (width_of c) fs)"
  shows "take_bit n x = take_bit n y \<longleftrightarrow> (\<forall>t \<in> set fs. field_eq c t (the (fp t)) x y)"
proof -
  note ts = placed_tokens [OF pf fs len pos]
  have "mset ts = mset fs"
    using ts fs by (intro set_eq_iff_mset_eq_distinct [THEN iffD1]) simp_all
  then have total: "sum_list (map (width_of c) ts) = n"
    unfolding n_def by (rule sum_list_map_mset_eq)
  have "take_bit n x = take_bit n y \<longleftrightarrow> fields_agree (width_of c) ts 0 x y"
    using fields_agree_take_bit [of 0 x y "width_of c" ts] by (simp add: total)
  also have "\<dots> \<longleftrightarrow> (\<forall>t \<in> set fs.
      take_bit (width_of c t) (drop_bit (nat (the (fp t))) x) =
      take_bit (width_of c t) (drop_bit (nat (the (fp t))) y))"
    using place_fields_agree [OF pf ts(1), of "width_of c" x y] fw unfolding ts(2) by simp
  finally show ?thesis by (simp add: field_eq_def field_value_def word_uint_eq_iff)
qed

text \<open>The two pieces of the column are as wide as the column, and a piece below the shift leaves
  both readable.\<close>

lemma column_pieces:
  assumes "field_mask (field_width c) ''hi'' = Inr m" and "field_mask (field_width c) ''lo'' = Inr m'"
  shows "mapped_width c = sum_list (map (width_of c) seven_fields)"
proof -
  have "field_width c ''co'' = Some (the (field_width c ''hi'') + the (field_width c ''lo''))"
    by (simp add: field_width_def Let_def)
  then have "width_of c ''co'' = width_of c ''hi'' + width_of c ''lo''"
    using field_width_Some [OF assms(1)] field_width_Some [OF assms(2)]
    by (simp add: width_of_def [of c "''co''"])
  then show ?thesis by (simp add: mapped_width_def)
qed

lemma push_or_eq_iff:
  fixes h h' l l' :: int
  assumes "0 \<le> l" "l < 2 ^ m" "0 \<le> l'" "l' < 2 ^ m"
  shows "push_bit m h OR l = push_bit m h' OR l' \<longleftrightarrow> h = h' \<and> l = l'"
proof
  assume eq: "push_bit m h OR l = push_bit m h' OR l'"
  have lo: "take_bit m (push_bit m g OR k) = k" if "0 \<le> k" "k < 2 ^ m" for g k :: int
    using that by (simp add: take_bit_or take_bit_push_bit take_bit_int_eq_self)
  have small: "drop_bit m k = 0" if "0 \<le> k" "k < 2 ^ m" for k :: int
    using that by (simp add: drop_bit_int_def)
  have hi: "drop_bit m (push_bit m g OR k) = g" if "0 \<le> k" "k < 2 ^ m" for g k :: int
    using small [OF that] by (simp add: drop_bit_or drop_bit_push_bit_int)
  show "h = h' \<and> l = l'" using lo [of l h] lo [of l' h'] hi [of l h] hi [of l' h'] eq assms by metis
qed simp

lemma field_value_bound: "0 \<le> field_value c t p x" "field_value c t p x < 2 ^ width_of c t"
  by (simp_all add: field_value_def uint_take_bit_bound)

lemma mapping_layout:
  fixes x y :: u64
  assumes "SetAddressMapping c = Inr c'" and "\<not> mop_enabled c"
  shows "take_bit (mapped_width c) x = take_bit (mapped_width c) y \<longleftrightarrow>
    field_eq c ''ch'' (ch_pos c') x y \<and> field_eq c ''ra'' (ra_pos c') x y \<and>
    field_eq c ''bg'' (bg_pos c') x y \<and> field_eq c ''ba'' (ba_pos c') x y \<and>
    field_eq c ''ro'' (ro_pos c') x y \<and>
    (if mop_enabled c' then field_eq c ''hi'' (hi_pos c') x y \<and> field_eq c ''lo'' (lo_pos c') x y
     else field_eq c ''co'' (co_pos c') x y)"
proof -
  let ?ts = "rev (two_char_fields (address_mapping c))"
  obtain fp where pf: "place_fields (field_width c) ?ts 0 Map.empty = Inr fp"
    and pos: "fp ''ch'' = Some (ch_pos c')" "fp ''ra'' = Some (ra_pos c')"
    "fp ''bg'' = Some (bg_pos c')" "fp ''ba'' = Some (ba_pos c')" "fp ''ro'' = Some (ro_pos c')"
    and masks: "field_mask (field_width c) ''ch'' = Inr (ch_mask c')"
    "field_mask (field_width c) ''ra'' = Inr (ra_mask c')"
    "field_mask (field_width c) ''bg'' = Inr (bg_mask c')"
    "field_mask (field_width c) ''ba'' = Inr (ba_mask c')"
    "field_mask (field_width c) ''ro'' = Inr (ro_mask c')"
    and co: "\<not> mop_enabled c' \<and> length (address_mapping c) = 12 \<and> fp ''co'' = Some (co_pos c') \<and>
       field_mask (field_width c) ''co'' = Inr (co_mask c') \<or>
     mop_enabled c' \<and> length (address_mapping c) = 14 \<and> fp ''hi'' = Some (hi_pos c') \<and>
       fp ''lo'' = Some (lo_pos c') \<and> field_mask (field_width c) ''hi'' = Inr (hi_mask c') \<and>
       field_mask (field_width c) ''lo'' = Inr (lo_mask c')"
    by (rule SetAddressMapping_fields [OF assms])
  note w = masks [THEN field_width_Some]
  show ?thesis
  proof (cases "mop_enabled c'")
    case False
    with co have len: "length ?ts = length six_fields" and co': "fp ''co'' = Some (co_pos c')"
      "field_mask (field_width c) ''co'' = Inr (co_mask c')"
      by (simp_all add: length_two_char_fields)
    from fields_layout [OF pf _ len, of x y] pos co'(1) w field_width_Some [OF co'(2)] False
    show ?thesis by (simp add: mapped_width_def)
  next
    case True
    with co have len: "length ?ts = length seven_fields" and hl: "fp ''hi'' = Some (hi_pos c')"
      "fp ''lo'' = Some (lo_pos c')" and m: "field_mask (field_width c) ''hi'' = Inr (hi_mask c')"
      "field_mask (field_width c) ''lo'' = Inr (lo_mask c')"
      by (simp_all add: length_two_char_fields)
    from fields_layout [OF pf _ len, of x y] pos hl w m [THEN field_width_Some] True
    show ?thesis unfolding column_pieces [OF m] by simp
  qed
qed

text \<open>C12. Under every mapping string the constructor accepts, with the column in one piece (twelve
  characters) or in two (fourteen, MOP), two physical addresses are decoded to the same channel,
  rank, bank group, bank, row and column exactly when they agree on the mapped bits above the request
  offset: the decoding loses nothing and aliases nothing.  (The constructor clears \<open>mop_enabled\<close>
  before it sets the mapping up.)\<close>

theorem AddressMapping_injective:
  assumes "SetAddressMapping c = Inr c'" and "\<not> mop_enabled c"
    and "AddressMapping c' a = Inr A" and "AddressMapping c' b = Inr B"
  shows "A = B \<longleftrightarrow> take_bit (mapped_width c) (drop_bit (nat (shift_bits c')) a) =
                    take_bit (mapped_width c) (drop_bit (nat (shift_bits c')) b)"
proof -
  have "A = B \<longleftrightarrow> channel A = channel B \<and> rank A = rank B \<and> bankgroup A = bankgroup B \<and>
      bank A = bank B \<and> row A = row B \<and> column A = column B"
    by (auto intro: Address.equality)
  also have "\<dots> \<longleftrightarrow> take_bit (mapped_width c) (drop_bit (nat (shift_bits c')) a) =
                    take_bit (mapped_width c) (drop_bit (nat (shift_bits c')) b)"
    by (simp add: mapping_layout [OF assms(1,2)] AddressMapping_values [OF assms(1-3)]
        AddressMapping_values [OF assms(1,2,4)] field_eq_def push_or_eq_iff field_value_bound)
  finally show ?thesis .
qed

lemma uint_take_bit_LogBase2:
  assumes "0 < n"
  shows "uint (take_bit (nat (LogBase2 n)) (y :: u64)) < n"
proof -
  have "uint (take_bit (nat (LogBase2 n)) y) < 2 ^ nat (LogBase2 n)" by (simp add: unsigned_take_bit_eq)
  also have "\<dots> \<le> n" using LogBase2_bounds [of n] assms by simp
  finally show ?thesis .
qed

text \<open>Every decoded address names a channel, rank, bank group, bank and row the configuration has,
  whatever the address and even when a size is not a power of two.\<close>

lemma AddressMapping_bounded:
  assumes "SetAddressMapping c = Inr c'" and "\<not> mop_enabled c" and "AddressMapping c' h = Inr A"
    and "0 < channels c" and "0 < ranks c" and "0 < bankgroups c" and "0 < banks_per_group c" and "0 < rows c"
  shows "0 \<le> channel A \<and> channel A < channels c \<and> 0 \<le> rank A \<and> rank A < ranks c \<and>
    0 \<le> bankgroup A \<and> bankgroup A < bankgroups c \<and> 0 \<le> bank A \<and> bank A < banks_per_group c \<and>
    0 \<le> row A \<and> row A < rows c"
proof -
  have w: "width_of c ''ch'' = nat (LogBase2 (channels c))" "width_of c ''ra'' = nat (LogBase2 (ranks c))"
    "width_of c ''bg'' = nat (LogBase2 (bankgroups c))" "width_of c ''ba'' = nat (LogBase2 (banks_per_group c))"
    "width_of c ''ro'' = nat (LogBase2 (rows c))"
    by (simp_all add: width_of_def field_width_def Let_def)
  show ?thesis
    using AddressMapping_values [OF assms(1-3)] assms(4-8) [THEN uint_take_bit_LogBase2]
    unfolding field_value_def w by simp
qed

text \<open>A small concrete configuration on which the statements of the development are instantiated:
  two channels, two ranks of two bank groups of two banks, sixteen rows, mapping
  \<open>ro-ra-bg-ba-ch-co\<close>.\<close>

definition sample_Config :: Config where
  "sample_Config =
     \<lparr>protocol = DDR5, channel_size = 1, channels = 2, ranks = 2, banks = 4,
      bankgroups = 2, banks_per_group = 2, rows = 16, columns = 64, device_width = 8,
      bus_width = 64, devices_per_rank = 8, BL = 8, moat_ath = 8, pac_prob = 4,
      mopac_buf_size = 5, mopac_abo_updates = 5, mopac_ref_updates = 2, mopac_drain_freq = 1,
      mopac_queue_th = 4, shift_bits = 6, ch_pos = 3, ra_pos = 6, bg_pos = 5, ba_pos = 4,
      ro_pos = 7, co_pos = 0, hi_pos = 0, lo_pos = 0, ch_mask = 1, ra_mask = 1, bg_mask = 1,
      ba_mask = 1, ro_mask = 15, co_mask = 7, hi_mask = 0, lo_mask = 0, burst_cycle = 4, AL = 0,
      CL = 12, CWL = 12, RL = 12, WL = 12, tCCD_L = 6, tCCD_S = 4, tRTRS = 2, tRTP = 5,
      tWTR_L = 5, tWTR_S = 5, tWR = 10, tRP = 10, tRRD_L = 4, tRRD_S = 4, tRAS = 24, tRCD = 10,
      tRC = 34, tCKE = 6, tCKESR = 12, tXS = 432, tXP = 8, tREFSBRD = 72, tRFC = 74, tRFCsb = 74,
      tRFCb = 20, tREFI = 7800, tREFIsb = 1950, tREFIb = 1950, tFAW = 50, tRPRE = 1, tWPRE = 1,
      read_delay = 16, write_delay = 16, tPPD = 0, t32AW = 330, tRCDRD = 24, tRCDWR = 20,
      num_links = 4, num_dies = 1, link_width = 16, link_speed = 15000, block_size = 64,
      xbar_queue_depth = 16, address_mapping = ''rorabgbachco'', mop_size = 0,
      mop_enabled = False, queue_structure = ''PER_BANK'', row_buf_policy = OPEN_PAGE,
      refresh_policy = RANK_LEVEL_STAGGERED, cmd_queue_size = 4, unified_queue = False,
      trans_queue_size = 8, write_buf_size = 8, enable_self_refresh = False,
      sref_threshold = 1000, aggressive_precharging_enabled = False, enable_hbm_dual_cmd = False,
      rfm_mode = 0, raaimt = 4, raammt = 12, rfm_raa_decrement = 4, ref_raa_decrement = 2,
      tRFM = 74, tRFMsb = 37, alert_mode = 0, rows_refreshed = 2, tABO = 432, ABO_delay_acts = 1,
      tRP2 = 20, tRAS2 = 30, tON = 433, epoch_period = 100000, request_size_bytes = 64,
      ideal_memory_latency = 10\<rparr>"

lemma sample_Config_sel:
  "protocol sample_Config = DDR5" "channel_size sample_Config = 1" "channels sample_Config = 2"
  "ranks sample_Config = 2" "banks sample_Config = 4" "bankgroups sample_Config = 2"
  "banks_per_group sample_Config = 2" "rows sample_Config = 16" "columns sample_Config = 64"
  "device_width sample_Config = 8" "bus_width sample_Config = 64"
  "devices_per_rank sample_Config = 8" "BL sample_Config = 8" "moat_ath sample_Config = 8"
  "pac_prob sample_Config = 4" "mopac_buf_size sample_Config = 5"
  "mopac_abo_updates sample_Config = 5" "mopac_ref_updates sample_Config = 2"
  "mopac_drain_freq sample_Config = 1" "mopac_queue_th sample_Config = 4"
  "shift_bits sample_Config = 6" "ch_pos sample_Config = 3" "ra_pos sample_Config = 6"
  "bg_pos sample_Config = 5" "ba_pos sample_Config = 4" "ro_pos sample_Config = 7"
  "co_pos sample_Config = 0" "hi_pos sample_Config = 0" "lo_pos sample_Config = 0"
  "ch_mask sample_Config = 1" "ra_mask sample_Config = 1" "bg_mask sample_Config = 1"
  "ba_mask sample_Config = 1" "ro_mask sample_Config = 15" "co_mask sample_Config = 7"
  "hi_mask sample_Config = 0" "lo_mask sample_Config = 0" "burst_cycle sample_Config = 4"
  "AL sample_Config = 0" "CL sample_Config = 12" "CWL sample_Config = 12" "RL sample_Config = 12"
  "WL sample_Config = 12" "tCCD_L sample_Config = 6" "tCCD_S sample_Config = 4"
  "tRTRS sample_Config = 2" "tRTP sample_Config = 5" "tWTR_L sample_Config = 5"
  "tWTR_S sample_Config = 5" "tWR sample_Config = 10" "tRP sample_Config = 10"
  "tRRD_L sample_Config = 4" "tRRD_S sample_Config = 4" "tRAS sample_Config = 24"
  "tRCD sample_Config = 10" "tRC sample_Config = 34" "tCKE sample_Config = 6"
  "tCKESR sample_Config = 12" "tXS sample_Config = 432" "tXP sample_Config = 8"
  "tREFSBRD sample_Config = 72" "tRFC sample_Config = 74" "tRFCsb sample_Config = 74"
  "tRFCb sample_Config = 20" "tREFI sample_Config = 7800" "tREFIsb sample_Config = 1950"
  "tREFIb sample_Config = 1950" "tFAW sample_Config = 50" "tRPRE sample_Config = 1"
  "tWPRE sample_Config = 1" "read_delay sample_Config = 16" "write_delay sample_Config = 16"
  "tPPD sample_Config = 0" "t32AW sample_Config = 330" "tRCDRD sample_Config = 24"
  "tRCDWR sample_Config = 20" "num_links sample_Config = 4" "num_dies sample_Config = 1"
  "link_width sample_Config = 16" "link_speed sample_Config = 15000"
  "block_size sample_Config = 64" "xbar_queue_depth sample_Config = 16"
  "address_mapping sample_Config = ''rorabgbachco''" "mop_size sample_Config = 0"
  "mop_enabled sample_Config = False" "queue_structure sample_Config = ''PER_BANK''"
  "row_buf_policy sample_Config = OPEN_PAGE"
  "refresh_policy sample_Config = RANK_LEVEL_STAGGERED" "cmd_queue_size sample_Config = 4"
  "unified_queue sample_Config = False" "trans_queue_size sample_Config = 8"
  "write_buf_size sample_Config = 8" "enable_self_refresh sample_Config = False"
  "sref_threshold sample_Config = 1000" "aggressive_precharging_enabled sample_Config = False"
  "enable_hbm_dual_cmd sample_Config = False" "rfm_mode sample_Config = 0"
  "raaimt sample_Config = 4" "raammt sample_Config = 12" "rfm_raa_decrement sample_Config = 4"
  "ref_raa_decrement sample_Config = 2" "tRFM sample_Config = 74" "tRFMsb sample_Config = 37"
  "alert_mode sample_Config = 0" "rows_refreshed sample_Config = 2" "tABO sample_Config = 432"
  "ABO_delay_acts sample_Config = 1" "tRP2 sample_Config = 20" "tRAS2 sample_Config = 30"
  "tON sample_Config = 433" "epoch_period sample_Config = 100000"
  "request_size_bytes sample_Config = 64" "ideal_memory_latency sample_Config = 10"
  by (simp_all add: sample_Config_def)

lemma sample_SetAddressMapping: "SetAddressMapping sample_Config = Inr sample_Config"
  by (simp add: SetAddressMapping_def sample_Config_def field_width_def LogBase2_rec map_at_def
      field_mask_def Let_def)

lemma sample_AddressMapping:
  "AddressMapping sample_Config 64 = Inr (mk_Address 0 0 0 0 0 1)"
  "AddressMapping sample_Config 8192 = Inr (mk_Address 0 0 0 0 1 0)"
  by (simp_all add: AddressMapping_def sample_Config_def addr_field_def shr_u64_def u64_to_int_def)

text \<open>The same organisation under a MOP mapping, the two low bits of the column below the channel.\<close>

definition mop_Config :: Config where
  "mop_Config = sample_Config\<lparr>address_mapping := ''rohirababgchlo'', mop_size := 4\<rparr>"

definition mop_mapped :: Config where
  "mop_mapped = mop_Config\<lparr>mop_enabled := True, lo_pos := 0, lo_mask := 3, ch_pos := 2, bg_pos := 3,
     ba_pos := 4, ra_pos := 5, hi_pos := 6, hi_mask := 1\<rparr>"

lemma mop_SetAddressMapping: "SetAddressMapping mop_Config = Inr mop_mapped"
  by (simp add: SetAddressMapping_def mop_Config_def mop_mapped_def sample_Config_def field_width_def
      LogBase2_rec map_at_def field_mask_def Let_def)

lemma mop_AddressMapping:
  "AddressMapping mop_mapped 64 = Inr (mk_Address 0 0 0 0 0 1)"
  "AddressMapping mop_mapped 4096 = Inr (mk_Address 0 0 0 0 0 4)"
  by (simp_all add: AddressMapping_def mop_mapped_def mop_Config_def sample_Config_def addr_field_def
      shr_u64_def u64_to_int_def LogBase2_rec)

theorem AddressMapping_injective_witness:
  "take_bit (mapped_width sample_Config) (drop_bit (nat (shift_bits sample_Config)) (64 :: u64)) \<noteq>
   take_bit (mapped_width sample_Config) (drop_bit (nat (shift_bits sample_Config)) 8192) \<and>
   take_bit (mapped_width mop_Config) (drop_bit (nat (shift_bits mop_mapped)) (64 :: u64)) \<noteq>
   take_bit (mapped_width mop_Config) (drop_bit (nat (shift_bits mop_mapped)) 4096)"
proof -
  have m: "\<not> mop_enabled sample_Config" "\<not> mop_enabled mop_Config"
    by (simp_all add: sample_Config_def mop_Config_def)
  from AddressMapping_injective [OF sample_SetAddressMapping m(1) sample_AddressMapping]
    AddressMapping_injective [OF mop_SetAddressMapping m(2) mop_AddressMapping]
  show ?thesis by (simp add: mk_Address_def)
qed

end
