(* ===== verification/Timing_Tables.thy ===== *)
theory Timing_Tables
  imports Configuration
begin

text \<open>
  The command-to-command delays (\<open>DRAMsim3/src/timing.h\<close> and \<open>timing.cc\<close>).  A table gives,
  for an issued command type, the list of later command types it delays and by how many cycles; the
  seven tables are for the same bank, the other banks of the bank group, the other bank groups of the
  rank, the other ranks, the whole rank, the same bank set and the other bank sets.  A vector indexed
  by the command type is a function of it.
\<close>

type_synonym TVEC = "CommandType \<Rightarrow> (CommandType \<times> int) list"

record Timing =
  same_bank :: TVEC
  other_banks_same_bankgroup :: TVEC
  other_bankgroups_same_rank :: TVEC
  other_ranks :: TVEC
  same_rank :: TVEC
  same_bankset :: TVEC
  other_banksets :: TVEC

section \<open>Copying the precharge entries to the counter-updating precharges\<close>

definition promoted_entry :: "CommandType \<times> int \<Rightarrow> (CommandType \<times> int) list" where
  "promoted_entry = (\<lambda>(c, t).
     if c = READ_PRECHARGE then [(READ_PRECHARGE2, t)]
     else if c = WRITE_PRECHARGE then [(WRITE_PRECHARGE2, t)]
     else if c = PRECHARGE then [(PRECHARGE2, t)]
     else [])"

definition copy_timing_data_internal :: "TVEC \<Rightarrow> TVEC" where
  "copy_timing_data_internal timing = (\<lambda>i. timing i @ concat (map promoted_entry (timing i)))"

definition copy_timing_data_external :: "TVEC \<Rightarrow> CommandType \<Rightarrow> CommandType \<Rightarrow> TVEC" where
  "copy_timing_data_external timing from to = timing(to := timing from)"

definition copy_all :: "TVEC \<Rightarrow> TVEC" where
  "copy_all timing =
     (let t = copy_timing_data_internal timing;
          t = copy_timing_data_external t READ_PRECHARGE READ_PRECHARGE2;
          t = copy_timing_data_external t WRITE_PRECHARGE WRITE_PRECHARGE2
      in copy_timing_data_external t PRECHARGE PRECHARGE2)"

fun set_first :: "CommandType \<Rightarrow> int \<Rightarrow> (CommandType \<times> int) list \<Rightarrow> (CommandType \<times> int) list" where
  "set_first c t [] = []"
| "set_first c t (e # es) = (if fst e = c then (c, t) # es else e # set_first c t es)"

definition find_and_set :: "CommandType \<Rightarrow> CommandType \<Rightarrow> int \<Rightarrow> TVEC \<Rightarrow> TVEC" where
  "find_and_set key c t timing = timing(key := set_first c t (timing key))"

section \<open>The delays\<close>

text \<open>With a single bank group the short delays replace the long ones.\<close>

definition read_to_read_l :: "Config \<Rightarrow> int" where
  "read_to_read_l c = (if bankgroups c = 1 then max (burst_cycle c) (tCCD_S c)
                       else max (burst_cycle c) (tCCD_L c))"
definition read_to_read_s :: "Config \<Rightarrow> int" where
  "read_to_read_s c = max (burst_cycle c) (tCCD_S c)"
definition read_to_read_o :: "Config \<Rightarrow> int" where
  "read_to_read_o c = burst_cycle c + tRTRS c"
definition read_to_write :: "Config \<Rightarrow> int" where
  "read_to_write c = RL c + burst_cycle c - WL c + tRTRS c"
definition read_to_write_o :: "Config \<Rightarrow> int" where
  "read_to_write_o c = read_delay c + burst_cycle c + tRTRS c - write_delay c"
definition read_to_precharge :: "Config \<Rightarrow> int" where
  "read_to_precharge c = AL c + tRTP c"
definition readp_to_act :: "Config \<Rightarrow> int" where
  "readp_to_act c = AL c + burst_cycle c + tRTP c + tRP c"
definition write_to_read_l :: "Config \<Rightarrow> int" where
  "write_to_read_l c = (if bankgroups c = 1 then write_delay c + tWTR_S c
                        else write_delay c + tWTR_L c)"
definition write_to_read_s :: "Config \<Rightarrow> int" where
  "write_to_read_s c = write_delay c + tWTR_S c"
definition write_to_read_o :: "Config \<Rightarrow> int" where
  "write_to_read_o c = write_delay c + burst_cycle c + tRTRS c - read_delay c"
definition write_to_write_l :: "Config \<Rightarrow> int" where
  "write_to_write_l c = (if bankgroups c = 1 then max (burst_cycle c) (tCCD_S c)
                         else max (burst_cycle c) (tCCD_L c))"
definition write_to_write_s :: "Config \<Rightarrow> int" where
  "write_to_write_s c = max (burst_cycle c) (tCCD_S c)"
definition write_to_write_o :: "Config \<Rightarrow> int" where
  "write_to_write_o c = burst_cycle c"
definition write_to_precharge :: "Config \<Rightarrow> int" where
  "write_to_precharge c = WL c + burst_cycle c + tWR c"
definition precharge_to_activate :: "Config \<Rightarrow> int" where
  "precharge_to_activate c = tRP c"
definition precharge_to_precharge :: "Config \<Rightarrow> int" where
  "precharge_to_precharge c = tPPD c"
definition read_to_activate :: "Config \<Rightarrow> int" where
  "read_to_activate c = read_to_precharge c + precharge_to_activate c"
definition write_to_activate :: "Config \<Rightarrow> int" where
  "write_to_activate c = write_to_precharge c + precharge_to_activate c"
definition activate_to_activate :: "Config \<Rightarrow> int" where
  "activate_to_activate c = tRC c"
definition activate_to_activate_l :: "Config \<Rightarrow> int" where
  "activate_to_activate_l c = (if bankgroups c = 1 then tRRD_S c else tRRD_L c)"
definition activate_to_activate_s :: "Config \<Rightarrow> int" where
  "activate_to_activate_s c = tRRD_S c"
definition activate_to_precharge :: "Config \<Rightarrow> int" where
  "activate_to_precharge c = tRAS c"
definition activate_to_read :: "Config \<Rightarrow> int" where
  "activate_to_read c = (if IsGDDR c \<or> IsHBM c then tRCDRD c else tRCD c - AL c)"
definition activate_to_write :: "Config \<Rightarrow> int" where
  "activate_to_write c = (if IsGDDR c \<or> IsHBM c then tRCDWR c else tRCD c - AL c)"
definition activate_to_refresh :: "Config \<Rightarrow> int" where
  "activate_to_refresh c = tRC c"
definition activate_to_refsb :: "Config \<Rightarrow> int" where
  "activate_to_refsb c = tRRD_L c"
definition refresh_to_refresh_bank :: "Config \<Rightarrow> int" where
  "refresh_to_refresh_bank c = tREFIb c"
definition refresh_to_activate :: "Config \<Rightarrow> int" where
  "refresh_to_activate c = tRFC c"
definition refsb_to_activate :: "Config \<Rightarrow> int" where
  "refsb_to_activate c = tRFCsb c"
definition refresh_to_activate_bank :: "Config \<Rightarrow> int" where
  "refresh_to_activate_bank c = tRFCb c"
definition refsb_to_activate_other :: "Config \<Rightarrow> int" where
  "refsb_to_activate_other c = tREFSBRD c"
definition self_refresh_entry_to_exit :: "Config \<Rightarrow> int" where
  "self_refresh_entry_to_exit c = tCKESR c"
definition self_refresh_exit :: "Config \<Rightarrow> int" where
  "self_refresh_exit c = tXS c"
definition rfmab_to_activate :: "Config \<Rightarrow> int" where
  "rfmab_to_activate c = tRFM c"
definition rfmsb_to_activate :: "Config \<Rightarrow> int" where
  "rfmsb_to_activate c = tRFMsb c"

section \<open>The tables before the copies\<close>

definition init_same_bank :: "Config \<Rightarrow> TVEC" where
  "init_same_bank c cmd = (case cmd of
     READ \<Rightarrow>
       [(READ, read_to_read_l c), (WRITE, read_to_write c), (READ_PRECHARGE, read_to_read_l c),
        (WRITE_PRECHARGE, read_to_write c), (PRECHARGE, read_to_precharge c)]
   | WRITE \<Rightarrow>
       [(READ, write_to_read_l c), (WRITE, write_to_write_l c), (READ_PRECHARGE, write_to_read_l c),
        (WRITE_PRECHARGE, write_to_write_l c), (PRECHARGE, write_to_precharge c)]
   | READ_PRECHARGE \<Rightarrow>
       [(ACTIVATE, readp_to_act c), (REFsb, read_to_activate c), (REFab, read_to_activate c),
        (REFRESH_BANK, read_to_activate c), (SREF_ENTER, read_to_activate c),
        (RFMsb, read_to_activate c), (RFMab, read_to_activate c)]
   | WRITE_PRECHARGE \<Rightarrow>
       [(ACTIVATE, write_to_activate c), (REFsb, write_to_activate c), (REFab, write_to_activate c),
        (REFRESH_BANK, write_to_activate c), (SREF_ENTER, write_to_activate c),
        (RFMab, write_to_activate c), (RFMsb, write_to_activate c)]
   | ACTIVATE \<Rightarrow>
       [(ACTIVATE, activate_to_activate c), (READ, activate_to_read c), (WRITE, activate_to_write c),
        (READ_PRECHARGE, activate_to_read c), (WRITE_PRECHARGE, activate_to_write c),
        (PRECHARGE, activate_to_precharge c)]
   | PRECHARGE \<Rightarrow>
       [(ACTIVATE, precharge_to_activate c), (REFab, precharge_to_activate c),
        (REFsb, precharge_to_activate c), (REFRESH_BANK, precharge_to_activate c),
        (SREF_ENTER, precharge_to_activate c), (RFMab, precharge_to_activate c),
        (RFMsb, precharge_to_activate c)]
   | _ \<Rightarrow> [])"

definition init_other_banks_same_bankgroup :: "Config \<Rightarrow> TVEC" where
  "init_other_banks_same_bankgroup c cmd = (case cmd of
     READ \<Rightarrow>
       [(READ, read_to_read_l c), (WRITE, read_to_write c), (READ_PRECHARGE, read_to_read_l c),
        (WRITE_PRECHARGE, read_to_write c)]
   | WRITE \<Rightarrow>
       [(READ, write_to_read_l c), (WRITE, write_to_write_l c), (READ_PRECHARGE, write_to_read_l c),
        (WRITE_PRECHARGE, write_to_write_l c)]
   | READ_PRECHARGE \<Rightarrow>
       [(READ, read_to_read_l c), (WRITE, read_to_write c), (READ_PRECHARGE, read_to_read_l c),
        (WRITE_PRECHARGE, read_to_write c)]
   | WRITE_PRECHARGE \<Rightarrow>
       [(READ, write_to_read_l c), (WRITE, write_to_write_l c), (READ_PRECHARGE, write_to_read_l c),
        (WRITE_PRECHARGE, write_to_write_l c)]
   | ACTIVATE \<Rightarrow>
       [(ACTIVATE, activate_to_activate_l c), (REFRESH_BANK, activate_to_refresh c),
        (REFsb, activate_to_refsb c)]
   | PRECHARGE \<Rightarrow>
       (if IsGDDR c \<or> protocol c = LPDDR4 then [(PRECHARGE, precharge_to_precharge c)] else [])
   | REFRESH_BANK \<Rightarrow>
       [(ACTIVATE, refresh_to_activate c), (REFRESH_BANK, refresh_to_refresh_bank c)]
   | _ \<Rightarrow> [])"

definition init_other_bankgroups_same_rank :: "Config \<Rightarrow> TVEC" where
  "init_other_bankgroups_same_rank c cmd = (case cmd of
     READ \<Rightarrow>
       [(READ, read_to_read_s c), (WRITE, read_to_write c), (READ_PRECHARGE, read_to_read_s c),
        (WRITE_PRECHARGE, read_to_write c)]
   | WRITE \<Rightarrow>
       [(READ, write_to_read_s c), (WRITE, write_to_write_s c), (READ_PRECHARGE, write_to_read_s c),
        (WRITE_PRECHARGE, write_to_write_s c)]
   | READ_PRECHARGE \<Rightarrow>
       [(READ, read_to_read_s c), (WRITE, read_to_write c), (READ_PRECHARGE, read_to_read_s c),
        (WRITE_PRECHARGE, read_to_write c)]
   | WRITE_PRECHARGE \<Rightarrow>
       [(READ, write_to_read_s c), (WRITE, write_to_write_s c), (READ_PRECHARGE, write_to_read_s c),
        (WRITE_PRECHARGE, write_to_write_s c)]
   | ACTIVATE \<Rightarrow>
       [(ACTIVATE, activate_to_activate_s c), (REFRESH_BANK, activate_to_refresh c),
        (REFsb, activate_to_refsb c)]
   | PRECHARGE \<Rightarrow>
       (if IsGDDR c \<or> protocol c = LPDDR4 then [(PRECHARGE, precharge_to_precharge c)] else [])
   | REFRESH_BANK \<Rightarrow>
       [(ACTIVATE, refresh_to_activate c), (REFRESH_BANK, refresh_to_refresh_bank c)]
   | _ \<Rightarrow> [])"

definition init_other_ranks :: "Config \<Rightarrow> TVEC" where
  "init_other_ranks c cmd = (case cmd of
     READ \<Rightarrow>
       [(READ, read_to_read_o c), (WRITE, read_to_write_o c), (READ_PRECHARGE, read_to_read_o c),
        (WRITE_PRECHARGE, read_to_write_o c)]
   | WRITE \<Rightarrow>
       [(READ, write_to_read_o c), (WRITE, write_to_write_o c), (READ_PRECHARGE, write_to_read_o c),
        (WRITE_PRECHARGE, write_to_write_o c)]
   | READ_PRECHARGE \<Rightarrow>
       [(READ, read_to_read_o c), (WRITE, read_to_write_o c), (READ_PRECHARGE, read_to_read_o c),
        (WRITE_PRECHARGE, read_to_write_o c)]
   | WRITE_PRECHARGE \<Rightarrow>
       [(READ, write_to_read_o c), (WRITE, write_to_write_o c), (READ_PRECHARGE, write_to_read_o c),
        (WRITE_PRECHARGE, write_to_write_o c)]
   | _ \<Rightarrow> [])"

definition init_same_rank :: "Config \<Rightarrow> TVEC" where
  "init_same_rank c cmd = (case cmd of
     REFRESH_BANK \<Rightarrow>
       [(ACTIVATE, refresh_to_activate_bank c), (REFsb, refresh_to_activate_bank c),
        (REFab, refresh_to_activate_bank c), (REFRESH_BANK, refresh_to_activate_bank c),
        (SREF_ENTER, refresh_to_activate_bank c)]
   | REFab \<Rightarrow>
       [(ACTIVATE, refresh_to_activate c), (REFab, refresh_to_activate c),
        (REFsb, refresh_to_activate c), (SREF_ENTER, refresh_to_activate c),
        (RFMab, refresh_to_activate c), (RFMsb, refresh_to_activate c)]
   | SREF_ENTER \<Rightarrow> [(SREF_EXIT, self_refresh_entry_to_exit c)]
   | SREF_EXIT \<Rightarrow>
       [(ACTIVATE, self_refresh_exit c), (REFsb, self_refresh_exit c), (REFab, self_refresh_exit c),
        (REFRESH_BANK, self_refresh_exit c), (SREF_ENTER, self_refresh_exit c)]
   | RFMab \<Rightarrow>
       [(ACTIVATE, rfmab_to_activate c), (REFsb, rfmab_to_activate c), (REFab, rfmab_to_activate c),
        (REFRESH_BANK, rfmab_to_activate c), (SREF_ENTER, rfmab_to_activate c),
        (RFMab, rfmab_to_activate c)]
   | _ \<Rightarrow> [])"

definition init_same_bankset :: "Config \<Rightarrow> TVEC" where
  "init_same_bankset c cmd = (case cmd of
     RFMsb \<Rightarrow>
       [(ACTIVATE, rfmsb_to_activate c), (REFsb, rfmsb_to_activate c), (REFab, rfmsb_to_activate c),
        (REFRESH_BANK, rfmsb_to_activate c), (SREF_ENTER, rfmsb_to_activate c),
        (RFMsb, rfmsb_to_activate c)]
   | REFsb \<Rightarrow>
       [(ACTIVATE, refsb_to_activate c), (REFsb, refsb_to_activate c), (REFab, refsb_to_activate c),
        (SREF_ENTER, refsb_to_activate c), (RFMab, refsb_to_activate c),
        (RFMsb, refsb_to_activate c)]
   | _ \<Rightarrow> [])"

definition init_other_banksets :: "Config \<Rightarrow> TVEC" where
  "init_other_banksets c cmd = (case cmd of
     REFsb \<Rightarrow> [(ACTIVATE, refsb_to_activate_other c)]
   | _ \<Rightarrow> [])"

section \<open>The constructor\<close>

definition readp_to_act_2 :: "Config \<Rightarrow> int" where
  "readp_to_act_2 c = AL c + burst_cycle c + tRTP c + tRP2 c"
definition activate_to_precharge_2 :: "Config \<Rightarrow> int" where
  "activate_to_precharge_2 c = tRAS2 c"
definition precharge_to_activate_2 :: "Config \<Rightarrow> int" where
  "precharge_to_activate_2 c = tRP2 c"
definition read_to_activate_2 :: "Config \<Rightarrow> int" where
  "read_to_activate_2 c = read_to_precharge c + precharge_to_activate_2 c"
definition write_to_activate_2 :: "Config \<Rightarrow> int" where
  "write_to_activate_2 c = write_to_precharge c + precharge_to_activate_2 c"

definition promote_same_bank :: "Config \<Rightarrow> TVEC \<Rightarrow> TVEC" where
  "promote_same_bank c t =
     (let t = find_and_set ACTIVATE PRECHARGE2 (activate_to_precharge_2 c) t;
          t = find_and_set READ_PRECHARGE2 ACTIVATE (readp_to_act_2 c) t;
          t = find_and_set WRITE_PRECHARGE2 ACTIVATE (write_to_activate_2 c) t;
          t = find_and_set PRECHARGE2 ACTIVATE (precharge_to_activate_2 c) t
      in fold (\<lambda>cmd t.
           let t = find_and_set READ_PRECHARGE2 cmd (read_to_activate_2 c) t;
               t = find_and_set WRITE_PRECHARGE2 cmd (write_to_activate_2 c) t
           in find_and_set PRECHARGE2 cmd (precharge_to_activate_2 c) t)
         [REFsb, REFab, REFRESH_BANK, SREF_ENTER, RFMsb, RFMab] t)"

definition new_Timing :: "Config \<Rightarrow> Timing" where
  "new_Timing c =
     \<lparr>same_bank = promote_same_bank c (copy_all (init_same_bank c)),
      other_banks_same_bankgroup = copy_all (init_other_banks_same_bankgroup c),
      other_bankgroups_same_rank = copy_all (init_other_bankgroups_same_rank c),
      other_ranks = copy_all (init_other_ranks c),
      same_rank = copy_all (init_same_rank c),
      same_bankset = copy_all (init_same_bankset c),
      other_banksets = copy_all (init_other_banksets c)\<rparr>"

section \<open>What the constructed tables say\<close>

text \<open>The delay a table imposes on a later command: the entries are unique, so the first is it.\<close>

definition delay_in :: "TVEC \<Rightarrow> CommandType \<Rightarrow> CommandType \<Rightarrow> int option" where
  "delay_in t cmd later = map_of (t cmd) later"

lemmas timing_build_defs =
  new_Timing_def promote_same_bank_def copy_all_def copy_timing_data_internal_def
  copy_timing_data_external_def promoted_entry_def find_and_set_def Let_def

lemmas timing_init_defs =
  init_same_bank_def init_other_banks_same_bankgroup_def init_other_bankgroups_same_rank_def
  init_other_ranks_def init_same_rank_def init_same_bankset_def init_other_banksets_def

text \<open>The whole same-bank table after construction, evaluated once; the component proofs use it.\<close>

lemma same_bank_table [simp]:
  "same_bank (new_Timing c) READ = init_same_bank c READ @
     [(READ_PRECHARGE2, read_to_read_l c), (WRITE_PRECHARGE2, read_to_write c),
      (PRECHARGE2, read_to_precharge c)]"
  "same_bank (new_Timing c) WRITE = init_same_bank c WRITE @
     [(READ_PRECHARGE2, write_to_read_l c), (WRITE_PRECHARGE2, write_to_write_l c),
      (PRECHARGE2, write_to_precharge c)]"
  "same_bank (new_Timing c) READ_PRECHARGE = init_same_bank c READ_PRECHARGE"
  "same_bank (new_Timing c) WRITE_PRECHARGE = init_same_bank c WRITE_PRECHARGE"
  "same_bank (new_Timing c) ACTIVATE = init_same_bank c ACTIVATE @
     [(READ_PRECHARGE2, activate_to_read c), (WRITE_PRECHARGE2, activate_to_write c),
      (PRECHARGE2, activate_to_precharge_2 c)]"
  "same_bank (new_Timing c) PRECHARGE = init_same_bank c PRECHARGE"
  "same_bank (new_Timing c) REFRESH_BANK = []"
  by (simp_all add: timing_build_defs init_same_bank_def)

lemma same_bank_table_2 [simp]:
  "same_bank (new_Timing c) READ_PRECHARGE2 =
     [(ACTIVATE, readp_to_act_2 c), (REFsb, read_to_activate_2 c), (REFab, read_to_activate_2 c),
      (REFRESH_BANK, read_to_activate_2 c), (SREF_ENTER, read_to_activate_2 c),
      (RFMsb, read_to_activate_2 c), (RFMab, read_to_activate_2 c)]"
  "same_bank (new_Timing c) WRITE_PRECHARGE2 =
     [(ACTIVATE, write_to_activate_2 c), (REFsb, write_to_activate_2 c),
      (REFab, write_to_activate_2 c), (REFRESH_BANK, write_to_activate_2 c),
      (SREF_ENTER, write_to_activate_2 c), (RFMab, write_to_activate_2 c),
      (RFMsb, write_to_activate_2 c)]"
  "same_bank (new_Timing c) PRECHARGE2 =
     [(ACTIVATE, precharge_to_activate_2 c), (REFab, precharge_to_activate_2 c),
      (REFsb, precharge_to_activate_2 c), (REFRESH_BANK, precharge_to_activate_2 c),
      (SREF_ENTER, precharge_to_activate_2 c), (RFMab, precharge_to_activate_2 c),
      (RFMsb, precharge_to_activate_2 c)]"
  by (simp_all add: timing_build_defs init_same_bank_def)

end
