(* ===== verification/Bank_State.thy ===== *)
theory Bank_State
  imports Simple_Stats Timing_Tables
begin

text \<open>
  One DRAM bank (\<open>DRAMsim3/src/bankstate.h\<close> and \<open>bankstate.cc\<close>): the row-buffer state machine,
  the earliest issue time of every command type, the RFM activation counter, and the per-row
  activation counters with their trackers (MOAT, PAC, MOPAC).  The compile-time switches
  \<open>USE_PRAC\<close> and \<open>ROWPRESS\<close> are the record \<open>Build\<close>.  The file's static variables (the
  random generator and the pending precharge choice) and the channel's statistics object are the
  shared record \<open>Shared\<close>; the generator is an arbitrary sequence of 64-bit values with the
  number of values drawn.
\<close>

section \<open>State\<close>

datatype State = OPEN | CLOSED | SREF | PD | STATE_SIZE

record Build =
  USE_PRAC :: int
  ROWPRESS :: bool
  WB_HAS_INF_CAPACITY :: bool

abbreviation PRAC_IMPL_MOAT :: int where "PRAC_IMPL_MOAT \<equiv> 2"
abbreviation PRAC_IMPL_PAC :: int where "PRAC_IMPL_PAC \<equiv> 3"
abbreviation PRAC_IMPL_MOPAC :: int where "PRAC_IMPL_MOPAC \<equiv> 4"

record MopacEntry =
  entry_row :: u64
  sctr :: u64

record Shared =
  rng_seq :: "nat \<Rightarrow> u64"
  rng_pos :: nat
  pac_next_pre_cmd_is_valid :: bool
  pac_next_pre_cmd :: CommandType
  simple_stats :: SimpleStats

record BankState =
  bank_state :: State
  cmd_timing :: "u64 list"
  open_row :: int
  row_open_clk :: u64
  row_hit_count :: int
  bs_rank :: int
  bs_bank_group :: int
  bs_bank :: int
  raa_ctr :: int
  acts_stat_name :: string
  acts_counter :: int
  total_row_acts :: "u64 list"
  prac :: "u16 list"
  moat_row_valid :: bool
  moat_row :: u64
  moat_eth :: u64
  bs_moat_ath :: u64
  moat_trefi_cnt :: u64
  mopac_act_ctr :: u64
  mopac_mint_sel :: u64
  mopac_drain_countdown :: u64
  mopac_buf :: "MopacEntry list"
  mopac_critical_rows :: u64
  ref_idx :: u32

type_synonym bank_ctx = "BankState \<times> Shared"

abbreviation count_stat :: "string \<Rightarrow> Shared \<Rightarrow> Shared" where
  "count_stat n sh \<equiv> sh\<lparr>simple_stats := Increment n (simple_stats sh)\<rparr>"

text \<open>A draw from the generator.\<close>

definition rng :: "Shared \<Rightarrow> u64 \<times> Shared" where
  "rng sh = (rng_seq sh (rng_pos sh), sh\<lparr>rng_pos := Suc (rng_pos sh)\<rparr>)"

definition rng_mod :: "int \<Rightarrow> Shared \<Rightarrow> (u64 \<times> Shared) res" where
  "rng_mod n sh =
     (let (x, sh') = rng sh in bind_res (rem_word x (to_u64 n)) (\<lambda>y. Inr (y, sh')))"

definition new_BankState ::
  "Config \<Rightarrow> u64 \<Rightarrow> int \<Rightarrow> int \<Rightarrow> int \<Rightarrow> Shared \<Rightarrow> bank_ctx res" where
  "new_BankState c moat_row0 r bg ba sh =
     bind_res (rng_mod (pac_prob c) sh) (\<lambda>(sel, sh).
     let name = ''acts.'' @ to_string r @ ''.'' @ to_string bg @ ''.'' @ to_string ba;
         b = \<lparr>bank_state = CLOSED, cmd_timing = replicate 16 0, open_row = -1, row_open_clk = 0,
              row_hit_count = 0, bs_rank = r, bs_bank_group = bg, bs_bank = ba, raa_ctr = 0,
              acts_stat_name = name, acts_counter = 0,
              total_row_acts = replicate (nat (rows c)) 0, prac = replicate (nat (rows c)) 0,
              moat_row_valid = False, moat_row = moat_row0,
              moat_eth = to_u64 (moat_ath c sdiv 2), bs_moat_ath = to_u64 (moat_ath c),
              moat_trefi_cnt = 0, mopac_act_ctr = 0, mopac_mint_sel = sel,
              mopac_drain_countdown = 0, mopac_buf = [], mopac_critical_rows = 0, ref_idx = 0\<rparr>
     in Inr (b, sh\<lparr>simple_stats := InitStat name ''counter'' (simple_stats sh)\<rparr>))"

section \<open>The command a bank needs next\<close>

definition GetPrechargeCmd :: "Build \<Rightarrow> int \<Rightarrow> Shared \<Rightarrow> (CommandType \<times> Shared) res" where
  "GetPrechargeCmd bo prob sh =
     (if USE_PRAC bo = PRAC_IMPL_MOPAC then Inr (PRECHARGE, sh)
      else if USE_PRAC bo = PRAC_IMPL_PAC then
        (if pac_next_pre_cmd_is_valid sh then Inr (pac_next_pre_cmd sh, sh)
         else bind_res (rng_mod prob sh) (\<lambda>(x, sh).
           let t = (if x = 0 then PRECHARGE2 else PRECHARGE)
           in Inr (t, sh\<lparr>pac_next_pre_cmd_is_valid := True, pac_next_pre_cmd := t\<rparr>)))
      else if USE_PRAC bo \<ge> 1 then Inr (PRECHARGE2, sh)
      else Inr (PRECHARGE, sh))"

definition is_rw_type :: "CommandType \<Rightarrow> bool" where
  "is_rw_type t \<longleftrightarrow> t \<in> {READ, READ_PRECHARGE, READ_PRECHARGE2, WRITE, WRITE_PRECHARGE, WRITE_PRECHARGE2}"

definition is_maintenance_type :: "CommandType \<Rightarrow> bool" where
  "is_maintenance_type t \<longleftrightarrow> t \<in> {REFRESH_BANK, REFsb, REFab, SREF_ENTER, RFMsb, RFMab}"

text \<open>The row has been open for more than \<open>tON\<close>: the access also closes it.\<close>

definition forced_closure_type :: "CommandType \<Rightarrow> CommandType \<Rightarrow> CommandType" where
  "forced_closure_type pre t =
     (if pre = PRECHARGE2 then (if t = READ then READ_PRECHARGE2 else WRITE_PRECHARGE2)
      else (if t = READ then READ_PRECHARGE else WRITE_PRECHARGE))"

definition required_type ::
  "Build \<Rightarrow> Config \<Rightarrow> BankState \<Rightarrow> Command \<Rightarrow> u64 \<Rightarrow> Shared \<Rightarrow> (CommandType \<times> Shared) res" where
  "required_type bo c b cmd clk sh =
     (let t = cmd_type cmd in
      case bank_state b of
        CLOSED \<Rightarrow>
          (if is_rw_type t then
             (if rfm_mode c = 1 \<and> raa_ctr b \<ge> raammt c then Inr (RFMsb, sh)
              else if rfm_mode c = 2 \<and> raa_ctr b \<ge> raammt c then Inr (RFMab, sh)
              else Inr (ACTIVATE, sh))
           else if is_maintenance_type t then Inr (t, sh)
           else Inl AbruptExit)
      | OPEN \<Rightarrow>
          (if is_rw_type t then
             (if Row cmd = open_row b then
                (if ROWPRESS bo \<and> clk - row_open_clk b > to_u64 (tON c) then
                   bind_res (GetPrechargeCmd bo (pac_prob c) sh) (\<lambda>(pre, sh).
                   Inr (forced_closure_type pre t, sh))
                 else Inr (t, sh))
              else GetPrechargeCmd bo (pac_prob c) sh)
           else if is_maintenance_type t then GetPrechargeCmd bo (pac_prob c) sh
           else Inl AbruptExit)
      | SREF \<Rightarrow> (if is_rw_type t then Inr (SREF_EXIT, sh) else Inl AbruptExit)
      | PD \<Rightarrow> Inl AbruptExit
      | STATE_SIZE \<Rightarrow> Inl AbruptExit)"

definition BankState_GetReadyCommand ::
  "Build \<Rightarrow> Config \<Rightarrow> BankState \<Rightarrow> Command \<Rightarrow> u64 \<Rightarrow> Shared \<Rightarrow> (Command \<times> Shared) res" where
  "BankState_GetReadyCommand bo c b cmd clk sh =
     bind_res (required_type bo c b cmd clk sh) (\<lambda>(t, sh).
     if t \<noteq> CMD_SIZE then
       bind_res (vec_get (cmd_timing b) (cmd_index t)) (\<lambda>earliest.
       if clk \<ge> earliest then Inr (mk_Command t (addr cmd) (hex_addr cmd), sh)
       else Inr (invalid_Command, sh))
     else Inr (invalid_Command, sh))"

definition BankState_UpdateTiming :: "CommandType \<Rightarrow> u64 \<Rightarrow> BankState \<Rightarrow> BankState res" where
  "BankState_UpdateTiming t time b =
     bind_res (vec_upd (cmd_timing b) (cmd_index t) (\<lambda>old. max old time)) (\<lambda>ct.
     Inr (b\<lparr>cmd_timing := ct\<rparr>))"

definition IsRowOpen :: "BankState \<Rightarrow> bool" where
  "IsRowOpen b \<longleftrightarrow> bank_state b = OPEN"

section \<open>MOAT\<close>

text \<open>Reads and writes of the row counters by \<open>size_t\<close> index.\<close>

abbreviation prac_at :: "BankState \<Rightarrow> u64 \<Rightarrow> u16 res" where
  "prac_at b r \<equiv> vec_get (prac b) (uint r)"

definition MoatCheckTrackedRowIsRefreshed :: "Config \<Rightarrow> BankState \<Rightarrow> BankState" where
  "MoatCheckTrackedRowIsRefreshed c b =
     (let lwr = ucast (ref_idx b) :: u64;
          upp = ucast (ref_idx b + word_of_int (rows_refreshed c)) :: u64
      in if moat_row_valid b \<and> moat_row b \<ge> lwr \<and> moat_row b < upp
         then b\<lparr>moat_row_valid := False\<rparr> else b)"

definition MoatUpdate :: "BankState \<Rightarrow> BankState res" where
  "MoatUpdate b =
     bind_res (vec_get (prac b) (open_row b)) (\<lambda>p.
     let ctr = ucast p :: u64;
         track = b\<lparr>moat_row := to_u64 (open_row b), moat_row_valid := True\<rparr>
     in if ctr \<ge> moat_eth b then
          (if \<not> moat_row_valid b then Inr track
           else bind_res (prac_at b (moat_row b)) (\<lambda>q. Inr (if ctr > ucast q then track else b)))
        else Inr b)"

definition MoatMitigate :: "bank_ctx \<Rightarrow> bank_ctx res" where
  "MoatMitigate = (\<lambda>(b, sh).
     if moat_row_valid b then
       bind_res (vec_set (prac b) (uint (moat_row b)) 0) (\<lambda>p.
       Inr (b\<lparr>prac := p, moat_row_valid := False\<rparr>, count_stat ''num_moat_mitigations'' sh))
     else Inr (b, sh))"

definition MoatHandleRef :: "Config \<Rightarrow> bank_ctx \<Rightarrow> bank_ctx res" where
  "MoatHandleRef c = (\<lambda>(b, sh).
     let b = b\<lparr>moat_trefi_cnt := moat_trefi_cnt b + 1\<rparr> in
     bind_res
       (if moat_trefi_cnt b = 5 then
          bind_res (MoatMitigate (b, sh)) (\<lambda>(b, sh). Inr (b\<lparr>moat_trefi_cnt := 0\<rparr>, sh))
        else Inr (b, sh)) (\<lambda>(b, sh).
     Inr (MoatCheckTrackedRowIsRefreshed c b, sh)))"

section \<open>MOPAC\<close>

text \<open>The parameter is passed by value: the caller's variable keeps its value.\<close>

definition SafeDecrement :: "u64 \<Rightarrow> unit" where
  "SafeDecrement x = (let x = (if x \<noteq> 0 then x - 1 else x) in ())"

definition MopacUpdatePRAC :: "u64 \<Rightarrow> u64 \<Rightarrow> BankState \<Rightarrow> BankState res" where
  "MopacUpdatePRAC r by b =
     bind_res (vec_upd (prac b) (uint r) (\<lambda>p. ucast (ucast p + by :: u64))) (\<lambda>pr.
     let b = b\<lparr>prac := pr\<rparr>;
         track = b\<lparr>moat_row := r, moat_row_valid := True\<rparr>
     in bind_res (prac_at b r) (\<lambda>p.
        if ucast p \<ge> moat_eth b then
          (if \<not> moat_row_valid b then Inr track
           else bind_res (prac_at b (moat_row b)) (\<lambda>q. Inr (if p > q then track else b)))
        else Inr b))"

definition MopacFlushNextCtr :: "BankState \<Rightarrow> BankState res" where
  "MopacFlushNextCtr b =
     (case mopac_buf b of
        [] \<Rightarrow> Inr b
      | e # es \<Rightarrow> MopacUpdatePRAC (entry_row e) (sctr e) (b\<lparr>mopac_buf := es\<rparr>))"

definition MopacFlushAllCtrs :: "Config \<Rightarrow> BankState \<Rightarrow> BankState res" where
  "MopacFlushAllCtrs c b = iter_res (unat (to_u64 (mopac_abo_updates c))) MopacFlushNextCtr b"

definition is_critical :: "Config \<Rightarrow> MopacEntry \<Rightarrow> bool" where
  "is_critical c e \<longleftrightarrow> sctr e \<ge> to_u64 (mopac_queue_th c)"

definition MopacHandleCriticalRow :: "Config \<Rightarrow> BankState \<Rightarrow> BankState res" where
  "MopacHandleCriticalRow c b =
     (case find (is_critical c) (mopac_buf b) of
        None \<Rightarrow> Inr b
      | Some e \<Rightarrow>
          bind_res (MopacUpdatePRAC (entry_row e) (sctr e) b) (\<lambda>b.
          let b = b\<lparr>mopac_buf := erase_first (is_critical c) (mopac_buf b)\<rparr>;
              u = SafeDecrement (mopac_critical_rows b)
          in Inr b))"

text \<open>The scan removes the entries of the refreshed rows; for a critical one it also calls
  \<open>SafeDecrement\<close>, which changes nothing.\<close>

fun drop_refreshed_entries :: "Config \<Rightarrow> u64 \<Rightarrow> u64 \<Rightarrow> u64 \<Rightarrow> MopacEntry list \<Rightarrow> MopacEntry list" where
  "drop_refreshed_entries c lwr upp crit [] = []"
| "drop_refreshed_entries c lwr upp crit (e # es) =
     (if entry_row e \<ge> lwr \<and> entry_row e < upp then
        (let u = (if is_critical c e then SafeDecrement crit else ())
         in drop_refreshed_entries c lwr upp crit es)
      else e # drop_refreshed_entries c lwr upp crit es)"

definition MopacHandleRef :: "Config \<Rightarrow> BankState \<Rightarrow> BankState res" where
  "MopacHandleRef c b =
     (let lwr = ucast (ref_idx b) :: u64;
          upp = ucast (ref_idx b + word_of_int (rows_refreshed c)) :: u64;
          b = b\<lparr>mopac_buf := drop_refreshed_entries c lwr upp (mopac_critical_rows b) (mopac_buf b)\<rparr>
      in bind_res
           (if mopac_drain_countdown b = 0 then
              bind_res (iter_res (unat (to_u64 (mopac_ref_updates c))) MopacFlushNextCtr b) (\<lambda>b.
              Inr (b\<lparr>mopac_drain_countdown := to_u64 (mopac_drain_freq c)\<rparr>))
            else Inr b) (\<lambda>b.
         Inr (MoatCheckTrackedRowIsRefreshed c
                (b\<lparr>mopac_drain_countdown := mopac_drain_countdown b - 1\<rparr>))))"

definition MopacMitigate :: "Config \<Rightarrow> bank_ctx \<Rightarrow> bank_ctx res" where
  "MopacMitigate c = (\<lambda>(b, sh).
     if mopac_critical_rows b > 0 then
       bind_res (MopacHandleCriticalRow c b) (\<lambda>b. Inr (b, sh))
     else if size_u64 (mopac_buf b) \<ge> to_u64 (mopac_buf_size c) then
       bind_res (MopacFlushAllCtrs c b) (\<lambda>b. Inr (b, sh))
     else
       bind_res (if moat_row_valid b
                 then bind_res (prac_at b (moat_row b)) (\<lambda>p. Inr (ucast p \<ge> bs_moat_ath b))
                 else Inr False) (\<lambda>hot.
       if hot then MoatMitigate (b, sh)
       else bind_res (MopacFlushAllCtrs c b) (\<lambda>b. Inr (b, sh))))"

text \<open>A new entry holds the open row with a count of one; the initialiser in the source has one
  value too many for the two members.\<close>

definition MopacCtrUpdate :: "Config \<Rightarrow> bank_ctx \<Rightarrow> bank_ctx res" where
  "MopacCtrUpdate c = (\<lambda>(b, sh).
     let at = find_index (\<lambda>e. entry_row e = to_u64 (open_row b)) (mopac_buf b);
         (b, sh) =
           (if mopac_act_ctr b = mopac_mint_sel b then
              (case at of
                 None \<Rightarrow>
                   b\<lparr>mopac_buf := mopac_buf b @ [\<lparr>entry_row = to_u64 (open_row b), sctr = 1\<rparr>]\<rparr>
               | Some i \<Rightarrow>
                   (let e = mopac_buf b ! i;
                        e' = e\<lparr>sctr := sctr e + 1\<rparr>;
                        b' = b\<lparr>mopac_buf := (mopac_buf b)[i := e']\<rparr>
                    in if sctr e' = to_u64 (mopac_queue_th c)
                       then b'\<lparr>mopac_critical_rows := mopac_critical_rows b' + 1\<rparr> else b'),
               count_stat ''num_mopac_buf_ins'' sh)
            else (b, sh));
         b = b\<lparr>mopac_act_ctr := mopac_act_ctr b + 1\<rparr>
     in if mopac_act_ctr b = to_u64 (pac_prob c) then
          bind_res (rng_mod (pac_prob c) sh) (\<lambda>(sel, sh).
          Inr (b\<lparr>mopac_act_ctr := 0, mopac_mint_sel := sel\<rparr>, sh))
        else Inr (b, sh))"

text \<open>The number of extra activations is \<open>ceil(clk_on / tON) - 1\<close>, computed in \<open>double\<close>; the
  quotient of integers below \<open>2 ^ 53\<close> has the same ceiling as the exact one.\<close>

definition rowpress_acts :: "u64 \<Rightarrow> int \<Rightarrow> u64 res" where
  "rowpress_acts clk_on ton =
     bind_res (require DivisionByZero (ton \<noteq> 0)) (\<lambda>_.
     Inr (to_u64 (- ((- uint clk_on) div ton)) - 1))"

definition MopacHandleRowpress :: "Config \<Rightarrow> u64 \<Rightarrow> bank_ctx \<Rightarrow> bank_ctx res" where
  "MopacHandleRowpress c clk = (\<lambda>(b, sh).
     if find_index (\<lambda>e. entry_row e = to_u64 (open_row b)) (mopac_buf b) = None then Inr (b, sh)
     else
       bind_res (rowpress_acts (clk - row_open_clk b) (tON c)) (\<lambda>n_acts.
       let sh = sh\<lparr>simple_stats := AddValue ''row_open_time'' (u64_to_int n_acts) (simple_stats sh)\<rparr>
       in iter_res (unat n_acts) (MopacCtrUpdate c) (b, sh)))"

section \<open>Alerts\<close>

definition BankState_CheckAlert :: "Config \<Rightarrow> bank_ctx \<Rightarrow> (bool \<times> Shared) res" where
  "BankState_CheckAlert c = (\<lambda>(b, sh).
     if mopac_critical_rows b > 0 then Inr (True, count_stat ''num_mopac_alerts_qth'' sh)
     else if size_u64 (mopac_buf b) \<ge> to_u64 (mopac_buf_size c) then
       Inr (True, count_stat ''num_mopac_alerts_buf_full'' sh)
     else if moat_row_valid b then
       bind_res (prac_at b (moat_row b)) (\<lambda>p. Inr (ucast p \<ge> bs_moat_ath b, sh))
     else Inr (False, sh))"

section \<open>The state machine\<close>

definition get_geostat_bin :: "u16 \<Rightarrow> u32" where
  "get_geostat_bin v =
     (if v = 0 then 0 else if v = 1 then 1 else if v \<le> 2 then 2 else if v \<le> 4 then 3
      else if v \<le> 8 then 4 else if v \<le> 16 then 5 else if v \<le> 32 then 6 else if v \<le> 64 then 7
      else if v \<le> 128 then 8 else if v \<le> 256 then 9 else if v \<le> 512 then 10
      else if v \<le> 1024 then 11 else 12)"

abbreviation moat_tracked :: "Build \<Rightarrow> bool" where
  "moat_tracked bo \<equiv> USE_PRAC bo = PRAC_IMPL_MOAT \<or> USE_PRAC bo = PRAC_IMPL_PAC"

text \<open>\<open>PRECHARGE\<close> and its read and write forms close the row; the forms with a counter update
  first count the activation of the open row.\<close>

definition close_row :: "Build \<Rightarrow> Config \<Rightarrow> u64 \<Rightarrow> bank_ctx \<Rightarrow> bank_ctx res" where
  "close_row bo c clk = (\<lambda>(b, sh).
     let sh = sh\<lparr>pac_next_pre_cmd_is_valid := False\<rparr> in
     bind_res (if ROWPRESS bo \<and> USE_PRAC bo = PRAC_IMPL_MOPAC
               then MopacHandleRowpress c clk (b, sh) else Inr (b, sh)) (\<lambda>(b, sh).
     Inr (b\<lparr>bank_state := CLOSED, open_row := -1, row_hit_count := 0\<rparr>, sh)))"

definition count_open_row :: "Build \<Rightarrow> BankState \<Rightarrow> BankState res" where
  "count_open_row bo b =
     bind_res (vec_upd (prac b) (open_row b) (\<lambda>p. p + 1)) (\<lambda>p.
     let b = b\<lparr>prac := p\<rparr> in
     if moat_tracked bo then MoatUpdate b else Inr b)"

definition refresh_row :: "Config \<Rightarrow> int \<Rightarrow> bank_ctx \<Rightarrow> bank_ctx res" where
  "refresh_row c i = (\<lambda>(b, sh).
     bind_res (rem_word (ref_idx b + word_of_int i) (word_of_int (rows c))) (\<lambda>w.
     let idx = sint w in
     bind_res (vec_get (prac b) idx) (\<lambda>p.
     bind_res (IncrementVec ''prac_per_tREFI'' (sint (get_geostat_bin p)) (simple_stats sh)) (\<lambda>st.
     bind_res (vec_set (prac b) idx 0) (\<lambda>pr.
     Inr (b\<lparr>prac := pr\<rparr>, sh\<lparr>simple_stats := st\<rparr>))))))"

definition finish_refresh :: "Build \<Rightarrow> Config \<Rightarrow> bank_ctx \<Rightarrow> bank_ctx res" where
  "finish_refresh bo c = (\<lambda>(b, sh).
     bind_res (IncrementVec ''acts_per_tREFI'' (acts_counter b sdiv 10) (simple_stats sh)) (\<lambda>st.
     let sh = sh\<lparr>simple_stats := st\<rparr>;
         b = b\<lparr>raa_ctr := raa_ctr b - min (raa_ctr b) (ref_raa_decrement c), acts_counter := 0\<rparr>
     in bind_res (if moat_tracked bo then MoatHandleRef c (b, sh) else Inr (b, sh)) (\<lambda>(b, sh).
        bind_res (rem_word (ref_idx b + word_of_int (rows_refreshed c)) (word_of_int (rows c))) (\<lambda>ri.
        let b = b\<lparr>ref_idx := ri\<rparr>
        in Inr (if ri = 0 then b\<lparr>total_row_acts := []\<rparr> else b, sh)))))"

definition bank_refresh :: "Build \<Rightarrow> Config \<Rightarrow> bank_ctx \<Rightarrow> bank_ctx res" where
  "bank_refresh bo c = (\<lambda>(b, sh).
     bind_res (if USE_PRAC bo = PRAC_IMPL_MOPAC then MopacHandleRef c b else Inr b) (\<lambda>b.
     bind_res (fold_res (refresh_row c) [0..rows_refreshed c - 1] (b, sh))
       (finish_refresh bo c)))"

definition bank_rfm :: "Build \<Rightarrow> Config \<Rightarrow> bank_ctx \<Rightarrow> bank_ctx res" where
  "bank_rfm bo c = (\<lambda>(b, sh).
     let b = b\<lparr>raa_ctr := raa_ctr b - min (raa_ctr b) (rfm_raa_decrement c)\<rparr> in
     if USE_PRAC bo = PRAC_IMPL_MOPAC then MopacMitigate c (b, sh)
     else if moat_tracked bo then MoatMitigate (b, sh)
     else Inr (b, sh))"

text \<open>The counters of rows that reach 32, 64, 128, 200 and 256 activations.\<close>

definition count_hot_row :: "u64 \<Rightarrow> Shared \<Rightarrow> Shared" where
  "count_hot_row n sh =
     fold (\<lambda>(k, name) sh. if n = k then count_stat name sh else sh)
       [(32, ''rows_ge_32_acts''), (64, ''rows_ge_64_acts''), (128, ''rows_ge_128_acts''),
        (200, ''rows_ge_200_acts''), (256, ''rows_ge_256_acts'')] sh"

definition bank_activate :: "Build \<Rightarrow> Config \<Rightarrow> Command \<Rightarrow> u64 \<Rightarrow> bank_ctx \<Rightarrow> bank_ctx res" where
  "bank_activate bo c cmd clk = (\<lambda>(b, sh).
     let b = b\<lparr>bank_state := OPEN, open_row := Row cmd, row_open_clk := clk,
               acts_counter := acts_counter b + 1\<rparr>;
         sh = count_stat (acts_stat_name b) sh
     in bind_res (vec_upd (total_row_acts b) (open_row b) (\<lambda>n. n + 1)) (\<lambda>tra.
        bind_res (vec_get tra (open_row b)) (\<lambda>n.
        let b = b\<lparr>total_row_acts := tra, raa_ctr := raa_ctr b + 1\<rparr>;
            sh = count_hot_row n sh
        in if USE_PRAC bo = PRAC_IMPL_MOPAC then MopacCtrUpdate c (b, sh) else Inr (b, sh))))"

definition BankState_UpdateState ::
  "Build \<Rightarrow> Config \<Rightarrow> Command \<Rightarrow> u64 \<Rightarrow> bank_ctx \<Rightarrow> bank_ctx res" where
  "BankState_UpdateState bo c cmd clk = (\<lambda>(b, sh).
     let t = cmd_type cmd in
     case bank_state b of
       OPEN \<Rightarrow>
         (if t \<in> {READ, WRITE} then Inr (b\<lparr>row_hit_count := row_hit_count b + 1\<rparr>, sh)
          else if t \<in> {READ_PRECHARGE2, WRITE_PRECHARGE2, PRECHARGE2} then
            bind_res (count_open_row bo b) (\<lambda>b. close_row bo c clk (b, sh))
          else if t \<in> {READ_PRECHARGE, WRITE_PRECHARGE, PRECHARGE} then close_row bo c clk (b, sh)
          else Inl AbruptExit)
     | CLOSED \<Rightarrow>
         (if t \<in> {REFab, REFRESH_BANK, REFsb} then bank_refresh bo c (b, sh)
          else if t \<in> {RFMab, RFMsb} then bank_rfm bo c (b, sh)
          else if t = ACTIVATE then bank_activate bo c cmd clk (b, sh)
          else if t = SREF_ENTER then Inr (b\<lparr>bank_state := SREF\<rparr>, sh)
          else Inl AbruptExit)
     | SREF \<Rightarrow> (if t = SREF_EXIT then Inr (b\<lparr>bank_state := CLOSED\<rparr>, sh) else Inl AbruptExit)
     | PD \<Rightarrow> Inl AbruptExit
     | STATE_SIZE \<Rightarrow> Inl AbruptExit)"

end
