(* ===== verification/Bank_Correct.thy ===== *)
theory Bank_Correct
  imports Bank_State
begin

text \<open>
  Correctness of the bank: what the counter trackers leave alone, and the refinement of the row-buffer
  automaton.
\<close>

section \<open>What the trackers leave alone\<close>

text \<open>MOAT and MOPAC touch the row counters, the tracked row and their own buffers only.\<close>

definition same_core :: "BankState \<Rightarrow> BankState \<Rightarrow> bool" where
  "same_core b b' \<longleftrightarrow>
     bank_state b' = bank_state b \<and> cmd_timing b' = cmd_timing b \<and> open_row b' = open_row b \<and>
     row_open_clk b' = row_open_clk b \<and> row_hit_count b' = row_hit_count b \<and>
     raa_ctr b' = raa_ctr b \<and> acts_counter b' = acts_counter b \<and>
     total_row_acts b' = total_row_acts b \<and> length (prac b') = length (prac b) \<and>
     moat_eth b' = moat_eth b \<and> bs_moat_ath b' = bs_moat_ath b \<and> ref_idx b' = ref_idx b"

lemma same_core_refl [simp]: "same_core b b"
  by (simp add: same_core_def)

lemma same_core_trans: "same_core a b \<Longrightarrow> same_core b d \<Longrightarrow> same_core a d"
  by (simp add: same_core_def)

lemma same_core_tracker_updates [simp]:
  "same_core a (b\<lparr>moat_row_valid := v\<rparr>) = same_core a b"
  "same_core a (b\<lparr>moat_row := r\<rparr>) = same_core a b"
  "same_core a (b\<lparr>moat_trefi_cnt := n\<rparr>) = same_core a b"
  "same_core a (b\<lparr>mopac_buf := q\<rparr>) = same_core a b"
  "same_core a (b\<lparr>mopac_act_ctr := n\<rparr>) = same_core a b"
  "same_core a (b\<lparr>mopac_mint_sel := n\<rparr>) = same_core a b"
  "same_core a (b\<lparr>mopac_drain_countdown := n\<rparr>) = same_core a b"
  "same_core a (b\<lparr>mopac_critical_rows := n\<rparr>) = same_core a b"
  by (simp_all add: same_core_def)

lemma same_core_prac [simp]:
  "length p = length (prac b) \<Longrightarrow> same_core a (b\<lparr>prac := p\<rparr>) = same_core a b"
  "length p = length (prac b) \<Longrightarrow> same_core (b\<lparr>prac := p\<rparr>) a = same_core b a"
  by (simp_all add: same_core_def)

lemma MoatCheck_core [simp]: "same_core a (MoatCheckTrackedRowIsRefreshed c b) = same_core a b"
  by (simp add: MoatCheckTrackedRowIsRefreshed_def Let_def)

lemma MoatUpdate_core: "on_success (MoatUpdate b) (same_core b)"
  by (simp add: MoatUpdate_def wp Let_def)

lemma MoatMitigate_core: "on_success (MoatMitigate (b, sh)) (\<lambda>(b', _). same_core b b')"
  by (simp add: MoatMitigate_def wp)

lemma MoatHandleRef_core: "on_success (MoatHandleRef c (b, sh)) (\<lambda>(b', _). same_core b b')"
  by (simp add: MoatHandleRef_def MoatMitigate_def wp Let_def)

lemma MopacUpdatePRAC_core: "on_success (MopacUpdatePRAC r n b) (same_core b)"
  by (simp add: MopacUpdatePRAC_def wp Let_def)

lemma MopacFlushNextCtr_core: "on_success (MopacFlushNextCtr b) (same_core b)"
proof (cases "mopac_buf b")
  case Nil
  then show ?thesis by (simp add: MopacFlushNextCtr_def)
next
  case (Cons e es)
  have "on_success (MopacUpdatePRAC (entry_row e) (sctr e) (b\<lparr>mopac_buf := es\<rparr>)) (same_core b)"
    by (rule on_success_mono [OF MopacUpdatePRAC_core]) (simp add: same_core_def)
  then show ?thesis by (simp add: MopacFlushNextCtr_def Cons)
qed

lemma MopacFlush_iter_core: "on_success (iter_res n MopacFlushNextCtr b) (same_core b)"
proof (rule iter_res_on_success)
  fix s
  assume "same_core b s"
  then show "on_success (MopacFlushNextCtr s) (same_core b)"
    by (intro on_success_mono [OF MopacFlushNextCtr_core]) (rule same_core_trans)
qed simp

lemma MopacHandleCriticalRow_core: "on_success (MopacHandleCriticalRow c b) (same_core b)"
  by (auto simp: MopacHandleCriticalRow_def Let_def split: option.splits
      intro: on_success_mono [OF MopacUpdatePRAC_core])

lemma MopacHandleRef_core: "on_success (MopacHandleRef c b) (same_core b)"
proof -
  have "on_success (iter_res n MopacFlushNextCtr (b\<lparr>mopac_buf := q\<rparr>)) (same_core b)" for n q
    by (rule on_success_mono [OF MopacFlush_iter_core]) (simp add: same_core_def)
  then show ?thesis by (simp add: MopacHandleRef_def Let_def)
qed

lemma MopacMitigate_core: "on_success (MopacMitigate c (b, sh)) (\<lambda>(b', _). same_core b b')"
  using MopacHandleCriticalRow_core [of c b] MopacFlush_iter_core [of _ b]
    MoatMitigate_core [of b sh]
  by (simp add: MopacMitigate_def MopacFlushAllCtrs_def wp)

lemma MopacCtrUpdate_core: "on_success (MopacCtrUpdate c (b, sh)) (\<lambda>(b', _). same_core b b')"
  by (auto simp: MopacCtrUpdate_def rng_mod_def wp Let_def split: option.splits prod.splits)

lemma MopacHandleRowpress_core:
  "on_success (MopacHandleRowpress c clk (b, sh)) (\<lambda>(b', _). same_core b b')"
proof -
  have "on_success (iter_res n (MopacCtrUpdate c) (b, sh')) (\<lambda>(b', _). same_core b b')" for n sh'
  proof (rule iter_res_on_success)
    fix s :: bank_ctx
    assume s: "case s of (b', _) \<Rightarrow> same_core b b'"
    obtain b1 sh1 where [simp]: "s = (b1, sh1)" by (cases s)
    show "on_success (MopacCtrUpdate c s) (\<lambda>(b', _). same_core b b')"
      using s same_core_trans [of b b1] on_success_mono [OF MopacCtrUpdate_core [of c b1 sh1]]
      by (auto split: prod.splits)
  qed simp
  then show ?thesis
    by (simp add: MopacHandleRowpress_def rowpress_acts_def wp Let_def)
qed

lemmas tracker_core =
  MoatUpdate_core MoatMitigate_core MoatHandleRef_core MopacUpdatePRAC_core MopacFlush_iter_core
  MopacHandleCriticalRow_core MopacHandleRef_core MopacMitigate_core MopacCtrUpdate_core
  MopacHandleRowpress_core

section \<open>The row buffer as an automaton\<close>

datatype row_buffer = RB_Closed | RB_Open int | RB_SelfRefresh | RB_Unused

definition abs_bank :: "BankState \<Rightarrow> row_buffer" where
  "abs_bank b = (case bank_state b of
     OPEN \<Rightarrow> RB_Open (open_row b)
   | CLOSED \<Rightarrow> RB_Closed
   | SREF \<Rightarrow> RB_SelfRefresh
   | PD \<Rightarrow> RB_Unused
   | STATE_SIZE \<Rightarrow> RB_Unused)"

text \<open>The protocol of a DRAM bank: a row is opened by an activate, accessed while it is open and
  closed by a precharge; refreshes and self refresh need a closed bank.\<close>

fun rb_step :: "CommandType \<Rightarrow> int \<Rightarrow> row_buffer \<Rightarrow> row_buffer option" where
  "rb_step t r (RB_Open r') =
     (if t \<in> {READ, WRITE} then Some (RB_Open r')
      else if t \<in> {READ_PRECHARGE, WRITE_PRECHARGE, PRECHARGE, READ_PRECHARGE2, WRITE_PRECHARGE2,
                   PRECHARGE2} then Some RB_Closed
      else None)"
| "rb_step t r RB_Closed =
     (if t \<in> {REFab, REFRESH_BANK, REFsb, RFMab, RFMsb} then Some RB_Closed
      else if t = ACTIVATE then Some (RB_Open r)
      else if t = SREF_ENTER then Some RB_SelfRefresh
      else None)"
| "rb_step t r RB_SelfRefresh = (if t = SREF_EXIT then Some RB_Closed else None)"
| "rb_step t r RB_Unused = None"

text \<open>The parts of a state update that keep the bank's row-buffer state.\<close>

lemma count_open_row_core: "on_success (count_open_row bo b) (same_core b)"
  unfolding count_open_row_def
  by (auto simp: wp Let_def intro!: on_success_mono [OF MoatUpdate_core])

lemma refresh_row_core: "on_success (refresh_row c i (b, sh)) (\<lambda>(b', _). same_core b b')"
  by (auto simp: refresh_row_def wp Let_def intro!: on_success_always)

lemma refresh_rows_core:
  "on_success (fold_res (refresh_row c) is (b, sh)) (\<lambda>(b', _). same_core b b')"
proof (rule fold_res_on_success)
  fix i and s :: bank_ctx
  assume s: "case s of (b', _) \<Rightarrow> same_core b b'"
  obtain b1 sh1 where [simp]: "s = (b1, sh1)" by (cases s)
  show "on_success (refresh_row c i s) (\<lambda>(b', _). same_core b b')"
    using s same_core_trans [of b b1] on_success_mono [OF refresh_row_core [of c i b1 sh1]]
    by (auto split: prod.splits)
qed simp

lemma close_row_abs:
  "on_success (close_row bo c clk (b, sh)) (\<lambda>(b', _). abs_bank b' = RB_Closed)"
  by (auto simp: close_row_def Let_def abs_bank_def intro!: on_success_always split: prod.splits)

lemma finish_refresh_abs:
  assumes "bank_state b = CLOSED"
  shows "on_success (finish_refresh bo c (b, sh)) (\<lambda>(b', _). abs_bank b' = RB_Closed)"
proof -
  have moat: "on_success (if moat_tracked bo then MoatHandleRef c (b1, sh1) else Inr (b1, sh1))
      (\<lambda>(b2, _). bank_state b2 = CLOSED)"
    if "bank_state b1 = CLOSED" for b1 sh1
    using that by (auto intro!: on_success_mono [OF MoatHandleRef_core] simp: same_core_def)
  show ?thesis
    unfolding finish_refresh_def prod.case Let_def
    by (rule on_success_bindI [OF on_success_True], rule on_success_bindI [OF moat])
      (auto simp: assms abs_bank_def wp)
qed

lemma bank_refresh_abs:
  assumes "bank_state b = CLOSED"
  shows "on_success (bank_refresh bo c (b, sh)) (\<lambda>(b', _). abs_bank b' = RB_Closed)"
proof -
  have head: "on_success (if USE_PRAC bo = PRAC_IMPL_MOPAC then MopacHandleRef c b else Inr b)
      (\<lambda>b1. bank_state b1 = CLOSED)"
    using assms by (auto intro!: on_success_mono [OF MopacHandleRef_core] simp: same_core_def)
  have loop: "on_success (fold_res (refresh_row c) is (b1, sh)) (\<lambda>(b2, _). bank_state b2 = CLOSED)"
    if "bank_state b1 = CLOSED" for b1 "is"
    using that by (intro on_success_mono [OF refresh_rows_core]) (auto simp: same_core_def)
  show ?thesis
    unfolding bank_refresh_def prod.case
    by (rule on_success_bindI [OF head], rule on_success_bindI [OF loop])
      (auto intro: finish_refresh_abs)
qed

lemma bank_rfm_abs:
  assumes "bank_state b = CLOSED"
  shows "on_success (bank_rfm bo c (b, sh)) (\<lambda>(b', _). abs_bank b' = RB_Closed)"
proof -
  have "bank_state (b\<lparr>raa_ctr := n\<rparr>) = CLOSED" for n using assms by simp
  then show ?thesis
    by (auto simp: bank_rfm_def Let_def abs_bank_def same_core_def assms
        intro!: on_success_mono [OF MopacMitigate_core] on_success_mono [OF MoatMitigate_core])
qed

lemma bank_activate_abs:
  "on_success (bank_activate bo c cmd clk (b, sh)) (\<lambda>(b', _). abs_bank b' = RB_Open (Row cmd))"
  by (auto simp: bank_activate_def Let_def abs_bank_def same_core_def wp
      intro!: on_success_mono [OF MopacCtrUpdate_core])

text \<open>A successful state update is a step of the automaton; a command the automaton does not
  allow ends the simulation in \<open>AbruptExit\<close>.\<close>

lemma bank_step_refines:
  "on_success (BankState_UpdateState bo c cmd clk (b, sh))
     (\<lambda>(b', _). rb_step (cmd_type cmd) (Row cmd) (abs_bank b) = Some (abs_bank b'))"
proof (cases "bank_state b")
  case OPEN
  have "on_success (bind_res (count_open_row bo b) (\<lambda>b. close_row bo c clk (b, sh)))
      (\<lambda>(b', _). RB_Closed = abs_bank b')"
    by (auto intro!: on_success_always on_success_mono [OF close_row_abs])
  moreover have "on_success (close_row bo c clk (b, sh)) (\<lambda>(b', _). RB_Closed = abs_bank b')"
    by (auto intro!: on_success_mono [OF close_row_abs])
  ultimately show ?thesis
    using OPEN by (auto simp: BankState_UpdateState_def abs_bank_def Let_def)
next
  case CLOSED
  then show ?thesis
    by (auto simp: BankState_UpdateState_def Let_def abs_bank_def [of b]
        intro!: on_success_mono [OF bank_refresh_abs] on_success_mono [OF bank_rfm_abs]
          on_success_mono [OF bank_activate_abs])
      (simp add: abs_bank_def)
next
  case SREF
  then show ?thesis by (simp add: BankState_UpdateState_def abs_bank_def)
next
  case PD
  then show ?thesis by (simp add: BankState_UpdateState_def)
next
  case STATE_SIZE
  then show ?thesis by (simp add: BankState_UpdateState_def)
qed

lemma bank_illegal_aborts:
  "rb_step (cmd_type cmd) (Row cmd) (abs_bank b) = None \<Longrightarrow>
     BankState_UpdateState bo c cmd clk (b, sh) = Inl AbruptExit"
  by (cases "bank_state b")
    (auto simp: BankState_UpdateState_def abs_bank_def Let_def split: if_splits)

end
