(* ===== verification/Bank_Progress.thy ===== *)
theory Bank_Progress
  imports Bank_Correct
begin

text \<open>
  The well-formedness invariant of a bank, progress for every command the bank declares ready, and
  the properties of the activation counters and their trackers.
\<close>

section \<open>Well-formed banks and progress\<close>

definition cfg_wf :: "Config \<Rightarrow> bool" where
  "cfg_wf c \<longleftrightarrow> 0 < rows c \<and> rows c < 2 ^ 31 \<and> 0 < pac_prob c \<and> pac_prob c < 2 ^ 31 \<and>
     0 \<le> ref_raa_decrement c \<and> 0 \<le> rfm_raa_decrement c \<and> tON c \<noteq> 0"

text \<open>The trackers only name rows that exist.\<close>

definition tracker_wf :: "Config \<Rightarrow> BankState \<Rightarrow> bool" where
  "tracker_wf c b \<longleftrightarrow>
     int (length (prac b)) = rows c \<and> (moat_row_valid b \<longrightarrow> uint (moat_row b) < rows c) \<and>
     (\<forall>e \<in> set (mopac_buf b). uint (entry_row e) < rows c)"

lemma tracker_wf_updates [simp]:
  "tracker_wf c (b\<lparr>moat_trefi_cnt := n\<rparr>) = tracker_wf c b"
  "tracker_wf c (b\<lparr>mopac_act_ctr := n\<rparr>) = tracker_wf c b"
  "tracker_wf c (b\<lparr>mopac_mint_sel := n\<rparr>) = tracker_wf c b"
  "tracker_wf c (b\<lparr>mopac_drain_countdown := n\<rparr>) = tracker_wf c b"
  "tracker_wf c (b\<lparr>mopac_critical_rows := n\<rparr>) = tracker_wf c b"
  "tracker_wf c (b\<lparr>bank_state := s\<rparr>) = tracker_wf c b"
  "tracker_wf c (b\<lparr>open_row := i\<rparr>) = tracker_wf c b"
  "tracker_wf c (b\<lparr>row_open_clk := n\<rparr>) = tracker_wf c b"
  "tracker_wf c (b\<lparr>row_hit_count := i\<rparr>) = tracker_wf c b"
  "tracker_wf c (b\<lparr>raa_ctr := i\<rparr>) = tracker_wf c b"
  "tracker_wf c (b\<lparr>acts_counter := i\<rparr>) = tracker_wf c b"
  "tracker_wf c (b\<lparr>total_row_acts := v\<rparr>) = tracker_wf c b"
  "tracker_wf c (b\<lparr>ref_idx := u\<rparr>) = tracker_wf c b"
  "tracker_wf c (b\<lparr>cmd_timing := v\<rparr>) = tracker_wf c b"
  by (simp_all add: tracker_wf_def)

text \<open>Counting events in the statistics keeps the vectors, and the pending precharge choice.\<close>

definition same_shared :: "Shared \<Rightarrow> Shared \<Rightarrow> bool" where
  "same_shared sh sh' \<longleftrightarrow>
     (\<forall>nr. stats_wf nr (simple_stats sh') = stats_wf nr (simple_stats sh)) \<and>
     pac_next_pre_cmd_is_valid sh' = pac_next_pre_cmd_is_valid sh \<and>
     pac_next_pre_cmd sh' = pac_next_pre_cmd sh"

lemma same_shared_refl [simp]: "same_shared sh sh"
  by (simp add: same_shared_def)

lemma same_shared_trans: "same_shared a b \<Longrightarrow> same_shared b d \<Longrightarrow> same_shared a d"
  by (simp add: same_shared_def)

lemma same_shared_updates [simp]:
  "same_shared a (count_stat n sh) = same_shared a sh"
  "same_shared a (sh\<lparr>simple_stats := AddValue n v (simple_stats sh)\<rparr>) = same_shared a sh"
  "same_shared a (sh\<lparr>rng_pos := k\<rparr>) = same_shared a sh"
  by (simp_all add: same_shared_def)

definition bank_wf :: "Config \<Rightarrow> BankState \<Rightarrow> bool" where
  "bank_wf c b \<longleftrightarrow>
     tracker_wf c b \<and> length (cmd_timing b) = 16 \<and> bank_state b \<in> {OPEN, CLOSED, SREF} \<and>
     (bank_state b = OPEN \<longrightarrow> 0 \<le> open_row b \<and> open_row b < rows c) \<and>
     0 \<le> raa_ctr b \<and> 0 \<le> acts_counter b"

lemma to_u64_small: "0 \<le> i \<Longrightarrow> i < 2 ^ 31 \<Longrightarrow> uint (to_u64 i) = i"
  by (simp add: uint_word_of_int)

lemma to_u64_pos: "0 < i \<Longrightarrow> i < 2 ^ 31 \<Longrightarrow> to_u64 i \<noteq> 0"
  using to_u64_small [of i] by force

lemma to_u32_small: "0 \<le> i \<Longrightarrow> i < 2 ^ 31 \<Longrightarrow> uint (word_of_int i :: u32) = i"
  by (simp add: uint_word_of_int)

lemma to_u32_pos: "0 < i \<Longrightarrow> i < 2 ^ 31 \<Longrightarrow> (word_of_int i :: u32) \<noteq> 0"
  using to_u32_small [of i] by force

lemma rng_mod_succeeds [wp]:
  "succeeds (rng_mod n sh) P \<longleftrightarrow>
     to_u64 n \<noteq> 0 \<and> P (rng_seq sh (rng_pos sh) mod to_u64 n, sh\<lparr>rng_pos := Suc (rng_pos sh)\<rparr>)"
  by (simp add: rng_mod_def rng_def wp)

lemma MoatCheck_wf [simp]: "tracker_wf c b \<Longrightarrow> tracker_wf c (MoatCheckTrackedRowIsRefreshed c' b)"
  by (simp add: MoatCheckTrackedRowIsRefreshed_def tracker_wf_def Let_def)

lemma MoatUpdate_succeeds:
  assumes "cfg_wf c" and "tracker_wf c b" and "0 \<le> open_row b" and "open_row b < rows c"
  shows "succeeds (MoatUpdate b) (tracker_wf c)"
  using assms by (auto simp: MoatUpdate_def tracker_wf_def wp Let_def to_u64_small cfg_wf_def)

lemma MoatMitigate_succeeds:
  "tracker_wf c b \<Longrightarrow> succeeds (MoatMitigate (b, sh)) (\<lambda>(b', sh').
     tracker_wf c b' \<and> same_shared sh sh')"
  by (auto simp: MoatMitigate_def tracker_wf_def wp)

lemma MoatHandleRef_succeeds:
  assumes "tracker_wf c b"
  shows "succeeds (MoatHandleRef c (b, sh)) (\<lambda>(b', sh').
    tracker_wf c b' \<and> same_shared sh sh')"
proof -
  have wf: "tracker_wf c (b\<lparr>moat_trefi_cnt := n\<rparr>)" for n using assms by simp
  have "succeeds (MoatMitigate (b\<lparr>moat_trefi_cnt := 5\<rparr>, sh)) (\<lambda>(b', sh').
      tracker_wf c (MoatCheckTrackedRowIsRefreshed c (b'\<lparr>moat_trefi_cnt := 0\<rparr>)) \<and> same_shared sh sh')"
    by (rule succeeds_mono [OF MoatMitigate_succeeds [OF wf, of 5 sh]]) auto
  then show ?thesis
    using wf by (auto simp: MoatHandleRef_def Let_def case_prod_unfold)
qed

lemma MopacUpdatePRAC_succeeds:
  "tracker_wf c b \<Longrightarrow> uint r < rows c \<Longrightarrow>
     succeeds (MopacUpdatePRAC r n b) (\<lambda>b'. tracker_wf c b' \<and> mopac_buf b' = mopac_buf b)"
  by (auto simp: MopacUpdatePRAC_def tracker_wf_def wp Let_def)

lemma MopacFlushNextCtr_succeeds:
  assumes "tracker_wf c b"
  shows "succeeds (MopacFlushNextCtr b) (tracker_wf c)"
proof (cases "mopac_buf b")
  case Nil
  with assms show ?thesis by (simp add: MopacFlushNextCtr_def)
next
  case (Cons e es)
  have "tracker_wf c (b\<lparr>mopac_buf := es\<rparr>)" and "uint (entry_row e) < rows c"
    using assms Cons by (auto simp: tracker_wf_def)
  then have "succeeds (MopacUpdatePRAC (entry_row e) (sctr e) (b\<lparr>mopac_buf := es\<rparr>)) (tracker_wf c)"
    by (rule succeeds_mono [OF MopacUpdatePRAC_succeeds]) blast
  then show ?thesis by (simp add: MopacFlushNextCtr_def Cons)
qed

lemma MopacFlush_iter_succeeds:
  "tracker_wf c b \<Longrightarrow> succeeds (iter_res n MopacFlushNextCtr b) (tracker_wf c)"
  by (rule iter_res_succeeds) (auto intro: MopacFlushNextCtr_succeeds)

lemma MopacHandleCriticalRow_succeeds:
  assumes "tracker_wf c b"
  shows "succeeds (MopacHandleCriticalRow c b) (tracker_wf c)"
proof (cases "find (is_critical c) (mopac_buf b)")
  case None
  with assms show ?thesis by (simp add: MopacHandleCriticalRow_def)
next
  case (Some e)
  then have "e \<in> set (mopac_buf b)" by (auto simp: find_Some_iff)
  then have "uint (entry_row e) < rows c" using assms by (simp add: tracker_wf_def)
  from MopacUpdatePRAC_succeeds [OF assms this, of "sctr e"] show ?thesis
    using set_erase_first [of "is_critical c"]
    by (auto simp: MopacHandleCriticalRow_def Some Let_def tracker_wf_def elim!: succeeds_mono)
qed

lemma drop_refreshed_subset:
  "set (drop_refreshed_entries c l u k es) \<subseteq> set es"
  by (induction es) (auto simp: Let_def)

lemma MopacHandleRef_succeeds:
  assumes "tracker_wf c b"
  shows "succeeds (MopacHandleRef c b) (tracker_wf c)"
proof -
  let ?q = "drop_refreshed_entries c (ucast (ref_idx b)) (ucast (ref_idx b + word_of_int (rows_refreshed c)))
       (mopac_critical_rows b) (mopac_buf b)"
  have wf: "tracker_wf c (b\<lparr>mopac_buf := ?q\<rparr>)"
    using assms drop_refreshed_subset by (fastforce simp: tracker_wf_def)
  have "succeeds (iter_res n MopacFlushNextCtr (b\<lparr>mopac_buf := ?q\<rparr>))
      (\<lambda>b1. tracker_wf c (MoatCheckTrackedRowIsRefreshed c (b1\<lparr>mopac_drain_countdown := m\<rparr>)))" for n m
    by (rule succeeds_mono [OF MopacFlush_iter_succeeds [OF wf]]) simp
  then show ?thesis
    using wf by (simp add: MopacHandleRef_def Let_def)
qed

lemma MopacMitigate_succeeds:
  assumes "tracker_wf c b"
  shows "succeeds (MopacMitigate c (b, sh)) (\<lambda>(b', sh').
    tracker_wf c b' \<and> same_shared sh sh')"
proof -
  have hot: "moat_row_valid b \<Longrightarrow> 0 \<le> uint (moat_row b) \<and> uint (moat_row b) < int (length (prac b))"
    using assms by (simp add: tracker_wf_def)
  show ?thesis
    using MoatMitigate_succeeds [OF assms, of sh] MopacHandleCriticalRow_succeeds [OF assms]
      MopacFlush_iter_succeeds [OF assms] hot
    by (simp add: MopacMitigate_def MopacFlushAllCtrs_def wp)
qed

lemma MopacCtrUpdate_succeeds:
  assumes "cfg_wf c" and "tracker_wf c b" and "0 \<le> open_row b" and "open_row b < rows c"
  shows "succeeds (MopacCtrUpdate c (b, sh)) (\<lambda>(b', sh'). tracker_wf c b' \<and> same_shared sh sh')"
proof -
  have prob: "to_u64 (pac_prob c) \<noteq> 0" using assms(1) by (simp add: cfg_wf_def to_u64_pos)
  have new: "tracker_wf c (b\<lparr>mopac_buf := mopac_buf b @ [\<lparr>entry_row = to_u64 (open_row b), sctr = 1\<rparr>]\<rparr>)"
    using assms by (auto simp: tracker_wf_def cfg_wf_def to_u64_small)
  have bump: "tracker_wf c (b\<lparr>mopac_buf := (mopac_buf b)[i := (mopac_buf b ! i)\<lparr>sctr := n\<rparr>]\<rparr>)"
    if "i < length (mopac_buf b)" for i n
    using assms(2) that nth_mem [OF that]
    by (fastforce simp: tracker_wf_def dest!: set_update_subset_insert [THEN subsetD])
  show ?thesis
    using assms(2) prob new bump
    by (auto simp: MopacCtrUpdate_def Let_def wp dest!: find_index_Some split: option.splits)
qed

lemma MopacHandleRowpress_succeeds:
  assumes "cfg_wf c" and "tracker_wf c b" and "0 \<le> open_row b" and "open_row b < rows c"
  shows "succeeds (MopacHandleRowpress c clk (b, sh)) (\<lambda>(b', sh'). tracker_wf c b' \<and> same_shared sh sh')"
proof -
  let ?I = "\<lambda>(b', sh'). tracker_wf c b' \<and> same_shared sh sh' \<and> open_row b' = open_row b"
  have step: "succeeds (MopacCtrUpdate c s) ?I" if "?I s" for s
  proof -
    obtain b1 sh1 where s: "s = (b1, sh1)" by (cases s)
    have "succeeds (MopacCtrUpdate c (b1, sh1)) (\<lambda>(b', sh'). tracker_wf c b' \<and> same_shared sh1 sh')"
      by (rule MopacCtrUpdate_succeeds) (use assms that s in auto)
    from succeeds_conj [OF this MopacCtrUpdate_core] show ?thesis
      using that by (auto simp: s same_core_def elim!: succeeds_mono intro: same_shared_trans)
  qed
  have "succeeds (iter_res n (MopacCtrUpdate c) (b, sh'))
      (\<lambda>(b', sh'). tracker_wf c b' \<and> same_shared sh sh')" if "same_shared sh sh'" for n sh'
    by (rule succeeds_mono [OF iter_res_succeeds [of ?I]]) (use assms that step in auto)
  then show ?thesis
    using assms by (simp add: MopacHandleRowpress_def rowpress_acts_def wp Let_def cfg_wf_def)
qed

text \<open>The whole context of a bank: the bank, the statistics it counts in and the shared choice of the
  next precharge command.\<close>

definition shared_wf :: "int \<Rightarrow> Shared \<Rightarrow> bool" where
  "shared_wf nr sh \<longleftrightarrow> stats_wf nr (simple_stats sh) \<and>
     (pac_next_pre_cmd_is_valid sh \<longrightarrow> pac_next_pre_cmd sh \<in> {PRECHARGE, PRECHARGE2})"

lemma same_shared_wf: "same_shared sh sh' \<Longrightarrow> shared_wf nr sh \<Longrightarrow> shared_wf nr sh'"
  by (simp add: same_shared_def shared_wf_def)

lemma count_open_row_succeeds:
  assumes "cfg_wf c" and "bank_wf c b" and "bank_state b = OPEN"
  shows "succeeds (count_open_row bo b) (\<lambda>b'. bank_wf c b' \<and> bank_state b' = OPEN)"
proof -
  have "0 \<le> open_row b" "open_row b < rows c" "tracker_wf c b" using assms by (auto simp: bank_wf_def)
  then have "succeeds (count_open_row bo b) (tracker_wf c)"
    using assms(1) by (auto simp: count_open_row_def wp Let_def tracker_wf_def intro!: MoatUpdate_succeeds)
  from succeeds_conj [OF this count_open_row_core] show ?thesis
    using assms by (auto simp: same_core_def bank_wf_def elim!: succeeds_mono)
qed

lemma close_row_succeeds:
  assumes "cfg_wf c" and "bank_wf c b" and "bank_state b = OPEN" and "shared_wf nr sh"
  shows "succeeds (close_row bo c clk (b, sh)) (\<lambda>(b', sh'). bank_wf c b' \<and> shared_wf nr sh')"
proof -
  let ?sh = "sh\<lparr>pac_next_pre_cmd_is_valid := False\<rparr>"
  have row: "0 \<le> open_row b" "open_row b < rows c" "tracker_wf c b" using assms by (auto simp: bank_wf_def)
  have sh: "shared_wf nr ?sh" using assms(4) by (simp add: shared_wf_def)
  note press = succeeds_conj [OF MopacHandleRowpress_succeeds [OF assms(1) row(3) row(1,2)]
      MopacHandleRowpress_core [of c clk b], of ?sh]
  have "succeeds (if ROWPRESS bo \<and> USE_PRAC bo = PRAC_IMPL_MOPAC
      then MopacHandleRowpress c clk (b, ?sh) else Inr (b, ?sh))
      (\<lambda>(b', sh'). same_core b b' \<and> tracker_wf c b' \<and> shared_wf nr sh')"
    using row sh by (auto intro!: succeeds_mono [OF press] intro: same_shared_wf)
  then show ?thesis
    unfolding close_row_def prod.case Let_def
    by (rule succeeds_bindI) (use assms in \<open>auto simp: bank_wf_def same_core_def\<close>)
qed

lemma sint_mod_rows:
  assumes "0 < n" and "n < 2 ^ 31"
  shows "0 \<le> sint (w mod word_of_int n :: u32)" and "sint (w mod word_of_int n :: u32) < n"
proof -
  have "uint (w mod word_of_int n :: u32) = uint w mod n"
    using assms by (simp add: uint_mod to_u32_small)
  moreover have bound: "0 \<le> uint w mod n" "uint w mod n < n" using assms by simp_all
  moreover have "sint x = uint x" if "uint x < 2 ^ 31" for x :: u32
    using that order_trans [of "- (2 ^ 31)" 0 "uint x"]
    by (simp add: sint_uint signed_take_bit_int_eq_self)
  ultimately have "sint (w mod word_of_int n :: u32) = uint w mod n"
    using assms(2) by (metis order.strict_trans)
  with bound show "0 \<le> sint (w mod word_of_int n :: u32)" "sint (w mod word_of_int n :: u32) < n"
    by simp_all
qed

lemma get_geostat_bin_range: "0 \<le> sint (get_geostat_bin v)" "sint (get_geostat_bin v) < 13"
  by (simp_all add: get_geostat_bin_def)

lemma refresh_row_succeeds:
  assumes "cfg_wf c" and "tracker_wf c b" and "shared_wf nr sh"
  shows "succeeds (refresh_row c i (b, sh)) (\<lambda>(b', sh'). tracker_wf c b' \<and> shared_wf nr sh')"
proof -
  have n: "0 < rows c" "rows c < 2 ^ 31" using assms(1) by (auto simp: cfg_wf_def)
  have inc: "succeeds (IncrementVec ''prac_per_tREFI'' (sint (get_geostat_bin p)) (simple_stats sh))
      (stats_wf nr)" for p
    by (rule IncrementVec_stats_wf [where n = 13])
      (use assms(3) get_geostat_bin_range in \<open>auto simp: shared_wf_def stats_wf_def\<close>)
  show ?thesis
    using assms sint_mod_rows [OF n] to_u32_pos [OF n]
    by (auto simp: refresh_row_def wp Let_def tracker_wf_def shared_wf_def
        intro!: succeeds_mono [OF inc])
qed

lemma refresh_rows_succeeds:
  assumes "cfg_wf c" and "tracker_wf c b" and "shared_wf nr sh"
  shows "succeeds (fold_res (refresh_row c) is (b, sh)) (\<lambda>(b', sh'). tracker_wf c b' \<and> shared_wf nr sh')"
  by (rule fold_res_succeeds) (use assms in \<open>auto intro: refresh_row_succeeds\<close>)

text \<open>The histogram of activations per refresh interval has thirteen bins of ten.\<close>

lemma finish_refresh_succeeds:
  assumes "cfg_wf c" and "bank_wf c b" and "shared_wf nr sh"
    and "bank_state b = CLOSED" and "acts_counter b < 130"
  shows "succeeds (finish_refresh bo c (b, sh)) (\<lambda>(b', sh'). bank_wf c b' \<and> shared_wf nr sh')"
proof -
  have acts: "0 \<le> acts_counter b sdiv 10" "acts_counter b sdiv 10 < 13"
    using assms(2,5) by (auto simp: bank_wf_def sdiv_nonneg)
  have inc: "succeeds (IncrementVec ''acts_per_tREFI'' (acts_counter b sdiv 10) (simple_stats sh)) (stats_wf nr)"
    by (rule IncrementVec_stats_wf [where n = 13]) (use assms(3) acts in \<open>auto simp: shared_wf_def stats_wf_def\<close>)
  let ?P = "\<lambda>(b', sh'). bank_wf c b' \<and> bank_state b' = CLOSED \<and> shared_wf nr sh'"
  have ref: "succeeds (if moat_tracked bo then MoatHandleRef c (b1, sh1) else Inr (b1, sh1)) ?P"
    if "?P (b1, sh1)" for b1 sh1
    using that succeeds_conj [OF MoatHandleRef_succeeds MoatHandleRef_core, of c b1 sh1]
    by (auto simp: bank_wf_def same_core_def intro: same_shared_wf elim!: succeeds_mono)
  have ok: "?P (b\<lparr>raa_ctr := raa_ctr b - min (raa_ctr b) d, acts_counter := 0\<rparr>, sh\<lparr>simple_stats := st\<rparr>)"
    if "stats_wf nr st" for st d
    using assms that by (auto simp: bank_wf_def shared_wf_def)
  show ?thesis
    unfolding finish_refresh_def prod.case Let_def
    by (rule succeeds_bindI [OF inc], rule succeeds_bindI [OF ref [OF ok]], assumption)
      (use assms(1) to_u32_pos in \<open>auto simp: wp bank_wf_def cfg_wf_def\<close>)
qed

lemma bank_refresh_succeeds:
  assumes "cfg_wf c" and "bank_wf c b" and "shared_wf nr sh"
    and "bank_state b = CLOSED" and "acts_counter b < 130"
  shows "succeeds (bank_refresh bo c (b, sh)) (\<lambda>(b', sh'). bank_wf c b' \<and> shared_wf nr sh')"
proof -
  let ?P = "\<lambda>b'. bank_wf c b' \<and> bank_state b' = CLOSED \<and> acts_counter b' < 130"
  have head: "succeeds (if USE_PRAC bo = PRAC_IMPL_MOPAC then MopacHandleRef c b else Inr b) ?P"
    using assms succeeds_conj [OF MopacHandleRef_succeeds MopacHandleRef_core, of c b]
    by (auto simp: bank_wf_def same_core_def elim!: succeeds_mono)
  have loop: "succeeds (fold_res (refresh_row c) is (b1, sh)) (\<lambda>(b', sh'). ?P b' \<and> shared_wf nr sh')"
    if "?P b1" for b1 "is"
    using that assms(1,3) succeeds_conj [OF refresh_rows_succeeds refresh_rows_core, of c b1 nr sh "is"]
    by (auto simp: bank_wf_def same_core_def elim!: succeeds_mono)
  show ?thesis
    unfolding bank_refresh_def prod.case
    by (rule succeeds_bindI [OF head], rule succeeds_bindI [OF loop], assumption)
      (use assms(1) in \<open>auto intro: finish_refresh_succeeds\<close>)
qed

lemma bank_rfm_succeeds:
  assumes "bank_wf c b" and "shared_wf nr sh"
  shows "succeeds (bank_rfm bo c (b, sh)) (\<lambda>(b', sh'). bank_wf c b' \<and> shared_wf nr sh')"
proof -
  let ?b = "b\<lparr>raa_ctr := raa_ctr b - min (raa_ctr b) (rfm_raa_decrement c)\<rparr>"
  have wf: "bank_wf c ?b" "tracker_wf c ?b" using assms(1) by (auto simp: bank_wf_def)
  show ?thesis
    using wf assms(2)
      succeeds_conj [OF MopacMitigate_succeeds [OF wf(2)] MopacMitigate_core, of sh]
      succeeds_conj [OF MoatMitigate_succeeds [OF wf(2)] MoatMitigate_core, of sh]
    by (auto simp: bank_rfm_def Let_def bank_wf_def same_core_def elim!: succeeds_mono
        intro: same_shared_wf)
qed

lemma count_hot_row_shared [simp]: "same_shared a (count_hot_row n sh) = same_shared a sh"
  by (simp add: count_hot_row_def)

lemma bank_activate_succeeds:
  assumes "cfg_wf c" and "bank_wf c b" and "shared_wf nr sh"
    and "0 \<le> Row cmd" and "Row cmd < rows c" and "int (length (total_row_acts b)) = rows c"
  shows "succeeds (bank_activate bo c cmd clk (b, sh)) (\<lambda>(b', sh'). bank_wf c b' \<and> shared_wf nr sh')"
proof -
  let ?b = "\<lambda>tra. b\<lparr>bank_state := OPEN, open_row := Row cmd, row_open_clk := clk,
      acts_counter := acts_counter b + 1, total_row_acts := tra, raa_ctr := raa_ctr b + 1\<rparr>"
  have wf: "bank_wf c (?b tra)" "tracker_wf c (?b tra)" for tra
    using assms by (auto simp: bank_wf_def)
  have sh: "same_shared sh (count_hot_row n (count_stat nm sh))" for n nm by simp
  have upd: "succeeds (MopacCtrUpdate c (?b tra, sh1)) (\<lambda>(b', sh'). bank_wf c b' \<and> shared_wf nr sh')"
    if "same_shared sh sh1" for tra sh1
    by (rule succeeds_mono [OF succeeds_conj [OF MopacCtrUpdate_succeeds MopacCtrUpdate_core]])
      (use assms wf that in \<open>auto simp: bank_wf_def same_core_def intro: same_shared_wf same_shared_trans\<close>)
  show ?thesis
    using assms wf upd [OF sh] same_shared_wf [OF sh assms(3)]
    by (simp add: bank_activate_def Let_def wp)
qed

text \<open>A command the bank asks for is one the automaton allows.\<close>

lemma GetPrechargeCmd_type:
  assumes "shared_wf nr sh" and "GetPrechargeCmd bo n sh = Inr (t, sh')"
  shows "t \<in> {PRECHARGE, PRECHARGE2} \<and> shared_wf nr sh'"
  using assms
  by (auto simp: GetPrechargeCmd_def shared_wf_def rng_mod_def rng_def bind_res_eq_Inr Let_def
      split: if_splits)

lemma forced_closure_type_range:
  "forced_closure_type pre t \<in> {READ_PRECHARGE, WRITE_PRECHARGE, READ_PRECHARGE2, WRITE_PRECHARGE2}"
  by (simp add: forced_closure_type_def)

lemma required_type_legal:
  assumes sh: "shared_wf nr sh" and req: "required_type bo c b cmd clk sh = Inr (t, sh')"
  shows "rb_step t r (abs_bank b) \<noteq> None \<and> shared_wf nr sh'"
proof (cases "bank_state b")
  case OPEN
  have pre: "rb_step u r (RB_Open k) \<noteq> None \<and> shared_wf nr s"
    if "GetPrechargeCmd bo (pac_prob c) sh = Inr (u, s)" for u s k
    using GetPrechargeCmd_type [OF sh that] by auto
  have forced: "rb_step (forced_closure_type u v) r (RB_Open k) \<noteq> None" for u v k
    using forced_closure_type_range [of u v] by auto
  have rw: "rb_step u r (RB_Open k) \<noteq> None" if "is_rw_type u" for u k
    using that by (auto simp: is_rw_type_def)
  show ?thesis
    using req sh pre forced rw
    by (auto simp: required_type_def abs_bank_def OPEN bind_res_eq_Inr Let_def simp del: rb_step.simps
        split: if_splits)
next
  case CLOSED
  have "rb_step u r RB_Closed \<noteq> None" if "is_maintenance_type u" for u
    using that by (auto simp: is_maintenance_type_def)
  moreover have "rb_step ACTIVATE r RB_Closed \<noteq> None" "rb_step RFMsb r RB_Closed \<noteq> None"
    "rb_step RFMab r RB_Closed \<noteq> None" by simp_all
  ultimately show ?thesis
    using req sh
    by (auto simp: required_type_def abs_bank_def CLOSED Let_def simp del: rb_step.simps split: if_splits)
next
  case SREF
  then show ?thesis
    using req sh by (auto simp: required_type_def abs_bank_def Let_def split: if_splits)
qed (use req in \<open>simp_all add: required_type_def\<close>)

text \<open>What a command needs beyond the automaton: a row of the bank and its counter for an activate, and
  an activation count inside the histogram for a refresh.\<close>

definition command_fits :: "Config \<Rightarrow> BankState \<Rightarrow> Command \<Rightarrow> bool" where
  "command_fits c b cmd \<longleftrightarrow>
     (is_rw_type (cmd_type cmd) \<or> cmd_type cmd = ACTIVATE \<longrightarrow> 0 \<le> Row cmd \<and> Row cmd < rows c) \<and>
     int (length (total_row_acts b)) = rows c \<and> acts_counter b < 130"

lemma bank_update_succeeds:
  assumes "cfg_wf c" and "bank_wf c b" and "shared_wf nr sh" and "command_fits c b cmd"
    and "rb_step (cmd_type cmd) r (abs_bank b) \<noteq> None"
  shows "succeeds (BankState_UpdateState bo c cmd clk (b, sh)) (\<lambda>(b', sh'). bank_wf c b' \<and> shared_wf nr sh')"
proof (cases "bank_state b")
  case OPEN
  have close: "succeeds (close_row bo c clk (b1, sh)) (\<lambda>(b', sh'). bank_wf c b' \<and> shared_wf nr sh')"
    if "bank_wf c b1 \<and> bank_state b1 = OPEN" for b1
    using that assms by (auto intro: close_row_succeeds)
  have count: "succeeds (bind_res (count_open_row bo b) (\<lambda>b. close_row bo c clk (b, sh)))
      (\<lambda>(b', sh'). bank_wf c b' \<and> shared_wf nr sh')"
    by (rule succeeds_bindI [OF count_open_row_succeeds close]) (use assms OPEN in auto)
  have "bank_wf c (b\<lparr>row_hit_count := k\<rparr>)" for k using assms(2) by (simp add: bank_wf_def)
  then show ?thesis
    using assms(3,5) close [of b] count assms(2) OPEN
    by (auto simp: BankState_UpdateState_def abs_bank_def Let_def simp del: succeeds_bind split: if_splits)
next
  case CLOSED
  have "bank_wf c (b\<lparr>bank_state := SREF\<rparr>)" using assms(2) by (simp add: bank_wf_def)
  then show ?thesis
    using assms bank_refresh_succeeds [OF assms(1-3) CLOSED, of bo]
      bank_rfm_succeeds [OF assms(2,3), of bo] bank_activate_succeeds [OF assms(1-3), of cmd bo clk]
    by (auto simp: BankState_UpdateState_def abs_bank_def CLOSED command_fits_def Let_def split: if_splits)
next
  case SREF
  have "bank_wf c (b\<lparr>bank_state := CLOSED\<rparr>)" using assms(2) by (simp add: bank_wf_def)
  then show ?thesis
    using assms SREF by (auto simp: BankState_UpdateState_def abs_bank_def split: if_splits)
qed (use assms(2) in \<open>simp_all add: bank_wf_def\<close>)

text \<open>Only a read or write leads to a command that needs its row.\<close>

lemma required_type_needs_row:
  assumes "shared_wf nr sh" and "required_type bo c b cmd clk sh = Inr (t, sh')"
    and "is_rw_type t \<or> t = ACTIVATE"
  shows "is_rw_type (cmd_type cmd)"
proof (rule ccontr)
  assume "\<not> is_rw_type (cmd_type cmd)"
  then have "t \<in> {PRECHARGE, PRECHARGE2} \<or> is_maintenance_type t"
    using assms(2) GetPrechargeCmd_type [OF assms(1)]
    by (auto simp: required_type_def Let_def split: State.splits if_splits)
  with assms(3) show False by (auto simp: is_rw_type_def is_maintenance_type_def)
qed

text \<open>The requests a bank accepts in its present state.\<close>

definition accepts :: "BankState \<Rightarrow> CommandType \<Rightarrow> bool" where
  "accepts b t \<longleftrightarrow> is_rw_type t \<or> is_maintenance_type t \<and> bank_state b \<noteq> SREF"

lemma GetPrechargeCmd_succeeds:
  "0 < n \<Longrightarrow> n < 2 ^ 31 \<Longrightarrow> succeeds (GetPrechargeCmd bo n sh) (\<lambda>_. True)"
  by (simp add: GetPrechargeCmd_def wp Let_def to_u64_pos)

lemma required_type_succeeds:
  assumes "cfg_wf c" and "bank_wf c b" and "accepts b (cmd_type cmd)"
  shows "succeeds (required_type bo c b cmd clk sh) (\<lambda>_. True)"
proof -
  have "succeeds (GetPrechargeCmd bo (pac_prob c) sh) (\<lambda>_. True)"
    using assms(1) by (auto simp: cfg_wf_def intro: GetPrechargeCmd_succeeds)
  then show ?thesis
    using assms(2,3)
    by (auto simp: required_type_def accepts_def bank_wf_def Let_def case_prod_unfold)
qed

lemma GetReadyCommand_Inr:
  "BankState_GetReadyCommand bo c b cmd clk sh = Inr (cmd', sh') \<and> IsValid cmd' \<longleftrightarrow>
     (\<exists>t. required_type bo c b cmd clk sh = Inr (t, sh') \<and> t \<noteq> CMD_SIZE \<and>
        cmd_index t < int (length (cmd_timing b)) \<and> cmd_timing b ! nat (cmd_index t) \<le> clk \<and>
        cmd' = mk_Command t (addr cmd) (hex_addr cmd))"
  by (auto simp: BankState_GetReadyCommand_def bind_res_eq_Inr vec_get_Inr split: if_splits)

text \<open>For every request a well-formed bank accepts, the query for the next command returns. Either
  no command is ready yet, or the command returned is past its earliest issue time and its state
  update runs to the end without a fault and leaves a well-formed bank.\<close>

lemma ready_command_executes:
  assumes "cfg_wf c" and "bank_wf c b" and "shared_wf nr sh" and "command_fits c b cmd"
    and "accepts b (cmd_type cmd)"
  shows "succeeds (BankState_GetReadyCommand bo c b cmd clk sh) (\<lambda>(cmd', sh').
    IsValid cmd' \<longrightarrow>
      cmd_timing b ! nat (cmd_index (cmd_type cmd')) \<le> clk \<and>
      succeeds (BankState_UpdateState bo c cmd' clk (b, sh')) (\<lambda>(b', sh''). bank_wf c b' \<and> shared_wf nr sh''))"
proof -
  obtain t sh1 where req: "required_type bo c b cmd clk sh = Inr (t, sh1)"
    using required_type_succeeds [OF assms(1,2,5), of bo clk sh] by (auto elim!: succeedsE)
  have legal: "rb_step t 0 (abs_bank b) \<noteq> None" "shared_wf nr sh1"
    using required_type_legal [OF assms(3) req, of 0] by blast+
  have t: "t \<noteq> CMD_SIZE" using legal(1) by (cases "abs_bank b") auto
  have "length (cmd_timing b) = 16" using assms(2) by (simp add: bank_wf_def)
  moreover have "command_fits c b (mk_Command t (addr cmd) (hex_addr cmd))"
    using assms(4) required_type_needs_row [OF assms(3) req] by (auto simp: command_fits_def)
  then have "succeeds (BankState_UpdateState bo c (mk_Command t (addr cmd) (hex_addr cmd)) clk (b, sh1))
      (\<lambda>(b', sh'). bank_wf c b' \<and> shared_wf nr sh')"
    using legal by (intro bank_update_succeeds [OF assms(1,2) legal(2)]) simp_all
  ultimately show ?thesis
    using t by (simp add: BankState_GetReadyCommand_def req wp)
qed

text \<open>A bank of the sample configuration, as its constructor makes it, and its statistics.\<close>

definition sample_Build :: Build where
  "sample_Build = \<lparr>USE_PRAC = 2, ROWPRESS = True, WB_HAS_INF_CAPACITY = False\<rparr>"

definition sample_Shared :: Shared where
  "sample_Shared = \<lparr>rng_seq = (\<lambda>n. word_of_nat n), rng_pos = 0, pac_next_pre_cmd_is_valid = False,
     pac_next_pre_cmd = PRECHARGE, simple_stats = new_SimpleStats 2\<rparr>"

definition sample_bank :: BankState where
  "sample_bank = (case new_BankState sample_Config 0 0 0 0 sample_Shared of Inr (b, _) \<Rightarrow> b)"

definition sample_read :: "int \<Rightarrow> Command" where
  "sample_read r = mk_Command READ (mk_Address 0 0 0 0 r 1) 64"

lemma sample_bank_eq: "\<exists>sh. new_BankState sample_Config 0 0 0 0 sample_Shared = Inr (sample_bank, sh)"
  by (simp add: sample_bank_def new_BankState_def rng_mod_def rng_def rem_word_def sample_Config_sel
      Let_def)

lemma sample_bank_sel [simp]:
  "bank_state sample_bank = CLOSED" "cmd_timing sample_bank = replicate 16 0"
  "open_row sample_bank = -1" "raa_ctr sample_bank = 0" "acts_counter sample_bank = 0"
  "total_row_acts sample_bank = replicate 16 0" "prac sample_bank = replicate 16 0"
  "moat_row_valid sample_bank = False" "mopac_buf sample_bank = []" "ref_idx sample_bank = 0"
  "moat_eth sample_bank = 4" "bs_moat_ath sample_bank = 8" "mopac_critical_rows sample_bank = 0"
  by (simp_all add: sample_bank_def new_BankState_def rng_mod_def rng_def rem_word_def
      sample_Config_sel Let_def)

lemma sample_wf:
  "cfg_wf sample_Config" "bank_wf sample_Config sample_bank" "shared_wf 2 sample_Shared"
  by (simp_all add: cfg_wf_def bank_wf_def tracker_wf_def shared_wf_def sample_Shared_def
      new_SimpleStats_wf)
    (simp_all add: sample_Config_sel)

lemma sample_ready:
  "BankState_GetReadyCommand sample_Build sample_Config sample_bank (sample_read 5) 7 sample_Shared =
     Inr (mk_Command ACTIVATE (addr (sample_read 5)) (hex_addr (sample_read 5)), sample_Shared)"
  by (simp add: BankState_GetReadyCommand_def required_type_def is_rw_type_def sample_read_def
      sample_Config_sel vec_get_def)

section \<open>A request gets to its row\<close>

definition rfm_due :: "Config \<Rightarrow> BankState \<Rightarrow> bool" where
  "rfm_due c b \<longleftrightarrow> rfm_mode c \<in> {1, 2} \<and> raa_ctr b \<ge> raammt c"

text \<open>How many commands a bank still needs before the row is open: the refresh-management commands that
  are due and an activate, and one more to leave another row or self refresh.\<close>

definition service_distance :: "Config \<Rightarrow> BankState \<Rightarrow> int \<Rightarrow> nat" where
  "service_distance c b r =
     (let closed = 1 + (if rfm_due c b then nat (raa_ctr b - raammt c + 1) else 0)
      in if bank_state b = OPEN \<and> open_row b = r then 0
         else if bank_state b = CLOSED then closed else Suc closed)"

lemma close_row_effect:
  "on_success (close_row bo c clk (b, sh)) (\<lambda>(b', _). bank_state b' = CLOSED \<and> raa_ctr b' = raa_ctr b)"
proof -
  have "on_success (if ROWPRESS bo \<and> USE_PRAC bo = PRAC_IMPL_MOPAC
      then MopacHandleRowpress c clk (b, sh1) else Inr (b, sh1)) (\<lambda>(b', _). same_core b b')" for sh1
    using MopacHandleRowpress_core by simp
  then show ?thesis
    unfolding close_row_def prod.case Let_def
    by (rule on_success_bindI) (auto simp: same_core_def)
qed

lemma bank_precharge_effect:
  assumes "bank_state b = OPEN" and "rb_step (cmd_type cmd) r (abs_bank b) = Some RB_Closed"
  shows "on_success (BankState_UpdateState bo c cmd clk (b, sh))
    (\<lambda>(b', _). bank_state b' = CLOSED \<and> raa_ctr b' = raa_ctr b)"
proof -
  have "on_success (bind_res (count_open_row bo b) (\<lambda>b. close_row bo c clk (b, sh)))
      (\<lambda>(b', _). bank_state b' = CLOSED \<and> raa_ctr b' = raa_ctr b)"
    by (rule on_success_bindI [OF count_open_row_core])
      (rule on_success_mono [OF close_row_effect], auto simp: same_core_def)
  then show ?thesis
    using assms close_row_effect [of bo c clk b sh]
    by (auto simp: BankState_UpdateState_def abs_bank_def Let_def simp del: on_success_bind split: if_splits)
qed

lemma bank_rfm_effect:
  "on_success (bank_rfm bo c (b, sh)) (\<lambda>(b', _). bank_state b' = bank_state b \<and>
     raa_ctr b' = raa_ctr b - min (raa_ctr b) (rfm_raa_decrement c))"
  using MopacMitigate_core [of c "b\<lparr>raa_ctr := raa_ctr b - min (raa_ctr b) (rfm_raa_decrement c)\<rparr>" sh]
    MoatMitigate_core [of "b\<lparr>raa_ctr := raa_ctr b - min (raa_ctr b) (rfm_raa_decrement c)\<rparr>" sh]
  by (auto simp: bank_rfm_def Let_def same_core_def elim!: on_success_mono)

text \<open>The commands asked for on behalf of a read or write, state by state.\<close>

lemma required_type_rw:
  assumes "is_rw_type (cmd_type cmd)" and "shared_wf nr sh"
    and "required_type bo c b cmd clk sh = Inr (t, sh')"
  shows "bank_state b = OPEN \<Longrightarrow> is_rw_type t \<and> open_row b = Row cmd \<or>
           t \<in> {PRECHARGE, PRECHARGE2} \<and> open_row b \<noteq> Row cmd"
    and "bank_state b = CLOSED \<Longrightarrow> (if rfm_due c b then t \<in> {RFMsb, RFMab} else t = ACTIVATE)"
    and "bank_state b = SREF \<Longrightarrow> t = SREF_EXIT"
proof -
  assume "bank_state b = OPEN"
  moreover have "is_rw_type (forced_closure_type u v)" for u v
    using forced_closure_type_range [of u v] by (auto simp: is_rw_type_def)
  ultimately show "is_rw_type t \<and> open_row b = Row cmd \<or>
      t \<in> {PRECHARGE, PRECHARGE2} \<and> open_row b \<noteq> Row cmd"
    using assms GetPrechargeCmd_type [OF assms(2)]
    by (auto simp: required_type_def Let_def bind_res_eq_Inr split: if_splits)
qed (use assms in \<open>auto simp: required_type_def rfm_due_def Let_def split: if_splits\<close>)

text \<open>C15. Whenever the command a bank declares ready for a read or write is not the access itself, carrying
  it out brings the request strictly closer to its open row; an access is only ever issued to the row
  of the request. So a request waits for finitely many preparatory commands.\<close>

theorem ready_command_approaches:
  assumes "shared_wf nr sh" and "is_rw_type (cmd_type cmd)"
    and "BankState_GetReadyCommand bo c b cmd clk sh = Inr (cmd', sh')" and "IsValid cmd'"
    and "BankState_UpdateState bo c cmd' clk (b, sh') = Inr (b', sh'')"
    and "0 < rfm_raa_decrement c" and "0 < raammt c"
  shows "if is_rw_type (cmd_type cmd') then bank_state b = OPEN \<and> open_row b = Row cmd
         else service_distance c b' (Row cmd) < service_distance c b (Row cmd)"
proof -
  obtain t where req: "required_type bo c b cmd clk sh = Inr (t, sh')"
    and cmd': "cmd' = mk_Command t (addr cmd) (hex_addr cmd)"
    using assms(3,4) GetReadyCommand_Inr by blast
  note rw = required_type_rw [OF assms(2,1) req]
  show ?thesis
  proof (cases "bank_state b")
    case OPEN
    then consider "is_rw_type t" "open_row b = Row cmd"
      | "t \<in> {PRECHARGE, PRECHARGE2}" "open_row b \<noteq> Row cmd"
      using rw(1) by blast
    then show ?thesis
    proof cases
      case 2
      have "bank_state b' = CLOSED \<and> raa_ctr b' = raa_ctr b"
        using bank_precharge_effect [of b cmd' 0 bo c clk sh'] 2(1) OPEN assms(5)
        by (auto simp: cmd' abs_bank_def)
      with OPEN 2 show ?thesis by (auto simp: cmd' is_rw_type_def service_distance_def rfm_due_def)
    qed (simp add: OPEN cmd')
  next
    case CLOSED
    show ?thesis
    proof (cases "rfm_due c b")
      case True
      then have "t \<in> {RFMsb, RFMab}" using rw(2) CLOSED by simp
      moreover from this have "bank_rfm bo c (b, sh') = Inr (b', sh'')"
        using assms(5) CLOSED by (auto simp: cmd' BankState_UpdateState_def)
      then have "bank_state b' = CLOSED \<and> raa_ctr b' = raa_ctr b - min (raa_ctr b) (rfm_raa_decrement c)"
        using bank_rfm_effect [of bo c b sh'] CLOSED by simp
      ultimately show ?thesis
        using True CLOSED assms(6,7)
        by (auto simp: cmd' is_rw_type_def service_distance_def rfm_due_def)
    next
      case False
      then have t: "t = ACTIVATE" using rw(2) CLOSED by simp
      then have "bank_activate bo c cmd' clk (b, sh') = Inr (b', sh'')"
        using assms(5) CLOSED by (simp add: cmd' BankState_UpdateState_def)
      then have "abs_bank b' = RB_Open (Row cmd)"
        using bank_activate_abs [of bo c cmd' clk b sh'] by (simp add: cmd')
      then have "bank_state b' = OPEN" "open_row b' = Row cmd"
        by (auto simp: abs_bank_def split: State.splits)
      with t False CLOSED show ?thesis by (simp add: cmd' is_rw_type_def service_distance_def)
    qed
  next
    case SREF
    then show ?thesis
      using rw(3) assms(5)
      by (auto simp: cmd' BankState_UpdateState_def is_rw_type_def service_distance_def rfm_due_def)
  qed (use req in \<open>simp_all add: required_type_def\<close>)
qed

theorem ready_command_approaches_witness:
  "\<exists>b' sh''. BankState_UpdateState sample_Build sample_Config
       (mk_Command ACTIVATE (addr (sample_read 5)) (hex_addr (sample_read 5))) 7 (sample_bank, sample_Shared) = Inr (b', sh'') \<and>
     service_distance sample_Config b' 5 < service_distance sample_Config sample_bank 5"
proof -
  let ?act = "mk_Command ACTIVATE (addr (sample_read 5)) (hex_addr (sample_read 5))"
  have row [simp]: "row (addr (sample_read 5)) = 5" by (simp add: sample_read_def)
  obtain b' sh'' where upd:
    "BankState_UpdateState sample_Build sample_Config ?act 7 (sample_bank, sample_Shared) = Inr (b', sh'')"
    using bank_update_succeeds [OF sample_wf, of ?act 0 sample_Build 7]
    by (auto simp: command_fits_def abs_bank_def sample_Config_sel elim!: succeedsE)
  have "is_rw_type (cmd_type (sample_read 5))" "0 < rfm_raa_decrement sample_Config"
    "0 < raammt sample_Config" by (simp_all add: is_rw_type_def sample_read_def sample_Config_sel)
  from ready_command_approaches [OF sample_wf(3) this(1) sample_ready _ upd this(2,3)] upd
  show ?thesis by (auto simp: is_rw_type_def)
qed

end
