(* ===== verification/Bank_Counters.thy ===== *)
theory Bank_Counters
  imports Bank_Progress
begin

text \<open>
  The activation counters of a bank: the refresh-management counter stays at its threshold in every
  reachable state, a MOAT bank raises its alert as soon as a closed row reaches the threshold, and two
  flaws of the counters (the critical-row count of MOPAC never falls, and a full refresh sweep leaves
  the per-row totals without elements).
\<close>

section \<open>Reachable banks\<close>

text \<open>A bank is constructed, receives the timing updates of the channel and executes the commands it
  declared ready; the shared variables may change in any way in between, as other banks use them.\<close>

inductive bank_reachable :: "Build \<Rightarrow> Config \<Rightarrow> BankState \<Rightarrow> bool" for bo c where
  construct: "new_BankState c m r bg ba sh = Inr (b, sh') \<Longrightarrow> bank_reachable bo c b"
| timing: "bank_reachable bo c b \<Longrightarrow> BankState_UpdateTiming t time b = Inr b' \<Longrightarrow> bank_reachable bo c b'"
| execute: "bank_reachable bo c b \<Longrightarrow>
    BankState_GetReadyCommand bo c b cmd clk sh = Inr (cmd', sh1) \<Longrightarrow> IsValid cmd' \<Longrightarrow>
    BankState_UpdateState bo c cmd' clk (b, sh2) = Inr (b', sh3) \<Longrightarrow> bank_reachable bo c b'"

lemma finish_refresh_raa:
  "on_success (finish_refresh bo c (b, sh))
     (\<lambda>(b', _). raa_ctr b' = raa_ctr b - min (raa_ctr b) (ref_raa_decrement c))"
proof -
  have moat: "on_success (if moat_tracked bo then MoatHandleRef c (b1, sh1) else Inr (b1, sh1))
      (\<lambda>(b2, _). raa_ctr b2 = raa_ctr b1)" for b1 sh1
    by (auto intro!: on_success_mono [OF MoatHandleRef_core] simp: same_core_def)
  show ?thesis
    unfolding finish_refresh_def prod.case Let_def
    by (rule on_success_bindI [OF on_success_True], rule on_success_bindI [OF moat]) (auto simp: wp)
qed

text \<open>What the last phase of a refresh establishes from the core of the bank holds of the refresh.\<close>

lemma bank_refresh_on_success:
  assumes "\<And>b1 sh1. on_success (finish_refresh bo c (b1, sh1)) (\<lambda>(b', _). P b1 b')"
    and "\<And>b1 b'. same_core b b1 \<Longrightarrow> P b1 b' = P b b'"
  shows "on_success (bank_refresh bo c (b, sh)) (\<lambda>(b', _). P b b')"
proof -
  have head: "on_success (if USE_PRAC bo = PRAC_IMPL_MOPAC then MopacHandleRef c b else Inr b) (same_core b)"
    using MopacHandleRef_core by simp
  have loop: "on_success (fold_res (refresh_row c) is (b1, sh)) (\<lambda>(b2, _). same_core b b2)"
    if "same_core b b1" for b1 "is"
    using that same_core_trans [of b b1] by (intro on_success_mono [OF refresh_rows_core]) auto
  have fin: "on_success (finish_refresh bo c s) (\<lambda>(b', _). P b b')" if "case s of (b2, _) \<Rightarrow> same_core b b2" for s
  proof (cases s)
    case (Pair b2 sh2)
    have "on_success (finish_refresh bo c (b2, sh2)) (\<lambda>(b', _). P b2 b')" by (rule assms(1))
    then show ?thesis
      unfolding Pair by (rule on_success_mono) (use that assms(2) [of b2] Pair in auto)
  qed
  show ?thesis
    unfolding bank_refresh_def prod.case
    by (rule on_success_bindI [OF head], rule on_success_bindI [OF loop], assumption) (rule fin)
qed

lemma bank_refresh_raa:
  "on_success (bank_refresh bo c (b, sh))
     (\<lambda>(b', _). raa_ctr b' = raa_ctr b - min (raa_ctr b) (ref_raa_decrement c))"
  by (rule bank_refresh_on_success [OF finish_refresh_raa]) (simp add: same_core_def)

lemma bank_activate_raa:
  "on_success (bank_activate bo c cmd clk (b, sh)) (\<lambda>(b', _). raa_ctr b' = raa_ctr b + 1)"
  by (auto simp: bank_activate_def Let_def same_core_def wp
      intro!: on_success_mono [OF MopacCtrUpdate_core])

text \<open>Only an activate raises the counter, by one; refresh and refresh management lower it, not below
  zero.\<close>

definition raa_step_ok :: "CommandType \<Rightarrow> int \<Rightarrow> int \<Rightarrow> bool" where
  "raa_step_ok t a a' \<longleftrightarrow> (if t = ACTIVATE then a' = a + 1 else a' \<le> a \<and> (0 \<le> a \<longrightarrow> 0 \<le> a'))"

lemma bank_update_raa:
  assumes "0 \<le> raa_ctr b" and "0 \<le> ref_raa_decrement c" and "0 \<le> rfm_raa_decrement c"
  shows "on_success (BankState_UpdateState bo c cmd clk (b, sh))
    (\<lambda>(b', _). raa_step_ok (cmd_type cmd) (raa_ctr b) (raa_ctr b'))"
proof (cases "bank_state b")
  case OPEN
  show ?thesis
  proof (cases "rb_step (cmd_type cmd) 0 (abs_bank b) = Some RB_Closed")
    case True
    then show ?thesis
      by (auto intro!: on_success_mono [OF bank_precharge_effect [OF OPEN True]]
          simp: raa_step_ok_def abs_bank_def OPEN split: if_splits)
  next
    case False
    then show ?thesis
      using OPEN by (auto simp: BankState_UpdateState_def raa_step_ok_def abs_bank_def Let_def split: if_splits)
  qed
next
  case CLOSED
  have "on_success (bank_refresh bo c (b, sh)) (\<lambda>(b', _). raa_ctr b' \<le> raa_ctr b \<and> (0 \<le> raa_ctr b \<longrightarrow> 0 \<le> raa_ctr b'))"
    using assms by (auto intro!: on_success_mono [OF bank_refresh_raa])
  moreover have "on_success (bank_rfm bo c (b, sh)) (\<lambda>(b', _). raa_ctr b' \<le> raa_ctr b \<and> (0 \<le> raa_ctr b \<longrightarrow> 0 \<le> raa_ctr b'))"
    using assms by (auto intro!: on_success_mono [OF bank_rfm_effect])
  ultimately show ?thesis
    using CLOSED bank_activate_raa [of bo c cmd clk b sh]
    by (auto simp: BankState_UpdateState_def raa_step_ok_def Let_def)
next
  case SREF
  then show ?thesis by (auto simp: BankState_UpdateState_def raa_step_ok_def)
qed (simp_all add: BankState_UpdateState_def)

lemma ready_activate_below:
  assumes "required_type bo c b cmd clk sh = Inr (ACTIVATE, sh')" and "rfm_mode c \<in> {1, 2}"
  shows "raa_ctr b < raammt c \<or> bank_state b = OPEN"
  using assms by (auto simp: required_type_def Let_def is_maintenance_type_def split: State.splits if_splits)

text \<open>C16. In every reachable state of a bank with refresh management, the rolling activation counter
  lies between zero and the maximum the standard allows: the bank asks for an RFM command before it
  accepts one activation more.\<close>

theorem raa_counter_bounded:
  assumes "bank_reachable bo c b" and "rfm_mode c \<in> {1, 2}" and "0 \<le> raammt c"
    and "0 \<le> ref_raa_decrement c" and "0 \<le> rfm_raa_decrement c"
  shows "0 \<le> raa_ctr b \<and> raa_ctr b \<le> raammt c"
  using assms(1)
proof (induction rule: bank_reachable.induct)
  case (construct m r bg ba sh b sh')
  then show ?case
    using assms(3) by (auto simp: new_BankState_def bind_res_eq_Inr Let_def)
next
  case (timing b t time b')
  then show ?case by (auto simp: BankState_UpdateTiming_def bind_res_eq_Inr)
next
  case (execute b cmd clk sh cmd' sh1 sh2 b' sh3)
  obtain t where t: "required_type bo c b cmd clk sh = Inr (t, sh1)"
    and cmd': "cmd' = mk_Command t (addr cmd) (hex_addr cmd)"
    using execute.hyps(2,3) GetReadyCommand_Inr by blast
  have ok: "raa_step_ok t (raa_ctr b) (raa_ctr b')"
    using bank_update_raa [of b c bo cmd' clk sh2] execute assms(4,5) by (auto simp: cmd')
  show ?case
  proof (cases "t = ACTIVATE")
    case True
    then have "bank_state b \<noteq> OPEN"
      using execute.hyps(4) by (auto simp: cmd' BankState_UpdateState_def)
    then have "raa_ctr b < raammt c"
      using ready_activate_below t True assms(2) by blast
    then show ?thesis using ok True execute.IH by (simp add: raa_step_ok_def)
  next
    case False
    then show ?thesis using ok execute.IH by (auto simp: raa_step_ok_def)
  qed
qed

theorem raa_counter_bounded_witness:
  "bank_reachable sample_Build (sample_Config\<lparr>rfm_mode := 1\<rparr>) sample_bank \<and>
   raa_ctr sample_bank \<le> raammt (sample_Config\<lparr>rfm_mode := 1\<rparr>)"
proof -
  have "\<exists>sh. new_BankState (sample_Config\<lparr>rfm_mode := 1\<rparr>) 0 0 0 0 sample_Shared = Inr (sample_bank, sh)"
    using sample_bank_eq by (simp add: new_BankState_def)
  then have reach: "bank_reachable sample_Build (sample_Config\<lparr>rfm_mode := 1\<rparr>) sample_bank"
    by (auto intro: bank_reachable.construct)
  from raa_counter_bounded [OF this] reach show ?thesis by (simp add: sample_Config_sel)
qed

section \<open>The alert of a MOAT bank\<close>

lemma unat_to_u64_small: "0 \<le> i \<Longrightarrow> i < 2 ^ 31 \<Longrightarrow> unat (to_u64 i) = nat i"
  by (simp add: unat_eq_nat_uint to_u64_small del: nat_uint_eq)

lemma unat_less_length: "uint w < int n \<Longrightarrow> unat w < n"
  by (simp add: unat_eq_nat_uint nat_less_iff del: nat_uint_eq)

text \<open>After the update the tracked row is at least as hot as the open one, if that is worth tracking.\<close>

lemma MoatUpdate_tracks:
  assumes "MoatUpdate b = Inr b'" and "moat_eth b \<le> ucast (prac b ! nat (open_row b))"
    and "open_row b < rows c" and "rows c < 2 ^ 31"
  shows "moat_row_valid b' \<and> uint (moat_row b') < int (length (prac b')) \<and> prac b' = prac b \<and>
    (ucast (prac b ! nat (open_row b)) :: u64) \<le> ucast (prac b' ! nat (uint (moat_row b')))"
  using assms
  by (auto simp: MoatUpdate_def bind_res_eq_Inr vec_get_Inr Let_def to_u64_small unat_to_u64_small
      split: if_splits)

lemma close_row_moat:
  assumes "moat_tracked bo" and "close_row bo c clk (b, sh) = Inr (b', sh')"
  shows "b' = b\<lparr>bank_state := CLOSED, open_row := -1, row_hit_count := 0\<rparr>"
  using assms by (auto simp: close_row_def Let_def)

lemma CheckAlert_hot:
  assumes "moat_row_valid b" and "uint (moat_row b) < int (length (prac b))"
    and "bs_moat_ath b \<le> ucast (prac b ! nat (uint (moat_row b)))"
  shows "\<exists>sh'. BankState_CheckAlert c (b, sh) = Inr (True, sh')"
  using assms by (auto simp: BankState_CheckAlert_def vec_get_ok)

text \<open>C17. In a MOAT or PAC build, when a precharge that counts closes a row whose counter has reached the
  alert threshold, the bank reports an alert right after it: no row passes the threshold unnoticed.\<close>

theorem moat_alert_raised:
  assumes "moat_tracked bo" and "bank_wf c b" and "rows c < 2 ^ 31" and "bank_state b = OPEN"
    and "cmd_type cmd \<in> {READ_PRECHARGE2, WRITE_PRECHARGE2, PRECHARGE2}"
    and "BankState_UpdateState bo c cmd clk (b, sh) = Inr (b', sh')"
    and "moat_eth b \<le> bs_moat_ath b"
    and "bs_moat_ath b \<le> ucast (prac b ! nat (open_row b) + 1)"
  shows "\<exists>sh''. BankState_CheckAlert c (b', sh') = Inr (True, sh'')"
proof -
  have row: "0 \<le> open_row b" "open_row b < rows c" "int (length (prac b)) = rows c"
    using assms(2,4) by (auto simp: bank_wf_def tracker_wf_def)
  let ?b = "b\<lparr>prac := (prac b)[nat (open_row b) := prac b ! nat (open_row b) + 1]\<rparr>"
  obtain b1 where b1: "MoatUpdate ?b = Inr b1" and close: "close_row bo c clk (b1, sh) = Inr (b', sh')"
    using assms(1,4,5,6) row
    by (auto simp: BankState_UpdateState_def count_open_row_def bind_res_eq_Inr vec_upd_ok Let_def)
  have hot: "prac ?b ! nat (open_row ?b) = prac b ! nat (open_row b) + 1"
    using row by simp
  have tracked: "moat_row_valid b1" "uint (moat_row b1) < int (length (prac b1))"
    "(ucast (prac b ! nat (open_row b) + 1) :: u64) \<le> ucast (prac b1 ! nat (uint (moat_row b1)))"
    using MoatUpdate_tracks [OF b1, of c] order_trans [OF assms(7,8)] assms(3) row
    by (auto simp: hot)
  have "bs_moat_ath b1 = bs_moat_ath b"
    using MoatUpdate_core [of ?b] b1 by (simp add: same_core_def)
  then have "bs_moat_ath b' \<le> ucast (prac b' ! nat (uint (moat_row b')))"
    using close_row_moat [OF assms(1) close] tracked(3) assms(8) by simp
  then show ?thesis
    using close_row_moat [OF assms(1) close] tracked(1,2) by (intro CheckAlert_hot) simp_all
qed

definition sample_hot_bank :: BankState where
  "sample_hot_bank = sample_bank\<lparr>bank_state := OPEN, open_row := 3,
     prac := (replicate 16 0)[3 := 7], moat_row_valid := True, moat_row := 3\<rparr>"

lemma sample_hot_bank_wf: "bank_wf sample_Config sample_hot_bank"
  by (simp add: bank_wf_def tracker_wf_def sample_hot_bank_def sample_Config_sel)

theorem moat_alert_raised_witness:
  "\<exists>b' sh' sh''. BankState_UpdateState sample_Build sample_Config (mk_Command PRECHARGE2 default_Address 0) 9
       (sample_hot_bank, sample_Shared) = Inr (b', sh') \<and>
     BankState_CheckAlert sample_Config (b', sh') = Inr (True, sh'')"
proof -
  let ?pre = "mk_Command PRECHARGE2 default_Address 0"
  have open_bank: "bank_state sample_hot_bank = OPEN" "moat_eth sample_hot_bank \<le> bs_moat_ath sample_hot_bank"
    "bs_moat_ath sample_hot_bank \<le> ucast (prac sample_hot_bank ! nat (open_row sample_hot_bank) + 1)"
    by (simp_all add: sample_hot_bank_def)
  obtain b' sh' where upd: "BankState_UpdateState sample_Build sample_Config ?pre 9
      (sample_hot_bank, sample_Shared) = Inr (b', sh')"
    by (simp add: BankState_UpdateState_def count_open_row_def MoatUpdate_def close_row_def Let_def
        sample_hot_bank_def sample_Build_def vec_upd_ok vec_get_def)
  have "moat_tracked sample_Build" "rows sample_Config < 2 ^ 31"
    by (simp_all add: sample_Build_def sample_Config_sel)
  from moat_alert_raised [OF this(1) sample_hot_bank_wf this(2) open_bank(1) _ upd open_bank(2,3)] upd
  show ?thesis by auto
qed

text \<open>In a MOAT or PAC build whose MOPAC buffer is idle, the bank reports no alert after a
  refresh-management command: it has reset the counter of the tracked row and dropped the row.\<close>

lemma rfm_clears_alert:
  assumes "moat_tracked bo" and "mopac_critical_rows b = 0" and "bank_wf c b" and "bank_state b = CLOSED"
    and "size_u64 (mopac_buf b) < to_u64 (mopac_buf_size c)" and "cmd_type cmd \<in> {RFMab, RFMsb}"
  shows "succeeds (BankState_UpdateState bo c cmd clk (b, sh)) (\<lambda>(b', sh').
    BankState_CheckAlert c (b', sh') = Inr (False, sh') \<and>
    (moat_row_valid b \<longrightarrow> prac b' ! unat (moat_row b) = 0))"
proof -
  have "moat_row_valid b \<Longrightarrow> uint (moat_row b) < int (length (prac b))"
    using assms(3) by (simp add: bank_wf_def tracker_wf_def)
  then show ?thesis
    using assms(1,2,4-6) unat_less_length [of "moat_row b" "length (prac b)"]
    by (auto simp: BankState_UpdateState_def bank_rfm_def MoatMitigate_def BankState_CheckAlert_def wp
        Let_def)
qed

section \<open>Flaws of the counters\<close>

text \<open>\<open>SafeDecrement\<close> works on a copy, so nothing but the constructor lowers the count of critical
  rows.\<close>

definition same_critical :: "BankState \<Rightarrow> BankState \<Rightarrow> bool" where
  "same_critical b b' \<longleftrightarrow> mopac_critical_rows b' = mopac_critical_rows b"

lemma MopacUpdatePRAC_critical: "on_success (MopacUpdatePRAC r n b) (same_critical b)"
  by (simp add: MopacUpdatePRAC_def same_critical_def wp Let_def)

lemma MopacHandleCriticalRow_critical: "on_success (MopacHandleCriticalRow c b) (same_critical b)"
  by (auto simp: MopacHandleCriticalRow_def same_critical_def Let_def split: option.splits
      intro: on_success_mono [OF MopacUpdatePRAC_critical])

lemma MopacFlush_critical: "on_success (iter_res n MopacFlushNextCtr b) (same_critical b)"
proof (rule iter_res_on_success)
  fix b1 assume b1: "same_critical b b1"
  show "on_success (MopacFlushNextCtr b1) (same_critical b)"
  proof (cases "mopac_buf b1")
    case (Cons e es)
    then show ?thesis
      using MopacUpdatePRAC_critical [of "entry_row e" "sctr e" "b1\<lparr>mopac_buf := es\<rparr>"] b1
      by (auto simp: MopacFlushNextCtr_def same_critical_def elim!: on_success_mono)
  qed (use b1 in \<open>simp add: MopacFlushNextCtr_def\<close>)
qed (simp add: same_critical_def)

lemma MopacHandleRef_critical: "on_success (MopacHandleRef c b) (same_critical b)"
proof -
  have "on_success (iter_res n MopacFlushNextCtr (b\<lparr>mopac_buf := q\<rparr>))
      (\<lambda>b1. mopac_critical_rows b1 = mopac_critical_rows b)" for n q
    by (rule on_success_mono [OF MopacFlush_critical]) (simp add: same_critical_def)
  moreover have "mopac_critical_rows (MoatCheckTrackedRowIsRefreshed c b1) = mopac_critical_rows b1" for b1
    by (simp add: MoatCheckTrackedRowIsRefreshed_def Let_def)
  ultimately show ?thesis
    by (simp add: MopacHandleRef_def Let_def same_critical_def)
qed

lemma MopacMitigate_critical: "on_success (MopacMitigate c (b, sh)) (\<lambda>(b', _). same_critical b b')"
proof -
  have flush: "on_success (bind_res (MopacFlushAllCtrs c b) (\<lambda>b. Inr (b, sh))) (\<lambda>(b', _). same_critical b b')"
    unfolding MopacFlushAllCtrs_def by (rule on_success_bindI [OF MopacFlush_critical]) simp
  have crit: "on_success (bind_res (MopacHandleCriticalRow c b) (\<lambda>b. Inr (b, sh))) (\<lambda>(b', _). same_critical b b')"
    by (rule on_success_bindI [OF MopacHandleCriticalRow_critical]) simp
  have moat: "on_success (MoatMitigate (b, sh)) (\<lambda>(b', _). same_critical b b')"
    by (simp add: MoatMitigate_def same_critical_def wp)
  have hot: "on_success (bind_res r (\<lambda>hot. if hot then MoatMitigate (b, sh)
       else bind_res (MopacFlushAllCtrs c b) (\<lambda>b. Inr (b, sh)))) (\<lambda>(b', _). same_critical b b')" for r
    by (rule on_success_bindI [OF on_success_True]) (use moat flush in auto)
  show ?thesis unfolding MopacMitigate_def prod.case using crit flush hot by auto
qed

lemma refresh_rows_critical:
  "on_success (fold_res (refresh_row c) is (b, sh)) (\<lambda>(b', _). same_critical b b')"
  by (rule fold_res_on_success) (auto simp: refresh_row_def same_critical_def Let_def wp)

lemma bank_refresh_critical:
  assumes "USE_PRAC bo = PRAC_IMPL_MOPAC"
  shows "on_success (bank_refresh bo c (b, sh)) (\<lambda>(b', _). same_critical b b')"
proof -
  have fin: "on_success (finish_refresh bo c (b2, sh2)) (\<lambda>(b', _). same_critical b b')" if "same_critical b b2" for b2 sh2
    using that assms by (auto simp: finish_refresh_def Let_def same_critical_def wp)
  have rows: "on_success (fold_res (refresh_row c) is (b1, sh)) (\<lambda>(b', _). same_critical b b')" if "same_critical b b1" for b1 "is"
    using that by (auto intro!: on_success_mono [OF refresh_rows_critical] simp: same_critical_def)
  have "on_success (if USE_PRAC bo = PRAC_IMPL_MOPAC then MopacHandleRef c b else Inr b) (same_critical b)"
    using assms MopacHandleRef_critical by simp
  then show ?thesis
    unfolding bank_refresh_def prod.case
    by (rule on_success_bindI, intro on_success_bindI [OF rows]) (auto intro: fin)
qed

text \<open>One counter update raises the count by at most one.  The number of counter updates a command makes: one
  for an activation, and for the closure of a row, where long-open rows count, one for every further \<open>tON\<close>
  the row was open.\<close>

definition raised :: "nat \<Rightarrow> BankState \<Rightarrow> BankState \<Rightarrow> bool" where
  "raised n b b' \<longleftrightarrow> (\<exists>k \<le> n. mopac_critical_rows b' = mopac_critical_rows b + word_of_nat k)"

definition counter_updates :: "Build \<Rightarrow> Config \<Rightarrow> Command \<Rightarrow> u64 \<Rightarrow> BankState \<Rightarrow> nat" where
  "counter_updates bo c cmd clk b =
     (if cmd_type cmd = ACTIVATE then 1
      else if ROWPRESS bo \<and> bank_state b = OPEN \<and> \<not> cmd_type cmd \<in> {READ, WRITE} then
        (case rowpress_acts (clk - row_open_clk b) (tON c) of Inl _ \<Rightarrow> 0 | Inr n \<Rightarrow> unat n)
      else 0)"

lemma raised_same: "same_critical b b' \<Longrightarrow> raised n b b'"
  by (auto simp: same_critical_def raised_def intro: exI [of _ 0])

lemma raised_trans: "raised m a b \<Longrightarrow> raised n b d \<Longrightarrow> raised (m + n) a d"
proof (unfold raised_def, elim exE conjE)
  fix k l assume "k \<le> m" "l \<le> n" "mopac_critical_rows b = mopac_critical_rows a + word_of_nat k"
    "mopac_critical_rows d = mopac_critical_rows b + word_of_nat l"
  then show "\<exists>k \<le> m + n. mopac_critical_rows d = mopac_critical_rows a + word_of_nat k"
    by (intro exI [of _ "k + l"]) (simp add: add.assoc)
qed

lemma raised_eq: "raised n b1 b' \<Longrightarrow> mopac_critical_rows b1 = mopac_critical_rows b \<Longrightarrow> raised n b b'"
  by (simp add: raised_def)

lemma MopacCtrUpdate_critical: "on_success (MopacCtrUpdate c (b, sh)) (\<lambda>(b', _). raised 1 b b')"
proof -
  define r where "r = (if mopac_act_ctr b = mopac_mint_sel b then
      (case find_index (\<lambda>e. entry_row e = to_u64 (open_row b)) (mopac_buf b) of
         None \<Rightarrow> b\<lparr>mopac_buf := mopac_buf b @ [\<lparr>entry_row = to_u64 (open_row b), sctr = 1\<rparr>]\<rparr>
       | Some i \<Rightarrow>
           (let e = mopac_buf b ! i; e' = e\<lparr>sctr := sctr e + 1\<rparr>; b' = b\<lparr>mopac_buf := (mopac_buf b)[i := e']\<rparr>
            in if sctr e' = to_u64 (mopac_queue_th c)
               then b'\<lparr>mopac_critical_rows := mopac_critical_rows b' + 1\<rparr> else b'),
       count_stat ''num_mopac_buf_ins'' sh)
    else (b, sh))"
  have crit: "mopac_critical_rows (fst r) \<in> {mopac_critical_rows b, mopac_critical_rows b + 1}"
    by (auto simp: r_def Let_def split: option.splits)
  have up: "raised (Suc 0) b b'" if "mopac_critical_rows b' = mopac_critical_rows (fst r)" for b'
    using crit that by (auto simp: raised_def intro: exI [of _ 0] exI [of _ 1])
  show ?thesis
    unfolding MopacCtrUpdate_def prod.case Let_def [of "find_index _ _"] r_def [symmetric]
    by (cases r) (auto simp: Let_def up simp del: on_success_bind intro!: on_success_bindI [OF on_success_True])
qed

lemma MopacCtrUpdates_critical: "on_success (iter_res n (MopacCtrUpdate c) (b, sh)) (\<lambda>(b', _). raised n b b')"
proof (induction n arbitrary: b sh)
  case (Suc n)
  show ?case
    unfolding iter_res.simps
  proof (rule on_success_bindI [OF MopacCtrUpdate_critical], clarify)
    fix b1 sh1 assume "raised 1 b b1"
    then show "on_success (iter_res n (MopacCtrUpdate c) (b1, sh1)) (\<lambda>(b', _). raised (Suc n) b b')"
      using raised_trans [of 1 b b1 n] by (auto intro: on_success_mono [OF Suc.IH])
  qed
qed (simp add: raised_same same_critical_def)

lemma MopacHandleRowpress_critical:
  assumes "\<And>n. rowpress_acts (clk - row_open_clk b) (tON c) = Inr n \<Longrightarrow> unat n \<le> m"
  shows "on_success (MopacHandleRowpress c clk (b, sh)) (\<lambda>(b', _). raised m b b')"
proof -
  have mono: "raised m b b'" if "raised k b b'" "k \<le> m" for k b' using that by (auto simp: raised_def intro: order_trans)
  have "on_success (iter_res (unat n) (MopacCtrUpdate c) (b, sh1)) (\<lambda>(b', _). raised m b b')"
    if "rowpress_acts (clk - row_open_clk b) (tON c) = Inr n" for n sh1
    using mono assms [OF that] by (auto intro: on_success_mono [OF MopacCtrUpdates_critical])
  moreover have "raised m b b" by (simp add: raised_same same_critical_def)
  ultimately show ?thesis
    by (cases "rowpress_acts (clk - row_open_clk b) (tON c)") (auto simp: MopacHandleRowpress_def Let_def)
qed

lemma close_row_critical:
  fixes b b1 :: BankState
  assumes "cmd_type cmd \<notin> {ACTIVATE, READ, WRITE}" and "bank_state b = OPEN" and "row_open_clk b1 = row_open_clk b"
  shows "on_success (close_row bo c clk (b1, sh)) (\<lambda>(b', _). raised (counter_updates bo c cmd clk b) b1 b')"
proof -
  let ?n = "counter_updates bo c cmd clk b"
  have "on_success (if ROWPRESS bo \<and> USE_PRAC bo = PRAC_IMPL_MOPAC then MopacHandleRowpress c clk (b1, sh') else Inr (b1, sh'))
      (\<lambda>(b', _). raised ?n b1 b')" for sh'
    using MopacHandleRowpress_critical [of clk b1 c ?n sh'] assms
    by (auto simp: counter_updates_def raised_same same_critical_def)
  then show ?thesis
    unfolding close_row_def prod.case Let_def
    by (rule on_success_bindI) (auto simp: raised_def)
qed

lemma update_critical:
  assumes "USE_PRAC bo = PRAC_IMPL_MOPAC"
  shows "on_success (BankState_UpdateState bo c cmd clk (b, sh)) (\<lambda>(b', _). raised (counter_updates bo c cmd clk b) b b')"
proof -
  let ?n = "counter_updates bo c cmd clk b"
  have same: "raised ?n b b'" if "mopac_critical_rows b' = mopac_critical_rows b" for b'
    using that by (simp add: raised_same same_critical_def)
  show ?thesis
  proof (cases "bank_state b")
    case OPEN
    have "on_success (count_open_row bo b) (\<lambda>b1. mopac_critical_rows b1 = mopac_critical_rows b \<and> row_open_clk b1 = row_open_clk b)"
      using assms by (auto simp: count_open_row_def Let_def wp)
    then have "on_success (bind_res (count_open_row bo b) (\<lambda>b. close_row bo c clk (b, sh))) (\<lambda>(b', _). raised ?n b b')"
      if "cmd_type cmd \<notin> {ACTIVATE, READ, WRITE}"
    proof (rule on_success_bindI, elim conjE)
      fix b1 :: BankState assume b1: "mopac_critical_rows b1 = mopac_critical_rows b" "row_open_clk b1 = row_open_clk b"
      show "on_success (close_row bo c clk (b1, sh)) (\<lambda>(b', _). raised ?n b b')"
        by (rule on_success_mono [OF close_row_critical [OF that OPEN b1(2)]]) (use raised_eq b1(1) in auto)
    qed
    moreover have "on_success (close_row bo c clk (b, sh)) (\<lambda>(b', _). raised ?n b b')" if "cmd_type cmd \<notin> {ACTIVATE, READ, WRITE}"
      by (rule close_row_critical [OF that OPEN refl])
    ultimately show ?thesis using OPEN same by (auto simp: BankState_UpdateState_def Let_def)
  next
    case CLOSED
    have "on_success (bank_refresh bo c (b, sh)) (\<lambda>(b', _). raised ?n b b')"
      using bank_refresh_critical [OF assms] by (rule on_success_mono) (auto intro: raised_same)
    moreover have "on_success (bank_rfm bo c (b, sh)) (\<lambda>(b', _). raised ?n b b')"
      using assms MopacMitigate_critical [of c "b\<lparr>raa_ctr := raa_ctr b - min (raa_ctr b) (rfm_raa_decrement c)\<rparr>" sh]
      by (auto simp: bank_rfm_def Let_def same_critical_def elim!: on_success_mono intro: same)
    moreover have "on_success (bank_activate bo c cmd clk (b, sh)) (\<lambda>(b', _). raised ?n b b')" if "cmd_type cmd = ACTIVATE"
    proof -
      have n: "?n = 1" using that by (simp add: counter_updates_def)
      have "on_success (MopacCtrUpdate c (b1, sh1)) (\<lambda>(b', _). raised ?n b b')" if "mopac_critical_rows b1 = mopac_critical_rows b" for b1 sh1
        unfolding n using raised_eq [OF _ that] by (auto intro: on_success_mono [OF MopacCtrUpdate_critical])
      then show ?thesis using assms by (auto simp: bank_activate_def Let_def wp)
    qed
    ultimately show ?thesis using CLOSED same by (auto simp: BankState_UpdateState_def Let_def)
  qed (use same in \<open>auto simp: BankState_UpdateState_def Let_def\<close>)
qed

text \<open>What a bank lives through, with the number of counter updates: any commands it executes, and the updates
  of its issue times.\<close>

inductive bank_steps :: "Build \<Rightarrow> Config \<Rightarrow> BankState \<Rightarrow> nat \<Rightarrow> BankState \<Rightarrow> bool" for bo c b where
  start: "bank_steps bo c b 0 b"
| timing: "bank_steps bo c b n b1 \<Longrightarrow> BankState_UpdateTiming t time b1 = Inr b2 \<Longrightarrow> bank_steps bo c b n b2"
| execute: "bank_steps bo c b n b1 \<Longrightarrow> BankState_UpdateState bo c cmd clk (b1, sh) = Inr (b2, sh') \<Longrightarrow>
    bank_steps bo c b (n + counter_updates bo c cmd clk b1) b2"

lemma bank_steps_raised:
  assumes "bank_steps bo c b n b'" and "USE_PRAC bo = PRAC_IMPL_MOPAC"
  shows "raised n b b'"
  using assms(1)
proof induction
  case start
  show ?case by (simp add: raised_same same_critical_def)
next
  case (timing n b1 t time b2)
  then show ?case by (auto simp: BankState_UpdateTiming_def bind_res_eq_Inr raised_def)
next
  case (execute n b1 cmd clk sh b2 sh')
  then show ?case using update_critical [OF assms(2), of c cmd clk b1 sh] raised_trans [of n b b1] by simp
qed

lemma raised_ge:
  assumes "raised n b b'" and "unat (mopac_critical_rows b) + n < 2 ^ 64"
  shows "mopac_critical_rows b \<le> mopac_critical_rows b'"
proof -
  obtain k where k: "k \<le> n" "mopac_critical_rows b' = mopac_critical_rows b + word_of_nat k" using assms(1) by (auto simp: raised_def)
  have "k < 2 ^ 64" using k(1) assms(2) by simp
  then have "unat (word_of_nat k :: u64) = k" by (simp add: unsigned_of_nat take_bit_nat_eq_self)
  then have "unat (mopac_critical_rows b') = unat (mopac_critical_rows b) + k"
    using k assms(2) unat_add_lem [of "mopac_critical_rows b" "word_of_nat k"] by simp
  then show ?thesis by (simp add: word_le_nat_alt)
qed

text \<open>C30. In a MOPAC build, once a bank counts a critical row its alert never clears: whatever commands the bank
  executes from then on, activations, closures, refreshes and refresh management, the count of critical rows
  does not fall (as long as it stays clear of the end of its 64 bits), so the bank reports an alert; and
  refresh management of a well-formed bank, which succeeds and writes a critical counter back, leaves the count
  as it was.  The source means to decrement the count there and on a refresh.\<close>

theorem mopac_alert_persists:
  assumes "USE_PRAC bo = PRAC_IMPL_MOPAC" and "0 < mopac_critical_rows b" and "bank_steps bo c b n b'"
    and "unat (mopac_critical_rows b) + n < 2 ^ 64"
  shows "mopac_critical_rows b \<le> mopac_critical_rows b' \<and> (\<exists>sh'. BankState_CheckAlert c (b', sh) = Inr (True, sh')) \<and>
    (bank_wf c b' \<and> bank_state b' = CLOSED \<and> cmd_type rfm \<in> {RFMab, RFMsb} \<longrightarrow>
       succeeds (BankState_UpdateState bo c rfm clk (b', sh)) (\<lambda>(b'', _). mopac_critical_rows b'' = mopac_critical_rows b'))"
proof (intro conjI impI)
  show le: "mopac_critical_rows b \<le> mopac_critical_rows b'"
    by (rule raised_ge [OF bank_steps_raised [OF assms(3,1)] assms(4)])
  then have pos: "0 < mopac_critical_rows b'" using assms(2) by (rule order.strict_trans2 [rotated])
  then show "\<exists>sh'. BankState_CheckAlert c (b', sh) = Inr (True, sh')" by (simp add: BankState_CheckAlert_def)
  assume r: "bank_wf c b' \<and> bank_state b' = CLOSED \<and> cmd_type rfm \<in> {RFMab, RFMsb}"
  let ?b = "b'\<lparr>raa_ctr := raa_ctr b' - min (raa_ctr b') (rfm_raa_decrement c)\<rparr>"
  have "tracker_wf c ?b" using r by (simp add: bank_wf_def)
  from succeeds_conj [OF MopacHandleCriticalRow_succeeds [OF this] MopacHandleCriticalRow_critical]
  have "succeeds (MopacHandleCriticalRow c ?b) (\<lambda>b''. mopac_critical_rows b'' = mopac_critical_rows b')"
    by (rule succeeds_mono) (simp add: same_critical_def)
  then show "succeeds (BankState_UpdateState bo c rfm clk (b', sh)) (\<lambda>(b'', _). mopac_critical_rows b'' = mopac_critical_rows b')"
    using assms(1) pos r
    by (auto simp: BankState_UpdateState_def bank_rfm_def MopacMitigate_def Let_def elim!: succeeds_mono)
qed

text \<open>A bank with one critical row: refresh management drops the row from the buffer, and the alert stays.\<close>

definition sample_mopac_bank :: BankState where
  "sample_mopac_bank =
     sample_bank\<lparr>mopac_buf := [\<lparr>entry_row = 3, sctr = 4\<rparr>], mopac_critical_rows := 1\<rparr>"

abbreviation mopac_Build :: Build where
  "mopac_Build \<equiv> sample_Build\<lparr>USE_PRAC := 4\<rparr>"

lemma sample_mopac_rfm:
  obtains b sh where "BankState_UpdateState mopac_Build sample_Config (mk_Command RFMab default_Address 0) 9 (sample_mopac_bank, sample_Shared) = Inr (b, sh)"
    and "mopac_buf b = []"
  using that by (auto simp: BankState_UpdateState_def bank_rfm_def MopacMitigate_def MopacHandleCriticalRow_def MopacUpdatePRAC_def
        sample_mopac_bank_def is_critical_def sample_Config_sel vec_upd_def vec_get_def vec_set_def Let_def)

theorem mopac_alert_persists_witness:
  "\<exists>b n. bank_steps mopac_Build sample_Config sample_mopac_bank n b \<and> mopac_buf b = [] \<and>
     (\<exists>sh. BankState_CheckAlert sample_Config (b, sample_Shared) = Inr (True, sh))"
proof -
  obtain b sh where b: "BankState_UpdateState mopac_Build sample_Config (mk_Command RFMab default_Address 0) 9 (sample_mopac_bank, sample_Shared) = Inr (b, sh)"
    and buf: "mopac_buf b = []" by (rule sample_mopac_rfm)
  have "counter_updates mopac_Build sample_Config (mk_Command RFMab default_Address 0) 9 sample_mopac_bank = 0"
    by (simp add: counter_updates_def sample_mopac_bank_def)
  then have steps: "bank_steps mopac_Build sample_Config sample_mopac_bank 0 b"
    using bank_steps.execute [OF bank_steps.start b] by simp
  moreover have "0 < mopac_critical_rows sample_mopac_bank" "unat (mopac_critical_rows sample_mopac_bank) + 0 < 2 ^ 64"
    by (simp_all add: sample_mopac_bank_def)
  ultimately show ?thesis using mopac_alert_persists [of mopac_Build sample_mopac_bank sample_Config 0 b] buf by auto
qed

lemma finish_refresh_sweep:
  "on_success (finish_refresh bo c (b, sh)) (\<lambda>(b', _).
     ref_idx b' = (ref_idx b + word_of_int (rows_refreshed c)) mod word_of_int (rows c) \<and>
     (ref_idx b' = 0 \<longrightarrow> total_row_acts b' = []))"
proof -
  have moat: "on_success (if moat_tracked bo then MoatHandleRef c (b1, sh1) else Inr (b1, sh1))
      (\<lambda>(b2, _). ref_idx b2 = ref_idx b1)" for b1 sh1
    by (auto intro!: on_success_mono [OF MoatHandleRef_core] simp: same_core_def)
  show ?thesis
    unfolding finish_refresh_def prod.case Let_def
    by (rule on_success_bindI [OF on_success_True], rule on_success_bindI [OF moat]) (auto simp: wp)
qed

lemma bank_refresh_sweep:
  "on_success (bank_refresh bo c (b, sh)) (\<lambda>(b', _).
     ref_idx b' = (ref_idx b + word_of_int (rows_refreshed c)) mod word_of_int (rows c) \<and>
     (ref_idx b' = 0 \<longrightarrow> total_row_acts b' = []))"
  by (rule bank_refresh_on_success [OF finish_refresh_sweep]) (simp add: same_core_def)

text \<open>C31. When a refresh takes the refresh pointer of a bank back to row zero, the per-row activation totals
  are cleared to an empty vector, and the next activate of any row indexes outside it. The source means
  to set the totals to zero.\<close>

theorem activate_after_sweep_faults:
  assumes "bank_state b = CLOSED" and "cmd_type cmd \<in> {REFab, REFRESH_BANK, REFsb}"
    and "BankState_UpdateState bo c cmd clk (b, sh) = Inr (b', sh')" and "ref_idx b' = 0"
    and "cmd_type act = ACTIVATE"
  shows "BankState_UpdateState bo c act clk' (b', sh'') = Inl OutOfBounds"
proof -
  have "bank_refresh bo c (b, sh) = Inr (b', sh')"
    using assms(1-3) by (auto simp: BankState_UpdateState_def)
  then have "total_row_acts b' = []"
    using bank_refresh_sweep [of bo c b sh] assms(4) by simp
  moreover have "rb_step (cmd_type cmd) (Row cmd) (abs_bank b) = Some (abs_bank b')"
    using bank_step_refines [of bo c cmd clk b sh] assms(3) by simp
  then have "abs_bank b' = RB_Closed" using assms(1,2) by (auto simp: abs_bank_def [of b])
  then have "bank_state b' = CLOSED" by (simp add: abs_bank_def split: State.splits)
  ultimately show ?thesis
    using assms(5)
    by (auto simp: BankState_UpdateState_def bank_activate_def vec_upd_def vec_get_def Let_def)
qed

theorem activate_after_sweep_faults_witness:
  "\<exists>b' sh'. BankState_UpdateState sample_Build sample_Config (mk_Command REFab default_Address 0) 9
       (sample_bank\<lparr>ref_idx := 14\<rparr>, sample_Shared) = Inr (b', sh') \<and>
     BankState_UpdateState sample_Build sample_Config (mk_Command ACTIVATE default_Address 0) 99 (b', sh') =
       Inl OutOfBounds"
proof -
  let ?b = "sample_bank\<lparr>ref_idx := 14\<rparr>" and ?ref = "mk_Command REFab default_Address 0"
  have "bank_wf sample_Config ?b" using sample_wf(2) by (simp add: bank_wf_def)
  then have "succeeds (bank_refresh sample_Build sample_Config (?b, sample_Shared)) (\<lambda>_. True)"
    by (intro succeeds_mono [OF bank_refresh_succeeds [OF sample_wf(1) _ sample_wf(3)]]) simp_all
  then obtain b' sh' where upd:
    "BankState_UpdateState sample_Build sample_Config ?ref 9 (?b, sample_Shared) = Inr (b', sh')"
    by (auto simp: BankState_UpdateState_def elim!: succeedsE)
  have "ref_idx b' = 0"
    using bank_refresh_sweep [of sample_Build sample_Config ?b sample_Shared] upd
    by (simp add: BankState_UpdateState_def sample_Config_sel)
  from activate_after_sweep_faults [OF _ _ upd this, of "mk_Command ACTIVATE default_Address 0"] upd
  show ?thesis by auto
qed

end
