(* ===== verification/Channel_State.thy ===== *)
theory Channel_State
  imports Bank_State
begin

text \<open>
  The state of one channel (\<open>DRAMsim3/src/channel_state.h\<close> and \<open>channel_state.cc\<close>): the banks
  of every rank, the queues of pending refresh and refresh-management commands, the activation
  windows and the alert.  The member \<open>simple_stats_\<close> (a reference) and the static variables of
  \<open>bankstate.cc\<close> are the field \<open>shared\<close>.  \<open>GetReadyCommand\<close> is declared \<open>const\<close> but casts the
  qualifier away to queue refresh-management commands, so the model returns the changed state.
  \<open>PrintDeadlock\<close> only prints.
\<close>

section \<open>State\<close>

record ChannelState =
  rank_idle_cycles :: "int list"
  rank_is_sref :: "bool list"
  bank_states :: "BankState list list list"
  refresh_q :: "Command list"
  rfm_q :: "Command list"
  four_aw :: "u64 list list"
  thirty_two_aw :: "u64 list list"
  alert_n :: bool
  last_alert_clk :: u64
  num_acts_abo :: int
  shared :: Shared

text \<open>Access to \<open>bank_states_[i][j][k]\<close>, and its replacement.\<close>

definition get_bank :: "ChannelState \<Rightarrow> int \<Rightarrow> int \<Rightarrow> int \<Rightarrow> BankState res" where
  "get_bank ch i j k =
     bind_res (vec_get (bank_states ch) i) (\<lambda>r. bind_res (vec_get r j) (\<lambda>g. vec_get g k))"

definition set_bank :: "int \<Rightarrow> int \<Rightarrow> int \<Rightarrow> BankState \<Rightarrow> ChannelState \<Rightarrow> ChannelState res" where
  "set_bank i j k b ch =
     bind_res (vec_get (bank_states ch) i) (\<lambda>r.
     bind_res (vec_get r j) (\<lambda>g.
     bind_res (vec_set g k b) (\<lambda>g.
     bind_res (vec_set r j g) (\<lambda>r.
     bind_res (vec_set (bank_states ch) i r) (\<lambda>bs.
     Inr (ch\<lparr>bank_states := bs\<rparr>))))))"

text \<open>The order in which the loops visit the banks of a rank, of a bank set and of the channel.\<close>

definition rank_coords :: "Config \<Rightarrow> int \<Rightarrow> (int \<times> int \<times> int) list" where
  "rank_coords c i = [(i, j, k). j \<leftarrow> [0..bankgroups c - 1], k \<leftarrow> [0..banks_per_group c - 1]]"

definition bankset_coords :: "Config \<Rightarrow> int \<Rightarrow> int \<Rightarrow> (int \<times> int \<times> int) list" where
  "bankset_coords c i k = [(i, j, k). j \<leftarrow> [0..bankgroups c - 1]]"

definition channel_coords :: "Config \<Rightarrow> (int \<times> int \<times> int) list" where
  "channel_coords c = concat (map (rank_coords c) [0..ranks c - 1])"

text \<open>The constructor; the tracked row of a bank has no initialiser, so its value is a parameter.\<close>

definition new_bank_row ::
  "Config \<Rightarrow> u64 \<Rightarrow> int \<Rightarrow> int \<Rightarrow> Shared \<Rightarrow> (BankState list \<times> Shared) res" where
  "new_bank_row c m i j sh =
     fold_res (\<lambda>k (bs, sh).
       bind_res (new_BankState c m i j k sh) (\<lambda>(b, sh). Inr (bs @ [b], sh)))
       [0..banks_per_group c - 1] ([], sh)"

definition new_rank_states ::
  "Config \<Rightarrow> u64 \<Rightarrow> int \<Rightarrow> Shared \<Rightarrow> (BankState list list \<times> Shared) res" where
  "new_rank_states c m i sh =
     fold_res (\<lambda>j (gs, sh).
       bind_res (new_bank_row c m i j sh) (\<lambda>(g, sh). Inr (gs @ [g], sh)))
       [0..bankgroups c - 1] ([], sh)"

definition new_ChannelState :: "Config \<Rightarrow> u64 \<Rightarrow> Shared \<Rightarrow> ChannelState res" where
  "new_ChannelState c m sh =
     bind_res (fold_res (\<lambda>i (rs, sh).
       bind_res (new_rank_states c m i sh) (\<lambda>(r, sh). Inr (rs @ [r], sh)))
       [0..ranks c - 1] ([], sh)) (\<lambda>(bs, sh).
     Inr \<lparr>rank_idle_cycles = replicate (nat (ranks c)) 0, rank_is_sref = replicate (nat (ranks c)) False,
          bank_states = bs, refresh_q = [], rfm_q = [],
          four_aw = replicate (nat (ranks c)) [], thirty_two_aw = replicate (nat (ranks c)) [],
          alert_n = False, last_alert_clk = 0, num_acts_abo = 0, shared = sh\<rparr>)"

section \<open>Queries\<close>

definition ChannelState_IsRowOpen :: "ChannelState \<Rightarrow> int \<Rightarrow> int \<Rightarrow> int \<Rightarrow> bool res" where
  "ChannelState_IsRowOpen ch i j k = bind_res (get_bank ch i j k) (\<lambda>b. Inr (IsRowOpen b))"

definition OpenRow :: "ChannelState \<Rightarrow> int \<Rightarrow> int \<Rightarrow> int \<Rightarrow> int res" where
  "OpenRow ch i j k = bind_res (get_bank ch i j k) (\<lambda>b. Inr (open_row b))"

definition RowHitCount :: "ChannelState \<Rightarrow> int \<Rightarrow> int \<Rightarrow> int \<Rightarrow> int res" where
  "RowHitCount ch i j k = bind_res (get_bank ch i j k) (\<lambda>b. Inr (row_hit_count b))"

definition IsRankSelfRefreshing :: "ChannelState \<Rightarrow> int \<Rightarrow> bool res" where
  "IsRankSelfRefreshing ch i = vec_get (rank_is_sref ch) i"

definition IsRefreshWaiting :: "ChannelState \<Rightarrow> bool" where
  "IsRefreshWaiting ch \<longleftrightarrow> refresh_q ch \<noteq> []"

definition PendingRefCommand :: "ChannelState \<Rightarrow> Command res" where
  "PendingRefCommand ch = vec_get (refresh_q ch) 0"

definition IsRFMWaiting :: "ChannelState \<Rightarrow> bool" where
  "IsRFMWaiting ch \<longleftrightarrow> rfm_q ch \<noteq> []"

definition PendingRFMCommand :: "ChannelState \<Rightarrow> Command res" where
  "PendingRFMCommand ch = vec_get (rfm_q ch) 0"

text \<open>The loop returns at the first open bank.\<close>

fun all_idle :: "ChannelState \<Rightarrow> (int \<times> int \<times> int) list \<Rightarrow> bool res" where
  "all_idle ch [] = Inr True"
| "all_idle ch ((i, j, k) # xs) =
     bind_res (get_bank ch i j k) (\<lambda>b. if IsRowOpen b then Inr False else all_idle ch xs)"

definition IsAllBankIdleInRank :: "Config \<Rightarrow> ChannelState \<Rightarrow> int \<Rightarrow> bool res" where
  "IsAllBankIdleInRank c ch i = all_idle ch (rank_coords c i)"

definition IsRWPendingOnRef :: "ChannelState \<Rightarrow> Command \<Rightarrow> bool res" where
  "IsRWPendingOnRef ch cmd =
     bind_res (get_bank ch (Rank cmd) (Bankgroup cmd) (Bank cmd)) (\<lambda>b.
     Inr (IsRowOpen b \<and> row_hit_count b = 0 \<and> open_row b = Row cmd))"

section \<open>Pending refreshes and refresh management\<close>

definition BankNeedRefresh :: "int \<Rightarrow> int \<Rightarrow> int \<Rightarrow> bool \<Rightarrow> ChannelState \<Rightarrow> ChannelState" where
  "BankNeedRefresh i j k need ch =
     (if need then
        ch\<lparr>refresh_q := refresh_q ch @ [mk_Command REFRESH_BANK (mk_Address (-1) i j k (-1) (-1)) (-1)]\<rparr>
      else ch\<lparr>refresh_q :=
        erase_first (\<lambda>q. Rank q = i \<and> Bankgroup q = j \<and> Bank q = k) (refresh_q ch)\<rparr>)"

definition BanksetNeedRefresh :: "int \<Rightarrow> int \<Rightarrow> bool \<Rightarrow> ChannelState \<Rightarrow> ChannelState" where
  "BanksetNeedRefresh i k need ch =
     (if need then
        ch\<lparr>refresh_q := refresh_q ch @ [mk_Command REFsb (mk_Address (-1) i (-1) k (-1) (-1)) (-1)]\<rparr>
      else ch\<lparr>refresh_q := erase_first (\<lambda>q. Rank q = i \<and> Bank q = k) (refresh_q ch)\<rparr>)"

definition RankNeedRefresh :: "int \<Rightarrow> bool \<Rightarrow> ChannelState \<Rightarrow> ChannelState" where
  "RankNeedRefresh i need ch =
     (if need then
        ch\<lparr>refresh_q := refresh_q ch @ [mk_Command REFab (mk_Address (-1) i (-1) (-1) (-1) (-1)) (-1)]\<rparr>
      else ch\<lparr>refresh_q := erase_first (\<lambda>q. Rank q = i) (refresh_q ch)\<rparr>)"

definition BanksetNeedRFM :: "int \<Rightarrow> int \<Rightarrow> bool \<Rightarrow> ChannelState \<Rightarrow> ChannelState" where
  "BanksetNeedRFM i k need ch =
     (let present = (\<exists>q \<in> set (rfm_q ch). Rank q = i \<and> Bank q = k) in
      if need \<and> \<not> present then
        ch\<lparr>rfm_q := rfm_q ch @ [mk_Command RFMsb (mk_Address (-1) i (-1) k (-1) (-1)) (-1)]\<rparr>
      else if \<not> need then
        ch\<lparr>rfm_q := erase_first (\<lambda>q. Rank q = i \<and> Bank q = k) (rfm_q ch)\<rparr>
      else ch)"

definition RankNeedRFM :: "int \<Rightarrow> bool \<Rightarrow> ChannelState \<Rightarrow> ChannelState" where
  "RankNeedRFM i need ch =
     (let present = (\<exists>q \<in> set (rfm_q ch). Rank q = i) in
      if need \<and> \<not> present then
        ch\<lparr>rfm_q := rfm_q ch @ [mk_Command RFMab (mk_Address (-1) i (-1) (-1) (-1) (-1)) (-1)]\<rparr>
      else if \<not> need then ch\<lparr>rfm_q := erase_first (\<lambda>q. Rank q = i) (rfm_q ch)\<rparr>
      else ch)"

section \<open>Activation windows\<close>

definition window_ready :: "nat \<Rightarrow> u64 \<Rightarrow> u64 list \<Rightarrow> bool" where
  "window_ready n t w \<longleftrightarrow> \<not> (w \<noteq> [] \<and> t < hd w \<and> n \<le> length w)"

definition IsFAWReady :: "ChannelState \<Rightarrow> int \<Rightarrow> u64 \<Rightarrow> bool res" where
  "IsFAWReady ch i t = bind_res (vec_get (four_aw ch) i) (\<lambda>w. Inr (window_ready 4 t w))"

definition Is32AWReady :: "ChannelState \<Rightarrow> int \<Rightarrow> u64 \<Rightarrow> bool res" where
  "Is32AWReady ch i t = bind_res (vec_get (thirty_two_aw ch) i) (\<lambda>w. Inr (window_ready 32 t w))"

definition ActivationWindowOk :: "Config \<Rightarrow> ChannelState \<Rightarrow> int \<Rightarrow> u64 \<Rightarrow> bool res" where
  "ActivationWindowOk c ch i t =
     bind_res (IsFAWReady ch i t) (\<lambda>tfaw_ok.
     if IsGDDR c then (if \<not> tfaw_ok then Inr False else Is32AWReady ch i t) else Inr tfaw_ok)"

definition window_push :: "int \<Rightarrow> u64 \<Rightarrow> u64 list \<Rightarrow> u64 list" where
  "window_push d t w = (if w \<noteq> [] \<and> t \<ge> hd w then tl w else w) @ [t + to_u64 d]"

definition UpdateActivationTimes :: "Config \<Rightarrow> int \<Rightarrow> u64 \<Rightarrow> ChannelState \<Rightarrow> ChannelState res" where
  "UpdateActivationTimes c i t ch =
     bind_res (vec_upd (four_aw ch) i (window_push (tFAW c) t)) (\<lambda>w.
     let ch = ch\<lparr>four_aw := w\<rparr> in
     if IsGDDR c then
       bind_res (vec_upd (thirty_two_aw ch) i (window_push (t32AW c) t)) (\<lambda>w.
       Inr (ch\<lparr>thirty_two_aw := w\<rparr>))
     else Inr ch)"

section \<open>The next command of a request\<close>

text \<open>The scan of the banks a rank-level or same-bank command needs: the last answer, the number of
  banks ready for the command itself, and whether the loop returned early with a preparatory command
  for one bank.\<close>

fun scan_banks ::
  "Build \<Rightarrow> Config \<Rightarrow> Command \<Rightarrow> u64 \<Rightarrow> (int \<times> int \<times> int) list \<Rightarrow> Command \<Rightarrow> int \<Rightarrow> ChannelState \<Rightarrow>
     (Command \<times> int \<times> bool \<times> ChannelState) res" where
  "scan_banks bo c cmd clk [] ready n ch = Inr (ready, n, False, ch)"
| "scan_banks bo c cmd clk ((i, j, k) # xs) ready n ch =
     bind_res (get_bank ch i j k) (\<lambda>b.
     bind_res (BankState_GetReadyCommand bo c b cmd clk (shared ch)) (\<lambda>(ready, sh).
     let ch = ch\<lparr>shared := sh\<rparr> in
     if \<not> IsValid ready then scan_banks bo c cmd clk xs ready n ch
     else if cmd_type ready \<noteq> cmd_type cmd then
       Inr (ready\<lparr>addr := mk_Address (-1) i j k (-1) (-1)\<rparr>, n, True, ch)
     else scan_banks bo c cmd clk xs ready (n + 1) ch))"

definition scan_result :: "int \<Rightarrow> Command \<times> int \<times> bool \<times> ChannelState \<Rightarrow> Command \<times> ChannelState" where
  "scan_result wanted = (\<lambda>(ready, n, early, ch).
     if early \<or> n = wanted then (ready, ch) else (invalid_Command, ch))"

definition ChannelState_GetReadyCommand ::
  "Build \<Rightarrow> Config \<Rightarrow> Command \<Rightarrow> u64 \<Rightarrow> ChannelState \<Rightarrow> (Command \<times> ChannelState) res" where
  "ChannelState_GetReadyCommand bo c cmd clk ch =
     (if IsRankCMD cmd then
        bind_res (scan_banks bo c cmd clk (rank_coords c (Rank cmd)) invalid_Command 0 ch) (\<lambda>r.
        Inr (scan_result (banks c) r))
      else if IsSbCMD cmd then
        bind_res (scan_banks bo c cmd clk (bankset_coords c (Rank cmd) (Bank cmd)) invalid_Command 0 ch) (\<lambda>r.
        Inr (scan_result (bankgroups c) r))
      else
        bind_res (get_bank ch (Rank cmd) (Bankgroup cmd) (Bank cmd)) (\<lambda>b.
        bind_res (BankState_GetReadyCommand bo c b cmd clk (shared ch)) (\<lambda>(ready, sh).
        let ch = ch\<lparr>shared := sh\<rparr> in
        if \<not> IsValid ready then Inr (invalid_Command, ch)
        else if alert_n ch \<and> clk > to_u64 (tABO c) + last_alert_clk ch then
          Inr (invalid_Command, RankNeedRFM (Rank ready) True ch)
        else if cmd_type ready = RFMsb then
          Inr (invalid_Command, BanksetNeedRFM (Rank ready) (Bank ready) True ch)
        else if cmd_type ready = RFMab then
          Inr (invalid_Command, RankNeedRFM (Rank ready) True ch)
        else if cmd_type ready = ACTIVATE then
          bind_res (ActivationWindowOk c ch (Rank ready) clk) (\<lambda>window_ok.
          Inr (if window_ok then ready else invalid_Command, ch))
        else Inr (ready, ch))))"

section \<open>State updates\<close>

definition update_bank ::
  "Build \<Rightarrow> Config \<Rightarrow> Command \<Rightarrow> u64 \<Rightarrow> int \<times> int \<times> int \<Rightarrow> ChannelState \<Rightarrow> ChannelState res" where
  "update_bank bo c cmd clk = (\<lambda>(i, j, k) ch.
     bind_res (get_bank ch i j k) (\<lambda>b.
     bind_res (BankState_UpdateState bo c cmd clk (b, shared ch)) (\<lambda>(b, sh).
     set_bank i j k b (ch\<lparr>shared := sh\<rparr>))))"

definition set_sref :: "int \<Rightarrow> bool \<Rightarrow> ChannelState \<Rightarrow> ChannelState res" where
  "set_sref i v ch =
     bind_res (vec_set (rank_is_sref ch) i v) (\<lambda>r. Inr (ch\<lparr>rank_is_sref := r\<rparr>))"

definition ResetAlert :: "ChannelState \<Rightarrow> ChannelState" where
  "ResetAlert ch = ch\<lparr>alert_n := False\<rparr>"

definition ChannelState_UpdateState ::
  "Build \<Rightarrow> Config \<Rightarrow> Command \<Rightarrow> u64 \<Rightarrow> ChannelState \<Rightarrow> ChannelState res" where
  "ChannelState_UpdateState bo c cmd clk ch =
     (if IsRankCMD cmd then
        bind_res (fold_res (update_bank bo c cmd clk) (rank_coords c (Rank cmd)) ch) (\<lambda>ch.
        if IsRFM cmd then Inr (ResetAlert (RankNeedRFM (Rank cmd) False ch))
        else if IsRefresh cmd then Inr (ResetAlert (RankNeedRefresh (Rank cmd) False ch))
        else if cmd_type cmd = SREF_ENTER then set_sref (Rank cmd) True ch
        else if cmd_type cmd = SREF_EXIT then set_sref (Rank cmd) False ch
        else Inr ch)
      else if IsSbCMD cmd then
        bind_res (fold_res (update_bank bo c cmd clk) (bankset_coords c (Rank cmd) (Bank cmd)) ch) (\<lambda>ch.
        if IsRFM cmd then Inr (BanksetNeedRFM (Rank cmd) (Bank cmd) False ch)
        else if IsRefresh cmd then Inr (BanksetNeedRefresh (Rank cmd) (Bank cmd) False ch)
        else Inr ch)
      else
        bind_res (update_bank bo c cmd clk (Rank cmd, Bankgroup cmd, Bank cmd) ch) (\<lambda>ch.
        if IsRefresh cmd then Inr (BankNeedRefresh (Rank cmd) (Bankgroup cmd) (Bank cmd) False ch)
        else Inr ch))"

section \<open>Alerts\<close>

text \<open>The query of one bank, with the update of the alert when it reports one.\<close>

definition check_bank_alert :: "Config \<Rightarrow> u64 \<Rightarrow> int \<times> int \<times> int \<Rightarrow> ChannelState \<Rightarrow> ChannelState res" where
  "check_bank_alert c clk = (\<lambda>(i, j, k) ch.
     if alert_mode c = 1 then
       bind_res (get_bank ch i j k) (\<lambda>b.
       bind_res (BankState_CheckAlert c (b, shared ch)) (\<lambda>(al, sh).
       Inr (if al then ch\<lparr>alert_n := True, last_alert_clk := clk, shared := count_stat ''num_alerts'' sh\<rparr>
            else ch\<lparr>shared := sh\<rparr>)))
     else Inr ch)"

definition TriggerSameBankAlert :: "Config \<Rightarrow> Command \<Rightarrow> u64 \<Rightarrow> ChannelState \<Rightarrow> ChannelState res" where
  "TriggerSameBankAlert c cmd clk ch =
     (if alert_n ch \<or> num_acts_abo ch < ABO_delay_acts c then Inr ch
      else check_bank_alert c clk (Rank cmd, Bankgroup cmd, Bank cmd) ch)"

definition TriggerSameRankAlert :: "Config \<Rightarrow> Command \<Rightarrow> u64 \<Rightarrow> ChannelState \<Rightarrow> ChannelState res" where
  "TriggerSameRankAlert c cmd clk ch =
     (if alert_n ch \<or> num_acts_abo ch < ABO_delay_acts c then Inr ch
      else fold_res (\<lambda>x ch. if alert_n ch then Inr ch else check_bank_alert c clk x ch)
             (rank_coords c (Rank cmd)) ch)"

section \<open>Timing updates\<close>

text \<open>One row of a delay table, applied to one bank, and to the banks a loop visits: the inner loop reads
  the bank only when the row has entries.\<close>

definition apply_timing :: "(CommandType \<times> int) list \<Rightarrow> u64 \<Rightarrow> BankState \<Rightarrow> BankState res" where
  "apply_timing l clk b =
     fold_res (\<lambda>(t, d) b. BankState_UpdateTiming t (clk + to_u64 d) b) l b"

definition delay_banks ::
  "(CommandType \<times> int) list \<Rightarrow> u64 \<Rightarrow> (int \<times> int \<times> int) list \<Rightarrow> ChannelState \<Rightarrow> ChannelState res" where
  "delay_banks l clk xs ch =
     (if l = [] then Inr ch
      else fold_res (\<lambda>(i, j, k) ch.
        bind_res (get_bank ch i j k) (\<lambda>b. bind_res (apply_timing l clk b) (\<lambda>b. set_bank i j k b ch))) xs ch)"

definition UpdateSameBankset ::
  "Config \<Rightarrow> Address \<Rightarrow> (CommandType \<times> int) list \<Rightarrow> u64 \<Rightarrow> ChannelState \<Rightarrow> ChannelState res" where
  "UpdateSameBankset c a l clk = delay_banks l clk (bankset_coords c (rank a) (bank a))"

definition UpdateOtherBanksets ::
  "Config \<Rightarrow> Address \<Rightarrow> (CommandType \<times> int) list \<Rightarrow> u64 \<Rightarrow> ChannelState \<Rightarrow> ChannelState res" where
  "UpdateOtherBanksets c a l clk =
     delay_banks l clk (filter (\<lambda>(i, j, k). k \<noteq> bank a) (channel_coords c))"

definition UpdateSameBankTiming ::
  "Config \<Rightarrow> Address \<Rightarrow> (CommandType \<times> int) list \<Rightarrow> u64 \<Rightarrow> ChannelState \<Rightarrow> ChannelState res" where
  "UpdateSameBankTiming c a l clk = delay_banks l clk [(rank a, bankgroup a, bank a)]"

definition UpdateOtherBanksSameBankgroupTiming ::
  "Config \<Rightarrow> Address \<Rightarrow> (CommandType \<times> int) list \<Rightarrow> u64 \<Rightarrow> ChannelState \<Rightarrow> ChannelState res" where
  "UpdateOtherBanksSameBankgroupTiming c a l clk =
     delay_banks l clk
       (filter (\<lambda>(i, j, k). k \<noteq> bank a) (map (\<lambda>k. (rank a, bankgroup a, k)) [0..banks_per_group c - 1]))"

definition UpdateOtherBankgroupsSameRankTiming ::
  "Config \<Rightarrow> Address \<Rightarrow> (CommandType \<times> int) list \<Rightarrow> u64 \<Rightarrow> ChannelState \<Rightarrow> ChannelState res" where
  "UpdateOtherBankgroupsSameRankTiming c a l clk =
     delay_banks l clk (filter (\<lambda>(i, j, k). j \<noteq> bankgroup a) (rank_coords c (rank a)))"

definition UpdateOtherRanksTiming ::
  "Config \<Rightarrow> Address \<Rightarrow> (CommandType \<times> int) list \<Rightarrow> u64 \<Rightarrow> ChannelState \<Rightarrow> ChannelState res" where
  "UpdateOtherRanksTiming c a l clk =
     delay_banks l clk (filter (\<lambda>(i, j, k). i \<noteq> rank a) (channel_coords c))"

definition UpdateSameRankTiming ::
  "Config \<Rightarrow> Address \<Rightarrow> (CommandType \<times> int) list \<Rightarrow> u64 \<Rightarrow> ChannelState \<Rightarrow> ChannelState res" where
  "UpdateSameRankTiming c a l clk = delay_banks l clk (rank_coords c (rank a))"

text \<open>The \<open>switch\<close> falls through from the activate to the precharges to the column accesses, and from
  \<open>RFMab\<close> to \<open>REFab\<close> to the self-refresh commands.\<close>

definition bank_command_timing ::
  "Config \<Rightarrow> Timing \<Rightarrow> Command \<Rightarrow> u64 \<Rightarrow> ChannelState \<Rightarrow> ChannelState res" where
  "bank_command_timing c tm cmd clk ch =
     bind_res (UpdateSameBankTiming c (addr cmd) (same_bank tm (cmd_type cmd)) clk ch) (\<lambda>ch.
     bind_res (UpdateOtherBanksSameBankgroupTiming c (addr cmd)
                 (other_banks_same_bankgroup tm (cmd_type cmd)) clk ch) (\<lambda>ch.
     bind_res (UpdateOtherBankgroupsSameRankTiming c (addr cmd)
                 (other_bankgroups_same_rank tm (cmd_type cmd)) clk ch) (\<lambda>ch.
     UpdateOtherRanksTiming c (addr cmd) (other_ranks tm (cmd_type cmd)) clk ch)))"

definition ChannelState_UpdateTiming ::
  "Config \<Rightarrow> Timing \<Rightarrow> Command \<Rightarrow> u64 \<Rightarrow> ChannelState \<Rightarrow> ChannelState res" where
  "ChannelState_UpdateTiming c tm cmd clk ch =
     (let t = cmd_type cmd in
      if t = ACTIVATE then
        bind_res (UpdateActivationTimes c (Rank cmd) clk (ch\<lparr>num_acts_abo := num_acts_abo ch + 1\<rparr>)) (\<lambda>ch.
        bind_res (TriggerSameBankAlert c cmd clk ch) (bank_command_timing c tm cmd clk))
      else if t \<in> {READ_PRECHARGE, READ_PRECHARGE2, WRITE_PRECHARGE, WRITE_PRECHARGE2, PRECHARGE, PRECHARGE2} then
        bind_res (TriggerSameBankAlert c cmd clk ch) (bank_command_timing c tm cmd clk)
      else if t \<in> {READ, WRITE, REFRESH_BANK} then bank_command_timing c tm cmd clk ch
      else if t \<in> {RFMab, REFab} then
        bind_res (TriggerSameRankAlert c cmd clk (if t = RFMab then ch\<lparr>num_acts_abo := 0\<rparr> else ch)) (\<lambda>ch.
        UpdateSameRankTiming c (addr cmd) (same_rank tm t) clk ch)
      else if t \<in> {SREF_ENTER, SREF_EXIT} then
        UpdateSameRankTiming c (addr cmd) (same_rank tm t) clk ch
      else if t \<in> {REFsb, RFMsb} then
        bind_res (TriggerSameRankAlert c cmd clk ch) (\<lambda>ch.
        bind_res (UpdateSameBankset c (addr cmd) (same_bankset tm t) clk ch) (\<lambda>ch.
        UpdateOtherBanksets c (addr cmd) (other_banksets tm t) clk ch))
      else Inl AbruptExit)"

definition UpdateTimingAndStates ::
  "Build \<Rightarrow> Config \<Rightarrow> Timing \<Rightarrow> Command \<Rightarrow> u64 \<Rightarrow> ChannelState \<Rightarrow> ChannelState res" where
  "UpdateTimingAndStates bo c tm cmd clk ch =
     bind_res (ChannelState_UpdateState bo c cmd clk ch) (ChannelState_UpdateTiming c tm cmd clk)"

end
