(* ===== verification/Activation_Window.thy ===== *)
theory Activation_Window
  imports Channel_State
begin

text \<open>
  The sliding window of activations as an interface: a check before an activation and a push after it,
  with the law that any \<open>limit + 1\<close> consecutive activations span at least the window.  The two windows
  of a rank (\<open>four_aw_\<close> and \<open>thirty_two_aw_\<close> of \<open>channel_state.cc\<close>) are its interpretations.
\<close>

locale activation_window =
  fixes limit :: nat
    and span :: int
    and ready :: "u64 \<Rightarrow> u64 list \<Rightarrow> bool"
    and push :: "u64 \<Rightarrow> u64 list \<Rightarrow> u64 list"
  assumes limit_pos: "0 < limit"
    and ready_room: "ready t w \<Longrightarrow> length w < limit \<or> hd w \<le> t"
    and push_expired: "w \<noteq> [] \<Longrightarrow> hd w \<le> t \<Longrightarrow> push t w = tl w @ [t + to_u64 span]"
    and push_open: "w = [] \<or> t < hd w \<Longrightarrow> push t w = w @ [t + to_u64 span]"
begin

text \<open>The window after a history of activations, and the histories every check admitted.\<close>

definition window_of :: "u64 list \<Rightarrow> u64 list" where
  "window_of ts = fold push ts []"

definition admitted :: "u64 list \<Rightarrow> bool" where
  "admitted ts \<longleftrightarrow> (\<forall>i < length ts. ready (ts ! i) (window_of (take i ts)))"

lemma window_of_snoc: "window_of (ts @ [t]) = push t (window_of ts)"
  by (simp add: window_of_def)

lemma admitted_snoc: "admitted (ts @ [t]) \<longleftrightarrow> admitted ts \<and> ready t (window_of ts)"
  by (auto simp: admitted_def nth_append less_Suc_eq)

text \<open>The window holds the end of the history, shifted by the span; what left it has expired.\<close>

definition window_inv :: "u64 list \<Rightarrow> nat \<Rightarrow> bool" where
  "window_inv ts m \<longleftrightarrow> m \<le> length ts \<and> length ts \<le> m + limit \<and>
     window_of ts = map (\<lambda>t. t + to_u64 span) (drop m ts) \<and>
     (\<forall>i < m. ts ! i + to_u64 span \<le> last ts) \<and>
     (\<forall>i. i + limit < length ts \<longrightarrow> ts ! i + to_u64 span \<le> ts ! (i + limit))"

lemma window_inv_snoc:
  assumes inv: "window_inv ts m" and t: "\<forall>s \<in> set ts. s \<le> t" and ready: "ready t (window_of ts)"
  shows "\<exists>m'. window_inv (ts @ [t]) m'"
proof -
  let ?w = "window_of ts" and ?d = "to_u64 span"
  have w: "?w = map (\<lambda>t. t + ?d) (drop m ts)" "m \<le> length ts" "length ts \<le> m + limit"
    using inv by (auto simp: window_inv_def)
  have old: "ts ! i + ?d \<le> t" if "i < m" for i
  proof -
    have "ts \<noteq> []" using that w(2) by auto
    then have "last ts \<le> t" using t by simp
    moreover have "ts ! i + ?d \<le> last ts" using inv that by (simp add: window_inv_def)
    ultimately show ?thesis by (rule order_trans [rotated])
  qed
  have hd_w: "hd ?w = ts ! m + ?d" if "?w \<noteq> []"
    using that w by (simp add: hd_map hd_drop_conv_nth)
  show ?thesis
  proof (cases "?w \<noteq> [] \<and> hd ?w \<le> t")
    case True
    then have m: "m < length ts" and exp: "ts ! m + ?d \<le> t" using w hd_w by auto
    have "window_of (ts @ [t]) = map (\<lambda>t. t + ?d) (drop (Suc m) (ts @ [t]))"
      using push_expired [of ?w t] True w m by (simp add: window_of_snoc tl_drop map_tl [symmetric] drop_Suc)
    moreover have "ts ! i + ?d \<le> t" if "i < Suc m" for i using that old exp by (auto simp: less_Suc_eq)
    ultimately have "window_inv (ts @ [t]) (Suc m)"
      using inv m by (auto simp: window_inv_def nth_append less_Suc_eq_le)
    then show ?thesis ..
  next
    case False
    then have room: "?w = [] \<or> t < hd ?w" by auto
    have short: "length ts < m + limit"
      using ready_room [OF ready] limit_pos False w by (cases "?w = []") (auto simp: not_le)
    have "window_of (ts @ [t]) = map (\<lambda>t. t + ?d) (drop m (ts @ [t]))"
      using push_open [OF room] w by (simp add: window_of_snoc)
    then have "window_inv (ts @ [t]) m"
      using inv w short old by (auto simp: window_inv_def nth_append less_Suc_eq_le)
    then show ?thesis ..
  qed
qed

lemma window_inv_exists: "sorted ts \<Longrightarrow> admitted ts \<Longrightarrow> \<exists>m. window_inv ts m"
proof (induction ts rule: rev_induct)
  case Nil
  have "window_inv [] 0" by (simp add: window_inv_def window_of_def)
  then show ?case ..
next
  case (snoc t ts)
  then obtain m where "window_inv ts m" by (auto simp: sorted_append admitted_snoc)
  moreover have "\<forall>s \<in> set ts. s \<le> t" using snoc.prems(1) by (simp add: sorted_append)
  moreover have "ready t (window_of ts)" using snoc.prems(2) by (simp add: admitted_snoc)
  ultimately show ?case by (rule window_inv_snoc)
qed

lemma spaced:
  "sorted ts \<Longrightarrow> admitted ts \<Longrightarrow> i + limit < length ts \<Longrightarrow> ts ! i + to_u64 span \<le> ts ! (i + limit)"
  using window_inv_exists [of ts] by (auto simp: window_inv_def)

end

lemma window_laws:
  "window_ready n t w \<Longrightarrow> 0 < n \<Longrightarrow> length w < n \<or> hd w \<le> t"
  "w \<noteq> [] \<Longrightarrow> hd w \<le> t \<Longrightarrow> window_push d t w = tl w @ [t + to_u64 d]"
  "w = [] \<or> t < hd w \<Longrightarrow> window_push d t w = w @ [t + to_u64 d]"
  by (auto simp: window_ready_def window_push_def)

text \<open>The four-activation window of every rank, and the window of thirty-two of GDDR ranks.\<close>

interpretation faw: activation_window 4 "tFAW c" "window_ready 4" "window_push (tFAW c)" for c :: Config
  by unfold_locales (auto dest: window_laws(1) intro: window_laws(2,3))

interpretation aw32: activation_window 32 "t32AW c" "window_ready 32" "window_push (t32AW c)" for c :: Config
  by unfold_locales (auto dest: window_laws(1) intro: window_laws(2,3))

end
