(* ===== verification/Channel_Timing.thy ===== *)
theory Channel_Timing
  imports Bank_Counters Activation_Window
begin

text \<open>
  The timing half of a channel: access to the banks of a well-shaped channel, the effect of a command
  on the earliest issue times of every bank (a pure table lookup by the relation between the bank and
  the command's address), and the activation windows.
\<close>

section \<open>Access to the banks\<close>

type_synonym coord = "int \<times> int \<times> int"

definition chan_shape :: "Config \<Rightarrow> ChannelState \<Rightarrow> bool" where
  "chan_shape c ch \<longleftrightarrow>
     int (length (bank_states ch)) = ranks c \<and>
     (\<forall>r \<in> set (bank_states ch). int (length r) = bankgroups c \<and>
        (\<forall>g \<in> set r. int (length g) = banks_per_group c)) \<and>
     int (length (rank_is_sref ch)) = ranks c \<and> int (length (four_aw ch)) = ranks c \<and>
     int (length (thirty_two_aw ch)) = ranks c"

definition in_channel :: "Config \<Rightarrow> coord \<Rightarrow> bool" where
  "in_channel c = (\<lambda>(i, j, k). 0 \<le> i \<and> i < ranks c \<and> 0 \<le> j \<and> j < bankgroups c \<and>
     0 \<le> k \<and> k < banks_per_group c)"

definition bk :: "ChannelState \<Rightarrow> coord \<Rightarrow> BankState" where
  "bk ch = (\<lambda>(i, j, k). bank_states ch ! nat i ! nat j ! nat k)"

definition put_bank :: "coord \<Rightarrow> BankState \<Rightarrow> ChannelState \<Rightarrow> ChannelState" where
  "put_bank = (\<lambda>(i, j, k) b ch. ch\<lparr>bank_states := (bank_states ch)[nat i :=
     (bank_states ch ! nat i)[nat j := (bank_states ch ! nat i ! nat j)[nat k := b]]]\<rparr>)"

lemma shape_lengths:
  assumes "chan_shape c ch" and "in_channel c (i, j, k)"
  shows "nat i < length (bank_states ch)" and "nat j < length (bank_states ch ! nat i)"
    and "nat k < length (bank_states ch ! nat i ! nat j)"
proof -
  show i: "nat i < length (bank_states ch)" using assms by (auto simp: chan_shape_def in_channel_def)
  then have r: "int (length (bank_states ch ! nat i)) = bankgroups c"
    using assms(1) by (auto simp: chan_shape_def)
  then show j: "nat j < length (bank_states ch ! nat i)" using assms(2) by (auto simp: in_channel_def)
  have "int (length (bank_states ch ! nat i ! nat j)) = banks_per_group c"
    using assms(1) i j nth_mem by (fastforce simp: chan_shape_def)
  then show "nat k < length (bank_states ch ! nat i ! nat j)" using assms(2) by (auto simp: in_channel_def)
qed

lemma get_bank_ok:
  assumes "chan_shape c ch" and "in_channel c (i, j, k)"
  shows "get_bank ch i j k = Inr (bk ch (i, j, k))"
  using shape_lengths [OF assms] assms(2)
  by (simp add: get_bank_def bk_def vec_get_ok in_channel_def nat_less_iff)

lemma set_bank_ok:
  assumes "chan_shape c ch" and "in_channel c (i, j, k)"
  shows "set_bank i j k b ch = Inr (put_bank (i, j, k) b ch)"
  using shape_lengths [OF assms] assms(2)
  by (simp add: set_bank_def put_bank_def vec_get_ok vec_set_ok in_channel_def nat_less_iff)

lemma bk_put:
  assumes "chan_shape c ch" and "in_channel c x" and "in_channel c y"
  shows "bk (put_bank x b ch) y = (if y = x then b else bk ch y)"
proof -
  obtain i j k i' j' k' where [simp]: "x = (i, j, k)" "y = (i', j', k')" by (cases x, cases y) auto
  have "(nat i = nat i') = (i = i')" "(nat j = nat j') = (j = j')" "(nat k = nat k') = (k = k')"
    using assms(2,3) by (auto simp: in_channel_def)
  then show ?thesis
    using shape_lengths [of c ch i j k] shape_lengths [of c ch i' j' k'] assms
    by (auto simp: bk_def put_bank_def nth_list_update)
qed

lemma shape_put [simp]:
  assumes "chan_shape c ch" and "in_channel c x"
  shows "chan_shape c (put_bank x b ch)"
proof -
  obtain i j k where [simp]: "x = (i, j, k)" by (cases x) auto
  note len = shape_lengths [OF assms(1), of i j k]
  have "bank_states ch ! nat i \<in> set (bank_states ch)"
    "bank_states ch ! nat i ! nat j \<in> set (bank_states ch ! nat i)" using len assms(2) by simp_all
  then show ?thesis
    using assms(1)
    by (auto simp: chan_shape_def put_bank_def dest!: set_update_subset_insert [THEN subsetD])
qed

lemma put_bank_sel [simp]:
  "refresh_q (put_bank x b ch) = refresh_q ch" "rfm_q (put_bank x b ch) = rfm_q ch"
  "rank_is_sref (put_bank x b ch) = rank_is_sref ch" "four_aw (put_bank x b ch) = four_aw ch"
  "thirty_two_aw (put_bank x b ch) = thirty_two_aw ch" "alert_n (put_bank x b ch) = alert_n ch"
  "last_alert_clk (put_bank x b ch) = last_alert_clk ch" "num_acts_abo (put_bank x b ch) = num_acts_abo ch"
  "shared (put_bank x b ch) = shared ch" "rank_idle_cycles (put_bank x b ch) = rank_idle_cycles ch"
  by (simp_all add: put_bank_def case_prod_unfold)

lemma chan_updates [simp]:
  "bk (ch\<lparr>refresh_q := q\<rparr>) = bk ch" "bk (ch\<lparr>rfm_q := q\<rparr>) = bk ch" "bk (ch\<lparr>shared := sh\<rparr>) = bk ch"
  "bk (ch\<lparr>alert_n := a\<rparr>) = bk ch" "bk (ch\<lparr>last_alert_clk := t\<rparr>) = bk ch"
  "bk (ch\<lparr>num_acts_abo := n\<rparr>) = bk ch" "bk (ch\<lparr>rank_is_sref := r\<rparr>) = bk ch"
  "bk (ch\<lparr>four_aw := w\<rparr>) = bk ch" "bk (ch\<lparr>thirty_two_aw := w\<rparr>) = bk ch"
  "chan_shape c (ch\<lparr>refresh_q := q\<rparr>) = chan_shape c ch" "chan_shape c (ch\<lparr>rfm_q := q\<rparr>) = chan_shape c ch"
  "chan_shape c (ch\<lparr>shared := sh\<rparr>) = chan_shape c ch" "chan_shape c (ch\<lparr>alert_n := a\<rparr>) = chan_shape c ch"
  "chan_shape c (ch\<lparr>last_alert_clk := t\<rparr>) = chan_shape c ch"
  "chan_shape c (ch\<lparr>num_acts_abo := n\<rparr>) = chan_shape c ch"
  by (simp_all add: bk_def chan_shape_def fun_eq_iff)

text \<open>The loops visit every bank they should, once.\<close>

lemma set_rank_coords:
  "set (rank_coords c i) = {(i, j, k) | j k. 0 \<le> j \<and> j < bankgroups c \<and> 0 \<le> k \<and> k < banks_per_group c}"
  by (auto simp: rank_coords_def)

lemma set_bankset_coords: "set (bankset_coords c i k) = {(i, j, k) | j. 0 \<le> j \<and> j < bankgroups c}"
  by (auto simp: bankset_coords_def)

lemma set_channel_coords: "set (channel_coords c) = {x. in_channel c x}"
  by (auto simp: channel_coords_def set_rank_coords in_channel_def)

lemma distinct_rank_coords: "distinct (rank_coords c i)"
proof -
  have "rank_coords c i = map (\<lambda>(j, k). (i, j, k))
      (List.product [0..bankgroups c - 1] [0..banks_per_group c - 1])"
    by (simp add: rank_coords_def product_concat_map map_concat comp_def)
  then show ?thesis by (simp add: distinct_map inj_on_def distinct_product)
qed

lemma distinct_bankset_coords: "distinct (bankset_coords c i k)"
  by (simp add: bankset_coords_def distinct_map inj_on_def concat_map_singleton)

lemma distinct_channel_coords: "distinct (channel_coords c)"
proof -
  have "distinct is \<Longrightarrow> distinct (concat (map (rank_coords c) is))" for "is"
    by (induction "is") (auto simp: distinct_rank_coords set_rank_coords)
  then show ?thesis by (simp add: channel_coords_def)
qed

lemma rank_coords_in_channel: "0 \<le> i \<Longrightarrow> i < ranks c \<Longrightarrow> x \<in> set (rank_coords c i) \<Longrightarrow> in_channel c x"
  by (auto simp: set_rank_coords in_channel_def)

lemma bankset_coords_in_channel:
  "0 \<le> i \<Longrightarrow> i < ranks c \<Longrightarrow> 0 \<le> k \<Longrightarrow> k < banks_per_group c \<Longrightarrow> x \<in> set (bankset_coords c i k) \<Longrightarrow>
     in_channel c x"
  by (auto simp: set_bankset_coords in_channel_def)

section \<open>Raising the earliest issue times\<close>

abbreviation earliest :: "BankState \<Rightarrow> CommandType \<Rightarrow> u64" where
  "earliest b t \<equiv> cmd_timing b ! nat (cmd_index t)"

definition raise_one :: "u64 \<Rightarrow> CommandType \<times> int \<Rightarrow> u64 list \<Rightarrow> u64 list" where
  "raise_one clk = (\<lambda>(t, d) v. v[nat (cmd_index t) := max (v ! nat (cmd_index t)) (clk + to_u64 d)])"

definition raise_timing :: "(CommandType \<times> int) list \<Rightarrow> u64 \<Rightarrow> BankState \<Rightarrow> BankState" where
  "raise_timing l clk b = b\<lparr>cmd_timing := fold (raise_one clk) l (cmd_timing b)\<rparr>"

definition table_row_ok :: "(CommandType \<times> int) list \<Rightarrow> bool" where
  "table_row_ok l \<longleftrightarrow> CMD_SIZE \<notin> fst ` set l"

lemma length_raise_one [simp]: "length (raise_one clk e v) = length v"
  by (simp add: raise_one_def case_prod_unfold)

lemma length_raise [simp]: "length (fold (raise_one clk) l v) = length v"
  by (induction l arbitrary: v) simp_all

lemma raise_timing_Nil [simp]: "raise_timing [] clk b = b"
  by (simp add: raise_timing_def)

lemma raise_timing_sel [simp]:
  "bank_state (raise_timing l clk b) = bank_state b" "open_row (raise_timing l clk b) = open_row b"
  "row_hit_count (raise_timing l clk b) = row_hit_count b" "raa_ctr (raise_timing l clk b) = raa_ctr b"
  "length (cmd_timing (raise_timing l clk b)) = length (cmd_timing b)"
  "total_row_acts (raise_timing l clk b) = total_row_acts b"
  "acts_counter (raise_timing l clk b) = acts_counter b"
  by (simp_all add: raise_timing_def)

lemma apply_timing_eq:
  "length (cmd_timing b) = 16 \<Longrightarrow> table_row_ok l \<Longrightarrow> apply_timing l clk b = Inr (raise_timing l clk b)"
proof (induction l arbitrary: b)
  case Nil
  then show ?case by (simp add: apply_timing_def)
next
  case (Cons e l)
  obtain t d where e: "e = (t, d)" by (cases e)
  have "t \<noteq> CMD_SIZE" using Cons.prems(2) by (auto simp: table_row_ok_def e)
  then have "BankState_UpdateTiming t (clk + to_u64 d) b = Inr (b\<lparr>cmd_timing := raise_one clk e (cmd_timing b)\<rparr>)"
    using Cons.prems(1) by (simp add: BankState_UpdateTiming_def vec_upd_ok raise_one_def e)
  then show ?case
    using Cons.IH [of "b\<lparr>cmd_timing := raise_one clk e (cmd_timing b)\<rparr>"] Cons.prems
    by (simp add: apply_timing_def e table_row_ok_def raise_timing_def)
qed

lemma raise_one_mono: "n < length v \<Longrightarrow> v ! n \<le> raise_one clk e v ! n"
  by (cases "nat (cmd_index (fst e)) = n") (auto simp: raise_one_def case_prod_unfold)

lemma raise_mono: "n < length v \<Longrightarrow> v ! n \<le> fold (raise_one clk) l v ! n"
proof (induction l arbitrary: v)
  case (Cons e l)
  have "v ! n \<le> raise_one clk e v ! n" using Cons.prems by (rule raise_one_mono)
  also have "\<dots> \<le> fold (raise_one clk) l (raise_one clk e v) ! n" using Cons by simp
  finally show ?case by simp
qed simp

lemma raise_reaches:
  "(t, d) \<in> set l \<Longrightarrow> nat (cmd_index t) < length v \<Longrightarrow>
     clk + to_u64 d \<le> fold (raise_one clk) l v ! nat (cmd_index t)"
proof (induction l arbitrary: v)
  case (Cons e l)
  show ?case
  proof (cases "e = (t, d)")
    case True
    have "clk + to_u64 d \<le> raise_one clk e v ! nat (cmd_index t)"
      using Cons.prems by (simp add: True raise_one_def)
    also have "\<dots> \<le> fold (raise_one clk) l (raise_one clk e v) ! nat (cmd_index t)"
      using Cons.prems by (intro raise_mono) simp
    finally show ?thesis by simp
  next
    case False
    then show ?thesis using Cons by auto
  qed
qed simp

lemma cmd_index_nat_less: "t \<noteq> CMD_SIZE \<Longrightarrow> nat (cmd_index t) < 16"
  by (cases t) simp_all

lemma earliest_mono:
  "length (cmd_timing b) = 16 \<Longrightarrow> t \<noteq> CMD_SIZE \<Longrightarrow> earliest b t \<le> earliest (raise_timing l clk b) t"
  by (simp add: raise_timing_def raise_mono cmd_index_nat_less)

lemma earliest_reaches:
  "length (cmd_timing b) = 16 \<Longrightarrow> t \<noteq> CMD_SIZE \<Longrightarrow> (t, d) \<in> set l \<Longrightarrow>
     clk + to_u64 d \<le> earliest (raise_timing l clk b) t"
  by (simp add: raise_timing_def raise_reaches cmd_index_nat_less)

section \<open>The timing effect of a command\<close>

text \<open>The delay row that applies to a bank, by its position relative to the command's address.\<close>

definition delay_row :: "Timing \<Rightarrow> Command \<Rightarrow> coord \<Rightarrow> (CommandType \<times> int) list" where
  "delay_row tm cmd = (\<lambda>(i, j, k).
     let t = cmd_type cmd in
     if t \<in> {REFab, RFMab, SREF_ENTER, SREF_EXIT} then (if i = Rank cmd then same_rank tm t else [])
     else if t \<in> {REFsb, RFMsb} then
       (if k \<noteq> Bank cmd then other_banksets tm t else if i = Rank cmd then same_bankset tm t else [])
     else if i \<noteq> Rank cmd then other_ranks tm t
     else if j \<noteq> Bankgroup cmd then other_bankgroups_same_rank tm t
     else if k \<noteq> Bank cmd then other_banks_same_bankgroup tm t
     else same_bank tm t)"

definition tables_ok :: "Timing \<Rightarrow> bool" where
  "tables_ok tm \<longleftrightarrow> (\<forall>t. table_row_ok (same_bank tm t) \<and> table_row_ok (other_banks_same_bankgroup tm t) \<and>
     table_row_ok (other_bankgroups_same_rank tm t) \<and> table_row_ok (other_ranks tm t) \<and>
     table_row_ok (same_rank tm t) \<and> table_row_ok (same_bankset tm t) \<and> table_row_ok (other_banksets tm t))"

text \<open>A channel whose banks have a full vector of issue times.\<close>

definition timing_wf :: "Config \<Rightarrow> ChannelState \<Rightarrow> bool" where
  "timing_wf c ch \<longleftrightarrow> chan_shape c ch \<and> (\<forall>x. in_channel c x \<longrightarrow> length (cmd_timing (bk ch x)) = 16)"

text \<open>Two states that differ in the banks only, the second with the issue times raised.\<close>

definition raised_by ::
  "Config \<Rightarrow> (coord \<Rightarrow> (CommandType \<times> int) list) \<Rightarrow> u64 \<Rightarrow> ChannelState \<Rightarrow> ChannelState \<Rightarrow> bool" where
  "raised_by c f clk ch ch' \<longleftrightarrow>
     (\<forall>x. in_channel c x \<longrightarrow> bk ch' x = raise_timing (f x) clk (bk ch x)) \<and>
     ch'\<lparr>bank_states := []\<rparr> = ch\<lparr>bank_states := []\<rparr> \<and> timing_wf c ch'"

lemma raised_by_refl: "timing_wf c ch \<Longrightarrow> raised_by c (\<lambda>x. []) clk ch ch"
  by (simp add: raised_by_def)

lemma raise_timing_append: "raise_timing m clk (raise_timing l clk b) = raise_timing (l @ m) clk b"
  by (simp add: raise_timing_def)

lemma raised_by_trans:
  assumes "raised_by c f clk ch ch'" and "raised_by c g clk ch' ch''"
  shows "raised_by c (\<lambda>x. f x @ g x) clk ch ch''"
  using assms by (simp add: raised_by_def raise_timing_append)

lemma put_bank_frame: "(put_bank x b ch)\<lparr>bank_states := []\<rparr> = ch\<lparr>bank_states := []\<rparr>"
  by (simp add: put_bank_def case_prod_unfold)

lemma delay_banks_raises:
  assumes "timing_wf c ch" and "table_row_ok l" and "distinct xs" and "\<forall>x \<in> set xs. in_channel c x"
  shows "succeeds (delay_banks l clk xs ch) (raised_by c (\<lambda>x. if x \<in> set xs then l else []) clk ch)"
proof (cases "l = []")
  case True
  then show ?thesis using assms(1) by (simp add: delay_banks_def raised_by_def)
next
  case False
  have "succeeds (fold_res (\<lambda>(i, j, k) ch.
        bind_res (get_bank ch i j k) (\<lambda>b. bind_res (apply_timing l clk b) (\<lambda>b. set_bank i j k b ch))) xs ch)
      (raised_by c (\<lambda>x. if x \<in> set xs then l else []) clk ch)"
    using assms(1,3,4)
  proof (induction xs arbitrary: ch)
    case Nil
    then show ?case by (simp add: raised_by_def)
  next
    case (Cons x xs)
    obtain i j k where x: "x = (i, j, k)" by (cases x) auto
    have inx: "in_channel c (i, j, k)" using Cons.prems(3) by (simp add: x)
    have wf: "chan_shape c ch" "length (cmd_timing (bk ch (i, j, k))) = 16"
      using Cons.prems(1) inx by (auto simp: timing_wf_def)
    let ?ch = "put_bank x (raise_timing l clk (bk ch x)) ch"
    have wf': "timing_wf c ?ch"
      using Cons.prems(1) inx by (auto simp: timing_wf_def x bk_put)
    have IH: "succeeds (fold_res (\<lambda>(i, j, k) ch.
          bind_res (get_bank ch i j k) (\<lambda>b. bind_res (apply_timing l clk b) (\<lambda>b. set_bank i j k b ch))) xs ?ch)
        (raised_by c (\<lambda>y. if y \<in> set xs then l else []) clk ?ch)"
      by (rule Cons.IH [OF wf']) (use Cons.prems in auto)
    have "raised_by c (\<lambda>y. if y \<in> set (x # xs) then l else []) clk ch ch'"
      if "raised_by c (\<lambda>y. if y \<in> set xs then l else []) clk ?ch ch'" for ch'
      using that Cons.prems(2) inx wf(1) by (auto simp: raised_by_def bk_put put_bank_frame x)
    from succeeds_mono [OF IH this] show ?case
      using wf inx assms(2) by (simp add: x get_bank_ok set_bank_ok apply_timing_eq)
  qed
  then show ?thesis using False by (simp add: delay_banks_def)
qed

section \<open>Well-formed channels\<close>

definition geom_wf :: "Config \<Rightarrow> bool" where
  "geom_wf c \<longleftrightarrow> 0 < ranks c \<and> 0 < bankgroups c \<and> 0 < banks_per_group c \<and>
     banks c = bankgroups c * banks_per_group c"

text \<open>Every bank is well formed, and the self-refresh flag of a rank says what its banks are in.\<close>

definition chan_wf :: "Config \<Rightarrow> int \<Rightarrow> ChannelState \<Rightarrow> bool" where
  "chan_wf c nr ch \<longleftrightarrow>
     chan_shape c ch \<and> (\<forall>x. in_channel c x \<longrightarrow> bank_wf c (bk ch x)) \<and> shared_wf nr (shared ch) \<and>
     (\<forall>i j k. in_channel c (i, j, k) \<longrightarrow> (bank_state (bk ch (i, j, k)) = SREF) = rank_is_sref ch ! nat i)"

definition addr_ok :: "Config \<Rightarrow> Command \<Rightarrow> bool" where
  "addr_ok c cmd \<longleftrightarrow> 0 \<le> Rank cmd \<and> Rank cmd < ranks c \<and>
     (\<not> IsRankCMD cmd \<longrightarrow> 0 \<le> Bank cmd \<and> Bank cmd < banks_per_group c) \<and>
     (\<not> IsRankCMD cmd \<and> \<not> IsSbCMD cmd \<longrightarrow> 0 \<le> Bankgroup cmd \<and> Bankgroup cmd < bankgroups c)"

lemma chan_wf_timing: "chan_wf c nr ch \<Longrightarrow> timing_wf c ch"
  by (simp add: chan_wf_def timing_wf_def bank_wf_def)

lemma bank_wf_raise: "bank_wf c b \<Longrightarrow> bank_wf c (raise_timing l clk b)"
  by (simp add: bank_wf_def raise_timing_def)

lemma raised_by_wf:
  assumes "raised_by c f clk ch ch'" and "chan_wf c nr ch"
  shows "chan_wf c nr ch'"
proof -
  have "ch'\<lparr>bank_states := []\<rparr> = ch\<lparr>bank_states := []\<rparr>" using assms(1) by (simp add: raised_by_def)
  then have "rank_is_sref ch' = rank_is_sref ch" "shared ch' = shared ch"
    by (metis ChannelState.select_convs(2,11) ChannelState.surjective ChannelState.update_convs(3))+
  then show ?thesis
    using assms by (auto simp: chan_wf_def raised_by_def timing_wf_def intro: bank_wf_raise)
qed

text \<open>The alerts change the alert and the statistics only.\<close>

definition same_chan :: "ChannelState \<Rightarrow> ChannelState \<Rightarrow> bool" where
  "same_chan ch ch' \<longleftrightarrow> bank_states ch' = bank_states ch \<and> rank_is_sref ch' = rank_is_sref ch \<and>
     refresh_q ch' = refresh_q ch \<and> rfm_q ch' = rfm_q ch \<and> four_aw ch' = four_aw ch \<and>
     thirty_two_aw ch' = thirty_two_aw ch \<and> num_acts_abo ch' = num_acts_abo ch \<and>
     same_shared (shared ch) (shared ch')"

lemma same_chan_refl [simp]: "same_chan ch ch"
  by (simp add: same_chan_def)

lemma same_chan_trans: "same_chan a b \<Longrightarrow> same_chan b d \<Longrightarrow> same_chan a d"
  by (auto simp: same_chan_def intro: same_shared_trans)

lemma same_chan_bk: "same_chan ch ch' \<Longrightarrow> bk ch' = bk ch"
  by (simp add: same_chan_def bk_def fun_eq_iff)

lemma same_chan_wf: "same_chan ch ch' \<Longrightarrow> chan_wf c nr ch \<Longrightarrow> chan_wf c nr ch'"
  using same_chan_bk [of ch ch']
  by (auto simp: same_chan_def chan_wf_def chan_shape_def intro: same_shared_wf)

lemma CheckAlert_succeeds:
  "tracker_wf c b \<Longrightarrow> succeeds (BankState_CheckAlert c (b, sh)) (\<lambda>(_, sh'). same_shared sh sh')"
  by (simp add: BankState_CheckAlert_def wp tracker_wf_def)

lemma check_bank_alert_succeeds:
  assumes "chan_wf c nr ch" and "in_channel c x"
  shows "succeeds (check_bank_alert c clk x ch) (same_chan ch)"
proof -
  obtain i j k where x: "x = (i, j, k)" by (cases x) auto
  have "tracker_wf c (bk ch (i, j, k))" "get_bank ch i j k = Inr (bk ch (i, j, k))"
    using assms by (auto simp: chan_wf_def bank_wf_def x get_bank_ok)
  then show ?thesis
    using CheckAlert_succeeds [of c "bk ch (i, j, k)" "shared ch"]
    by (auto simp: check_bank_alert_def x same_chan_def elim!: succeeds_mono)
qed

lemma TriggerSameBankAlert_succeeds:
  assumes "chan_wf c nr ch" and "in_channel c (Rank cmd, Bankgroup cmd, Bank cmd)"
  shows "succeeds (TriggerSameBankAlert c cmd clk ch) (same_chan ch)"
  using check_bank_alert_succeeds [OF assms] by (simp add: TriggerSameBankAlert_def)

lemma TriggerSameRankAlert_succeeds:
  assumes "chan_wf c nr ch" and "0 \<le> Rank cmd" and "Rank cmd < ranks c"
  shows "succeeds (TriggerSameRankAlert c cmd clk ch) (same_chan ch)"
proof -
  have "succeeds (if alert_n ch1 then Inr ch1 else check_bank_alert c clk x ch1) (same_chan ch)"
    if "x \<in> set (rank_coords c (Rank cmd))" and "same_chan ch ch1" for x ch1
  proof -
    have "in_channel c x" using that(1) assms(2,3) by (rule_tac rank_coords_in_channel)
    from check_bank_alert_succeeds [OF same_chan_wf [OF that(2) assms(1)] this, of clk] show ?thesis
      using that(2) by (auto intro: same_chan_trans elim!: succeeds_mono)
  qed
  then show ?thesis
    by (auto simp: TriggerSameRankAlert_def intro!: fold_res_succeeds [of "same_chan ch"])
qed

text \<open>What a timing update promises: the banks get their delay rows and stay well formed.\<close>

definition banks_delayed ::
  "Config \<Rightarrow> int \<Rightarrow> (coord \<Rightarrow> (CommandType \<times> int) list) \<Rightarrow> u64 \<Rightarrow> ChannelState \<Rightarrow> ChannelState \<Rightarrow> bool" where
  "banks_delayed c nr f clk ch ch' \<longleftrightarrow> chan_wf c nr ch' \<and>
     (\<forall>x. in_channel c x \<longrightarrow> bk ch' x = raise_timing (f x) clk (bk ch x))"

lemma banks_delayed_refl: "chan_wf c nr ch \<Longrightarrow> banks_delayed c nr (\<lambda>x. []) clk ch ch"
  by (simp add: banks_delayed_def)

lemma banks_delayed_trans:
  "banks_delayed c nr f clk a b \<Longrightarrow> banks_delayed c nr g clk b d \<Longrightarrow>
     banks_delayed c nr (\<lambda>x. f x @ g x) clk a d"
  by (simp add: banks_delayed_def raise_timing_append)

lemma delay_banks_delays:
  assumes "chan_wf c nr ch" and "table_row_ok l" and "distinct xs" and "\<forall>x \<in> set xs. in_channel c x"
  shows "succeeds (delay_banks l clk xs ch) (banks_delayed c nr (\<lambda>x. if x \<in> set xs then l else []) clk ch)"
  by (rule succeeds_mono [OF delay_banks_raises [OF chan_wf_timing]])
    (use assms in \<open>auto simp: banks_delayed_def raised_by_def intro: raised_by_wf [unfolded raised_by_def]\<close>)

lemma delay_banks_step:
  assumes "banks_delayed c nr f clk ch0 ch" and "table_row_ok l" and "distinct xs"
    and "\<forall>x \<in> set xs. in_channel c x"
  shows "succeeds (delay_banks l clk xs ch)
    (banks_delayed c nr (\<lambda>x. f x @ (if x \<in> set xs then l else [])) clk ch0)"
proof -
  have "chan_wf c nr ch" using assms(1) by (simp add: banks_delayed_def)
  from delay_banks_delays [OF this assms(2-4)] show ?thesis
    by (rule succeeds_mono) (rule banks_delayed_trans [OF assms(1)])
qed

lemma tables_okD:
  assumes "tables_ok tm"
  shows "table_row_ok (same_bank tm t)" "table_row_ok (other_banks_same_bankgroup tm t)"
    "table_row_ok (other_bankgroups_same_rank tm t)" "table_row_ok (other_ranks tm t)"
    "table_row_ok (same_rank tm t)" "table_row_ok (same_bankset tm t)" "table_row_ok (other_banksets tm t)"
  using assms by (simp_all add: tables_ok_def)

text \<open>The coordinates each of the loops visits.\<close>

lemma loop_coords:
  assumes "in_channel c (i, j, k)"
  shows "set (filter (\<lambda>(i', j', k'). k' \<noteq> k) (map (\<lambda>k'. (i, j, k')) [0..banks_per_group c - 1])) =
      {(i, j, k') | k'. in_channel c (i, j, k') \<and> k' \<noteq> k}"
    and "set (filter (\<lambda>(i', j', k'). j' \<noteq> j) (rank_coords c i)) =
      {(i, j', k') | j' k'. in_channel c (i, j', k') \<and> j' \<noteq> j}"
    and "set (filter (\<lambda>(i', j', k'). i' \<noteq> i) (channel_coords c)) =
      {(i', j', k') | i' j' k'. in_channel c (i', j', k') \<and> i' \<noteq> i}"
  using assms by (auto simp: in_channel_def set_rank_coords set_channel_coords)

lemma loop_distinct:
  "distinct (filter (\<lambda>(i', j', k'). k' \<noteq> k) (map (\<lambda>k'. (i, j, k')) [0..banks_per_group c - 1]))"
  by (simp add: distinct_map inj_on_def)

lemma bank_command_timing_delays:
  assumes wf: "chan_wf c nr ch" and ok: "tables_ok tm"
    and x: "in_channel c (Rank cmd, Bankgroup cmd, Bank cmd)"
  shows "succeeds (bank_command_timing c tm cmd clk ch) (banks_delayed c nr (\<lambda>(i, j, k).
    if i \<noteq> Rank cmd then other_ranks tm (cmd_type cmd)
    else if j \<noteq> Bankgroup cmd then other_bankgroups_same_rank tm (cmd_type cmd)
    else if k \<noteq> Bank cmd then other_banks_same_bankgroup tm (cmd_type cmd)
    else same_bank tm (cmd_type cmd)) clk ch)"
proof -
  note co = loop_coords [OF x]
  have s1: "succeeds (UpdateSameBankTiming c (addr cmd) (same_bank tm (cmd_type cmd)) clk ch)
      (banks_delayed c nr (\<lambda>y. [] @ (if y \<in> set [(Rank cmd, Bankgroup cmd, Bank cmd)]
         then same_bank tm (cmd_type cmd) else [])) clk ch)"
    unfolding UpdateSameBankTiming_def
    by (rule delay_banks_step [OF banks_delayed_refl [OF wf] tables_okD(1) [OF ok]]) (use x in auto)
  have s2: "succeeds (UpdateOtherBanksSameBankgroupTiming c (addr cmd)
        (other_banks_same_bankgroup tm (cmd_type cmd)) clk ch1)
      (banks_delayed c nr (\<lambda>y. f y @ (if y \<in> {(Rank cmd, Bankgroup cmd, k) | k.
           in_channel c (Rank cmd, Bankgroup cmd, k) \<and> k \<noteq> Bank cmd}
         then other_banks_same_bankgroup tm (cmd_type cmd) else [])) clk ch)"
    if "banks_delayed c nr f clk ch ch1" for f ch1
    unfolding UpdateOtherBanksSameBankgroupTiming_def co(1) [symmetric]
    by (rule delay_banks_step [OF that tables_okD(2) [OF ok] loop_distinct]) (unfold co(1), blast)
  have s3: "succeeds (UpdateOtherBankgroupsSameRankTiming c (addr cmd)
        (other_bankgroups_same_rank tm (cmd_type cmd)) clk ch1)
      (banks_delayed c nr (\<lambda>y. f y @ (if y \<in> {(Rank cmd, j, k) | j k.
           in_channel c (Rank cmd, j, k) \<and> j \<noteq> Bankgroup cmd}
         then other_bankgroups_same_rank tm (cmd_type cmd) else [])) clk ch)"
    if "banks_delayed c nr f clk ch ch1" for f ch1
    unfolding UpdateOtherBankgroupsSameRankTiming_def co(2) [symmetric]
    by (rule delay_banks_step [OF that tables_okD(3) [OF ok] distinct_filter [OF distinct_rank_coords]])
      (unfold co(2), blast)
  have s4: "succeeds (UpdateOtherRanksTiming c (addr cmd) (other_ranks tm (cmd_type cmd)) clk ch1)
      (banks_delayed c nr (\<lambda>y. f y @ (if y \<in> {(i, j, k) | i j k. in_channel c (i, j, k) \<and> i \<noteq> Rank cmd}
         then other_ranks tm (cmd_type cmd) else [])) clk ch)"
    if "banks_delayed c nr f clk ch ch1" for f ch1
    unfolding UpdateOtherRanksTiming_def co(3) [symmetric]
    by (rule delay_banks_step [OF that tables_okD(4) [OF ok] distinct_filter [OF distinct_channel_coords]])
      (unfold co(3), blast)
  show ?thesis
    unfolding bank_command_timing_def
    by (rule succeeds_bindI [OF s1], rule succeeds_bindI [OF s2], assumption,
        rule succeeds_bindI [OF s3], assumption, rule succeeds_mono [OF s4], assumption)
      (auto simp: banks_delayed_def in_channel_def)
qed

text \<open>The constructor never puts a delay on the placeholder command type.\<close>

lemma table_row_ok_simps [simp]:
  "table_row_ok []" "table_row_ok (e # l) \<longleftrightarrow> fst e \<noteq> CMD_SIZE \<and> table_row_ok l"
  "table_row_ok (l @ m) \<longleftrightarrow> table_row_ok l \<and> table_row_ok m"
  by (auto simp: table_row_ok_def)

lemma table_row_ok_promoted: "table_row_ok l \<Longrightarrow> table_row_ok (concat (map promoted_entry l))"
  by (auto simp: table_row_ok_def promoted_entry_def split: if_splits)

abbreviation tvec_ok :: "TVEC \<Rightarrow> bool" where
  "tvec_ok tv \<equiv> \<forall>t. table_row_ok (tv t)"

lemma tvec_ok_copy_all: "tvec_ok tv \<Longrightarrow> tvec_ok (copy_all tv)"
  by (simp add: copy_all_def copy_timing_data_internal_def copy_timing_data_external_def Let_def
      table_row_ok_promoted)

lemma table_row_ok_set_first: "table_row_ok l \<Longrightarrow> table_row_ok (set_first t d l)"
  by (induction l) auto

lemma tvec_ok_find_and_set: "tvec_ok tv \<Longrightarrow> tvec_ok (find_and_set k t d tv)"
  by (simp add: find_and_set_def table_row_ok_set_first)

lemma tvec_ok_promote: "tvec_ok tv \<Longrightarrow> tvec_ok (promote_same_bank c tv)"
  unfolding promote_same_bank_def Let_def fold_simps id_apply
  by (intro tvec_ok_find_and_set)

lemma tvec_ok_init:
  "tvec_ok (init_same_bank c)" "tvec_ok (init_other_banks_same_bankgroup c)"
  "tvec_ok (init_other_bankgroups_same_rank c)" "tvec_ok (init_other_ranks c)" "tvec_ok (init_same_rank c)"
  "tvec_ok (init_same_bankset c)" "tvec_ok (init_other_banksets c)"
  by (simp_all add: timing_init_defs split: CommandType.split)

lemma tables_ok_new_Timing: "tables_ok (new_Timing c)"
  using tvec_ok_init [of c]
  by (simp add: tables_ok_def new_Timing_def tvec_ok_copy_all tvec_ok_promote)

section \<open>Construction\<close>

text \<open>A loop that collects the objects it constructs.\<close>

lemma fold_res_collect:
  assumes "I s" and "\<And>x s. x \<in> set xs \<Longrightarrow> I s \<Longrightarrow> succeeds (f x s) (\<lambda>(y, s'). P y \<and> I s')"
  shows "succeeds (fold_res (\<lambda>x (ys, s). bind_res (f x s) (\<lambda>(y, s). Inr (ys @ [y], s))) xs ([], s))
    (\<lambda>(ys, s'). length ys = length xs \<and> (\<forall>y \<in> set ys. P y) \<and> I s')"
proof -
  have "succeeds (fold_res (\<lambda>x (ys, s). bind_res (f x s) (\<lambda>(y, s). Inr (ys @ [y], s))) xs (ys0, s))
      (\<lambda>(ys, s'). length ys = length ys0 + length xs \<and> (\<forall>y \<in> set ys. P y) \<and> I s')"
    if "\<forall>y \<in> set ys0. P y" for ys0
    using assms that
  proof (induction xs arbitrary: ys0 s)
    case Nil
    then show ?case by simp
  next
    case (Cons x xs)
    have "succeeds (f x s) (\<lambda>(y, s'). P y \<and> I s')" using Cons.prems by simp
    then obtain y s' where "f x s = Inr (y, s')" "P y" "I s'" by (auto elim!: succeedsE)
    then show ?case
      using Cons.IH [of s' "ys0 @ [y]"] Cons.prems by auto
  qed
  from this [of "[]"] show ?thesis by simp
qed

text \<open>A bank as its constructor leaves it.\<close>

definition fresh_bank :: "Config \<Rightarrow> BankState \<Rightarrow> bool" where
  "fresh_bank c b \<longleftrightarrow> bank_wf c b \<and> bank_state b = CLOSED \<and> int (length (total_row_acts b)) = rows c \<and>
     acts_counter b = 0 \<and> raa_ctr b = 0 \<and> cmd_timing b = replicate 16 0"

lemma new_BankState_fresh:
  assumes "cfg_wf c" and "shared_wf nr sh"
  shows "succeeds (new_BankState c m i j k sh) (\<lambda>(b, sh'). fresh_bank c b \<and> shared_wf nr sh')"
  using assms
  by (auto simp: new_BankState_def wp Let_def cfg_wf_def to_u64_pos fresh_bank_def bank_wf_def tracker_wf_def
      shared_wf_def)

definition fresh_channel :: "Config \<Rightarrow> ChannelState \<Rightarrow> bool" where
  "fresh_channel c ch \<longleftrightarrow> (\<forall>x. in_channel c x \<longrightarrow> fresh_bank c (bk ch x)) \<and>
     four_aw ch = replicate (nat (ranks c)) [] \<and> thirty_two_aw ch = replicate (nat (ranks c)) [] \<and>
     rank_is_sref ch = replicate (nat (ranks c)) False \<and> \<not> alert_n ch \<and> refresh_q ch = [] \<and> rfm_q ch = []"

lemma new_ChannelState_fresh:
  assumes "cfg_wf c" and "geom_wf c" and "shared_wf nr sh"
  shows "succeeds (new_ChannelState c m sh) (\<lambda>ch. chan_wf c nr ch \<and> fresh_channel c ch)"
proof -
  let ?grp = "\<lambda>g. int (length g) = banks_per_group c \<and> (\<forall>b \<in> set g. fresh_bank c b)"
  let ?rank = "\<lambda>r. int (length r) = bankgroups c \<and> (\<forall>g \<in> set r. ?grp g)"
  have grp: "succeeds (new_bank_row c m i j s) (\<lambda>(g, s'). ?grp g \<and> shared_wf nr s')" if "shared_wf nr s" for i j s
    unfolding new_bank_row_def
    by (rule succeeds_mono [OF fold_res_collect [where I = "shared_wf nr" and P = "fresh_bank c"]])
      (use that assms(2) new_BankState_fresh [OF assms(1)] in \<open>auto simp: geom_wf_def\<close>)
  have rank: "succeeds (new_rank_states c m i s) (\<lambda>(r, s'). ?rank r \<and> shared_wf nr s')" if "shared_wf nr s" for i s
    unfolding new_rank_states_def
    by (rule succeeds_mono [OF fold_res_collect [where I = "shared_wf nr" and P = ?grp]])
      (use that assms(2) grp in \<open>auto simp: geom_wf_def\<close>)
  have "fresh_bank c (bs ! nat i ! nat j ! nat k)"
    if bs: "int (length bs) = ranks c" "\<forall>r \<in> set bs. ?rank r" and x: "in_channel c (i, j, k)" for bs i j k
  proof -
    have "nat i < length bs" using x bs(1) by (auto simp: in_channel_def)
    then have r: "?rank (bs ! nat i)" using bs(2) nth_mem by blast
    then have "nat j < length (bs ! nat i)" using x by (auto simp: in_channel_def)
    then have g: "?grp (bs ! nat i ! nat j)" using r nth_mem by blast
    then have "nat k < length (bs ! nat i ! nat j)" using x by (auto simp: in_channel_def)
    then show ?thesis using g by simp
  qed
  then have "chan_wf c nr ch \<and> fresh_channel c ch"
    if "int (length bs) = ranks c" "\<forall>r \<in> set bs. ?rank r" "shared_wf nr s"
      "ch = \<lparr>rank_idle_cycles = replicate (nat (ranks c)) 0, rank_is_sref = replicate (nat (ranks c)) False,
         bank_states = bs, refresh_q = [], rfm_q = [], four_aw = replicate (nat (ranks c)) [],
         thirty_two_aw = replicate (nat (ranks c)) [], alert_n = False, last_alert_clk = 0, num_acts_abo = 0, shared = s\<rparr>"
    for bs s ch
    using that assms(2)
    by (auto simp: chan_wf_def chan_shape_def bk_def geom_wf_def in_channel_def fresh_channel_def fresh_bank_def)
  then show ?thesis
    unfolding new_ChannelState_def
    by (intro succeeds_bindI [OF fold_res_collect [where I = "shared_wf nr" and P = ?rank]])
      (use assms(2,3) rank in \<open>auto simp: geom_wf_def\<close>)
qed

section \<open>The timing update as a table lookup\<close>

lemma UpdateActivationTimes_succeeds:
  assumes "chan_wf c nr ch" and "0 \<le> i" and "i < ranks c"
  shows "succeeds (UpdateActivationTimes c i t ch) (\<lambda>ch'. chan_wf c nr ch' \<and> bk ch' = bk ch)"
  using assms
  by (auto simp: UpdateActivationTimes_def wp Let_def chan_wf_def chan_shape_def)

lemma chan_wf_updates [simp]:
  "chan_wf c nr (ch\<lparr>num_acts_abo := n\<rparr>) = chan_wf c nr ch"
  "chan_wf c nr (ch\<lparr>refresh_q := q\<rparr>) = chan_wf c nr ch" "chan_wf c nr (ch\<lparr>rfm_q := q\<rparr>) = chan_wf c nr ch"
  "chan_wf c nr (ch\<lparr>alert_n := a\<rparr>) = chan_wf c nr ch"
  by (simp_all add: chan_wf_def)

lemma banks_delayed_from: "bk ch1 = bk ch \<Longrightarrow> banks_delayed c nr f clk ch1 = banks_delayed c nr f clk ch"
  by (simp add: banks_delayed_def fun_eq_iff)

text \<open>The three classes of commands, from any state with the same banks.\<close>

abbreviation bank_class :: "CommandType \<Rightarrow> bool" where
  "bank_class t \<equiv> t \<notin> {REFab, RFMab, SREF_ENTER, SREF_EXIT, REFsb, RFMsb}"

lemma bank_class_delays:
  assumes "chan_wf c nr ch1" and "bk ch1 = bk ch" and "tables_ok tm"
    and "bank_class (cmd_type cmd)" and "in_channel c (Rank cmd, Bankgroup cmd, Bank cmd)"
  shows "succeeds (bank_command_timing c tm cmd clk ch1) (banks_delayed c nr (delay_row tm cmd) clk ch)"
proof -
  have "delay_row tm cmd = (\<lambda>(i, j, k).
      if i \<noteq> Rank cmd then other_ranks tm (cmd_type cmd)
      else if j \<noteq> Bankgroup cmd then other_bankgroups_same_rank tm (cmd_type cmd)
      else if k \<noteq> Bank cmd then other_banks_same_bankgroup tm (cmd_type cmd)
      else same_bank tm (cmd_type cmd))"
    using assms(4) by (simp add: delay_row_def Let_def)
  then show ?thesis
    using bank_command_timing_delays [OF assms(1,3,5), of clk] banks_delayed_from [OF assms(2)] by simp
qed

lemma rank_class_delays:
  assumes "chan_wf c nr ch1" and "bk ch1 = bk ch" and "tables_ok tm"
    and "cmd_type cmd \<in> {REFab, RFMab, SREF_ENTER, SREF_EXIT}" and "0 \<le> Rank cmd" and "Rank cmd < ranks c"
  shows "succeeds (UpdateSameRankTiming c (addr cmd) (same_rank tm (cmd_type cmd)) clk ch1)
    (banks_delayed c nr (delay_row tm cmd) clk ch)"
  unfolding UpdateSameRankTiming_def
proof (rule succeeds_mono [OF delay_banks_delays [OF assms(1) tables_okD(5) [OF assms(3)] distinct_rank_coords]])
  show "\<forall>x \<in> set (rank_coords c (Rank cmd)). in_channel c x"
    using assms(5,6) by (blast intro: rank_coords_in_channel)
next
  fix ch' assume "banks_delayed c nr (\<lambda>x. if x \<in> set (rank_coords c (Rank cmd)) then same_rank tm (cmd_type cmd) else [])
    clk ch1 ch'"
  then show "banks_delayed c nr (delay_row tm cmd) clk ch ch'"
    using assms(2,4) by (auto simp: banks_delayed_def delay_row_def set_rank_coords in_channel_def)
qed

lemma set_class_delays:
  assumes "chan_wf c nr ch1" and "bk ch1 = bk ch" and "tables_ok tm"
    and "cmd_type cmd \<in> {REFsb, RFMsb}" and "0 \<le> Rank cmd" and "Rank cmd < ranks c"
    and "0 \<le> Bank cmd" and "Bank cmd < banks_per_group c"
  shows "succeeds (bind_res (UpdateSameBankset c (addr cmd) (same_bankset tm (cmd_type cmd)) clk ch1)
      (UpdateOtherBanksets c (addr cmd) (other_banksets tm (cmd_type cmd)) clk))
    (banks_delayed c nr (delay_row tm cmd) clk ch)"
  unfolding UpdateSameBankset_def UpdateOtherBanksets_def
proof (rule succeeds_bindI [OF delay_banks_delays [OF assms(1) tables_okD(6) [OF assms(3)] distinct_bankset_coords]])
  show "\<forall>x \<in> set (bankset_coords c (Rank cmd) (Bank cmd)). in_channel c x"
    using assms(5-8) by (blast intro: bankset_coords_in_channel)
next
  fix ch2 assume d: "banks_delayed c nr (\<lambda>x. if x \<in> set (bankset_coords c (Rank cmd) (Bank cmd))
    then same_bankset tm (cmd_type cmd) else []) clk ch1 ch2"
  show "succeeds (delay_banks (other_banksets tm (cmd_type cmd)) clk
      (filter (\<lambda>(i, j, k). k \<noteq> Bank cmd) (channel_coords c)) ch2) (banks_delayed c nr (delay_row tm cmd) clk ch)"
    by (rule succeeds_mono [OF delay_banks_step [OF d tables_okD(7) [OF assms(3)]
            distinct_filter [OF distinct_channel_coords]]])
      (use assms(2,4) in \<open>auto simp: banks_delayed_def delay_row_def set_bankset_coords
         set_channel_coords in_channel_def\<close>)
qed

lemma bank_alert_then_delays:
  assumes "chan_wf c nr ch1" and "bk ch1 = bk ch" and "tables_ok tm"
    and "bank_class (cmd_type cmd)" and "in_channel c (Rank cmd, Bankgroup cmd, Bank cmd)"
  shows "succeeds (bind_res (TriggerSameBankAlert c cmd clk ch1) (bank_command_timing c tm cmd clk))
    (banks_delayed c nr (delay_row tm cmd) clk ch)"
  by (rule succeeds_bindI [OF TriggerSameBankAlert_succeeds [OF assms(1,5)]])
    (rule bank_class_delays, use assms same_chan_wf same_chan_bk in auto)

lemma rank_alert_keeps_banks:
  assumes "chan_wf c nr ch1" and "bk ch1 = bk ch" and "0 \<le> Rank cmd" and "Rank cmd < ranks c"
  shows "succeeds (TriggerSameRankAlert c cmd clk ch1) (\<lambda>ch2. chan_wf c nr ch2 \<and> bk ch2 = bk ch)"
  by (rule succeeds_mono [OF TriggerSameRankAlert_succeeds [OF assms(1,3,4)]])
    (use assms same_chan_wf same_chan_bk in auto)

lemma UpdateTiming_delays:
  assumes "chan_wf c nr ch" and "tables_ok tm" and "addr_ok c cmd" and "IsValid cmd"
  shows "succeeds (ChannelState_UpdateTiming c tm cmd clk ch) (banks_delayed c nr (delay_row tm cmd) clk ch)"
proof -
  have ra: "0 \<le> Rank cmd" "Rank cmd < ranks c" using assms(3) by (auto simp: addr_ok_def)
  have x: "in_channel c (Rank cmd, Bankgroup cmd, Bank cmd)" if "bank_class (cmd_type cmd)"
    using that assms(3) by (auto simp: addr_ok_def in_channel_def IsRankCMD_def IsSbCMD_def)
  note bank_path = bank_alert_then_delays [OF _ _ assms(2) _ x]
    and rank_alert = rank_alert_keeps_banks [OF _ _ ra]
  consider (act) "cmd_type cmd = ACTIVATE"
    | (pre) "cmd_type cmd \<in> {READ_PRECHARGE, READ_PRECHARGE2, WRITE_PRECHARGE, WRITE_PRECHARGE2, PRECHARGE, PRECHARGE2}"
    | (col) "cmd_type cmd \<in> {READ, WRITE, REFRESH_BANK}" | (rk) "cmd_type cmd \<in> {RFMab, REFab}"
    | (sr) "cmd_type cmd \<in> {SREF_ENTER, SREF_EXIT}" | (st) "cmd_type cmd \<in> {REFsb, RFMsb}"
    using assms(4) by (cases "cmd_type cmd") (auto simp: IsValid_def)
  then show ?thesis
  proof cases
    case act
    have "succeeds (UpdateActivationTimes c (Rank cmd) clk (ch\<lparr>num_acts_abo := num_acts_abo ch + 1\<rparr>))
        (\<lambda>ch1. chan_wf c nr ch1 \<and> bk ch1 = bk ch)"
      using UpdateActivationTimes_succeeds [of c nr "ch\<lparr>num_acts_abo := num_acts_abo ch + 1\<rparr>" "Rank cmd"] assms(1) ra
      by simp
    then have "succeeds (bind_res (UpdateActivationTimes c (Rank cmd) clk (ch\<lparr>num_acts_abo := num_acts_abo ch + 1\<rparr>))
        (\<lambda>ch. bind_res (TriggerSameBankAlert c cmd clk ch) (bank_command_timing c tm cmd clk)))
        (banks_delayed c nr (delay_row tm cmd) clk ch)"
      by (rule succeeds_bindI) (use bank_path act in simp)
    then show ?thesis using act by (simp add: ChannelState_UpdateTiming_def)
  next
    case pre
    then show ?thesis using bank_path [OF assms(1) refl] by (auto simp: ChannelState_UpdateTiming_def)
  next
    case col
    then show ?thesis
      using bank_class_delays [OF assms(1) refl assms(2) _ x] by (auto simp: ChannelState_UpdateTiming_def)
  next
    case rk
    have "succeeds (bind_res (TriggerSameRankAlert c cmd clk (if cmd_type cmd = RFMab then ch\<lparr>num_acts_abo := 0\<rparr> else ch))
        (UpdateSameRankTiming c (addr cmd) (same_rank tm (cmd_type cmd)) clk))
        (banks_delayed c nr (delay_row tm cmd) clk ch)"
      by (rule succeeds_bindI [OF rank_alert], use assms(1) in simp, simp)
        (rule rank_class_delays, use assms(2) ra rk in auto)
    then show ?thesis using rk by (auto simp: ChannelState_UpdateTiming_def)
  next
    case sr
    then show ?thesis
      using rank_class_delays [OF assms(1) refl assms(2) _ ra] by (auto simp: ChannelState_UpdateTiming_def)
  next
    case st
    then have ba: "0 \<le> Bank cmd" "Bank cmd < banks_per_group c"
      using assms(3) by (auto simp: addr_ok_def IsRankCMD_def)
    have "succeeds (bind_res (TriggerSameRankAlert c cmd clk ch) (\<lambda>ch.
        bind_res (UpdateSameBankset c (addr cmd) (same_bankset tm (cmd_type cmd)) clk ch)
          (UpdateOtherBanksets c (addr cmd) (other_banksets tm (cmd_type cmd)) clk)))
        (banks_delayed c nr (delay_row tm cmd) clk ch)"
      by (rule succeeds_bindI [OF rank_alert], use assms(1) in simp, simp)
        (rule set_class_delays, use assms(2) ra ba st in auto)
    then show ?thesis using st by (auto simp: ChannelState_UpdateTiming_def)
  qed
qed

text \<open>The update of the issue times after a command never faults, and it does to every bank of the
  channel exactly what the delay tables say for the position of the bank relative to the command: same
  bank, other bank of the group, other group of the rank, other rank, the rank of a rank-level command,
  or the bank set of a same-bank command.\<close>

lemma UpdateTiming_by_position:
  assumes "chan_wf c nr ch" and "tables_ok tm" and "addr_ok c cmd" and "IsValid cmd"
  shows "succeeds (ChannelState_UpdateTiming c tm cmd clk ch) (\<lambda>ch'. chan_wf c nr ch' \<and>
    (\<forall>x. in_channel c x \<longrightarrow> bk ch' x = raise_timing (delay_row tm cmd x) clk (bk ch x)))"
  by (rule succeeds_mono [OF UpdateTiming_delays [OF assms]]) (simp add: banks_delayed_def)

text \<open>The channel the constructor builds for the sample configuration.\<close>

definition sample_channel :: ChannelState where
  "sample_channel = (case new_ChannelState sample_Config 0 sample_Shared of Inr ch \<Rightarrow> ch)"

lemma sample_geom: "geom_wf sample_Config"
  by (simp add: geom_wf_def sample_Config_sel)

lemma sample_channel_eq: "new_ChannelState sample_Config 0 sample_Shared = Inr sample_channel"
  using new_ChannelState_fresh [OF sample_wf(1) sample_geom sample_wf(3), of 0]
  by (auto simp: sample_channel_def elim!: succeedsE)

lemma sample_channel_wf: "chan_wf sample_Config 2 sample_channel" "fresh_channel sample_Config sample_channel"
  using new_ChannelState_fresh [OF sample_wf(1) sample_geom sample_wf(3), of 0] sample_channel_eq by simp_all

text \<open>C32. A per-bank refresh imposes no wait on the refreshed bank itself: its issue times are the same
  after the command, although the constructor puts the per-bank refresh time \<open>tRFCb\<close> into a table (the
  one for the whole rank, which this command does not consult).\<close>

theorem refresh_bank_imposes_no_wait:
  assumes "chan_wf c nr ch" and "addr_ok c cmd" and "cmd_type cmd = REFRESH_BANK"
  shows "succeeds (ChannelState_UpdateTiming c (new_Timing c) cmd clk ch) (\<lambda>ch'.
      cmd_timing (bk ch' (Rank cmd, Bankgroup cmd, Bank cmd)) =
      cmd_timing (bk ch (Rank cmd, Bankgroup cmd, Bank cmd))) \<and>
    (ACTIVATE, tRFCb c) \<in> set (same_rank (new_Timing c) REFRESH_BANK)"
proof -
  have x: "in_channel c (Rank cmd, Bankgroup cmd, Bank cmd)" "IsValid cmd"
    using assms(2,3) by (auto simp: addr_ok_def in_channel_def IsRankCMD_def IsSbCMD_def IsValid_def)
  have "delay_row (new_Timing c) cmd (Rank cmd, Bankgroup cmd, Bank cmd) = []"
    using assms(3) by (simp add: delay_row_def)
  then have "succeeds (ChannelState_UpdateTiming c (new_Timing c) cmd clk ch) (\<lambda>ch'.
      cmd_timing (bk ch' (Rank cmd, Bankgroup cmd, Bank cmd)) = cmd_timing (bk ch (Rank cmd, Bankgroup cmd, Bank cmd)))"
    using x(1)
    by (intro succeeds_mono [OF UpdateTiming_delays [OF assms(1) tables_ok_new_Timing assms(2) x(2)]])
      (simp add: banks_delayed_def)
  then show ?thesis
    by (simp add: timing_build_defs timing_init_defs refresh_to_activate_bank_def)
qed

theorem refresh_bank_imposes_no_wait_witness:
  "succeeds (ChannelState_UpdateTiming sample_Config (new_Timing sample_Config)
       (mk_Command REFRESH_BANK (mk_Address 0 0 1 0 0 0) 0) 50 sample_channel)
     (\<lambda>ch'. cmd_timing (bk ch' (0, 1, 0)) = cmd_timing (bk sample_channel (0, 1, 0)))"
proof -
  let ?ref = "mk_Command REFRESH_BANK (mk_Address 0 0 1 0 0 0) 0"
  have "addr_ok sample_Config ?ref" by (simp add: addr_ok_def sample_Config_sel)
  from refresh_bank_imposes_no_wait [OF sample_channel_wf(1) this, of 50] show ?thesis by simp
qed

end
