(* ===== verification/Pending_Queue.thy ===== *)
theory Pending_Queue
  imports Channel_Timing
begin

text \<open>
  The queue of pending refresh-management commands as an interface: a request is queued once, and
  finishing it removes it.  Any sequence of requests and completions keeps the keys distinct and makes
  the queue a first-in first-out view of the set of outstanding requests.  \<open>RankNeedRFM\<close> and
  \<open>BanksetNeedRFM\<close> of \<open>channel_state.cc\<close> are its interpretations.
\<close>

locale pending_queue =
  fixes queue :: "'s \<Rightarrow> Command list"
    and key :: "Command \<Rightarrow> 'k"
    and need :: "'k \<Rightarrow> bool \<Rightarrow> 's \<Rightarrow> 's"
  assumes need_new: "k \<notin> key ` set (queue s) \<Longrightarrow> \<exists>q. key q = k \<and> queue (need k True s) = queue s @ [q]"
    and need_again: "k \<in> key ` set (queue s) \<Longrightarrow> queue (need k True s) = queue s"
    and need_done: "queue (need k False s) = erase_first (\<lambda>q. key q = k) (queue s)"
begin

definition serve :: "('k \<times> bool) list \<Rightarrow> 's \<Rightarrow> 's" where
  "serve ops s = fold (\<lambda>(k, v). need k v) ops s"

definition outstanding :: "('k \<times> bool) list \<Rightarrow> 'k set \<Rightarrow> 'k set" where
  "outstanding ops S = fold (\<lambda>(k, v) S. if v then insert k S else S - {k}) ops S"

lemma erase_keys:
  "distinct (map key qs) \<Longrightarrow> key ` set (erase_first (\<lambda>q. key q = k) qs) = key ` set qs - {k}"
  by (induction qs) (auto, metis image_eqI)

lemma need_step:
  assumes "distinct (map key (queue s))"
  shows "distinct (map key (queue (need k v s))) \<and>
    key ` set (queue (need k v s)) = (if v then insert k (key ` set (queue s)) else key ` set (queue s) - {k})"
proof (cases v)
  case True
  then show ?thesis
    using assms need_new [of k s] need_again [of k s] by (cases "k \<in> key ` set (queue s)") (auto simp: insert_absorb)
next
  case False
  then show ?thesis
    using assms by (simp add: need_done erase_keys distinct_map_erase_first)
qed

lemma serve_outstanding:
  assumes "distinct (map key (queue s))"
  shows "distinct (map key (queue (serve ops s))) \<and>
    key ` set (queue (serve ops s)) = outstanding ops (key ` set (queue s))"
  using assms
proof (induction ops arbitrary: s)
  case (Cons a ops)
  obtain k v where "a = (k, v)" by (cases a)
  then show ?case
    using Cons.IH [of "need k v s"] need_step [OF Cons.prems, of k v] by (simp add: serve_def outstanding_def)
qed (simp add: serve_def outstanding_def)

text \<open>A request that is not finished stays in front of those that came after it.\<close>

lemma front_stays:
  assumes "queue s = q # qs" and "key q \<noteq> k \<or> v"
  shows "\<exists>rs. queue (need k v s) = q # rs"
  using assms need_new [of k s] need_again [of k s] by (cases v; cases "k \<in> key ` set (queue s)") (auto simp: need_done)

end

interpretation rank_rfm: pending_queue rfm_q Rank RankNeedRFM
  by unfold_locales (auto simp: RankNeedRFM_def Let_def)

interpretation bankset_rfm: pending_queue rfm_q "\<lambda>q. (Rank q, Bank q)" "\<lambda>(i, k). BanksetNeedRFM i k"
  by unfold_locales (auto simp: BanksetNeedRFM_def Let_def image_iff split: if_splits)

text \<open>However the requests for refresh management of ranks and their completions interleave, every rank
  is queued at most once, and exactly the ranks with a request that is not completed are queued.\<close>

lemma rfm_queue_tracks_requests:
  assumes "distinct (map Rank (rfm_q ch))"
  shows "distinct (map Rank (rfm_q (fold (\<lambda>(i, v). RankNeedRFM i v) ops ch))) \<and>
    Rank ` set (rfm_q (fold (\<lambda>(i, v). RankNeedRFM i v) ops ch)) =
      fold (\<lambda>(i, v) S. if v then insert i S else S - {i}) ops (Rank ` set (rfm_q ch))"
  using rank_rfm.serve_outstanding [OF assms, of ops]
  by (simp add: rank_rfm.serve_def rank_rfm.outstanding_def)

end
