(* ===== verification/MCache.thy ===== *)
theory MCache
  imports Prelude
begin

text \<open>
  The shared last-level cache (\<open>src/mcache.h\<close> and \<open>src/mcache.cpp\<close>).  The array of entries is a list with
  checked accesses, \<open>uns\<close> is a 32-bit word, \<open>Flag\<close> a truth value, and \<open>rand()\<close> draws from a given sequence.
  Every operation computes the ways of a set as the code does: \<open>start\<close> up to \<open>start + assocs\<close>, in 32-bit
  arithmetic.
\<close>

section \<open>State\<close>

datatype MCache_ReplPolicy = REPL_LRU | REPL_RND | REPL_SRRIP | REPL_LRU_WBT | NUM_REPL_POLICY

record MCache_Entry =
  valid :: bool
  dirty :: bool
  tag :: u64
  ripctr :: u32
  last_access :: u64
  orig_lineaddr :: u64

record MCache =
  sets :: u32
  assocs :: u32
  repl_policy :: MCache_ReplPolicy
  index_policy :: u32
  entries :: "MCache_Entry list"
  touched_wayid :: int
  touched_setid :: int
  touched_lineid :: int
  evicted_dirty_line :: bool
  evicted_line_addr :: u64
  s_count :: u64
  s_miss :: u64
  s_evict :: u64
  s_wb_avoided :: u64
  s_wb_forced :: u64
  wb_in_2k_epoch :: u32

text \<open>\<open>rand()\<close>: the next value of a sequence.\<close>

record Rand =
  rand_seq :: "nat \<Rightarrow> int"
  rand_pos :: nat

definition rand :: "Rand \<Rightarrow> int \<times> Rand" where
  "rand r = (rand_seq r (rand_pos r), r\<lparr>rand_pos := Suc (rand_pos r)\<rparr>)"

definition MCACHE_SRRIP_MAX :: u32 where "MCACHE_SRRIP_MAX = 7"
definition MCACHE_SRRIP_INIT :: u32 where "MCACHE_SRRIP_INIT = 1"

definition repl_of :: "u32 \<Rightarrow> MCache_ReplPolicy" where
  "repl_of n = (if n = 0 then REPL_LRU else if n = 1 then REPL_RND else if n = 2 then REPL_SRRIP
     else if n = 3 then REPL_LRU_WBT else NUM_REPL_POLICY)"

definition zero_entry :: MCache_Entry where
  "zero_entry = \<lparr>valid = False, dirty = False, tag = 0, ripctr = 0, last_access = 0, orig_lineaddr = 0\<rparr>"

definition mcache_new :: "u32 \<Rightarrow> u32 \<Rightarrow> u32 \<Rightarrow> MCache" where
  "mcache_new ns na repl =
     \<lparr>sets = ns, assocs = na, repl_policy = repl_of repl, index_policy = 0,
      entries = replicate (unat (ns * na)) zero_entry, touched_wayid = 0, touched_setid = 0, touched_lineid = 0,
      evicted_dirty_line = False, evicted_line_addr = 0, s_count = 0, s_miss = 0, s_evict = 0, s_wb_avoided = 0,
      s_wb_forced = 0, wb_in_2k_epoch = 0\<rparr>"

section \<open>Finding a line\<close>

definition mcache_get_index :: "MCache \<Rightarrow> u64 \<Rightarrow> u32 res" where
  "mcache_get_index c addr =
     (if index_policy c = 0 then bind_res (rem_word addr (ucast (sets c))) (\<lambda>r. Inr (ucast r)) else Inl (ExitWith (-1)))"

definition ways :: "MCache \<Rightarrow> u32 \<Rightarrow> int list" where
  "ways c k = [uint (k * assocs c)..uint (k * assocs c + assocs c) - 1]"

text \<open>The loop that looks for a valid entry with the tag.\<close>

fun find_line :: "MCache_Entry list \<Rightarrow> u64 \<Rightarrow> int list \<Rightarrow> int option res" where
  "find_line es a [] = Inr None"
| "find_line es a (i # is) =
     bind_res (vec_get es i) (\<lambda>e. if valid e \<and> tag e = a then Inr (Some i) else find_line es a is)"

definition mcache_access :: "MCache \<Rightarrow> u64 \<Rightarrow> (bool \<times> MCache) res" where
  "mcache_access c addr =
     bind_res (mcache_get_index c addr) (\<lambda>k.
     let start = k * assocs c; c = c\<lparr>s_count := s_count c + 1\<rparr> in
     bind_res (find_line (entries c) addr (ways c k)) (\<lambda>r.
     case r of
       Some i \<Rightarrow>
         bind_res (vec_upd (entries c) i (\<lambda>e. e\<lparr>last_access := s_count c, ripctr := MCACHE_SRRIP_MAX\<rparr>)) (\<lambda>es.
         Inr (True, c\<lparr>entries := es, touched_wayid := i - uint start, touched_setid := uint k, touched_lineid := i\<rparr>))
     | None \<Rightarrow>
         Inr (False, c\<lparr>touched_wayid := 0, touched_setid := uint k, touched_lineid := uint start, s_miss := s_miss c + 1\<rparr>)))"

definition mcache_probe :: "MCache \<Rightarrow> u64 \<Rightarrow> bool res" where
  "mcache_probe c addr =
     bind_res (mcache_get_index c addr) (\<lambda>k.
     bind_res (find_line (entries c) addr (ways c k)) (\<lambda>r. Inr (r \<noteq> None)))"

definition mcache_invalidate :: "MCache \<Rightarrow> u64 \<Rightarrow> (bool \<times> MCache) res" where
  "mcache_invalidate c addr =
     bind_res (mcache_get_index c addr) (\<lambda>k.
     bind_res (find_line (entries c) addr (ways c k)) (\<lambda>r.
     case r of
       Some i \<Rightarrow> bind_res (vec_upd (entries c) i (\<lambda>e. e\<lparr>valid := False\<rparr>)) (\<lambda>es. Inr (True, c\<lparr>entries := es\<rparr>))
     | None \<Rightarrow> Inr (False, c)))"

definition mcache_mark_dirty :: "MCache \<Rightarrow> u64 \<Rightarrow> (bool \<times> MCache) res" where
  "mcache_mark_dirty c addr =
     bind_res (mcache_get_index c addr) (\<lambda>k.
     bind_res (find_line (entries c) addr (ways c k)) (\<lambda>r.
     case r of
       Some i \<Rightarrow> bind_res (vec_upd (entries c) i (\<lambda>e. e\<lparr>dirty := True\<rparr>)) (\<lambda>es. Inr (True, c\<lparr>entries := es\<rparr>))
     | None \<Rightarrow> Inr (False, c)))"

section \<open>Victims\<close>

text \<open>\<open>mcache_find_victim_lru\<close>: the first way with the smallest time of access.\<close>

fun lowest_scan :: "MCache_Entry list \<Rightarrow> int \<Rightarrow> int list \<Rightarrow> int res" where
  "lowest_scan es low [] = Inr low"
| "lowest_scan es low (i # is) =
     bind_res (vec_get es i) (\<lambda>e. bind_res (vec_get es low) (\<lambda>l.
     lowest_scan es (if last_access e < last_access l then i else low) is))"

definition mcache_find_victim_lru :: "MCache \<Rightarrow> u32 \<Rightarrow> int res" where
  "mcache_find_victim_lru c k = lowest_scan (entries c) (uint (k * assocs c)) (ways c k)"

definition mcache_find_victim_rnd :: "MCache \<Rightarrow> u32 \<Rightarrow> Rand \<Rightarrow> (int \<times> Rand) res" where
  "mcache_find_victim_rnd c k r =
     (let (x, r) = rand r in
      bind_res (rem_word (word_of_int x :: u32) (assocs c)) (\<lambda>w. Inr (uint (k * assocs c + w), r)))"

text \<open>\<open>mcache_find_victim_srrip\<close>: the first way whose counter is zero; while there is none, all counters of the
  set are decremented.  With no ways the loop does not end.\<close>

fun first_zero :: "MCache_Entry list \<Rightarrow> int list \<Rightarrow> int option res" where
  "first_zero es [] = Inr None"
| "first_zero es (i # is) = bind_res (vec_get es i) (\<lambda>e. if ripctr e = 0 then Inr (Some i) else first_zero es is)"

definition age_ways :: "int list \<Rightarrow> MCache_Entry list \<Rightarrow> MCache_Entry list res" where
  "age_ways is es = fold_res (\<lambda>i es. vec_upd es i (\<lambda>e. e\<lparr>ripctr := ripctr e - 1\<rparr>)) is es"

lemma first_zero_None:
  "first_zero es is = Inr None \<Longrightarrow> i \<in> set is \<Longrightarrow> 0 \<le> i \<and> i < int (length es) \<and> ripctr (es ! nat i) \<noteq> 0"
  by (induction "is") (auto simp: bind_res_eq_Inr vec_get_Inr split: if_splits)

lemma age_ways_other: "age_ways is es = Inr es' \<Longrightarrow> j \<notin> nat ` set is \<Longrightarrow> es' ! j = es ! j"
  by (induction "is" arbitrary: es) (auto simp: age_ways_def bind_res_eq_Inr vec_upd_Inr)

lemma age_ways_hit:
  "age_ways is es = Inr es' \<Longrightarrow> distinct is \<Longrightarrow> i \<in> set is \<Longrightarrow> es' ! nat i = (es ! nat i)\<lparr>ripctr := ripctr (es ! nat i) - 1\<rparr>"
proof (induction "is" arbitrary: es)
  case (Cons j js)
  let ?es = "es[nat j := (es ! nat j)\<lparr>ripctr := ripctr (es ! nat j) - 1\<rparr>]"
  have j: "0 \<le> j" "j < int (length es)" and rest: "age_ways js ?es = Inr es'"
    using Cons.prems(1) by (auto simp: age_ways_def bind_res_eq_Inr vec_upd_Inr)
  have nn: "\<forall>x \<in> set js. 0 \<le> x"
    using rest by (induction js arbitrary: es j) (auto simp: age_ways_def bind_res_eq_Inr vec_upd_Inr)
  show ?case
  proof (cases "i = j")
    case True
    have "nat j \<notin> nat ` set js" using Cons.prems(2) nn j(1) by (auto simp: eq_nat_nat_iff)
    from age_ways_other [OF rest this] show ?thesis using j by (simp add: True)
  next
    case False
    then have "i \<in> set js" using Cons.prems(3) by simp
    moreover from this have "nat i \<noteq> nat j" using nn j(1) False by (auto simp: eq_nat_nat_iff)
    ultimately show ?thesis using Cons.IH [OF rest] Cons.prems(2) by simp
  qed
qed simp

function srrip_loop :: "int \<Rightarrow> int \<Rightarrow> MCache_Entry list \<Rightarrow> (int \<times> MCache_Entry list) res" where
  "srrip_loop s e es =
     (if s \<ge> e then Inl Diverges
      else bind_res (first_zero es [s..e - 1]) (\<lambda>r.
        case r of Some i \<Rightarrow> Inr (i, es) | None \<Rightarrow> bind_res (age_ways [s..e - 1] es) (\<lambda>es. srrip_loop s e es)))"
  by pat_completeness auto
termination
proof (relation "measure (\<lambda>(s, e, es). unat (ripctr (es ! nat s)))")
  fix s e :: int and es r es'
  assume a: "\<not> s \<ge> e" "first_zero es [s..e - 1] = Inr r" "r = None" "age_ways [s..e - 1] es = Inr es'"
  then have s: "s \<in> set [s..e - 1]" by simp
  have "ripctr (es ! nat s) \<noteq> 0" using first_zero_None [OF _ s] a by simp
  moreover have "ripctr (es' ! nat s) = ripctr (es ! nat s) - 1" using age_ways_hit [OF a(4) _ s] by simp
  ultimately show "((s, e, es'), s, e, es) \<in> measure (\<lambda>(s, e, es). unat (ripctr (es ! nat s)))"
    by (simp add: measure_unat)
qed simp

declare srrip_loop.simps [simp del]
definition mcache_find_victim_srrip :: "MCache \<Rightarrow> u32 \<Rightarrow> (int \<times> MCache) res" where
  "mcache_find_victim_srrip c k =
     bind_res (srrip_loop (uint (k * assocs c)) (uint (k * assocs c + assocs c)) (entries c)) (\<lambda>(v, es).
     Inr (v, c\<lparr>entries := es\<rparr>))"

text \<open>\<open>mcache_find_victim_lru_wbt\<close>: as long as the write-backs of the epoch are within the limit \<open>LRU_WB_TTH\<close> (here
  \<open>tth\<close>) any way may go, then only clean ones.\<close>

fun wbt_scan :: "u32 \<Rightarrow> u32 \<Rightarrow> MCache_Entry list \<Rightarrow> bool \<Rightarrow> int \<Rightarrow> int list \<Rightarrow> (bool \<times> int) res" where
  "wbt_scan tth wb es found low [] = Inr (found, low)"
| "wbt_scan tth wb es found low (i # is) =
     bind_res (vec_get es i) (\<lambda>e.
     if \<not> valid e then Inr (True, i)
     else
       bind_res (if found then bind_res (vec_get es low) (\<lambda>l. Inr (last_access e < last_access l)) else Inr True) (\<lambda>older.
       if older \<and> (\<not> dirty e \<or> wb < tth) then wbt_scan tth wb es True i is
       else wbt_scan tth wb es found low is))"

definition mcache_find_victim_lru_wbt :: "u32 \<Rightarrow> MCache \<Rightarrow> u32 \<Rightarrow> (int \<times> MCache) res" where
  "mcache_find_victim_lru_wbt tth c k =
     bind_res (wbt_scan tth (wb_in_2k_epoch c) (entries c) False (uint (k * assocs c)) (ways c k)) (\<lambda>(found, low).
     bind_res (mcache_find_victim_lru c k) (\<lambda>lruv.
     bind_res
       (if \<not> found then Inr (lruv, c\<lparr>s_wb_forced := s_wb_forced c + 1\<rparr>)
        else
          bind_res (vec_get (entries c) lruv) (\<lambda>el.
          bind_res (vec_get (entries c) low) (\<lambda>ew.
          Inr (low, if lruv \<noteq> low \<and> dirty el \<and> \<not> dirty ew then c\<lparr>s_wb_avoided := s_wb_avoided c + 1\<rparr> else c)))) (\<lambda>(low, c).
     bind_res (vec_get (entries c) low) (\<lambda>e.
     Inr (low, if dirty e then c\<lparr>wb_in_2k_epoch := wb_in_2k_epoch c + 1\<rparr> else c)))))"

fun first_invalid :: "MCache_Entry list \<Rightarrow> int list \<Rightarrow> int option res" where
  "first_invalid es [] = Inr None"
| "first_invalid es (i # is) = bind_res (vec_get es i) (\<lambda>e. if \<not> valid e then Inr (Some i) else first_invalid es is)"

text \<open>\<open>mcache_find_victim\<close>; its own loop runs over \<open>int\<close> indices.\<close>

definition mcache_find_victim :: "u32 \<Rightarrow> MCache \<Rightarrow> u32 \<Rightarrow> Rand \<Rightarrow> (int \<times> MCache \<times> Rand) res" where
  "mcache_find_victim tth c k r =
     bind_res (first_invalid (entries c) [sint (k * assocs c)..sint (k * assocs c + assocs c) - 1]) (\<lambda>free.
     case free of
       Some i \<Rightarrow> Inr (i, c, r)
     | None \<Rightarrow>
         (case repl_policy c of
            REPL_LRU \<Rightarrow> bind_res (mcache_find_victim_lru c k) (\<lambda>v. Inr (v, c, r))
          | REPL_RND \<Rightarrow> bind_res (mcache_find_victim_rnd c k r) (\<lambda>(v, r). Inr (v, c, r))
          | REPL_SRRIP \<Rightarrow> bind_res (mcache_find_victim_srrip c k) (\<lambda>(v, c). Inr (v, c, r))
          | REPL_LRU_WBT \<Rightarrow> bind_res (mcache_find_victim_lru_wbt tth c k) (\<lambda>(v, c). Inr (v, c, r))
          | NUM_REPL_POLICY \<Rightarrow> Inl (ExitWith 1)))"

section \<open>Installing a line\<close>

definition mcache_install :: "u32 \<Rightarrow> MCache \<Rightarrow> u64 \<Rightarrow> Rand \<Rightarrow> (MCache \<times> Rand) res" where
  "mcache_install tth c addr r =
     bind_res (mcache_get_index c addr) (\<lambda>k.
     let c = c\<lparr>evicted_dirty_line := False\<rparr> in
     bind_res (find_line (entries c) addr (ways c k)) (\<lambda>present.
     bind_res (require (ExitWith (-1)) (present = None)) (\<lambda>_.
     bind_res (mcache_find_victim tth c k r) (\<lambda>(victim, c, r).
     bind_res (vec_get (entries c) victim) (\<lambda>e.
     let c = (if valid e then
                (let c = c\<lparr>s_evict := s_evict c + 1\<rparr>
                 in if dirty e then c\<lparr>evicted_dirty_line := True, evicted_line_addr := tag e\<rparr> else c)
              else c)
     in bind_res (vec_set (entries c) victim
          (e\<lparr>tag := addr, valid := True, dirty := False, ripctr := MCACHE_SRRIP_INIT, last_access := s_count c\<rparr>)) (\<lambda>es.
        Inr (c\<lparr>entries := es, touched_lineid := victim, touched_setid := uint k,
               touched_wayid := victim - uint (k * assocs c)\<rparr>, r)))))))"
section \<open>A read by a core\<close>

text \<open>The read path of \<open>mcore_cycle\<close>: an access, and on a miss the installation of the line.  The result says
  whether memory has to be asked.\<close>

definition llc_read :: "bool \<Rightarrow> u32 \<Rightarrow> MCache \<Rightarrow> u64 \<Rightarrow> Rand \<Rightarrow> (bool \<times> MCache \<times> Rand) res" where
  "llc_read perfect tth c addr r =
     bind_res (mcache_access c addr) (\<lambda>(hit, c).
     if \<not> perfect \<and> \<not> hit then bind_res (mcache_install tth c addr r) (\<lambda>(c, r). Inr (True, c, r)) else Inr (False, c, r))"

end
