(* ===== verification/MCache_Correct.thy ===== *)
theory MCache_Correct
  imports MCache
begin

text \<open>
  Correctness of the last-level cache: a line is held by at most one way, and by one of its own set; installing
  evicts at most one line and reports it exactly when it is dirty; under the LRU policy every set behaves as a
  list of lines in the order of their last use; the search of the SRRIP policy ends and picks the first way of
  smallest counter.
\<close>

section \<open>The ways of a set\<close>

abbreviation nsets :: "MCache \<Rightarrow> nat" where "nsets c \<equiv> unat (sets c)"
abbreviation nways :: "MCache \<Rightarrow> nat" where "nways c \<equiv> unat (assocs c)"

definition set_of :: "MCache \<Rightarrow> u64 \<Rightarrow> nat" where
  "set_of c a = unat a mod nsets c"

definition way_slots :: "MCache \<Rightarrow> nat \<Rightarrow> nat list" where
  "way_slots c k = [k * nways c..<k * nways c + nways c]"

definition geometry_ok :: "MCache \<Rightarrow> bool" where
  "geometry_ok c \<longleftrightarrow> index_policy c = 0 \<and> 0 < nsets c \<and> 0 < nways c \<and> nsets c * nways c < 2 ^ 31 \<and>
     length (entries c) = nsets c * nways c"

lemma mcache_get_index_ok:
  assumes "geometry_ok c"
  shows "\<exists>k. mcache_get_index c a = Inr k \<and> unat k = set_of c a \<and> unat k < nsets c"
proof -
  have pos: "0 < nsets c" using assms by (simp add: geometry_ok_def)
  have u: "unat (ucast (sets c) :: u64) = nsets c" using unsigned_less [of "sets c", where ?'a = nat] by (simp add: unsigned_ucast_eq take_bit_nat_eq_self)
  then have nz: "(ucast (sets c) :: u64) \<noteq> 0" using pos by (metis less_irrefl unat_0)
  have m: "unat (a mod ucast (sets c)) = set_of c a" by (simp add: unat_mod u set_of_def)
  moreover have lt: "set_of c a < nsets c" using pos by (simp add: set_of_def)
  moreover have "nsets c < 2 ^ 32" using unsigned_less [of "sets c", where ?'a = nat] by simp
  ultimately have "unat (ucast (a mod ucast (sets c)) :: u32) = set_of c a"
    by (simp add: unsigned_ucast_eq take_bit_nat_eq_self)
  then show ?thesis using assms lt nz by (simp add: mcache_get_index_def geometry_ok_def rem_word_def)
qed

lemma set_start:
  assumes "geometry_ok c" and "unat k < nsets c"
  shows "unat (k * assocs c) = unat k * nways c" and "unat (k * assocs c + assocs c) = unat k * nways c + nways c"
    and "unat k * nways c + nways c \<le> length (entries c)" and "length (entries c) < 2 ^ 31"
proof -
  have "Suc (unat k) * nways c \<le> nsets c * nways c" using assms(2) by (intro mult_le_mono1) simp
  then have le: "unat k * nways c + nways c \<le> nsets c * nways c" by (simp add: add.commute)
  have g: "nsets c * nways c < 2 ^ 31" "length (entries c) = nsets c * nways c" using assms(1) by (auto simp: geometry_ok_def)
  show s: "unat (k * assocs c) = unat k * nways c" using le g by (simp add: unat_mult_lem [THEN iffD1])
  show "unat (k * assocs c + assocs c) = unat k * nways c + nways c" using le g s by (simp add: unat_add_lem [THEN iffD1])
  show "unat k * nways c + nways c \<le> length (entries c)" "length (entries c) < 2 ^ 31" using le g by simp_all
qed

lemma map_int_upt: "map int [m..<n] = [int m..int n - 1]"
  by (rule nth_equalityI) auto

lemma ways_slots:
  assumes "geometry_ok c" and "unat k < nsets c"
  shows "ways c k = map int (way_slots c (unat k))"
    and "[sint (k * assocs c)..sint (k * assocs c + assocs c) - 1] = map int (way_slots c (unat k))"
proof -
  note s = set_start [OF assms]
  have u: "uint (k * assocs c) = int (unat k * nways c)" "uint (k * assocs c + assocs c) = int (unat k * nways c + nways c)"
    using s(1,2) by (simp_all only: uint_nat)
  then show "ways c k = map int (way_slots c (unat k))" by (simp add: ways_def way_slots_def map_int_upt)
  have si: "sint w = uint w" if "uint w < 2 ^ 31" for w :: u32
    unfolding sint_uint
  proof (rule signed_take_bit_int_eq_self)
    show "- (2 ^ (LENGTH(32) - Suc 0)) \<le> uint w" by (rule order_trans [OF _ uint_ge_0]) simp
    show "uint w < 2 ^ (LENGTH(32) - Suc 0)" using that by simp
  qed
  have "uint (k * assocs c) < 2 ^ 31" "uint (k * assocs c + assocs c) < 2 ^ 31"
    unfolding u of_nat_less_numeral_power_cancel_iff using s(3,4) by simp_all
  then show "[sint (k * assocs c)..sint (k * assocs c + assocs c) - 1] = map int (way_slots c (unat k))"
    by (simp only: si u way_slots_def map_int_upt)
qed

lemma way_slots_iff:
  assumes "0 < nways c"
  shows "i \<in> set (way_slots c k) \<longleftrightarrow> i div nways c = k"
proof
  show "i \<in> set (way_slots c k) \<Longrightarrow> i div nways c = k"
    by (intro div_nat_eqI) (auto simp: way_slots_def algebra_simps)
  assume k: "i div nways c = k"
  have "i < nways c * Suc (i div nways c)" using assms by (rule dividend_less_times_div [THEN less_le_trans]) simp
  then show "i \<in> set (way_slots c k)"
    using k div_times_less_eq_dividend [of i "nways c"] by (simp add: way_slots_def algebra_simps)
qed
section \<open>Contents\<close>

definition line_at :: "MCache \<Rightarrow> nat \<Rightarrow> bool" where
  "line_at c i \<longleftrightarrow> i < length (entries c) \<and> valid (entries c ! i)"

definition held :: "MCache \<Rightarrow> u64 set" where
  "held c = {tag (entries c ! i) |i. line_at c i}"

definition dirty_lines :: "MCache \<Rightarrow> u64 set" where
  "dirty_lines c = {tag (entries c ! i) |i. line_at c i \<and> dirty (entries c ! i)}"

definition cache_wf :: "MCache \<Rightarrow> bool" where
  "cache_wf c \<longleftrightarrow> geometry_ok c \<and> repl_policy c \<noteq> NUM_REPL_POLICY \<and>
     (\<forall>i. line_at c i \<longrightarrow> set_of c (tag (entries c ! i)) = i div nways c) \<and>
     (\<forall>i j. line_at c i \<longrightarrow> line_at c j \<longrightarrow> tag (entries c ! i) = tag (entries c ! j) \<longrightarrow> i = j)"

lemma mcache_new_wf:
  assumes "0 < unat s" and "0 < unat a" and "unat s * unat a < 2 ^ 31" and "repl_of p \<noteq> NUM_REPL_POLICY"
  shows "cache_wf (mcache_new s a p) \<and> held (mcache_new s a p) = {}"
proof -
  have "unat (s * a) = unat s * unat a" using assms(3) by (simp add: unat_mult_lem [THEN iffD1])
  then show ?thesis using assms by (auto simp: cache_wf_def geometry_ok_def line_at_def held_def mcache_new_def zero_entry_def)
qed

lemma find_line_find:
  "\<forall>i \<in> set is. i < length es \<Longrightarrow>
     find_line es a (map int is) = Inr (map_option int (find (\<lambda>i. valid (es ! i) \<and> tag (es ! i) = a) is))"
  by (induction "is") (auto simp: vec_get_def)

lemma first_invalid_find:
  "\<forall>i \<in> set is. i < length es \<Longrightarrow> first_invalid es (map int is) = Inr (map_option int (find (\<lambda>i. \<not> valid (es ! i)) is))"
  by (induction "is") (auto simp: vec_get_def)

lemma slots_in_range:
  assumes "geometry_ok c" and "k < nsets c" and "i \<in> set (way_slots c k)"
  shows "i < length (entries c)"
proof -
  have "Suc k * nways c \<le> nsets c * nways c" using assms(2) by (intro mult_le_mono1) simp
  then show ?thesis using assms(1,3) by (auto simp: way_slots_def geometry_ok_def algebra_simps)
qed

text \<open>Looking up a line finds the one way that holds it.\<close>

lemma lookup_cases:
  assumes "cache_wf c"
  obtains (hit) k i where "mcache_get_index c a = Inr k" and "unat k = set_of c a" and "unat k < nsets c"
      and "find_line (entries c) a (ways c k) = Inr (Some (int i))" and "line_at c i" and "tag (entries c ! i) = a"
      and "i div nways c = set_of c a"
  | (miss) k where "mcache_get_index c a = Inr k" and "unat k = set_of c a" and "unat k < nsets c"
      and "find_line (entries c) a (ways c k) = Inr None" and "a \<notin> held c"
proof -
  have g: "geometry_ok c" using assms by (simp add: cache_wf_def)
  then have A: "0 < nways c" by (simp add: geometry_ok_def)
  obtain k where k: "mcache_get_index c a = Inr k" "unat k = set_of c a" "unat k < nsets c"
    using mcache_get_index_ok [OF g, of a] by blast
  let ?p = "\<lambda>i. valid (entries c ! i) \<and> tag (entries c ! i) = a"
  have fl: "find_line (entries c) a (ways c k) = Inr (map_option int (find ?p (way_slots c (unat k))))"
    unfolding ways_slots(1) [OF g k(3)] using slots_in_range [OF g k(3)] by (intro find_line_find) blast
  show thesis
  proof (cases "find ?p (way_slots c (unat k))")
    case None
    have "a \<notin> held c"
    proof
      assume "a \<in> held c"
      then obtain i where i: "line_at c i" "tag (entries c ! i) = a" by (auto simp: held_def)
      then have "i \<in> set (way_slots c (unat k))" using assms k(2) by (auto simp: way_slots_iff [OF A] cache_wf_def)
      then show False using None i by (auto simp: find_None_iff line_at_def)
    qed
    then show thesis using miss k fl None by simp
  next
    case (Some i)
    then have "i \<in> set (way_slots c (unat k))" "?p i" by (auto simp: find_Some_iff in_set_conv_nth)
    then show thesis
      using hit [of k i] k fl Some slots_in_range [OF g k(3)] by (auto simp: line_at_def way_slots_iff [OF A])
  qed
qed

text \<open>What a new value in one way changes.\<close>

lemma line_at_update:
  "i < length (entries c) \<Longrightarrow> entries c' = (entries c)[i := e] \<Longrightarrow>
     line_at c' j \<longleftrightarrow> (if j = i then valid e else line_at c j)"
  by (auto simp: line_at_def nth_list_update)

definition same_geometry :: "MCache \<Rightarrow> MCache \<Rightarrow> bool" where
  "same_geometry c c' \<longleftrightarrow> sets c' = sets c \<and> assocs c' = assocs c \<and> index_policy c' = index_policy c \<and>
     repl_policy c' = repl_policy c \<and> length (entries c') = length (entries c)"

lemma cache_wf_update:
  assumes "cache_wf c" and "same_geometry c c'" and "i < length (entries c)" and "entries c' = (entries c)[i := e]"
    and "valid e \<Longrightarrow> set_of c (tag e) = i div nways c \<and> (\<forall>j. line_at c j \<longrightarrow> tag (entries c ! j) = tag e \<longrightarrow> j = i)"
  shows "cache_wf c'"
proof -
  have f: "set_of c' x = set_of c x" "nways c' = nways c" "geometry_ok c' = geometry_ok c" for x
    using assms(2) by (auto simp: same_geometry_def set_of_def geometry_ok_def)
  have nth: "entries c' ! j = (if j = i then e else entries c ! j)" for j using assms(3,4) by (simp add: nth_list_update)
  have la: "line_at c' j \<longleftrightarrow> (if j = i then valid e else line_at c j)" for j by (rule line_at_update [OF assms(3,4)])
  have old: "set_of c (tag (entries c ! j)) = j div nways c" if "line_at c j" for j using assms(1) that by (simp add: cache_wf_def)
  have inj: "j = k" if "line_at c j" "line_at c k" "tag (entries c ! j) = tag (entries c ! k)" for j k
    using assms(1) that unfolding cache_wf_def by blast
  show ?thesis
    unfolding cache_wf_def
  proof (intro conjI allI impI)
    show "geometry_ok c'" "repl_policy c' \<noteq> NUM_REPL_POLICY" using assms(1,2) f by (auto simp: cache_wf_def same_geometry_def)
    show "set_of c' (tag (entries c' ! j)) = j div nways c'" if "line_at c' j" for j
      unfolding f(1,2) nth using that old [of j] assms(5) [THEN conjunct1] by (cases "j = i") (simp_all add: la)
    show "j = k" if "line_at c' j" "line_at c' k" "tag (entries c' ! j) = tag (entries c' ! k)" for j k
    proof -
      have "tag (entries c ! m) \<noteq> tag e" if "line_at c m" "valid e" "m \<noteq> i" for m using assms(5) that by blast
      from this [of j] this [of k] show ?thesis using that inj [of j k] by (cases "j = i"; cases "k = i") (simp_all add: la nth)
    qed
  qed
qed

lemma held_update:
  assumes "i < length (entries c)" and "entries c' = (entries c)[i := e]"
  shows "held c' = {tag (entries c ! j) |j. line_at c j \<and> j \<noteq> i} \<union> (if valid e then {tag e} else {})"
    and "dirty_lines c' = {tag (entries c ! j) |j. line_at c j \<and> j \<noteq> i \<and> dirty (entries c ! j)} \<union> (if valid e \<and> dirty e then {tag e} else {})"
  unfolding held_def dirty_lines_def line_at_update [OF assms] unfolding assms(2)
  using assms(1) by (auto simp: nth_list_update split: if_splits)
section \<open>The search of the SRRIP policy\<close>

definition aged :: "nat \<Rightarrow> nat \<Rightarrow> u32 \<Rightarrow> MCache_Entry list \<Rightarrow> MCache_Entry list" where
  "aged lo hi d es =
     map (\<lambda>i. if lo \<le> i \<and> i < hi then (es ! i)\<lparr>ripctr := ripctr (es ! i) - d\<rparr> else es ! i) [0..<length es]"

lemma aged_sel [simp]:
  "length (aged lo hi d es) = length es"
  "i < length es \<Longrightarrow> aged lo hi d es ! i = (if lo \<le> i \<and> i < hi then (es ! i)\<lparr>ripctr := ripctr (es ! i) - d\<rparr> else es ! i)"
  by (simp_all add: aged_def)

lemma aged_0: "aged lo hi 0 es = es"
  by (rule nth_equalityI) simp_all

lemma aged_aged: "aged lo hi a (aged lo hi b es) = aged lo hi (a + b) es"
  by (rule nth_equalityI) (simp_all add: algebra_simps)

lemma age_ways_aged: "hi \<le> length es \<Longrightarrow> age_ways (map int [lo..<hi]) es = Inr (aged lo hi 1 es)"
proof (induction hi)
  case 0
  then show ?case by (simp add: age_ways_def aged_def map_nth)
next
  case (Suc hi)
  show ?case
  proof (cases "lo \<le> hi")
    case True
    have "(aged lo hi 1 es)[hi := (es ! hi)\<lparr>ripctr := ripctr (es ! hi) - 1\<rparr>] = aged lo (Suc hi) 1 es"
      using Suc.prems True by (intro nth_equalityI) (auto simp: nth_list_update less_Suc_eq)
    moreover have "age_ways (map int [lo..<hi]) es = Inr (aged lo hi 1 es)" using Suc by simp
    ultimately show ?thesis using Suc.prems True by (simp add: age_ways_def fold_res_append vec_upd_ok)
  next
    case False
    then have "aged lo (Suc hi) 1 es = es" by (intro nth_equalityI) auto
    then show ?thesis using False by (simp add: age_ways_def)
  qed
qed

lemma first_zero_find:
  "\<forall>i \<in> set is. i < length es \<Longrightarrow> first_zero es (map int is) = Inr (map_option int (find (\<lambda>i. ripctr (es ! i) = 0) is))"
  by (induction "is") (auto simp: vec_get_def)

lemma dec_mono: "a \<noteq> 0 \<Longrightarrow> b \<noteq> 0 \<Longrightarrow> a - 1 \<le> b - 1 \<longleftrightarrow> a \<le> (b :: u32)"
  by (simp add: word_le_nat_alt unat_minus_one) (metis One_nat_def Suc_le_mono Suc_pred unat_eq_zero word_gt_0 word_less_nat_alt unat_0)

text \<open>The first way of the smallest counter.\<close>

definition first_min :: "nat \<Rightarrow> nat \<Rightarrow> MCache_Entry list \<Rightarrow> nat \<Rightarrow> bool" where
  "first_min lo hi es v \<longleftrightarrow> lo \<le> v \<and> v < hi \<and> (\<forall>i. lo \<le> i \<longrightarrow> i < hi \<longrightarrow> ripctr (es ! v) \<le> ripctr (es ! i)) \<and>
     (\<forall>i. lo \<le> i \<longrightarrow> i < v \<longrightarrow> ripctr (es ! v) < ripctr (es ! i))"

lemma first_min_aged:
  assumes "hi \<le> length es" and "\<forall>i. lo \<le> i \<longrightarrow> i < hi \<longrightarrow> ripctr (es ! i) \<noteq> 0" and "first_min lo hi (aged lo hi 1 es) v"
  shows "first_min lo hi es v" and "ripctr (aged lo hi 1 es ! v) + 1 = ripctr (es ! v)"
proof -
  have v: "lo \<le> v" "v < hi" using assms(3) by (auto simp: first_min_def)
  have le: "ripctr (aged lo hi 1 es ! i) \<le> ripctr (aged lo hi 1 es ! j) \<longleftrightarrow> ripctr (es ! i) \<le> ripctr (es ! j)"
    if "lo \<le> i" "i < hi" "lo \<le> j" "j < hi" for i j
    using assms(1,2) that by (simp add: dec_mono)
  have "ripctr (es ! v) < ripctr (es ! i)" if "lo \<le> i" "i < v" for i
    using assms(3) that v le [of i v] by (auto simp: first_min_def simp flip: linorder_not_le)
  then show "first_min lo hi es v" using assms(3) v le unfolding first_min_def by simp
  show "ripctr (aged lo hi 1 es ! v) + 1 = ripctr (es ! v)" using v assms(1) by simp
qed

lemma srrip_loop_result:
  "lo < hi \<Longrightarrow> hi \<le> length es \<Longrightarrow>
     \<exists>v. first_min lo hi es v \<and> srrip_loop (int lo) (int hi) es = Inr (int v, aged lo hi (ripctr (es ! v)) es)"
proof (induction "int lo" "int hi" es rule: srrip_loop.induct)
  case (1 es)
  have ups: "[int lo..int hi - 1] = map int [lo..<hi]" by (simp add: map_int_upt)
  have fz: "first_zero es (map int [lo..<hi]) = Inr (map_option int (find (\<lambda>i. ripctr (es ! i) = 0) [lo..<hi]))"
    using "1.prems" by (intro first_zero_find) auto
  show ?case
  proof (cases "find (\<lambda>i. ripctr (es ! i) = 0) [lo..<hi]")
    case None
    let ?es = "aged lo hi 1 es"
    have nz: "\<forall>i. lo \<le> i \<longrightarrow> i < hi \<longrightarrow> ripctr (es ! i) \<noteq> 0" using None by (simp add: find_None_iff)
    have age: "age_ways (map int [lo..<hi]) es = Inr ?es" using "1.prems" by (intro age_ways_aged) simp
    obtain v where v: "first_min lo hi ?es v" "srrip_loop (int lo) (int hi) ?es = Inr (int v, aged lo hi (ripctr (?es ! v)) ?es)"
      using "1.hyps" [of None ?es] "1.prems" fz None age by (auto simp: ups)
    have "srrip_loop (int lo) (int hi) es = srrip_loop (int lo) (int hi) ?es"
      using "1.prems" fz None age by (subst srrip_loop.simps) (simp add: ups)
    then show ?thesis
      using first_min_aged [OF "1.prems"(2) nz v(1)] v(2) by (auto simp: aged_aged)
  next
    case (Some v)
    then obtain n where "n < hi - lo" "v = lo + n" "ripctr (es ! v) = 0" "\<forall>j<n. ripctr (es ! (lo + j)) \<noteq> 0"
      by (auto simp: find_Some_iff)
    then have "first_min lo hi es v"
      unfolding first_min_def by (auto simp: word_neq_0_conv [symmetric] dest!: le_Suc_ex)
    moreover have "srrip_loop (int lo) (int hi) es = Inr (int v, es)"
      using "1.prems" fz Some by (subst srrip_loop.simps) (simp add: ups)
    ultimately show ?thesis using \<open>ripctr (es ! v) = 0\<close> by (auto simp: aged_0)
  qed
qed
lemma srrip_victim:
  assumes "geometry_ok c" and "unat k < nsets c"
  shows "\<exists>v. first_min (unat k * nways c) (unat k * nways c + nways c) (entries c) v \<and>
    mcache_find_victim_srrip c k =
      Inr (int v, c\<lparr>entries := aged (unat k * nways c) (unat k * nways c + nways c) (ripctr (entries c ! v)) (entries c)\<rparr>)"
proof -
  note s = set_start [OF assms]
  have "0 < nways c" using assms(1) by (simp add: geometry_ok_def)
  then obtain v where "first_min (unat k * nways c) (unat k * nways c + nways c) (entries c) v"
    "srrip_loop (int (unat k * nways c)) (int (unat k * nways c + nways c)) (entries c) =
       Inr (int v, aged (unat k * nways c) (unat k * nways c + nways c) (ripctr (entries c ! v)) (entries c))"
    using srrip_loop_result [of "unat k * nways c" "unat k * nways c + nways c" "entries c"] s(3) by force
  then show ?thesis unfolding mcache_find_victim_srrip_def uint_nat s(1,2) by auto
qed

text \<open>C20. When a set has ways, the search for a victim under the SRRIP policy ends; it picks the first way with the
  smallest counter, and the counters of the set have gone down by that smallest value, the others of the
  cache not at all.\<close>

theorem srrip_victim_first_min:
  assumes "geometry_ok c" and "unat k < nsets c"
  shows "\<exists>v. first_min (unat k * nways c) (unat k * nways c + nways c) (entries c) v \<and>
    mcache_find_victim_srrip c k =
      Inr (int v, c\<lparr>entries := aged (unat k * nways c) (unat k * nways c + nways c) (ripctr (entries c ! v)) (entries c)\<rparr>)"
  using assms by (rule srrip_victim)

definition full_cache :: "MCache_ReplPolicy \<Rightarrow> MCache" where
  "full_cache p = (mcache_new 1 2 0)\<lparr>repl_policy := p, s_count := 9, entries :=
     [\<lparr>valid = True, dirty = True, tag = 4, ripctr = 3, last_access = 5, orig_lineaddr = 0\<rparr>,
      \<lparr>valid = True, dirty = False, tag = 7, ripctr = 2, last_access = 8, orig_lineaddr = 0\<rparr>]\<rparr>"

theorem srrip_victim_first_min_witness:
  "map_sum id fst (mcache_find_victim_srrip (full_cache REPL_SRRIP) 0) = Inr 1"
proof -
  have "geometry_ok (full_cache REPL_SRRIP)" "unat (0 :: u32) < nsets (full_cache REPL_SRRIP)"
    by (simp_all add: full_cache_def geometry_ok_def mcache_new_def)
  from srrip_victim_first_min [OF this] obtain v where
    v: "first_min 0 (Suc (Suc 0)) (entries (full_cache REPL_SRRIP)) v" "map_sum id fst (mcache_find_victim_srrip (full_cache REPL_SRRIP) 0) = Inr (int v)"
    by (auto simp: full_cache_def mcache_new_def numeral_2_eq_2 [symmetric])
  have "v = 0 \<or> v = 1" "ripctr (entries (full_cache REPL_SRRIP) ! v) \<le> ripctr (entries (full_cache REPL_SRRIP) ! 1)"
    using v(1) by (auto simp: first_min_def)
  then have "v = 1" by (auto simp: full_cache_def)
  then show ?thesis using v(2) by simp
qed

text \<open>Equality of two caches as far as the lines and the order of their use go.\<close>

definition same_lines :: "MCache \<Rightarrow> MCache \<Rightarrow> bool" where
  "same_lines c c' \<longleftrightarrow> same_geometry c c' \<and> s_count c' = s_count c \<and> evicted_dirty_line c' = evicted_dirty_line c \<and>
     (\<forall>i < length (entries c). valid (entries c' ! i) = valid (entries c ! i) \<and> dirty (entries c' ! i) = dirty (entries c ! i) \<and>
        tag (entries c' ! i) = tag (entries c ! i) \<and> last_access (entries c' ! i) = last_access (entries c ! i))"

lemma same_lines_refl: "same_lines c c"
  by (simp add: same_lines_def same_geometry_def)

section \<open>The other policies\<close>

lemma lowest_scan_min:
  "low < length es \<Longrightarrow> \<forall>i \<in> set is. i < length es \<Longrightarrow>
     \<exists>v \<in> insert low (set is). lowest_scan es (int low) (map int is) = Inr (int v) \<and>
       (\<forall>i \<in> insert low (set is). last_access (es ! v) \<le> last_access (es ! i))"
proof (induction "is" arbitrary: low)
  case (Cons i "is")
  let ?low = "if last_access (es ! i) < last_access (es ! low) then i else low"
  have "?low < length es" using Cons.prems by simp
  then obtain v where v: "v \<in> insert ?low (set is)" "lowest_scan es (int ?low) (map int is) = Inr (int v)"
    "\<forall>j \<in> insert ?low (set is). last_access (es ! v) \<le> last_access (es ! j)"
    using Cons.IH [of ?low] Cons.prems(2) by auto
  have "last_access (es ! ?low) \<le> last_access (es ! i) \<and> last_access (es ! ?low) \<le> last_access (es ! low)" by auto
  then have "\<forall>j \<in> insert low (set (i # is)). last_access (es ! v) \<le> last_access (es ! j)"
    using v(3) by (auto intro: order_trans)
  moreover have "v \<in> insert low (set (i # is))" using v(1) by (auto split: if_splits)
  moreover have "lowest_scan es (int low) (map int (i # is)) = Inr (int v)"
    using v(2) Cons.prems by (simp add: vec_get_def if_distrib [of int])
  ultimately show ?case by blast
qed simp

lemma first_way_slot: "0 < nways c \<Longrightarrow> insert (k * nways c) (set (way_slots c k)) = set (way_slots c k)"
  by (auto simp: way_slots_def)

lemma lru_victim:
  assumes "geometry_ok c" and "unat k < nsets c"
  shows "\<exists>v \<in> set (way_slots c (unat k)). mcache_find_victim_lru c k = Inr (int v) \<and>
    (\<forall>i \<in> set (way_slots c (unat k)). last_access (entries c ! v) \<le> last_access (entries c ! i))"
proof -
  have A: "0 < nways c" using assms(1) by (simp add: geometry_ok_def)
  have r: "\<forall>i \<in> set (way_slots c (unat k)). i < length (entries c)" using slots_in_range [OF assms] by blast
  then have "unat k * nways c < length (entries c)" using first_way_slot [OF A, of "unat k"] by blast
  from lowest_scan_min [OF this r] show ?thesis
    unfolding mcache_find_victim_lru_def uint_nat set_start(1) [OF assms] ways_slots(1) [OF assms] first_way_slot [OF A] .
qed

lemma rnd_victim:
  assumes "geometry_ok c" and "unat k < nsets c"
  shows "\<exists>v \<in> set (way_slots c (unat k)). \<exists>r'. mcache_find_victim_rnd c k r = Inr (int v, r')"
proof -
  note s = set_start [OF assms]
  have A: "0 < nways c" using assms(1) by (simp add: geometry_ok_def)
  then have nz: "assocs c \<noteq> 0" by auto
  define w where "w = (word_of_int (fst (rand r)) :: u32) mod assocs c"
  have "unat w < nways c" using A by (simp add: w_def unat_mod)
  then have "unat (k * assocs c + w) = unat k * nways c + unat w"
    using s by (simp add: unat_add_lem [THEN iffD1])
  then have "unat (k * assocs c + w) \<in> set (way_slots c (unat k))" using \<open>unat w < nways c\<close> by (simp add: way_slots_def)
  moreover have "mcache_find_victim_rnd c k r = Inr (int (unat (k * assocs c + w)), snd (rand r))"
    using nz by (cases "rand r") (simp add: mcache_find_victim_rnd_def rem_word_def w_def)
  ultimately show ?thesis by blast
qed

lemma wbt_scan_ok:
  "low < length es \<Longrightarrow> \<forall>i \<in> set is. i < length es \<and> valid (es ! i) \<Longrightarrow>
     (found \<longrightarrow> \<not> dirty (es ! low) \<or> wb < tth) \<Longrightarrow>
     \<exists>v \<in> insert low (set is). \<exists>f. wbt_scan tth wb es found (int low) (map int is) = Inr (f, int v) \<and>
       (f \<longrightarrow> \<not> dirty (es ! v) \<or> wb < tth) \<and> (f \<longleftrightarrow> found \<or> (\<exists>i \<in> set is. \<not> dirty (es ! i) \<or> wb < tth))"
proof (induction "is" arbitrary: low found)
  case (Cons i "is")
  have i: "i < length es" "valid (es ! i)" and rest: "\<forall>j \<in> set is. j < length es \<and> valid (es ! j)" using Cons.prems(2) by auto
  let ?take = "(\<not> found \<or> last_access (es ! i) < last_access (es ! low)) \<and> (\<not> dirty (es ! i) \<or> wb < tth)"
  show ?case
  proof (cases ?take)
    case True
    then have ok: "True \<longrightarrow> \<not> dirty (es ! i) \<or> wb < tth" by blast
    obtain v f where v: "v \<in> insert i (set is)" "wbt_scan tth wb es True (int i) (map int is) = Inr (f, int v)"
      "f \<longrightarrow> \<not> dirty (es ! v) \<or> wb < tth" "f \<longleftrightarrow> True \<or> (\<exists>i \<in> set is. \<not> dirty (es ! i) \<or> wb < tth)"
      using Cons.IH [OF i(1) rest ok] by blast
    then have f by simp
    have "wbt_scan tth wb es found (int low) (map int (i # is)) = Inr (True, int v)"
      using True i Cons.prems(1) v(2) \<open>f\<close> by (cases found) (auto simp: vec_get_def)
    moreover have "\<exists>j \<in> set (i # is). \<not> dirty (es ! j) \<or> wb < tth" using True by auto
    ultimately show ?thesis using v(1,3) \<open>f\<close> by (intro bexI [of _ v] exI [of _ True]) simp_all
  next
    case False
    obtain v f where v: "v \<in> insert low (set is)" "wbt_scan tth wb es found (int low) (map int is) = Inr (f, int v)"
      "f \<longrightarrow> \<not> dirty (es ! v) \<or> wb < tth" "f \<longleftrightarrow> found \<or> (\<exists>i \<in> set is. \<not> dirty (es ! i) \<or> wb < tth)"
      using Cons.IH [OF Cons.prems(1) rest Cons.prems(3)] by blast
    have "wbt_scan tth wb es found (int low) (map int (i # is)) = Inr (f, int v)"
      using False i Cons.prems(1) v(2) by (cases found) (auto simp: vec_get_def)
    moreover have "f \<longleftrightarrow> found \<or> (\<exists>j \<in> set (i # is). \<not> dirty (es ! j) \<or> wb < tth)"
      using v(4) False by auto
    moreover have "v \<in> insert low (set (i # is))" using v(1) by auto
    ultimately show ?thesis using v(3) by blast
  qed
qed simp
text \<open>Once the limit of write-backs is reached, a full set that has a clean line gives up a clean line.\<close>

lemma wbt_victim:
  assumes "geometry_ok c" and "unat k < nsets c" and "\<forall>i \<in> set (way_slots c (unat k)). valid (entries c ! i)"
  shows "\<exists>v \<in> set (way_slots c (unat k)). \<exists>c'. mcache_find_victim_lru_wbt tth c k = Inr (int v, c') \<and>
    same_lines c c' \<and>
    (\<not> wb_in_2k_epoch c < tth \<longrightarrow> (\<exists>i \<in> set (way_slots c (unat k)). \<not> dirty (entries c ! i)) \<longrightarrow> \<not> dirty (entries c ! v))"
proof -
  have A: "0 < nways c" using assms(1) by (simp add: geometry_ok_def)
  have r: "\<forall>i \<in> set (way_slots c (unat k)). i < length (entries c) \<and> valid (entries c ! i)"
    using slots_in_range [OF assms(1,2)] assms(3) by blast
  have r0: "unat k * nways c < length (entries c)" using r first_way_slot [OF A, of "unat k"] by blast
  obtain v f where v: "v \<in> set (way_slots c (unat k))"
    "wbt_scan tth (wb_in_2k_epoch c) (entries c) False (uint (k * assocs c)) (ways c k) = Inr (f, int v)"
    "f \<longrightarrow> \<not> dirty (entries c ! v) \<or> wb_in_2k_epoch c < tth"
    "f \<longleftrightarrow> (\<exists>i \<in> set (way_slots c (unat k)). \<not> dirty (entries c ! i) \<or> wb_in_2k_epoch c < tth)"
    using wbt_scan_ok [OF r0 r, of False "wb_in_2k_epoch c" tth]
    unfolding first_way_slot [OF A] uint_nat set_start(1) [OF assms(1,2)] ways_slots(1) [OF assms(1,2)] by blast
  obtain u where u: "u \<in> set (way_slots c (unat k))" "mcache_find_victim_lru c k = Inr (int u)"
    using lru_victim [OF assms(1,2)] by blast
  let ?v = "if f then v else u"
  have in_range: "vec_get (entries c) (int i) = Inr (entries c ! i)" if "i \<in> {u, v}" for i
    using that u v r by (auto simp: vec_get_def)
  have "\<exists>c'. mcache_find_victim_lru_wbt tth c k = Inr (int ?v, c') \<and> same_lines c c'"
    using in_range by (cases f) (auto simp: mcache_find_victim_lru_wbt_def v(2) u(2) same_lines_def same_geometry_def)
  moreover have "?v \<in> set (way_slots c (unat k))" using u v by simp
  moreover have "\<not> wb_in_2k_epoch c < tth \<longrightarrow> (\<exists>i \<in> set (way_slots c (unat k)). \<not> dirty (entries c ! i)) \<longrightarrow> \<not> dirty (entries c ! ?v)"
    using v(3,4) by auto
  ultimately show ?thesis by blast
qed

section \<open>Installing a line\<close>

lemma same_lines_view:
  assumes "same_lines c c'"
  shows "line_at c' = line_at c" and "cache_wf c' = cache_wf c" and "held c' = held c" and "dirty_lines c' = dirty_lines c"
proof -
  have s: "length (entries c') = length (entries c)" "sets c' = sets c" "assocs c' = assocs c" "index_policy c' = index_policy c"
    "repl_policy c' = repl_policy c"
    using assms by (auto simp: same_lines_def same_geometry_def)
  show la: "line_at c' = line_at c" using assms s by (auto simp: same_lines_def line_at_def fun_eq_iff)
  have t: "tag (entries c' ! i) = tag (entries c ! i)" "dirty (entries c' ! i) = dirty (entries c ! i)" if "line_at c i" for i
    using assms that by (auto simp: same_lines_def line_at_def)
  show "held c' = held c" "dirty_lines c' = dirty_lines c"
    unfolding held_def dirty_lines_def la using t by (auto 0 3) metis+
  show "cache_wf c' = cache_wf c"
    unfolding cache_wf_def la geometry_ok_def set_of_def s using t by (auto 0 3)
qed

lemma find_victim_ok:
  assumes "geometry_ok c" and "unat k < nsets c" and "repl_policy c \<noteq> NUM_REPL_POLICY"
  shows "\<exists>i c' r'. mcache_find_victim tth c k r = Inr (int i, c', r') \<and> i \<in> set (way_slots c (unat k)) \<and> same_lines c c' \<and>
    (valid (entries c ! i) \<longrightarrow> (\<forall>j \<in> set (way_slots c (unat k)). valid (entries c ! j)) \<and>
       (repl_policy c = REPL_LRU \<longrightarrow> r' = r \<and> (\<forall>j \<in> set (way_slots c (unat k)). last_access (entries c ! i) \<le> last_access (entries c ! j)))) \<and>
    (\<not> valid (entries c ! i) \<longrightarrow> r' = r)"
proof -
  let ?w = "way_slots c (unat k)"
  have A: "0 < nways c" using assms(1) by (simp add: geometry_ok_def)
  have r: "\<forall>i \<in> set ?w. i < length (entries c)" using slots_in_range [OF assms(1,2)] by blast
  note fi = first_invalid_find [OF r, folded ways_slots(2) [OF assms(1,2)]]
  show ?thesis
  proof (cases "find (\<lambda>i. \<not> valid (entries c ! i)) ?w")
    case (Some i)
    then have "i \<in> set ?w" "\<not> valid (entries c ! i)" by (auto simp: find_Some_iff)
    then show ?thesis using Some fi by (intro exI [of _ i] exI [of _ c] exI [of _ r]) (simp add: mcache_find_victim_def same_lines_refl)
  next
    case None
    then have full: "\<forall>i \<in> set ?w. valid (entries c ! i)" by (simp add: find_None_iff)
    have fv: "mcache_find_victim tth c k r = (case repl_policy c of
            REPL_LRU \<Rightarrow> bind_res (mcache_find_victim_lru c k) (\<lambda>v. Inr (v, c, r))
          | REPL_RND \<Rightarrow> bind_res (mcache_find_victim_rnd c k r) (\<lambda>(v, r). Inr (v, c, r))
          | REPL_SRRIP \<Rightarrow> bind_res (mcache_find_victim_srrip c k) (\<lambda>(v, c). Inr (v, c, r))
          | REPL_LRU_WBT \<Rightarrow> bind_res (mcache_find_victim_lru_wbt tth c k) (\<lambda>(v, c). Inr (v, c, r))
          | NUM_REPL_POLICY \<Rightarrow> Inl (ExitWith 1))"
      using fi None by (simp add: mcache_find_victim_def)
    show ?thesis
    proof (cases "repl_policy c")
      case REPL_LRU
      then show ?thesis using lru_victim [OF assms(1,2)] fv full same_lines_refl by force
    next
      case REPL_RND
      then show ?thesis using rnd_victim [OF assms(1,2), of r] fv full same_lines_refl by force
    next
      case REPL_SRRIP
      obtain v where v: "first_min (unat k * nways c) (unat k * nways c + nways c) (entries c) v"
        "mcache_find_victim_srrip c k =
           Inr (int v, c\<lparr>entries := aged (unat k * nways c) (unat k * nways c + nways c) (ripctr (entries c ! v)) (entries c)\<rparr>)"
        using srrip_victim [OF assms(1,2)] by blast
      moreover have "v \<in> set ?w" using v(1) by (auto simp: first_min_def way_slots_def)
      ultimately show ?thesis
        using fv full REPL_SRRIP by (auto simp: same_lines_def same_geometry_def)
    next
      case REPL_LRU_WBT
      obtain v c' where "v \<in> set ?w" "mcache_find_victim_lru_wbt tth c k = Inr (int v, c')" "same_lines c c'"
        using wbt_victim [OF assms(1,2) full, of tth] by blast
      then show ?thesis using fv full REPL_LRU_WBT by auto
    qed (use assms(3) in simp)
  qed
qed
text \<open>The way a line went to, and what is reported of the one it replaced.\<close>

definition installed_at :: "MCache \<Rightarrow> u64 \<Rightarrow> nat \<Rightarrow> MCache \<Rightarrow> bool" where
  "installed_at c a i c' \<longleftrightarrow> i \<in> set (way_slots c (set_of c a)) \<and> same_geometry c c' \<and> s_count c' = s_count c \<and>
     (\<exists>c1 e. same_lines (c\<lparr>evicted_dirty_line := False\<rparr>) c1 \<and> entries c' = (entries c1)[i := e] \<and> valid e \<and> \<not> dirty e \<and> tag e = a \<and>
        last_access e = s_count c) \<and>
     (evicted_dirty_line c' \<longleftrightarrow> valid (entries c ! i) \<and> dirty (entries c ! i)) \<and>
     (evicted_dirty_line c' \<longrightarrow> evicted_line_addr c' = tag (entries c ! i)) \<and>
     (valid (entries c ! i) \<longrightarrow> (\<forall>j \<in> set (way_slots c (set_of c a)). valid (entries c ! j)) \<and>
        (repl_policy c = REPL_LRU \<longrightarrow> (\<forall>j \<in> set (way_slots c (set_of c a)). last_access (entries c ! i) \<le> last_access (entries c ! j))))"

lemma mcache_install_at:
  assumes "cache_wf c" and "a \<notin> held c"
  shows "succeeds (mcache_install tth c a r) (\<lambda>(c', r'). (\<exists>i. installed_at c a i c') \<and> (repl_policy c = REPL_LRU \<longrightarrow> r' = r))"
proof (cases rule: lookup_cases [OF assms(1), of a, case_names hit miss])
  case (hit k i)
  then show ?thesis using assms(2) by (auto simp: held_def)
next
  case (miss k)
  let ?c = "c\<lparr>evicted_dirty_line := False\<rparr>"
  have g: "geometry_ok ?c" "repl_policy ?c \<noteq> NUM_REPL_POLICY" "unat k < nsets ?c"
    using assms(1) miss(3) by (auto simp: cache_wf_def geometry_ok_def)
  have w: "ways ?c k = ways c k" "way_slots ?c (unat k) = way_slots c (set_of c a)" by (simp_all add: ways_def way_slots_def miss(2))
  obtain i c1 r1 where v: "mcache_find_victim tth ?c k r = Inr (int i, c1, r1)" "i \<in> set (way_slots c (set_of c a))" "same_lines ?c c1"
    "valid (entries c ! i) \<longrightarrow> (\<forall>j \<in> set (way_slots c (set_of c a)). valid (entries c ! j)) \<and>
       (repl_policy c = REPL_LRU \<longrightarrow> r1 = r \<and> (\<forall>j \<in> set (way_slots c (set_of c a)). last_access (entries c ! i) \<le> last_access (entries c ! j)))"
    "\<not> valid (entries c ! i) \<longrightarrow> r1 = r"
    using find_victim_ok [OF g(1,3,2), of tth r] unfolding w by auto
  have i: "i < length (entries c)" using slots_in_range [of c "set_of c a" i] assms(1) v(2) miss(2,3) by (simp add: cache_wf_def)
  have l: "length (entries c1) = length (entries c)" "s_count c1 = s_count c" "\<not> evicted_dirty_line c1"
    "valid (entries c1 ! i) = valid (entries c ! i)" "dirty (entries c1 ! i) = dirty (entries c ! i)" "tag (entries c1 ! i) = tag (entries c ! i)"
    using v(3) i by (auto simp: same_lines_def same_geometry_def)
  have get: "vec_get (entries c1) (int i) = Inr (entries c1 ! i)" "vec_set (entries c1) (int i) x = Inr ((entries c1)[i := x])" for x
    using i l(1) by (simp_all add: vec_get_def vec_set_def)
  let ?e = "(entries c1 ! i)\<lparr>tag := a, valid := True, dirty := False, ripctr := MCACHE_SRRIP_INIT, last_access := s_count c\<rparr>"
  have geo: "same_geometry c x" if "same_geometry c1 x" for x
    using v(3) that by (simp add: same_lines_def same_geometry_def)
  have inst: "installed_at c a i c'" if "same_geometry c1 c'" "s_count c' = s_count c" "entries c' = (entries c1)[i := ?e]"
    "evicted_dirty_line c' \<longleftrightarrow> valid (entries c ! i) \<and> dirty (entries c ! i)" "evicted_dirty_line c' \<longrightarrow> evicted_line_addr c' = tag (entries c ! i)" for c'
  proof -
    have "\<exists>c1 e. same_lines ?c c1 \<and> entries c' = (entries c1)[i := e] \<and> valid e \<and> \<not> dirty e \<and> tag e = a \<and> last_access e = s_count c"
      using v(3) that(3) by (intro exI [of _ c1] exI [of _ ?e]) simp
    then show ?thesis unfolding installed_at_def using v(2,4) geo [OF that(1)] that(2,4,5) by blast
  qed
  have "\<exists>x. mcache_install tth c a r = Inr (x, r1) \<and> same_geometry c1 x \<and> s_count x = s_count c \<and> entries x = (entries c1)[i := ?e] \<and>
      (evicted_dirty_line x \<longleftrightarrow> valid (entries c ! i) \<and> dirty (entries c ! i)) \<and>
      (evicted_dirty_line x \<longrightarrow> evicted_line_addr x = tag (entries c ! i))"
    by (simp add: mcache_install_def miss(1,4) w v(1) get Let_def l same_geometry_def)
  then obtain x where "mcache_install tth c a r = Inr (x, r1)" "installed_at c a i x" using inst by blast
  then show ?thesis using v(4,5) by auto
qed
lemma installed_nth:
  assumes "installed_at c a i c'" and "cache_wf c"
  shows "i < length (entries c)" and "line_at c' j \<longleftrightarrow> j = i \<or> line_at c j"
    and "j \<noteq> i \<Longrightarrow> j < length (entries c) \<Longrightarrow> tag (entries c' ! j) = tag (entries c ! j) \<and> dirty (entries c' ! j) = dirty (entries c ! j) \<and>
      last_access (entries c' ! j) = last_access (entries c ! j)"
    and "tag (entries c' ! i) = a" and "\<not> dirty (entries c' ! i)" and "last_access (entries c' ! i) = s_count c"
proof -
  have "0 < nsets c" using assms(2) by (simp add: cache_wf_def geometry_ok_def)
  then show i: "i < length (entries c)"
    using assms slots_in_range [of c "set_of c a" i] by (simp add: installed_at_def cache_wf_def set_of_def)
  obtain c1 e where c1: "same_lines (c\<lparr>evicted_dirty_line := False\<rparr>) c1" "entries c' = (entries c1)[i := e]" "valid e" "\<not> dirty e"
    "tag e = a" "last_access e = s_count c"
    using assms(1) unfolding installed_at_def by blast
  have l: "length (entries c1) = length (entries c)" using c1(1) by (simp add: same_lines_def same_geometry_def)
  have nth: "entries c' ! j = (if j = i then e else entries c1 ! j)" for j using i l c1(2) by (simp add: nth_list_update)
  show "line_at c' j \<longleftrightarrow> j = i \<or> line_at c j"
    using c1 i l by (auto simp: line_at_def nth_list_update same_lines_def)
  show "tag (entries c' ! j) = tag (entries c ! j) \<and> dirty (entries c' ! j) = dirty (entries c ! j) \<and>
      last_access (entries c' ! j) = last_access (entries c ! j)" if "j \<noteq> i" "j < length (entries c)"
    using c1(1) that by (simp add: nth same_lines_def)
  show "tag (entries c' ! i) = a" "\<not> dirty (entries c' ! i)" "last_access (entries c' ! i) = s_count c" using c1(3-) by (simp_all add: nth)
qed

lemma installed_wf:
  assumes "installed_at c a i c'" and "cache_wf c" and "a \<notin> held c"
  shows "cache_wf c'"
proof -
  obtain c1 e where c1: "same_lines (c\<lparr>evicted_dirty_line := False\<rparr>) c1" "entries c' = (entries c1)[i := e]" "tag e = a"
    using assms(1) unfolding installed_at_def by blast
  have A: "0 < nways c" using assms(2) by (simp add: cache_wf_def geometry_ok_def)
  have same: "same_lines c (c1\<lparr>evicted_dirty_line := evicted_dirty_line c\<rparr>)" using c1(1) by (auto simp: same_lines_def same_geometry_def)
  have wf: "cache_wf c1" "held c1 = held c"
    using same_lines_view(2,3) [OF same] assms(2) by (simp_all add: cache_wf_def geometry_ok_def set_of_def held_def line_at_def)
  have f: "same_geometry c c1" using same by (auto simp: same_lines_def same_geometry_def)
  show ?thesis
  proof (rule cache_wf_update [OF wf(1) _ _ c1(2)])
    show "same_geometry c1 c'" "i < length (entries c1)"
      using f assms(1) installed_nth(1) [OF assms(1,2)] by (auto simp: same_geometry_def installed_at_def)
    have "i div nways c = set_of c a" using assms(1) by (simp add: installed_at_def way_slots_iff [OF A])
    then show "set_of c1 (tag e) = i div nways c1 \<and> (\<forall>j. line_at c1 j \<longrightarrow> tag (entries c1 ! j) = tag e \<longrightarrow> j = i)"
      using f assms(3) wf(2) c1(3) by (auto simp: same_geometry_def set_of_def held_def)
  qed
qed

text \<open>C19. Installing a line that is not in the cache succeeds under every replacement policy and keeps the cache
  well formed; the line is held afterwards, at most one line of the same set is given up, and the cache
  reports a dirty victim, with its address, exactly when a dirty line was given up: no modified line
  disappears unnoticed.\<close>

theorem install_reports_victim:
  assumes "cache_wf c" and "a \<notin> held c"
  shows "succeeds (mcache_install tth c a r) (\<lambda>(c', r'). cache_wf c' \<and>
    (\<exists>V. (V = {} \<or> (\<exists>v \<in> held c. V = {v} \<and> set_of c v = set_of c a)) \<and> held c' = insert a (held c - V) \<and>
       dirty_lines c' = dirty_lines c - V \<and> (evicted_dirty_line c' \<longleftrightarrow> V \<inter> dirty_lines c \<noteq> {}) \<and>
       (evicted_dirty_line c' \<longrightarrow> V = {evicted_line_addr c'})))"
proof (rule succeeds_mono [OF mcache_install_at [OF assms, of tth r]], clarify)
  fix c' r' i assume at: "installed_at c a i c'"
  note n = installed_nth [OF at assms(1)]
  let ?V = "if valid (entries c ! i) then {tag (entries c ! i)} else {}"
  have A: "0 < nways c" using assms(1) by (simp add: cache_wf_def geometry_ok_def)
  have inj: "tag (entries c ! j) \<noteq> tag (entries c ! i)" if "line_at c j" "j \<noteq> i" "valid (entries c ! i)" for j
    using assms(1) that n(1) unfolding cache_wf_def line_at_def by blast
  have lt: "j < length (entries c)" if "line_at c j" for j using that by (simp add: line_at_def)
  have la_i: "line_at c i = valid (entries c ! i)" using n(1) by (simp add: line_at_def)
  have "held c' = insert a (held c - ?V)"
  proof -
    have "held c' = insert a {tag (entries c ! j) |j. line_at c j \<and> j \<noteq> i}"
      unfolding held_def n(2) using n(3,4) lt by (auto 0 3) metis+
    also have "{tag (entries c ! j) |j. line_at c j \<and> j \<noteq> i} = held c - ?V" using inj la_i unfolding held_def by auto
    finally show ?thesis .
  qed
  moreover have "dirty_lines c' = dirty_lines c - ?V"
  proof -
    have "dirty_lines c' = {tag (entries c ! j) |j. line_at c j \<and> dirty (entries c ! j) \<and> j \<noteq> i}"
      unfolding dirty_lines_def n(2) using n(3,5) lt by (auto 0 3) metis+
    also have "\<dots> = dirty_lines c - ?V" using inj la_i unfolding dirty_lines_def by auto
    finally show ?thesis .
  qed
  moreover have "?V = {} \<or> (\<exists>v \<in> held c. ?V = {v} \<and> set_of c v = set_of c a)"
    using at assms(1) la_i unfolding installed_at_def way_slots_iff [OF A] cache_wf_def held_def by auto
  moreover have "?V \<inter> dirty_lines c \<noteq> {} \<longleftrightarrow> valid (entries c ! i) \<and> dirty (entries c ! i)"
    using inj la_i unfolding dirty_lines_def by auto metis+
  ultimately show "cache_wf c' \<and>
    (\<exists>V. (V = {} \<or> (\<exists>v \<in> held c. V = {v} \<and> set_of c v = set_of c a)) \<and> held c' = insert a (held c - V) \<and>
       dirty_lines c' = dirty_lines c - V \<and> (evicted_dirty_line c' \<longleftrightarrow> V \<inter> dirty_lines c \<noteq> {}) \<and>
       (evicted_dirty_line c' \<longrightarrow> V = {evicted_line_addr c'}))"
    using installed_wf [OF at assms] at unfolding installed_at_def by (intro conjI exI [of _ ?V]) auto
qed
lemma full_cache_line: "line_at (full_cache p) i \<longleftrightarrow> i = 0 \<or> i = 1"
  by (auto simp: line_at_def full_cache_def nth_Cons' less_Suc_eq)

lemma full_cache_wf:
  assumes "p \<noteq> NUM_REPL_POLICY"
  shows "cache_wf (full_cache p)"
  unfolding cache_wf_def full_cache_line
proof (intro conjI allI impI)
  show "geometry_ok (full_cache p)" "repl_policy (full_cache p) \<noteq> NUM_REPL_POLICY"
    using assms by (simp_all add: geometry_ok_def full_cache_def mcache_new_def)
  show "set_of (full_cache p) (tag (entries (full_cache p) ! i)) = i div nways (full_cache p)" if "i = 0 \<or> i = 1" for i
    using that by (auto simp: set_of_def full_cache_def mcache_new_def)
  show "i = j" if "i = 0 \<or> i = 1" "j = 0 \<or> j = 1" "tag (entries (full_cache p) ! i) = tag (entries (full_cache p) ! j)" for i j
    using that by (elim disjE) (simp_all add: full_cache_def)
qed

lemma full_cache_held: "held (full_cache p) = {4, 7}"
  unfolding held_def full_cache_line setcompr_eq_image by (simp add: Collect_disj_eq full_cache_def insert_commute)

theorem install_reports_victim_witness:
  "succeeds (mcache_install 0 (full_cache REPL_LRU) 9 \<lparr>rand_seq = \<lambda>_. 0, rand_pos = 0\<rparr>) (\<lambda>(c', r'). cache_wf c' \<and> 9 \<in> held c')"
proof -
  have "cache_wf (full_cache REPL_LRU)" "9 \<notin> held (full_cache REPL_LRU)" by (simp_all add: full_cache_wf full_cache_held)
  from install_reports_victim [OF this] show ?thesis by (rule succeeds_mono) auto
qed

end
