(* ===== verification/MCache_LRU.thy ===== *)
theory MCache_LRU
  imports MCache_Correct
begin

text \<open>
  The LRU policy refines its textbook description.  A set of the cache is abstracted to the list of its lines,
  most recently used first, each with its dirty flag; a read moves the line to the front or, on a miss, puts a
  clean line there and drops what does not fit.  The time stamps of the entries carry the order.
\<close>

section \<open>The order of use\<close>

abbreviation stamp :: "MCache \<Rightarrow> nat \<Rightarrow> u64" where
  "stamp c i \<equiv> last_access (entries c ! i)"

definition use_order :: "MCache \<Rightarrow> nat \<Rightarrow> nat list" where
  "use_order c k = rev (sort_key (stamp c) (filter (\<lambda>i. valid (entries c ! i)) (way_slots c k)))"

definition lru_list :: "MCache \<Rightarrow> nat \<Rightarrow> (u64 \<times> bool) list" where
  "lru_list c k = map (\<lambda>i. (tag (entries c ! i), dirty (entries c ! i))) (use_order c k)"

definition lru_touch :: "nat \<Rightarrow> u64 \<Rightarrow> (u64 \<times> bool) list \<Rightarrow> (u64 \<times> bool) list" where
  "lru_touch n a l =
     (case map_of l a of
        Some d \<Rightarrow> (a, d) # filter (\<lambda>p. fst p \<noteq> a) l
      | None \<Rightarrow> (a, False) # take (n - 1) l)"

definition stamps_ok :: "MCache \<Rightarrow> bool" where
  "stamps_ok c \<longleftrightarrow> (\<forall>i. line_at c i \<longrightarrow> stamp c i \<le> s_count c) \<and>
     (\<forall>i j. line_at c i \<longrightarrow> line_at c j \<longrightarrow> i div nways c = j div nways c \<longrightarrow> stamp c i = stamp c j \<longrightarrow> i = j)"

text \<open>The lines of a set, by their ways.\<close>

definition occupied :: "MCache \<Rightarrow> nat \<Rightarrow> nat set" where
  "occupied c k = {i. line_at c i \<and> i div nways c = k}"

lemma set_use_order:
  assumes "geometry_ok c" and "k < nsets c"
  shows "set (use_order c k) = occupied c k" and "distinct (use_order c k)"
proof -
  have A: "0 < nways c" using assms(1) by (simp add: geometry_ok_def)
  show "set (use_order c k) = occupied c k"
    using slots_in_range [OF assms] by (auto simp: use_order_def occupied_def line_at_def way_slots_iff [OF A])
  show "distinct (use_order c k)" by (simp add: use_order_def way_slots_def)
qed

lemma use_order_sorted:
  assumes "geometry_ok c" and "k < nsets c" and "stamps_ok c"
  shows "sorted_wrt (\<lambda>i j. stamp c j < stamp c i) (use_order c k)"
proof -
  let ?l = "sort_key (stamp c) (filter (\<lambda>i. valid (entries c ! i)) (way_slots c k))"
  have "inj_on (stamp c) (set ?l)"
    using set_use_order(1) [OF assms(1,2)] assms(3) by (fastforce simp: inj_on_def use_order_def occupied_def stamps_ok_def)
  then have "distinct (map (stamp c) ?l)" by (simp add: distinct_map way_slots_def)
  then have "sorted_wrt (<) (map (stamp c) ?l)" by (simp add: strict_sorted_iff)
  then show ?thesis by (simp add: use_order_def sorted_wrt_rev sorted_wrt_map)
qed

text \<open>The order is the only strictly decreasing arrangement of the lines of the set.\<close>

lemma use_order_unique:
  assumes "geometry_ok c" and "k < nsets c" and "stamps_ok c" and "set l = occupied c k" and "sorted_wrt (\<lambda>i j. stamp c j < stamp c i) l"
  shows "use_order c k = l"
proof -
  have srt: "sorted_wrt (<) (map (stamp c) (rev l))" "sorted_wrt (<) (map (stamp c) (rev (use_order c k)))"
    using assms(5) use_order_sorted [OF assms(1-3)] by (simp_all add: sorted_wrt_rev sorted_wrt_map)
  have "map (stamp c) (rev l) = map (stamp c) (rev (use_order c k))"
    by (rule strict_sorted_equal [OF srt(2,1)]) (simp add: assms(4) set_use_order [OF assms(1,2)])
  moreover have "inj_on (stamp c) (set (rev l) \<union> set (rev (use_order c k)))"
    using assms(3,4) set_use_order(1) [OF assms(1,2)] by (fastforce simp: inj_on_def occupied_def stamps_ok_def)
  ultimately have "rev l = rev (use_order c k)" by (rule map_inj_on)
  then show ?thesis by simp
qed
section \<open>Putting a way in front\<close>

text \<open>The way \<open>i\<close> is used or filled at a time later than all other uses.\<close>

definition way_used :: "MCache \<Rightarrow> nat \<Rightarrow> MCache \<Rightarrow> bool" where
  "way_used c i c' \<longleftrightarrow> same_geometry c c' \<and> i < length (entries c) \<and> (\<forall>j. line_at c' j \<longleftrightarrow> j = i \<or> line_at c j) \<and>
     (\<forall>j. line_at c j \<longrightarrow> j \<noteq> i \<longrightarrow> stamp c' j = stamp c j \<and> tag (entries c' ! j) = tag (entries c ! j) \<and>
        dirty (entries c' ! j) = dirty (entries c ! j)) \<and>
     stamp c' i = s_count c' \<and> (\<forall>j. line_at c j \<longrightarrow> stamp c j < s_count c')"

lemma way_used_stamps: "way_used c i c' \<Longrightarrow> stamps_ok c \<Longrightarrow> stamps_ok c'"
  unfolding stamps_ok_def way_used_def same_geometry_def by (metis dual_order.refl order_less_imp_le order_less_irrefl)

lemma way_used_order:
  assumes "way_used c i c'" and "geometry_ok c" and "stamps_ok c" and "k < nsets c"
  shows "use_order c' k = (if k = i div nways c then i # filter (\<lambda>j. j \<noteq> i) (use_order c k) else use_order c k)"
proof (rule use_order_unique)
  have f: "sets c' = sets c" "assocs c' = assocs c" using assms(1) by (auto simp: way_used_def same_geometry_def)
  show "geometry_ok c'" "k < nsets c'" using assms by (auto simp: way_used_def same_geometry_def geometry_ok_def)
  show "stamps_ok c'" using way_used_stamps [OF assms(1,3)] .
  note s = set_use_order(1) [OF assms(2,4)]
  have occ: "occupied c' k = (if k = i div nways c then insert i (occupied c k) else occupied c k)"
    using assms(1) by (auto simp: occupied_def way_used_def f)
  then show "set (if k = i div nways c then i # filter (\<lambda>j. j \<noteq> i) (use_order c k) else use_order c k) = occupied c' k"
    using s by auto
  have old: "stamp c' j = stamp c j \<and> stamp c j < s_count c'" if "j \<in> occupied c k" "j \<noteq> i" for j
    using assms(1) that by (auto simp: way_used_def occupied_def)
  have "sorted_wrt (\<lambda>a b. stamp c' b < stamp c' a) (filter (\<lambda>j. j \<noteq> i) (use_order c k))"
    using sorted_wrt_filter [OF use_order_sorted [OF assms(2,4,3)], of "\<lambda>j. j \<noteq> i"]
    by (rule sorted_wrt_mono_rel [rotated]) (use old s in auto)
  moreover have "filter (\<lambda>j. j \<noteq> i) (use_order c k) = use_order c k" if "k \<noteq> i div nways c"
    using that s by (intro filter_True) (auto simp: occupied_def)
  moreover have "\<forall>j \<in> set (filter (\<lambda>j. j \<noteq> i) (use_order c k)). stamp c' j < stamp c' i"
    using old s assms(1) by (auto simp: way_used_def)
  ultimately show "sorted_wrt (\<lambda>a b. stamp c' b < stamp c' a)
      (if k = i div nways c then i # filter (\<lambda>j. j \<noteq> i) (use_order c k) else use_order c k)"
    by auto
qed

lemma way_used_list:
  assumes "way_used c i c'" and "geometry_ok c" and "stamps_ok c" and "k < nsets c"
  shows "lru_list c' k =
    (if k = i div nways c
     then (tag (entries c' ! i), dirty (entries c' ! i)) #
          map (\<lambda>j. (tag (entries c ! j), dirty (entries c ! j))) (filter (\<lambda>j. j \<noteq> i) (use_order c k))
     else lru_list c k)"
proof -
  have "tag (entries c' ! j) = tag (entries c ! j) \<and> dirty (entries c' ! j) = dirty (entries c ! j)" if "j \<in> set (use_order c k)" "j \<noteq> i" for j
    using assms(1) that set_use_order(1) [OF assms(2,4)] by (auto simp: way_used_def occupied_def)
  moreover have "i \<notin> set (use_order c k)" if "k \<noteq> i div nways c"
    using that set_use_order(1) [OF assms(2,4)] by (auto simp: occupied_def)
  ultimately show ?thesis
    unfolding lru_list_def way_used_order [OF assms] by (auto intro!: map_cong)
qed

section \<open>Reads\<close>

lemma inc_greater:
  assumes "s \<noteq> - 1" and "x \<le> (s :: u64)"
  shows "x < s + 1"
proof -
  have "1 + s \<noteq> 0" using assms(1) by (simp add: add_eq_0_iff)
  from unatSuc [OF this] assms(2) show ?thesis by (simp add: word_less_nat_alt word_le_nat_alt add.commute)
qed

lemma access_hit:
  assumes "cache_wf c" and "a \<in> held c"
  shows "\<exists>i c'. mcache_access c a = Inr (True, c') \<and> line_at c i \<and> tag (entries c ! i) = a \<and> i div nways c = set_of c a \<and>
    same_geometry c c' \<and> s_count c' = s_count c + 1 \<and>
    entries c' = (entries c)[i := (entries c ! i)\<lparr>last_access := s_count c + 1, ripctr := MCACHE_SRRIP_MAX\<rparr>]"
proof (cases rule: lookup_cases [OF assms(1), of a, case_names hit miss])
  case (hit k i)
  then have i: "i < length (entries c)" by (simp add: line_at_def)
  have "ways (c\<lparr>s_count := s_count c + 1\<rparr>) k = ways c k" by (simp add: ways_def)
  then show ?thesis using hit i by (auto simp: mcache_access_def Let_def vec_upd_def vec_get_def vec_set_def same_geometry_def)
qed (use assms(2) in simp)

lemma access_miss:
  assumes "cache_wf c" and "a \<notin> held c"
  shows "\<exists>c'. mcache_access c a = Inr (False, c') \<and> same_geometry c c' \<and> entries c' = entries c \<and> s_count c' = s_count c + 1"
proof (cases rule: lookup_cases [OF assms(1), of a, case_names hit miss])
  case (miss k)
  have "ways (c\<lparr>s_count := s_count c + 1\<rparr>) k = ways c k" by (simp add: ways_def)
  then show ?thesis using miss by (auto simp: mcache_access_def Let_def same_geometry_def)
qed (use assms(2) in \<open>auto simp: held_def\<close>)

lemma same_entries_view:
  assumes "same_geometry c c'" and "entries c' = entries c"
  shows "line_at c' = line_at c" and "held c' = held c" and "cache_wf c' = cache_wf c" and "geometry_ok c' = geometry_ok c"
    and "set_of c' = set_of c" and "use_order c' = use_order c" and "lru_list c' = lru_list c" and "way_slots c' = way_slots c"
proof -
  show la: "line_at c' = line_at c" using assms by (auto simp: line_at_def fun_eq_iff)
  show ge: "geometry_ok c' = geometry_ok c" "set_of c' = set_of c" using assms by (auto simp: geometry_ok_def same_geometry_def set_of_def)
  show "held c' = held c" unfolding held_def la assms(2) ..
  show "cache_wf c' = cache_wf c" using assms(1) unfolding cache_wf_def la ge assms(2) by (simp add: same_geometry_def)
  show ws: "way_slots c' = way_slots c" using assms by (auto simp: way_slots_def same_geometry_def fun_eq_iff)
  show uo: "use_order c' = use_order c" unfolding use_order_def ws assms(2) ..
  show "lru_list c' = lru_list c" unfolding lru_list_def uo assms(2) ..
qed

text \<open>A line is in the cache exactly when it is in the list of its set.\<close>

lemma held_lru_list:
  assumes "cache_wf c"
  shows "a \<in> held c \<longleftrightarrow> a \<in> fst ` set (lru_list c (set_of c a))"
proof -
  have g: "geometry_ok c" "set_of c a < nsets c" using assms by (auto simp: cache_wf_def geometry_ok_def set_of_def)
  have "set_of c (tag (entries c ! i)) = i div nways c" if "line_at c i" for i using assms that by (simp add: cache_wf_def)
  then show ?thesis by (auto simp: held_def lru_list_def set_use_order [OF g] occupied_def image_image)
qed

lemma hit_list:
  assumes "cache_wf c" and "stamps_ok c" and "s_count c \<noteq> - 1" and "a \<in> held c"
  shows "\<exists>c'. mcache_access c a = Inr (True, c') \<and> cache_wf c' \<and> stamps_ok c' \<and> same_geometry c c' \<and>
    (\<forall>k < nsets c. lru_list c' k = (if k = set_of c a then lru_touch (nways c) a (lru_list c k) else lru_list c k))"
proof -
  obtain i c' where h: "mcache_access c a = Inr (True, c')" "line_at c i" "tag (entries c ! i) = a" "i div nways c = set_of c a"
    "same_geometry c c'" "s_count c' = s_count c + 1"
    "entries c' = (entries c)[i := (entries c ! i)\<lparr>last_access := s_count c + 1, ripctr := MCACHE_SRRIP_MAX\<rparr>]"
    using access_hit [OF assms(1,4)] by blast
  have g: "geometry_ok c" using assms(1) by (simp add: cache_wf_def)
  have i: "i < length (entries c)" "valid (entries c ! i)" using h(2) by (auto simp: line_at_def)
  have late: "stamp c j < s_count c + 1" if "line_at c j" for j
    using assms(2) that by (intro inc_greater [OF assms(3)]) (simp add: stamps_ok_def)
  have used: "way_used c i c'"
    unfolding way_used_def using h(5,6) i late line_at_update [OF i(1) h(7)] by (auto simp: h(7) h(2))
  have only: "tag (entries c ! j) = a \<longleftrightarrow> j = i" if "line_at c j" for j
    using assms(1) that h(2,3) unfolding cache_wf_def by blast
  have "cache_wf c'"
    by (rule cache_wf_update [OF assms(1) h(5) i(1) h(7)]) (use h(3,4) only in auto)
  moreover have "lru_list c' k = (if k = set_of c a then lru_touch (nways c) a (lru_list c k) else lru_list c k)" if k: "k < nsets c" for k
  proof (cases "k = set_of c a")
    case True
    note so = set_use_order [OF g k]
    have io: "i \<in> set (use_order c k)" using so(1) h(2,4) True by (simp add: occupied_def)
    have "filter (\<lambda>p. fst p \<noteq> a) (lru_list c k) = map (\<lambda>j. (tag (entries c ! j), dirty (entries c ! j))) (filter (\<lambda>j. j \<noteq> i) (use_order c k))"
      unfolding lru_list_def filter_map comp_def using only so(1) by (intro arg_cong [of _ _ "map _"] filter_cong) (auto simp: occupied_def)
    moreover have "map_of (lru_list c k) a = Some (dirty (entries c ! i))"
    proof (rule map_of_is_SomeI)
      have "inj_on (\<lambda>j. tag (entries c ! j)) (set (use_order c k))"
        using assms(1) so(1) unfolding cache_wf_def inj_on_def occupied_def by blast
      then show "distinct (map fst (lru_list c k))" using so(2) by (simp add: lru_list_def distinct_map comp_def)
      show "(a, dirty (entries c ! i)) \<in> set (lru_list c k)" using io h(3) by (force simp: lru_list_def)
    qed
    ultimately show ?thesis
      using way_used_list [OF used g assms(2) k] True h(3,4) i by (simp add: lru_touch_def h(7))
  next
    case False
    then show ?thesis using way_used_list [OF used g assms(2) k] h(4) by simp
  qed
  ultimately show ?thesis using h(1,5) way_used_stamps [OF used assms(2)] by blast
qed
text \<open>The way that a new line takes is the last of a full set, or a free one.\<close>

lemma installed_drop:
  assumes "installed_at c a i c'" and "cache_wf c" and "stamps_ok c" and "repl_policy c = REPL_LRU"
  defines "k \<equiv> set_of c a"
  shows "filter (\<lambda>j. j \<noteq> i) (use_order c k) = take (nways c - 1) (use_order c k)"
    and "valid (entries c ! i) \<longleftrightarrow> length (use_order c k) = nways c"
    and "valid (entries c ! i) \<Longrightarrow> last (use_order c k) = i \<and> use_order c k \<noteq> []"
proof -
  have g: "geometry_ok c" "k < nsets c" using assms(2) by (auto simp: k_def cache_wf_def geometry_ok_def set_of_def)
  have A: "0 < nways c" using g(1) by (simp add: geometry_ok_def)
  note so = set_use_order [OF g] and srt = use_order_sorted [OF g assms(3)]
  have i: "i \<in> set (way_slots c k)" using assms(1) by (simp add: installed_at_def k_def)
  have i_lt: "i < length (entries c)" using installed_nth(1) [OF assms(1,2)] .
  have occ: "occupied c k = {j \<in> set (way_slots c k). valid (entries c ! j)}"
    using slots_in_range [OF g] by (auto simp: occupied_def line_at_def way_slots_iff [OF A])
  have cards: "length (use_order c k) = card (occupied c k)" "card (set (way_slots c k)) = nways c"
    using so by (simp_all add: distinct_card [symmetric] way_slots_def)
  show iff: "valid (entries c ! i) \<longleftrightarrow> length (use_order c k) = nways c"
  proof
    assume "valid (entries c ! i)"
    then have "occupied c k = set (way_slots c k)" using assms(1) unfolding installed_at_def k_def [symmetric] occ by blast
    then show "length (use_order c k) = nways c" using cards by simp
  next
    assume "length (use_order c k) = nways c"
    then have "occupied c k = set (way_slots c k)" using cards unfolding occ by (intro card_subset_eq) auto
    then show "valid (entries c ! i)" using i occ by blast
  qed
  show lst: "last (use_order c k) = i \<and> use_order c k \<noteq> []" if v: "valid (entries c ! i)"
  proof -
    have io: "i \<in> set (use_order c k)" using v i so(1) occ by simp
    then have ne: "use_order c k \<noteq> []" by auto
    then obtain ys l where u: "use_order c k = ys @ [l]" by (metis rev_exhaust)
    have "\<forall>j \<in> set (use_order c k). stamp c i \<le> stamp c j"
      using assms(1,4) v so(1) occ unfolding installed_at_def k_def by blast
    then have "i \<notin> set ys" using srt u by (fastforce simp: sorted_wrt_append)
    then show ?thesis using io u by auto
  qed
  show "filter (\<lambda>j. j \<noteq> i) (use_order c k) = take (nways c - 1) (use_order c k)"
  proof (cases "valid (entries c ! i)")
    case True
    then obtain ys where u: "use_order c k = ys @ [i]" using lst by (metis append_butlast_last_id)
    then have "i \<notin> set ys" "length ys = nways c - 1" using so(2) iff True by auto
    moreover from this(1) have "filter (\<lambda>j. j \<noteq> i) ys = ys" by (intro filter_True) auto
    ultimately show ?thesis by (simp add: u)
  next
    case False
    then have "i \<notin> set (use_order c k)" using so(1) occ by simp
    then have "filter (\<lambda>j. j \<noteq> i) (use_order c k) = use_order c k" by (intro filter_True) auto
    moreover have "length (use_order c k) \<le> nways c" unfolding cards(1) cards(2) [symmetric] occ by (rule card_mono) auto
    ultimately show ?thesis using False iff by simp
  qed
qed

lemma installed_list:
  assumes "installed_at c a i c'" and "cache_wf c" and "stamps_ok c" and "repl_policy c = REPL_LRU" and "a \<notin> held c"
    and "\<And>j. line_at c j \<Longrightarrow> stamp c j < s_count c"
  shows "stamps_ok c'" and "\<forall>k < nsets c. lru_list c' k = (if k = set_of c a then lru_touch (nways c) a (lru_list c k) else lru_list c k)"
    and "evicted_dirty_line c' \<longleftrightarrow> length (lru_list c (set_of c a)) = nways c \<and> snd (last (lru_list c (set_of c a)))"
    and "evicted_dirty_line c' \<Longrightarrow> evicted_line_addr c' = fst (last (lru_list c (set_of c a)))"
proof -
  note n = installed_nth [OF assms(1,2)] and d = installed_drop [OF assms(1-4)]
  have g: "geometry_ok c" using assms(2) by (simp add: cache_wf_def)
  have lt: "line_at c j \<Longrightarrow> j < length (entries c)" for j by (simp add: line_at_def)
  have used: "way_used c i c'"
    using assms(1) n(1,2,6) n(3) [OF _ lt] assms(6) by (simp add: way_used_def installed_at_def)
  show "stamps_ok c'" using way_used_stamps [OF used assms(3)] .
  have A: "0 < nways c" using g by (simp add: geometry_ok_def)
  have ik: "i div nways c = set_of c a" using assms(1) by (simp add: installed_at_def way_slots_iff [OF A])
  have "map_of (lru_list c (set_of c a)) a = None"
    using held_lru_list [OF assms(2), of a] assms(5) by (simp add: map_of_eq_None_iff)
  then have "lru_touch (nways c) a (lru_list c (set_of c a)) = (a, False) # take (nways c - 1) (lru_list c (set_of c a))"
    by (simp add: lru_touch_def)
  then show "\<forall>k < nsets c. lru_list c' k = (if k = set_of c a then lru_touch (nways c) a (lru_list c k) else lru_list c k)"
    using way_used_list [OF used g assms(3)] n(4,5) d(1) by (simp add: ik lru_list_def take_map)
  have l: "length (lru_list c k) = length (use_order c k)" for k by (simp add: lru_list_def)
  have la: "last (lru_list c (set_of c a)) = (tag (entries c ! i), dirty (entries c ! i))" if "valid (entries c ! i)"
    using d(3) [OF that] by (simp add: lru_list_def last_map)
  show "evicted_dirty_line c' \<longleftrightarrow> length (lru_list c (set_of c a)) = nways c \<and> snd (last (lru_list c (set_of c a)))"
    using assms(1) d(2) la unfolding installed_at_def l by auto
  show "evicted_line_addr c' = fst (last (lru_list c (set_of c a)))" if "evicted_dirty_line c'"
    using assms(1) that la unfolding installed_at_def by auto
qed

text \<open>C13. Under the LRU policy the cache refines a family of lists, one per set, with the most recently used line
  first: a read hits exactly the lines of the list of its set, moves the line to the front, or on a miss
  puts the line there and drops the last one of a full set, whose address is reported when it is dirty; the
  other sets stay as they are.  (The counter of accesses must not wrap.)\<close>

theorem lru_cache_refines:
  assumes "cache_wf c" and "stamps_ok c" and "repl_policy c = REPL_LRU" and "s_count c \<noteq> - 1"
  shows "succeeds (llc_read False tth c a r) (\<lambda>(miss, c', r'). cache_wf c' \<and> stamps_ok c' \<and> same_geometry c c' \<and> r' = r \<and>
    (miss \<longleftrightarrow> a \<notin> fst ` set (lru_list c (set_of c a))) \<and>
    (\<forall>k < nsets c. lru_list c' k = (if k = set_of c a then lru_touch (nways c) a (lru_list c k) else lru_list c k)) \<and>
    (miss \<longrightarrow> (evicted_dirty_line c' \<longleftrightarrow> length (lru_list c (set_of c a)) = nways c \<and> snd (last (lru_list c (set_of c a)))) \<and>
       (evicted_dirty_line c' \<longrightarrow> evicted_line_addr c' = fst (last (lru_list c (set_of c a))))))"
    (is "succeeds _ ?post")
proof (cases "a \<in> held c")
  case True
  then show ?thesis using hit_list [OF assms(1,2,4) True] held_lru_list [OF assms(1), of a] by (auto simp: llc_read_def)
next
  case False
  obtain c1 where c1: "mcache_access c a = Inr (False, c1)" "same_geometry c c1" "entries c1 = entries c" "s_count c1 = s_count c + 1"
    using access_miss [OF assms(1) False] by blast
  note v = same_entries_view [OF c1(2,3)]
  have pol: "repl_policy c1 = REPL_LRU" "nways c1 = nways c" "nsets c1 = nsets c" using c1(2) assms(3) by (auto simp: same_geometry_def)
  have late: "stamp c1 j < s_count c1" if "line_at c1 j" for j
    unfolding c1(3,4) using assms(2) that v(1) by (intro inc_greater [OF assms(4)]) (simp add: stamps_ok_def)
  have ok: "cache_wf c1" "a \<notin> held c1" using assms(1) False v by simp_all
  have st: "stamps_ok c1" using assms(2) late pol unfolding stamps_ok_def v(1) c1(3) by (auto intro: less_imp_le)
  have red: "llc_read False tth c a r = bind_res (mcache_install tth c1 a r) (\<lambda>(c, r). Inr (True, c, r))"
    by (simp add: llc_read_def c1(1))
  show ?thesis
    unfolding red
  proof (rule succeeds_bindI [OF mcache_install_at [OF ok, of tth r]])
    fix x assume "case x of (c', r') \<Rightarrow> (\<exists>i. installed_at c1 a i c') \<and> (repl_policy c1 = REPL_LRU \<longrightarrow> r' = r)"
    then obtain c' i where x: "x = (c', r)" and at: "installed_at c1 a i c'" using pol(1) by auto
    have "same_geometry c c'" "cache_wf c'"
      using c1(2) at installed_wf [OF at ok] by (auto simp: installed_at_def same_geometry_def)
    moreover note installed_list [OF at ok(1) st pol(1) ok(2) late, unfolded v pol]
    ultimately show "succeeds (case x of (c, r) \<Rightarrow> Inr (True, c, r)) ?post"
      using False held_lru_list [OF assms(1), of a] by (simp add: x)
  qed
qed

theorem lru_cache_refines_witness:
  "succeeds (llc_read False 0 (full_cache REPL_LRU) 9 \<lparr>rand_seq = \<lambda>_. 0, rand_pos = 0\<rparr>) (\<lambda>(miss, c', r').
     miss \<and> lru_list c' 0 = [(9, False), (7, False)] \<and> evicted_line_addr c' = 4)"
proof -
  let ?c = "full_cache REPL_LRU"
  have st: "stamps_ok ?c"
    unfolding stamps_ok_def full_cache_line
  proof (intro conjI allI impI)
    show "stamp ?c i \<le> s_count ?c" if "i = 0 \<or> i = 1" for i using that by (auto simp: full_cache_def)
    show "i = j" if "i = 0 \<or> i = 1" "j = 0 \<or> j = 1" "i div nways ?c = j div nways ?c" "stamp ?c i = stamp ?c j" for i j
      using that by (elim disjE) (simp_all add: full_cache_def)
  qed
  have l: "lru_list ?c 0 = [(7, False), (4, True)]"
    by (simp add: lru_list_def use_order_def way_slots_def full_cache_def mcache_new_def upt_rec)
  have "set_of ?c 9 = 0" "nsets ?c = 1" "nways ?c = 2" "repl_policy ?c = REPL_LRU" "s_count ?c \<noteq> - 1"
    by (simp_all add: set_of_def full_cache_def mcache_new_def)
  with lru_cache_refines [OF full_cache_wf st, of 0 9 "\<lparr>rand_seq = \<lambda>_. 0, rand_pos = 0\<rparr>"] l show ?thesis
    by (auto simp: lru_touch_def elim!: succeeds_mono)
qed

end
