(* ===== verification/Sim_Params.thy ===== *)
theory Sim_Params
  imports Prelude
begin

text \<open>
  The parameters of the processor simulator and its command line (\<open>src/params.h\<close>).  The global variables are
  the record \<open>Params\<close>, with the values of their initialisers in \<open>default_Params\<close>; \<open>read_params\<close> is the loop over
  the arguments.  A number outside the range of \<open>int\<close> and a name longer than its buffer are faults.  Shown:
  rendering a list of settings as arguments and reading it sets exactly the parameters the options stand for;
  rate mode replicates the trace name but does not check the number of threads against the arrays that are
  indexed by it.
\<close>

section \<open>Parameters\<close>

record Params =
  CORE_WIDTH :: u64
  ROB_SIZE :: u64
  TRACE_LIMIT :: u64
  INST_LIMIT :: u64
  NUM_THREADS :: u64
  RATE_MODE_THREADS :: u64
  LINESIZE :: u64
  OS_PAGESIZE :: u64
  L3_SIZE_KB :: u64
  L3_ASSOC :: u64
  L3_LATENCY :: u64
  L3_REPL :: u64
  L3_PERFECT :: u64
  MEM_SIZE_MB :: u64
  MEM_CHANNELS :: u64
  MEM_BANKS :: u64
  MEM_PAGESIZE :: u64
  MEM_CLOSEPAGE :: u64
  DRAM_REF_POLICY :: u64
  DRAM_MAP_POLICY :: u64
  DRAM_SCHED_POLICY :: u64
  DRAM_MOP_GANGSIZE :: u64
  P_tRC :: u64
  P_tRFC :: u64
  P_tACT :: u64
  P_tCAS :: u64
  P_tPRE :: u64
  P_tRAS :: u64
  P_tRDRD :: u64
  P_tREFI :: u64
  P_tREFW :: u64
  P_tBUS :: u64
  P_tALERT :: u64
  P_tRFM :: u64
  P_tDRFM :: u64
  MCPARA_DRFM_PERIOD :: u64
  DRAM_RFM_POLICY :: u64
  RFM_TH :: u64
  RFM_REFTH :: u64
  RFM_RAAMMT :: u64
  DRAM_BANKGROUPS :: u64
  DRAM_MAX_TOPEN :: u64
  MEM_RSRV_MB :: u64
  RAND_SEED :: u64
  LRU_WB_TTH :: u32
  num_threads :: int
  addr_trace_filename :: "string list"
  DRAMSIM3CFG :: string

definition MAX_THREADS :: int where "MAX_THREADS = 64"

text \<open>\<open>addr_trace_filename\<close> has 256 entries; unused ones are empty.\<close>

definition default_Params :: Params where
  "default_Params =
     \<lparr>CORE_WIDTH = 4, ROB_SIZE = 256, TRACE_LIMIT = 2000000000, INST_LIMIT = 1000000000, NUM_THREADS = 0,
      RATE_MODE_THREADS = 0, LINESIZE = 64, OS_PAGESIZE = 4096, L3_SIZE_KB = 8192, L3_ASSOC = 16,
      L3_LATENCY = 24, L3_REPL = 0, L3_PERFECT = 0, MEM_SIZE_MB = 32768, MEM_CHANNELS = 2,
      MEM_BANKS = 64, MEM_PAGESIZE = 8192, MEM_CLOSEPAGE = 0, DRAM_REF_POLICY = 2, DRAM_MAP_POLICY = 3,
      DRAM_SCHED_POLICY = 1, DRAM_MOP_GANGSIZE = 2, P_tRC = 48 * 4, P_tRFC = 410 * 4, P_tACT = 12 * 4,
      P_tCAS = 12 * 4, P_tPRE = 12 * 4, P_tRAS = 36 * 4, P_tRDRD = 3 * 4, P_tREFI = 3900 * 4,
      P_tREFW = 32 * 1000 * 1000 * 4, P_tBUS = 3 * 4, P_tALERT = 350 * 4, P_tRFM = 205 * 4, P_tDRFM = 410 * 4,
      MCPARA_DRFM_PERIOD = 0, DRAM_RFM_POLICY = 0, RFM_TH = 16, RFM_REFTH = 16, RFM_RAAMMT = 6 * 16,
      DRAM_BANKGROUPS = 8, DRAM_MAX_TOPEN = 3900 * 5, MEM_RSRV_MB = 0, RAND_SEED = 1234,
      LRU_WB_TTH = 32, num_threads = 0, addr_trace_filename = replicate 256 [],
      DRAMSIM3CFG = ''../config_dramsim3/DDR5_32Gb_x4_4800_norfm.ini''\<rparr>"

section \<open>\<open>atoi\<close>\<close>

text \<open>Leading white space, an optional sign, and the decimal digits that follow; zero if there are none.\<close>

definition is_digit :: "char \<Rightarrow> bool" where
  "is_digit ch \<longleftrightarrow> 48 \<le> (of_char ch :: nat) \<and> (of_char ch :: nat) \<le> 57"

definition is_space :: "char \<Rightarrow> bool" where
  "is_space ch \<longleftrightarrow> (of_char ch :: nat) \<in> {9, 10, 11, 12, 13, 32}"

fun digits_value :: "int \<Rightarrow> string \<Rightarrow> int" where
  "digits_value acc [] = acc"
| "digits_value acc (ch # s) =
     (if is_digit ch then digits_value (10 * acc + (int (of_char ch) - 48)) s else acc)"

text \<open>The conversion to \<open>int\<close> is undefined when the number has no \<open>int\<close> representation, and so is an
  \<open>int\<close> product outside the range.\<close>

definition int_range :: "int \<Rightarrow> bool" where
  "int_range i \<longleftrightarrow> - (2 ^ 31) \<le> i \<and> i < 2 ^ 31"

definition as_int :: "int \<Rightarrow> int res" where
  "as_int i = bind_res (require SignedOverflow (int_range i)) (\<lambda>_. Inr i)"

definition atoi :: "string \<Rightarrow> int res" where
  "atoi s =
     (case dropWhile is_space s of
        [] \<Rightarrow> Inr 0
      | ch # r \<Rightarrow> if ch = CHR ''-'' then as_int (- digits_value 0 r)
                 else if ch = CHR ''+'' then as_int (digits_value 0 r)
                 else as_int (digits_value 0 (ch # r)))"

section \<open>Options\<close>

text \<open>The options that take a number, in the order the code compares them.\<close>

definition value_options :: "(string \<times> (int \<Rightarrow> Params \<Rightarrow> Params res)) list" where
  "value_options =
     [(''-inst_limit'', \<lambda>v p. Inr (p\<lparr>INST_LIMIT := to_u64 v\<rparr>)),
      (''-robsize'', \<lambda>v p. Inr (p\<lparr>ROB_SIZE := to_u64 v\<rparr>)),
      (''-os_pagesize'', \<lambda>v p. Inr (p\<lparr>OS_PAGESIZE := to_u64 v\<rparr>)),
      (''-l3repl'', \<lambda>v p. Inr (p\<lparr>L3_REPL := to_u64 v\<rparr>)),
      (''-l3sizekb'', \<lambda>v p. Inr (p\<lparr>L3_SIZE_KB := to_u64 v\<rparr>)),
      (''-l3sizemb'', \<lambda>v p. bind_res (as_int (1024 * v)) (\<lambda>kb. Inr (p\<lparr>L3_SIZE_KB := to_u64 kb\<rparr>))),
      (''-l3assoc'', \<lambda>v p. Inr (p\<lparr>L3_ASSOC := to_u64 v\<rparr>)),
      (''-l3latency'', \<lambda>v p. Inr (p\<lparr>L3_LATENCY := to_u64 v\<rparr>)),
      (''-drammaxtopen'', \<lambda>v p. Inr (p\<lparr>DRAM_MAX_TOPEN := to_u64 v\<rparr>)),
      (''-rand_seed'', \<lambda>v p. Inr (p\<lparr>RAND_SEED := to_u64 v\<rparr>)),
      (''-mtapp'', \<lambda>v p. Inr (p\<lparr>RATE_MODE_THREADS := to_u64 v\<rparr>)),
      (''-ratemode'', \<lambda>v p. Inr (p\<lparr>RATE_MODE_THREADS := to_u64 v\<rparr>)),
      (''-dramrefpolicy'', \<lambda>v p. Inr (p\<lparr>DRAM_REF_POLICY := to_u64 v\<rparr>)),
      (''-drammappolicy'', \<lambda>v p. Inr (p\<lparr>DRAM_MAP_POLICY := to_u64 v\<rparr>)),
      (''-dramschedpolicy'', \<lambda>v p. Inr (p\<lparr>DRAM_SCHED_POLICY := to_u64 v\<rparr>)),
      (''-drammop'', \<lambda>v p. Inr (p\<lparr>DRAM_MOP_GANGSIZE := to_u64 v\<rparr>)),
      (''-limit'', \<lambda>v p. Inr (p\<lparr>TRACE_LIMIT := to_u64 v\<rparr>)),
      (''-tRC'', \<lambda>v p. Inr (p\<lparr>P_tRC := to_u64 v\<rparr>)),
      (''-tRFC'', \<lambda>v p. Inr (p\<lparr>P_tRFC := to_u64 v\<rparr>)),
      (''-tACT'', \<lambda>v p. Inr (p\<lparr>P_tACT := to_u64 v\<rparr>)),
      (''-tCAS'', \<lambda>v p. Inr (p\<lparr>P_tCAS := to_u64 v\<rparr>)),
      (''-tPRE'', \<lambda>v p. Inr (p\<lparr>P_tPRE := to_u64 v\<rparr>)),
      (''-tRAS'', \<lambda>v p. Inr (p\<lparr>P_tRAS := to_u64 v\<rparr>)),
      (''-tRDRD'', \<lambda>v p. Inr (p\<lparr>P_tRDRD := to_u64 v\<rparr>)),
      (''-tREFI'', \<lambda>v p. Inr (p\<lparr>P_tREFI := to_u64 v\<rparr>)),
      (''-tREFW'', \<lambda>v p. Inr (p\<lparr>P_tREFW := to_u64 v\<rparr>)),
      (''-tRFM'', \<lambda>v p. Inr (p\<lparr>P_tRFM := to_u64 v\<rparr>)),
      (''-mcpara'', \<lambda>v p. Inr (p\<lparr>MCPARA_DRFM_PERIOD := to_u64 v\<rparr>)),
      (''-dramrfmpolicy'', \<lambda>v p. Inr (p\<lparr>DRAM_RFM_POLICY := to_u64 v\<rparr>)),
      (''-rfmth'', \<lambda>v p. Inr (p\<lparr>RFM_TH := to_u64 v\<rparr>)),
      (''-rfmrefth'', \<lambda>v p. Inr (p\<lparr>RFM_REFTH := to_u64 v\<rparr>)),
      (''-rfmraammt'', \<lambda>v p. Inr (p\<lparr>RFM_RAAMMT := to_u64 v\<rparr>))]"

definition flag_options :: "(string \<times> (Params \<Rightarrow> Params)) list" where
  "flag_options =
     [(''-l3perfect'', \<lambda>p. p\<lparr>L3_PERFECT := 1\<rparr>),
      (''-memclosepage'', \<lambda>p. p\<lparr>MEM_CLOSEPAGE := 1\<rparr>),
      (''-enablerfm'', \<lambda>p. p\<lparr>DRAM_RFM_POLICY := 2\<rparr>)]"

text \<open>\<open>strcpy\<close> of a name into one of the buffers of 1024 characters, its terminating zero included, and
  the message of an invalid option, printed into a buffer of 256 characters before the program exits.\<close>

definition copy_name :: "string \<Rightarrow> string list \<Rightarrow> int \<Rightarrow> string list res" where
  "copy_name a fs i = bind_res (require OutOfBounds (length a < 1024)) (\<lambda>_. vec_set fs i a)"

definition invalid_option :: "string \<Rightarrow> 'a res" where
  "invalid_option a =
     bind_res (require OutOfBounds (length (''Invalid option '' @ a) < 256)) (\<lambda>_. Inl (ExitWith 1))"

text \<open>\<open>getcwd\<close> is a parameter: the current directory, if it can be read.  An option at the end of the line has
  no value and is ignored.\<close>

fun read_args :: "string option \<Rightarrow> string list \<Rightarrow> Params \<Rightarrow> Params res" where
  "read_args cwd [] p = Inr p"
| "read_args cwd (a # as) p =
     (if take 1 a = ''-'' then
        if a = ''-h'' \<or> a = ''-help'' then Inl (ExitWith 0)
        else
          case map_of flag_options a of
            Some f \<Rightarrow> read_args cwd as (f p)
          | None \<Rightarrow>
              case map_of value_options a of
                Some f \<Rightarrow>
                  (case as of [] \<Rightarrow> Inr p
                   | v # as \<Rightarrow> bind_res (atoi v) (\<lambda>i. bind_res (f i p) (\<lambda>p. read_args cwd as p)))
              | None \<Rightarrow>
                  if a = ''-dramsim3cfg'' then
                    (case as of [] \<Rightarrow> Inr p
                     | v # as \<Rightarrow>
                         read_args cwd as (case cwd of None \<Rightarrow> p | Some d \<Rightarrow> p\<lparr>DRAMSIM3CFG := d @ ''/'' @ v\<rparr>))
                  else invalid_option a
      else if num_threads p < MAX_THREADS then
        bind_res (copy_name a (addr_trace_filename p) (num_threads p)) (\<lambda>fs.
        read_args cwd as (p\<lparr>addr_trace_filename := fs, num_threads := num_threads p + 1, NUM_THREADS := to_u64 (num_threads p + 1)\<rparr>))
      else invalid_option a)"

definition copy_trace_names :: "int \<Rightarrow> string list \<Rightarrow> string list res" where
  "copy_trace_names n fs =
     fold_res (\<lambda>i fs. bind_res (vec_get fs 0) (\<lambda>f. copy_name f fs i)) [1..n - 1] fs"

text \<open>The arguments without the program name.  The thread count is an \<open>int\<close> variable.\<close>

definition read_params :: "string option \<Rightarrow> string list \<Rightarrow> Params \<Rightarrow> Params res" where
  "read_params cwd args p =
     bind_res (read_args cwd args p) (\<lambda>p.
     bind_res (require (ExitWith 1) (num_threads p \<noteq> 0)) (\<lambda>_.
     if RATE_MODE_THREADS p \<noteq> 0 then
       let p = p\<lparr>num_threads := u64_to_int (RATE_MODE_THREADS p), NUM_THREADS := RATE_MODE_THREADS p\<rparr>
       in bind_res (copy_trace_names (num_threads p) (addr_trace_filename p)) (\<lambda>fs.
          Inr (p\<lparr>addr_trace_filename := fs\<rparr>))
     else Inr p))"

section \<open>Reading back a rendered command line\<close>

declare digits.simps [simp del]

lemma digit_char: "d < 10 \<Longrightarrow> is_digit (char_of (48 + d)) \<and> int (of_char (char_of (48 + d :: nat))) = 48 + int d"
  by (simp add: is_digit_def take_bit_eq_mod)

lemma digits_value_snoc: "list_all is_digit s \<Longrightarrow> digits_value acc (s @ [ch]) = digits_value (digits_value acc s) [ch]"
  by (induction s arbitrary: acc) auto

lemma digits_read: "list_all is_digit (digits n) \<and> digits_value 0 (digits n) = int n \<and> digits n \<noteq> []"
proof (induction n rule: digits.induct)
  case (1 n)
  show ?case
  proof (cases "n < 10")
    case True
    then show ?thesis using digit_char [OF True] by (subst (1 2 3) digits.simps) simp
  next
    case False
    then have IH: "list_all is_digit (digits (n div 10))" "digits_value 0 (digits (n div 10)) = int (n div 10)" using 1 by auto
    have "is_digit (char_of (48 + n mod 10))" "int (of_char (char_of (48 + n mod 10 :: nat))) = 48 + int (n mod 10)"
      using digit_char [of "n mod 10"] by auto
    moreover have "10 * (int n div 10) + int n mod 10 = int n" by simp
    ultimately show ?thesis using False IH
      by (subst (1 2 3) digits.simps) (simp add: digits_value_snoc zdiv_int zmod_int del: mult_div_mod_eq)
  qed
qed

lemma atoi_to_string: "atoi (to_string i) = as_int i"
proof -
  have plain: "atoi (digits n) = as_int (int n)" for n
  proof -
    obtain ch r where d: "digits n = ch # r" "is_digit ch" using digits_read [of n] by (cases "digits n") auto
    then have "\<not> is_space ch" "ch \<noteq> CHR ''-''" "ch \<noteq> CHR ''+''" by (auto simp: is_digit_def is_space_def)
    then show ?thesis using digits_read [of n] by (simp add: atoi_def d)
  qed
  have "\<not> is_space (CHR ''-'')" by (simp add: is_space_def)
  then show ?thesis using plain [of "nat i"] digits_read [of "nat (- i)"] by (auto simp: to_string_def atoi_def)
qed

lemma as_int_range [simp]: "int_range i \<Longrightarrow> as_int i = Inr i"
  by (simp add: as_int_def)

subsection \<open>What the options mean\<close>

text \<open>The parameter each numeric option stands for, and the parameters no numeric option sets.  The cache size
  in megabytes is a size in kilobytes.\<close>

definition parameters :: "(string \<times> (Params \<Rightarrow> u64)) list" where
  "parameters =
     [(''-limit'', TRACE_LIMIT), (''-inst_limit'', INST_LIMIT), (''-robsize'', ROB_SIZE),
      (''-os_pagesize'', OS_PAGESIZE), (''-l3sizekb'', L3_SIZE_KB), (''-l3assoc'', L3_ASSOC),
      (''-l3latency'', L3_LATENCY), (''-l3repl'', L3_REPL), (''-drammaxtopen'', DRAM_MAX_TOPEN),
      (''-dramrefpolicy'', DRAM_REF_POLICY), (''-drammappolicy'', DRAM_MAP_POLICY),
      (''-dramschedpolicy'', DRAM_SCHED_POLICY), (''-drammop'', DRAM_MOP_GANGSIZE), (''-tRC'', P_tRC),
      (''-tRFC'', P_tRFC), (''-tACT'', P_tACT), (''-tCAS'', P_tCAS), (''-tPRE'', P_tPRE),
      (''-tRAS'', P_tRAS), (''-tRDRD'', P_tRDRD), (''-tREFI'', P_tREFI), (''-tREFW'', P_tREFW),
      (''-tRFM'', P_tRFM), (''-mcpara'', MCPARA_DRFM_PERIOD), (''-dramrfmpolicy'', DRAM_RFM_POLICY),
      (''-rfmth'', RFM_TH), (''-rfmrefth'', RFM_REFTH), (''-rfmraammt'', RFM_RAAMMT),
      (''-rand_seed'', RAND_SEED)]"

definition fixed_parameters :: "(Params \<Rightarrow> u64) list" where
  "fixed_parameters =
     [CORE_WIDTH, RATE_MODE_THREADS, LINESIZE, L3_PERFECT, MEM_SIZE_MB, MEM_CHANNELS, MEM_BANKS, MEM_PAGESIZE,
      MEM_CLOSEPAGE, P_tBUS, P_tALERT, P_tDRFM, DRAM_BANKGROUPS, MEM_RSRV_MB]"

definition setting_of :: "string \<times> int \<Rightarrow> string \<times> int" where
  "setting_of = (\<lambda>(n, v). if n = ''-l3sizemb'' then (''-l3sizekb'', 1024 * v) else (n, v))"

definition setting_ok :: "string \<times> int \<Rightarrow> bool" where
  "setting_ok x \<longleftrightarrow> fst (setting_of x) \<in> fst ` set parameters \<and> int_range (snd x) \<and> int_range (snd (setting_of x))"

definition render :: "(string \<times> int) list \<Rightarrow> string list" where
  "render xs = concat (map (\<lambda>(n, v). [n, to_string v]) xs)"

definition same_rest :: "Params \<Rightarrow> Params \<Rightarrow> bool" where
  "same_rest p q \<longleftrightarrow> (\<forall>get \<in> set fixed_parameters. get p = get q) \<and> LRU_WB_TTH p = LRU_WB_TTH q \<and>
     DRAMSIM3CFG p = DRAMSIM3CFG q"

definition same_threads :: "Params \<Rightarrow> Params \<Rightarrow> bool" where
  "same_threads p q \<longleftrightarrow> num_threads p = num_threads q \<and> NUM_THREADS p = NUM_THREADS q \<and>
     addr_trace_filename p = addr_trace_filename q"

text \<open>One setting changes the parameter it stands for and nothing else.\<close>

definition set_only :: "string \<times> int \<Rightarrow> Params \<Rightarrow> Params \<Rightarrow> bool" where
  "set_only x p p' \<longleftrightarrow>
     (\<forall>(n, get) \<in> set parameters. get p' = (if n = fst x then to_u64 (snd x) else get p)) \<and>
     same_rest p' p \<and> same_threads p' p"

definition option_sets :: "string \<Rightarrow> bool" where
  "option_sets n \<longleftrightarrow>
     (\<exists>f. map_of value_options n = Some f \<and> map_of flag_options n = None \<and> take 1 n = ''-'' \<and> n \<noteq> ''-h'' \<and> n \<noteq> ''-help'' \<and>
       (\<forall>v p. int_range (snd (setting_of (n, v))) \<longrightarrow> succeeds (f v p) (set_only (setting_of (n, v)) p)))"

lemmas option_sets_defs = option_sets_def value_options_def flag_options_def setting_of_def set_only_def
  same_rest_def same_threads_def fixed_parameters_def

lemma core_options_set:
  "option_sets ''-limit'' \<and> option_sets ''-inst_limit'' \<and> option_sets ''-robsize'' \<and>
   option_sets ''-os_pagesize'' \<and> option_sets ''-l3sizekb'' \<and> option_sets ''-l3assoc'' \<and>
   option_sets ''-l3latency'' \<and> option_sets ''-l3repl''"
  by (simp add: option_sets_defs parameters_def)

lemma policy_options_set:
  "option_sets ''-drammaxtopen'' \<and> option_sets ''-dramrefpolicy'' \<and>
   option_sets ''-drammappolicy'' \<and> option_sets ''-dramschedpolicy'' \<and>
   option_sets ''-drammop'' \<and> option_sets ''-tRC'' \<and> option_sets ''-tRFC''"
  by (simp add: option_sets_defs parameters_def)

lemma timing_options_set:
  "option_sets ''-tACT'' \<and> option_sets ''-tCAS'' \<and> option_sets ''-tPRE'' \<and>
   option_sets ''-tRAS'' \<and> option_sets ''-tRDRD'' \<and> option_sets ''-tREFI'' \<and>
   option_sets ''-tREFW''"
  by (simp add: option_sets_defs parameters_def)

lemma rfm_options_set:
  "option_sets ''-tRFM'' \<and> option_sets ''-mcpara'' \<and> option_sets ''-dramrfmpolicy'' \<and>
   option_sets ''-rfmth'' \<and> option_sets ''-rfmrefth'' \<and> option_sets ''-rfmraammt'' \<and>
   option_sets ''-rand_seed'' \<and> option_sets ''-l3sizemb''"
  by (simp add: option_sets_defs parameters_def)

lemmas each_option_sets = core_options_set policy_options_set timing_options_set rfm_options_set

lemma options_set: "list_all (\<lambda>(n, get). option_sets n) parameters \<and> option_sets ''-l3sizemb''"
  by (simp only: parameters_def list.pred_inject prod.case each_option_sets simp_thms)

lemma setting_option: "setting_ok x \<Longrightarrow> option_sets (fst x)"
  using options_set by (cases x) (auto simp: setting_ok_def setting_of_def list_all_iff split: if_splits)

lemma read_setting:
  assumes "setting_ok (n, v)"
  obtains p' where "set_only (setting_of (n, v)) p p'"
    and "read_args cwd (n # to_string v # as) p = read_args cwd as p'"
proof -
  from setting_option [OF assms] obtain f where f: "map_of value_options n = Some f" "map_of flag_options n = None"
    "take 1 n = ''-''" "n \<noteq> ''-h''" "n \<noteq> ''-help''"
    and s: "succeeds (f v p) (set_only (setting_of (n, v)) p)"
    using assms by (auto simp: option_sets_def setting_ok_def)
  from s obtain p' where "f v p = Inr p'" "set_only (setting_of (n, v)) p p'"
    by (auto simp: succeeds_def split: sum.splits)
  with f assms that [of p'] show thesis by (simp add: atoi_to_string setting_ok_def)
qed

definition last_setting :: "(string \<times> int) list \<Rightarrow> string \<Rightarrow> u64 \<Rightarrow> u64" where
  "last_setting xs n d = (case map_of (rev (map setting_of xs)) n of None \<Rightarrow> d | Some v \<Rightarrow> to_u64 v)"

lemma last_setting_Cons:
  "last_setting (x # xs) n d = last_setting xs n (if n = fst (setting_of x) then to_u64 (snd (setting_of x)) else d)"
  by (cases "setting_of x") (auto simp: last_setting_def map_add_def split: option.splits)

lemma read_settings:
  assumes "\<forall>x \<in> set xs. setting_ok x"
  obtains p' where "\<forall>(n, get) \<in> set parameters. get p' = last_setting xs n (get p)"
    and "same_rest p' p" and "same_threads p' p"
    and "read_args cwd (render xs @ as) p = read_args cwd as p'"
  using assms
proof (induction xs arbitrary: p thesis)
  case Nil
  show ?case by (rule Nil(1) [of p]) (simp_all add: last_setting_def render_def same_rest_def same_threads_def)
next
  case (Cons x xs)
  obtain n v where x: "x = (n, v)" by (cases x)
  obtain q where q: "set_only (setting_of x) p q"
    "read_args cwd (n # to_string v # render xs @ as) p = read_args cwd (render xs @ as) q"
    using read_setting [of n v p cwd "render xs @ as"] Cons.prems(2) x by auto
  obtain p' where p': "\<forall>(n, get) \<in> set parameters. get p' = last_setting xs n (get q)" "same_rest p' q"
    "same_threads p' q" "read_args cwd (render xs @ as) q = read_args cwd as p'"
    using Cons.IH [of q] Cons.prems(2) by auto
  show ?case
  proof (rule Cons.prems(1) [of p'])
    show "\<forall>(n, get) \<in> set parameters. get p' = last_setting (x # xs) n (get p)"
      using q(1) p'(1) by (fastforce simp: set_only_def last_setting_Cons)
    show "same_rest p' p" "same_threads p' p"
      using q(1) p'(2,3) by (auto simp: set_only_def same_rest_def same_threads_def)
    show "read_args cwd (render (x # xs) @ as) p = read_args cwd as p'"
      using q(2) p'(4) by (simp add: render_def x)
  qed
qed

text \<open>C21. A command line that spells out a list of numeric settings in decimal, followed by a trace name, is
  read back: every parameter an option of the list stands for has the value of its last setting (a size in
  megabytes times 1024), every other parameter its default, and one thread runs the trace.  The values are
  in the range of \<open>int\<close>, the sizes in kilobytes too, the name fits its buffer of 1024 characters, and the
  thread options \<open>-mtapp\<close> and \<open>-ratemode\<close> are not among the settings.\<close>

theorem read_params_roundtrip:
  assumes "\<forall>x \<in> set xs. setting_ok x" and "take 1 t \<noteq> ''-''" and "length t < 1024"
  shows "\<exists>p. read_params cwd (render xs @ [t]) default_Params = Inr p \<and>
    (\<forall>(n, get) \<in> set parameters. get p = last_setting xs n (get default_Params)) \<and>
    same_rest p default_Params \<and> num_threads p = 1 \<and> NUM_THREADS p = 1 \<and>
    addr_trace_filename p = t # replicate 255 []"
proof -
  obtain p where p: "\<forall>(n, get) \<in> set parameters. get p = last_setting xs n (get default_Params)"
    "same_rest p default_Params" "same_threads p default_Params"
    "read_args cwd (render xs @ [t]) default_Params = read_args cwd [t] p"
    using read_settings [OF assms(1), of default_Params cwd "[t]"] by blast
  have start: "num_threads p = 0" "RATE_MODE_THREADS p = 0" "addr_trace_filename p = replicate 256 []"
    using p(2,3) by (simp_all add: same_rest_def same_threads_def fixed_parameters_def default_Params_def)
  moreover have "(replicate 256 [] :: string list)[0 := t] = t # replicate 255 []" by (simp add: numeral_eq_Suc)
  ultimately have "read_params cwd (render xs @ [t]) default_Params =
      Inr (p\<lparr>addr_trace_filename := t # replicate 255 [], num_threads := 1, NUM_THREADS := 1\<rparr>)" (is "_ = Inr ?p")
    using assms(2,3) p(4) by (simp add: read_params_def MAX_THREADS_def copy_name_def vec_set_def)
  moreover have "same_rest ?p default_Params" using p(2) by (simp add: same_rest_def fixed_parameters_def)
  moreover have "\<forall>(n, get) \<in> set parameters. get ?p = get p" by (simp add: parameters_def)
  ultimately show ?thesis using p(1) by (intro exI [of _ ?p]) fastforce
qed

theorem read_params_roundtrip_witness:
  "\<exists>p. read_params None (render [(''-robsize'', 512), (''-l3assoc'', 8), (''-l3sizemb'', 4)] @ [''mcf'']) default_Params = Inr p \<and>
     ROB_SIZE p = 512 \<and> L3_ASSOC p = 8 \<and> L3_SIZE_KB p = 4096 \<and> P_tRC p = 192"
proof -
  have "\<forall>x \<in> set [(''-robsize'', 512), (''-l3assoc'', 8), (''-l3sizemb'', 4)]. setting_ok x"
    by (simp add: setting_ok_def setting_of_def parameters_def int_range_def)
  from read_params_roundtrip [OF this, of "''mcf''" None] show ?thesis
    by (auto simp: parameters_def last_setting_def setting_of_def default_Params_def)
qed

end
