(* ===== verification/OS_Pages.thy ===== *)
theory OS_Pages
  imports MCache
begin

text \<open>
  The operating system's page table (\<open>src/os.h\<close> and \<open>src/os.cpp\<close>): a page frame is drawn at random on the first
  touch of a page by a thread.  Shown: translation never gives one frame to two pages, whoever owns them, a
  translation once made stays, and the null page is never handed out.  The bound of 95 percent of the pages
  is tested by the code in floating point; for fewer than \<open>2\<^sup>3\<^sup>2\<close> pages that comparison is the one of the
  integers, which is what the model has.
\<close>

section \<open>State and operations\<close>

record OS =
  pt :: "u64 \<rightharpoonup> u64"
  ipt :: "bool list"
  lines_in_page :: u32
  os_num_threads :: u32
  num_pages :: u64
  s_miss_count :: u64

text \<open>\<open>os.cpp\<close> declares \<open>OS_PAGESIZE\<close> and \<open>LINESIZE\<close>, which are 64 bits wide, as \<open>uns\<close> and so reads their low halves.\<close>

definition os_new :: "u64 \<Rightarrow> u64 \<Rightarrow> u32 \<Rightarrow> u32 \<Rightarrow> OS res" where
  "os_new pagesize linesize np nt =
     bind_res (require DivisionByZero ((ucast linesize :: u32) \<noteq> 0)) (\<lambda>_.
     bind_res (vec_set (replicate (unat np) False) 0 True) (\<lambda>i.
     Inr \<lparr>pt = Map.empty, ipt = i, lines_in_page = ucast pagesize div ucast linesize, os_num_threads = nt,
          num_pages = ucast np, s_miss_count = 0\<rparr>))"

fun victim_loop :: "nat \<Rightarrow> bool list \<Rightarrow> u64 \<Rightarrow> Rand \<Rightarrow> (u64 \<times> bool list \<times> Rand) res" where
  "victim_loop 0 used np r = Inl AssertionFailed"
| "victim_loop (Suc n) used np r =
     (let (x, r) = rand r in
      bind_res (rem_word (word_of_int x) np) (\<lambda>v.
      let victim = (ucast v :: u32) in
      bind_res (vec_get used (uint victim)) (\<lambda>u.
      if \<not> u then bind_res (vec_set used (uint victim) True) (\<lambda>used. Inr (ucast victim, used, r))
      else victim_loop n used np r)))"

definition os_get_victim_from_ipt :: "OS \<Rightarrow> Rand \<Rightarrow> (u64 \<times> OS \<times> Rand) res" where
  "os_get_victim_from_ipt os r =
     bind_res (require AssertionFailed (20 * unat (s_miss_count os) < 19 * unat (num_pages os))) (\<lambda>_.
     bind_res (victim_loop 1000 (ipt os) (num_pages os) r) (\<lambda>(v, used, r). Inr (v, os\<lparr>ipt := used\<rparr>, r)))"

definition page_key :: "u32 \<Rightarrow> u64 \<Rightarrow> u64" where
  "page_key tid vpn = push_bit 36 (ucast tid) + vpn"

definition os_vpn_to_pfn :: "OS \<Rightarrow> u64 \<Rightarrow> u32 \<Rightarrow> Rand \<Rightarrow> (u64 \<times> OS \<times> Rand) res" where
  "os_vpn_to_pfn os vpn tid r =
     bind_res (require AssertionFailed (drop_bit 36 vpn = 0)) (\<lambda>_.
     let tid_vpn = page_key tid vpn in
     case pt os tid_vpn of
       Some f \<Rightarrow> Inr (f, os, r)
     | None \<Rightarrow>
         bind_res (os_get_victim_from_ipt os r) (\<lambda>(f, os, r).
         Inr (f, os\<lparr>pt := (pt os)(tid_vpn \<mapsto> f), s_miss_count := s_miss_count os + 1\<rparr>, r)))"

definition os_v2p_lineaddr :: "OS \<Rightarrow> u64 \<Rightarrow> u32 \<Rightarrow> Rand \<Rightarrow> (u64 \<times> OS \<times> Rand) res" where
  "os_v2p_lineaddr os lineaddr tid r =
     (let n = ucast (lines_in_page os) in
      bind_res (require DivisionByZero (n \<noteq> 0)) (\<lambda>_.
      bind_res (os_vpn_to_pfn os (lineaddr div n) tid r) (\<lambda>(pfn, os, r).
      Inr (pfn * n + lineaddr mod n, os, r))))"

section \<open>The page table is injective\<close>

definition os_wf :: "OS \<Rightarrow> bool" where
  "os_wf os \<longleftrightarrow> unat (num_pages os) = length (ipt os) \<and> 0 < length (ipt os) \<and> length (ipt os) < 2 ^ 32 \<and> ipt os ! 0 \<and>
     (\<forall>k f. pt os k = Some f \<longrightarrow> unat f < length (ipt os) \<and> f \<noteq> 0 \<and> ipt os ! unat f) \<and> inj_on (pt os) (dom (pt os))"

lemma os_new_wf: "succeeds (os_new pagesize linesize np nt) (\<lambda>os. os_wf os \<and> pt os = Map.empty)"
  if "(ucast linesize :: u32) \<noteq> 0" and "0 < unat np"
proof -
  have "np \<noteq> 0" using that(2) by auto
  then have "0 < uint np" using uint_ge_0 [of np] uint_0_iff [of np] by linarith
  then show ?thesis
    using that unsigned_less [of np, where ?'a = nat] by (simp add: os_new_def wp os_wf_def unat_widen nth_list_update)
qed

text \<open>A frame that the search returns was free.\<close>

lemma victim_loop_free:
  "victim_loop n used np r = Inr (v, used', r') \<Longrightarrow>
     unat v < length used \<and> unat v < 2 ^ 32 \<and> \<not> used ! unat v \<and> used' = used[unat v := True]"
proof (induction n arbitrary: r)
  case (Suc n)
  obtain x r1 where x: "rand r = (x, r1)" by fastforce
  define w :: u32 where "w = ucast (word_of_int x mod np :: u64)"
  have "bind_res (vec_get used (uint w)) (\<lambda>u. if \<not> u then bind_res (vec_set used (uint w) True) (\<lambda>used. Inr (ucast w, used, r1))
      else victim_loop n used np r1) = Inr (v, used', r')"
    unfolding w_def using Suc.prems x by (cases "np = 0") (simp_all add: Let_def rem_word_def)
  moreover have "uint w < int (length used) \<longleftrightarrow> unat w < length used" "nat (uint w) = unat w" by (simp_all add: nat_less_iff flip: nat_uint_eq)
  ultimately have w: "unat w < length used"
    and step: "(if \<not> used ! unat w then Inr (ucast w, used[unat w := True], r1) else victim_loop n used np r1) = Inr (v, used', r')"
    by (auto simp: bind_res_eq_Inr vec_get_Inr vec_set_Inr split: if_splits)
  have b: "unat w < 2 ^ 32" using unsigned_less [of w, where ?'a = nat] by simp
  show ?case
  proof (cases "used ! unat w")
    case True
    then show ?thesis using Suc.IH [of r1] step by simp
  next
    case False
    then have "v = ucast w" "used' = used[unat w := True]" using step by simp_all
    then show ?thesis using False w b by (simp only: unat_widen) simp
  qed
qed simp
lemma page_key_inj:
  assumes "drop_bit 36 v = 0" and "drop_bit 36 v' = 0" and "unat t < 2 ^ 28" and "unat t' < 2 ^ 28" and "page_key t v = page_key t' v'"
  shows "t = t' \<and> v = v'"
proof -
  have small: "unat v < 2 ^ 36" if "drop_bit 36 v = 0" for v :: u64
  proof -
    have "unat v div 2 ^ 36 = 0" using arg_cong [OF that, of unat] by (simp add: drop_bit_eq_div unat_div)
    then show ?thesis by (simp add: div_eq_0_iff)
  qed
  have key: "unat (page_key t v) = unat t * 2 ^ 36 + unat v" if "unat t < 2 ^ 28" "unat v < 2 ^ 36" for t v
  proof -
    have "unat t * 2 ^ 36 + unat v < 2 ^ 64" using that by simp
    moreover have "unat (push_bit 36 (ucast t :: u64)) = unat t * 2 ^ 36"
      using that(1) unat_mult_lem [of "ucast t :: u64" "2 ^ 36"] by (simp add: push_bit_eq_mult unat_widen)
    ultimately show ?thesis by (simp add: page_key_def unat_add_lem [THEN iffD1])
  qed
  have split: "(x * 2 ^ 36 + y) div 2 ^ 36 = x \<and> (x * 2 ^ 36 + y) mod 2 ^ 36 = y" if "y < 2 ^ 36" for x y :: nat using that by simp
  have "unat t * 2 ^ 36 + unat v = unat t' * 2 ^ 36 + unat v'"
    using key [OF assms(3) small [OF assms(1)]] key [OF assms(4) small [OF assms(2)]] assms(5) by simp
  then have "unat t = unat t' \<and> unat v = unat v'" 
    using split [OF small [OF assms(1)], of "unat t"] split [OF small [OF assms(2)], of "unat t'"] by metis
  then show ?thesis by (simp add: word_unat_eq_iff)
qed

text \<open>A call keeps the invariant and the earlier translations.\<close>

lemma os_vpn_to_pfn_keeps:
  assumes "os_wf os" and "os_vpn_to_pfn os vpn tid r = Inr (f, os', r')"
  shows "os_wf os' \<and> pt os' (page_key tid vpn) = Some f \<and> drop_bit 36 vpn = 0 \<and> lines_in_page os' = lines_in_page os \<and> pt os \<subseteq>\<^sub>m pt os'"
proof (cases "pt os (page_key tid vpn)")
  case (Some g)
  then show ?thesis using assms by (auto simp: os_vpn_to_pfn_def Let_def bind_res_eq_Inr)
next
  case None
  then obtain used where v: "victim_loop 1000 (ipt os) (num_pages os) r = Inr (f, used, r')" and d: "drop_bit 36 vpn = 0"
    and os': "os' = os\<lparr>ipt := used, pt := (pt os)(page_key tid vpn \<mapsto> f), s_miss_count := s_miss_count os + 1\<rparr>"
    using assms(2) by (auto simp: os_vpn_to_pfn_def os_get_victim_from_ipt_def Let_def bind_res_eq_Inr)
  note fr = victim_loop_free [OF v]
  have wf: "unat (num_pages os) = length (ipt os)" "0 < length (ipt os)" "length (ipt os) < 2 ^ 32" "ipt os ! 0"
    "inj_on (pt os) (dom (pt os))" and used: "pt os k = Some g \<Longrightarrow> unat g < length (ipt os) \<and> g \<noteq> 0 \<and> ipt os ! unat g" for k g
    using assms(1) unfolding os_wf_def by blast+
  have "f \<noteq> 0" using fr wf(4) by auto
  moreover have "inj_on ((pt os)(page_key tid vpn \<mapsto> f)) (insert (page_key tid vpn) (dom (pt os)))"
    using wf(5) used fr None by (auto simp: inj_on_def dom_def)
  ultimately have "os_wf os'"
    using fr wf used by (auto simp: os' os_wf_def nth_list_update split: if_splits)
  then show ?thesis using d None by (auto simp: os' map_le_def)
qed

text \<open>The physical line of a thread's line, once it has been translated.\<close>

definition phys_line :: "OS \<Rightarrow> u32 \<Rightarrow> u64 \<Rightarrow> u64 option" where
  "phys_line os tid l =
     (let n = ucast (lines_in_page os) in
      if drop_bit 36 (l div n) = 0 then map_option (\<lambda>f. f * n + l mod n) (pt os (page_key tid (l div n))) else None)"

lemma phys_line_unat:
  assumes "os_wf os" and "0 < unat (lines_in_page os)" and "phys_line os tid l = Some p"
  shows "\<exists>f. pt os (page_key tid (l div ucast (lines_in_page os))) = Some f \<and> drop_bit 36 (l div ucast (lines_in_page os)) = 0 \<and>
    unat p div unat (lines_in_page os) = unat f \<and> unat p mod unat (lines_in_page os) = unat (l mod ucast (lines_in_page os))"
proof -
  let ?n = "ucast (lines_in_page os) :: u64"
  obtain f where f: "pt os (page_key tid (l div ?n)) = Some f" "p = f * ?n + l mod ?n" "drop_bit 36 (l div ?n) = 0"
    using assms(3) by (auto simp: phys_line_def Let_def split: if_splits)
  have n: "unat ?n = unat (lines_in_page os)" by (rule unat_widen)
  have b: "unat (lines_in_page os) < 2 ^ 32" using unsigned_less [of "lines_in_page os", where ?'a = nat] by simp
  have fb: "unat f < 2 ^ 32" using assms(1) f(1) unfolding os_wf_def by (meson order.strict_trans)
  have m: "unat (l mod ?n) < unat ?n" using assms(2) n by (simp add: unat_mod)
  have "(unat f + 1) * unat ?n \<le> 2 ^ 32 * (2 ^ 32 - 1)" using fb b n by (intro mult_le_mono) auto
  then have sum: "unat f * unat ?n + unat (l mod ?n) < 2 ^ 64" using m by simp
  then have "unat p = unat f * unat ?n + unat (l mod ?n)"
    by (simp add: f(2) unat_add_lem [THEN iffD1] unat_mult_lem [THEN iffD1])
  then show ?thesis using f m n assms(2) by simp
qed
text \<open>What a successful translation leaves behind.\<close>

lemma os_v2p_lineaddr_keeps:
  assumes "os_wf os" and "os_v2p_lineaddr os l tid r = Inr (p, os', r')"
  shows "os_wf os'" and "phys_line os' tid l = Some p" and "lines_in_page os' = lines_in_page os" and "pt os \<subseteq>\<^sub>m pt os'"
    and "0 < unat (lines_in_page os)" and "length (ipt os') = length (ipt os)"
proof -
  let ?n = "ucast (lines_in_page os) :: u64"
  obtain f where nz: "?n \<noteq> 0" and f: "os_vpn_to_pfn os (l div ?n) tid r = Inr (f, os', r')" and p: "p = f * ?n + l mod ?n"
    using assms(2) by (auto simp: os_v2p_lineaddr_def Let_def bind_res_eq_Inr)
  show "0 < unat (lines_in_page os)" using nz by (metis unat_widen unat_0 bot_nat_0.not_eq_extremum word_unat_eq_iff)
  note k = os_vpn_to_pfn_keeps [OF assms(1) f]
  then show "os_wf os'" "lines_in_page os' = lines_in_page os" "pt os \<subseteq>\<^sub>m pt os'" by auto
  show "phys_line os' tid l = Some p" using k by (simp add: phys_line_def Let_def p)
  have "num_pages os' = num_pages os"
    using f by (auto simp: os_vpn_to_pfn_def os_get_victim_from_ipt_def Let_def bind_res_eq_Inr split: option.splits)
  then show "length (ipt os') = length (ipt os)" using assms(1) k by (simp add: os_wf_def)
qed

lemma os_v2p_lineaddr_bound:
  assumes "os_wf os" and "os_v2p_lineaddr os l tid r = Inr (p, os', r')"
  shows "unat p < length (ipt os) * unat (lines_in_page os)"
proof -
  note k = os_v2p_lineaddr_keeps [OF assms]
  obtain f key where f: "pt os' key = Some f" "unat p div unat (lines_in_page os) = unat f"
    using phys_line_unat [OF k(1) _ k(2)] k(5) by (auto simp: k(3))
  then have "unat p div unat (lines_in_page os) < length (ipt os)" using k(1,6) unfolding os_wf_def by auto
  then show ?thesis using k(5) by (simp add: div_less_iff_less_mult)
qed

text \<open>C14. Address translation keeps threads apart.  A successful call returns a physical line that belongs to the
  calling thread's line alone (no other thread, and no other line of the same thread, is translated to it,
  now or by any earlier call), never a line of page 0; the translations made before are unchanged.  Thread
  numbers are below \<open>2\<^sup>2\<^sup>8\<close>, as the key of the page table has room for.\<close>

theorem translation_private:
  assumes "os_wf os" and "unat tid < 2 ^ 28" and "os_v2p_lineaddr os l tid r = Inr (p, os', r')"
  shows "os_wf os' \<and> phys_line os' tid l = Some p \<and> unat (lines_in_page os) \<le> unat p \<and>
    (\<forall>t m q. phys_line os t m = Some q \<longrightarrow> phys_line os' t m = Some q) \<and>
    (\<forall>t m. unat t < 2 ^ 28 \<longrightarrow> phys_line os' t m = Some p \<longrightarrow> t = tid \<and> m = l)"
proof -
  let ?n = "ucast (lines_in_page os) :: u64"
  note kp = os_v2p_lineaddr_keeps [OF assms(1,3)]
  have n0: "0 < unat (lines_in_page os)" and phys: "phys_line os' tid l = Some p" using kp by auto
  obtain f where k: "os_wf os'" "pt os' (page_key tid (l div ?n)) = Some f" "drop_bit 36 (l div ?n) = 0" "lines_in_page os' = lines_in_page os"
    "pt os \<subseteq>\<^sub>m pt os'"
    using kp phys_line_unat [OF kp(1) _ phys] by auto
  have old: "phys_line os' t m = Some q" if "phys_line os t m = Some q" for t m q
    using that k(4,5) by (auto simp: phys_line_def Let_def map_le_def dom_def split: if_splits)
  have uniq: "t = tid \<and> m = l" if t: "unat t < 2 ^ 28" "phys_line os' t m = Some p" for t m
  proof -
    obtain g where g: "pt os' (page_key t (m div ?n)) = Some g" "drop_bit 36 (m div ?n) = 0"
      "unat p div unat (lines_in_page os) = unat g" "unat p mod unat (lines_in_page os) = unat (m mod ?n)"
      using phys_line_unat [OF k(1) _ t(2)] n0 by (auto simp: k(4))
    have g': "unat p div unat (lines_in_page os) = unat f" "unat p mod unat (lines_in_page os) = unat (l mod ?n)"
      using phys_line_unat [OF k(1) _ phys] n0 by (auto simp: k(2,4))
    have "g = f" "m mod ?n = l mod ?n" using g(3,4) g' by (simp_all add: word_unat_eq_iff)
    then have "page_key t (m div ?n) = page_key tid (l div ?n)" 
      using k(1,2) g(1) unfolding os_wf_def by (metis domI inj_onD)
    then have "t = tid" "m div ?n = l div ?n" using page_key_inj [OF g(2) k(3) t(1) assms(2)] by auto
    then show ?thesis using \<open>m mod ?n = l mod ?n\<close> by (metis div_mult_mod_eq)
  qed
  have "f \<noteq> 0" using k(1,2) unfolding os_wf_def by blast
  then have "0 < unat p div unat (lines_in_page os)"
    using phys_line_unat [OF k(1) _ phys] n0 k(2,4) by (auto simp: word_unat_eq_iff)
  then have "unat (lines_in_page os) \<le> unat p" by (simp add: div_greater_zero_iff)
  then show ?thesis using k(1) phys old uniq by blast
qed

theorem translation_private_witness:
  "\<exists>os'. os_v2p_lineaddr \<lparr>pt = Map.empty, ipt = [True, False, False], lines_in_page = 64, os_num_threads = 1, num_pages = 3, s_miss_count = 0\<rparr>
     130 0 \<lparr>rand_seq = \<lambda>_. 5, rand_pos = 0\<rparr> = Inr (130, os', \<lparr>rand_seq = \<lambda>_. 5, rand_pos = 1\<rparr>) \<and> phys_line os' 0 130 = Some 130"
proof -
  let ?os = "\<lparr>pt = Map.empty, ipt = [True, False, False], lines_in_page = 64, os_num_threads = 1, num_pages = 3, s_miss_count = 0\<rparr>"
  have loop: "victim_loop 1000 [True, False, False] 3 \<lparr>rand_seq = \<lambda>_. 5, rand_pos = 0\<rparr> =
      Inr (2, [True, False, True], \<lparr>rand_seq = \<lambda>_. 5, rand_pos = 1\<rparr>)"
  proof -
    have "victim_loop 1000 = victim_loop (Suc 999)" by simp
    then show ?thesis unfolding \<open>victim_loop 1000 = victim_loop (Suc 999)\<close> victim_loop.simps
      by (simp add: rand_def rem_word_def vec_get_def vec_set_def)
  qed
  then obtain os' where run: "os_v2p_lineaddr ?os 130 0 \<lparr>rand_seq = \<lambda>_. 5, rand_pos = 0\<rparr> = Inr (130, os', \<lparr>rand_seq = \<lambda>_. 5, rand_pos = 1\<rparr>)"
    by (simp add: os_v2p_lineaddr_def os_vpn_to_pfn_def os_get_victim_from_ipt_def)
  have "os_wf ?os" by (simp add: os_wf_def)
  from translation_private [OF this _ run] run show ?thesis by auto
qed

end
