(* ===== verification/MCore.thy ===== *)
theory MCore
  imports Sim_Params MCache OS_Pages
begin

text \<open>
  The cores and their connection to memory (\<open>src/mcore.h\<close>, \<open>src/mcore.cpp\<close>, \<open>src/memsys_dramsim3.h\<close>,
  \<open>src/memsys_dramsim3.cpp\<close>).  What a core shares with the others (memory, cache, page table, random numbers) is
  the record \<open>Nest\<close>.  The memory behind \<open>MemSys\<close> is used through the operations of its class, the record
  \<open>mem_ops\<close>; the trace reader of zlib through \<open>gz_ops\<close>: \<open>gz_open\<close> opens the named file (the flag tells the second
  attempt), \<open>gz_record\<close> is the three calls of \<open>gzread\<close> for one record, with zeroes for missing bytes, and
  \<open>gz_eof\<close> is \<open>gzeof\<close>.  Debug messages are left out.
\<close>

section \<open>State\<close>

record ROB_Entry =
  birth_time :: u64
  ready_time :: u64
  rob_inst_num :: u64

record ROB =
  rob_entries :: "ROB_Entry list"
  rob_ptr :: u32
  rob_size :: u32

record MSHR_Entry =
  ms_coreid :: u32
  ms_robid :: u32
  ms_inst_num :: u64

record 'm MemSys =
  mainmem :: 'm
  mshr :: "u64 \<rightharpoonup> MSHR_Entry"

record 'm Nest =
  memsys :: "'m MemSys"
  l3cache :: MCache
  nest_os :: OS
  rnd :: Rand

record 't MCore =
  core_id :: u32
  addr_trace_fname :: string
  addr_trace :: 't
  core_done :: bool
  sleep :: bool
  sleep_lineaddr :: u64
  sleep_robid :: u32
  sleep_inst_num :: u64
  rob :: ROB
  trace_inst_num :: u64
  trace_va :: u64
  trace_wb :: bool
  core_cycle :: u64
  inst_num :: u64
  access_count :: u64
  miss_count :: u64
  num_delay_count :: u64
  sum_delay_count :: u64
  queue_full_count :: u64
  sleep_cycle_count :: u64
  lifetime_inst_count :: u64
  done_inst_count :: u64
  done_cycle_count :: u64
  done_access_count :: u64
  done_miss_count :: u64
  done_num_delay_count :: u64
  done_sum_delay_count :: u64
  done_queue_full_count :: u64
  done_sleep_cycle_count :: u64
  dropped_writes :: u64

record 'm mem_ops =
  will_accept :: "'m \<Rightarrow> u64 \<Rightarrow> bool \<Rightarrow> bool res"
  add_trans :: "u64 \<Rightarrow> bool \<Rightarrow> 'm \<Rightarrow> (bool \<times> 'm) res"
  clock_tick :: "'m \<Rightarrow> ((u64 \<times> bool) list \<times> 'm) res"

record 't gz_ops =
  gz_open :: "string \<Rightarrow> bool \<Rightarrow> 't option"
  gz_record :: "'t \<Rightarrow> (u64 \<times> bool \<times> u64) \<times> 't"
  gz_eof :: "'t \<Rightarrow> bool"

definition MAX_ROB_ENTRIES :: nat where "MAX_ROB_ENTRIES = 1024"
definition DEFAULT_MEM_DELAY :: nat where "DEFAULT_MEM_DELAY = 5000000"

section \<open>The memory adapter\<close>

definition memsys_mshr_insert :: "u64 \<Rightarrow> u32 \<Rightarrow> u32 \<Rightarrow> u64 \<Rightarrow> 'm MemSys \<Rightarrow> 'm MemSys res" where
  "memsys_mshr_insert l core robid inst m =
     bind_res (require AssertionFailed (mshr m l = None)) (\<lambda>_.
     Inr (m\<lparr>mshr := (mshr m)(l \<mapsto> \<lparr>ms_coreid = core, ms_robid = robid, ms_inst_num = inst\<rparr>)\<rparr>))"

text \<open>The result says whether the read was accepted.  A write-back that is not accepted is dropped.\<close>

definition memsys_access ::
  "'m mem_ops \<Rightarrow> Params \<Rightarrow> u64 \<Rightarrow> u32 \<Rightarrow> u32 \<Rightarrow> u64 \<Rightarrow> u64 \<Rightarrow> 'm MemSys \<Rightarrow> (bool \<times> 'm MemSys) res" where
  "memsys_access ops P l core robid inst wb m =
     (let byteaddress = l * LINESIZE P in
      bind_res (will_accept ops (mainmem m) byteaddress False) (\<lambda>ok.
      bind_res
        (if ok then
           bind_res (add_trans ops byteaddress False (mainmem m)) (\<lambda>(_, mm).
           memsys_mshr_insert l core robid inst (m\<lparr>mainmem := mm\<rparr>))
         else Inr m) (\<lambda>m.
      bind_res
        (if wb \<noteq> 0 then
           let wb_byteaddress = wb * LINESIZE P in
           bind_res (will_accept ops (mainmem m) wb_byteaddress True) (\<lambda>wok.
           if wok then bind_res (add_trans ops wb_byteaddress True (mainmem m)) (\<lambda>(_, mm). Inr (m\<lparr>mainmem := mm\<rparr>)) else Inr m)
         else Inr m) (\<lambda>m.
      Inr (ok, m)))))"

section \<open>The reorder buffer\<close>

definition mcore_rob_insert :: "Params \<Rightarrow> u64 \<Rightarrow> u64 \<Rightarrow> u64 \<Rightarrow> 't MCore \<Rightarrow> (u32 \<times> 't MCore) res" where
  "mcore_rob_insert P inst cyc ready c =
     (let q = rob c in
      bind_res (require AssertionFailed (ucast (rob_size q) < ROB_SIZE P)) (\<lambda>_.
      bind_res (rem_word (ucast (rob_ptr q + rob_size q)) (ROB_SIZE P)) (\<lambda>i.
      let index = (ucast i :: u32) in
      bind_res (vec_set (rob_entries q) (uint index) \<lparr>birth_time = cyc, ready_time = ready, rob_inst_num = inst\<rparr>) (\<lambda>es.
      Inr (index, c\<lparr>rob := q\<lparr>rob_entries := es, rob_size := rob_size q + 1\<rparr>\<rparr>)))))"

fun retire_loop :: "Params \<Rightarrow> nat \<Rightarrow> u32 \<Rightarrow> 't MCore \<Rightarrow> (u32 \<times> 't MCore) res" where
  "retire_loop P 0 n c = Inr (n, c)"
| "retire_loop P (Suc k) n c =
     (let q = rob c in
      bind_res (vec_get (rob_entries q) (uint (rob_ptr q))) (\<lambda>e.
      if ready_time e \<le> core_cycle c then
        bind_res (require AssertionFailed
          (\<not> word_of_nat DEFAULT_MEM_DELAY \<le> ready_time e - birth_time e \<or> sleep c \<and> rob_inst_num e = sleep_inst_num c)) (\<lambda>_.
        bind_res (rem_word (ucast (rob_ptr q + 1)) (ROB_SIZE P)) (\<lambda>p.
        retire_loop P k (n + 1) (c\<lparr>rob := q\<lparr>rob_ptr := ucast p, rob_size := rob_size q - 1\<rparr>\<rparr>)))
      else Inr (n, c)))"

definition mcore_rob_retire :: "Params \<Rightarrow> 't MCore \<Rightarrow> (u32 \<times> 't MCore) res" where
  "mcore_rob_retire P c = (if rob_size (rob c) = 0 then Inr (0, c) else retire_loop P (unat (CORE_WIDTH P)) 0 c)"

definition mcore_rob_wakeup :: "u32 \<Rightarrow> u64 \<Rightarrow> 't MCore \<Rightarrow> 't MCore res" where
  "mcore_rob_wakeup robid inst c =
     bind_res (vec_get (rob_entries (rob c)) (uint robid)) (\<lambda>e.
     bind_res (require AssertionFailed (rob_inst_num e = inst)) (\<lambda>_.
     bind_res (vec_set (rob_entries (rob c)) (uint robid) (e\<lparr>ready_time := core_cycle c\<rparr>)) (\<lambda>es.
     Inr (c\<lparr>rob := (rob c)\<lparr>rob_entries := es\<rparr>, num_delay_count := num_delay_count c + 1,
            sum_delay_count := sum_delay_count c + (core_cycle c - birth_time e)\<rparr>))))"

section \<open>Traces\<close>

definition mcore_init_trace :: "'t gz_ops \<Rightarrow> 't MCore \<Rightarrow> Rand \<Rightarrow> ('t MCore \<times> Rand) res" where
  "mcore_init_trace gz c r =
     (case gz_open gz (addr_trace_fname c) False of
        Some t \<Rightarrow> Inr (c\<lparr>addr_trace := t\<rparr>, r)
      | None \<Rightarrow>
          (let (_, r) = rand r in
           case gz_open gz (addr_trace_fname c) True of
             Some t \<Rightarrow> Inr (c\<lparr>addr_trace := t\<rparr>, r)
           | None \<Rightarrow> Inl (ExitWith 1)))"

definition mcore_fread_trace :: "'t gz_ops \<Rightarrow> 't MCore \<Rightarrow> 't MCore" where
  "mcore_fread_trace gz c =
     (case gz_record gz (addr_trace c) of ((n, w, va), t) \<Rightarrow>
        c\<lparr>trace_inst_num := n, trace_wb := w, trace_va := va, addr_trace := t\<rparr>)"

text \<open>\<open>MCORE_STOP_ON_EOF\<close> is 0: the trace starts over at its end.\<close>

definition mcore_read_trace :: "'t gz_ops \<Rightarrow> Params \<Rightarrow> 't MCore \<Rightarrow> Rand \<Rightarrow> ('t MCore \<times> Rand) res" where
  "mcore_read_trace gz P c r =
     (let c = mcore_fread_trace gz c in
      if gz_eof gz (addr_trace c) \<or> \<not> core_done c \<and> INST_LIMIT P \<le> inst_num c then
        let c = (if \<not> core_done c then
                   c\<lparr>done_inst_count := inst_num c, done_cycle_count := core_cycle c, done_access_count := access_count c,
                     done_miss_count := miss_count c, done_num_delay_count := num_delay_count c,
                     done_sum_delay_count := sum_delay_count c, done_queue_full_count := queue_full_count c,
                     done_sleep_cycle_count := sleep_cycle_count c, core_done := True\<rparr>
                 else c)
        in bind_res (mcore_init_trace gz c r) (\<lambda>(c, r).
           let c = mcore_fread_trace gz c in
           Inr (c\<lparr>lifetime_inst_count := lifetime_inst_count c + inst_num c, inst_num := 0\<rparr>, r))
      else Inr (c, r))"
section \<open>A cycle of a core\<close>

definition mcore_retry_sleeping_request ::
  "'m mem_ops \<Rightarrow> Params \<Rightarrow> 't MCore \<Rightarrow> 'm Nest \<Rightarrow> (bool \<times> 't MCore \<times> 'm Nest) res" where
  "mcore_retry_sleeping_request ops P c s =
     (let c = c\<lparr>sleep_cycle_count := sleep_cycle_count c + 1\<rparr> in
      bind_res (memsys_access ops P (sleep_lineaddr c) (core_id c) (sleep_robid c) (sleep_inst_num c) 0 (memsys s)) (\<lambda>(ok, m).
      let s = s\<lparr>memsys := m\<rparr> in
      if ok then
        bind_res (vec_set (rob_entries (rob c)) (uint (sleep_robid c))
          \<lparr>birth_time = core_cycle c, ready_time = core_cycle c + word_of_nat DEFAULT_MEM_DELAY, rob_inst_num = sleep_inst_num c\<rparr>) (\<lambda>es.
        Inr (True, c\<lparr>rob := (rob c)\<lparr>rob_entries := es\<rparr>, sleep := False\<rparr>, s))
      else Inr (False, c, s)))"

text \<open>The access of an instruction: its delay, whether memory is asked, and the line to write back.\<close>

definition core_access :: "bool \<Rightarrow> Params \<Rightarrow> u64 \<Rightarrow> 't MCore \<Rightarrow> 'm Nest \<Rightarrow> (u32 \<times> bool \<times> u64 \<times> 't MCore \<times> 'm Nest) res" where
  "core_access do_wb P l c s =
     (if trace_wb c then
        bind_res (mcache_mark_dirty (l3cache s) l) (\<lambda>(found, h).
        Inr (0, False, 0, if found then c else c\<lparr>dropped_writes := dropped_writes c + 1\<rparr>, s\<lparr>l3cache := h\<rparr>))
      else
        let delay = (ucast (L3_LATENCY P) :: u32); c = c\<lparr>access_count := access_count c + 1\<rparr> in
        bind_res (llc_read (L3_PERFECT P \<noteq> 0) (LRU_WB_TTH P) (l3cache s) l (rnd s)) (\<lambda>(miss, h, r).
        let s = s\<lparr>l3cache := h, rnd := r\<rparr> in
        if miss then
          Inr (delay + word_of_nat DEFAULT_MEM_DELAY, True,
               if do_wb \<and> evicted_dirty_line h then evicted_line_addr h else 0, c\<lparr>miss_count := miss_count c + 1\<rparr>, s)
        else Inr (delay, False, 0, c, s)))"

text \<open>The instruction of the trace record that is due, and the next record.\<close>

definition core_exec ::
  "'t gz_ops \<Rightarrow> bool \<Rightarrow> Params \<Rightarrow> u64 \<Rightarrow> 't MCore \<Rightarrow> 'm Nest \<Rightarrow> (u32 \<times> bool \<times> u64 \<times> 't MCore \<times> 'm Nest) res" where
  "core_exec gz do_wb P l c s =
     (if trace_inst_num c \<le> inst_num c then
        bind_res (core_access do_wb P l c s) (\<lambda>(delay, mem, wb, c, s).
        bind_res (mcore_read_trace gz P c (rnd s)) (\<lambda>(c, r).
        Inr (delay, mem, wb, c, s\<lparr>rnd := r\<rparr>)))
      else Inr (0, False, 0, c, s))"

text \<open>The instruction enters the reorder buffer and asks memory; if memory is full the core goes to sleep.\<close>

definition core_send ::
  "'m mem_ops \<Rightarrow> Params \<Rightarrow> u64 \<Rightarrow> u32 \<Rightarrow> bool \<Rightarrow> u64 \<Rightarrow> 't MCore \<Rightarrow> 'm Nest \<Rightarrow> (bool \<times> 't MCore \<times> 'm Nest) res" where
  "core_send ops P l delay mem wb c s =
     bind_res (mcore_rob_insert P (inst_num c) (core_cycle c) (core_cycle c + ucast delay) c) (\<lambda>(robid, c).
     if mem then
       bind_res (memsys_access ops P l (core_id c) robid (inst_num c) wb (memsys s)) (\<lambda>(ok, m).
       let s = s\<lparr>memsys := m\<rparr> in
       if ok then Inr (True, c, s)
       else Inr (False, c\<lparr>queue_full_count := queue_full_count c + 1, sleep_lineaddr := l, sleep_robid := robid,
              sleep_inst_num := inst_num c, sleep := True\<rparr>, s))
     else Inr (True, c, s))"

text \<open>One instruction; the result says whether the core goes on in this cycle.  \<open>do_wb\<close> is
  \<open>MCORE_DO_WRITEBACKS\<close>.\<close>

definition core_issue ::
  "'m mem_ops \<Rightarrow> 't gz_ops \<Rightarrow> bool \<Rightarrow> Params \<Rightarrow> 't MCore \<Rightarrow> 'm Nest \<Rightarrow> (bool \<times> 't MCore \<times> 'm Nest) res" where
  "core_issue ops gz do_wb P c s =
     (if ucast (rob_size (rob c)) = ROB_SIZE P then Inr (False, c, s)
      else
        let c = c\<lparr>inst_num := inst_num c + 1\<rparr> in
        bind_res
          (if \<not> core_done c \<and> INST_LIMIT P < inst_num c then
             bind_res (mcore_read_trace gz P c (rnd s)) (\<lambda>(c, r). Inr (c, s\<lparr>rnd := r\<rparr>))
           else Inr (c, s)) (\<lambda>(c, s).
        bind_res (os_v2p_lineaddr (nest_os s) (trace_va c) (core_id c) (rnd s)) (\<lambda>(l, os, r).
        bind_res (core_exec gz do_wb P l c (s\<lparr>nest_os := os, rnd := r\<rparr>)) (\<lambda>(delay, mem, wb, c, s).
        core_send ops P l delay mem wb c s))))"

fun issue_width ::
  "'m mem_ops \<Rightarrow> 't gz_ops \<Rightarrow> bool \<Rightarrow> Params \<Rightarrow> nat \<Rightarrow> 't MCore \<Rightarrow> 'm Nest \<Rightarrow> ('t MCore \<times> 'm Nest) res" where
  "issue_width ops gz do_wb P 0 c s = Inr (c, s)"
| "issue_width ops gz do_wb P (Suc n) c s =
     bind_res (core_issue ops gz do_wb P c s) (\<lambda>(more, c, s). if more then issue_width ops gz do_wb P n c s else Inr (c, s))"

definition mcore_cycle ::
  "'m mem_ops \<Rightarrow> 't gz_ops \<Rightarrow> bool \<Rightarrow> Params \<Rightarrow> 't MCore \<Rightarrow> 'm Nest \<Rightarrow> ('t MCore \<times> 'm Nest) res" where
  "mcore_cycle ops gz do_wb P c s =
     (let c = c\<lparr>core_cycle := core_cycle c + 1\<rparr> in
      bind_res (mcore_rob_retire P c) (\<lambda>(_, c).
      bind_res (if sleep c then mcore_retry_sleeping_request ops P c s else Inr (True, c, s)) (\<lambda>(awake, c, s).
      if awake then issue_width ops gz do_wb P (unat (CORE_WIDTH P)) c s else Inr (c, s))))"

section \<open>Callbacks\<close>

text \<open>The callback of a read wakes the instruction that waits; that of a write does nothing.  The callbacks made
  during a tick do not call the memory, so they are run on the list of answers the tick returns.\<close>

definition memsys_callback :: "Params \<Rightarrow> u64 \<Rightarrow> 'm MemSys \<times> 't MCore list \<Rightarrow> ('m MemSys \<times> 't MCore list) res" where
  "memsys_callback P byteaddress = (\<lambda>(m, cs).
     bind_res (require DivisionByZero (LINESIZE P \<noteq> 0)) (\<lambda>_.
     let l = byteaddress div LINESIZE P in
     case mshr m l of
       None \<Rightarrow> Inl AssertionFailed
     | Some e \<Rightarrow>
         bind_res (vec_get cs (uint (ms_coreid e))) (\<lambda>c.
         bind_res (mcore_rob_wakeup (ms_robid e) (ms_inst_num e) c) (\<lambda>c.
         bind_res (vec_set cs (uint (ms_coreid e)) c) (\<lambda>cs.
         Inr (m\<lparr>mshr := (mshr m)(l := None)\<rparr>, cs))))))"

definition memsys_answers :: "Params \<Rightarrow> (u64 \<times> bool) list \<Rightarrow> 'm MemSys \<times> 't MCore list \<Rightarrow> ('m MemSys \<times> 't MCore list) res" where
  "memsys_answers P = fold_res (\<lambda>(a, w) s. if w then Inr s else memsys_callback P a s)"

definition memsys_cycle :: "'m mem_ops \<Rightarrow> Params \<Rightarrow> 'm MemSys \<times> 't MCore list \<Rightarrow> ('m MemSys \<times> 't MCore list) res" where
  "memsys_cycle ops P = (\<lambda>(m, cs).
     bind_res (clock_tick ops (mainmem m)) (\<lambda>(es, mm). memsys_answers P es (m\<lparr>mainmem := mm\<rparr>, cs)))"

section \<open>Construction\<close>

definition new_ROB :: ROB where
  "new_ROB = \<lparr>rob_entries = replicate MAX_ROB_ENTRIES \<lparr>birth_time = 0, ready_time = 0, rob_inst_num = 0\<rparr>, rob_ptr = 0, rob_size = 0\<rparr>"

text \<open>The handle of the trace is set by \<open>mcore_init_trace\<close>; before that it is null, here any value.\<close>

definition mcore_new :: "'t gz_ops \<Rightarrow> Params \<Rightarrow> 't \<Rightarrow> string \<Rightarrow> u32 \<Rightarrow> Rand \<Rightarrow> ('t MCore \<times> Rand) res" where
  "mcore_new gz P null fname i r =
     (let c = \<lparr>core_id = i, addr_trace_fname = fname, addr_trace = null, core_done = False, sleep = False, sleep_lineaddr = 0,
           sleep_robid = 0, sleep_inst_num = 0, rob = new_ROB, trace_inst_num = 0, trace_va = 0, trace_wb = False,
           core_cycle = 0, inst_num = 0, access_count = 0, miss_count = 0, num_delay_count = 0, sum_delay_count = 0,
           queue_full_count = 0, sleep_cycle_count = 0, lifetime_inst_count = 0, done_inst_count = 0, done_cycle_count = 0,
           done_access_count = 0, done_miss_count = 0, done_num_delay_count = 0, done_sum_delay_count = 0,
           done_queue_full_count = 0, done_sleep_cycle_count = 0, dropped_writes = 0\<rparr>
      in bind_res (mcore_init_trace gz c r) (\<lambda>(c, r). mcore_read_trace gz P c r))"

end
