(* ===== verification/Memory_Backend.thy ===== *)
theory Memory_Backend
  imports Prelude "HOL-Library.Multiset"
begin

text \<open>
  The interface between a client and a memory: requests are added, and a cycle returns answers.  The laws of
  the interface give the balance of requests and answers in every run.  The memory systems of the DRAM
  simulator are its interpretations; the cores of the processor simulator are its client.
\<close>

section \<open>Sums of multisets\<close>

text \<open>The contents of several queues, when one of them changes.\<close>

lemma sum_list_upd:
  fixes f :: "'a \<Rightarrow> 'b multiset"
  assumes "i < length xs"
  shows "sum_list (map f (xs[i := x])) + f (xs ! i) = sum_list (map f xs) + f x"
  using assms
proof (induction xs arbitrary: i)
  case (Cons y ys)
  then show ?case by (cases i) (auto simp: ac_simps)
qed simp

section \<open>Memory backends\<close>

text \<open>
  A memory backend as an interface: a request that is accepted becomes pending, and a cycle answers some of
  the pending ones.
\<close>

inductive mem_run ::
  "('s \<Rightarrow> bool) \<Rightarrow> (u64 \<Rightarrow> bool \<Rightarrow> 's \<Rightarrow> (bool \<times> 's) res) \<Rightarrow> ('s \<Rightarrow> bool) \<Rightarrow> ('s \<Rightarrow> ((u64 \<times> bool) list \<times> 's) res) \<Rightarrow>
     (u64 \<times> bool) multiset \<Rightarrow> (u64 \<times> bool) multiset \<Rightarrow> 's \<Rightarrow> bool" for init add_op guard tick where
  start: "init s \<Longrightarrow> mem_run init add_op guard tick {#} {#} s"
| request: "mem_run init add_op guard tick reqs ans s \<Longrightarrow> add_op a w s = Inr (ok, s') \<Longrightarrow>
    mem_run init add_op guard tick (add_mset (a, w) reqs) ans s'"
| cycle: "mem_run init add_op guard tick reqs ans s \<Longrightarrow> guard s \<Longrightarrow> tick s = Inr (es, s') \<Longrightarrow>
    mem_run init add_op guard tick reqs (mset es + ans) s'"

locale memory_backend =
  fixes init :: "'s \<Rightarrow> bool" and wf :: "'s \<Rightarrow> bool" and pending :: "'s \<Rightarrow> (u64 \<times> bool) multiset"
    and add_op :: "u64 \<Rightarrow> bool \<Rightarrow> 's \<Rightarrow> (bool \<times> 's) res" and guard :: "'s \<Rightarrow> bool"
    and tick :: "'s \<Rightarrow> ((u64 \<times> bool) list \<times> 's) res"
  assumes init_law: "init s \<Longrightarrow> wf s \<and> pending s = {#}"
    and add_law: "wf s \<Longrightarrow> add_op a w s = Inr (ok, s') \<Longrightarrow> wf s' \<and> pending s' = add_mset (a, w) (pending s)"
    and tick_law: "wf s \<Longrightarrow> guard s \<Longrightarrow> succeeds (tick s) (\<lambda>(es, s'). wf s' \<and> pending s = mset es + pending s')"
begin

lemma balance:
  assumes "mem_run init add_op guard tick reqs ans s"
  shows "wf s \<and> reqs = ans + pending s"
  using assms
proof induction
  case (start s)
  then show ?case using init_law by simp
next
  case (request reqs ans s a w ok s')
  then show ?case using add_law by fastforce
next
  case (cycle reqs ans s es s')
  then show ?case using tick_law [of s] by (simp add: ac_simps)
qed

lemma cycle_answers:
  "mem_run init add_op guard tick reqs ans s \<Longrightarrow> guard s \<Longrightarrow>
     succeeds (tick s) (\<lambda>(es, s'). wf s' \<and> mset es \<subseteq># pending s \<and> pending s' = pending s - mset es)"
  using balance tick_law [of s] by (auto elim!: succeeds_mono)

end

end
