(* ===== verification/MCore_Correct.thy ===== *)
theory MCore_Correct
  imports MCore Memory_Backend
begin

text \<open>
  Correctness of the cores on any memory that keeps the laws of the interface.  The reorder buffer is a queue in a
  ring; its count never runs below zero, since a core leaves a cycle with at least a full width of
  instructions in flight unless it sleeps.  The outstanding reads of the memory are the lines of the MSHR, and
  each MSHR entry names a live slot of the reorder buffer that holds its instruction; so every answer finds the
  instruction that waits for it.
\<close>

section \<open>The reorder buffer as a ring\<close>

abbreviation rob_cap :: "Params \<Rightarrow> nat" where "rob_cap P \<equiv> unat (ROB_SIZE P)"
abbreviation width :: "Params \<Rightarrow> nat" where "width P \<equiv> unat (CORE_WIDTH P)"

definition params_ok :: "Params \<Rightarrow> bool" where
  "params_ok P \<longleftrightarrow> 0 < width P \<and> width P \<le> rob_cap P \<and> rob_cap P \<le> MAX_ROB_ENTRIES \<and> LINESIZE P \<noteq> 0 \<and>
     unat (L3_LATENCY P) + DEFAULT_MEM_DELAY < 2 ^ 32"

definition rob_ok :: "Params \<Rightarrow> ROB \<Rightarrow> bool" where
  "rob_ok P q \<longleftrightarrow> length (rob_entries q) = MAX_ROB_ENTRIES \<and> unat (rob_ptr q) < rob_cap P \<and> unat (rob_size q) \<le> rob_cap P"

definition rob_slot :: "Params \<Rightarrow> ROB \<Rightarrow> nat \<Rightarrow> nat" where
  "rob_slot P q j = (unat (rob_ptr q) + j) mod rob_cap P"

definition live :: "Params \<Rightarrow> ROB \<Rightarrow> nat set" where
  "live P q = rob_slot P q ` {..<unat (rob_size q)}"

lemma params_cap:
  assumes "params_ok P"
  shows "0 < rob_cap P" and "rob_cap P \<le> 1024" and "ROB_SIZE P \<noteq> 0"
  using assms by (auto simp: params_ok_def MAX_ROB_ENTRIES_def)

lemma rob_slot_lt: "params_ok P \<Longrightarrow> rob_slot P q j < rob_cap P"
  by (simp add: rob_slot_def params_cap)

lemma rob_slot_inj:
  assumes "rob_slot P q i = rob_slot P q j" and "i < rob_cap P" and "j < rob_cap P"
  shows "i = j"
proof -
  have "a = b" if "a \<le> b" "(p + a) mod n = (p + b) mod n" "b < n" for a b p n :: nat
  proof -
    have "n dvd (p + b) - (p + a)" using that(1,2) by (metis add_le_cancel_left mod_eq_dvd_iff_nat)
    then show ?thesis using that(1,3) by (auto dest: dvd_imp_le)
  qed
  from this [of i j] this [of j i] show ?thesis using assms unfolding rob_slot_def by (metis nat_le_linear)
qed

text \<open>The index arithmetic of the code, on small values.\<close>

lemma ring_index:
  assumes "params_ok P" and "unat a + b < 2 ^ 32"
  shows "rem_word (ucast (a + word_of_nat b :: u32)) (ROB_SIZE P) = Inr (ucast (a + word_of_nat b) mod ROB_SIZE P)"
    and "unat (ucast (ucast (a + word_of_nat b :: u32) mod ROB_SIZE P) :: u32) = (unat a + b) mod rob_cap P"
proof -
  show "rem_word (ucast (a + word_of_nat b :: u32)) (ROB_SIZE P) = Inr (ucast (a + word_of_nat b) mod ROB_SIZE P)"
    using params_cap(3) [OF assms(1)] by (simp add: rem_word_def)
  have b: "unat (word_of_nat b :: u32) = b" using assms(2) by (simp add: unsigned_of_nat take_bit_nat_eq_self)
  have s: "unat (a + word_of_nat b) = unat a + b" using assms(2) b by (simp add: unat_add_lem [THEN iffD1])
  have "unat (ucast (a + word_of_nat b :: u32) mod ROB_SIZE P) = (unat a + b) mod rob_cap P"
    by (simp add: unat_mod unat_widen s)
  moreover have "(unat a + b) mod rob_cap P < 2 ^ 32"
    using mod_less_divisor [OF params_cap(1) [OF assms(1)], of "unat a + b"] params_cap(2) [OF assms(1)] by simp
  ultimately show "unat (ucast (ucast (a + word_of_nat b :: u32) mod ROB_SIZE P) :: u32) = (unat a + b) mod rob_cap P"
    by (simp add: unat_ucast_small)
qed
section \<open>Inserting and retiring\<close>

lemma live_lt: "params_ok P \<Longrightarrow> i \<in> live P q \<Longrightarrow> i < rob_cap P"
  by (auto simp: live_def rob_slot_lt)

lemma rob_slot_same: "rob_ptr q' = rob_ptr q \<Longrightarrow> rob_slot P q' = rob_slot P q"
  by (simp add: rob_slot_def fun_eq_iff)

lemma mcore_rob_insert_ok:
  assumes "params_ok P" and "rob_ok P (rob c)" and "ucast (rob_size (rob c)) \<noteq> ROB_SIZE P"
  shows "\<exists>i q. mcore_rob_insert P inst cyc ready c = Inr (i, c\<lparr>rob := q\<rparr>) \<and> rob_ok P q \<and> unat i \<notin> live P (rob c) \<and>
    live P q = insert (unat i) (live P (rob c)) \<and> unat (rob_size q) = Suc (unat (rob_size (rob c))) \<and>
    rob_entries q = (rob_entries (rob c))[unat i := \<lparr>birth_time = cyc, ready_time = ready, rob_inst_num = inst\<rparr>]"
proof -
  let ?q = "rob c" and ?e = "\<lparr>birth_time = cyc, ready_time = ready, rob_inst_num = inst\<rparr>"
  have q: "length (rob_entries ?q) = 1024" "unat (rob_ptr ?q) < rob_cap P" "unat (rob_size ?q) \<le> rob_cap P"
    using assms(2) by (auto simp: rob_ok_def MAX_ROB_ENTRIES_def)
  note cap = params_cap [OF assms(1)]
  have size: "unat (rob_size ?q) < rob_cap P"
    using q(3) assms(3) by (metis le_neq_implies_less unat_widen word_unat_eq_iff)
  have lt: "(ucast (rob_size ?q) :: u64) < ROB_SIZE P" using size by (simp add: word_less_nat_alt unat_widen)
  define i :: u32 where "i = ucast (ucast (rob_ptr ?q + rob_size ?q) mod ROB_SIZE P :: u64)"
  have nat: "rob_size ?q = word_of_nat (unat (rob_size ?q))" by simp
  have small: "unat (rob_ptr ?q) + unat (rob_size ?q) < 2 ^ 32" using q cap by simp
  have i: "unat i = rob_slot P ?q (unat (rob_size ?q))"
    using ring_index(2) [OF assms(1) small] by (simp add: i_def rob_slot_def)
  then have ib: "unat i < 1024" using rob_slot_lt [OF assms(1), of ?q "unat (rob_size ?q)"] cap(2) by simp
  let ?q' = "?q\<lparr>rob_entries := (rob_entries ?q)[unat i := ?e], rob_size := rob_size ?q + 1\<rparr>"
  have inc: "unat (rob_size ?q + 1) = Suc (unat (rob_size ?q))" using size cap(2) unat_add_lem [of "rob_size ?q" 1] by simp
  have set: "vec_set (rob_entries ?q) (uint i) ?e = Inr ((rob_entries ?q)[unat i := ?e])"
    using ib q(1) by (simp add: vec_set_def uint_nat del: of_nat_unat)
  have "mcore_rob_insert P inst cyc ready c = Inr (i, c\<lparr>rob := ?q'\<rparr>)"
    using lt cap(3) set by (simp add: mcore_rob_insert_def Let_def rem_word_def i_def [symmetric])
  moreover have "rob_ok P ?q'" using q size inc by (simp add: rob_ok_def MAX_ROB_ENTRIES_def)
  moreover have "unat i \<notin> live P ?q" using size by (auto simp: live_def i dest: rob_slot_inj)
  moreover have "live P ?q' = insert (unat i) (live P ?q)"
  proof -
    have "rob_slot P ?q' = rob_slot P ?q" by (rule rob_slot_same) simp
    then show ?thesis by (simp add: live_def inc i lessThan_Suc)
  qed
  ultimately show ?thesis using inc by (intro exI [of _ i] exI [of _ ?q']) simp
qed

text \<open>Retiring removes ready entries from the front.  It cannot empty the ring beyond its end if there is an entry
  that is not ready, or at least as many entries as it may retire.\<close>

lemma retire_step:
  assumes "params_ok P" and "rob_ok P q" and "0 < unat (rob_size q)"
  defines "q' \<equiv> q\<lparr>rob_ptr := ucast (ucast (rob_ptr q + 1) mod ROB_SIZE P :: u64), rob_size := rob_size q - 1\<rparr>"
  shows "rem_word (ucast (rob_ptr q + 1)) (ROB_SIZE P) = Inr (ucast (rob_ptr q + 1) mod ROB_SIZE P)"
    and "rob_ok P q'" and "unat (rob_size q') = unat (rob_size q) - 1" and "live P q = insert (unat (rob_ptr q)) (live P q')"
    and "unat (rob_ptr q) \<notin> live P q'"
proof -
  note cap = params_cap [OF assms(1)]
  have q: "unat (rob_ptr q) < rob_cap P" "unat (rob_size q) \<le> rob_cap P" using assms(2) by (auto simp: rob_ok_def)
  have small: "unat (rob_ptr q) + 1 < 2 ^ 32" using q cap by simp
  show "rem_word (ucast (rob_ptr q + 1)) (ROB_SIZE P) = Inr (ucast (rob_ptr q + 1) mod ROB_SIZE P)"
    using cap(3) by (simp add: rem_word_def)
  have ptr: "unat (rob_ptr q') = (unat (rob_ptr q) + 1) mod rob_cap P"
    using ring_index(2) [OF assms(1) small] by (simp add: q'_def)
  show size: "unat (rob_size q') = unat (rob_size q) - 1"
    using assms(3) by (simp add: q'_def unat_minus_one unat_gt_0)
  show "rob_ok P q'"
    using assms(2) q size ptr cap(1) by (simp add: rob_ok_def) (simp add: q'_def)
  have slot: "rob_slot P q' j = rob_slot P q (Suc j)" for j by (simp add: rob_slot_def ptr mod_simps)
  have zero: "rob_slot P q 0 = unat (rob_ptr q)" using q(1) by (simp add: rob_slot_def)
  have "{..<unat (rob_size q)} = insert 0 (Suc ` {..<unat (rob_size q')})"
    using assms(3) by (simp add: size lessThan_Suc_eq_insert_0 [symmetric])
  then show "live P q = insert (unat (rob_ptr q)) (live P q')"
    by (simp add: live_def zero slot image_image)
  show "unat (rob_ptr q) \<notin> live P q'"
  proof
    assume "unat (rob_ptr q) \<in> live P q'"
    then obtain j where "j < unat (rob_size q')" "rob_slot P q 0 = rob_slot P q (Suc j)" by (auto simp: live_def slot zero)
    moreover from this(1) have "Suc j < rob_cap P" using q(2) size by linarith
    ultimately show False using rob_slot_inj [of P q 0 "Suc j"] cap(1) by simp
  qed
qed

text \<open>An instruction that has been given the default delay of memory.  Only a core that sleeps retires it.\<close>

definition waiting :: "ROB_Entry \<Rightarrow> bool" where
  "waiting e \<longleftrightarrow> word_of_nat DEFAULT_MEM_DELAY \<le> ready_time e - birth_time e"

lemma retire_loop_ok:
  assumes "params_ok P" and "rob_ok P (rob c)" and "k \<le> unat (rob_size (rob c)) \<or> (\<exists>i \<in> live P (rob c). core_cycle c < ready_time (rob_entries (rob c) ! i))"
  shows "on_success (retire_loop P k n c) (\<lambda>(n', c'). \<exists>q. c' = c\<lparr>rob := q\<rparr> \<and> rob_ok P q \<and> rob_entries q = rob_entries (rob c) \<and>
    live P q \<subseteq> live P (rob c) \<and> (\<forall>i \<in> live P (rob c) - live P q. ready_time (rob_entries (rob c) ! i) \<le> core_cycle c \<and>
      (waiting (rob_entries (rob c) ! i) \<longrightarrow> sleep c)))"
  using assms(2,3)
proof (induction k arbitrary: n c)
  case 0
  then show ?case by (auto intro!: exI [of _ "rob c"])
next
  case (Suc k)
  let ?q = "rob c" and ?e = "rob_entries (rob c) ! unat (rob_ptr (rob c))"
  have q: "unat (rob_ptr ?q) < 1024" "length (rob_entries ?q) = 1024"
    using Suc.prems(1) params_cap [OF assms(1)] by (auto simp: rob_ok_def MAX_ROB_ENTRIES_def)
  have get: "vec_get (rob_entries ?q) (uint (rob_ptr ?q)) = Inr ?e" using q by (simp add: vec_get_def uint_nat del: of_nat_unat)
  have pos: "0 < unat (rob_size ?q)" using Suc.prems(2) by (cases "unat (rob_size ?q)") (auto simp: live_def)
  let ?q' = "?q\<lparr>rob_ptr := ucast (ucast (rob_ptr ?q + 1) mod ROB_SIZE P :: u64), rob_size := rob_size ?q - 1\<rparr>"
  note st = retire_step [OF assms(1) Suc.prems(1) pos]
  show ?case
  proof (cases "ready_time ?e \<le> core_cycle c")
    case False
    then show ?thesis using Suc.prems(1) by (auto simp: get intro!: exI [of _ ?q])
  next
    case True
    have "k \<le> unat (rob_size ?q') \<or> (\<exists>i \<in> live P ?q'. core_cycle c < ready_time (rob_entries ?q ! i))"
      using Suc.prems(2) True st(3,4) by auto
    then have IH: "on_success (retire_loop P k (n + 1) (c\<lparr>rob := ?q'\<rparr>)) (\<lambda>(n', c'). \<exists>q. c' = c\<lparr>rob := q\<rparr> \<and> rob_ok P q \<and>
        rob_entries q = rob_entries ?q \<and> live P q \<subseteq> live P ?q' \<and> (\<forall>i \<in> live P ?q' - live P q. ready_time (rob_entries ?q ! i) \<le> core_cycle c \<and>
        (waiting (rob_entries ?q ! i) \<longrightarrow> sleep c)))"
      using Suc.IH [of "c\<lparr>rob := ?q'\<rparr>" "n + 1"] st(2) by simp
    have "on_success (retire_loop P k (n + 1) (c\<lparr>rob := ?q'\<rparr>)) (\<lambda>(n', c'). \<exists>q. c' = c\<lparr>rob := q\<rparr> \<and> rob_ok P q \<and>
        rob_entries q = rob_entries ?q \<and> live P q \<subseteq> live P ?q \<and> (\<forall>i \<in> live P ?q - live P q. ready_time (rob_entries ?q ! i) \<le> core_cycle c \<and>
        (waiting (rob_entries ?q ! i) \<longrightarrow> sleep c)))" if "waiting ?e \<longrightarrow> sleep c"
      by (rule on_success_mono [OF IH]) (use st(4) True that in \<open>auto intro: exI\<close>)
    then show ?thesis using True by (simp add: get st(1) Let_def waiting_def require_def)
  qed
qed
section \<open>Invariants\<close>

text \<open>The byte address of a line does not overflow, so that it leads back to the line.\<close>

definition line_ok :: "Params \<Rightarrow> u64 \<Rightarrow> bool" where
  "line_ok P l \<longleftrightarrow> unat l * unat (LINESIZE P) < 2 ^ 64"

lemma line_back:
  assumes "line_ok P l" and "LINESIZE P \<noteq> 0"
  shows "l * LINESIZE P div LINESIZE P = l"
proof -
  have "unat (l * LINESIZE P) = unat l * unat (LINESIZE P)" using assms(1) unat_mult_lem [of l "LINESIZE P"] by (simp add: line_ok_def)
  moreover have "0 < unat (LINESIZE P)" using assms(2) by (simp add: unat_gt_0)
  ultimately have "unat (l * LINESIZE P div LINESIZE P) = unat l" by (simp add: unat_div)
  then show ?thesis by (simp add: word_unat_eq_iff)
qed

text \<open>The outstanding reads of the memory are the lines of the MSHR.\<close>

definition mem_inv :: "('m \<Rightarrow> bool) \<Rightarrow> ('m \<Rightarrow> (u64 \<times> bool) multiset) \<Rightarrow> Params \<Rightarrow> 'm MemSys \<Rightarrow> bool" where
  "mem_inv good pend P m \<longleftrightarrow> good (mainmem m) \<and> finite (dom (mshr m)) \<and> (\<forall>l \<in> dom (mshr m). line_ok P l) \<and>
     filter_mset (\<lambda>x. \<not> snd x) (pend (mainmem m)) = image_mset (\<lambda>l. (l * LINESIZE P, False)) (mset_set (dom (mshr m)))"

text \<open>An MSHR entry of a core names a live slot that holds its instruction, with the default delay; the slot a sleeping core waits to send
  is live and not in the MSHR.\<close>

definition waits_in :: "(u64 \<rightharpoonup> MSHR_Entry) \<Rightarrow> 't MCore \<Rightarrow> u32 \<Rightarrow> bool" where
  "waits_in ms c robid \<longleftrightarrow> (\<exists>l e. ms l = Some e \<and> ms_coreid e = core_id c \<and> ms_robid e = robid)"

definition core_ok :: "Params \<Rightarrow> (u64 \<rightharpoonup> MSHR_Entry) \<Rightarrow> 't MCore \<Rightarrow> bool" where
  "core_ok P ms c \<longleftrightarrow> rob_ok P (rob c) \<and>
     (\<forall>l e. ms l = Some e \<longrightarrow> ms_coreid e = core_id c \<longrightarrow>
        unat (ms_robid e) \<in> live P (rob c) \<and> rob_inst_num (rob_entries (rob c) ! unat (ms_robid e)) = ms_inst_num e \<and>
        waiting (rob_entries (rob c) ! unat (ms_robid e))) \<and>
     (sleep c \<longrightarrow> unat (sleep_robid c) \<in> live P (rob c) \<and> line_ok P (sleep_lineaddr c) \<and> \<not> waits_in ms c (sleep_robid c))"

definition core_inv :: "Params \<Rightarrow> (u64 \<rightharpoonup> MSHR_Entry) \<Rightarrow> 't MCore \<Rightarrow> bool" where
  "core_inv P ms c \<longleftrightarrow> core_ok P ms c \<and> (rob_size (rob c) = 0 \<or> width P \<le> unat (rob_size (rob c)) \<or> sleep c)"

definition ms_inj :: "(u64 \<rightharpoonup> MSHR_Entry) \<Rightarrow> bool" where
  "ms_inj ms \<longleftrightarrow> (\<forall>l l' e e'. ms l = Some e \<longrightarrow> ms l' = Some e' \<longrightarrow> ms_coreid e = ms_coreid e' \<longrightarrow> ms_robid e = ms_robid e' \<longrightarrow> l = l')"

text \<open>While a core sleeps, no instruction that waits for memory reaches its default delay in the next cycle.  (A core
  that is awake aborts when that happens.)\<close>

definition timely :: "(u64 \<rightharpoonup> MSHR_Entry) \<Rightarrow> 't MCore \<Rightarrow> bool" where
  "timely ms c \<longleftrightarrow> (sleep c \<longrightarrow> (\<forall>robid. waits_in ms c robid \<or> robid = sleep_robid c \<longrightarrow>
     core_cycle c + 1 < ready_time (rob_entries (rob c) ! unat robid)))"

text \<open>The parts of a core the invariant is about.\<close>

lemma core_frame:
  assumes "core_id c' = core_id c" and "sleep c' = sleep c" and "sleep_robid c' = sleep_robid c" and "sleep_lineaddr c' = sleep_lineaddr c"
    and "rob_ptr (rob c') = rob_ptr (rob c)" and "rob_size (rob c') = rob_size (rob c)"
    and "length (rob_entries (rob c')) = length (rob_entries (rob c))"
    and "\<And>l e. ms l = Some e \<Longrightarrow> ms_coreid e = core_id c \<Longrightarrow> rob_entries (rob c') ! unat (ms_robid e) = rob_entries (rob c) ! unat (ms_robid e)"
  shows "core_ok P ms c' = core_ok P ms c" and "core_inv P ms c' = core_inv P ms c" and "live P (rob c') = live P (rob c)"
proof -
  show l: "live P (rob c') = live P (rob c)" using assms(5,6) by (simp add: live_def rob_slot_def)
  have r: "rob_ok P (rob c') = rob_ok P (rob c)" using assms by (simp add: rob_ok_def)
  have w: "waits_in ms c' = waits_in ms c" using assms(1) by (simp add: waits_in_def fun_eq_iff)
  show o: "core_ok P ms c' = core_ok P ms c" unfolding core_ok_def l r w assms(1-4) using assms(8) by auto
  show "core_inv P ms c' = core_inv P ms c" unfolding core_inv_def o assms(2,6) ..
qed

text \<open>What one core's requests change for the core itself and for the others.\<close>

definition requests_of :: "u32 \<Rightarrow> (u64 \<rightharpoonup> MSHR_Entry) \<Rightarrow> (u64 \<rightharpoonup> MSHR_Entry) \<Rightarrow> bool" where
  "requests_of i ms ms' \<longleftrightarrow> (\<forall>l. ms' l = ms l \<or> ms l = None \<and> (\<exists>e. ms' l = Some e \<and> ms_coreid e = i))"

lemma requests_of_refl [simp]: "requests_of i ms ms"
  by (simp add: requests_of_def)

lemma requests_of_trans: "requests_of i a b \<Longrightarrow> requests_of i b c \<Longrightarrow> requests_of i a c"
  unfolding requests_of_def by (metis option.discI)

lemma requests_of_put: "ms l = None \<Longrightarrow> ms_coreid e = i \<Longrightarrow> requests_of i ms (ms(l \<mapsto> e))"
  by (simp add: requests_of_def)

lemma requests_of_other:
  assumes "requests_of i ms ms'" and "core_id c \<noteq> i"
  shows "core_inv P ms' c = core_inv P ms c"
proof -
  have "(\<exists>e. ms' l = Some e \<and> ms_coreid e = core_id c \<and> Q l e) \<longleftrightarrow> (\<exists>e. ms l = Some e \<and> ms_coreid e = core_id c \<and> Q l e)" for l Q
    using assms unfolding requests_of_def by (metis option.inject option.discI)
  then have same: "(ms' l = Some e \<and> ms_coreid e = core_id c) = (ms l = Some e \<and> ms_coreid e = core_id c)" for l e
    using assms unfolding requests_of_def by (metis option.inject option.discI)
  have "waits_in ms' c r = waits_in ms c r" for r unfolding waits_in_def using same by blast
  then show ?thesis unfolding core_inv_def core_ok_def using same by blast
qed

text \<open>A new request in a slot of its own.\<close>

lemma ms_inj_put:
  assumes "ms_inj ms" and "\<not> waits_in ms c (ms_robid e)" and "ms_coreid e = core_id c"
  shows "ms_inj (ms(l \<mapsto> e))"
  using assms unfolding ms_inj_def waits_in_def by (auto split: if_splits) metis

lemma core_ok_put:
  assumes "core_ok P ms c" and "\<not> sleep c" and "unat (ms_robid e) \<in> live P (rob c)"
    and "rob_inst_num (rob_entries (rob c) ! unat (ms_robid e)) = ms_inst_num e" and "waiting (rob_entries (rob c) ! unat (ms_robid e))"
  shows "core_ok P (ms(l \<mapsto> e)) c"
  using assms unfolding core_ok_def by (auto split: if_splits)
section \<open>Parts of a cycle that leave the reorder buffer alone\<close>

definition core_kept :: "'t MCore \<Rightarrow> 't MCore \<Rightarrow> bool" where
  "core_kept c c' \<longleftrightarrow> core_id c' = core_id c \<and> sleep c' = sleep c \<and> sleep_robid c' = sleep_robid c \<and>
     sleep_lineaddr c' = sleep_lineaddr c \<and> rob c' = rob c"

lemma core_kept_inv: "core_kept c c' \<Longrightarrow> core_ok P ms c' = core_ok P ms c" "core_kept c c' \<Longrightarrow> waits_in ms c' = waits_in ms c"
  by (rule core_frame(1); simp add: core_kept_def) (simp add: core_kept_def waits_in_def fun_eq_iff)

lemma init_trace_same: "on_success (mcore_init_trace gz c r) (\<lambda>(c', r'). core_kept c c')"
  by (auto simp: mcore_init_trace_def core_kept_def split: option.splits prod.splits)

lemma fread_trace_same: "core_kept c (mcore_fread_trace gz c)"
  by (simp add: mcore_fread_trace_def core_kept_def split: prod.splits)

lemma core_kept_trans: "core_kept a b \<Longrightarrow> core_kept b c \<Longrightarrow> core_kept a c"
  by (simp add: core_kept_def)

lemma read_trace_same: "on_success (mcore_read_trace gz P c r) (\<lambda>(c', r'). core_kept c c')"
proof -
  have fin: "core_kept c c1 \<Longrightarrow> core_kept c ((mcore_fread_trace gz c1)\<lparr>lifetime_inst_count := x, inst_num := y\<rparr>)" for c1 x y
    using core_kept_trans [OF _ fread_trace_same, of c c1 gz] by (simp add: core_kept_def)
  have init: "core_kept c c2 \<Longrightarrow> on_success (mcore_init_trace gz c2 r) (\<lambda>(c', r'). core_kept c c')" for c2 r
    using init_trace_same [of gz c2 r] by (auto elim!: on_success_mono intro: core_kept_trans)
  have done_same: "core_kept c c1 \<Longrightarrow> core_kept c (c1\<lparr>done_inst_count := a1, done_cycle_count := a2, done_access_count := a3,
      done_miss_count := a4, done_num_delay_count := a5, done_sum_delay_count := a6, done_queue_full_count := a7,
      done_sleep_cycle_count := a8, core_done := True\<rparr>)" for c1 a1 a2 a3 a4 a5 a6 a7 a8
    by (simp add: core_kept_def)
  have again: "on_success (bind_res (mcore_init_trace gz c2 r) (\<lambda>(c, r). let c = mcore_fread_trace gz c in
      Inr (c\<lparr>lifetime_inst_count := lifetime_inst_count c + inst_num c, inst_num := 0\<rparr>, r))) (\<lambda>(c', r'). core_kept c c')"
    if "core_kept c c2" for c2 r
    by (rule on_success_bindI [OF init [OF that]]) (auto simp: Let_def fin)
  show ?thesis
    using again fread_trace_same [of c gz] done_same [OF fread_trace_same [of c gz]]
    by (simp add: mcore_read_trace_def Let_def del: on_success_bind)
qed

lemma memory_delay:
  assumes "params_ok P"
  shows "word_of_nat DEFAULT_MEM_DELAY \<le> (ucast (ucast (L3_LATENCY P) + word_of_nat DEFAULT_MEM_DELAY :: u32) :: u64)"
proof -
  have small: "unat (L3_LATENCY P) + DEFAULT_MEM_DELAY < 2 ^ 32" using assms by (simp add: params_ok_def)
  have l: "unat (ucast (L3_LATENCY P) :: u32) = unat (L3_LATENCY P)" using small by (simp add: unat_ucast_small)
  have d: "unat (word_of_nat DEFAULT_MEM_DELAY :: u32) = DEFAULT_MEM_DELAY" "unat (word_of_nat DEFAULT_MEM_DELAY :: u64) = DEFAULT_MEM_DELAY"
    by (simp_all add: DEFAULT_MEM_DELAY_def)
  have "unat (ucast (L3_LATENCY P) + word_of_nat DEFAULT_MEM_DELAY :: u32) = unat (L3_LATENCY P) + DEFAULT_MEM_DELAY"
    using small l d(1) unat_add_lem [of "ucast (L3_LATENCY P) :: u32" "word_of_nat DEFAULT_MEM_DELAY"] by simp
  then show ?thesis by (simp add: word_le_nat_alt unat_widen d(2))
qed

lemma core_access_same:
  assumes "params_ok P"
  shows "on_success (core_access do_wb P l c s) (\<lambda>(d, mem, wb, c', s'). core_kept c c' \<and> memsys s' = memsys s \<and> nest_os s' = nest_os s \<and>
    (mem \<longrightarrow> word_of_nat DEFAULT_MEM_DELAY \<le> (ucast d :: u64)))"
proof (cases "trace_wb c")
  case True
  show ?thesis unfolding core_access_def using True
    by (simp del: on_success_bind) (rule on_success_bindI [OF on_success_True], auto simp: core_kept_def)
next
  case False
  show ?thesis unfolding core_access_def using False memory_delay [OF assms]
    by (simp add: Let_def del: on_success_bind) (rule on_success_bindI [OF on_success_True], auto simp: core_kept_def)
qed

text \<open>A fresh slot.\<close>

lemma core_ok_insert:
  assumes "params_ok P" and "core_ok P ms c" and "\<not> sleep c" and "ucast (rob_size (rob c)) \<noteq> ROB_SIZE P"
  shows "\<exists>i q. mcore_rob_insert P inst cyc ready c = Inr (i, c\<lparr>rob := q\<rparr>) \<and> core_ok P ms (c\<lparr>rob := q\<rparr>) \<and> \<not> waits_in ms c i \<and>
    unat i \<in> live P q \<and> rob_entries q ! unat i = \<lparr>birth_time = cyc, ready_time = ready, rob_inst_num = inst\<rparr> \<and> unat (rob_size q) = Suc (unat (rob_size (rob c)))"
proof -
  have ok: "rob_ok P (rob c)" using assms(2) by (simp add: core_ok_def)
  obtain i q where q: "mcore_rob_insert P inst cyc ready c = Inr (i, c\<lparr>rob := q\<rparr>)" "rob_ok P q" "unat i \<notin> live P (rob c)"
    "live P q = insert (unat i) (live P (rob c))" "unat (rob_size q) = Suc (unat (rob_size (rob c)))"
    "rob_entries q = (rob_entries (rob c))[unat i := \<lparr>birth_time = cyc, ready_time = ready, rob_inst_num = inst\<rparr>]"
    using mcore_rob_insert_ok [OF assms(1) ok assms(4)] by blast
  have lt: "unat i < length (rob_entries (rob c))"
    using live_lt [OF assms(1), of "unat i" q] q(4) params_cap(2) [OF assms(1)] ok by (simp add: rob_ok_def MAX_ROB_ENTRIES_def)
  have w: "\<not> waits_in ms c i" using q(3) assms(2) unfolding waits_in_def core_ok_def by blast
  have "unat (ms_robid e) \<in> live P q \<and> rob_inst_num (rob_entries q ! unat (ms_robid e)) = ms_inst_num e \<and> waiting (rob_entries q ! unat (ms_robid e))"
    if "ms l = Some e" "ms_coreid e = core_id c" for l e
  proof -
    have "unat (ms_robid e) \<in> live P (rob c)" "rob_inst_num (rob_entries (rob c) ! unat (ms_robid e)) = ms_inst_num e"
      "waiting (rob_entries (rob c) ! unat (ms_robid e))"
      using assms(2) that unfolding core_ok_def by blast+
    then show ?thesis using q(3,4,6) by (cases "unat i = unat (ms_robid e)") auto
  qed
  then have "core_ok P ms (c\<lparr>rob := q\<rparr>)" using q(2) assms(3) by (simp add: core_ok_def)
  then show ?thesis using q(1,4,5,6) w lt by (intro exI [of _ i] exI [of _ q]) simp
qed

text \<open>Translated lines are small enough for their byte address.\<close>

definition os_inv :: "Params \<Rightarrow> OS \<Rightarrow> bool" where
  "os_inv P os \<longleftrightarrow> os_wf os \<and> length (ipt os) * unat (lines_in_page os) * unat (LINESIZE P) \<le> 2 ^ 64"

lemma os_line_ok:
  assumes "os_inv P os" and "LINESIZE P \<noteq> 0"
  shows "on_success (os_v2p_lineaddr os l tid r) (\<lambda>(p, os', r'). os_inv P os' \<and> line_ok P p)"
proof -
  have "os_inv P os' \<and> line_ok P p" if "os_v2p_lineaddr os l tid r = Inr (p, os', r')" for p os' r'
  proof -
    have wf: "os_wf os" using assms(1) by (simp add: os_inv_def)
    note k = os_v2p_lineaddr_keeps [OF wf that] and b = os_v2p_lineaddr_bound [OF wf that]
    have "unat p * unat (LINESIZE P) < length (ipt os) * unat (lines_in_page os) * unat (LINESIZE P)"
      using b assms(2) by (intro mult_strict_right_mono) (auto simp: unat_gt_0)
    then have "line_ok P p" using assms(1) unfolding os_inv_def line_ok_def by (meson order_less_le_trans)
    then show ?thesis using assms(1) k by (simp add: os_inv_def)
  qed
  then show ?thesis by (auto simp: on_success_iff)
qed

text \<open>Retiring keeps the instructions that wait.\<close>

lemma retire_keeps:
  fixes c :: "'t MCore"
  assumes "params_ok P" and "core_inv P ms c" and "timely ms c"
  shows "on_success (mcore_rob_retire P (c\<lparr>core_cycle := core_cycle c + 1\<rparr>)) (\<lambda>(n, c'). core_id c' = core_id c \<and> core_ok P ms c')"
proof -
  let ?c = "c\<lparr>core_cycle := core_cycle c + 1\<rparr>"
  have same: "core_kept c ?c" by (simp add: core_kept_def)
  have ok: "core_ok P ms c" using assms(2) by (simp add: core_inv_def)
  have ok': "core_ok P ms ?c" using ok core_kept_inv(1) [OF same] by simp
  have rob: "rob_ok P (rob ?c)" using ok by (simp add: core_ok_def)
  show ?thesis
  proof (cases "rob_size (rob c) = 0")
    case True
    then show ?thesis using ok' by (simp add: mcore_rob_retire_def)
  next
    case False
    have slp: "unat (sleep_robid c) \<in> live P (rob c) \<and> core_cycle c + 1 < ready_time (rob_entries (rob c) ! unat (sleep_robid c))" if "sleep c"
      using that ok assms(3) by (auto simp: core_ok_def timely_def)
    have room: "width P \<le> unat (rob_size (rob ?c)) \<or> (\<exists>i \<in> live P (rob ?c). core_cycle ?c < ready_time (rob_entries (rob ?c) ! i))"
      using slp assms(2) False by (auto simp: core_inv_def)
    have kept: "core_ok P ms (?c\<lparr>rob := q\<rparr>)"
      if q: "rob_ok P q" "rob_entries q = rob_entries (rob c)" "\<forall>i \<in> live P (rob c) - live P q.
        ready_time (rob_entries (rob c) ! i) \<le> core_cycle c + 1 \<and> (waiting (rob_entries (rob c) ! i) \<longrightarrow> sleep c)" for q
    proof -
      have stay: "unat i \<in> live P q" if "unat i \<in> live P (rob c)" "waiting (rob_entries (rob c) ! unat i)" "waits_in ms c i" for i
        using q(3) that assms(3) unfolding timely_def by (meson DiffI not_le)
      have mine: "unat (ms_robid e) \<in> live P q \<and> rob_inst_num (rob_entries q ! unat (ms_robid e)) = ms_inst_num e \<and>
          waiting (rob_entries q ! unat (ms_robid e))" if "ms l = Some e" "ms_coreid e = core_id c" for l e
      proof -
        have "waits_in ms c (ms_robid e)" unfolding waits_in_def using that by (intro exI [of _ l] exI [of _ e]) simp
        then show ?thesis using ok that stay q(2) unfolding core_ok_def by metis
      qed
      have "unat (sleep_robid c) \<in> live P q \<and> line_ok P (sleep_lineaddr c) \<and> \<not> waits_in ms c (sleep_robid c)" if "sleep c"
        using slp [OF that] q(3) ok that unfolding core_ok_def by (meson DiffI not_le)
      then show ?thesis using q(1) mine by (simp add: core_ok_def waits_in_def)
    qed
    have "on_success (retire_loop P (width P) 0 ?c) (\<lambda>(n, c'). core_id c' = core_id c \<and> core_ok P ms c')"
      by (rule on_success_mono [OF retire_loop_ok [OF assms(1) rob room]]) (use kept in auto)
    then show ?thesis using False by (simp add: mcore_rob_retire_def)
  qed
qed

section \<open>Requests and answers\<close>

text \<open>The invariant of all the cores.\<close>

definition cores_inv :: "Params \<Rightarrow> (u64 \<rightharpoonup> MSHR_Entry) \<Rightarrow> 't MCore list \<Rightarrow> bool" where
  "cores_inv P ms cs \<longleftrightarrow> ms_inj ms \<and> length cs \<le> 2 ^ 32 \<and> (\<forall>l e. ms l = Some e \<longrightarrow> unat (ms_coreid e) < length cs) \<and>
     (\<forall>i < length cs. core_id (cs ! i) = word_of_nat i \<and> core_inv P ms (cs ! i))"

lemma ms_inj_del: "ms_inj ms \<Longrightarrow> ms_inj (ms(l := None))"
  unfolding ms_inj_def by (auto split: if_splits)

definition nest_inv :: "('m \<Rightarrow> bool) \<Rightarrow> ('m \<Rightarrow> (u64 \<times> bool) multiset) \<Rightarrow> Params \<Rightarrow> 'm Nest \<Rightarrow> bool" where
  "nest_inv good pend P s \<longleftrightarrow> mem_inv good pend P (memsys s) \<and> os_inv P (nest_os s)"

text \<open>What a part of a core's cycle may do: add requests of its own, while the clock of the memory stands.\<close>

abbreviation mshr_of :: "'m Nest \<Rightarrow> u64 \<rightharpoonup> MSHR_Entry" where
  "mshr_of s \<equiv> mshr (memsys s)"

definition core_step :: "('m \<Rightarrow> bool) \<Rightarrow> ('m \<Rightarrow> (u64 \<times> bool) multiset) \<Rightarrow> ('m \<Rightarrow> u64) \<Rightarrow> Params \<Rightarrow> 't MCore \<Rightarrow> 'm Nest \<Rightarrow> 't MCore \<Rightarrow> 'm Nest \<Rightarrow> bool" where
  "core_step good pend clk P c s c' s' \<longleftrightarrow> nest_inv good pend P s' \<and> core_ok P (mshr_of s') c' \<and> ms_inj (mshr_of s') \<and>
     core_id c' = core_id c \<and> requests_of (core_id c) (mshr_of s) (mshr_of s') \<and> clk (mainmem (memsys s')) = clk (mainmem (memsys s))"

locale core_memory = memory_backend init good pend add_op guard tick
  for init :: "'m \<Rightarrow> bool" and good :: "'m \<Rightarrow> bool" and pend :: "'m \<Rightarrow> (u64 \<times> bool) multiset"
    and add_op :: "u64 \<Rightarrow> bool \<Rightarrow> 'm \<Rightarrow> (bool \<times> 'm) res" and guard :: "'m \<Rightarrow> bool"
    and tick :: "'m \<Rightarrow> ((u64 \<times> bool) list \<times> 'm) res" +
  fixes ops :: "'m mem_ops" and clk :: "'m \<Rightarrow> u64"
  assumes ops_add: "add_trans ops = add_op" and ops_tick: "clock_tick ops = tick"
    and clk_add: "add_op a w s = Inr (ok, s') \<Longrightarrow> clk s' = clk s"
    and clk_tick: "tick s = Inr (es, s') \<Longrightarrow> clk s' = clk s + 1"
begin

lemma add_read:
  assumes "mem_inv good pend P m" and "add_op (l * LINESIZE P) False (mainmem m) = Inr (ok, mm)" and "mshr m l = None" and "line_ok P l"
  shows "mem_inv good pend P (m\<lparr>mainmem := mm, mshr := (mshr m)(l \<mapsto> e)\<rparr>)"
proof -
  have "l \<notin> dom (mshr m)" using assms(3) by auto
  then show ?thesis using assms add_law [OF _ assms(2)] by (auto simp: mem_inv_def)
qed

lemma add_write:
  assumes "mem_inv good pend P m" and "add_op a True (mainmem m) = Inr (ok, mm)"
  shows "mem_inv good pend P (m\<lparr>mainmem := mm\<rparr>)"
  using assms add_law [OF _ assms(2)] by (auto simp: mem_inv_def)

lemma access_keeps:
  assumes "mem_inv good pend P m" and "line_ok P l"
  shows "on_success (memsys_access ops P l i robid inst wb m) (\<lambda>(ok, m'). mem_inv good pend P m' \<and> clk (mainmem m') = clk (mainmem m) \<and>
    (if ok then mshr m l = None \<and> mshr m' = (mshr m)(l \<mapsto> \<lparr>ms_coreid = i, ms_robid = robid, ms_inst_num = inst\<rparr>) else mshr m' = mshr m))"
proof -
  let ?e = "\<lparr>ms_coreid = i, ms_robid = robid, ms_inst_num = inst\<rparr>"
  let ?post = "\<lambda>ok m'. mem_inv good pend P m' \<and> clk (mainmem m') = clk (mainmem m) \<and> (if ok then mshr m l = None \<and> mshr m' = (mshr m)(l \<mapsto> ?e) else mshr m' = mshr m)"
  have rd: "on_success (if ok then bind_res (add_trans ops (l * LINESIZE P) False (mainmem m)) (\<lambda>(_, mm).
      memsys_mshr_insert l i robid inst (m\<lparr>mainmem := mm\<rparr>)) else Inr m) (?post ok)" for ok
    using assms(1) add_read [OF assms(1) _ _ assms(2)]
    by (auto simp: ops_add memsys_mshr_insert_def on_success_iff bind_res_eq_Inr clk_add)
  have wr: "on_success (if wb \<noteq> 0 then let wba = wb * LINESIZE P in bind_res (will_accept ops (mainmem m1) wba True) (\<lambda>wok.
      if wok then bind_res (add_trans ops wba True (mainmem m1)) (\<lambda>(_, mm). Inr (m1\<lparr>mainmem := mm\<rparr>)) else Inr m1) else Inr m1) (?post ok)"
    if "?post ok m1" for ok m1
    using that add_write [of P m1] by (auto simp: ops_add Let_def on_success_iff bind_res_eq_Inr clk_add split: if_splits)
  show ?thesis
    unfolding memsys_access_def Let_def [of "l * LINESIZE P"]
    by (rule on_success_bindI [OF on_success_True], rule on_success_bindI [OF rd], rule on_success_bindI [OF wr]) auto
qed

text \<open>Every answer to a read of the MSHR finds its instruction.\<close>

lemma callback_ok:
  assumes "params_ok P" and "ms_inj (mshr m)" and "line_ok P l" and "mshr m l = Some e"
    and "\<forall>i < length cs. core_id (cs ! i) = word_of_nat i \<and> core_inv P (mshr m) (cs ! i)" and "unat (ms_coreid e) < length cs"
  shows "\<exists>cs'. memsys_callback P (l * LINESIZE P) (m, cs) = Inr (m\<lparr>mshr := (mshr m)(l := None)\<rparr>, cs') \<and> length cs' = length cs \<and>
    (\<forall>i < length cs. core_id (cs' ! i) = word_of_nat i \<and> core_inv P ((mshr m)(l := None)) (cs' ! i))"
proof -
  let ?i = "unat (ms_coreid e)" and ?ms = "(mshr m)(l := None)"
  let ?c = "cs ! ?i"
  let ?r = "rob_entries (rob ?c) ! unat (ms_robid e)"
  have id: "core_id ?c = ms_coreid e" using assms(5,6) by simp
  have ok: "core_ok P (mshr m) ?c" using assms(5,6) by (auto simp: core_inv_def)
  then have sl: "unat (ms_robid e) \<in> live P (rob ?c)" "rob_inst_num ?r = ms_inst_num e" "length (rob_entries (rob ?c)) = 1024"
    using assms(4) id by (auto simp: core_ok_def rob_ok_def MAX_ROB_ENTRIES_def)
  then have lt: "unat (ms_robid e) < 1024" using live_lt [OF assms(1)] params_cap(2) [OF assms(1)] by (meson order_less_le_trans)
  let ?c' = "?c\<lparr>rob := (rob ?c)\<lparr>rob_entries := (rob_entries (rob ?c))[unat (ms_robid e) := ?r\<lparr>ready_time := core_cycle ?c\<rparr>]\<rparr>,
    num_delay_count := num_delay_count ?c + 1, sum_delay_count := sum_delay_count ?c + (core_cycle ?c - birth_time ?r)\<rparr>"
  have wake: "mcore_rob_wakeup (ms_robid e) (ms_inst_num e) ?c = Inr ?c'"
    using sl lt by (simp add: mcore_rob_wakeup_def vec_get_def vec_set_def uint_nat del: of_nat_unat)
  have cb: "memsys_callback P (l * LINESIZE P) (m, cs) = Inr (m\<lparr>mshr := ?ms\<rparr>, cs[?i := ?c'])"
    using assms(1,4,6) line_back [OF assms(3)] wake
    by (simp add: memsys_callback_def params_ok_def Let_def vec_get_def vec_set_def uint_nat del: of_nat_unat)
  have less: "core_inv P ?ms (cs ! j)" if "j < length cs" for j
    using that assms(5) unfolding core_inv_def core_ok_def waits_in_def by (auto split: if_splits)
  have "core_inv P ?ms ?c' = core_inv P ?ms ?c"
  proof (rule core_frame(2))
    fix l' e' assume "?ms l' = Some e'" "ms_coreid e' = core_id ?c"
    then have "ms_robid e' \<noteq> ms_robid e" using assms(2,4) id unfolding ms_inj_def by (metis fun_upd_apply option.discI)
    then have "unat (ms_robid e) \<noteq> unat (ms_robid e')" by (metis word_unat_eq_iff)
    then show "rob_entries (rob ?c') ! unat (ms_robid e') = rob_entries (rob ?c) ! unat (ms_robid e')" by simp
  qed simp_all
  then have "core_inv P ?ms ?c'" using less assms(6) by simp
  then show ?thesis
    unfolding cb using assms(5,6) less id by (intro exI [of _ "cs[?i := ?c']"]) (auto simp: nth_list_update)
qed

lemma answers_ok:
  assumes "params_ok P" and "cores_inv P (mshr m) cs" and "finite (dom (mshr m))" and "\<forall>l \<in> dom (mshr m). line_ok P l"
    and "filter_mset (\<lambda>x. \<not> snd x) (mset es) + R = image_mset (\<lambda>l. (l * LINESIZE P, False)) (mset_set (dom (mshr m)))"
  shows "succeeds (memsys_answers P es (m, cs)) (\<lambda>(m', cs'). mainmem m' = mainmem m \<and> cores_inv P (mshr m') cs' \<and> length cs' = length cs \<and>
    finite (dom (mshr m')) \<and> (\<forall>l \<in> dom (mshr m'). line_ok P l) \<and>
    R = image_mset (\<lambda>l. (l * LINESIZE P, False)) (mset_set (dom (mshr m'))))"
  using assms(2-)
proof (induction es arbitrary: m cs)
  case Nil
  then show ?case by (simp add: memsys_answers_def)
next
  case (Cons x es)
  obtain a w where x: "x = (a, w)" by (cases x)
  show ?case
  proof (cases w)
    case True
    then show ?thesis using Cons by (simp add: memsys_answers_def x)
  next
    case False
    have "(a, False) \<in># filter_mset (\<lambda>x. \<not> snd x) (mset (x # es)) + R" using x False by simp
    then have "(a, False) \<in># image_mset (\<lambda>l. (l * LINESIZE P, False)) (mset_set (dom (mshr m)))" unfolding Cons.prems(4) .
    then obtain l where l: "l \<in> dom (mshr m)" "a = l * LINESIZE P" using Cons.prems(2) by auto
    then obtain e where e: "mshr m l = Some e" by auto
    have inv: "ms_inj (mshr m)" "\<forall>i < length cs. core_id (cs ! i) = word_of_nat i \<and> core_inv P (mshr m) (cs ! i)" "unat (ms_coreid e) < length cs"
      "length cs \<le> 2 ^ 32" "\<forall>l e. mshr m l = Some e \<longrightarrow> unat (ms_coreid e) < length cs"
      using Cons.prems(1) e unfolding cores_inv_def by blast+
    have lok: "line_ok P l" using Cons.prems(3) l(1) by blast
    let ?m = "m\<lparr>mshr := (mshr m)(l := None)\<rparr>"
    obtain cs' where cs': "memsys_callback P a (m, cs) = Inr (?m, cs')" "length cs' = length cs"
      "\<forall>i < length cs. core_id (cs' ! i) = word_of_nat i \<and> core_inv P ((mshr m)(l := None)) (cs' ! i)"
      using callback_ok [OF assms(1) inv(1) lok e inv(2,3)] l(2) by blast
    have dom: "dom (mshr ?m) = dom (mshr m) - {l}" by auto
    have c: "cores_inv P (mshr ?m) cs'" using cs' inv ms_inj_del [OF inv(1), of l] by (auto simp: cores_inv_def split: if_splits)
    have "image_mset (\<lambda>l. (l * LINESIZE P, False)) (mset_set (dom (mshr m))) =
        add_mset (a, False) (image_mset (\<lambda>l. (l * LINESIZE P, False)) (mset_set (dom (mshr ?m))))"
      using l Cons.prems(2) unfolding dom by (simp add: mset_set.remove)
    then have "filter_mset (\<lambda>x. \<not> snd x) (mset es) + R = image_mset (\<lambda>l. (l * LINESIZE P, False)) (mset_set (dom (mshr ?m)))"
      using Cons.prems(4) x False by simp
    from Cons.IH [OF c _ _ this] have "succeeds (memsys_answers P es (?m, cs')) (\<lambda>(m', cs''). mainmem m' = mainmem m \<and>
        cores_inv P (mshr m') cs'' \<and> length cs'' = length cs \<and> finite (dom (mshr m')) \<and> (\<forall>l \<in> dom (mshr m'). line_ok P l) \<and>
        R = image_mset (\<lambda>l. (l * LINESIZE P, False)) (mset_set (dom (mshr m'))))"
      using Cons.prems(2,3) cs'(2) unfolding dom by simp
    then show ?thesis using cs'(1) False by (simp add: memsys_answers_def x)
  qed
qed

lemma memory_cycle_ok:
  assumes "params_ok P" and "mem_inv good pend P m" and "cores_inv P (mshr m) cs" and "guard (mainmem m)"
  shows "succeeds (memsys_cycle ops P (m, cs)) (\<lambda>(m', cs'). mem_inv good pend P m' \<and> cores_inv P (mshr m') cs' \<and> length cs' = length cs \<and>
    clk (mainmem m') = clk (mainmem m) + 1)"
proof -
  have "succeeds (tick (mainmem m)) (\<lambda>(es, mm). good mm \<and> pend (mainmem m) = mset es + pend mm)"
    using assms(2,4) by (intro tick_law) (auto simp: mem_inv_def)
  then have t: "succeeds (tick (mainmem m)) (\<lambda>(es, mm). good mm \<and> pend (mainmem m) = mset es + pend mm \<and> clk mm = clk (mainmem m) + 1)"
    using clk_tick [of "mainmem m"] by (cases "tick (mainmem m)") auto
  show ?thesis
    unfolding memsys_cycle_def prod.case ops_tick
  proof (rule succeeds_bindI [OF t], clarify)
    fix es mm assume mm: "good mm" "pend (mainmem m) = mset es + pend mm" "clk mm = clk (mainmem m) + 1"
    have "filter_mset (\<lambda>x. \<not> snd x) (mset es) + filter_mset (\<lambda>x. \<not> snd x) (pend mm) =
        image_mset (\<lambda>l. (l * LINESIZE P, False)) (mset_set (dom (mshr (m\<lparr>mainmem := mm\<rparr>))))"
      using assms(2) mm(2) by (simp add: mem_inv_def)
    note ans = answers_ok [OF assms(1) _ _ _ this, of cs]
    show "succeeds (memsys_answers P es (m\<lparr>mainmem := mm\<rparr>, cs)) (\<lambda>(m', cs'). mem_inv good pend P m' \<and> cores_inv P (mshr m') cs' \<and>
        length cs' = length cs \<and> clk (mainmem m') = clk (mainmem m) + 1)"
      by (rule succeeds_mono [OF ans]) (use assms(2,3) mm(1,3) in \<open>auto simp: mem_inv_def\<close>)
  qed
qed

lemma send_keeps:
  fixes c :: "'t MCore"
  assumes "params_ok P" and "nest_inv good pend P s" and "core_ok P (mshr_of s) c" and "\<not> sleep c" and "ms_inj (mshr_of s)"
    and "line_ok P l" and "ucast (rob_size (rob c)) \<noteq> ROB_SIZE P" and "mem \<longrightarrow> word_of_nat DEFAULT_MEM_DELAY \<le> (ucast delay :: u64)"
  shows "on_success (core_send ops P l delay mem wb c s)
    (\<lambda>(more, c', s'). core_step good pend clk P c s c' s' \<and>
       (if more then \<not> sleep c' \<and> unat (rob_size (rob c')) = Suc (unat (rob_size (rob c))) else sleep c'))"
proof -
  obtain i q where ins: "mcore_rob_insert P (inst_num c) (core_cycle c) (core_cycle c + ucast delay) c = Inr (i, c\<lparr>rob := q\<rparr>)"
    "core_ok P (mshr_of s) (c\<lparr>rob := q\<rparr>)"
    "\<not> waits_in (mshr_of s) c i" "unat i \<in> live P q"
    "rob_entries q ! unat i = \<lparr>birth_time = core_cycle c, ready_time = core_cycle c + ucast delay, rob_inst_num = inst_num c\<rparr>"
    "unat (rob_size q) = Suc (unat (rob_size (rob c)))"
    using core_ok_insert [OF assms(1,3,4,7)] by blast
  let ?e = "\<lparr>ms_coreid = core_id c, ms_robid = i, ms_inst_num = inst_num c\<rparr>"
  have mi: "mem_inv good pend P (memsys s)" using assms(2) by (simp add: nest_inv_def)
  have acc: "on_success (memsys_access ops P l (core_id (c\<lparr>rob := q\<rparr>)) i (inst_num (c\<lparr>rob := q\<rparr>)) wb (memsys s)) (\<lambda>(ok, m').
      mem_inv good pend P m' \<and> clk (mainmem m') = clk (mainmem (memsys s)) \<and> (if ok then mshr_of s l = None \<and> mshr m' = (mshr_of s)(l \<mapsto> ?e) else mshr m' = mshr_of s))"
    using access_keeps [OF mi assms(6), of "core_id c" i "inst_num c" wb] by simp
  have sent: "core_step good pend clk P c s (c\<lparr>rob := q\<rparr>) (s\<lparr>memsys := m\<rparr>)"
    if "mem_inv good pend P m" "clk (mainmem m) = clk (mainmem (memsys s))" "mshr_of s l = None" "mshr m = (mshr_of s)(l \<mapsto> ?e)" mem for m
    using that assms(2,4,8) ins core_ok_put [OF ins(2), of ?e l] ms_inj_put [OF assms(5), of c ?e l] requests_of_put [of "mshr_of s" l ?e "core_id c"]
    by (simp add: core_step_def nest_inv_def waiting_def)
  have asleep: "core_step good pend clk P c s (c\<lparr>rob := q, queue_full_count := n, sleep_lineaddr := l, sleep_robid := i, sleep_inst_num := k, sleep := True\<rparr>)
      (s\<lparr>memsys := m\<rparr>)" if "mem_inv good pend P m" "clk (mainmem m) = clk (mainmem (memsys s))" "mshr m = mshr_of s" for m n k
  proof -
    have "core_ok P (mshr_of s) (c\<lparr>rob := q, queue_full_count := n, sleep_lineaddr := l, sleep_robid := i, sleep_inst_num := k, sleep := True\<rparr>)"
      using ins(2,3,4) assms(6) by (simp add: core_ok_def waits_in_def)
    then show ?thesis using that assms(2,5) by (simp add: core_step_def nest_inv_def)
  qed
  have kept: "core_step good pend clk P c s (c\<lparr>rob := q\<rparr>) s" using assms(2,5) ins(2) by (simp add: core_step_def)
  show ?thesis
    unfolding core_send_def ins(1) bind_res_simps prod.case
  proof (split if_split, intro conjI impI, goal_cases)
    case 1
    show ?case by (rule on_success_bindI [OF acc]) (use 1 sent asleep ins(6) assms(4) in \<open>auto simp: Let_def split: if_splits\<close>)
  next
    case 2
    show ?case using kept ins(6) assms(4) by simp
  qed
qed

lemma exec_same:
  fixes c :: "'t MCore" and s :: "'m Nest"
  assumes "params_ok P"
  shows "on_success (core_exec gz do_wb P l c s) (\<lambda>(delay, mem, wb, c', s'). core_kept c c' \<and> memsys s' = memsys s \<and> nest_os s' = nest_os s \<and>
    (mem \<longrightarrow> word_of_nat DEFAULT_MEM_DELAY \<le> (ucast delay :: u64)))"
proof (cases "trace_inst_num c \<le> inst_num c")
  case True
  have "on_success (bind_res (mcore_read_trace gz P c2 (rnd s2)) (\<lambda>(c, r). Inr (d, mem, wb, c, s2\<lparr>rnd := r\<rparr>)))
      (\<lambda>(delay, mem, wb, c', s'). core_kept c c' \<and> memsys s' = memsys s \<and> nest_os s' = nest_os s \<and>
        (mem \<longrightarrow> word_of_nat DEFAULT_MEM_DELAY \<le> (ucast delay :: u64)))"
    if "core_kept c c2" "memsys s2 = memsys s" "nest_os s2 = nest_os s" "mem \<longrightarrow> word_of_nat DEFAULT_MEM_DELAY \<le> (ucast d :: u64)" for d :: u32 and mem and wb :: u64 and c2 :: "'t MCore" and s2 :: "'m Nest"
    by (rule on_success_bindI [OF read_trace_same]) (use that in \<open>auto intro: core_kept_trans\<close>)
  then show ?thesis using True by (auto simp: core_exec_def simp del: on_success_bind intro!: on_success_bindI [OF core_access_same [OF assms]])
qed (simp add: core_exec_def core_kept_def)

lemma core_issue_keeps:
  fixes c :: "'t MCore" and s :: "'m Nest"
  assumes "params_ok P" and "nest_inv good pend P s" and "core_ok P (mshr_of s) c" and "\<not> sleep c" and "ms_inj (mshr_of s)"
  shows "on_success (core_issue ops gz do_wb P c s) (\<lambda>(more, c', s'). core_step good pend clk P c s c' s' \<and>
    (if more then \<not> sleep c' \<and> unat (rob_size (rob c')) = Suc (unat (rob_size (rob c))) else sleep c' \<or> unat (rob_size (rob c')) = rob_cap P))"
    (is "on_success _ ?post")
proof (cases "ucast (rob_size (rob c)) = ROB_SIZE P")
  case True
  then have "unat (rob_size (rob c)) = rob_cap P" by (metis unat_widen)
  then show ?thesis using True assms by (simp add: core_issue_def core_step_def)
next
  case room: False
  let ?c = "c\<lparr>inst_num := inst_num c + 1\<rparr>"
  have L: "LINESIZE P \<noteq> 0" using assms(1) by (simp add: params_ok_def)
  have same0: "core_kept c ?c" by (simp add: core_kept_def)
  have st1: "on_success (if \<not> core_done ?c \<and> INST_LIMIT P < inst_num ?c
      then bind_res (mcore_read_trace gz P ?c (rnd s)) (\<lambda>(c, r). Inr (c, s\<lparr>rnd := r\<rparr>)) else Inr (?c, s))
    (\<lambda>(c1, s1). core_kept c c1 \<and> memsys s1 = memsys s \<and> nest_os s1 = nest_os s)"
    using read_trace_same [of gz P ?c "rnd s"] same0
    by (auto simp del: on_success_bind intro!: on_success_bindI [OF read_trace_same] intro: core_kept_trans)
  have fin: "on_success (core_send ops P l delay mem wb c2 s2) ?post"
    if "core_kept c c2" "memsys s2 = memsys s" "os_inv P (nest_os s2)" "line_ok P l" "mem \<longrightarrow> word_of_nat DEFAULT_MEM_DELAY \<le> (ucast delay :: u64)"
    for c2 :: "'t MCore" and s2 :: "'m Nest" and l mem wb delay
  proof -
    have "nest_inv good pend P s2" "core_ok P (mshr_of s2) c2" "\<not> sleep c2" "ms_inj (mshr_of s2)" "ucast (rob_size (rob c2)) \<noteq> ROB_SIZE P"
      using that assms room core_kept_inv(1) [OF that(1)] by (auto simp: nest_inv_def core_kept_def)
    from send_keeps [OF assms(1) this(1-4) that(4) this(5) that(5), of wb] show ?thesis
      by (rule on_success_mono) (use that(1,2) in \<open>auto simp: core_step_def core_kept_def split: if_splits\<close>)
  qed
  have ex: "on_success (bind_res (os_v2p_lineaddr (nest_os s1) (trace_va c1) (core_id c1) (rnd s1)) (\<lambda>(l, os, r).
        bind_res (core_exec gz do_wb P l c1 (s1\<lparr>nest_os := os, rnd := r\<rparr>)) (\<lambda>(delay, mem, wb, c, s).
        core_send ops P l delay mem wb c s))) ?post"
    if 1: "core_kept c c1" "memsys s1 = memsys s" "nest_os s1 = nest_os s" for c1 :: "'t MCore" and s1 :: "'m Nest"
  proof -
    have os: "on_success (os_v2p_lineaddr (nest_os s1) (trace_va c1) (core_id c1) (rnd s1)) (\<lambda>(p, os', r'). os_inv P os' \<and> line_ok P p)"
      using assms(2) 1(3) by (intro os_line_ok L) (simp add: nest_inv_def)
    have "on_success (bind_res (core_exec gz do_wb P l c1 (s1\<lparr>nest_os := os, rnd := r\<rparr>)) (\<lambda>(delay, mem, wb, c, s).
        core_send ops P l delay mem wb c s)) ?post" if 2: "os_inv P os" "line_ok P l" for os :: OS and l and r :: Rand
      by (rule on_success_bindI [OF exec_same [OF assms(1)]], clarify, rule fin) (use 1 2 in \<open>auto intro: core_kept_trans\<close>)
    then show ?thesis by (intro on_success_bindI [OF os]) auto
  qed
  show ?thesis
    unfolding core_issue_def if_not_P [OF room] Let_def [of ?c]
    by (rule on_success_bindI [OF st1], clarify, rule ex)
qed

lemma issue_width_keeps:
  fixes c :: "'t MCore" and s :: "'m Nest"
  assumes "params_ok P" and "nest_inv good pend P s" and "core_ok P (mshr_of s) c" and "\<not> sleep c" and "ms_inj (mshr_of s)"
  shows "on_success (issue_width ops gz do_wb P n c s) (\<lambda>(c', s'). core_step good pend clk P c s c' s' \<and>
    (sleep c' \<or> min (rob_cap P) (unat (rob_size (rob c)) + n) \<le> unat (rob_size (rob c'))))"
  using assms(2-)
proof (induction n arbitrary: c s)
  case 0
  then show ?case by (simp add: core_step_def)
next
  case (Suc n)
  have rec: "on_success (if more then issue_width ops gz do_wb P n c1 s1 else Inr (c1, s1)) (\<lambda>(c', s'). core_step good pend clk P c s c' s' \<and>
      (sleep c' \<or> min (rob_cap P) (unat (rob_size (rob c)) + Suc n) \<le> unat (rob_size (rob c'))))"
    if 1: "core_step good pend clk P c s c1 s1" "if more then \<not> sleep c1 \<and> unat (rob_size (rob c1)) = Suc (unat (rob_size (rob c)))
      else sleep c1 \<or> unat (rob_size (rob c1)) = rob_cap P" for more and c1 :: "'t MCore" and s1 :: "'m Nest"
  proof (cases more)
    case True
    have "on_success (issue_width ops gz do_wb P n c1 s1) (\<lambda>(c', s'). core_step good pend clk P c1 s1 c' s' \<and>
        (sleep c' \<or> min (rob_cap P) (unat (rob_size (rob c1)) + n) \<le> unat (rob_size (rob c'))))"
      using 1 True by (intro Suc.IH) (auto simp: core_step_def)
    then show ?thesis using 1 True by (auto elim!: on_success_mono simp: core_step_def intro: requests_of_trans)
  next
    case False
    then show ?thesis using 1 by auto
  qed
  show ?case
    unfolding issue_width.simps
    by (rule on_success_bindI [OF core_issue_keeps [OF assms(1) Suc.prems]], clarify, rule rec) auto
qed

text \<open>A sleeping core that gets its request accepted takes the slot it kept.\<close>

lemma retry_keeps:
  fixes c :: "'t MCore" and s :: "'m Nest"
  assumes "params_ok P" and "nest_inv good pend P s" and "core_ok P (mshr_of s) c" and "sleep c" and "ms_inj (mshr_of s)"
  shows "on_success (mcore_retry_sleeping_request ops P c s) (\<lambda>(awake, c', s'). core_step good pend clk P c s c' s' \<and> sleep c' = (\<not> awake))"
proof -
  let ?e = "\<lparr>ms_coreid = core_id c, ms_robid = sleep_robid c, ms_inst_num = sleep_inst_num c\<rparr>" and ?l = "sleep_lineaddr c"
  let ?r = "\<lparr>birth_time = core_cycle c, ready_time = core_cycle c + word_of_nat DEFAULT_MEM_DELAY, rob_inst_num = sleep_inst_num c\<rparr>"
  let ?q = "(rob c)\<lparr>rob_entries := (rob_entries (rob c))[unat (sleep_robid c) := ?r]\<rparr>"
  have sl: "unat (sleep_robid c) \<in> live P (rob c)" "line_ok P ?l" "\<not> waits_in (mshr_of s) c (sleep_robid c)"
    and len: "length (rob_entries (rob c)) = 1024" and rob: "rob_ok P (rob c)"
    using assms(3,4) by (auto simp: core_ok_def rob_ok_def MAX_ROB_ENTRIES_def)
  have lt: "unat (sleep_robid c) < 1024" using live_lt [OF assms(1) sl(1)] params_cap(2) [OF assms(1)] by simp
  have set: "vec_set (rob_entries (rob c)) (uint (sleep_robid c)) ?r = Inr ((rob_entries (rob c))[unat (sleep_robid c) := ?r])"
    using lt len by (simp add: vec_set_def uint_nat del: of_nat_unat)
  have acc: "on_success (memsys_access ops P ?l (core_id c) (sleep_robid c) (sleep_inst_num c) 0 (memsys s)) (\<lambda>(ok, m').
      mem_inv good pend P m' \<and> clk (mainmem m') = clk (mainmem (memsys s)) \<and> (if ok then mshr_of s ?l = None \<and> mshr m' = (mshr_of s)(?l \<mapsto> ?e) else mshr m' = mshr_of s))"
    using assms(2) by (intro access_keeps sl) (simp add: nest_inv_def)
  have live: "live P ?q = live P (rob c)" by (simp add: live_def rob_slot_def)
  have "core_ok P (mshr_of s) (c\<lparr>sleep_cycle_count := n, rob := ?q, sleep := False\<rparr>)" for n
  proof -
    have keep: "rob_entries ?q ! unat (ms_robid e) = rob_entries (rob c) ! unat (ms_robid e)"
      if "mshr_of s l = Some e" "ms_coreid e = core_id c" for l e
    proof -
      have "waits_in (mshr_of s) c (ms_robid e)" unfolding waits_in_def using that by (intro exI [of _ l] exI [of _ e]) simp
      then have "sleep_robid c \<noteq> ms_robid e" using sl(3) by metis
      then have "unat (sleep_robid c) \<noteq> unat (ms_robid e)" by (metis word_unat_eq_iff)
      then show ?thesis by simp
    qed
    have "rob_ok P ?q" using rob by (simp add: rob_ok_def)
    then show ?thesis using assms(3) keep unfolding core_ok_def by (simp add: live)
  qed
  then have woke: "core_step good pend clk P c s (c\<lparr>sleep_cycle_count := n, rob := ?q, sleep := False\<rparr>) (s\<lparr>memsys := m\<rparr>)"
    if "mem_inv good pend P m" "clk (mainmem m) = clk (mainmem (memsys s))" "mshr_of s ?l = None" "mshr m = (mshr_of s)(?l \<mapsto> ?e)" for m n
    using that assms(2) sl lt len core_ok_put [of P "mshr_of s" "c\<lparr>sleep_cycle_count := n, rob := ?q, sleep := False\<rparr>" ?e ?l]
      ms_inj_put [OF assms(5), of c ?e ?l] requests_of_put [of "mshr_of s" ?l ?e "core_id c"]
    by (simp add: core_step_def nest_inv_def waiting_def live)
  have still: "core_step good pend clk P c s (c\<lparr>sleep_cycle_count := n\<rparr>) (s\<lparr>memsys := m\<rparr>)"
    if "mem_inv good pend P m" "clk (mainmem m) = clk (mainmem (memsys s))" "mshr m = mshr_of s" for m n
    using that assms(2,3,5) core_kept_inv(1) [of c "c\<lparr>sleep_cycle_count := n\<rparr>"] by (simp add: core_step_def nest_inv_def core_kept_def)
  show ?thesis
    unfolding mcore_retry_sleeping_request_def Let_def
    by (simp del: on_success_bind, rule on_success_bindI [OF acc])
      (use woke still set assms(4) in \<open>auto split: if_splits\<close>)
qed

lemma mcore_cycle_keeps:
  fixes c :: "'t MCore" and s :: "'m Nest"
  assumes "params_ok P" and "nest_inv good pend P s" and "core_inv P (mshr_of s) c" and "ms_inj (mshr_of s)" and "timely (mshr_of s) c"
  shows "on_success (mcore_cycle ops gz do_wb P c s) (\<lambda>(c', s'). core_step good pend clk P c s c' s' \<and> core_inv P (mshr_of s') c')"
proof -
  let ?c = "c\<lparr>core_cycle := core_cycle c + 1\<rparr>"
  have ret: "on_success (mcore_rob_retire P ?c) (\<lambda>(n, c1). core_id c1 = core_id c \<and> core_ok P (mshr_of s) c1)"
    using retire_keeps [OF assms(1,3,5)] .
  have min: "width P \<le> min (rob_cap P) (n + width P)" for n using assms(1) by (simp add: params_ok_def)
  have iss: "on_success (if awake then issue_width ops gz do_wb P (width P) c2 s2 else Inr (c2, s2))
      (\<lambda>(c', s'). core_step good pend clk P c s c' s' \<and> core_inv P (mshr_of s') c')"
    if 2: "core_step good pend clk P c s c2 s2" "sleep c2 = (\<not> awake)" for awake and c2 :: "'t MCore" and s2 :: "'m Nest"
  proof (cases awake)
    case True
    have pre: "nest_inv good pend P s2" "core_ok P (mshr_of s2) c2" "\<not> sleep c2" "ms_inj (mshr_of s2)"
      using 2 True by (auto simp: core_step_def)
    have "on_success (issue_width ops gz do_wb P (width P) c2 s2) (\<lambda>(c', s'). core_step good pend clk P c s c' s' \<and> core_inv P (mshr_of s') c')"
      by (rule on_success_mono [OF issue_width_keeps [OF assms(1) pre]])
        (use 2 order_trans [OF min] in \<open>auto simp: core_step_def core_inv_def intro: requests_of_trans\<close>)
    then show ?thesis using True by simp
  next
    case False
    then show ?thesis using 2 by (auto simp: core_step_def core_inv_def)
  qed
  have ry: "on_success (if sleep c1 then mcore_retry_sleeping_request ops P c1 s else Inr (True, c1, s))
      (\<lambda>(awake, c2, s2). core_step good pend clk P c s c2 s2 \<and> sleep c2 = (\<not> awake))"
    if 1: "core_id c1 = core_id c" "core_ok P (mshr_of s) c1" for c1 :: "'t MCore"
  proof (cases "sleep c1")
    case True
    have "on_success (mcore_retry_sleeping_request ops P c1 s) (\<lambda>(awake, c2, s2). core_step good pend clk P c s c2 s2 \<and> sleep c2 = (\<not> awake))"
      by (rule on_success_mono [OF retry_keeps [OF assms(1,2) 1(2) True assms(4)]]) (use 1(1) in \<open>auto simp: core_step_def\<close>)
    then show ?thesis using True by simp
  next
    case False
    then show ?thesis using 1 assms(2,4) by (simp add: core_step_def)
  qed
  show ?thesis
    unfolding mcore_cycle_def Let_def [of ?c]
    by (rule on_success_bindI [OF ret], clarify, rule on_success_bindI [OF ry], simp, simp, clarify, rule iss)
qed

end

end
