(* ===== verification/Sim_Loop.thy ===== *)
theory Sim_Loop
  imports MCore_Correct
begin

text \<open>
  The main program (\<open>src/sim.cpp\<close>): construction of the page table, the cache, the memory and the cores, and the
  loop that cycles the cores and the memory.  The sequences of \<open>rand\<close> by seed and the memory are parameters of the
  construction.  Progress dots, timers and printing are left out.

  \<open>leap_operation\<close> and \<open>CLOCK_SCALE\<close> are doubles.  Every value they take is a multiple of \<open>2\<^sup>-\<^sup>5\<^sup>2\<close> below 2, so the
  additions and comparisons are exact; they are integers here, in units of \<open>2\<^sup>-\<^sup>5\<^sup>2\<close>.  In these units 2.4 is
  \<open>5404319552844595 * 2\<close>, and \<open>4.0/2.4\<close> is the integer nearest to \<open>2\<^sup>1\<^sup>0\<^sup>5 / 5404319552844595\<close>.
\<close>

section \<open>State and operations\<close>

record ('m, 't) Sim =
  nest :: "'m Nest"
  mcore :: "'t MCore list"
  cycle :: u64
  leap_operation :: int

definition leap_one :: int where "leap_one = 2 ^ 52"

definition CLOCK_SCALE :: int where
  "CLOCK_SCALE = (2 * 2 ^ 105 + 5404319552844595) div (2 * 5404319552844595) - leap_one"

definition srand :: "(u32 \<Rightarrow> nat \<Rightarrow> int) \<Rightarrow> u32 \<Rightarrow> Rand" where
  "srand sq seed = \<lparr>rand_seq = sq seed, rand_pos = 0\<rparr>"

definition num_os_pages :: "Params \<Rightarrow> u32 res" where
  "num_os_pages P =
     bind_res (require DivisionByZero (OS_PAGESIZE P div 1024 \<noteq> 0)) (\<lambda>_.
     Inr (ucast ((1024 * (MEM_SIZE_MB P - MEM_RSRV_MB P)) div (OS_PAGESIZE P div 1024))))"

definition l3sets :: "Params \<Rightarrow> u32 res" where
  "l3sets P =
     bind_res (require DivisionByZero (L3_ASSOC P * LINESIZE P \<noteq> 0)) (\<lambda>_.
     Inr (ucast ((L3_SIZE_KB P * 1024) div (L3_ASSOC P * LINESIZE P))))"

definition memsys_new :: "Params \<Rightarrow> 'm \<Rightarrow> 'm MemSys res" where
  "memsys_new P mm =
     bind_res (require DivisionByZero (LINESIZE P \<noteq> 0)) (\<lambda>_. Inr \<lparr>mainmem = mm, mshr = Map.empty\<rparr>)"

text \<open>The arrays \<open>mcore\<close> and \<open>addr_trace_filename\<close> have a fixed size.\<close>

definition new_cores :: "'t gz_ops \<Rightarrow> 't \<Rightarrow> Params \<Rightarrow> Rand \<Rightarrow> ('t MCore list \<times> Rand) res" where
  "new_cores gz null P r =
     fold_res (\<lambda>ii (cs, r).
       bind_res (require OutOfBounds (ii < MAX_THREADS)) (\<lambda>_.
       bind_res (vec_get (addr_trace_filename P) ii) (\<lambda>f.
       bind_res (mcore_new gz P null f (word_of_int ii) r) (\<lambda>(c, r). Inr (cs @ [c], r))))) [0..num_threads P - 1] ([], r)"

definition sim_new :: "'t gz_ops \<Rightarrow> 't \<Rightarrow> (u32 \<Rightarrow> nat \<Rightarrow> int) \<Rightarrow> Params \<Rightarrow> 'm \<Rightarrow> ('m, 't) Sim res" where
  "sim_new gz null sq P mm =
     bind_res (num_os_pages P) (\<lambda>np.
     bind_res (os_new (OS_PAGESIZE P) (LINESIZE P) np (word_of_int (num_threads P))) (\<lambda>os.
     bind_res (l3sets P) (\<lambda>ns.
     bind_res (memsys_new P mm) (\<lambda>m.
     bind_res (new_cores gz null P (srand sq 1)) (\<lambda>(cs, _).
     Inr \<lparr>nest = \<lparr>memsys = m, l3cache = mcache_new ns (ucast (L3_ASSOC P)) (ucast (L3_REPL P)), nest_os = os,
                  rnd = srand sq (ucast (RAND_SEED P))\<rparr>,
          mcore = cs, cycle = 0, leap_operation = 0\<rparr>)))))"

section \<open>The loop\<close>

text \<open>The cores in the order of their turns.\<close>

definition rotation :: "u64 \<Rightarrow> int \<Rightarrow> int list" where
  "rotation cyc n =
     (let offset = (ucast (cyc mod to_u64 n) :: u32)
      in map (\<lambda>ii. uint ((offset + word_of_int ii) mod word_of_int n)) [0..n - 1])"

definition cycle_core ::
  "'m mem_ops \<Rightarrow> 't gz_ops \<Rightarrow> bool \<Rightarrow> Params \<Rightarrow> int \<Rightarrow> bool \<times> 't MCore list \<times> 'm Nest \<Rightarrow> (bool \<times> 't MCore list \<times> 'm Nest) res" where
  "cycle_core ops gz do_wb P index = (\<lambda>(all_cores_done, cs, s).
     bind_res (vec_get cs index) (\<lambda>c.
     bind_res (mcore_cycle ops gz do_wb P c s) (\<lambda>(c, s).
     bind_res (vec_set cs index c) (\<lambda>cs.
     Inr (all_cores_done \<and> core_done c, cs, s)))))"

text \<open>The test \<open>cycle & 2047 == 0\<close> compares first.\<close>

definition sim_epoch :: "u64 \<Rightarrow> MCache \<Rightarrow> MCache" where
  "sim_epoch cyc h = (if and cyc (of_bool ((2047 :: int) = 0)) \<noteq> 0 then h\<lparr>wb_in_2k_epoch := 0\<rparr> else h)"

definition sim_cores :: "'m mem_ops \<Rightarrow> 't gz_ops \<Rightarrow> bool \<Rightarrow> Params \<Rightarrow> ('m, 't) Sim \<Rightarrow> (bool \<times> ('m, 't) Sim) res" where
  "sim_cores ops gz do_wb P st =
     (let s = (nest st)\<lparr>l3cache := sim_epoch (cycle st) (l3cache (nest st))\<rparr> in
      bind_res (require DivisionByZero (num_threads P \<noteq> 0)) (\<lambda>_.
      bind_res (fold_res (cycle_core ops gz do_wb P) (rotation (cycle st) (num_threads P)) (True, mcore st, s)) (\<lambda>(d, cs, s).
      Inr (d, st\<lparr>nest := s, mcore := cs\<rparr>))))"

definition sim_memory :: "'m mem_ops \<Rightarrow> Params \<Rightarrow> ('m, 't) Sim \<Rightarrow> ('m, 't) Sim res" where
  "sim_memory ops P st =
     (if leap_one \<le> leap_operation st then Inr (st\<lparr>leap_operation := leap_operation st - leap_one\<rparr>)
      else
        bind_res (memsys_cycle ops P (memsys (nest st), mcore st)) (\<lambda>(m, cs).
        Inr (st\<lparr>nest := (nest st)\<lparr>memsys := m\<rparr>, mcore := cs, leap_operation := leap_operation st + CLOCK_SCALE\<rparr>)))"

definition sim_step :: "'m mem_ops \<Rightarrow> 't gz_ops \<Rightarrow> bool \<Rightarrow> Params \<Rightarrow> ('m, 't) Sim \<Rightarrow> (bool \<times> ('m, 't) Sim) res" where
  "sim_step ops gz do_wb P st =
     bind_res (sim_cores ops gz do_wb P st) (\<lambda>(d, st).
     bind_res (sim_memory ops P st) (\<lambda>st.
     Inr (d, st\<lparr>cycle := cycle st + 1\<rparr>)))"

text \<open>The loop of \<open>main\<close>; \<open>None\<close> if it does not end.\<close>

partial_function (option) sim_loop ::
  "'m mem_ops \<Rightarrow> 't gz_ops \<Rightarrow> bool \<Rightarrow> Params \<Rightarrow> ('m, 't) Sim \<Rightarrow> ('m, 't) Sim res option" where
  "sim_loop ops gz do_wb P st =
     (case sim_step ops gz do_wb P st of
        Inl e \<Rightarrow> Some (Inl e)
      | Inr (d, st) \<Rightarrow> if d then Some (Inr st) else sim_loop ops gz do_wb P st)"

definition avg_done_cycles :: "Params \<Rightarrow> 't MCore list \<Rightarrow> u64 res" where
  "avg_done_cycles P cs =
     bind_res (require DivisionByZero (to_u64 (num_threads P) \<noteq> 0)) (\<lambda>_.
     Inr (sum_list (map done_cycle_count (take (nat (num_threads P)) cs)) div to_u64 (num_threads P)))"
section \<open>Turns and clocks\<close>

lemma rotation_value:
  assumes "0 < n" and "n < 2 ^ 31"
  shows "rotation cyc n = map (\<lambda>ii. (uint cyc + ii) mod n) [0..n - 1]"
proof -
  have n64: "uint (to_u64 n) = n" using assms by (simp add: uint_word_of_int)
  have n32: "uint (word_of_int n :: u32) = n" using assms by (simp add: uint_word_of_int)
  define off :: u32 where "off = ucast (cyc mod to_u64 n)"
  have lt: "uint cyc mod n < n" using assms by simp
  have off: "uint off = uint cyc mod n"
    using assms take_bit_int_eq_self [of "uint cyc mod n" 32] lt by (simp add: off_def unsigned_ucast_eq uint_mod n64)
  have "uint ((off + word_of_int ii) mod word_of_int n) = (uint cyc + ii) mod n" if "ii \<in> set [0..n - 1]" for ii
  proof -
    have ii: "0 \<le> ii" "ii < n" using that by auto
    have "uint (word_of_int ii :: u32) = ii" using ii assms by (simp add: uint_word_of_int)
    moreover have "n + n < 2 ^ 32" using assms(2) by simp
    with add_strict_mono [OF lt ii(2)] have "uint cyc mod n + ii < 2 ^ 32" by (rule less_trans)
    ultimately have "uint (off + word_of_int ii) = uint cyc mod n + ii"
      using off uint_add_lem [of off "word_of_int ii"] by simp
    then show ?thesis using n32 by (simp add: uint_mod mod_simps)
  qed
  then show ?thesis by (simp add: rotation_def Let_def off_def [symmetric])
qed

lemma rotation_perm:
  assumes "0 < n" and "n < 2 ^ 31"
  shows "distinct (rotation cyc n)" and "set (rotation cyc n) = {0..<n}"
proof -
  have inj: "inj_on (\<lambda>ii. (uint cyc + ii) mod n) {0..n - 1}"
  proof (rule inj_onI)
    fix i j assume ij: "i \<in> {0..n - 1}" "j \<in> {0..n - 1}" "(uint cyc + i) mod n = (uint cyc + j) mod n"
    then have "i mod n = j mod n" by (metis add.commute add_diff_cancel_right' mod_diff_left_eq)
    then show "i = j" using ij by simp
  qed
  then show "distinct (rotation cyc n)" using assms by (simp add: rotation_value distinct_map)
  have "(\<lambda>ii. (uint cyc + ii) mod n) ` {0..n - 1} = {0..<n}"
  proof (rule card_subset_eq)
    show "card ((\<lambda>ii. (uint cyc + ii) mod n) ` {0..n - 1}) = card {0..<n}" by (simp add: card_image [OF inj])
  qed (use assms in auto)
  then show "set (rotation cyc n) = {0..<n}" using assms by (simp add: rotation_value)
qed

text \<open>In every cycle each core has exactly one turn, and the core that comes first changes in round-robin order.\<close>

lemma rotation_round_robin:
  assumes "0 < n" and "n < 2 ^ 31"
  shows "mset (rotation cyc n) = mset [0..n - 1] \<and> hd (rotation cyc n) = uint cyc mod n"
proof -
  have "set (rotation cyc n) = set [0..n - 1]" using rotation_perm(2) [OF assms] by auto
  then have "mset (rotation cyc n) = mset [0..n - 1]" using rotation_perm(1) [OF assms] set_eq_iff_mset_eq_distinct [of "rotation cyc n" "[0..n - 1]"] by simp
  then show ?thesis using assms by (simp add: rotation_value hd_map upto_rec1)
qed

lemma epoch_never_reset: "sim_epoch cyc h = h"
  by (simp add: sim_epoch_def)

section \<open>Runs\<close>

text \<open>One cycle of the loop as two phases; the assumptions are that no sleeping core reaches the default delay in
  its turn and that the guard of the memory holds when it is run.  \<open>n\<close> counts the cycles.\<close>

inductive sim_run ::
  "('m \<Rightarrow> bool) \<Rightarrow> ('m \<Rightarrow> bool) \<Rightarrow> 'm mem_ops \<Rightarrow> 't gz_ops \<Rightarrow> 't \<Rightarrow> (u32 \<Rightarrow> nat \<Rightarrow> int) \<Rightarrow> bool \<Rightarrow> Params \<Rightarrow> nat \<Rightarrow> ('m, 't) Sim \<Rightarrow> bool"
  for init guard ops gz null sq do_wb P where
  start: "init mm \<Longrightarrow> sim_new gz null sq P mm = Inr st \<Longrightarrow> sim_run init guard ops gz null sq do_wb P 0 st"
| step: "sim_run init guard ops gz null sq do_wb P n st \<Longrightarrow> list_all (timely (mshr_of (nest st))) (mcore st) \<Longrightarrow>
    sim_cores ops gz do_wb P st = Inr (d, st1) \<Longrightarrow> guard (mainmem (memsys (nest st1))) \<Longrightarrow> sim_memory ops P st1 = Inr st2 \<Longrightarrow>
    sim_run init guard ops gz null sq do_wb P (Suc n) (st2\<lparr>cycle := cycle st2 + 1\<rparr>)"

definition sim_setup :: "Params \<Rightarrow> bool" where
  "sim_setup P \<longleftrightarrow> params_ok P \<and> unat (LINESIZE P) < 2 ^ 32 \<and> 0 < num_threads P \<and> num_threads P \<le> MAX_THREADS"

definition clock_ok :: "nat \<Rightarrow> u64 \<Rightarrow> int \<Rightarrow> bool" where
  "clock_ok n clk leap \<longleftrightarrow> (\<exists>m. clk = word_of_nat m \<and> leap = int m * (leap_one + CLOCK_SCALE) - int n * leap_one \<and>
     0 \<le> leap \<and> leap < leap_one + CLOCK_SCALE)"

definition sim_ok :: "('m \<Rightarrow> bool) \<Rightarrow> ('m \<Rightarrow> (u64 \<times> bool) multiset) \<Rightarrow> Params \<Rightarrow> ('m, 't) Sim \<Rightarrow> bool" where
  "sim_ok good pend P st \<longleftrightarrow> nest_inv good pend P (nest st) \<and> cores_inv P (mshr_of (nest st)) (mcore st) \<and>
     int (length (mcore st)) = num_threads P"

definition sim_inv :: "('m \<Rightarrow> bool) \<Rightarrow> ('m \<Rightarrow> (u64 \<times> bool) multiset) \<Rightarrow> ('m \<Rightarrow> u64) \<Rightarrow> Params \<Rightarrow> nat \<Rightarrow> ('m, 't) Sim \<Rightarrow> bool" where
  "sim_inv good pend clk P n st \<longleftrightarrow> sim_ok good pend P st \<and> clock_ok n (clk (mainmem (memsys (nest st)))) (leap_operation st)"

lemma requests_of_timely:
  assumes "requests_of i ms ms'" and "core_id c \<noteq> i"
  shows "timely ms' c = timely ms c"
proof -
  have "waits_in ms' c r = waits_in ms c r" for r
    using assms unfolding requests_of_def waits_in_def by (metis option.inject option.discI)
  then show ?thesis by (simp add: timely_def)
qed

text \<open>The cores after one of them has had its turn.\<close>

lemma cores_inv_turn:
  assumes "cores_inv P (mshr_of s) cs" and "core_step good pend clk P (cs ! i) s c' s'" and "core_inv P (mshr_of s') c'" and "i < length cs"
  shows "cores_inv P (mshr_of s') (cs[i := c'])"
    and "\<And>j. j < length cs \<Longrightarrow> j \<noteq> i \<Longrightarrow> timely (mshr_of s') (cs ! j) = timely (mshr_of s) (cs ! j)"
proof -
  have inv: "length cs \<le> 2 ^ 32" "\<And>l e. mshr_of s l = Some e \<Longrightarrow> unat (ms_coreid e) < length cs"
    "\<And>j. j < length cs \<Longrightarrow> core_id (cs ! j) = word_of_nat j \<and> core_inv P (mshr_of s) (cs ! j)"
    using assms(1) by (auto simp: cores_inv_def)
  have st: "ms_inj (mshr_of s')" "core_id c' = word_of_nat i" "requests_of (word_of_nat i) (mshr_of s) (mshr_of s')"
    using assms(2,4) inv(3) by (auto simp: core_step_def)
  have small: "j < length cs \<Longrightarrow> unat (word_of_nat j :: u32) = j" for j
    using inv(1) by (simp add: unsigned_of_nat take_bit_nat_eq_self)
  have other: "core_id (cs ! j) \<noteq> word_of_nat i" if "j < length cs" "j \<noteq> i" for j
    using inv(3) [OF that(1)] that(2) small [OF that(1)] small [OF assms(4)] by metis
  have own: "unat (ms_coreid e) < length cs" if "mshr_of s' l = Some e" for l e
  proof -
    from st(3) that have "mshr_of s l = Some e \<or> ms_coreid e = word_of_nat i" by (auto simp: requests_of_def) (metis option.inject)
    then show ?thesis using inv(2) small assms(4) by auto
  qed
  have "core_id (cs[i := c'] ! j) = word_of_nat j \<and> core_inv P (mshr_of s') (cs[i := c'] ! j)" if "j < length cs" for j
    using that inv(3) [OF that] st(2) assms(3) requests_of_other [OF st(3) other [OF that]] by (cases "j = i") auto
  then show "cores_inv P (mshr_of s') (cs[i := c'])" using st(1) inv(1) own by (auto simp: cores_inv_def)
  show "timely (mshr_of s') (cs ! j) = timely (mshr_of s) (cs ! j)" if "j < length cs" "j \<noteq> i" for j
    using requests_of_timely [OF st(3) other [OF that]] .
qed

context core_memory
begin

lemma turns_keep:
  fixes cs :: "'t MCore list" and s :: "'m Nest"
  assumes "params_ok P" and "nest_inv good pend P s" and "cores_inv P (mshr_of s) cs" and "distinct is"
    and "\<And>i. i \<in> set is \<Longrightarrow> 0 \<le> i \<and> i < int (length cs) \<and> timely (mshr_of s) (cs ! nat i)"
  shows "on_success (fold_res (cycle_core ops gz do_wb P) is (d, cs, s)) (\<lambda>(d', cs', s'). nest_inv good pend P s' \<and>
    cores_inv P (mshr_of s') cs' \<and> length cs' = length cs \<and> clk (mainmem (memsys s')) = clk (mainmem (memsys s)))"
  using assms(2-)
proof (induction "is" arbitrary: d cs s)
  case Nil
  then show ?case by simp
next
  case (Cons i "is")
  have i: "0 \<le> i" "nat i < length cs" "timely (mshr_of s) (cs ! nat i)" using Cons.prems(4) [of i] by auto
  have get: "vec_get cs i = Inr (cs ! nat i)" using i by (simp add: vec_get_def)
  have pre: "core_inv P (mshr_of s) (cs ! nat i)" "ms_inj (mshr_of s)" using Cons.prems(2) i(2) by (auto simp: cores_inv_def)
  have turn: "on_success (fold_res (cycle_core ops gz do_wb P) is (d1, cs[nat i := c'], s')) (\<lambda>(d', cs', s'). nest_inv good pend P s' \<and>
      cores_inv P (mshr_of s') cs' \<and> length cs' = length cs \<and> clk (mainmem (memsys s')) = clk (mainmem (memsys s)))"
    if c': "core_step good pend clk P (cs ! nat i) s c' s'" "core_inv P (mshr_of s') c'" for d1 and c' :: "'t MCore" and s' :: "'m Nest"
  proof -
    note k = cores_inv_turn [OF Cons.prems(2) c' i(2)]
    have j: "0 \<le> j \<and> j < int (length (cs[nat i := c'])) \<and> timely (mshr_of s') (cs[nat i := c'] ! nat j)" if "j \<in> set is" for j
    proof -
      have "j \<noteq> i" "0 \<le> j" using that Cons.prems(3) Cons.prems(4) [of j] by auto
      then have "nat j \<noteq> nat i" using i(1) by simp
      then show ?thesis using that Cons.prems(4) [of j] k(2) [of "nat j"] by (simp add: nat_less_iff)
    qed
    have "nest_inv good pend P s'" "distinct is" using c'(1) Cons.prems(3) by (auto simp: core_step_def)
    from Cons.IH [OF this(1) k(1) this(2) j, of d1] show ?thesis
      by (rule on_success_mono) (use c'(1) in \<open>auto simp: core_step_def\<close>)
  qed
  show ?case
    unfolding fold_res.simps cycle_core_def [of _ _ _ _ i] prod.case get bind_res_simps bind_res_assoc
    by (rule on_success_bindI [OF mcore_cycle_keeps [OF assms(1) Cons.prems(1) pre i(3)]])
      (use i turn in \<open>auto simp: vec_set_def simp del: on_success_bind\<close>)
qed

lemma sim_cores_keeps:
  assumes "sim_setup P" and "sim_ok good pend P st" and "list_all (timely (mshr_of (nest st))) (mcore st)"
  shows "on_success (sim_cores ops gz do_wb P st) (\<lambda>(d, st1). sim_ok good pend P st1 \<and> cycle st1 = cycle st \<and>
    leap_operation st1 = leap_operation st \<and> clk (mainmem (memsys (nest st1))) = clk (mainmem (memsys (nest st))))"
proof -
  let ?s = "(nest st)\<lparr>l3cache := sim_epoch (cycle st) (l3cache (nest st))\<rparr>"
  have inv: "nest_inv good pend P ?s" "cores_inv P (mshr_of ?s) (mcore st)" "int (length (mcore st)) = num_threads P"
    using assms(2) by (auto simp: sim_ok_def nest_inv_def)
  have n: "0 < num_threads P" "num_threads P < 2 ^ 31" using assms(1) by (auto simp: sim_setup_def MAX_THREADS_def)
  have tm: "0 \<le> i \<and> i < int (length (mcore st)) \<and> timely (mshr_of ?s) (mcore st ! nat i)"
    if "i \<in> set (rotation (cycle st) (num_threads P))" for i
  proof -
    have "0 \<le> i \<and> i < num_threads P" using that rotation_perm(2) [OF n] by auto
    then show ?thesis using assms(3) inv(3) by (simp add: list_all_length nat_less_iff)
  qed
  have ok: "params_ok P" using assms(1) by (simp add: sim_setup_def)
  have req: "require DivisionByZero (num_threads P \<noteq> 0) = Inr ()" using n by simp
  show ?thesis
    unfolding sim_cores_def Let_def req bind_res_simps
    by (rule on_success_bindI [OF turns_keep [OF ok inv(1,2) rotation_perm(1) [OF n] tm]])
      (use assms(2) in \<open>auto simp: sim_ok_def\<close>)
qed

text \<open>The memory phase, without and with the skipped cycles.\<close>

lemma answers_phase:
  assumes "params_ok P" and "sim_ok good pend P st" and "guard (mainmem (memsys (nest st)))"
  shows "succeeds (memsys_cycle ops P (memsys (nest st), mcore st)) (\<lambda>(m, cs).
    sim_ok good pend P (st\<lparr>nest := (nest st)\<lparr>memsys := m\<rparr>, mcore := cs\<rparr>) \<and> clk (mainmem m) = clk (mainmem (memsys (nest st))) + 1)"
proof -
  have ok: "mem_inv good pend P (memsys (nest st))" "cores_inv P (mshr_of (nest st)) (mcore st)"
    using assms(2) by (auto simp: sim_ok_def nest_inv_def)
  show ?thesis
    by (rule succeeds_mono [OF memory_cycle_ok [OF assms(1) ok assms(3)]]) (use assms(2) in \<open>auto simp: sim_ok_def nest_inv_def\<close>)
qed

lemma clock_ok_step:
  assumes "clock_ok n k leap"
  shows "leap_one \<le> leap \<Longrightarrow> clock_ok (Suc n) k (leap - leap_one)"
    and "\<not> leap_one \<le> leap \<Longrightarrow> clock_ok (Suc n) (k + 1) (leap + CLOCK_SCALE)"
proof -
  have c: "0 < CLOCK_SCALE" "0 < leap_one" by (simp_all add: CLOCK_SCALE_def leap_one_def)
  obtain m where m: "k = word_of_nat m" "leap = int m * (leap_one + CLOCK_SCALE) - int n * leap_one" "0 \<le> leap" "leap < leap_one + CLOCK_SCALE"
    using assms by (auto simp: clock_ok_def)
  show "clock_ok (Suc n) k (leap - leap_one)" if "leap_one \<le> leap"
    unfolding clock_ok_def by (rule exI [of _ m]) (use m that c in \<open>simp add: algebra_simps\<close>)
  show "clock_ok (Suc n) (k + 1) (leap + CLOCK_SCALE)" if "\<not> leap_one \<le> leap"
    unfolding clock_ok_def by (rule exI [of _ "Suc m"]) (use m that c in \<open>simp add: algebra_simps\<close>)
qed

lemma sim_memory_ok:
  assumes "sim_setup P" and "sim_inv good pend clk P n st" and "guard (mainmem (memsys (nest st)))"
  shows "succeeds (sim_memory ops P st) (\<lambda>st'. sim_inv good pend clk P (Suc n) st' \<and> cycle st' = cycle st)"
proof (cases "leap_one \<le> leap_operation st")
  case True
  have "clock_ok n (clk (mainmem (memsys (nest st)))) (leap_operation st)" using assms(2) by (simp add: sim_inv_def)
  from clock_ok_step(1) [OF this True] show ?thesis using assms(2) True by (simp add: sim_memory_def sim_inv_def sim_ok_def)
next
  case False
  have "clock_ok n (clk (mainmem (memsys (nest st)))) (leap_operation st)" using assms(2) by (simp add: sim_inv_def)
  note ck = clock_ok_step(2) [OF this False]
  have ok: "params_ok P" "sim_ok good pend P st" using assms(1,2) by (auto simp: sim_setup_def sim_inv_def)
  show ?thesis
    unfolding sim_memory_def if_not_P [OF False]
    by (rule succeeds_bindI [OF answers_phase [OF ok assms(3)]]) (use ck in \<open>auto simp: sim_inv_def sim_ok_def\<close>)
qed

end

section \<open>The start\<close>

lemma mcore_new_ok:
  assumes "params_ok P"
  shows "on_success (mcore_new gz P null f i r) (\<lambda>(c, r'). core_id c = i \<and> core_inv P Map.empty c \<and> \<not> sleep c)"
proof -
  have rob: "rob_ok P new_ROB" using params_cap(1) [OF assms] by (simp add: rob_ok_def new_ROB_def)
  have inv: "core_inv P Map.empty c" if "rob c = new_ROB" "\<not> sleep c" for c :: "'a MCore"
    using that rob by (simp add: core_inv_def core_ok_def) (simp add: new_ROB_def)
  show ?thesis
    unfolding mcore_new_def Let_def
    by (rule on_success_bindI [OF init_trace_same], clarify, rule on_success_mono [OF read_trace_same])
      (auto simp: core_kept_def intro!: inv)
qed

lemma new_cores_ok:
  assumes "params_ok P" and "0 < num_threads P"
  shows "on_success (new_cores gz null P r) (\<lambda>(cs, r').
    (\<forall>i < length cs. core_id (cs ! i) = word_of_nat i \<and> core_inv P Map.empty (cs ! i)) \<and> int (length cs) = num_threads P)"
proof -
  define good where "good = (\<lambda>cs :: 'a MCore list. \<forall>i < length cs. core_id (cs ! i) = word_of_nat i \<and> core_inv P Map.empty (cs ! i))"
  define build where "build = (\<lambda>ii (cs, r). bind_res (require OutOfBounds (ii < MAX_THREADS)) (\<lambda>_.
       bind_res (vec_get (addr_trace_filename P) ii) (\<lambda>f.
       bind_res (mcore_new gz P null f (word_of_int ii) r) (\<lambda>(c, r). Inr (cs @ [c], r)))))"
  have one: "on_success (build a (cs, r)) (\<lambda>(cs', r'). good cs' \<and> length cs' = Suc (length cs))"
    if "good cs" "int (length cs) = a" for a cs r
    unfolding build_def prod.case
    by (rule on_success_bindI [OF on_success_True], rule on_success_bindI [OF on_success_True],
        rule on_success_bindI [OF mcore_new_ok [OF assms(1)]])
      (use that in \<open>auto simp: good_def nth_append less_Suc_eq\<close>)
  have "on_success (fold_res build [a..b] (cs, r)) (\<lambda>(cs', r'). good cs' \<and> int (length cs') = max a (b + 1))"
    if "good cs" "int (length cs) = a" for a b cs r
    using that
  proof (induction a b arbitrary: cs r rule: upto.induct)
    case (1 a b)
    show ?case
    proof (cases "a \<le> b")
      case True
      have "on_success (fold_res build [a + 1..b] x) (\<lambda>(cs', r'). good cs' \<and> int (length cs') = max a (b + 1))"
        if "case x of (cs', r') \<Rightarrow> good cs' \<and> length cs' = Suc (length cs)" for x
        using 1(1) [OF True, of "fst x" "snd x"] that 1(3) True by (cases x) (auto simp: max_def)
      then show ?thesis using True one [OF 1(2,3), of r]
        by (simp add: upto.simps [of a b] del: on_success_bind) (erule on_success_bindI, simp)
    next
      case False
      then show ?thesis using 1(2,3) by simp
    qed
  qed
  from this [of "[]" 0 "num_threads P - 1" r] show ?thesis
    using assms(2) unfolding new_cores_def build_def good_def by simp
qed

lemma os_new_inv:
  assumes "unat (LINESIZE P) < 2 ^ 32" and "LINESIZE P \<noteq> 0"
  shows "on_success (os_new (OS_PAGESIZE P) (LINESIZE P) np nt) (os_inv P)"
proof (cases "np = 0")
  case True
  then show ?thesis by (simp add: os_new_def vec_set_def)
next
  case False
  let ?l = "ucast (LINESIZE P) :: u32" and ?p = "ucast (OS_PAGESIZE P) :: u32"
  have l: "unat ?l = unat (LINESIZE P)" using assms(1) by (rule unat_ucast_small)
  then have nz: "?l \<noteq> 0" using assms(2) by (metis unat_eq_0)
  have "unat (?p div ?l) * unat (LINESIZE P) \<le> unat ?p" using l by (simp add: unat_div)
  also have "\<dots> < 2 ^ 32" using unsigned_less [of ?p, where ?'a = nat] by simp
  finally have "unat np * (unat (?p div ?l) * unat (LINESIZE P)) \<le> 2 ^ 32 * 2 ^ 32"
    using unsigned_less [of np, where ?'a = nat] by (intro mult_mono) simp_all
  then have fits: "unat np * unat (?p div ?l) * unat (LINESIZE P) \<le> 2 ^ 64" by (simp add: ac_simps)
  have "on_success (os_new (OS_PAGESIZE P) (LINESIZE P) np nt) os_wf"
    using os_new_wf [OF nz, of np "OS_PAGESIZE P" nt] False by (cases "os_new (OS_PAGESIZE P) (LINESIZE P) np nt") (auto simp: unat_gt_0)
  then show ?thesis using fits nz False
    by (auto simp: os_new_def os_inv_def on_success_iff bind_res_eq_Inr vec_set_Inr)
qed

context core_memory
begin

lemma sim_new_inv:
  assumes "sim_setup P" and "init mm" and "clk mm = 0"
  shows "on_success (sim_new gz null sq P mm) (sim_inv good pend clk P 0)"
proof -
  have ok: "params_ok P" "0 < num_threads P" "num_threads P \<le> 64" "unat (LINESIZE P) < 2 ^ 32" "LINESIZE P \<noteq> 0"
    using assms(1) by (auto simp: sim_setup_def params_ok_def MAX_THREADS_def)
  have "mem_inv good pend P \<lparr>mainmem = mm, mshr = Map.empty\<rparr>" using init_law [OF assms(2)] by (simp add: mem_inv_def)
  moreover have "clock_ok 0 (clk mm) 0" using assms(3) by (auto simp: clock_ok_def CLOCK_SCALE_def leap_one_def)
  ultimately have fin: "sim_inv good pend clk P 0 \<lparr>nest = \<lparr>memsys = \<lparr>mainmem = mm, mshr = Map.empty\<rparr>, l3cache = h, nest_os = os, rnd = r\<rparr>,
      mcore = cs, cycle = 0, leap_operation = 0\<rparr>"
    if "os_inv P os" "int (length cs) = num_threads P" "\<forall>i < length cs. core_id (cs ! i) = word_of_nat i \<and> core_inv P Map.empty (cs ! i)"
    for h os r and cs :: "'t MCore list"
    using that ok(3) by (simp add: sim_inv_def sim_ok_def nest_inv_def cores_inv_def ms_inj_def)
  show ?thesis
    unfolding sim_new_def memsys_new_def
    by (rule on_success_bindI [OF on_success_True], rule on_success_bindI [OF os_new_inv [OF ok(4,5)]], rule on_success_bindI [OF on_success_True],
        simp add: ok(5) del: on_success_bind, rule on_success_bindI [OF new_cores_ok [OF ok(1,2)]])
      (auto intro!: fin)
qed

lemma sim_run_inv:
  assumes "sim_run (\<lambda>mm. init mm \<and> clk mm = 0) guard ops gz null sq do_wb P n st" and "sim_setup P"
  shows "sim_inv good pend clk P n st \<and> cycle st = word_of_nat n"
  using assms(1)
proof induction
  case (start mm st)
  then have "cycle st = 0" by (auto simp: sim_new_def bind_res_eq_Inr)
  then show ?case using sim_new_inv [OF assms(2), of mm gz null sq] start by (simp add: on_success_iff)
next
  case (step n st d st1 st2)
  have 1: "sim_inv good pend clk P n st1 \<and> cycle st1 = cycle st"
    using sim_cores_keeps [OF assms(2) _ step.hyps(2), of gz do_wb] step.IH step.hyps(3) by (simp add: on_success_iff sim_inv_def)
  then have "sim_inv good pend clk P (Suc n) st2 \<and> cycle st2 = cycle st1"
    using sim_memory_ok [OF assms(2) _ step.hyps(4), of n] step.hyps(5) by simp
  then show ?case using 1 step.IH by (simp add: sim_inv_def sim_ok_def)
qed

end

section \<open>A sample run\<close>

text \<open>One core, whose trace has no access to memory at first.\<close>

definition sample_gz :: "unit gz_ops" where
  "sample_gz = \<lparr>gz_open = (\<lambda>_ _. Some ()), gz_record = (\<lambda>_. ((100, False, 0), ())), gz_eof = (\<lambda>_. False)\<rparr>"

definition sample_Params :: Params where
  "sample_Params = default_Params\<lparr>CORE_WIDTH := 1, MEM_SIZE_MB := 1, num_threads := 1\<rparr>"

lemma sample_sim_setup: "sim_setup sample_Params"
  by (simp add: sim_setup_def params_ok_def sample_Params_def default_Params_def MAX_ROB_ENTRIES_def DEFAULT_MEM_DELAY_def MAX_THREADS_def)

lemma sample_sim_new:
  "\<exists>st st1. sim_new sample_gz () (\<lambda>_ _. 1) sample_Params mm = Inr st \<and> list_all (timely (mshr_of (nest st))) (mcore st) \<and>
     sim_cores ops sample_gz True (sample_Params\<lparr>LINESIZE := l\<rparr>) st = Inr (False, st1) \<and> mainmem (memsys (nest st1)) = mm"
  by (simp add: sim_new_def num_os_pages_def sample_Params_def default_Params_def os_new_def vec_set_def l3sets_def memsys_new_def
      new_cores_def MAX_THREADS_def vec_get_def mcore_new_def mcore_init_trace_def mcore_read_trace_def mcore_fread_trace_def sample_gz_def
      sim_cores_def rotation_def cycle_core_def mcore_cycle_def Let_def timely_def new_ROB_def mcore_rob_retire_def)
    (simp add: core_issue_def os_v2p_lineaddr_def os_vpn_to_pfn_def os_get_victim_from_ipt_def victim_loop.simps(2) [of 999, simplified]
      page_key_def Let_def srand_def rand_def rem_word_def vec_get_def vec_set_def core_exec_def core_send_def mcore_rob_insert_def
      MAX_ROB_ENTRIES_def word_le_nat_alt)

end
