(* ===== verification/Command_Queue.thy ===== *)
theory Command_Queue
  imports Channel_State
begin

text \<open>
  The command queues of a channel (\<open>DRAMsim3/src/command_queue.h\<close> and \<open>command_queue.cc\<close>): one queue
  per rank or per bank, the choice of the next command to issue, and the queues that are blocked while
  a refresh or a refresh-management command is being prepared.  The sets of blocked indices
  (\<open>std::unordered_set\<close>) are sets; \<open>PromotePrechargeCmd\<close> and \<open>PrepRefCmd\<close> are declared and never defined.
\<close>

datatype QueueStructure = PER_RANK | PER_BANK | QUEUE_STRUCTURE_SIZE

record CommandQueue =
  rank_q_empty :: "bool list"
  cq_structure :: QueueStructure
  queues :: "Command list list"
  ref_q_indices :: "int set"
  is_in_ref :: bool
  rfm_q_indices :: "int set"
  is_in_rfm :: bool
  num_queues :: int
  queue_size :: u64
  queue_idx :: int
  cq_clk :: u64

type_synonym queue_ctx = "CommandQueue \<times> ChannelState"

definition new_CommandQueue :: "Config \<Rightarrow> CommandQueue res" where
  "new_CommandQueue c =
     bind_res (if queue_structure c = ''PER_BANK'' then Inr (PER_BANK, banks c * ranks c)
               else if queue_structure c = ''PER_RANK'' then Inr (PER_RANK, ranks c)
               else Inl AbruptExit) (\<lambda>(st, n).
     Inr \<lparr>rank_q_empty = replicate (nat (ranks c)) True, cq_structure = st, queues = replicate (nat n) [],
          ref_q_indices = {}, is_in_ref = False, rfm_q_indices = {}, is_in_rfm = False, num_queues = n,
          queue_size = to_u64 (cmd_queue_size c), queue_idx = 0, cq_clk = 0\<rparr>)"

section \<open>Queue access\<close>

definition GetQueueIndex :: "Config \<Rightarrow> CommandQueue \<Rightarrow> int \<Rightarrow> int \<Rightarrow> int \<Rightarrow> int" where
  "GetQueueIndex c q i j k =
     (if cq_structure q = PER_RANK then i else i * banks c + j * banks_per_group c + k)"

definition GetQueue :: "Config \<Rightarrow> CommandQueue \<Rightarrow> int \<Rightarrow> int \<Rightarrow> int \<Rightarrow> Command list res" where
  "GetQueue c q i j k = vec_get (queues q) (GetQueueIndex c q i j k)"

definition WillAcceptCommand :: "Config \<Rightarrow> CommandQueue \<Rightarrow> int \<Rightarrow> int \<Rightarrow> int \<Rightarrow> bool res" where
  "WillAcceptCommand c q i j k =
     bind_res (GetQueue c q i j k) (\<lambda>queue. Inr (size_u64 queue < queue_size q))"

definition QueueEmpty :: "CommandQueue \<Rightarrow> bool" where
  "QueueEmpty q \<longleftrightarrow> (\<forall>queue \<in> set (queues q). queue = [])"

definition CommandQueue_QueueUsage :: "CommandQueue \<Rightarrow> int" where
  "CommandQueue_QueueUsage q = fold (\<lambda>queue usage. usage + int (length queue)) (queues q) 0"

definition AddCommand :: "Config \<Rightarrow> Command \<Rightarrow> CommandQueue \<Rightarrow> (bool \<times> CommandQueue) res" where
  "AddCommand c cmd q =
     bind_res (GetQueue c q (Rank cmd) (Bankgroup cmd) (Bank cmd)) (\<lambda>queue.
     if size_u64 queue < queue_size q then
       bind_res (vec_set (queues q) (GetQueueIndex c q (Rank cmd) (Bankgroup cmd) (Bank cmd)) (queue @ [cmd])) (\<lambda>qs.
       bind_res (vec_set (rank_q_empty q) (Rank cmd) False) (\<lambda>re.
       Inr (True, q\<lparr>queues := qs, rank_q_empty := re\<rparr>)))
     else Inr (False, q))"

definition GetNextQueue :: "CommandQueue \<Rightarrow> (Command list \<times> CommandQueue) res" where
  "GetNextQueue q =
     (let i = queue_idx q + 1;
          i = (if i = num_queues q then 0 else i)
      in bind_res (vec_get (queues q) i) (\<lambda>queue. Inr (queue, q\<lparr>queue_idx := i\<rparr>)))"

definition CommandQueue_ClockTick :: "CommandQueue \<Rightarrow> CommandQueue" where
  "CommandQueue_ClockTick q = q\<lparr>cq_clk := cq_clk q + 1\<rparr>"

section \<open>Choosing a command\<close>

definition same_bank_cmd :: "Command \<Rightarrow> Command \<Rightarrow> bool" where
  "same_bank_cmd a b \<longleftrightarrow> Rank a = Rank b \<and> Bankgroup a = Bankgroup b \<and> Bank a = Bank b"

text \<open>A position in a queue is the commands before it and the ones from it on.\<close>

definition ArbitratePrecharge ::
  "Command list \<Rightarrow> Command \<Rightarrow> Command list \<Rightarrow> ChannelState \<Rightarrow> (bool \<times> ChannelState) res" where
  "ArbitratePrecharge prev cmd rest ch =
     (if \<exists>p \<in> set prev. same_bank_cmd p cmd then Inr (False, ch)
      else
        bind_res (OpenRow ch (Rank cmd) (Bankgroup cmd) (Bank cmd)) (\<lambda>orow.
        let pending_row_hits_exist = (\<exists>p \<in> set (cmd # rest). Row p = orow \<and> same_bank_cmd p cmd) in
        bind_res (RowHitCount ch (Rank cmd) (Bankgroup cmd) (Bank cmd)) (\<lambda>hits.
        let rowhit_limit_reached = (hits \<ge> 4) in
        if \<not> pending_row_hits_exist \<or> rowhit_limit_reached then
          Inr (True, ch\<lparr>shared := count_stat ''num_ondemand_pres'' (shared ch)\<rparr>)
        else Inr (False, ch))))"

definition HasRWDependency :: "Command list \<Rightarrow> Command \<Rightarrow> bool" where
  "HasRWDependency prev cmd \<longleftrightarrow>
     (\<exists>p \<in> set prev. IsRead p \<and> Row p = Row cmd \<and> Column p = Column cmd \<and> Bank p = Bank cmd \<and>
        Bankgroup p = Bankgroup cmd)"

fun first_ready ::
  "Build \<Rightarrow> Config \<Rightarrow> u64 \<Rightarrow> Command list \<Rightarrow> Command list \<Rightarrow> ChannelState \<Rightarrow> (Command \<times> ChannelState) res" where
  "first_ready bo c clk prev [] ch = Inr (invalid_Command, ch)"
| "first_ready bo c clk prev (x # rest) ch =
     bind_res (ChannelState_GetReadyCommand bo c x clk ch) (\<lambda>(cmd, ch).
     if \<not> IsValid cmd then first_ready bo c clk (prev @ [x]) rest ch
     else if cmd_type cmd = PRECHARGE \<or> cmd_type cmd = PRECHARGE2 then
       bind_res (ArbitratePrecharge prev x rest ch) (\<lambda>(ok, ch).
       if ok then Inr (cmd, ch) else first_ready bo c clk (prev @ [x]) rest ch)
     else if IsWrite cmd \<and> HasRWDependency prev x then first_ready bo c clk (prev @ [x]) rest ch
     else Inr (cmd, ch))"

definition GetFirstReadyInQueue ::
  "Build \<Rightarrow> Config \<Rightarrow> u64 \<Rightarrow> Command list \<Rightarrow> ChannelState \<Rightarrow> (Command \<times> ChannelState) res" where
  "GetFirstReadyInQueue bo c clk queue ch = first_ready bo c clk [] queue ch"

definition EraseRWCommand :: "Config \<Rightarrow> Command \<Rightarrow> CommandQueue \<Rightarrow> CommandQueue res" where
  "EraseRWCommand c cmd q =
     bind_res (GetQueue c q (Rank cmd) (Bankgroup cmd) (Bank cmd)) (\<lambda>queue.
     let found = (\<lambda>x. hex_addr cmd = hex_addr x \<and> IsRead cmd = IsRead x) in
     if \<exists>x \<in> set queue. found x then
       bind_res (vec_set (queues q) (GetQueueIndex c q (Rank cmd) (Bankgroup cmd) (Bank cmd)) (erase_first found queue)) (\<lambda>qs.
       Inr (q\<lparr>queues := qs\<rparr>))
     else Inl (ExitWith 1))"

definition blocked :: "CommandQueue \<Rightarrow> bool" where
  "blocked q \<longleftrightarrow> is_in_ref q \<and> queue_idx q \<in> ref_q_indices q \<or> is_in_rfm q \<and> queue_idx q \<in> rfm_q_indices q"

fun issue_loop :: "Build \<Rightarrow> Config \<Rightarrow> nat \<Rightarrow> queue_ctx \<Rightarrow> (Command \<times> queue_ctx) res" where
  "issue_loop bo c 0 ctx = Inr (invalid_Command, ctx)"
| "issue_loop bo c (Suc n) (q, ch) =
     bind_res (GetNextQueue q) (\<lambda>(queue, q).
     if blocked q then issue_loop bo c n (q, ch)
     else
       bind_res (GetFirstReadyInQueue bo c (cq_clk q) queue ch) (\<lambda>(cmd, ch).
       if IsValid cmd then
         bind_res (if IsReadWrite cmd then EraseRWCommand c cmd q else Inr q) (\<lambda>q. Inr (cmd, (q, ch)))
       else issue_loop bo c n (q, ch)))"

definition GetCommandToIssue :: "Build \<Rightarrow> Config \<Rightarrow> queue_ctx \<Rightarrow> (Command \<times> queue_ctx) res" where
  "GetCommandToIssue bo c = (\<lambda>(q, ch). issue_loop bo c (nat (num_queues q)) (q, ch))"

section \<open>Refresh and refresh management\<close>

text \<open>The queues of a rank, found by the quotient of the index by the banks of a rank.\<close>

definition rank_queue_indices :: "Config \<Rightarrow> int \<Rightarrow> int \<Rightarrow> int set res" where
  "rank_queue_indices c n i =
     fold_res (\<lambda>idx S. bind_res (quot_int idx (banks c)) (\<lambda>r. Inr (if r = i then insert idx S else S))) [0..n - 1] {}"

definition bankset_queue_indices :: "Config \<Rightarrow> CommandQueue \<Rightarrow> int \<Rightarrow> int \<Rightarrow> int set" where
  "bankset_queue_indices c q i k = set (map (\<lambda>j. GetQueueIndex c q i j k) [0..bankgroups c - 1])"

definition GetRefQIndices :: "Config \<Rightarrow> Command \<Rightarrow> CommandQueue \<Rightarrow> CommandQueue res" where
  "GetRefQIndices c ref q =
     bind_res
       (if cmd_type ref = REFab then
          (if cq_structure q = PER_BANK then rank_queue_indices c (num_queues q) (Rank ref) else Inr {Rank ref})
        else if cmd_type ref = REFsb then
          (if cq_structure q = PER_BANK then Inr (bankset_queue_indices c q (Rank ref) (Bank ref)) else Inl RuntimeError)
        else Inr {GetQueueIndex c q (Rank ref) (Bankgroup ref) (Bank ref)}) (\<lambda>S.
     Inr (q\<lparr>ref_q_indices := ref_q_indices q \<union> S\<rparr>))"

definition GetRFMQIndices :: "Config \<Rightarrow> Command \<Rightarrow> CommandQueue \<Rightarrow> CommandQueue res" where
  "GetRFMQIndices c rfm q =
     bind_res
       (if cmd_type rfm = RFMab then
          (if cq_structure q = PER_BANK then rank_queue_indices c (num_queues q) (Rank rfm) else Inr {Rank rfm})
        else
          (if cq_structure q = PER_BANK then Inr (bankset_queue_indices c q (Rank rfm) (Bank rfm))
           else Inr {Rank rfm})) (\<lambda>S.
     Inr (q\<lparr>rfm_q_indices := rfm_q_indices q \<union> S\<rparr>))"

definition FinishRefresh :: "Build \<Rightarrow> Config \<Rightarrow> queue_ctx \<Rightarrow> (Command \<times> queue_ctx) res" where
  "FinishRefresh bo c = (\<lambda>(q, ch).
     bind_res (require AssertionFailed (\<not> is_in_rfm q)) (\<lambda>_.
     bind_res (PendingRefCommand ch) (\<lambda>ref.
     bind_res (if \<not> is_in_ref q then bind_res (GetRefQIndices c ref q) (\<lambda>q. Inr (q\<lparr>is_in_ref := True\<rparr>)) else Inr q) (\<lambda>q.
     bind_res (ChannelState_GetReadyCommand bo c ref (cq_clk q) ch) (\<lambda>(cmd, ch).
     Inr (cmd, (if IsRefresh cmd then q\<lparr>ref_q_indices := {}, is_in_ref := False\<rparr> else q, ch)))))))"

definition FinishRFM :: "Build \<Rightarrow> Config \<Rightarrow> queue_ctx \<Rightarrow> (Command \<times> queue_ctx) res" where
  "FinishRFM bo c = (\<lambda>(q, ch).
     bind_res (require AssertionFailed (\<not> is_in_ref q)) (\<lambda>_.
     bind_res (PendingRFMCommand ch) (\<lambda>rfm.
     bind_res (if \<not> is_in_rfm q then bind_res (GetRFMQIndices c rfm q) (\<lambda>q. Inr (q\<lparr>is_in_rfm := True\<rparr>)) else Inr q) (\<lambda>q.
     bind_res (ChannelState_GetReadyCommand bo c rfm (cq_clk q) ch) (\<lambda>(cmd, ch).
     Inr (cmd, (if IsRFM cmd then q\<lparr>rfm_q_indices := {}, is_in_rfm := False\<rparr> else q, ch)))))))"

end
