(* ===== verification/Refresh.thy ===== *)
theory Refresh
  imports Channel_State
begin

text \<open>
  The refresh scheduler of a channel (\<open>DRAMsim3/src/refresh.h\<close> and \<open>refresh.cc\<close>): a counter that
  inserts a refresh request every interval, and the round-robin pointer over ranks and banks.  The member
  \<open>trefi_cnt_\<close> is never used.
\<close>

record Refresh =
  rf_clk :: u64
  refresh_interval :: int
  rf_policy :: RefreshPolicy
  next_rank :: int
  next_bg :: int
  next_bank :: int

definition new_Refresh :: "Config \<Rightarrow> Refresh res" where
  "new_Refresh c =
     bind_res (if refresh_policy c = RANK_LEVEL_SIMULTANEOUS then Inr (tREFI c)
               else if refresh_policy c = BANKSET_LEVEL_STAGGERED then Inr (tREFIsb c)
               else if refresh_policy c = BANK_LEVEL_STAGGERED then Inr (tREFIb c)
               else quot_int (tREFI c) (ranks c)) (\<lambda>n.
     Inr \<lparr>rf_clk = 0, refresh_interval = n, rf_policy = refresh_policy c, next_rank = 0, next_bg = 0, next_bank = 0\<rparr>)"

section \<open>The round-robin pointer\<close>

definition advance_rank :: "Config \<Rightarrow> Refresh \<Rightarrow> Refresh res" where
  "advance_rank c r = bind_res (rem_int (next_rank r + 1) (ranks c)) (\<lambda>n. Inr (r\<lparr>next_rank := n\<rparr>))"

definition advance_bank :: "Config \<Rightarrow> Refresh \<Rightarrow> Refresh res" where
  "advance_bank c r =
     bind_res (rem_int (next_bank r + 1) (banks_per_group c)) (\<lambda>n.
     let r = r\<lparr>next_bank := n\<rparr> in if n = 0 then advance_rank c r else Inr r)"

definition advance_bg :: "Config \<Rightarrow> Refresh \<Rightarrow> Refresh res" where
  "advance_bg c r =
     bind_res (rem_int (next_bg r + 1) (bankgroups c)) (\<lambda>n.
     let r = r\<lparr>next_bg := n\<rparr> in if n = 0 then advance_bank c r else Inr r)"

text \<open>The case of bank sets has no \<open>return\<close> and falls through into the case of banks.\<close>

definition IterateNext :: "Config \<Rightarrow> Refresh \<Rightarrow> Refresh res" where
  "IterateNext c r =
     (if rf_policy r = RANK_LEVEL_STAGGERED then advance_rank c r
      else if rf_policy r = BANKSET_LEVEL_STAGGERED then bind_res (advance_bank c r) (advance_bg c)
      else if rf_policy r = BANK_LEVEL_STAGGERED then advance_bg c r
      else Inl AbruptExit)"

section \<open>Inserting refreshes\<close>

text \<open>The loop over the ranks stops at the first rank that is not in self refresh.\<close>

fun refresh_first_awake :: "int list \<Rightarrow> ChannelState \<Rightarrow> ChannelState res" where
  "refresh_first_awake [] ch = Inr ch"
| "refresh_first_awake (i # is) ch =
     bind_res (IsRankSelfRefreshing ch i) (\<lambda>sref.
     if \<not> sref then Inr (RankNeedRefresh i True ch) else refresh_first_awake is ch)"

definition InsertRefresh :: "Config \<Rightarrow> Refresh \<times> ChannelState \<Rightarrow> (Refresh \<times> ChannelState) res" where
  "InsertRefresh c = (\<lambda>(r, ch).
     let staggered = (\<lambda>insert_ref.
           bind_res (IsRankSelfRefreshing ch (next_rank r)) (\<lambda>sref.
           let ch = (if \<not> sref then insert_ref ch else ch) in
           bind_res (IterateNext c r) (\<lambda>r. Inr (r, ch))))
     in if rf_policy r = RANK_LEVEL_SIMULTANEOUS then
          bind_res (refresh_first_awake [0..ranks c - 1] ch) (\<lambda>ch. Inr (r, ch))
        else if rf_policy r = RANK_LEVEL_STAGGERED then staggered (RankNeedRefresh (next_rank r) True)
        else if rf_policy r = BANKSET_LEVEL_STAGGERED then
          staggered (BanksetNeedRefresh (next_rank r) (next_bank r) True)
        else if rf_policy r = BANK_LEVEL_STAGGERED then
          staggered (BankNeedRefresh (next_rank r) (next_bg r) (next_bank r) True)
        else if rf_policy r = NO_REFRESH then Inr (r, ch)
        else Inl AbruptExit)"

definition Refresh_ClockTick :: "Config \<Rightarrow> Refresh \<times> ChannelState \<Rightarrow> (Refresh \<times> ChannelState) res" where
  "Refresh_ClockTick c = (\<lambda>(r, ch).
     bind_res (rem_word (rf_clk r) (to_u64 (refresh_interval r))) (\<lambda>m.
     bind_res (if m = 0 \<and> rf_clk r > 0 then InsertRefresh c (r, ch) else Inr (r, ch)) (\<lambda>(r, ch).
     Inr (r\<lparr>rf_clk := rf_clk r + 1\<rparr>, ch))))"

end
