(* ===== verification/Stats_Epoch.thy ===== *)
theory Stats_Epoch
  imports Simple_Stats
begin

text \<open>
  The epoch roll-over of the statistics (\<open>UpdateCounters\<close>, \<open>UpdateHistoBins\<close>, \<open>UpdateEpochStats\<close> and
  \<open>UpdateFinalStats\<close> of \<open>DRAMsim3/src/simple_stats.cc\<close>), as far as the integer statistics go.  The loops over
  \<open>std::unordered_map\<close> visit the registered names; no step depends on another, so their order is that of
  registration.  The energies, averages and printed pairs are left out.
\<close>

section \<open>Operations\<close>

definition vec_ctr_at :: "(string \<rightharpoonup> u64 list) \<Rightarrow> string \<Rightarrow> u64 list" where
  "vec_ctr_at m k = (case m k of None \<Rightarrow> [] | Some v \<Rightarrow> v)"

text \<open>The inner loops \<open>a[i] += b[i]\<close>, over the indices of \<open>b\<close>, and over those of \<open>a\<close>.\<close>

definition add_at :: "u64 list \<Rightarrow> nat list \<Rightarrow> u64 list \<Rightarrow> u64 list res" where
  "add_at b is a = fold_res (\<lambda>i a. bind_res (vec_get b (int i)) (\<lambda>x. vec_upd a (int i) (\<lambda>y. y + x))) is a"

definition update_vec :: "string \<Rightarrow> SimpleStats \<Rightarrow> SimpleStats res" where
  "update_vec n s =
     (let e = vec_ctr_at (epoch_vec_counters s) n in
      bind_res (add_at e [0..<length e] (vec_ctr_at (vec_counters s) n)) (\<lambda>v.
      Inr (s\<lparr>vec_counters := (vec_counters s)(n \<mapsto> v)\<rparr>)))"

definition UpdateCounters :: "SimpleStats \<Rightarrow> SimpleStats res" where
  "UpdateCounters s =
     (let s = s\<lparr>counters := (\<lambda>k. case epoch_counters s k of None \<Rightarrow> counters s k
                             | Some v \<Rightarrow> Some (ctr_at (counters s) k + v))\<rparr>
      in fold_res update_vec vec_names s)"

text \<open>The bin of a value: below the bounds the first, above them the last.\<close>

definition bin_index :: "int \<times> int \<Rightarrow> int \<Rightarrow> nat \<Rightarrow> int \<Rightarrow> int res" where
  "bin_index b w n value =
     (if value < fst b then Inr 0
      else if value > snd b then Inr (int n - 1)
      else bind_res (quot_int (value - fst b) w) (\<lambda>q. Inr (q + 1)))"

definition fill_bins :: "int \<times> int \<Rightarrow> int \<Rightarrow> (int \<times> u64) list \<Rightarrow> u64 list \<Rightarrow> u64 list res" where
  "fill_bins b w counts bins =
     fold_res (\<lambda>(value, n) bins.
       bind_res (bin_index b w (length bins) value) (\<lambda>i. vec_upd bins i (\<lambda>x. x + n)))
       counts (map (\<lambda>_. 0) bins)"

definition merge_counts :: "(int \<times> u64) list \<Rightarrow> (int \<times> u64) list \<Rightarrow> (int \<times> u64) list" where
  "merge_counts e l = fold (\<lambda>(v, n). histo_put v n) e l"

definition epoch_bins_of :: "SimpleStats \<Rightarrow> string \<Rightarrow> u64 list res" where
  "epoch_bins_of s n =
     fill_bins (case histo_bounds s n of None \<Rightarrow> (0, 0) | Some b \<Rightarrow> b) (case bin_widths s n of None \<Rightarrow> 0 | Some w \<Rightarrow> w)
       (histo_at (epoch_histo_counts s) n) (vec_ctr_at (epoch_histo_bins s) n)"

definition update_histo :: "string \<Rightarrow> SimpleStats \<Rightarrow> SimpleStats res" where
  "update_histo n s =
     bind_res (epoch_bins_of s n) (\<lambda>bins.
     let counts = merge_counts (histo_at (epoch_histo_counts s) n) (histo_at (histo_counts s) n);
         total = vec_ctr_at (histo_bins s) n
     in bind_res (add_at bins [0..<length total] total) (\<lambda>total.
        Inr (s\<lparr>epoch_histo_bins := (epoch_histo_bins s)(n \<mapsto> bins), histo_counts := (histo_counts s)(n \<mapsto> counts),
               histo_bins := (histo_bins s)(n \<mapsto> total)\<rparr>)))"

definition UpdateHistoBins :: "SimpleStats \<Rightarrow> SimpleStats res" where
  "UpdateHistoBins s = fold_res update_histo histo_names s"

definition UpdateEpochStats :: "SimpleStats \<Rightarrow> SimpleStats res" where
  "UpdateEpochStats s =
     bind_res (UpdateCounters s) (\<lambda>s.
     bind_res (UpdateHistoBins s) (\<lambda>s.
     Inr (s\<lparr>epoch_counters := map_option (\<lambda>_. 0) \<circ> epoch_counters s,
            epoch_vec_counters := map_option (map (\<lambda>_. 0)) \<circ> epoch_vec_counters s,
            epoch_histo_counts := map_option (\<lambda>_. []) \<circ> epoch_histo_counts s\<rparr>)))"

definition UpdateFinalStats :: "SimpleStats \<Rightarrow> SimpleStats res" where
  "UpdateFinalStats s = bind_res (UpdateCounters s) UpdateHistoBins"

definition SimpleStats_PrintEpochStats :: "SimpleStats \<Rightarrow> SimpleStats res" where
  "SimpleStats_PrintEpochStats s = UpdateEpochStats s"

definition SimpleStats_PrintFinalStats :: "SimpleStats \<Rightarrow> SimpleStats res" where
  "SimpleStats_PrintFinalStats s = UpdateFinalStats s"

section \<open>The loops of the roll-over\<close>

lemma add_at_prefix:
  "k \<le> length a \<Longrightarrow> k \<le> length b \<Longrightarrow>
     add_at b [0..<k] a = Inr (map (\<lambda>i. a ! i + (if i < k then b ! i else 0)) [0..<length a])"
proof (induction k)
  case 0
  then show ?case by (simp add: add_at_def map_nth)
next
  case (Suc k)
  let ?m = "\<lambda>k. map (\<lambda>i. a ! i + (if i < k then b ! i else 0)) [0..<length a]"
  have "add_at b [0..<k] a = Inr (?m k)" using Suc by simp
  moreover have "vec_upd (?m k) (int k) (\<lambda>y. y + b ! k) = Inr (?m (Suc k))"
  proof -
    have "(?m k)[k := ?m k ! k + b ! k] = ?m (Suc k)"
      by (rule nth_equalityI) (auto simp: nth_list_update less_Suc_eq)
    then show ?thesis using Suc.prems by (simp add: vec_upd_ok)
  qed
  ultimately show ?case
    using Suc.prems by (simp add: add_at_def fold_res_append vec_get_ok)
qed

lemma add_at_all: "length b = length a \<Longrightarrow> add_at b [0..<length a] a = Inr (map2 (+) a b)"
proof -
  assume l: "length b = length a"
  have "map (\<lambda>i. a ! i + (if i < length a then b ! i else 0)) [0..<length a] = map2 (+) a b"
    using l by (intro nth_equalityI) auto
  then show ?thesis using add_at_prefix [of "length a" a b] l by simp
qed

lemma sum_map2_add: "length b = length a \<Longrightarrow> sum_list (map2 (+) a b) = sum_list a + sum_list (b :: u64 list)"
  by (induction a b rule: list_induct2') (auto simp: algebra_simps)

lemma sum_list_raise: "i < length xs \<Longrightarrow> sum_list (xs[i := xs ! i + n]) = sum_list xs + (n :: u64)"
proof (induction xs arbitrary: i)
  case (Cons x xs)
  then show ?case by (cases i) (auto simp: algebra_simps)
qed simp

lemma bin_index_range:
  assumes "0 < w" and "lo \<le> hi" and "(hi - lo) div w + 2 \<le> int k"
  shows "succeeds (bin_index (lo, hi) w k v) (\<lambda>i. 0 \<le> i \<and> i < int k)"
proof -
  have "0 \<le> (hi - lo) div w" using assms(1,2) by (simp add: pos_imp_zdiv_nonneg_iff)
  moreover have "(v - lo) div w \<le> (hi - lo) div w" if "v \<le> hi" using assms(1) that by (intro zdiv_mono1) auto
  moreover have "0 \<le> (v - lo) div w" if "lo \<le> v" using assms(1) that by (simp add: pos_imp_zdiv_nonneg_iff)
  ultimately show ?thesis
    using assms by (auto simp: bin_index_def quot_int_def sdiv_nonneg not_less)
qed

text \<open>Every sample falls into one bin.\<close>

lemma fill_bins_sum:
  assumes "0 < w" and "lo \<le> hi" and "(hi - lo) div w + 2 \<le> int (length bins)"
  shows "succeeds (fill_bins (lo, hi) w counts bins) (\<lambda>bins'. length bins' = length bins \<and> sum_list bins' = sum_list (map snd counts))"
proof -
  let ?step = "\<lambda>(value, n) bins. bind_res (bin_index (lo, hi) w (length bins) value) (\<lambda>i. vec_upd bins i (\<lambda>x. x + n))"
  have "succeeds (fold_res ?step counts b) (\<lambda>b'. length b' = length bins \<and> sum_list b' = sum_list b + sum_list (map snd counts))"
    if "length b = length bins" for b
    using that
  proof (induction counts arbitrary: b)
    case (Cons e counts)
    obtain v n where e: "e = (v, n)" by (cases e)
    have "succeeds (?step e b) (\<lambda>b'. length b' = length bins \<and> sum_list b' = sum_list b + n)"
      unfolding e split_conv
      by (rule succeeds_bindI [OF bin_index_range [OF assms(1,2)]])
        (use assms(3) Cons.prems in \<open>auto simp: wp sum_list_raise\<close>)
    then show ?case
      unfolding fold_res.simps
    proof (rule succeeds_bindI, elim conjE)
      fix b1 assume b1: "length b1 = length bins" "sum_list b1 = sum_list b + n"
      show "succeeds (fold_res ?step counts b1) (\<lambda>b'. length b' = length bins \<and> sum_list b' = sum_list b + sum_list (map snd (e # counts)))"
        by (rule succeeds_mono [OF Cons.IH [OF b1(1)]]) (simp add: b1(2) e)
    qed
  qed simp
  from this [of "map (\<lambda>_. 0) bins"] show ?thesis by (simp add: fill_bins_def)
qed

section \<open>What a roll-over keeps\<close>

definition total :: "string \<Rightarrow> SimpleStats \<Rightarrow> u64" where
  "total n s = GetCtr n s + GetECtr n s"

definition samples :: "string \<Rightarrow> SimpleStats \<Rightarrow> u64" where
  "samples n s = sum_list (map snd (histo_at (epoch_histo_counts s) n))"

definition binned :: "string \<Rightarrow> SimpleStats \<Rightarrow> u64" where
  "binned n s = sum_list (vec_ctr_at (histo_bins s) n)"

text \<open>The count of a value in a histogram.  The keys of an epoch histogram are those of a
  \<open>std::unordered_map\<close>, hence distinct; every operation on the statistics keeps them so.\<close>

definition count_at :: "int \<Rightarrow> (int \<times> u64) list \<Rightarrow> u64" where
  "count_at v l = (case map_of l v of None \<Rightarrow> 0 | Some n \<Rightarrow> n)"

definition counts_ok :: "SimpleStats \<Rightarrow> bool" where
  "counts_ok s \<longleftrightarrow> (\<forall>n. distinct (map fst (histo_at (epoch_histo_counts s) n)))"

lemma map_of_raise: "map_of (map (\<lambda>(k, n). (k, if k = v then n + m else n)) l) u =
    (if u = v then map_option (\<lambda>n. n + m) (map_of l u) else map_of l (u :: int))" for m :: u64
  by (induction l) auto

lemma count_at_put: "count_at u (histo_put v m l) = count_at u l + (if u = v then m else 0)"
proof (cases "v \<in> fst ` set l")
  case True
  then obtain n where "map_of l v = Some n" by (metis map_of_eq_None_iff not_None_eq)
  then show ?thesis using True by (simp add: count_at_def histo_put_def map_of_raise)
next
  case False
  then have "map_of l v = None" by (simp add: map_of_eq_None_iff)
  then show ?thesis using False by (auto simp: count_at_def histo_put_def map_add_def split: option.splits)
qed

lemma count_at_merge:
  "distinct (map fst e) \<Longrightarrow> count_at v (merge_counts e l) = count_at v l + count_at v e"
proof (induction e arbitrary: l)
  case (Cons x e)
  obtain u n where x: "x = (u, n)" by (cases x)
  have "count_at v ((u, n) # e) = (if v = u then n else count_at v e)" by (simp add: count_at_def)
  moreover have "count_at u e = 0" if "u \<notin> fst ` set e"
    using that by (simp add: count_at_def map_of_eq_None_iff [THEN iffD2])
  ultimately show ?case using Cons by (auto simp: x merge_counts_def count_at_put)
qed (simp add: merge_counts_def count_at_def)

lemma distinct_histo_put: "distinct (map fst (histo_put v m l)) = distinct (map fst l)"
  by (auto simp: histo_put_def comp_def case_prod_unfold)

lemma counts_ok_updates [simp]:
  "counts_ok (Increment n s) = counts_ok s"
  "counts_ok s \<Longrightarrow> counts_ok (AddValue n v s)"
  by (auto simp: counts_ok_def Increment_def AddValue_def histo_at_def distinct_histo_put split: option.splits)

text \<open>A constructed object has no samples.\<close>

lemma new_SimpleStats_counts:
  "histo_at (histo_counts (new_SimpleStats nr)) n = [] \<and> histo_at (epoch_histo_counts (new_SimpleStats nr)) n = []"
proof -
  let ?P = "\<lambda>s. \<forall>n. histo_at (histo_counts s) n = [] \<and> histo_at (epoch_histo_counts s) n = []"
  have "?P s \<Longrightarrow> ?P (InitHistoStat n a b k s)" for n a b k s
    by (cases "epoch_histo_counts s n"; cases "histo_counts s n") (auto simp: InitHistoStat_def histo_at_def emplace_def)
  then have h: "?P s \<Longrightarrow> ?P (fold (\<lambda>(n, a, b, k). InitHistoStat n a b k) l s)" for l s
    by (induction l arbitrary: s) (simp_all add: split_beta)
  have v: "?P s \<Longrightarrow> ?P (fold (\<lambda>(n, k). InitVecStat n ''vec_counter'' k) l s)" for l s
    by (induction l arbitrary: s) (simp_all add: InitVecStat_def split_beta)
  have c: "?P s \<Longrightarrow> ?P (fold (\<lambda>n. InitStat n k) l s)" for k l s
    by (induction l arbitrary: s) (simp_all add: InitStat_def)
  have "?P empty_stats" by (simp add: empty_stats_def histo_at_def)
  then have "?P (new_SimpleStats nr)" unfolding new_SimpleStats_def Let_def by (intro h v c)
  then show ?thesis by simp
qed

text \<open>The histograms a step has not reached yet stay as they were.\<close>

definition histo_stepped :: "string set \<Rightarrow> SimpleStats \<Rightarrow> SimpleStats \<Rightarrow> bool" where
  "histo_stepped S s s' \<longleftrightarrow> shape_ok s' \<and> counters s' = counters s \<and> epoch_counters s' = epoch_counters s \<and>
     vec_counters s' = vec_counters s \<and>
     epoch_vec_counters s' = epoch_vec_counters s \<and> epoch_histo_counts s' = epoch_histo_counts s \<and>
     (\<forall>n. binned n s' = (if n \<in> S then binned n s + samples n s else binned n s)) \<and>
     (\<forall>n. histo_at (histo_counts s') n =
        (if n \<in> S then merge_counts (histo_at (epoch_histo_counts s) n) (histo_at (histo_counts s) n)
         else histo_at (histo_counts s) n))"

lemma update_histo_step:
  assumes "n \<in> set histo_names" and "shape_ok s"
  shows "succeeds (update_histo n s) (histo_stepped {n} s)"
proof -
  obtain lo hi w b e where h: "histo_bounds s n = Some (lo, hi)" "bin_widths s n = Some w" "histo_bins s n = Some b"
    "epoch_histo_bins s n = Some e" "0 < w" "lo \<le> hi" "length b = length e" "(hi - lo) div w + 2 \<le> int (length e)"
    using assms unfolding shape_ok_def histo_ok_def by blast
  have bins: "succeeds (epoch_bins_of s n) (\<lambda>x. length x = length e \<and> sum_list x = samples n s)"
    using fill_bins_sum [OF h(5,6,8), of "histo_at (epoch_histo_counts s) n"]
    by (simp add: epoch_bins_of_def h vec_ctr_at_def samples_def)
  show ?thesis
    unfolding update_histo_def
  proof (rule succeeds_bindI [OF bins], elim conjE)
    fix x assume x: "length x = length e" "sum_list x = samples n s"
    let ?s = "s\<lparr>epoch_histo_bins := (epoch_histo_bins s)(n \<mapsto> x),
      histo_counts := (histo_counts s)(n \<mapsto> merge_counts (histo_at (epoch_histo_counts s) n) (histo_at (histo_counts s) n)),
      histo_bins := (histo_bins s)(n \<mapsto> map2 (+) b x)\<rparr>"
    have "histo_ok ?s m" if "m \<in> set histo_names" for m
      using assms(2) that h x by (cases "m = n") (auto simp: shape_ok_def histo_ok_def)
    moreover have "vec_ok ?s m" if "m \<in> set vec_names" for m
      using assms(2) that by (simp add: shape_ok_def vec_ok_def)
    moreover have "binned m ?s = (if m = n then binned n s + samples n s else binned m s)" for m
      using x h(3,7) by (simp add: binned_def vec_ctr_at_def sum_map2_add)
    ultimately have "histo_stepped {n} s ?s" by (simp add: histo_stepped_def shape_ok_def histo_at_def)
    then show "succeeds (let counts = merge_counts (histo_at (epoch_histo_counts s) n) (histo_at (histo_counts s) n);
         total = vec_ctr_at (histo_bins s) n
       in bind_res (add_at x [0..<length total] total) (\<lambda>total.
          Inr (s\<lparr>epoch_histo_bins := (epoch_histo_bins s)(n \<mapsto> x), histo_counts := (histo_counts s)(n \<mapsto> counts),
                 histo_bins := (histo_bins s)(n \<mapsto> total)\<rparr>))) (histo_stepped {n} s)"
      using add_at_all [of x b] x h(3,7) by (simp add: vec_ctr_at_def)
  qed
qed

lemma UpdateHistoBins_step:
  assumes "shape_ok s"
  shows "succeeds (UpdateHistoBins s) (histo_stepped (set histo_names) s)"
proof -
  have "succeeds (fold_res update_histo ns s1) (histo_stepped (set ns) s1)"
    if "distinct ns" "set ns \<subseteq> set histo_names" "shape_ok s1" for ns s1
    using that
  proof (induction ns arbitrary: s1)
    case (Cons n ns)
    show ?case
      unfolding fold_res.simps
    proof (rule succeeds_bindI [OF update_histo_step])
      fix s2 assume s2: "histo_stepped {n} s1 s2"
      then have "shape_ok s2" by (simp add: histo_stepped_def)
      then have "succeeds (fold_res update_histo ns s2) (histo_stepped (set ns) s2)"
        using Cons.IH [of s2] Cons.prems by simp
      then show "succeeds (fold_res update_histo ns s2) (histo_stepped (set (n # ns)) s1)"
        by (rule succeeds_mono) (use s2 Cons.prems(1) in \<open>auto simp: histo_stepped_def samples_def\<close>)
    qed (use Cons.prems in auto)
  qed (simp add: histo_stepped_def)
  moreover have "distinct histo_names" by (simp add: histo_names_def histo_stats_def)
  ultimately show ?thesis using assms by (simp add: UpdateHistoBins_def)
qed

text \<open>The vectors a step has not reached yet stay as they were.\<close>

definition vec_stepped :: "string set \<Rightarrow> SimpleStats \<Rightarrow> SimpleStats \<Rightarrow> bool" where
  "vec_stepped S s s' \<longleftrightarrow> shape_ok s' \<and> counters s' = counters s \<and> epoch_counters s' = epoch_counters s \<and>
     epoch_vec_counters s' = epoch_vec_counters s \<and> histo_counts s' = histo_counts s \<and>
     epoch_histo_counts s' = epoch_histo_counts s \<and> histo_bins s' = histo_bins s \<and>
     (\<forall>n. vec_ctr_at (vec_counters s') n =
        (if n \<in> S then map2 (+) (vec_ctr_at (vec_counters s) n) (vec_ctr_at (epoch_vec_counters s) n)
         else vec_ctr_at (vec_counters s) n))"

lemma update_vec_step:
  assumes "n \<in> set vec_names" and "shape_ok s"
  shows "succeeds (update_vec n s) (vec_stepped {n} s)"
proof -
  obtain v e where ve: "vec_counters s n = Some v" "epoch_vec_counters s n = Some e" "length e = length v"
    using assms unfolding shape_ok_def vec_ok_def by blast
  have "vec_ok (s\<lparr>vec_counters := (vec_counters s)(n \<mapsto> map2 (+) v e)\<rparr>) m" if "m \<in> set vec_names" for m
    using assms(2) that ve by (auto simp: shape_ok_def vec_ok_def)
  moreover have "histo_ok (s\<lparr>vec_counters := x\<rparr>) m = histo_ok s m" for m x by (simp add: histo_ok_def)
  ultimately show ?thesis
    using assms(2) add_at_all [OF ve(3)] ve by (simp add: update_vec_def vec_stepped_def vec_ctr_at_def shape_ok_def)
qed

lemma update_vecs_step:
  "distinct ns \<Longrightarrow> set ns \<subseteq> set vec_names \<Longrightarrow> shape_ok s \<Longrightarrow> succeeds (fold_res update_vec ns s) (vec_stepped (set ns) s)"
proof (induction ns arbitrary: s)
  case (Cons n ns)
  show ?case
    unfolding fold_res.simps
  proof (rule succeeds_bindI [OF update_vec_step])
    fix s2 assume s2: "vec_stepped {n} s s2"
    then have "succeeds (fold_res update_vec ns s2) (vec_stepped (set ns) s2)"
      by (intro Cons.IH) (use Cons.prems in \<open>auto simp: vec_stepped_def\<close>)
    then show "succeeds (fold_res update_vec ns s2) (vec_stepped (set (n # ns)) s)"
      by (rule succeeds_mono) (use s2 Cons.prems(1) in \<open>auto simp: vec_stepped_def\<close>)
  qed (use Cons.prems in auto)
qed (simp add: vec_stepped_def)

lemma UpdateCounters_step:
  assumes "shape_ok s"
  shows "succeeds (UpdateCounters s) (\<lambda>s'. shape_ok s' \<and> epoch_counters s' = epoch_counters s \<and>
    epoch_vec_counters s' = epoch_vec_counters s \<and> epoch_histo_counts s' = epoch_histo_counts s \<and>
    histo_bins s' = histo_bins s \<and> histo_counts s' = histo_counts s \<and> (\<forall>n. GetCtr n s' = total n s) \<and>
    (\<forall>n \<in> set vec_names. vec_ctr_at (vec_counters s') n =
       map2 (+) (vec_ctr_at (vec_counters s) n) (vec_ctr_at (epoch_vec_counters s) n)))"
proof -
  let ?s = "s\<lparr>counters := (\<lambda>k. case epoch_counters s k of None \<Rightarrow> counters s k
      | Some v \<Rightarrow> Some (ctr_at (counters s) k + v))\<rparr>"
  have "shape_ok ?s" using assms by (simp add: shape_ok_def histo_ok_def vec_ok_def)
  moreover have "distinct vec_names" by (simp add: vec_names_def vec_stats_def)
  ultimately have "succeeds (UpdateCounters s) (vec_stepped (set vec_names) ?s)"
    using update_vecs_step [of vec_names ?s] by (simp add: UpdateCounters_def)
  moreover have "GetCtr n s' = total n s" if "counters s' = counters ?s" for n s'
    using that by (simp add: total_def GetCtr_def GetECtr_def ctr_at_def split: option.splits)
  ultimately show ?thesis
    by (elim succeeds_mono) (auto simp: vec_stepped_def)
qed

text \<open>What a roll-over does to the statistics: every counter, vector element and histogram count of the epoch
  is added to its total, every sample of the epoch goes into a bin, and the epoch starts again empty.\<close>

definition rolled_over :: "SimpleStats \<Rightarrow> SimpleStats \<Rightarrow> bool" where
  "rolled_over s s' \<longleftrightarrow>
     (\<forall>n. total n s' = total n s \<and> GetECtr n s' = 0) \<and>
     (\<forall>n \<in> set vec_names. vec_ctr_at (vec_counters s') n =
          map2 (+) (vec_ctr_at (vec_counters s) n) (vec_ctr_at (epoch_vec_counters s) n) \<and>
        vec_ctr_at (epoch_vec_counters s') n = map (\<lambda>_. 0) (vec_ctr_at (epoch_vec_counters s) n)) \<and>
     (\<forall>n \<in> set histo_names. binned n s' = binned n s + samples n s \<and>
        histo_at (histo_counts s') n =
          merge_counts (histo_at (epoch_histo_counts s) n) (histo_at (histo_counts s) n)) \<and>
     (\<forall>n. histo_at (epoch_histo_counts s') n = [])"

lemma UpdateEpochStats_ok:
  assumes "shape_ok s"
  shows "succeeds (UpdateEpochStats s) (\<lambda>s'. shape_ok s' \<and> rolled_over s s' \<and> (\<forall>nr. stats_wf nr s \<longrightarrow> stats_wf nr s'))"
  unfolding UpdateEpochStats_def
proof (rule succeeds_bindI [OF UpdateCounters_step [OF assms]], elim conjE)
  fix s1 assume s1: "shape_ok s1" "epoch_counters s1 = epoch_counters s" "epoch_vec_counters s1 = epoch_vec_counters s"
    "epoch_histo_counts s1 = epoch_histo_counts s"
    "histo_bins s1 = histo_bins s" "histo_counts s1 = histo_counts s" "\<forall>n. GetCtr n s1 = total n s"
    "\<forall>n \<in> set vec_names. vec_ctr_at (vec_counters s1) n =
       map2 (+) (vec_ctr_at (vec_counters s) n) (vec_ctr_at (epoch_vec_counters s) n)"
  have bins: "binned n s1 = binned n s" "samples n s1 = samples n s" for n
    using s1(4,5) by (simp_all add: binned_def samples_def)
  let ?reset = "\<lambda>s2. s2\<lparr>epoch_counters := map_option (\<lambda>_. 0) \<circ> epoch_counters s2,
      epoch_vec_counters := map_option (map (\<lambda>_. 0)) \<circ> epoch_vec_counters s2,
      epoch_histo_counts := map_option (\<lambda>_. []) \<circ> epoch_histo_counts s2\<rparr>"
  have "shape_ok (?reset s2) \<and> rolled_over s (?reset s2) \<and> (\<forall>nr. stats_wf nr s \<longrightarrow> stats_wf nr (?reset s2))"
    if s2: "histo_stepped (set histo_names) s1 s2" for s2
  proof -
    have "histo_ok (?reset s2) n = histo_ok s2 n" "vec_ok (?reset s2) n = vec_ok s2 n" for n
      by (auto simp: histo_ok_def vec_ok_def split: option.splits)
    then have shape: "shape_ok (?reset s2)" using s2 by (simp add: histo_stepped_def shape_ok_def)
    have "total n (?reset s2) = total n s \<and> GetECtr n (?reset s2) = 0" for n
      using s1(7) s2 by (simp add: total_def GetCtr_def GetECtr_def histo_stepped_def ctr_at_def split: option.splits)
    moreover have "vec_ctr_at (epoch_vec_counters (?reset s2)) n = map (\<lambda>_. 0) (vec_ctr_at (epoch_vec_counters s) n)" for n
      using s1(3) s2 by (simp add: vec_ctr_at_def histo_stepped_def split: option.splits)
    moreover have "binned n (?reset s2) = binned n s2" "histo_at (epoch_histo_counts (?reset s2)) n = []" for n
      by (simp_all add: binned_def histo_at_def split: option.splits)
    ultimately have "rolled_over s (?reset s2)"
      using s2 bins s1(4,6,8) by (simp add: rolled_over_def histo_stepped_def)
    moreover have "vec_len_is (?reset s2) k m = vec_len_is s k m" for k m
      using s1(3) s2 by (simp add: vec_len_is_def histo_stepped_def split: option.splits)
    ultimately show ?thesis using shape by (simp add: stats_wf_def)
  qed
  then show "succeeds (bind_res (UpdateHistoBins s1) (\<lambda>s2. Inr (?reset s2)))
      (\<lambda>s'. shape_ok s' \<and> rolled_over s s' \<and> (\<forall>nr. stats_wf nr s \<longrightarrow> stats_wf nr s'))"
    by (intro succeeds_bindI [OF UpdateHistoBins_step [OF s1(1)]]) simp
qed

text \<open>C18. The roll-over at the end of an epoch always succeeds (every sample of a histogram has a bin inside
  the vector), and it loses no event: every counter keeps the sum of its total and of the running epoch;
  every vector of totals grows, element by element, by the vector of the epoch; the count of every value in
  every histogram grows by its count in the epoch, and the bins grow by exactly the number of samples of the
  epoch.  The epoch starts again with zero counters, zero vectors and empty histograms.\<close>

theorem epoch_rollover_keeps_totals:
  assumes "shape_ok s" and "counts_ok s"
  shows "succeeds (UpdateEpochStats s) (\<lambda>s'. shape_ok s' \<and> counts_ok s' \<and>
    (\<forall>n. total n s' = total n s \<and> GetECtr n s' = 0) \<and>
    (\<forall>n \<in> set vec_names. vec_ctr_at (vec_counters s') n =
         map2 (+) (vec_ctr_at (vec_counters s) n) (vec_ctr_at (epoch_vec_counters s) n) \<and>
       vec_ctr_at (epoch_vec_counters s') n = map (\<lambda>_. 0) (vec_ctr_at (epoch_vec_counters s) n)) \<and>
    (\<forall>n \<in> set histo_names. binned n s' = binned n s + samples n s \<and>
       (\<forall>v. count_at v (histo_at (histo_counts s') n) =
          count_at v (histo_at (histo_counts s) n) + count_at v (histo_at (epoch_histo_counts s) n)) \<and>
       histo_at (epoch_histo_counts s') n = []))"
  by (rule succeeds_mono [OF UpdateEpochStats_ok [OF assms(1)]])
    (use assms(2) in \<open>simp add: rolled_over_def counts_ok_def count_at_merge\<close>)

theorem epoch_rollover_keeps_totals_witness:
  "succeeds (UpdateEpochStats (AddValue ''read_latency'' 250 (Increment ''num_cycles'' (new_SimpleStats 2))))
     (\<lambda>s. GetECtr ''num_cycles'' s = 0 \<and> count_at 250 (histo_at (histo_counts s) ''read_latency'') = 1)"
proof -
  let ?s = "AddValue ''read_latency'' 250 (Increment ''num_cycles'' (new_SimpleStats 2))"
  have shape: "shape_ok ?s" using new_SimpleStats_shape [of 2] by simp
  have "counts_ok (new_SimpleStats 2)" using new_SimpleStats_counts [of 2] by (simp add: counts_ok_def)
  then have "counts_ok ?s" by simp
  moreover have "count_at 250 (histo_at (histo_counts ?s) ''read_latency'') = 0"
      "count_at 250 (histo_at (epoch_histo_counts ?s) ''read_latency'') = 1" "''read_latency'' \<in> set histo_names"
    using new_SimpleStats_counts [of 2] by (simp_all add: AddValue_def Increment_def histo_at_def count_at_put histo_names_def
        histo_stats_def count_at_def histo_put_def)
  ultimately show ?thesis using epoch_rollover_keeps_totals [OF shape] by (auto elim!: succeeds_mono)
qed

end
