(* ===== verification/Controller.thy ===== *)
theory Controller
  imports Command_Queue Refresh Stats_Epoch
begin

text \<open>
  The memory controller of a channel (\<open>DRAMsim3/src/controller.h\<close> and \<open>controller.cc\<close>): transaction
  queues, the pending reads and writes, the choice of the command of a cycle and the completion of
  transactions.  The multimaps are association lists in insertion order; \<open>find\<close> returns the oldest
  entry of a key.  \<open>capacity()\<close> of a queue is the size reserved by the constructor, which
  \<open>WillAcceptTransaction\<close> keeps it from exceeding.  The builds with \<open>THERMAL\<close> and \<open>CMD_TRACE\<close> and the
  printing of statistics are left out.
\<close>

section \<open>State\<close>

record Controller =
  ctl_clk :: u64
  channel_state :: ChannelState
  cmd_queue :: CommandQueue
  refresh :: Refresh
  is_unified_queue :: bool
  unified_trans :: "Transaction list"
  read_queue :: "Transaction list"
  write_buffer :: "Transaction list"
  trans_capacity :: u64
  clk_last_write_drain :: u64
  clk_last_opp_write_drain :: u64
  pending_rd_q :: "(u64 \<times> Transaction) list"
  pending_wr_q :: "(u64 \<times> Transaction) list"
  return_queue :: "Transaction list"
  ctl_row_buf_policy :: RowBufPolicy
  last_trans_clk :: u64
  write_draining :: int

definition on_stats :: "(SimpleStats \<Rightarrow> SimpleStats) \<Rightarrow> Controller \<Rightarrow> Controller" where
  "on_stats f t =
     (let ch = channel_state t; sh = shared ch
      in t\<lparr>channel_state := ch\<lparr>shared := sh\<lparr>simple_stats := f (simple_stats sh)\<rparr>\<rparr>\<rparr>)"

abbreviation ctl_stats :: "Controller \<Rightarrow> SimpleStats" where
  "ctl_stats t \<equiv> simple_stats (shared (channel_state t))"

definition new_Controller :: "Config \<Rightarrow> u64 \<Rightarrow> Shared \<Rightarrow> Controller res" where
  "new_Controller c m sh =
     (let sh = sh\<lparr>simple_stats := new_SimpleStats (ranks c)\<rparr> in
      bind_res (new_ChannelState c m sh) (\<lambda>ch.
      bind_res (new_CommandQueue c) (\<lambda>q.
      bind_res (new_Refresh c) (\<lambda>r.
      Inr \<lparr>ctl_clk = 0, channel_state = ch, cmd_queue = q, refresh = r, is_unified_queue = unified_queue c,
           unified_trans = [], read_queue = [], write_buffer = [], trans_capacity = to_u64 (trans_queue_size c),
           clk_last_write_drain = 0, clk_last_opp_write_drain = 0, pending_rd_q = [], pending_wr_q = [],
           return_queue = [], ctl_row_buf_policy = row_buf_policy c, last_trans_clk = 0, write_draining = 0\<rparr>))))"

section \<open>Accepting transactions\<close>

definition mm_count :: "(u64 \<times> Transaction) list \<Rightarrow> u64 \<Rightarrow> nat" where
  "mm_count m a = length (filter (\<lambda>e. fst e = a) m)"

definition Controller_WillAcceptTransaction :: "Build \<Rightarrow> Controller \<Rightarrow> bool \<Rightarrow> bool" where
  "Controller_WillAcceptTransaction bo t is_w \<longleftrightarrow>
     (if is_unified_queue t then size_u64 (unified_trans t) < trans_capacity t
      else if \<not> is_w then size_u64 (read_queue t) < trans_capacity t
      else if WB_HAS_INF_CAPACITY bo then True
      else size_u64 (write_buffer t) < trans_capacity t)"

definition Controller_AddTransaction :: "Transaction \<Rightarrow> Controller \<Rightarrow> bool \<times> Controller" where
  "Controller_AddTransaction tr t =
     (let tr = tr\<lparr>added_cycle := ctl_clk t\<rparr>;
          t = on_stats (AddValue ''interarrival_latency'' (u64_to_int (ctl_clk t - last_trans_clk t))) t;
          t = t\<lparr>last_trans_clk := ctl_clk t\<rparr>;
          done_next = tr\<lparr>complete_cycle := ctl_clk t + 1\<rparr>
      in if is_write tr then
           (let t = (if mm_count (pending_wr_q t) (trans_addr tr) = 0 then
                       (let t = t\<lparr>pending_wr_q := pending_wr_q t @ [(trans_addr tr, tr)]\<rparr>
                        in if is_unified_queue t then t\<lparr>unified_trans := unified_trans t @ [tr]\<rparr>
                           else t\<lparr>write_buffer := write_buffer t @ [tr]\<rparr>)
                     else t)
            in (True, t\<lparr>return_queue := return_queue t @ [done_next]\<rparr>))
         else if mm_count (pending_wr_q t) (trans_addr tr) > 0 then
           (True, t\<lparr>return_queue := return_queue t @ [done_next]\<rparr>)
         else
           (let t = t\<lparr>pending_rd_q := pending_rd_q t @ [(trans_addr tr, tr)]\<rparr>
            in if mm_count (pending_rd_q t) (trans_addr tr) = 1 then
                 (True, if is_unified_queue t then t\<lparr>unified_trans := unified_trans t @ [tr]\<rparr>
                        else t\<lparr>read_queue := read_queue t @ [tr]\<rparr>)
               else (True, t)))"

text \<open>The first completed transaction is taken off; \<open>(-1, -1)\<close> when there is none.\<close>

definition ReturnDoneTrans :: "u64 \<Rightarrow> Controller \<Rightarrow> (u64 \<times> int) \<times> Controller" where
  "ReturnDoneTrans clk t =
     (case find (\<lambda>r. clk \<ge> complete_cycle r) (return_queue t) of
        None \<Rightarrow> ((-1, -1), t)
      | Some r \<Rightarrow>
          (let t' = (if is_write r then on_stats (Increment ''num_writes_done'') t
                     else on_stats (AddValue ''read_latency'' (u64_to_int (ctl_clk t - added_cycle r)))
                            (on_stats (Increment ''num_reads_done'') t))
           in ((trans_addr r, of_bool (is_write r)),
               t'\<lparr>return_queue := erase_first (\<lambda>r. clk \<ge> complete_cycle r) (return_queue t')\<rparr>)))"

section \<open>From transactions to commands\<close>

fun same_row_pending :: "Config \<Rightarrow> Address \<Rightarrow> Transaction list \<Rightarrow> bool res" where
  "same_row_pending c a [] = Inr False"
| "same_row_pending c a (p # ps) =
     bind_res (AddressMapping c (trans_addr p)) (\<lambda>b.
     if row b = row a \<and> rank b = rank a \<and> bankgroup b = bankgroup a \<and> bank b = bank a then Inr True
     else same_row_pending c a ps)"

definition TransToCommand ::
  "Build \<Rightarrow> Config \<Rightarrow> RowBufPolicy \<Rightarrow> Transaction \<Rightarrow> Transaction list \<Rightarrow> Command res" where
  "TransToCommand bo c policy tr rest =
     bind_res (AddressMapping c (trans_addr tr)) (\<lambda>a.
     let plain = (if is_write tr then WRITE else READ);
         pre = (if is_write tr then WRITE_PRECHARGE else READ_PRECHARGE);
         pre2 = (if is_write tr then WRITE_PRECHARGE2 else READ_PRECHARGE2)
     in bind_res
          (if policy = CLOSE_PAGE then Inr (if USE_PRAC bo \<ge> 1 then pre2 else pre)
           else if policy = SOFT_CLOSE_PAGE then
             bind_res (same_row_pending c a rest) (\<lambda>request_exist. Inr (if request_exist then plain else pre))
           else Inr plain) (\<lambda>t.
        Inr (mk_Command t a (trans_addr tr))))"

text \<open>The scan of the transaction queue: the first transaction whose command queue has room is moved,
  unless it is a write that must wait for a read.\<close>

datatype sched_result = Sched_None | Sched_Stop | Sched_Take Command

fun sched_scan ::
  "Build \<Rightarrow> Config \<Rightarrow> Controller \<Rightarrow> Transaction list \<Rightarrow> Transaction list \<Rightarrow>
     (sched_result \<times> Transaction list) res" where
  "sched_scan bo c t prev [] = Inr (Sched_None, prev)"
| "sched_scan bo c t prev (tr # rest) =
     bind_res (TransToCommand bo c (ctl_row_buf_policy t) tr rest) (\<lambda>cmd.
     bind_res (WillAcceptCommand c (cmd_queue t) (Rank cmd) (Bankgroup cmd) (Bank cmd)) (\<lambda>ok.
     if ok then
       (if \<not> is_unified_queue t \<and> IsWrite cmd \<and> mm_count (pending_rd_q t) (trans_addr tr) > 0
        then Inr (Sched_Stop, prev @ tr # rest)
        else Inr (Sched_Take cmd, prev @ rest))
     else sched_scan bo c t (prev @ [tr]) rest))"

definition start_write_drain :: "Build \<Rightarrow> Controller \<Rightarrow> Controller" where
  "start_write_drain bo t =
     (if write_draining t = 0 \<and> \<not> is_unified_queue t then
        (let opportunistic = (size_u64 (write_buffer t) > 8 \<and> QueueEmpty (cmd_queue t)) in
         if (if WB_HAS_INF_CAPACITY bo then opportunistic
             else size_u64 (write_buffer t) \<ge> trans_capacity t \<or> opportunistic) then
           (let t = t\<lparr>write_draining := int (length (write_buffer t))\<rparr>;
                t = on_stats (Increment ''num_write_drains'') t;
                t = on_stats (AddValue ''t_btwn_write_drains'' (u64_to_int (ctl_clk t - clk_last_write_drain t))) t;
                t = t\<lparr>clk_last_write_drain := ctl_clk t\<rparr>
            in if QueueEmpty (cmd_queue t) then
                 (let t = on_stats (Increment ''num_opp_write_drains'') t;
                      t = (if ctl_clk t > 10000000 then on_stats (Increment ''num_opp_write_drains_post_10M'') t else t);
                      t = on_stats (AddValue ''t_btwn_opp_write_drains''
                            (u64_to_int (ctl_clk t - clk_last_opp_write_drain t))) t
                  in t\<lparr>clk_last_opp_write_drain := ctl_clk t\<rparr>)
               else t)
         else t)
      else t)"

definition trans_source :: "Controller \<Rightarrow> Transaction list" where
  "trans_source t =
     (if is_unified_queue t then unified_trans t
      else if write_draining t > 0 then write_buffer t else read_queue t)"

definition set_trans_source :: "Transaction list \<Rightarrow> Controller \<Rightarrow> Controller" where
  "set_trans_source qs t =
     (if is_unified_queue t then t\<lparr>unified_trans := qs\<rparr>
      else if write_draining t > 0 then t\<lparr>write_buffer := qs\<rparr> else t\<lparr>read_queue := qs\<rparr>)"

definition ScheduleTransaction :: "Build \<Rightarrow> Config \<Rightarrow> Controller \<Rightarrow> Controller res" where
  "ScheduleTransaction bo c t =
     (let t = start_write_drain bo t in
      bind_res (sched_scan bo c t [] (trans_source t)) (\<lambda>(r, qs).
      case r of
        Sched_None \<Rightarrow> Inr t
      | Sched_Stop \<Rightarrow> Inr (t\<lparr>write_draining := 0\<rparr>)
      | Sched_Take cmd \<Rightarrow>
          (let t' = set_trans_source qs t;
               t' = (if \<not> is_unified_queue t \<and> IsWrite cmd then t'\<lparr>write_draining := write_draining t - 1\<rparr> else t')
           in bind_res (AddCommand c cmd (cmd_queue t')) (\<lambda>(_, q). Inr (t'\<lparr>cmd_queue := q\<rparr>)))))"

section \<open>Issuing a command\<close>

definition row_was_hit :: "Controller \<Rightarrow> Command \<Rightarrow> bool res" where
  "row_was_hit t cmd =
     bind_res (RowHitCount (channel_state t) (Rank cmd) (Bankgroup cmd) (Bank cmd)) (\<lambda>n. Inr (n \<noteq> 0))"

text \<open>The case of \<open>PRECHARGE2\<close> falls through into that of \<open>PRECHARGE\<close>.\<close>

definition UpdateCommandStats :: "Command \<Rightarrow> Controller \<Rightarrow> Controller res" where
  "UpdateCommandStats cmd t =
     (let inc = (\<lambda>n. Inr (on_stats (Increment n) t)) in
      case cmd_type cmd of
        READ \<Rightarrow> bind_res (row_was_hit t cmd) (\<lambda>hit.
          let t = on_stats (Increment ''num_read_cmds'') t
          in Inr (if hit then on_stats (Increment ''num_read_row_hits'') t else t))
      | READ_PRECHARGE \<Rightarrow> bind_res (row_was_hit t cmd) (\<lambda>hit.
          let t = on_stats (Increment ''num_read_cmds'') t
          in Inr (if hit then on_stats (Increment ''num_read_row_hits'') t else t))
      | READ_PRECHARGE2 \<Rightarrow> bind_res (row_was_hit t cmd) (\<lambda>hit.
          let t = on_stats (Increment ''num_read_cmds'') t
          in Inr (if hit then on_stats (Increment ''num_read_row_hits'') t else t))
      | WRITE \<Rightarrow> bind_res (row_was_hit t cmd) (\<lambda>hit.
          let t = on_stats (Increment ''num_write_cmds'') t
          in Inr (if hit then on_stats (Increment ''num_write_row_hits'') t else t))
      | WRITE_PRECHARGE \<Rightarrow> bind_res (row_was_hit t cmd) (\<lambda>hit.
          let t = on_stats (Increment ''num_write_cmds'') t
          in Inr (if hit then on_stats (Increment ''num_write_row_hits'') t else t))
      | WRITE_PRECHARGE2 \<Rightarrow> bind_res (row_was_hit t cmd) (\<lambda>hit.
          let t = on_stats (Increment ''num_write_cmds'') t
          in Inr (if hit then on_stats (Increment ''num_write_row_hits'') t else t))
      | ACTIVATE \<Rightarrow> inc ''num_act_cmds''
      | RFMab \<Rightarrow> inc ''num_rfmab_cmds''
      | RFMsb \<Rightarrow> inc ''num_rfmsb_cmds''
      | PRECHARGE2 \<Rightarrow> Inr (on_stats (Increment ''num_pre_cmds'') (on_stats (Increment ''num_pre2_cmds'') t))
      | PRECHARGE \<Rightarrow> inc ''num_pre_cmds''
      | REFab \<Rightarrow> inc ''num_refab_cmds''
      | REFsb \<Rightarrow> inc ''num_refsb_cmds''
      | REFRESH_BANK \<Rightarrow> inc ''num_refb_cmds''
      | SREF_ENTER \<Rightarrow> inc ''num_srefe_cmds''
      | SREF_EXIT \<Rightarrow> inc ''num_srefx_cmds''
      | CMD_SIZE \<Rightarrow> Inl AbruptExit)"

text \<open>All pending reads of the address complete together, oldest first.\<close>

definition complete_reads :: "Config \<Rightarrow> u64 \<Rightarrow> Controller \<Rightarrow> Controller" where
  "complete_reads c a t =
     (let at = (\<lambda>e. fst e = a);
          finished = map (\<lambda>e. (snd e)\<lparr>complete_cycle := ctl_clk t + to_u64 (read_delay c)\<rparr>) (filter at (pending_rd_q t))
      in t\<lparr>return_queue := return_queue t @ finished, pending_rd_q := filter (\<lambda>e. \<not> at e) (pending_rd_q t)\<rparr>)"

definition retire_pending :: "Config \<Rightarrow> Command \<Rightarrow> Controller \<Rightarrow> Controller res" where
  "retire_pending c cmd t =
     (if IsRead cmd then
        (if mm_count (pending_rd_q t) (hex_addr cmd) = 0 then Inl (ExitWith 1)
         else Inr (complete_reads c (hex_addr cmd) t))
      else if IsWrite cmd then
        (case find (\<lambda>e. fst e = hex_addr cmd) (pending_wr_q t) of
           None \<Rightarrow> Inl (ExitWith 1)
         | Some e \<Rightarrow>
             (let wr_lat = ctl_clk t - added_cycle (snd e) + to_u64 (write_delay c);
                  t = on_stats (AddValue ''write_latency'' (u64_to_int wr_lat)) t
              in Inr (t\<lparr>pending_wr_q := erase_first (\<lambda>e. fst e = hex_addr cmd) (pending_wr_q t)\<rparr>)))
      else Inr t)"

definition IssueCommand :: "Build \<Rightarrow> Config \<Rightarrow> Timing \<Rightarrow> Command \<Rightarrow> Controller \<Rightarrow> Controller res" where
  "IssueCommand bo c tm cmd t =
     bind_res (retire_pending c cmd t) (\<lambda>t.
     bind_res (UpdateCommandStats cmd t) (\<lambda>t.
     bind_res (UpdateTimingAndStates bo c tm cmd (ctl_clk t) (channel_state t)) (\<lambda>ch.
     Inr (t\<lparr>channel_state := ch\<rparr>))))"

section \<open>One cycle\<close>

definition next_command :: "Build \<Rightarrow> Config \<Rightarrow> Controller \<Rightarrow> (Command \<times> Controller) res" where
  "next_command bo c t =
     bind_res
       (if IsRefreshWaiting (channel_state t) then FinishRefresh bo c (cmd_queue t, channel_state t)
        else if IsRFMWaiting (channel_state t) then FinishRFM bo c (cmd_queue t, channel_state t)
        else Inr (invalid_Command, (cmd_queue t, channel_state t))) (\<lambda>(cmd, ctx).
     bind_res (if \<not> IsValid cmd then GetCommandToIssue bo c ctx else Inr (cmd, ctx)) (\<lambda>(cmd, (q, ch)).
     Inr (cmd, t\<lparr>cmd_queue := q, channel_state := ch\<rparr>)))"

definition issue_second :: "Build \<Rightarrow> Config \<Rightarrow> Timing \<Rightarrow> Command \<Rightarrow> Controller \<Rightarrow> Controller res" where
  "issue_second bo c tm cmd t =
     (if enable_hbm_dual_cmd c then
        bind_res (GetCommandToIssue bo c (cmd_queue t, channel_state t)) (\<lambda>(second_cmd, (q, ch)).
        let t = t\<lparr>cmd_queue := q, channel_state := ch\<rparr> in
        if IsValid second_cmd \<and> IsReadWrite second_cmd \<noteq> IsReadWrite cmd then
          bind_res (IssueCommand bo c tm second_cmd t) (\<lambda>t. Inr (on_stats (Increment ''hbm_dual_cmds'') t))
        else Inr t)
      else Inr t)"

definition count_rank_cycle :: "Config \<Rightarrow> int \<Rightarrow> Controller \<Rightarrow> Controller res" where
  "count_rank_cycle c i t =
     (let ch = channel_state t;
          inc = (\<lambda>name t. bind_res (IncrementVec name i (ctl_stats t)) (\<lambda>st. Inr (on_stats (\<lambda>_. st) t)));
          set_idle = (\<lambda>f t. bind_res (vec_upd (rank_idle_cycles (channel_state t)) i f) (\<lambda>v.
            Inr (t\<lparr>channel_state := (channel_state t)\<lparr>rank_idle_cycles := v\<rparr>\<rparr>)))
      in bind_res (IsRankSelfRefreshing ch i) (\<lambda>sref.
         if sref then inc ''sref_cycles'' t
         else bind_res (IsAllBankIdleInRank c ch i) (\<lambda>all_idle.
           if all_idle then bind_res (inc ''all_bank_idle_cycles'' t) (set_idle (\<lambda>n. n + 1))
           else bind_res (inc ''rank_active_cycles'' t) (set_idle (\<lambda>_. 0)))))"

text \<open>Self refresh: the loop over the ranks ends with the first command it issues.\<close>

definition sref_command :: "CommandType \<Rightarrow> int \<Rightarrow> Command" where
  "sref_command t i = mk_Command t (default_Address\<lparr>rank := i\<rparr>) (-1)"

fun self_refresh_loop :: "Build \<Rightarrow> Config \<Rightarrow> Timing \<Rightarrow> int list \<Rightarrow> Controller \<Rightarrow> Controller res" where
  "self_refresh_loop bo c tm [] t = Inr t"
| "self_refresh_loop bo c tm (i # is) t =
     bind_res (IsRankSelfRefreshing (channel_state t) i) (\<lambda>sref.
     bind_res (vec_get (rank_q_empty (cmd_queue t)) i) (\<lambda>q_empty.
     bind_res (if sref then Inr (if \<not> q_empty then Some SREF_EXIT else None)
               else if q_empty then
                 bind_res (vec_get (rank_idle_cycles (channel_state t)) i) (\<lambda>idle.
                 Inr (if idle \<ge> sref_threshold c then Some SREF_ENTER else None))
               else Inr None) (\<lambda>wanted.
     case wanted of
       None \<Rightarrow> self_refresh_loop bo c tm is t
     | Some u \<Rightarrow>
         bind_res (ChannelState_GetReadyCommand bo c (sref_command u i) (ctl_clk t) (channel_state t)) (\<lambda>(cmd, ch).
         let t = t\<lparr>channel_state := ch\<rparr> in
         if IsValid cmd then IssueCommand bo c tm cmd t else self_refresh_loop bo c tm is t))))"

text \<open>The issue of the chosen command, the rest of the cycle (power counters, self refresh, the move of one
  transaction), and the whole cycle.\<close>

definition issue_chosen :: "Build \<Rightarrow> Config \<Rightarrow> Timing \<Rightarrow> Command \<Rightarrow> Controller \<Rightarrow> Controller res" where
  "issue_chosen bo c tm cmd t =
     (if IsValid cmd then bind_res (IssueCommand bo c tm cmd t) (issue_second bo c tm cmd) else Inr t)"

definition finish_cycle :: "Build \<Rightarrow> Config \<Rightarrow> Timing \<Rightarrow> bool \<Rightarrow> Controller \<Rightarrow> Controller res" where
  "finish_cycle bo c tm cmd_issued t =
     bind_res (fold_res (count_rank_cycle c) [0..ranks c - 1] t) (\<lambda>t.
     bind_res (if enable_self_refresh c \<and> \<not> cmd_issued then self_refresh_loop bo c tm [0..ranks c - 1] t else Inr t) (\<lambda>t.
     bind_res (ScheduleTransaction bo c t) (\<lambda>t.
     Inr (on_stats (Increment ''num_cycles'')
            (t\<lparr>ctl_clk := ctl_clk t + 1, cmd_queue := CommandQueue_ClockTick (cmd_queue t)\<rparr>)))))"

definition Controller_ClockTick :: "Build \<Rightarrow> Config \<Rightarrow> Timing \<Rightarrow> Controller \<Rightarrow> Controller res" where
  "Controller_ClockTick bo c tm t =
     bind_res (Refresh_ClockTick c (refresh t, channel_state t)) (\<lambda>(r, ch).
     bind_res (next_command bo c (t\<lparr>refresh := r, channel_state := ch\<rparr>)) (\<lambda>(cmd, t).
     bind_res (issue_chosen bo c tm cmd t) (finish_cycle bo c tm (IsValid cmd))))"

definition Controller_QueueUsage :: "Controller \<Rightarrow> int" where
  "Controller_QueueUsage t = CommandQueue_QueueUsage (cmd_queue t)"

section \<open>Statistics\<close>

definition Controller_PrintEpochStats :: "Controller \<Rightarrow> Controller res" where
  "Controller_PrintEpochStats t =
     bind_res (SimpleStats_PrintEpochStats (Increment ''epoch_num'' (ctl_stats t))) (\<lambda>s. Inr (on_stats (\<lambda>_. s) t))"

definition Controller_PrintFinalStats :: "Controller \<Rightarrow> Controller res" where
  "Controller_PrintFinalStats t =
     bind_res (SimpleStats_PrintFinalStats (ctl_stats t)) (\<lambda>s. Inr (on_stats (\<lambda>_. s) t))"

definition Controller_ResetStats :: "Controller \<Rightarrow> Controller" where
  "Controller_ResetStats t = on_stats Reset t"

end
