(* ===== verification/DRAM_System.thy ===== *)
theory DRAM_System
  imports Controller
begin

text \<open>
  The memory systems (\<open>DRAMsim3/src/dram_system.h\<close> and \<open>dram_system.cc\<close>): the routing of transactions to the
  controllers of the channels, a clock cycle of all of them, and the ideal memory of fixed latency.  The
  calls of the registered callbacks during a cycle are the list of accesses the cycle returns, in the
  order of the calls; the callbacks themselves belong to the client.  The static variables of
  \<open>bankstate.cc\<close> are shared by all channels: each controller runs on the values the one before it left.
  Output files, the address trace and the thermal build are left out.
\<close>

section \<open>State\<close>

record DRAMSystem =
  sys_clk :: u64
  last_req_clk :: u64
  ctrls :: "Controller list"
  statics :: Shared

text \<open>The shared variables of a controller, and a controller run on the given ones.\<close>

definition statics_of :: "Controller \<Rightarrow> Shared" where
  "statics_of t = shared (channel_state t)"

definition with_statics :: "Shared \<Rightarrow> Controller \<Rightarrow> Controller" where
  "with_statics sh t =
     (let ch = channel_state t
      in t\<lparr>channel_state := ch\<lparr>shared := sh\<lparr>simple_stats := simple_stats (shared ch)\<rparr>\<rparr>\<rparr>)"

definition new_JedecDRAMSystem :: "Config \<Rightarrow> u64 \<Rightarrow> Shared \<Rightarrow> DRAMSystem res" where
  "new_JedecDRAMSystem c m sh =
     (if IsHMC c then Inl AbruptExit
      else
        bind_res (fold_res (\<lambda>_ (ts, sh).
          bind_res (new_Controller c m sh) (\<lambda>t. Inr (ts @ [t], statics_of t))) [0..channels c - 1] ([], sh)) (\<lambda>(ts, sh).
        Inr \<lparr>sys_clk = 0, last_req_clk = 0, ctrls = ts, statics = sh\<rparr>))"

section \<open>Requests\<close>

definition GetChannel :: "Config \<Rightarrow> u64 \<Rightarrow> int res" where
  "GetChannel c hex = bind_res (shr_u64 hex (shift_bits c)) (\<lambda>h. addr_field h (ch_pos c) (ch_mask c))"

definition Jedec_WillAcceptTransaction :: "Build \<Rightarrow> Config \<Rightarrow> DRAMSystem \<Rightarrow> u64 \<Rightarrow> bool \<Rightarrow> bool res" where
  "Jedec_WillAcceptTransaction bo c s hex is_w =
     bind_res (GetChannel c hex) (\<lambda>k.
     bind_res (vec_get (ctrls s) k) (\<lambda>t. Inr (Controller_WillAcceptTransaction bo t is_w)))"

definition Jedec_AddTransaction :: "Build \<Rightarrow> Config \<Rightarrow> u64 \<Rightarrow> bool \<Rightarrow> DRAMSystem \<Rightarrow> (bool \<times> DRAMSystem) res" where
  "Jedec_AddTransaction bo c hex is_w s =
     bind_res (GetChannel c hex) (\<lambda>k.
     bind_res (vec_get (ctrls s) k) (\<lambda>t.
     let ok = Controller_WillAcceptTransaction bo t is_w in
     bind_res (require AssertionFailed ok) (\<lambda>_.
     let t' = snd (Controller_AddTransaction (mk_Transaction hex is_w) t) in
     bind_res (vec_set (ctrls s) k t') (\<lambda>ts.
     Inr (ok, s\<lparr>ctrls := ts, last_req_clk := sys_clk s\<rparr>)))))"

section \<open>A cycle\<close>

text \<open>The loop that returns the completed transactions of a controller ends, since each round removes one.\<close>

lemma ReturnDoneTrans_shrinks:
  assumes "ReturnDoneTrans clk t = ((a, w), t')" and "w = 1 \<or> w = 0"
  shows "length (return_queue t') < length (return_queue t)"
proof -
  have len: "find p xs = Some x \<Longrightarrow> length (erase_first p xs) < length xs" for p :: "Transaction \<Rightarrow> bool" and xs x
    by (induction xs) (auto split: if_splits)
  show ?thesis
    using assms by (auto simp: ReturnDoneTrans_def Let_def on_stats_def len split: option.splits if_splits)
qed

function drain_done :: "u64 \<Rightarrow> Controller \<Rightarrow> (u64 \<times> bool) list \<times> Controller" where
  "drain_done clk t =
     (case ReturnDoneTrans clk t of ((a, w), t') \<Rightarrow>
        if w = 1 then (let r = drain_done clk t' in ((a, True) # fst r, snd r))
        else if w = 0 then (let r = drain_done clk t' in ((a, False) # fst r, snd r))
        else ([], t'))"
  by pat_completeness auto
termination
  by (relation "measure (\<lambda>(_, t). length (return_queue t))") (auto dest: ReturnDoneTrans_shrinks [OF sym])

declare drain_done.simps [simp del]

definition drain_all :: "u64 \<Rightarrow> Controller list \<Rightarrow> (u64 \<times> bool) list \<times> Controller list" where
  "drain_all clk ts = (let rs = map (drain_done clk) ts in (concat (map fst rs), map snd rs))"

fun tick_all :: "Build \<Rightarrow> Config \<Rightarrow> Timing \<Rightarrow> Controller list \<Rightarrow> Shared \<Rightarrow> (Controller list \<times> Shared) res" where
  "tick_all bo c tm [] sh = Inr ([], sh)"
| "tick_all bo c tm (t # ts) sh =
     bind_res (Controller_ClockTick bo c tm (with_statics sh t)) (\<lambda>t'.
     bind_res (tick_all bo c tm ts (statics_of t')) (\<lambda>(ts', sh'). Inr (t' # ts', sh')))"

fun print_epoch_all :: "Controller list \<Rightarrow> Controller list res" where
  "print_epoch_all [] = Inr []"
| "print_epoch_all (t # ts) =
     bind_res (Controller_PrintEpochStats t) (\<lambda>t'. bind_res (print_epoch_all ts) (\<lambda>ts'. Inr (t' # ts')))"

definition Jedec_PrintEpochStats :: "DRAMSystem \<Rightarrow> DRAMSystem res" where
  "Jedec_PrintEpochStats s = bind_res (print_epoch_all (ctrls s)) (\<lambda>ts. Inr (s\<lparr>ctrls := ts\<rparr>))"

definition Jedec_ResetStats :: "DRAMSystem \<Rightarrow> DRAMSystem" where
  "Jedec_ResetStats s = s\<lparr>ctrls := map Controller_ResetStats (ctrls s)\<rparr>"

definition Jedec_ClockTick :: "Build \<Rightarrow> Config \<Rightarrow> Timing \<Rightarrow> DRAMSystem \<Rightarrow> ((u64 \<times> bool) list \<times> DRAMSystem) res" where
  "Jedec_ClockTick bo c tm s =
     (let (es, ts) = drain_all (sys_clk s) (ctrls s) in
      bind_res (tick_all bo c tm ts (statics s)) (\<lambda>(ts, sh).
      let s = s\<lparr>ctrls := ts, statics := sh, sys_clk := sys_clk s + 1\<rparr> in
      bind_res (rem_word (sys_clk s) (to_u64 (epoch_period c))) (\<lambda>m.
      bind_res (if m = 0 then Jedec_PrintEpochStats s else Inr s) (\<lambda>s. Inr (es, s)))))"

section \<open>The ideal memory\<close>

record IdealDRAMSystem =
  ideal_clk :: u64
  latency :: int
  infinite_buffer_q :: "Transaction list"

definition new_IdealDRAMSystem :: "Config \<Rightarrow> IdealDRAMSystem" where
  "new_IdealDRAMSystem c = \<lparr>ideal_clk = 0, latency = ideal_memory_latency c, infinite_buffer_q = []\<rparr>"

definition Ideal_AddTransaction :: "u64 \<Rightarrow> bool \<Rightarrow> IdealDRAMSystem \<Rightarrow> bool \<times> IdealDRAMSystem" where
  "Ideal_AddTransaction hex is_w s =
     (True, s\<lparr>infinite_buffer_q := infinite_buffer_q s @ [(mk_Transaction hex is_w)\<lparr>added_cycle := ideal_clk s\<rparr>]\<rparr>)"

definition ideal_due :: "IdealDRAMSystem \<Rightarrow> Transaction \<Rightarrow> bool" where
  "ideal_due s tr \<longleftrightarrow> ideal_clk s - added_cycle tr \<ge> to_u64 (latency s)"

text \<open>\<open>erase\<close> moves the iterator to the next element, and the loop then advances it once more.\<close>

fun ideal_scan :: "(Transaction \<Rightarrow> bool) \<Rightarrow> Transaction list \<Rightarrow> (u64 \<times> bool) list \<times> Transaction list" where
  "ideal_scan due [] = ([], [])"
| "ideal_scan due [x] = (if due x then ([(trans_addr x, is_write x)], []) else ([], [x]))"
| "ideal_scan due (x # y # xs) =
     (if due x then (let r = ideal_scan due xs in ((trans_addr x, is_write x) # fst r, y # snd r))
      else (let r = ideal_scan due (y # xs) in (fst r, x # snd r)))"

definition Ideal_ClockTick :: "IdealDRAMSystem \<Rightarrow> (u64 \<times> bool) list \<times> IdealDRAMSystem" where
  "Ideal_ClockTick s =
     (let r = ideal_scan (ideal_due s) (infinite_buffer_q s)
      in (fst r, s\<lparr>infinite_buffer_q := snd r, ideal_clk := ideal_clk s + 1\<rparr>))"

end
