(* ===== verification/Channel_Progress.thy ===== *)
theory Channel_Progress
  imports Channel_Timing
begin

text \<open>
  The state half of a channel: what a ready command guarantees about the banks it touches, progress of
  every request a well-formed channel accepts, and the spacing of commands in a run of the channel.
\<close>

text \<open>Coordinates are kept whole in the proofs below.\<close>

declare split_paired_All [simp del] split_paired_Ex [simp del]

section \<open>Issue times survive state updates\<close>

lemma close_row_timing: "on_success (close_row bo c clk (b, sh)) (\<lambda>(b', _). cmd_timing b' = cmd_timing b)"
proof -
  have "on_success (if ROWPRESS bo \<and> USE_PRAC bo = PRAC_IMPL_MOPAC
      then MopacHandleRowpress c clk (b, sh1) else Inr (b, sh1)) (\<lambda>(b', _). same_core b b')" for sh1
    using MopacHandleRowpress_core by simp
  then show ?thesis
    unfolding close_row_def prod.case Let_def
    by (rule on_success_bindI) (auto simp: same_core_def)
qed

lemma finish_refresh_timing:
  "on_success (finish_refresh bo c (b, sh)) (\<lambda>(b', _). cmd_timing b' = cmd_timing b)"
proof -
  have moat: "on_success (if moat_tracked bo then MoatHandleRef c (b1, sh1) else Inr (b1, sh1))
      (\<lambda>(b2, _). cmd_timing b2 = cmd_timing b1)" for b1 sh1
    by (auto intro!: on_success_mono [OF MoatHandleRef_core] simp: same_core_def)
  show ?thesis
    unfolding finish_refresh_def prod.case Let_def
    by (rule on_success_bindI [OF on_success_True], rule on_success_bindI [OF moat]) (auto simp: wp)
qed

lemma bank_rfm_timing: "on_success (bank_rfm bo c (b, sh)) (\<lambda>(b', _). cmd_timing b' = cmd_timing b)"
  using MopacMitigate_core [of c "b\<lparr>raa_ctr := raa_ctr b - min (raa_ctr b) (rfm_raa_decrement c)\<rparr>" sh]
    MoatMitigate_core [of "b\<lparr>raa_ctr := raa_ctr b - min (raa_ctr b) (rfm_raa_decrement c)\<rparr>" sh]
  by (auto simp: bank_rfm_def Let_def same_core_def elim!: on_success_mono)

lemma bank_activate_timing:
  "on_success (bank_activate bo c cmd clk (b, sh)) (\<lambda>(b', _). cmd_timing b' = cmd_timing b)"
  by (auto simp: bank_activate_def Let_def same_core_def wp
      intro!: on_success_mono [OF MopacCtrUpdate_core])

lemma bank_update_timing:
  "on_success (BankState_UpdateState bo c cmd clk (b, sh)) (\<lambda>(b', _). cmd_timing b' = cmd_timing b)"
proof -
  have count: "on_success (bind_res (count_open_row bo b) (\<lambda>b. close_row bo c clk (b, sh)))
      (\<lambda>(b', _). cmd_timing b' = cmd_timing b)"
    by (rule on_success_bindI [OF count_open_row_core])
      (rule on_success_mono [OF close_row_timing], auto simp: same_core_def)
  have refresh: "on_success (bank_refresh bo c (b, sh)) (\<lambda>(b', _). cmd_timing b' = cmd_timing b)"
    by (rule bank_refresh_on_success [OF finish_refresh_timing]) (simp add: same_core_def)
  show ?thesis
    using count refresh close_row_timing [of bo c clk b sh] bank_rfm_timing [of bo c b sh]
      bank_activate_timing [of bo c cmd clk b sh]
    by (cases "bank_state b")
      (auto simp: BankState_UpdateState_def Let_def simp del: on_success_bind)
qed

text \<open>Outside a refresh the activation totals keep their length, and the count grows by one at most.\<close>

definition acts_kept :: "Command \<Rightarrow> BankState \<Rightarrow> BankState \<Rightarrow> bool" where
  "acts_kept cmd b b' \<longleftrightarrow> \<not> IsRefresh cmd \<longrightarrow>
     length (total_row_acts b') = length (total_row_acts b) \<and> acts_counter b' \<le> acts_counter b + 1"

lemma acts_kept_refl [simp]: "acts_kept cmd b b"
  by (simp add: acts_kept_def)

lemma same_core_acts: "same_core b b' \<Longrightarrow> acts_kept cmd b b'"
  by (simp add: acts_kept_def same_core_def)

lemma close_row_acts: "on_success (close_row bo c clk (b, sh)) (\<lambda>(b', _). acts_kept cmd b b')"
proof -
  have "on_success (if ROWPRESS bo \<and> USE_PRAC bo = PRAC_IMPL_MOPAC
      then MopacHandleRowpress c clk (b, sh1) else Inr (b, sh1)) (\<lambda>(b', _). same_core b b')" for sh1
    using MopacHandleRowpress_core by simp
  then show ?thesis
    unfolding close_row_def prod.case Let_def
    by (rule on_success_bindI) (auto simp: same_core_def acts_kept_def)
qed

lemma bank_update_acts:
  "on_success (BankState_UpdateState bo c cmd clk (b, sh)) (\<lambda>(b', _). acts_kept cmd b b')"
proof (cases "IsRefresh cmd")
  case False
  have count: "on_success (bind_res (count_open_row bo b) (\<lambda>b. close_row bo c clk (b, sh)))
      (\<lambda>(b', _). acts_kept cmd b b')"
    by (rule on_success_bindI [OF count_open_row_core])
      (rule on_success_mono [OF close_row_acts], auto simp: same_core_def acts_kept_def)
  have rfm: "on_success (bank_rfm bo c (b, sh)) (\<lambda>(b', _). acts_kept cmd b b')"
    using MopacMitigate_core [of c "b\<lparr>raa_ctr := raa_ctr b - min (raa_ctr b) (rfm_raa_decrement c)\<rparr>" sh]
      MoatMitigate_core [of "b\<lparr>raa_ctr := raa_ctr b - min (raa_ctr b) (rfm_raa_decrement c)\<rparr>" sh]
    by (auto simp: bank_rfm_def Let_def same_core_def acts_kept_def elim!: on_success_mono)
  have act: "on_success (bank_activate bo c cmd clk (b, sh)) (\<lambda>(b', _). acts_kept cmd b b')"
    by (auto simp: bank_activate_def Let_def same_core_def acts_kept_def wp
        intro!: on_success_mono [OF MopacCtrUpdate_core])
  show ?thesis
    using count rfm act close_row_acts [of bo c clk b sh cmd] False
    by (cases "bank_state b")
      (auto simp: BankState_UpdateState_def Let_def IsRefresh_def acts_kept_def simp del: on_success_bind)
qed (auto simp: acts_kept_def intro!: on_success_always)

section \<open>State updates of the banks\<close>

definition banks_ok :: "Config \<Rightarrow> int \<Rightarrow> ChannelState \<Rightarrow> bool" where
  "banks_ok c nr ch \<longleftrightarrow>
     chan_shape c ch \<and> (\<forall>x. in_channel c x \<longrightarrow> bank_wf c (bk ch x)) \<and> shared_wf nr (shared ch)"

lemma chan_wf_banks: "chan_wf c nr ch \<Longrightarrow> banks_ok c nr ch"
  by (simp add: chan_wf_def banks_ok_def)

text \<open>What updating the banks of a list does: each makes its step of the automaton, the others and the
  rest of the channel stay.\<close>

definition banks_stepped ::
  "Config \<Rightarrow> int \<Rightarrow> Command \<Rightarrow> coord list \<Rightarrow> ChannelState \<Rightarrow> ChannelState \<Rightarrow> bool" where
  "banks_stepped c nr cmd xs ch ch' \<longleftrightarrow> banks_ok c nr ch' \<and>
     rank_is_sref ch' = rank_is_sref ch \<and> refresh_q ch' = refresh_q ch \<and> rfm_q ch' = rfm_q ch \<and>
     four_aw ch' = four_aw ch \<and> thirty_two_aw ch' = thirty_two_aw ch \<and> alert_n ch' = alert_n ch \<and>
     (\<forall>x. in_channel c x \<longrightarrow> cmd_timing (bk ch' x) = cmd_timing (bk ch x) \<and> acts_kept cmd (bk ch x) (bk ch' x) \<and>
        (if x \<in> set xs then rb_step (cmd_type cmd) (Row cmd) (abs_bank (bk ch x)) = Some (abs_bank (bk ch' x))
         else bk ch' x = bk ch x))"

lemma banks_steppedD:
  assumes "banks_stepped c nr cmd xs ch ch'" and "in_channel c x"
  shows "cmd_timing (bk ch' x) = cmd_timing (bk ch x)"
    and "x \<in> set xs \<Longrightarrow> rb_step (cmd_type cmd) (Row cmd) (abs_bank (bk ch x)) = Some (abs_bank (bk ch' x))"
    and "x \<notin> set xs \<Longrightarrow> bk ch' x = bk ch x" and "acts_kept cmd (bk ch x) (bk ch' x)"
  using assms by (auto simp: banks_stepped_def split: if_splits)

lemma rb_step_row: "rb_step t r s \<noteq> None \<longleftrightarrow> rb_step t r' s \<noteq> None"
  by (cases s) auto

lemma update_bank_succeeds:
  assumes "banks_ok c nr ch" and "cfg_wf c" and "in_channel c x" and "command_fits c (bk ch x) cmd"
    and "rb_step (cmd_type cmd) (Row cmd) (abs_bank (bk ch x)) \<noteq> None"
  shows "succeeds (update_bank bo c cmd clk x ch) (banks_stepped c nr cmd [x] ch)"
proof -
  obtain i j k where x: "x = (i, j, k)" by (cases x) auto
  have wf: "chan_shape c ch" "bank_wf c (bk ch x)" "shared_wf nr (shared ch)"
    using assms(1,3) by (auto simp: banks_ok_def)
  have step: "succeeds (BankState_UpdateState bo c cmd clk (bk ch x, shared ch)) (\<lambda>(b', sh').
      (bank_wf c b' \<and> shared_wf nr sh') \<and> rb_step (cmd_type cmd) (Row cmd) (abs_bank (bk ch x)) = Some (abs_bank b') \<and>
      cmd_timing b' = cmd_timing (bk ch x) \<and> acts_kept cmd (bk ch x) b')"
    using bank_update_succeeds [OF assms(2) wf(2,3) assms(4,5), of bo clk]
      bank_step_refines [of bo c cmd clk "bk ch x" "shared ch"]
      bank_update_timing [of bo c cmd clk "bk ch x" "shared ch"]
      bank_update_acts [of bo c cmd clk "bk ch x" "shared ch"]
    by (auto elim!: succeedsE)
  then obtain b' sh' where b': "BankState_UpdateState bo c cmd clk (bk ch x, shared ch) = Inr (b', sh')"
    "bank_wf c b'" "shared_wf nr sh'" "rb_step (cmd_type cmd) (Row cmd) (abs_bank (bk ch x)) = Some (abs_bank b')"
    "cmd_timing b' = cmd_timing (bk ch x)" "acts_kept cmd (bk ch x) b'" by (auto elim!: succeedsE)
  have "update_bank bo c cmd clk x ch = Inr (put_bank x b' (ch\<lparr>shared := sh'\<rparr>))"
    using b'(1) wf(1) assms(3) by (simp add: update_bank_def x get_bank_ok set_bank_ok)
  then show ?thesis
    using b' wf assms(1,3) by (auto simp: banks_stepped_def banks_ok_def bk_put)
qed

lemma update_banks_succeeds:
  assumes "banks_ok c nr ch" and "cfg_wf c" and "distinct xs" and "\<forall>x \<in> set xs. in_channel c x"
    and "\<forall>x \<in> set xs. command_fits c (bk ch x) cmd \<and>
           rb_step (cmd_type cmd) (Row cmd) (abs_bank (bk ch x)) \<noteq> None"
  shows "succeeds (fold_res (update_bank bo c cmd clk) xs ch) (banks_stepped c nr cmd xs ch)"
  using assms(1,3-5)
proof (induction xs arbitrary: ch)
  case Nil
  then show ?case by (simp add: banks_stepped_def)
next
  case (Cons x xs)
  have "succeeds (update_bank bo c cmd clk x ch) (banks_stepped c nr cmd [x] ch)"
    using Cons.prems by (intro update_bank_succeeds [OF _ assms(2)]) auto
  then obtain ch1 where ch1: "update_bank bo c cmd clk x ch = Inr ch1" "banks_stepped c nr cmd [x] ch ch1"
    by (rule succeedsE)
  have same: "bk ch1 y = bk ch y" if "y \<in> set xs" for y
    using banks_steppedD(3) [OF ch1(2), of y] Cons.prems(2,3) that by auto
  have "succeeds (fold_res (update_bank bo c cmd clk) xs ch1) (banks_stepped c nr cmd xs ch1)"
    by (rule Cons.IH) (use Cons.prems ch1(2) same in \<open>auto simp: banks_stepped_def\<close>)
  then obtain ch2 where ch2: "fold_res (update_bank bo c cmd clk) xs ch1 = Inr ch2" "banks_stepped c nr cmd xs ch1 ch2"
    by (rule succeedsE)
  have "cmd_timing (bk ch2 y) = cmd_timing (bk ch y) \<and> acts_kept cmd (bk ch y) (bk ch2 y) \<and>
      (if y \<in> set (x # xs) then rb_step (cmd_type cmd) (Row cmd) (abs_bank (bk ch y)) = Some (abs_bank (bk ch2 y))
       else bk ch2 y = bk ch y)" if "in_channel c y" for y
    using banks_steppedD [OF ch1(2) that] banks_steppedD [OF ch2(2) that] Cons.prems(2)
    by (cases "y = x"; cases "y \<in> set xs") auto
  then have "banks_stepped c nr cmd (x # xs) ch ch2"
    using ch1(2) ch2(2) by (simp add: banks_stepped_def)
  then show ?case using ch1(1) ch2(1) by simp
qed

definition touched :: "Config \<Rightarrow> Command \<Rightarrow> coord list" where
  "touched c cmd =
     (if IsRankCMD cmd then rank_coords c (Rank cmd)
      else if IsSbCMD cmd then bankset_coords c (Rank cmd) (Bank cmd)
      else [(Rank cmd, Bankgroup cmd, Bank cmd)])"

lemma touched_in_channel: "addr_ok c cmd \<Longrightarrow> x \<in> set (touched c cmd) \<Longrightarrow> in_channel c x"
  by (auto simp: touched_def addr_ok_def set_rank_coords set_bankset_coords in_channel_def split: if_splits)

lemma distinct_touched: "distinct (touched c cmd)"
  by (simp add: touched_def distinct_rank_coords distinct_bankset_coords)

lemma abs_bank_sref: "abs_bank b = RB_SelfRefresh \<longleftrightarrow> bank_state b = SREF"
  by (simp add: abs_bank_def split: State.split)

lemma rb_step_sref:
  "rb_step t r s = Some s' \<Longrightarrow> (s' = RB_SelfRefresh \<longleftrightarrow> t = SREF_ENTER) \<and> (s = RB_SelfRefresh \<longleftrightarrow> t = SREF_EXIT)"
  by (cases s) (auto split: if_splits)

text \<open>The self-refresh flags still describe the banks after the banks of a rank-level command stepped.\<close>

lemma sref_flags_step:
  assumes "chan_wf c nr ch" and "banks_stepped c nr cmd (touched c cmd) ch ch1" and "addr_ok c cmd"
    and "ch2 = ch1\<lparr>rank_is_sref := (if cmd_type cmd = SREF_ENTER then (rank_is_sref ch)[nat (Rank cmd) := True]
       else if cmd_type cmd = SREF_EXIT then (rank_is_sref ch)[nat (Rank cmd) := False] else rank_is_sref ch)\<rparr>"
  shows "chan_wf c nr ch2"
proof -
  have len: "int (length (rank_is_sref ch)) = ranks c" "0 \<le> Rank cmd" "Rank cmd < ranks c"
    using assms(1,3) by (auto simp: chan_wf_def chan_shape_def addr_ok_def)
  have flag: "(bank_state (bk ch1 (i, j, k)) = SREF) = rank_is_sref ch2 ! nat i" if x: "in_channel c (i, j, k)" for i j k
  proof -
    have i: "0 \<le> i" "nat i < length (rank_is_sref ch)" "(nat i = nat (Rank cmd)) = (i = Rank cmd)"
      using x len by (auto simp: in_channel_def)
    have old: "(bank_state (bk ch (i, j, k)) = SREF) = rank_is_sref ch ! nat i"
      using assms(1) x by (simp add: chan_wf_def)
    show ?thesis
    proof (cases "(i, j, k) \<in> set (touched c cmd)")
      case True
      have "(bank_state (bk ch1 (i, j, k)) = SREF) = (cmd_type cmd = SREF_ENTER)"
        "(bank_state (bk ch (i, j, k)) = SREF) = (cmd_type cmd = SREF_EXIT)"
        using rb_step_sref [OF banks_steppedD(2) [OF assms(2) x True]] by (simp_all add: abs_bank_sref)
      moreover have "i = Rank cmd" using True by (auto simp: touched_def set_rank_coords set_bankset_coords split: if_splits)
      ultimately show ?thesis
        using old i assms(4) by auto
    next
      case False
      then have "cmd_type cmd \<in> {SREF_ENTER, SREF_EXIT} \<Longrightarrow> i \<noteq> Rank cmd"
        using x by (auto simp: touched_def IsRankCMD_def set_rank_coords in_channel_def split: if_splits)
      then show ?thesis
        using banks_steppedD(3) [OF assms(2) x False] old i assms(4) by auto
    qed
  qed
  have "banks_ok c nr ch1" using assms(2) by (simp add: banks_stepped_def)
  moreover have "length (rank_is_sref ch2) = length (rank_is_sref ch)" using assms(4) by simp
  moreover have "bk ch2 = bk ch1" using assms(4) by simp
  ultimately show ?thesis
    using flag len(1) assms(4) by (simp add: chan_wf_def banks_ok_def chan_shape_def)
qed

text \<open>The fields of the channel a state update keeps, besides the banks it touches.\<close>

definition chan_stepped :: "Config \<Rightarrow> int \<Rightarrow> Command \<Rightarrow> ChannelState \<Rightarrow> ChannelState \<Rightarrow> bool" where
  "chan_stepped c nr cmd ch ch' \<longleftrightarrow> chan_wf c nr ch' \<and> four_aw ch' = four_aw ch \<and>
     thirty_two_aw ch' = thirty_two_aw ch \<and> (alert_n ch' \<longrightarrow> alert_n ch) \<and>
     (\<forall>x. in_channel c x \<longrightarrow> cmd_timing (bk ch' x) = cmd_timing (bk ch x) \<and> acts_kept cmd (bk ch x) (bk ch' x) \<and>
        (if x \<in> set (touched c cmd)
         then rb_step (cmd_type cmd) (Row cmd) (abs_bank (bk ch x)) = Some (abs_bank (bk ch' x))
         else bk ch' x = bk ch x))"

lemma queue_ops_frame [simp]:
  "chan_wf c nr (RankNeedRFM i v ch) = chan_wf c nr ch" "chan_wf c nr (BanksetNeedRFM i k v ch) = chan_wf c nr ch"
  "chan_wf c nr (RankNeedRefresh i v ch) = chan_wf c nr ch"
  "chan_wf c nr (BanksetNeedRefresh i k v ch) = chan_wf c nr ch"
  "chan_wf c nr (BankNeedRefresh i j k v ch) = chan_wf c nr ch" "chan_wf c nr (ResetAlert ch) = chan_wf c nr ch"
  "bk (RankNeedRFM i v ch) = bk ch" "bk (BanksetNeedRFM i k v ch) = bk ch" "bk (RankNeedRefresh i v ch) = bk ch"
  "bk (BanksetNeedRefresh i k v ch) = bk ch" "bk (BankNeedRefresh i j k v ch) = bk ch" "bk (ResetAlert ch) = bk ch"
  "four_aw (RankNeedRFM i v ch) = four_aw ch" "four_aw (BanksetNeedRFM i k v ch) = four_aw ch"
  "four_aw (RankNeedRefresh i v ch) = four_aw ch" "four_aw (BanksetNeedRefresh i k v ch) = four_aw ch"
  "four_aw (BankNeedRefresh i j k v ch) = four_aw ch" "four_aw (ResetAlert ch) = four_aw ch"
  "alert_n (RankNeedRFM i v ch) = alert_n ch" "alert_n (BanksetNeedRFM i k v ch) = alert_n ch"
  "alert_n (RankNeedRefresh i v ch) = alert_n ch" "alert_n (BanksetNeedRefresh i k v ch) = alert_n ch"
  "alert_n (BankNeedRefresh i j k v ch) = alert_n ch" "\<not> alert_n (ResetAlert ch)"
  "thirty_two_aw (RankNeedRFM i v ch) = thirty_two_aw ch" "thirty_two_aw (BanksetNeedRFM i k v ch) = thirty_two_aw ch"
  "thirty_two_aw (RankNeedRefresh i v ch) = thirty_two_aw ch"
  "thirty_two_aw (BanksetNeedRefresh i k v ch) = thirty_two_aw ch"
  "thirty_two_aw (BankNeedRefresh i j k v ch) = thirty_two_aw ch" "thirty_two_aw (ResetAlert ch) = thirty_two_aw ch"
  by (simp_all add: RankNeedRFM_def BanksetNeedRFM_def RankNeedRefresh_def BanksetNeedRefresh_def
      BankNeedRefresh_def ResetAlert_def Let_def)

lemma chan_update_succeeds:
  assumes "chan_wf c nr ch" and "cfg_wf c" and "addr_ok c cmd"
    and "\<forall>x \<in> set (touched c cmd). command_fits c (bk ch x) cmd \<and>
           rb_step (cmd_type cmd) (Row cmd) (abs_bank (bk ch x)) \<noteq> None"
  shows "succeeds (ChannelState_UpdateState bo c cmd clk ch) (chan_stepped c nr cmd ch)"
proof -
  have "succeeds (fold_res (update_bank bo c cmd clk) (touched c cmd) ch) (banks_stepped c nr cmd (touched c cmd) ch)"
    using assms by (intro update_banks_succeeds) (auto intro: chan_wf_banks touched_in_channel distinct_touched)
  then obtain ch1 where ch1: "fold_res (update_bank bo c cmd clk) (touched c cmd) ch = Inr ch1"
    and st: "banks_stepped c nr cmd (touched c cmd) ch ch1" by (rule succeedsE)
  note flags = sref_flags_step [OF assms(1) st assms(3) refl]
  have frame: "rank_is_sref ch1 = rank_is_sref ch" "four_aw ch1 = four_aw ch" "thirty_two_aw ch1 = thirty_two_aw ch"
    "alert_n ch1 = alert_n ch"
    using st by (simp_all add: banks_stepped_def)
  have wf: "chan_wf c nr ch1" if "cmd_type cmd \<notin> {SREF_ENTER, SREF_EXIT}"
  proof -
    have "ch1\<lparr>rank_is_sref := rank_is_sref ch\<rparr> = ch1" using frame(1) by simp
    then show ?thesis using flags that by auto
  qed
  have len: "0 \<le> Rank cmd" "Rank cmd < int (length (rank_is_sref ch))"
    using assms(1,3) by (auto simp: chan_wf_def chan_shape_def addr_ok_def)
  have banks: "chan_stepped c nr cmd ch ch2"
    if "chan_wf c nr ch2" "bk ch2 = bk ch1" "four_aw ch2 = four_aw ch1" "thirty_two_aw ch2 = thirty_two_aw ch1"
      "alert_n ch2 \<longrightarrow> alert_n ch1" for ch2
    using that st frame by (simp add: chan_stepped_def banks_stepped_def)
  consider (rk) "cmd_type cmd \<in> {REFab, RFMab}" | (en) "cmd_type cmd = SREF_ENTER" | (ex) "cmd_type cmd = SREF_EXIT"
    | (sb) "cmd_type cmd \<in> {REFsb, RFMsb}" | (bk) "bank_class (cmd_type cmd)" by blast
  then show ?thesis
  proof cases
    case rk
    then show ?thesis
      using ch1 wf by (auto simp: ChannelState_UpdateState_def touched_def command_kind_defs intro!: banks)
  next
    case en
    then show ?thesis
      using ch1 flags len frame
      by (auto simp: ChannelState_UpdateState_def touched_def command_kind_defs set_sref_def wp intro!: banks)
  next
    case ex
    then show ?thesis
      using ch1 flags len frame
      by (auto simp: ChannelState_UpdateState_def touched_def command_kind_defs set_sref_def wp intro!: banks)
  next
    case sb
    then show ?thesis
      using ch1 wf by (auto simp: ChannelState_UpdateState_def touched_def command_kind_defs intro!: banks)
  next
    case bk
    then have "update_bank bo c cmd clk (Rank cmd, Bankgroup cmd, Bank cmd) ch = Inr ch1"
      using ch1 by (auto simp: touched_def command_kind_defs bind_res_def split: sum.splits)
    then show ?thesis
      using bk wf by (auto simp: ChannelState_UpdateState_def command_kind_defs intro!: banks)
  qed
qed

section \<open>What a ready command guarantees\<close>

text \<open>A bank may take the command now: its issue time has passed and its row buffer allows it.\<close>

definition bank_ready :: "ChannelState \<Rightarrow> Command \<Rightarrow> u64 \<Rightarrow> coord \<Rightarrow> bool" where
  "bank_ready ch cmd clk x \<longleftrightarrow> earliest (bk ch x) (cmd_type cmd) \<le> clk \<and>
     rb_step (cmd_type cmd) (Row cmd) (abs_bank (bk ch x)) \<noteq> None"

lemma bank_ready_shared [simp]: "bank_ready (ch\<lparr>shared := sh\<rparr>) = bank_ready ch"
  by (simp add: bank_ready_def fun_eq_iff)

text \<open>The types a bank may answer with.\<close>

definition answers :: "CommandType \<Rightarrow> CommandType \<Rightarrow> bool" where
  "answers t u \<longleftrightarrow>
     (if is_rw_type t then is_rw_type u \<or> u \<in> {ACTIVATE, PRECHARGE, PRECHARGE2, RFMsb, RFMab, SREF_EXIT}
      else u \<in> {t, PRECHARGE, PRECHARGE2})"

lemma required_type_answers:
  assumes "shared_wf nr sh" and "required_type bo c b cmd clk sh = Inr (t, sh')"
  shows "answers (cmd_type cmd) t"
proof -
  have "is_rw_type (forced_closure_type u v)" for u v
    using forced_closure_type_range [of u v] by (auto simp: is_rw_type_def)
  then show ?thesis
    using assms(2) GetPrechargeCmd_type [OF assms(1)]
    by (auto simp: required_type_def answers_def Let_def bind_res_eq_Inr split: State.splits if_splits)
qed

text \<open>The answer of one bank to a request it accepts.\<close>

lemma bank_answer:
  assumes "cfg_wf c" and "bank_wf c b" and "shared_wf nr sh" and "accepts b (cmd_type cmd)"
  obtains cmd' sh' where "BankState_GetReadyCommand bo c b cmd clk sh = Inr (cmd', sh')" and "shared_wf nr sh'"
    and "IsValid cmd' \<longrightarrow> cmd' = mk_Command (cmd_type cmd') (addr cmd) (hex_addr cmd) \<and>
       earliest b (cmd_type cmd') \<le> clk \<and> rb_step (cmd_type cmd') r (abs_bank b) \<noteq> None \<and>
       answers (cmd_type cmd) (cmd_type cmd')"
proof -
  obtain t sh1 where req: "required_type bo c b cmd clk sh = Inr (t, sh1)"
    using required_type_succeeds [OF assms(1,2,4), of bo clk sh] by (auto elim!: succeedsE)
  have legal: "rb_step t r (abs_bank b) \<noteq> None" "shared_wf nr sh1"
    using required_type_legal [OF assms(3) req] by blast+
  have t: "t \<noteq> CMD_SIZE" using legal(1) by (cases "abs_bank b") auto
  have len: "cmd_index t < int (length (cmd_timing b))" using assms(2) t by (simp add: bank_wf_def)
  have row: "answers (cmd_type cmd) t" using required_type_answers [OF assms(3) req] .
  show thesis
  proof (cases "earliest b t \<le> clk")
    case True
    then have "BankState_GetReadyCommand bo c b cmd clk sh = Inr (mk_Command t (addr cmd) (hex_addr cmd), sh1)"
      using t len by (simp add: BankState_GetReadyCommand_def req vec_get_ok)
    then show thesis by (rule that) (use legal True row in auto)
  next
    case False
    then have "BankState_GetReadyCommand bo c b cmd clk sh = Inr (invalid_Command, sh1)"
      using t len by (simp add: BankState_GetReadyCommand_def req vec_get_ok)
    then show thesis by (rule that) (use legal in auto)
  qed
qed

text \<open>What the scan of the banks of a rank-level or same-bank command has established when it ends.\<close>

definition scan_post ::
  "int \<Rightarrow> Command \<Rightarrow> u64 \<Rightarrow> coord list \<Rightarrow> int \<Rightarrow> ChannelState \<Rightarrow> Command \<times> int \<times> bool \<times> ChannelState \<Rightarrow> bool" where
  "scan_post nr cmd clk xs n0 ch = (\<lambda>(ready, n, early, ch').
     (\<exists>sh. ch' = ch\<lparr>shared := sh\<rparr> \<and> shared_wf nr sh) \<and>
     (if early then cmd_type ready \<in> {PRECHARGE, PRECHARGE2} \<and>
        (\<exists>(i, j, k) \<in> set xs. addr ready = mk_Address (-1) i j k (-1) (-1) \<and> bank_ready ch ready clk (i, j, k))
      else n \<le> n0 + int (length xs) \<and>
        (n = n0 + int (length xs) \<longrightarrow> (\<forall>x \<in> set xs. bank_ready ch cmd clk x) \<and>
           (xs \<noteq> [] \<longrightarrow> ready = mk_Command (cmd_type cmd) (addr cmd) (hex_addr cmd)))))"

lemma scan_banks_post:
  assumes "cfg_wf c" and "chan_shape c ch" and "shared_wf nr (shared ch)"
    and "\<forall>x \<in> set xs. in_channel c x \<and> bank_wf c (bk ch x) \<and> accepts (bk ch x) (cmd_type cmd)"
    and "\<not> is_rw_type (cmd_type cmd)"
  shows "succeeds (scan_banks bo c cmd clk xs ready n ch) (scan_post nr cmd clk xs n ch)"
  using assms(2-4)
proof (induction xs arbitrary: ready n ch)
  case Nil
  then have "\<exists>sh. ch = ch\<lparr>shared := sh\<rparr> \<and> shared_wf nr sh" by (intro exI [of _ "shared ch"]) simp
  then show ?case by (simp add: scan_post_def)
next
  case (Cons x xs)
  obtain i j k where x: "x = (i, j, k)" by (cases x) auto
  have inx: "in_channel c (i, j, k)" "bank_wf c (bk ch (i, j, k))" "accepts (bk ch (i, j, k)) (cmd_type cmd)"
    using Cons.prems(3) by (auto simp: x)
  obtain cmd' sh' where ans: "BankState_GetReadyCommand bo c (bk ch (i, j, k)) cmd clk (shared ch) = Inr (cmd', sh')"
    "shared_wf nr sh'" and valid: "IsValid cmd' \<longrightarrow> cmd' = mk_Command (cmd_type cmd') (addr cmd) (hex_addr cmd) \<and>
       earliest (bk ch (i, j, k)) (cmd_type cmd') \<le> clk \<and>
       rb_step (cmd_type cmd') 0 (abs_bank (bk ch (i, j, k))) \<noteq> None \<and>
       answers (cmd_type cmd) (cmd_type cmd')"
    by (rule bank_answer [OF assms(1) inx(2) Cons.prems(2) inx(3), where r = 0 and bo = bo and clk = clk])
  have ready_here: "bank_ready ch q clk (i, j, k)" if "IsValid cmd'" "cmd_type q = cmd_type cmd'" for q
    unfolding bank_ready_def using mp [OF valid that(1)] that(2) by (metis rb_step_row)
  have IH: "succeeds (scan_banks bo c cmd clk xs cmd' m (ch\<lparr>shared := sh'\<rparr>)) (scan_post nr cmd clk xs m (ch\<lparr>shared := sh'\<rparr>))" for m
    by (rule Cons.IH) (use Cons.prems ans(2) in auto)
  have get: "get_bank ch i j k = Inr (bk ch (i, j, k))" using Cons.prems(1) inx(1) by (rule get_bank_ok)
  consider (no) "\<not> IsValid cmd'" | (prep) "IsValid cmd'" "cmd_type cmd' \<noteq> cmd_type cmd"
    | (yes) "IsValid cmd'" "cmd_type cmd' = cmd_type cmd" by blast
  then show ?case
  proof cases
    case no
    then have "succeeds (scan_banks bo c cmd clk xs cmd' n (ch\<lparr>shared := sh'\<rparr>)) (scan_post nr cmd clk (x # xs) n ch)"
      by (intro succeeds_mono [OF IH]) (auto simp: scan_post_def split: if_splits)
    then show ?thesis using no by (simp add: x get ans(1))
  next
    case prep
    then show ?thesis
      using ready_here [of "cmd'\<lparr>addr := mk_Address (-1) i j k (-1) (-1)\<rparr>"] ans(2) mp [OF valid prep(1)] assms(5)
      by (auto simp: x get ans(1) scan_post_def answers_def)
  next
    case yes
    then have "cmd' = mk_Command (cmd_type cmd) (addr cmd) (hex_addr cmd)" using valid by simp
    moreover have "bank_ready ch cmd clk x" using ready_here [OF yes(1), of cmd] yes(2) by (simp add: x)
    ultimately have "succeeds (scan_banks bo c cmd clk xs cmd' (n + 1) (ch\<lparr>shared := sh'\<rparr>)) (scan_post nr cmd clk (x # xs) n ch)"
    proof (cases "xs = []")
      case True
      with \<open>bank_ready ch cmd clk x\<close> \<open>cmd' = _\<close> ans(2) show ?thesis by (auto simp: scan_post_def)
    next
      case False
      with \<open>bank_ready ch cmd clk x\<close> show ?thesis
        by (intro succeeds_mono [OF IH]) (auto simp: scan_post_def split: if_splits)
    qed
    then show ?thesis using yes by (simp add: x get ans(1))
  qed
qed

text \<open>A request the channel accepts: a read or write of a row it has, or maintenance of a rank that is
  not in self refresh.\<close>

definition chan_accepts :: "Config \<Rightarrow> ChannelState \<Rightarrow> Command \<Rightarrow> bool" where
  "chan_accepts c ch cmd \<longleftrightarrow> addr_ok c cmd \<and>
     (is_rw_type (cmd_type cmd) \<and> 0 \<le> Row cmd \<and> Row cmd < rows c \<or>
      is_maintenance_type (cmd_type cmd) \<and> \<not> rank_is_sref ch ! nat (Rank cmd))"

lemma length_rank_coords:
  "geom_wf c \<Longrightarrow> int (length (rank_coords c i)) = banks c"
proof -
  assume "geom_wf c"
  moreover have "length (rank_coords c i) = nat (bankgroups c) * nat (banks_per_group c)"
    by (simp add: rank_coords_def length_concat comp_def sum_list_triv)
  ultimately show ?thesis by (simp add: geom_wf_def)
qed

lemma length_bankset_coords: "geom_wf c \<Longrightarrow> int (length (bankset_coords c i k)) = bankgroups c"
  by (simp add: bankset_coords_def geom_wf_def concat_map_singleton)

text \<open>The activation windows of a rank have room.\<close>

definition windows_ready :: "Config \<Rightarrow> ChannelState \<Rightarrow> int \<Rightarrow> u64 \<Rightarrow> bool" where
  "windows_ready c ch i t \<longleftrightarrow> window_ready 4 t (four_aw ch ! nat i) \<and>
     (IsGDDR c \<longrightarrow> window_ready 32 t (thirty_two_aw ch ! nat i))"

text \<open>The command a query returns is one every bank it touches is ready for, it belongs to the request,
  and the banks are as they were.\<close>

definition query_post ::
  "Config \<Rightarrow> int \<Rightarrow> Command \<Rightarrow> u64 \<Rightarrow> ChannelState \<Rightarrow> Command \<times> ChannelState \<Rightarrow> bool" where
  "query_post c nr cmd clk ch = (\<lambda>(cmd', ch').
     chan_wf c nr ch' \<and> bk ch' = bk ch \<and> four_aw ch' = four_aw ch \<and> thirty_two_aw ch' = thirty_two_aw ch \<and>
     rank_is_sref ch' = rank_is_sref ch \<and>
     (IsValid cmd' \<longrightarrow> addr_ok c cmd' \<and> Rank cmd' = Rank cmd \<and>
        (\<forall>x \<in> set (touched c cmd'). rb_step (cmd_type cmd') (Row cmd') (abs_bank (bk ch x)) \<noteq> None) \<and>
        (if cmd_type cmd' = SREF_EXIT
         then in_channel c (Rank cmd', Bankgroup cmd', Bank cmd') \<and>
           bank_ready ch cmd' clk (Rank cmd', Bankgroup cmd', Bank cmd')
         else \<forall>x \<in> set (touched c cmd'). bank_ready ch cmd' clk x) \<and>
        (cmd_type cmd' = ACTIVATE \<longrightarrow> windows_ready c ch (Rank cmd') clk) \<and>
        (cmd_type cmd' = ACTIVATE \<or> is_rw_type (cmd_type cmd') \<longrightarrow> Row cmd' = Row cmd) \<and>
        answers (cmd_type cmd) (cmd_type cmd') \<and> cmd_type cmd' \<notin> {RFMsb, RFMab} - {cmd_type cmd}))"

lemma chan_wf_shared: "chan_wf c nr ch \<Longrightarrow> shared_wf nr sh \<Longrightarrow> chan_wf c nr (ch\<lparr>shared := sh\<rparr>)"
  by (simp add: chan_wf_def)

lemma query_post_invalid:
  "chan_wf c nr ch' \<Longrightarrow> bk ch' = bk ch \<Longrightarrow> four_aw ch' = four_aw ch \<Longrightarrow> thirty_two_aw ch' = thirty_two_aw ch \<Longrightarrow>
     rank_is_sref ch' = rank_is_sref ch \<Longrightarrow> query_post c nr cmd clk ch (invalid_Command, ch')"
  by (simp add: query_post_def)

text \<open>A precharge of one bank, and a command all its banks are ready for, are good answers.\<close>

lemma query_post_precharge:
  assumes "chan_wf c nr ch" and "shared_wf nr sh" and "cmd_type ready \<in> {PRECHARGE, PRECHARGE2}"
    and "addr ready = mk_Address (-1) i j k (-1) (-1)" and "bank_ready ch ready clk (i, j, k)"
    and "in_channel c (i, j, k)" and "i = Rank cmd"
  shows "query_post c nr cmd clk ch (ready, ch\<lparr>shared := sh\<rparr>)"
proof -
  have kind: "\<not> IsRankCMD ready" "\<not> IsSbCMD ready" "answers (cmd_type cmd) (cmd_type ready)"
    "\<not> is_rw_type (cmd_type ready)" "cmd_type ready \<notin> {ACTIVATE, SREF_EXIT, RFMsb, RFMab}"
    using assms(3) by (auto simp: IsRankCMD_def IsSbCMD_def answers_def is_rw_type_def)
  then show ?thesis
    using assms
    by (simp add: query_post_def chan_wf_shared touched_def addr_ok_def in_channel_def bank_ready_def)
qed

lemma query_post_all:
  assumes "chan_wf c nr ch" and "shared_wf nr sh" and "addr_ok c cmd" and "is_maintenance_type (cmd_type cmd)"
    and "\<forall>x \<in> set (touched c cmd). bank_ready ch cmd clk x"
  shows "query_post c nr cmd clk ch (mk_Command (cmd_type cmd) (addr cmd) (hex_addr cmd), ch\<lparr>shared := sh\<rparr>)"
proof -
  have same: "mk_Command (cmd_type cmd) (addr cmd) (hex_addr cmd) = cmd" by (simp add: mk_Command_def)
  have "cmd_type cmd \<notin> {ACTIVATE, SREF_EXIT}" "\<not> is_rw_type (cmd_type cmd)" "answers (cmd_type cmd) (cmd_type cmd)"
    using assms(4) by (auto simp: is_maintenance_type_def is_rw_type_def answers_def)
  then show ?thesis
    unfolding same using assms by (simp add: query_post_def chan_wf_shared bank_ready_def)
qed

lemma rank_banks_accept:
  assumes "chan_wf c nr ch" and "chan_accepts c ch cmd" and "in_channel c (Rank cmd, j, k)"
  shows "accepts (bk ch (Rank cmd, j, k)) (cmd_type cmd)"
  using assms by (auto simp: chan_accepts_def accepts_def chan_wf_def)

lemma scan_query:
  assumes "cfg_wf c" and "chan_wf c nr ch" and "chan_accepts c ch cmd" and "IsRankCMD cmd \<or> IsSbCMD cmd"
    and "int (length (touched c cmd)) = wanted" and "0 < wanted"
  shows "succeeds (bind_res (scan_banks bo c cmd clk (touched c cmd) invalid_Command 0 ch) (\<lambda>r. Inr (scan_result wanted r)))
    (query_post c nr cmd clk ch)"
proof -
  have maint: "is_maintenance_type (cmd_type cmd)" "\<not> is_rw_type (cmd_type cmd)" "addr_ok c cmd"
    using assms(3,4) by (auto simp: chan_accepts_def is_rw_type_def IsRankCMD_def IsSbCMD_def)
  have ra: "i = Rank cmd" if "(i, j, k) \<in> set (touched c cmd)" for i j k
    using that by (auto simp: touched_def set_rank_coords set_bankset_coords split: if_splits)
  have "\<forall>x \<in> set (touched c cmd). in_channel c x \<and> bank_wf c (bk ch x) \<and> accepts (bk ch x) (cmd_type cmd)"
  proof
    fix x assume x: "x \<in> set (touched c cmd)"
    then have "in_channel c x" using maint(3) by (blast intro: touched_in_channel)
    moreover obtain i j k where "x = (i, j, k)" by (cases x) auto
    ultimately show "in_channel c x \<and> bank_wf c (bk ch x) \<and> accepts (bk ch x) (cmd_type cmd)"
      using rank_banks_accept [OF assms(2,3)] ra x assms(2) by (auto simp: chan_wf_def)
  qed
  then have scan: "succeeds (scan_banks bo c cmd clk (touched c cmd) invalid_Command 0 ch)
      (scan_post nr cmd clk (touched c cmd) 0 ch)"
    using assms(1,2) maint(2) by (intro scan_banks_post) (auto simp: chan_wf_def)
  have "query_post c nr cmd clk ch (scan_result wanted (ready, n, early, ch'))"
    if post: "scan_post nr cmd clk (touched c cmd) 0 ch (ready, n, early, ch')" for ready n early ch'
  proof -
    obtain sh where sh: "ch' = ch\<lparr>shared := sh\<rparr>" "shared_wf nr sh" using post by (auto simp: scan_post_def)
    consider (early) early | (all) "\<not> early" "n = wanted" | (none) "\<not> early" "n \<noteq> wanted" by blast
    then show ?thesis
    proof cases
      case early
      then obtain i j k where "(i, j, k) \<in> set (touched c cmd)" "cmd_type ready \<in> {PRECHARGE, PRECHARGE2}"
        "addr ready = mk_Address (-1) i j k (-1) (-1)" "bank_ready ch ready clk (i, j, k)"
        using post by (auto simp: scan_post_def)
      then show ?thesis
        using early sh assms(2) ra touched_in_channel [OF maint(3)]
        by (auto simp: scan_result_def intro: query_post_precharge)
    next
      case all
      then have "\<forall>x \<in> set (touched c cmd). bank_ready ch cmd clk x"
        "ready = mk_Command (cmd_type cmd) (addr cmd) (hex_addr cmd)"
        using post assms(5,6) by (auto simp: scan_post_def)
      then show ?thesis
        using all sh assms(2) maint by (auto simp: scan_result_def intro: query_post_all)
    next
      case none
      then show ?thesis
        using sh assms(2) by (auto simp: scan_result_def intro: query_post_invalid chan_wf_shared)
    qed
  qed
  then show ?thesis
    by (intro succeeds_bindI [OF scan]) (auto split: prod.splits)
qed

lemma ActivationWindowOk_succeeds:
  assumes "chan_shape c ch" and "0 \<le> i" and "i < ranks c"
  shows "succeeds (ActivationWindowOk c ch i t) (\<lambda>v. v \<longrightarrow> windows_ready c ch i t)"
  using assms
  by (auto simp: windows_ready_def ActivationWindowOk_def IsFAWReady_def Is32AWReady_def wp chan_shape_def)

lemma queue_ops_sref [simp]:
  "rank_is_sref (RankNeedRFM i v ch) = rank_is_sref ch" "rank_is_sref (BanksetNeedRFM i k v ch) = rank_is_sref ch"
  by (simp_all add: RankNeedRFM_def BanksetNeedRFM_def Let_def)

text \<open>In a rank that leaves self refresh every bank is in self refresh.\<close>

lemma sref_exit_touches:
  assumes "chan_wf c nr ch" and "in_channel c (i, j, k)" and "rb_step SREF_EXIT r (abs_bank (bk ch (i, j, k))) \<noteq> None"
    and "x \<in> set (rank_coords c i)"
  shows "rb_step SREF_EXIT r (abs_bank (bk ch x)) \<noteq> None"
proof -
  obtain j' k' where x: "x = (i, j', k')" "in_channel c (i, j', k')"
    using assms(2,4) by (auto simp: set_rank_coords in_channel_def)
  obtain s' where "rb_step SREF_EXIT r (abs_bank (bk ch (i, j, k))) = Some s'" using assms(3) by blast
  from rb_step_sref [OF this] have "bank_state (bk ch (i, j, k)) = SREF" by (simp add: abs_bank_sref)
  then have "bank_state (bk ch x) = SREF" using assms(1,2) x by (auto simp: chan_wf_def)
  then show ?thesis by (simp add: abs_bank_def)
qed

lemma single_answer_post:
  assumes "chan_wf c nr ch" and "shared_wf nr sh" and "addr_ok c cmd" and "\<not> IsRankCMD cmd" and "\<not> IsSbCMD cmd"
    and "earliest (bk ch (Rank cmd, Bankgroup cmd, Bank cmd)) t \<le> clk"
    and "rb_step t (Row cmd) (abs_bank (bk ch (Rank cmd, Bankgroup cmd, Bank cmd))) \<noteq> None"
    and "answers (cmd_type cmd) t" and "t \<notin> {RFMsb, RFMab}"
    and "t = ACTIVATE \<longrightarrow> windows_ready c ch (Rank cmd) clk"
  shows "query_post c nr cmd clk ch (mk_Command t (addr cmd) (hex_addr cmd), ch\<lparr>shared := sh\<rparr>)"
proof -
  let ?q = "mk_Command t (addr cmd) (hex_addr cmd)" and ?x = "(Rank cmd, Bankgroup cmd, Bank cmd)"
  have x: "in_channel c ?x" using assms(3-5) by (simp add: addr_ok_def in_channel_def)
  have ready: "bank_ready ch ?q clk ?x" using assms(6,7) by (simp add: bank_ready_def)
  have ok: "addr_ok c ?q" using x by (simp add: addr_ok_def in_channel_def)
  show ?thesis
  proof (cases "t = SREF_EXIT")
    case True
    then have "\<forall>y \<in> set (touched c ?q). rb_step SREF_EXIT (Row cmd) (abs_bank (bk ch y)) \<noteq> None"
      using sref_exit_touches [OF assms(1) x] assms(7) by (simp add: touched_def IsRankCMD_def)
    then show ?thesis
      using True assms ok ready x by (simp add: query_post_def chan_wf_shared is_rw_type_def)
  next
    case False
    have "t \<notin> {REFab, SREF_ENTER, REFsb}"
      using assms(4,5,8,9) by (auto simp: answers_def is_rw_type_def IsRankCMD_def IsSbCMD_def split: if_splits)
    then have "touched c ?q = [?x]" using False assms(9) by (auto simp: touched_def IsRankCMD_def IsSbCMD_def)
    then show ?thesis
      using False assms ok ready by (simp add: query_post_def chan_wf_shared bank_ready_def)
  qed
qed

lemma single_query:
  assumes "cfg_wf c" and "chan_wf c nr ch" and "chan_accepts c ch cmd" and "\<not> IsRankCMD cmd" and "\<not> IsSbCMD cmd"
  shows "succeeds (ChannelState_GetReadyCommand bo c cmd clk ch) (query_post c nr cmd clk ch)"
proof -
  let ?x = "(Rank cmd, Bankgroup cmd, Bank cmd)"
  have ok: "addr_ok c cmd" using assms(3) by (simp add: chan_accepts_def)
  then have x: "in_channel c ?x" using assms(4,5) by (simp add: addr_ok_def in_channel_def)
  have wf: "chan_shape c ch" "bank_wf c (bk ch ?x)" "shared_wf nr (shared ch)"
    using assms(2) x by (auto simp: chan_wf_def)
  obtain q sh where ans: "BankState_GetReadyCommand bo c (bk ch ?x) cmd clk (shared ch) = Inr (q, sh)" "shared_wf nr sh"
    and valid: "IsValid q \<longrightarrow> q = mk_Command (cmd_type q) (addr cmd) (hex_addr cmd) \<and>
       earliest (bk ch ?x) (cmd_type q) \<le> clk \<and> rb_step (cmd_type q) (Row cmd) (abs_bank (bk ch ?x)) \<noteq> None \<and>
       answers (cmd_type cmd) (cmd_type q)"
    by (rule bank_answer [OF assms(1) wf(2,3) rank_banks_accept [OF assms(2,3) x], where r = "Row cmd" and bo = bo and clk = clk])
  let ?ch = "ch\<lparr>shared := sh\<rparr>"
  have wf': "chan_wf c nr ?ch" using assms(2) ans(2) by (rule chan_wf_shared)
  have good: "query_post c nr cmd clk ch (q, ?ch)"
    if "IsValid q" "cmd_type q \<notin> {RFMsb, RFMab}" "cmd_type q = ACTIVATE \<longrightarrow> windows_ready c ch (Rank cmd) clk"
    using single_answer_post [OF assms(2) ans(2) ok assms(4,5), of "cmd_type q" clk] mp [OF valid that(1)] that(2,3) by simp
  have window: "succeeds (ActivationWindowOk c ?ch (Rank q) clk)
      (\<lambda>v. v \<longrightarrow> windows_ready c ch (Rank cmd) clk)" if "IsValid q"
  proof -
    have "Rank q = Rank cmd" using mp [OF valid that] by (metis mk_Command_sel(2))
    then show ?thesis
      using ActivationWindowOk_succeeds [of c ?ch "Rank cmd" clk] wf(1) x
      by (auto simp: in_channel_def windows_ready_def elim!: succeeds_mono)
  qed
  have get: "get_bank ch (Rank cmd) (Bankgroup cmd) (Bank cmd) = Inr (bk ch ?x)" using wf(1) x by (rule get_bank_ok)
  show ?thesis
    using wf' good window
    by (auto simp: ChannelState_GetReadyCommand_def assms(4,5) get ans(1) Let_def
        intro!: query_post_invalid succeeds_mono [OF window])
qed

lemma GetReadyCommand_post:
  assumes "cfg_wf c" and "geom_wf c" and "chan_wf c nr ch" and "chan_accepts c ch cmd"
  shows "succeeds (ChannelState_GetReadyCommand bo c cmd clk ch) (query_post c nr cmd clk ch)"
proof -
  consider (rk) "IsRankCMD cmd" | (sb) "\<not> IsRankCMD cmd" "IsSbCMD cmd" | (one) "\<not> IsRankCMD cmd" "\<not> IsSbCMD cmd" by blast
  then show ?thesis
  proof cases
    case rk
    then have "touched c cmd = rank_coords c (Rank cmd)" by (simp add: touched_def)
    then show ?thesis
      using scan_query [OF assms(1,3,4), of "banks c" bo clk] rk length_rank_coords [OF assms(2)] assms(2)
      by (simp add: ChannelState_GetReadyCommand_def geom_wf_def)
  next
    case sb
    then have "touched c cmd = bankset_coords c (Rank cmd) (Bank cmd)" by (simp add: touched_def)
    then show ?thesis
      using scan_query [OF assms(1,3,4), of "bankgroups c" bo clk] sb length_bankset_coords [OF assms(2)] assms(2)
      by (simp add: ChannelState_GetReadyCommand_def geom_wf_def)
  next
    case one
    then show ?thesis by (rule single_query [OF assms(1,3,4)])
  qed
qed

end
