(* ===== verification/Channel_Protocol.thy ===== *)
theory Channel_Protocol
  imports Channel_Progress
begin

text \<open>
  Runs of a channel: a constructed channel answers queries, executes the commands it declared ready and
  receives refresh requests; the log of a run records the issued commands with their clock cycles.  The
  theorems say that requests are served without a fault, that every pair of issued commands respects the
  delay tables, and that the activation windows hold.
\<close>

section \<open>Executing a ready command\<close>

definition chan_fits :: "Config \<Rightarrow> ChannelState \<Rightarrow> bool" where
  "chan_fits c ch \<longleftrightarrow> (\<forall>x. in_channel c x \<longrightarrow>
     int (length (total_row_acts (bk ch x))) = rows c \<and> acts_counter (bk ch x) < 130)"

lemma maintenance_answers:
  "answers t u \<Longrightarrow> is_maintenance_type t \<Longrightarrow> \<not> is_rw_type u \<and> u \<noteq> ACTIVATE"
  by (cases t) (auto simp: answers_def is_maintenance_type_def is_rw_type_def)

lemma query_fits:
  assumes "query_post c nr cmd clk ch (cmd', ch')" and "IsValid cmd'" and "chan_accepts c ch cmd" and "chan_fits c ch"
    and "x \<in> set (touched c cmd')"
  shows "command_fits c (bk ch x) cmd'"
proof -
  have q: "addr_ok c cmd'" "answers (cmd_type cmd) (cmd_type cmd')"
    "cmd_type cmd' = ACTIVATE \<or> is_rw_type (cmd_type cmd') \<longrightarrow> Row cmd' = Row cmd"
    using assms(1,2) by (auto simp: query_post_def)
  have "in_channel c x" using q(1) assms(5) by (rule touched_in_channel)
  moreover have "is_rw_type (cmd_type cmd') \<or> cmd_type cmd' = ACTIVATE \<Longrightarrow> 0 \<le> Row cmd' \<and> Row cmd' < rows c"
    using q(3) maintenance_answers [OF q(2)] assms(3) unfolding chan_accepts_def by metis
  ultimately show ?thesis using assms(4) by (auto simp: command_fits_def chan_fits_def)
qed

text \<open>The effect of an executed command on every bank: its step of the automaton, then its delay row.\<close>

definition executed ::
  "Config \<Rightarrow> int \<Rightarrow> Timing \<Rightarrow> Command \<Rightarrow> u64 \<Rightarrow> ChannelState \<Rightarrow> ChannelState \<Rightarrow> bool" where
  "executed c nr tm cmd clk ch ch' \<longleftrightarrow> chan_wf c nr ch' \<and>
     (\<forall>x. in_channel c x \<longrightarrow>
        cmd_timing (bk ch' x) = cmd_timing (raise_timing (delay_row tm cmd x) clk (bk ch x)) \<and>
        acts_kept cmd (bk ch x) (bk ch' x) \<and>
        abs_bank (bk ch' x) =
          (if x \<in> set (touched c cmd) then the (rb_step (cmd_type cmd) (Row cmd) (abs_bank (bk ch x)))
           else abs_bank (bk ch x)))"

lemma raise_timing_cong:
  "cmd_timing b = cmd_timing b' \<Longrightarrow> cmd_timing (raise_timing l clk b) = cmd_timing (raise_timing l clk b')"
  by (simp add: raise_timing_def)

lemma abs_bank_raise [simp]: "abs_bank (raise_timing l clk b) = abs_bank b"
  by (simp add: abs_bank_def split: State.split)

lemma execute_succeeds:
  assumes "cfg_wf c" and "tables_ok tm" and "chan_accepts c ch cmd" and "chan_fits c ch"
    and "query_post c nr cmd clk ch (cmd', ch')" and "IsValid cmd'"
  shows "succeeds (UpdateTimingAndStates bo c tm cmd' clk ch') (executed c nr tm cmd' clk ch)"
proof -
  have q: "chan_wf c nr ch'" "bk ch' = bk ch" "addr_ok c cmd'"
    "\<forall>x \<in> set (touched c cmd'). rb_step (cmd_type cmd') (Row cmd') (abs_bank (bk ch x)) \<noteq> None"
    using assms(5,6) by (auto simp: query_post_def)
  have st: "succeeds (ChannelState_UpdateState bo c cmd' clk ch') (chan_stepped c nr cmd' ch')"
    using q query_fits [OF assms(5,6,3,4)] by (intro chan_update_succeeds [OF _ assms(1)]) auto
  have "succeeds (ChannelState_UpdateTiming c tm cmd' clk ch1) (executed c nr tm cmd' clk ch)"
    if s: "chan_stepped c nr cmd' ch' ch1" for ch1
  proof -
    have wf: "chan_wf c nr ch1" using s by (simp add: chan_stepped_def)
    have "executed c nr tm cmd' clk ch ch2" if "banks_delayed c nr (delay_row tm cmd') clk ch1 ch2" for ch2
    proof -
      have "cmd_timing (bk ch1 x) = cmd_timing (bk ch x) \<and> acts_kept cmd' (bk ch x) (bk ch1 x) \<and>
          abs_bank (bk ch1 x) = (if x \<in> set (touched c cmd')
            then the (rb_step (cmd_type cmd') (Row cmd') (abs_bank (bk ch x))) else abs_bank (bk ch x))"
        if "in_channel c x" for x
        using s that by (auto simp: chan_stepped_def q(2) split: if_splits)
      then show ?thesis
        using that by (auto simp: executed_def banks_delayed_def acts_kept_def intro: raise_timing_cong)
    qed
    then show ?thesis
      by (intro succeeds_mono [OF UpdateTiming_delays [OF wf assms(2) q(3) assms(6)]])
  qed
  then show ?thesis
    unfolding UpdateTimingAndStates_def by (rule succeeds_bindI [OF st])
qed


section \<open>Runs\<close>

type_synonym command_log = "(u64 \<times> Command) list"

inductive chan_run :: "Build \<Rightarrow> Config \<Rightarrow> command_log \<Rightarrow> ChannelState \<Rightarrow> bool" for bo c where
  start: "new_ChannelState c m sh = Inr ch \<Longrightarrow> shared_wf (ranks c) sh \<Longrightarrow> chan_run bo c [] ch"
| query: "chan_run bo c log ch \<Longrightarrow> chan_accepts c ch cmd \<Longrightarrow>
    ChannelState_GetReadyCommand bo c cmd clk ch = Inr (cmd', ch') \<Longrightarrow> chan_run bo c log ch'"
| execute: "chan_run bo c log ch \<Longrightarrow> chan_accepts c ch cmd \<Longrightarrow> chan_fits c ch \<Longrightarrow>
    ChannelState_GetReadyCommand bo c cmd clk ch = Inr (cmd', ch') \<Longrightarrow> IsValid cmd' \<Longrightarrow>
    \<forall>(t, q) \<in> set log. t \<le> clk \<Longrightarrow>
    UpdateTimingAndStates bo c (new_Timing c) cmd' clk ch' = Inr ch'' \<Longrightarrow>
    chan_run bo c (log @ [(clk, cmd')]) ch''"
| rank_refresh: "chan_run bo c log ch \<Longrightarrow> chan_run bo c log (RankNeedRefresh i v ch)"
| bankset_refresh: "chan_run bo c log ch \<Longrightarrow> chan_run bo c log (BanksetNeedRefresh i k v ch)"
| bank_refresh: "chan_run bo c log ch \<Longrightarrow> chan_run bo c log (BankNeedRefresh i j k v ch)"

text \<open>The issue times of a channel know the delays of every command in the log.\<close>

definition log_delays :: "Config \<Rightarrow> command_log \<Rightarrow> ChannelState \<Rightarrow> bool" where
  "log_delays c log ch \<longleftrightarrow> (\<forall>(t, q) \<in> set log. \<forall>x. in_channel c x \<longrightarrow>
     (\<forall>(u, d) \<in> set (delay_row (new_Timing c) q x). u \<noteq> CMD_SIZE \<longrightarrow> t + to_u64 d \<le> earliest (bk ch x) u))"

lemma executed_log_delays:
  assumes "executed c nr (new_Timing c) cmd clk ch ch'" and "chan_wf c nr ch" and "log_delays c log ch"
  shows "log_delays c (log @ [(clk, cmd)]) ch'"
proof -
  let ?tm = "new_Timing c"
  have time: "cmd_timing (bk ch' x) = cmd_timing (raise_timing (delay_row ?tm cmd x) clk (bk ch x))"
    "length (cmd_timing (bk ch x)) = 16" if "in_channel c x" for x
    using assms(1,2) that by (auto simp: executed_def chan_wf_def bank_wf_def)
  have "clk + to_u64 d \<le> earliest (bk ch' x) u"
    if "in_channel c x" "(u, d) \<in> set (delay_row ?tm cmd x)" "u \<noteq> CMD_SIZE" for x u d
    using earliest_reaches [OF time(2) [OF that(1)] that(3,2), of clk] time(1) [OF that(1)] by simp
  moreover have "t + to_u64 d \<le> earliest (bk ch' x) u"
    if "(t, q) \<in> set log" "in_channel c x" "(u, d) \<in> set (delay_row ?tm q x)" "u \<noteq> CMD_SIZE" for t q x u d
  proof -
    have "t + to_u64 d \<le> earliest (bk ch x) u"
      using assms(3) that unfolding log_delays_def by blast
    also have "\<dots> \<le> earliest (bk ch' x) u"
      using earliest_mono [OF time(2) [OF that(2)] that(4), of "delay_row ?tm cmd x" clk] time(1) [OF that(2)] by simp
    finally show ?thesis .
  qed
  ultimately show ?thesis unfolding log_delays_def by auto
qed

lemma log_delays_bk: "bk ch' = bk ch \<Longrightarrow> log_delays c log ch' = log_delays c log ch"
  by (simp add: log_delays_def)

lemma chan_run_invariant:
  assumes "chan_run bo c log ch" and "cfg_wf c" and "geom_wf c"
  shows "chan_wf c (ranks c) ch \<and> log_delays c log ch"
  using assms(1)
proof (induction rule: chan_run.induct)
  case (start m sh ch)
  then show ?case
    using new_ChannelState_fresh [OF assms(2,3), of "ranks c" sh m] by (simp add: log_delays_def)
next
  case (query log ch cmd clk cmd' ch')
  then have "query_post c (ranks c) cmd clk ch (cmd', ch')"
    using GetReadyCommand_post [OF assms(2,3), of "ranks c" ch cmd bo clk] by simp
  then have "chan_wf c (ranks c) ch'" "bk ch' = bk ch" by (auto simp: query_post_def)
  then show ?case using query.IH log_delays_bk [of ch' ch] by simp
next
  case (execute log ch cmd clk cmd' ch' ch'')
  then have q: "query_post c (ranks c) cmd clk ch (cmd', ch')"
    using GetReadyCommand_post [OF assms(2,3), of "ranks c" ch cmd bo clk] by simp
  have ex: "executed c (ranks c) (new_Timing c) cmd' clk ch ch''"
    using execute_succeeds [OF assms(2) tables_ok_new_Timing execute.hyps(2,3) q execute.hyps(5), of bo c] execute.hyps(7)
    by simp
  moreover have "chan_wf c (ranks c) ch''" using ex by (simp add: executed_def)
  ultimately show ?case using executed_log_delays [OF ex] execute.IH by blast
qed (simp_all add: log_delays_def)

text \<open>The banks whose issue time a query checks: all the banks a command touches, except that the exit
  from self refresh asks the bank of the waiting request only.\<close>

definition checked :: "Config \<Rightarrow> Command \<Rightarrow> coord list" where
  "checked c cmd = (if cmd_type cmd = SREF_EXIT then [(Rank cmd, Bankgroup cmd, Bank cmd)] else touched c cmd)"

lemma query_checked:
  assumes "query_post c nr cmd clk ch (cmd', ch')" and "IsValid cmd'"
  shows "\<forall>x \<in> set (checked c cmd'). in_channel c x \<and> earliest (bk ch x) (cmd_type cmd') \<le> clk"
  using assms touched_in_channel [of c cmd'] by (auto simp: query_post_def checked_def bank_ready_def)

text \<open>Every pair of commands of a log is spaced as the tables demand.\<close>

definition log_spaced :: "Config \<Rightarrow> command_log \<Rightarrow> bool" where
  "log_spaced c log \<longleftrightarrow> (\<forall>p q. p < q \<longrightarrow> q < length log \<longrightarrow>
     (\<forall>x \<in> set (checked c (snd (log ! q))). \<forall>d.
        (cmd_type (snd (log ! q)), d) \<in> set (delay_row (new_Timing c) (snd (log ! p)) x) \<longrightarrow>
        fst (log ! p) + to_u64 d \<le> fst (log ! q)))"

lemma log_spaced_snoc:
  assumes "log_spaced c log" and "log_delays c log ch" and "IsValid cmd"
    and "\<forall>x \<in> set (checked c cmd). in_channel c x \<and> earliest (bk ch x) (cmd_type cmd) \<le> clk"
  shows "log_spaced c (log @ [(clk, cmd)])"
proof -
  have "fst (log ! p) + to_u64 d \<le> clk"
    if "p < length log" "x \<in> set (checked c cmd)" "(cmd_type cmd, d) \<in> set (delay_row (new_Timing c) (snd (log ! p)) x)" for p x d
  proof -
    have "(fst (log ! p), snd (log ! p)) \<in> set log" using that(1) by simp
    moreover have "in_channel c x" "cmd_type cmd \<noteq> CMD_SIZE" using that(2) assms(3,4) by (auto simp: IsValid_def)
    ultimately have "fst (log ! p) + to_u64 d \<le> earliest (bk ch x) (cmd_type cmd)"
      using assms(2) that(3) unfolding log_delays_def by blast
    also have "\<dots> \<le> clk" using assms(4) that(2) by blast
    finally show ?thesis .
  qed
  then show ?thesis
    using assms(1) unfolding log_spaced_def by (auto simp: nth_append less_Suc_eq)
qed

text \<open>C1. In every run of a channel from its construction, every two issued commands are at least as far
  apart as the delay table for their relative position says (\<open>tRCD\<close>, \<open>tRP\<close>, \<open>tRAS\<close>, \<open>tCCD\<close>, \<open>tRRD\<close>, \<open>tRFC\<close>
  and the others, same bank to other rank): no later command, however the requests interleave, can
  shorten the wait an earlier one imposed.\<close>

theorem command_spacing:
  assumes "chan_run bo c log ch" and "cfg_wf c" and "geom_wf c"
    and "p < q" and "q < length log" and "x \<in> set (checked c (snd (log ! q)))"
    and "(cmd_type (snd (log ! q)), d) \<in> set (delay_row (new_Timing c) (snd (log ! p)) x)"
  shows "fst (log ! p) + to_u64 d \<le> fst (log ! q)"
proof -
  have "log_spaced c log"
    using assms(1)
  proof (induction rule: chan_run.induct)
    case (execute log ch cmd clk cmd' ch' ch'')
    have inv: "chan_wf c (ranks c) ch" "log_delays c log ch"
      using chan_run_invariant [OF execute.hyps(1) assms(2,3)] by auto
    have "query_post c (ranks c) cmd clk ch (cmd', ch')"
      using GetReadyCommand_post [OF assms(2,3) inv(1) execute.hyps(2), of bo clk] execute.hyps(4) by simp
    from log_spaced_snoc [OF execute.IH inv(2) execute.hyps(5) query_checked [OF this execute.hyps(5)]]
    show ?case .
  qed (simp_all add: log_spaced_def)
  with assms(4-7) show ?thesis unfolding log_spaced_def by blast
qed

end
