(* ===== verification/Controller_Data.thy ===== *)
theory Controller_Data
  imports Controller Queue_Correct "HOL-Library.Multiset"
begin

text \<open>
  Accounting for the transactions of a controller (\<open>AddTransaction\<close>, \<open>ReturnDoneTrans\<close>, \<open>TransToCommand\<close>,
  \<open>ScheduleTransaction\<close> and the completion part of \<open>IssueCommand\<close> in \<open>DRAMsim3/src/controller.cc\<close>).  An
  access is an address with its direction.  The accesses that wait in the transaction and command queues
  are exactly the pending ones, and the accesses not answered yet are the pending reads and the entries
  of the return queue.
\<close>

section \<open>Accesses\<close>

type_synonym access = "u64 \<times> bool"

definition access_of :: "Transaction \<Rightarrow> access" where
  "access_of tr = (trans_addr tr, is_write tr)"

definition cmd_access :: "Command \<Rightarrow> access" where
  "cmd_access x = (hex_addr x, \<not> IsRead x)"

definition queued :: "CommandQueue \<Rightarrow> access multiset" where
  "queued q = image_mset cmd_access (mset (concat (queues q)))"

text \<open>The accesses on their way to the channel, and the ones the pending tables promise.\<close>

definition waiting :: "Controller \<Rightarrow> access multiset" where
  "waiting t = image_mset access_of (mset (unified_trans t @ read_queue t @ write_buffer t)) + queued (cmd_queue t)"

definition promised :: "Controller \<Rightarrow> access multiset" where
  "promised t = image_mset (\<lambda>a. (a, False)) (mset_set (fst ` set (pending_rd_q t))) +
     image_mset (\<lambda>e. (fst e, True)) (mset (pending_wr_q t))"

definition unanswered :: "Controller \<Rightarrow> access multiset" where
  "unanswered t = image_mset access_of (mset (map snd (pending_rd_q t)) + mset (return_queue t))"

definition accounted :: "Controller \<Rightarrow> bool" where
  "accounted t \<longleftrightarrow> waiting t = promised t \<and> distinct (map fst (pending_wr_q t)) \<and>
     (\<forall>e \<in> set (pending_rd_q t). access_of (snd e) = (fst e, False))"

lemma on_stats_sel [simp]:
  "ctl_clk (on_stats f t) = ctl_clk t" "cmd_queue (on_stats f t) = cmd_queue t" "refresh (on_stats f t) = refresh t"
  "is_unified_queue (on_stats f t) = is_unified_queue t" "unified_trans (on_stats f t) = unified_trans t"
  "read_queue (on_stats f t) = read_queue t" "write_buffer (on_stats f t) = write_buffer t"
  "trans_capacity (on_stats f t) = trans_capacity t" "clk_last_write_drain (on_stats f t) = clk_last_write_drain t"
  "clk_last_opp_write_drain (on_stats f t) = clk_last_opp_write_drain t"
  "pending_rd_q (on_stats f t) = pending_rd_q t" "pending_wr_q (on_stats f t) = pending_wr_q t"
  "return_queue (on_stats f t) = return_queue t" "ctl_row_buf_policy (on_stats f t) = ctl_row_buf_policy t"
  "last_trans_clk (on_stats f t) = last_trans_clk t" "write_draining (on_stats f t) = write_draining t"
  by (simp_all add: on_stats_def Let_def)

text \<open>The part of the controller the accounting looks at.\<close>

definition same_data :: "Controller \<Rightarrow> Controller \<Rightarrow> bool" where
  "same_data t t' \<longleftrightarrow> waiting t' = waiting t \<and> pending_rd_q t' = pending_rd_q t \<and> pending_wr_q t' = pending_wr_q t \<and>
     return_queue t' = return_queue t"

lemma same_dataD:
  assumes "same_data t t'"
  shows "accounted t' = accounted t" and "unanswered t' = unanswered t" and "waiting t' = waiting t"
    and "promised t' = promised t"
  using assms by (simp_all add: same_data_def accounted_def unanswered_def promised_def)

lemma waiting_cong:
  "unified_trans t' = unified_trans t \<Longrightarrow> read_queue t' = read_queue t \<Longrightarrow> write_buffer t' = write_buffer t \<Longrightarrow>
     queued (cmd_queue t') = queued (cmd_queue t) \<Longrightarrow> waiting t' = waiting t"
  by (simp add: waiting_def)

lemma same_dataI:
  "unified_trans t' = unified_trans t \<Longrightarrow> read_queue t' = read_queue t \<Longrightarrow> write_buffer t' = write_buffer t \<Longrightarrow>
     queued (cmd_queue t') = queued (cmd_queue t) \<Longrightarrow> pending_rd_q t' = pending_rd_q t \<Longrightarrow>
     pending_wr_q t' = pending_wr_q t \<Longrightarrow> return_queue t' = return_queue t \<Longrightarrow> same_data t t'"
  by (simp add: same_data_def waiting_def)

section \<open>Pending tables\<close>

lemma mm_count_zero: "mm_count m a = 0 \<longleftrightarrow> a \<notin> fst ` set m"
  by (auto simp: mm_count_def filter_empty_conv)

lemma mm_count_snoc_one: "mm_count (m @ [(a, x)]) a = 1 \<longleftrightarrow> a \<notin> fst ` set m"
  using mm_count_zero [of m a] by (simp add: mm_count_def)

lemma promised_read:
  "promised (t\<lparr>pending_rd_q := pending_rd_q t @ [(a, x)]\<rparr>) =
     (if a \<in> fst ` set (pending_rd_q t) then promised t else add_mset (a, False) (promised t))"
  by (simp add: promised_def insert_absorb)

lemma accounted_read_in_promised: "(a, False) \<in># promised t \<longleftrightarrow> a \<in> fst ` set (pending_rd_q t)"
  by (auto simp: promised_def)

lemma accounted_write_in_promised: "(a, True) \<in># promised t \<longleftrightarrow> a \<in> fst ` set (pending_wr_q t)"
  by (auto simp: promised_def)

lemma Controller_AddTransaction_accounts:
  assumes "accounted t"
  shows "case Controller_AddTransaction tr t of (ok, t') \<Rightarrow> ok \<and> accounted t' \<and>
    unanswered t' = add_mset (access_of tr) (unanswered t)"
  using assms
  by (auto simp: Controller_AddTransaction_def Let_def accounted_def mm_count_zero mm_count_snoc_one [simplified] waiting_def
      promised_def unanswered_def access_of_def insert_absorb)


section \<open>Completed transactions\<close>

lemma mset_erase_first:
  "find p xs = Some x \<Longrightarrow> mset xs = add_mset x (mset (erase_first p xs))"
  by (induction xs) (auto split: if_splits)

lemma find_member: "find p xs = Some x \<Longrightarrow> p x \<and> x \<in> set xs"
  by (induction xs) (auto split: if_splits)

text \<open>The answer a call of \<open>ReturnDoneTrans\<close> stands for; \<open>(-1, -1)\<close> is no answer.\<close>

definition answer_of :: "u64 \<times> int \<Rightarrow> access multiset" where
  "answer_of r = (if snd r = -1 then {#} else {#(fst r, snd r \<noteq> 0)#})"

lemma ReturnDoneTrans_accounts:
  assumes "accounted t"
  shows "case ReturnDoneTrans clk t of (r, t') \<Rightarrow> accounted t' \<and> unanswered t = answer_of r + unanswered t'"
proof (cases "find (\<lambda>r. clk \<ge> complete_cycle r) (return_queue t)")
  case None
  then show ?thesis using assms by (simp add: ReturnDoneTrans_def answer_of_def)
next
  case (Some r)
  let ?q = "erase_first (\<lambda>r. clk \<ge> complete_cycle r) (return_queue t)"
  obtain t' where t': "ReturnDoneTrans clk t = ((trans_addr r, of_bool (is_write r)), t'\<lparr>return_queue := ?q\<rparr>)"
    "same_data t t'"
  proof (cases "is_write r")
    case True
    then show thesis
      using Some by (intro that [of "on_stats (Increment ''num_writes_done'') t"]) (simp_all add: ReturnDoneTrans_def same_dataI)
  next
    case False
    then show thesis
      using Some by (intro that [of "on_stats (AddValue ''read_latency'' (u64_to_int (ctl_clk t - added_cycle r)))
        (on_stats (Increment ''num_reads_done'') t)"]) (simp_all add: ReturnDoneTrans_def same_dataI)
  qed
  have "accounted (t'\<lparr>return_queue := ?q\<rparr>)"
    using assms same_dataD(1) [OF t'(2)] by (simp add: accounted_def waiting_def promised_def)
  moreover have "unanswered t = add_mset (access_of r) (unanswered (t'\<lparr>return_queue := ?q\<rparr>))"
    using mset_erase_first [OF Some] t'(2) by (simp add: unanswered_def same_data_def)
  ultimately show ?thesis by (simp add: t'(1) answer_of_def access_of_def)
qed

text \<open>Issuing a read or write that was taken off its queue: the pending entries of its access are there, so
  neither of the two calls of \<open>exit(1)\<close> is reached, and a read moves all of them to the return queue.\<close>

lemma complete_reads_accounts:
  assumes "\<forall>e \<in> set (pending_rd_q t). access_of (snd e) = (fst e, False)"
  shows "unanswered (complete_reads c a t) = unanswered t"
proof -
  have split_at: "mset (pending_rd_q t) =
      mset (filter (\<lambda>e. fst e = a) (pending_rd_q t)) + mset (filter (\<lambda>e. \<not> fst e = a) (pending_rd_q t))" by simp
  have "image_mset access_of (mset (map snd (pending_rd_q t))) =
      image_mset (access_of \<circ> snd) (mset (filter (\<lambda>e. fst e = a) (pending_rd_q t))) +
      image_mset (access_of \<circ> snd) (mset (filter (\<lambda>e. \<not> fst e = a) (pending_rd_q t)))"
    by (subst image_mset_union [symmetric], subst split_at [symmetric]) (simp add: image_mset.compositionality)
  then show ?thesis
    by (simp add: unanswered_def complete_reads_def Let_def access_of_def image_mset.compositionality comp_def)
qed

lemma promised_complete_reads:
  assumes "a \<in> fst ` set (pending_rd_q t)"
  shows "promised t = add_mset (a, False) (promised (complete_reads c a t))"
proof -
  have "fst ` set (filter (\<lambda>e. fst e \<noteq> a) (pending_rd_q t)) = fst ` set (pending_rd_q t) - {a}" by auto
  then show ?thesis
    using assms by (simp add: promised_def complete_reads_def Let_def mset_set.remove)
qed

lemma erase_pending_write:
  assumes "distinct (map fst m)" and "a \<in> fst ` set m"
  obtains x where "find (\<lambda>e. fst e = a) m = Some (a, x)"
    and "image_mset (\<lambda>e. (fst e, True)) (mset m) =
      add_mset (a, True) (image_mset (\<lambda>e. (fst e, True)) (mset (erase_first (\<lambda>e. fst e = a) m)))"
    and "distinct (map fst (erase_first (\<lambda>e. fst e = a) m))"
proof -
  have "find (\<lambda>e. fst e = a) m \<noteq> None" using assms(2) by (auto simp: find_None_iff)
  then obtain e where e: "find (\<lambda>e. fst e = a) m = Some e" by blast
  then obtain x where x: "e = (a, x)" using find_member [OF e] by (cases e) auto
  show thesis
    using e mset_erase_first [OF e] distinct_map_erase_first [OF assms(1)] by (intro that [of x]) (simp_all add: x)
qed

lemma retire_pending_accounts:
  assumes "IsReadWrite cmd" and "waiting t + {#cmd_access cmd#} = promised t" and "distinct (map fst (pending_wr_q t))"
    and "\<forall>e \<in> set (pending_rd_q t). access_of (snd e) = (fst e, False)"
  shows "succeeds (retire_pending c cmd t) (\<lambda>t'. accounted t' \<and> unanswered t' = unanswered t)"
proof (cases "IsRead cmd")
  case True
  have "(hex_addr cmd, False) \<in># promised t"
    using True assms(2) by (metis cmd_access_def union_single_eq_member union_iff add_mset_add_single)
  then have a: "hex_addr cmd \<in> fst ` set (pending_rd_q t)" by (simp only: accounted_read_in_promised)
  have "accounted (complete_reads c (hex_addr cmd) t)"
    using assms(2-4) promised_complete_reads [OF a, of c] True
    by (auto simp: accounted_def complete_reads_def waiting_def Let_def cmd_access_def)
  then show ?thesis
    using True a complete_reads_accounts [OF assms(4)] by (simp add: retire_pending_def mm_count_zero)
next
  case False
  then have w: "IsWrite cmd" using assms(1) by (simp add: IsReadWrite_def)
  have "(hex_addr cmd, True) \<in># promised t"
    using False assms(2) by (metis cmd_access_def union_single_eq_member union_iff add_mset_add_single)
  then have "hex_addr cmd \<in> fst ` set (pending_wr_q t)" by (simp only: accounted_write_in_promised)
  then obtain x where x: "find (\<lambda>e. fst e = hex_addr cmd) (pending_wr_q t) = Some (hex_addr cmd, x)"
    "image_mset (\<lambda>e. (fst e, True)) (mset (pending_wr_q t)) =
      add_mset (hex_addr cmd, True) (image_mset (\<lambda>e. (fst e, True)) (mset (erase_first (\<lambda>e. fst e = hex_addr cmd) (pending_wr_q t))))"
    "distinct (map fst (erase_first (\<lambda>e. fst e = hex_addr cmd) (pending_wr_q t)))"
    by (rule erase_pending_write [OF assms(3)])
  show ?thesis
    using assms(2,4) x False w
    by (simp add: retire_pending_def Let_def accounted_def unanswered_def waiting_def promised_def cmd_access_def)
qed

end
