(* ===== verification/Channel_View.thy ===== *)
theory Channel_View
  imports Channel_Progress
begin

text \<open>
  Parts of a channel that the updates leave alone, as interfaces: a view that does not look at the banks is
  kept by every timing loop, one that does not look at the alert and the shared state either is kept by the
  alert checks and the bank updates, and one that does not look at the count of activations is kept by the
  whole timing update of every command but \<open>ACTIVATE\<close>.
\<close>

locale bank_frame =
  fixes view :: "ChannelState \<Rightarrow> 'v"
  assumes bank_states: "view (ch\<lparr>bank_states := bs\<rparr>) = view ch"
begin

lemma set_bank_view: "on_success (set_bank i j k b ch) (\<lambda>ch'. view ch' = view ch)"
  by (simp add: set_bank_def wp bank_states)

lemma delay_banks_view: "on_success (delay_banks l clk xs ch) (\<lambda>ch'. view ch' = view ch)"
proof -
  have step: "on_success (bind_res (get_bank ch1 i j k) (\<lambda>b. bind_res (apply_timing l clk b) (\<lambda>b. set_bank i j k b ch1)))
      (\<lambda>ch'. view ch' = view ch)" if "view ch1 = view ch" for i j k ch1
    by (rule on_success_bindI [OF on_success_True], rule on_success_bindI [OF on_success_True],
        rule on_success_mono [OF set_bank_view]) (use that in simp)
  have "on_success (fold_res (\<lambda>(i, j, k) ch.
        bind_res (get_bank ch i j k) (\<lambda>b. bind_res (apply_timing l clk b) (\<lambda>b. set_bank i j k b ch))) xs ch)
      (\<lambda>ch'. view ch' = view ch)"
    by (rule fold_res_on_success) (use step in \<open>auto simp del: on_success_bind\<close>)
  then show ?thesis by (simp add: delay_banks_def)
qed

lemma bank_command_timing_view:
  "on_success (bank_command_timing c tm cmd clk ch) (\<lambda>ch'. view ch' = view ch)"
proof -
  note d = on_success_bindI [OF delay_banks_view]
  show ?thesis
    unfolding bank_command_timing_def UpdateSameBankTiming_def UpdateOtherBanksSameBankgroupTiming_def
      UpdateOtherBankgroupsSameRankTiming_def UpdateOtherRanksTiming_def
    by (rule d, rule d, rule d, rule on_success_mono [OF delay_banks_view]) simp
qed

end

locale alert_frame = bank_frame +
  assumes alert: "view (ch\<lparr>alert_n := a, last_alert_clk := clk\<rparr>) = view ch"
    and shared: "view (ch\<lparr>shared := sh\<rparr>) = view ch"
begin

lemma check_bank_alert_view: "on_success (check_bank_alert c clk x ch) (\<lambda>ch'. view ch' = view ch)"
  by (auto simp: check_bank_alert_def alert shared split: prod.splits intro!: on_success_always)

lemma TriggerSameBankAlert_view: "on_success (TriggerSameBankAlert c cmd clk ch) (\<lambda>ch'. view ch' = view ch)"
  using check_bank_alert_view by (simp add: TriggerSameBankAlert_def)

lemma TriggerSameRankAlert_view: "on_success (TriggerSameRankAlert c cmd clk ch) (\<lambda>ch'. view ch' = view ch)"
proof -
  have step: "on_success (if alert_n ch1 then Inr ch1 else check_bank_alert c clk x ch1) (\<lambda>ch'. view ch' = view ch)"
    if "view ch1 = view ch" for x ch1
    using check_bank_alert_view [of c clk x ch1] that by simp
  have "on_success (fold_res (\<lambda>x ch. if alert_n ch then Inr ch else check_bank_alert c clk x ch)
      (rank_coords c (Rank cmd)) ch) (\<lambda>ch'. view ch' = view ch)"
    by (rule fold_res_on_success) (rule refl, rule step)
  then show ?thesis by (simp add: TriggerSameRankAlert_def)
qed

lemma update_bank_view: "on_success (update_bank bo c cmd clk x ch) (\<lambda>ch'. view ch' = view ch)"
proof -
  obtain i j k where x: "x = (i, j, k)" by (cases x) auto
  show ?thesis
    unfolding update_bank_def x split_conv
    by (rule on_success_bindI [OF on_success_True], rule on_success_bindI [OF on_success_True], clarify,
        rule on_success_mono [OF set_bank_view]) (simp add: shared)
qed

lemma update_banks_view: "on_success (fold_res (update_bank bo c cmd clk) xs ch) (\<lambda>ch'. view ch' = view ch)"
proof (rule fold_res_on_success)
  show "on_success (update_bank bo c cmd clk x ch1) (\<lambda>ch'. view ch' = view ch)" if "view ch1 = view ch" for x ch1
    using update_bank_view [of bo c cmd clk x ch1] that by simp
qed simp

end

locale timing_frame = alert_frame +
  assumes acts: "view (ch\<lparr>num_acts_abo := n\<rparr>) = view ch"
begin

lemma UpdateTiming_view:
  assumes "cmd_type cmd = ACTIVATE \<longrightarrow>
    (\<forall>ch. on_success (UpdateActivationTimes c (Rank cmd) clk ch) (\<lambda>ch'. view ch' = view ch))"
  shows "on_success (ChannelState_UpdateTiming c tm cmd clk ch) (\<lambda>ch'. view ch' = view ch)"
proof -
  have bank: "on_success (bank_command_timing c tm cmd clk ch1) (\<lambda>ch'. view ch' = view ch)" if "view ch1 = view ch" for ch1
    using bank_command_timing_view [of c tm cmd clk ch1] that by simp
  have delay: "on_success (delay_banks l clk xs ch1) (\<lambda>ch'. view ch' = view ch)" if "view ch1 = view ch" for l xs ch1
    using delay_banks_view [of l clk xs ch1] that by simp
  have rank_alert: "on_success (TriggerSameRankAlert c cmd clk ch1) (\<lambda>ch'. view ch' = view ch)" if "view ch1 = view ch" for ch1
    using TriggerSameRankAlert_view [of c cmd clk ch1] that by simp
  have bank_alert: "on_success (bind_res (TriggerSameBankAlert c cmd clk ch1) (bank_command_timing c tm cmd clk))
      (\<lambda>ch'. view ch' = view ch)" if "view ch1 = view ch" for ch1
    by (rule on_success_bindI [OF TriggerSameBankAlert_view bank]) (use that in simp)
  have set_delay: "on_success (bind_res (delay_banks l clk xs ch1) (\<lambda>ch. delay_banks m clk ys ch))
      (\<lambda>ch'. view ch' = view ch)" if "view ch1 = view ch" for l xs m ys ch1
    by (rule on_success_bindI [OF delay [OF that] delay])
  have act: "on_success (bind_res (UpdateActivationTimes c (Rank cmd) clk (ch\<lparr>num_acts_abo := n\<rparr>))
      (\<lambda>ch. bind_res (TriggerSameBankAlert c cmd clk ch) (bank_command_timing c tm cmd clk))) (\<lambda>ch'. view ch' = view ch)"
    if act: "cmd_type cmd = ACTIVATE" for n
  proof (rule on_success_bindI [OF _ bank_alert])
    show "on_success (UpdateActivationTimes c (Rank cmd) clk (ch\<lparr>num_acts_abo := n\<rparr>)) (\<lambda>ch'. view ch' = view ch)"
      using assms act by (metis acts)
  qed
  show ?thesis
    using act bank_alert [of ch] bank [of ch] delay [of ch]
      on_success_bindI [OF rank_alert delay] on_success_bindI [OF rank_alert set_delay]
    unfolding ChannelState_UpdateTiming_def Let_def UpdateSameRankTiming_def UpdateSameBankset_def UpdateOtherBanksets_def
    by (simp add: acts del: on_success_bind)
qed

end

end
