(* ===== verification/Channel_Windows.thy ===== *)
theory Channel_Windows
  imports Channel_Protocol Channel_View
begin

text \<open>
  The activation windows of a channel in its runs: the window of a rank is a function of the cycles at
  which the rank was activated, and the interface of the sliding window gives the spacing.
\<close>

section \<open>Who changes the windows\<close>

abbreviation windows :: "ChannelState \<Rightarrow> u64 list list \<times> u64 list list" where
  "windows ch \<equiv> (four_aw ch, thirty_two_aw ch)"

interpretation aw: timing_frame windows
  by unfold_locales simp_all

abbreviation view :: "ChannelState \<Rightarrow> (u64 list list \<times> u64 list list) \<times> bool" where
  "view ch \<equiv> (windows ch, alert_n ch)"

interpretation shown: bank_frame view
  by unfold_locales simp

text \<open>The windows after the update for a command.\<close>

definition pushed :: "Config \<Rightarrow> Command \<Rightarrow> u64 \<Rightarrow> ChannelState \<Rightarrow> ChannelState \<Rightarrow> bool" where
  "pushed c cmd clk ch ch' \<longleftrightarrow>
     (if cmd_type cmd = ACTIVATE then
        four_aw ch' = (four_aw ch)[nat (Rank cmd) := window_push (tFAW c) clk (four_aw ch ! nat (Rank cmd))] \<and>
        (IsGDDR c \<longrightarrow> thirty_two_aw ch' =
           (thirty_two_aw ch)[nat (Rank cmd) := window_push (t32AW c) clk (thirty_two_aw ch ! nat (Rank cmd))])
      else windows ch' = windows ch)"

lemma UpdateTiming_pushes: "on_success (ChannelState_UpdateTiming c tm cmd clk ch) (pushed c cmd clk ch)"
proof (cases "cmd_type cmd = ACTIVATE")
  case True
  have upd: "on_success (UpdateActivationTimes c (Rank cmd) clk (ch\<lparr>num_acts_abo := n\<rparr>)) (pushed c cmd clk ch)" for n
    by (auto simp: UpdateActivationTimes_def pushed_def True wp Let_def)
  have "on_success (bank_command_timing c tm cmd clk ch2) (pushed c cmd clk ch)" if "pushed c cmd clk ch ch2" for ch2
    by (rule on_success_mono [OF aw.bank_command_timing_view]) (use that in \<open>auto simp: pushed_def\<close>)
  then have alert: "on_success (bind_res (TriggerSameBankAlert c cmd clk ch1) (bank_command_timing c tm cmd clk)) (pushed c cmd clk ch)"
    if "pushed c cmd clk ch ch1" for ch1
    by (intro on_success_bindI [OF aw.TriggerSameBankAlert_view]) (use that in \<open>auto simp: pushed_def\<close>)
  have "on_success (bind_res (UpdateActivationTimes c (Rank cmd) clk (ch\<lparr>num_acts_abo := num_acts_abo ch + 1\<rparr>))
      (\<lambda>ch. bind_res (TriggerSameBankAlert c cmd clk ch) (bank_command_timing c tm cmd clk))) (pushed c cmd clk ch)"
    by (rule on_success_bindI [OF upd alert])
  then show ?thesis
    unfolding ChannelState_UpdateTiming_def Let_def True by simp
next
  case False
  have "on_success (ChannelState_UpdateTiming c tm cmd clk ch) (\<lambda>ch'. windows ch' = windows ch)"
    by (rule aw.UpdateTiming_view) (use False in simp)
  then show ?thesis by (rule on_success_mono) (use False in \<open>simp add: pushed_def\<close>)
qed

section \<open>The windows of a run\<close>

definition act_times :: "int \<Rightarrow> command_log \<Rightarrow> u64 list" where
  "act_times i log = map fst (filter (\<lambda>(t, q). cmd_type q = ACTIVATE \<and> Rank q = i) log)"

definition windows_inv :: "Config \<Rightarrow> int \<Rightarrow> command_log \<Rightarrow> ChannelState \<Rightarrow> bool" where
  "windows_inv c i log ch \<longleftrightarrow>
     sorted (act_times i log) \<and>
     four_aw ch ! nat i = faw.window_of c (act_times i log) \<and> faw.admitted c (act_times i log) \<and>
     (IsGDDR c \<longrightarrow> thirty_two_aw ch ! nat i = aw32.window_of c (act_times i log) \<and> aw32.admitted c (act_times i log))"

lemma windows_inv_cong: "windows ch' = windows ch \<Longrightarrow> windows_inv c i log ch' = windows_inv c i log ch"
  by (simp add: windows_inv_def)

lemma windows_inv_execute:
  assumes "windows_inv c i log ch" and "pushed c cmd clk ch ch'" and "\<forall>(t, q) \<in> set log. t \<le> clk"
    and "cmd_type cmd = ACTIVATE \<longrightarrow> windows_ready c ch (Rank cmd) clk"
    and "chan_shape c ch" and "0 \<le> i" and "i < ranks c" and "0 \<le> Rank cmd" and "Rank cmd < ranks c"
  shows "windows_inv c i (log @ [(clk, cmd)]) ch'"
proof (cases "cmd_type cmd = ACTIVATE \<and> Rank cmd = i")
  case True
  have len: "nat i < length (four_aw ch)" "nat i < length (thirty_two_aw ch)"
    using assms(5-7) by (auto simp: chan_shape_def)
  have acts: "act_times i (log @ [(clk, cmd)]) = act_times i log @ [clk]" using True by (simp add: act_times_def)
  have before: "\<forall>s \<in> set (act_times i log). s \<le> clk" using assms(3) by (auto simp: act_times_def)
  show ?thesis
    using assms(1,2,4) True len before
    by (auto simp: windows_inv_def acts pushed_def windows_ready_def sorted_append
        faw.window_of_snoc faw.admitted_snoc aw32.window_of_snoc aw32.admitted_snoc)
next
  case False
  then have acts: "act_times i (log @ [(clk, cmd)]) = act_times i log" by (auto simp: act_times_def)
  have "nat (Rank cmd) \<noteq> nat i" if "cmd_type cmd = ACTIVATE" using False that assms(6,8) by auto
  then show ?thesis
    using assms(1,2) by (auto simp: windows_inv_def acts pushed_def split: if_splits)
qed

lemma execute_pushes:
  assumes "UpdateTimingAndStates bo c tm cmd clk ch = Inr ch'" and "chan_wf c nr ch" and "cfg_wf c" and "addr_ok c cmd"
    and "\<forall>x \<in> set (touched c cmd). command_fits c (bk ch x) cmd \<and>
           rb_step (cmd_type cmd) (Row cmd) (abs_bank (bk ch x)) \<noteq> None"
  shows "pushed c cmd clk ch ch'"
proof -
  obtain ch1 where ch1: "ChannelState_UpdateState bo c cmd clk ch = Inr ch1"
    and upd: "ChannelState_UpdateTiming c tm cmd clk ch1 = Inr ch'"
    using assms(1) by (auto simp: UpdateTimingAndStates_def bind_res_eq_Inr)
  have "windows ch1 = windows ch"
    using chan_update_succeeds [OF assms(2-5), of bo clk] ch1 by (simp add: chan_stepped_def)
  then show ?thesis
    using UpdateTiming_pushes [of c tm cmd clk ch1] upd by (simp add: pushed_def)
qed

lemma chan_run_windows:
  assumes "chan_run bo c log ch" and "cfg_wf c" and "geom_wf c" and "0 \<le> i" and "i < ranks c"
  shows "windows_inv c i log ch"
  using assms(1)
proof (induction rule: chan_run.induct)
  case (start m sh ch)
  then have "four_aw ch = replicate (nat (ranks c)) []" "thirty_two_aw ch = replicate (nat (ranks c)) []"
    by (auto simp: new_ChannelState_def bind_res_eq_Inr)
  then show ?case
    using assms(4,5) by (simp add: windows_inv_def act_times_def faw.window_of_def aw32.window_of_def
        faw.admitted_def aw32.admitted_def)
next
  case (query log ch cmd clk cmd' ch')
  have "chan_wf c (ranks c) ch" using chan_run_invariant [OF query.hyps(1) assms(2,3)] by simp
  then have "query_post c (ranks c) cmd clk ch (cmd', ch')"
    using GetReadyCommand_post [OF assms(2,3) _ query.hyps(2), of "ranks c" bo clk] query.hyps(3) by simp
  then have "windows ch' = windows ch" by (simp add: query_post_def)
  then show ?case using query.IH windows_inv_cong by blast
next
  case (execute log ch cmd clk cmd' ch' ch'')
  have wf: "chan_wf c (ranks c) ch" using chan_run_invariant [OF execute.hyps(1) assms(2,3)] by simp
  have q: "query_post c (ranks c) cmd clk ch (cmd', ch')"
    using GetReadyCommand_post [OF assms(2,3) wf execute.hyps(2), of bo clk] execute.hyps(4) by simp
  then have q': "windows ch' = windows ch" "addr_ok c cmd'" "chan_wf c (ranks c) ch'" "bk ch' = bk ch"
    "cmd_type cmd' = ACTIVATE \<longrightarrow> windows_ready c ch (Rank cmd') clk"
    "\<forall>x \<in> set (touched c cmd'). rb_step (cmd_type cmd') (Row cmd') (abs_bank (bk ch x)) \<noteq> None"
    using execute.hyps(5) by (auto simp: query_post_def)
  have "pushed c cmd' clk ch' ch''"
    using execute_pushes [OF execute.hyps(7) q'(3) assms(2) q'(2)] q'(4,6)
      query_fits [OF q execute.hyps(5,2,3)] by simp
  then have "pushed c cmd' clk ch ch''" using q'(1) by (simp add: pushed_def)
  then show ?case
    using windows_inv_execute [OF execute.IH _ execute.hyps(6) q'(5)] wf q'(2) assms(4,5)
    by (simp add: chan_wf_def addr_ok_def)
qed (simp_all add: windows_inv_def)

text \<open>C3. In every run of a channel, the first and the last of any five successive activations of a rank
  are at least \<open>tFAW\<close> apart, and in a GDDR channel the first and the last of any thirty-three at least
  \<open>t32AW\<close>: the four-activation window is respected for every interleaving of requests.\<close>

theorem activation_windows_respected:
  assumes "chan_run bo c log ch" and "cfg_wf c" and "geom_wf c" and "0 \<le> i" and "i < ranks c"
  shows "(\<forall>k. k + 4 < length (act_times i log) \<longrightarrow>
      act_times i log ! k + to_u64 (tFAW c) \<le> act_times i log ! (k + 4)) \<and>
    (IsGDDR c \<longrightarrow> (\<forall>k. k + 32 < length (act_times i log) \<longrightarrow>
      act_times i log ! k + to_u64 (t32AW c) \<le> act_times i log ! (k + 32)))"
  using chan_run_windows [OF assms] faw.spaced aw32.spaced by (auto simp: windows_inv_def)

section \<open>A sample run\<close>

text \<open>Without alerts a bank-level command leaves the alert as it was.\<close>

lemma UpdateTiming_no_alert:
  assumes "alert_mode c \<noteq> 1" and "bank_class (cmd_type cmd)"
  shows "on_success (ChannelState_UpdateTiming c tm cmd clk ch) (\<lambda>ch'. alert_n ch' = alert_n ch)"
proof -
  have same: "TriggerSameBankAlert c cmd clk ch1 = Inr ch1" for ch1
    using assms(1) by (simp add: TriggerSameBankAlert_def check_bank_alert_def case_prod_unfold)
  have bank: "on_success (bank_command_timing c tm cmd clk ch1) (\<lambda>ch'. alert_n ch' = alert_n ch)"
    if "alert_n ch1 = alert_n ch" for ch1
    by (rule on_success_mono [OF shown.bank_command_timing_view]) (use that in simp)
  have "on_success (UpdateActivationTimes c i clk (ch\<lparr>num_acts_abo := n\<rparr>)) (\<lambda>ch'. alert_n ch' = alert_n ch)" for i n
    by (simp add: UpdateActivationTimes_def wp Let_def)
  from on_success_bindI [OF this bank] bank show ?thesis
    using assms(2) by (auto simp: ChannelState_UpdateTiming_def Let_def same simp del: on_success_bind)
qed

abbreviation plain_Build :: Build where
  "plain_Build \<equiv> sample_Build\<lparr>ROWPRESS := False\<rparr>"

abbreviation sample_ACT :: Command where
  "sample_ACT \<equiv> mk_Command ACTIVATE (addr (sample_read 5)) (hex_addr (sample_read 5))"

lemma sample_read_sel [simp]:
  "cmd_type (sample_read r) = READ" "Rank (sample_read r) = 0" "Bankgroup (sample_read r) = 0"
  "Bank (sample_read r) = 0" "Row (sample_read r) = r"
  by (simp_all add: sample_read_def)

lemma sample_accepts: "chan_accepts sample_Config ch (sample_read 5)"
  by (simp add: chan_accepts_def addr_ok_def is_rw_type_def IsRankCMD_def IsSbCMD_def sample_Config_sel)

lemma sample_in_channel: "in_channel sample_Config (0, 0, 0)"
  by (simp add: in_channel_def sample_Config_sel)

lemma sample_fits: "chan_fits sample_Config sample_channel"
  using sample_channel_wf(2) by (simp add: chan_fits_def fresh_channel_def fresh_bank_def)

lemma sample_query_1:
  "ChannelState_GetReadyCommand plain_Build sample_Config (sample_read 5) 100 sample_channel =
     Inr (sample_ACT, sample_channel)"
proof -
  have b: "fresh_bank sample_Config (bk sample_channel (0, 0, 0))" "\<not> alert_n sample_channel"
    "four_aw sample_channel = [[], []]"
    using sample_channel_wf(2) sample_in_channel by (auto simp: fresh_channel_def sample_Config_sel numeral_2_eq_2)
  have "get_bank sample_channel 0 0 0 = Inr (bk sample_channel (0, 0, 0))"
    by (rule get_bank_ok [OF _ sample_in_channel]) (use sample_channel_wf(1) in \<open>simp add: chan_wf_def\<close>)
  moreover have "BankState_GetReadyCommand plain_Build sample_Config (bk sample_channel (0, 0, 0)) (sample_read 5) 100
      (shared sample_channel) = Inr (sample_ACT, shared sample_channel)"
    using b(1) by (simp add: BankState_GetReadyCommand_def required_type_def is_rw_type_def fresh_bank_def
        sample_Config_sel vec_get_def)
  ultimately show ?thesis
    using b(2,3) by (simp add: ChannelState_GetReadyCommand_def IsRankCMD_def IsSbCMD_def ActivationWindowOk_def
        IsFAWReady_def vec_get_def window_ready_def IsGDDR_def sample_Config_sel)
qed

lemma sample_run_1:
  obtains ch where "chan_run plain_Build sample_Config [(100, sample_ACT)] ch"
    and "executed sample_Config 2 (new_Timing sample_Config) sample_ACT 100 sample_channel ch" and "\<not> alert_n ch"
proof -
  let ?c = sample_Config
  have shared: "shared_wf (ranks ?c) sample_Shared" using sample_wf(3) by (simp add: sample_Config_sel)
  have start: "chan_run plain_Build ?c [] sample_channel"
    by (rule chan_run.start [OF sample_channel_eq shared])
  have q: "query_post ?c 2 (sample_read 5) 100 sample_channel (sample_ACT, sample_channel)"
    using GetReadyCommand_post [OF sample_wf(1) sample_geom sample_channel_wf(1) sample_accepts, of plain_Build 100]
    by (simp add: sample_query_1)
  obtain ch where ch: "UpdateTimingAndStates plain_Build ?c (new_Timing ?c) sample_ACT 100 sample_channel = Inr ch"
    "executed ?c 2 (new_Timing ?c) sample_ACT 100 sample_channel ch"
    using execute_succeeds [OF sample_wf(1) tables_ok_new_Timing sample_accepts sample_fits q, of plain_Build ?c]
    by (auto elim!: succeedsE)
  have "chan_run plain_Build ?c ([] @ [(100, sample_ACT)]) ch"
    by (rule chan_run.execute [OF start sample_accepts sample_fits sample_query_1 _ _ ch(1)]) simp_all
  moreover have "\<not> alert_n ch"
  proof -
    obtain ch1 where ch1: "ChannelState_UpdateState plain_Build ?c sample_ACT 100 sample_channel = Inr ch1"
      "ChannelState_UpdateTiming ?c (new_Timing ?c) sample_ACT 100 ch1 = Inr ch"
      using ch(1) by (auto simp: UpdateTimingAndStates_def bind_res_eq_Inr)
    have "\<forall>x \<in> set (touched ?c sample_ACT). command_fits ?c (bk sample_channel x) sample_ACT \<and>
        rb_step (cmd_type sample_ACT) (Row sample_ACT) (abs_bank (bk sample_channel x)) \<noteq> None"
      using q query_fits [OF q _ sample_accepts sample_fits] by (auto simp: query_post_def)
    moreover have "addr_ok ?c sample_ACT" using q by (simp add: query_post_def)
    ultimately have "alert_n ch1 \<longrightarrow> alert_n sample_channel"
      using chan_update_succeeds [OF sample_channel_wf(1) sample_wf(1), of sample_ACT plain_Build 100] ch1(1)
      by (simp add: chan_stepped_def)
    then show ?thesis
      using sample_channel_wf(2) UpdateTiming_no_alert [of ?c sample_ACT "new_Timing ?c" 100 ch1] ch1(2)
      by (simp add: fresh_channel_def sample_Config_sel)
  qed
  ultimately show thesis using ch(2) that by simp
qed

text \<open>The channel after the activation: the row is open, and the issue times of the bank are those of the table.\<close>

lemma sample_open:
  obtains ch where "chan_run plain_Build sample_Config [(100, sample_ACT)] ch" and "chan_wf sample_Config 2 ch"
    and "chan_fits sample_Config ch" and "\<not> alert_n ch" and "get_bank ch 0 0 0 = Inr (bk ch (0, 0, 0))"
    and "bank_state (bk ch (0, 0, 0)) = OPEN" and "open_row (bk ch (0, 0, 0)) = 5"
    and "cmd_timing (bk ch (0, 0, 0)) = fold (raise_one 100) (same_bank (new_Timing sample_Config) ACTIVATE) (replicate 16 0)"
proof -
  let ?c = sample_Config and ?x = "(0, 0, 0) :: coord"
  obtain ch where run: "chan_run plain_Build ?c [(100, sample_ACT)] ch"
    and ex: "executed ?c 2 (new_Timing ?c) sample_ACT 100 sample_channel ch" and quiet: "\<not> alert_n ch"
    by (rule sample_run_1)
  have touched: "?x \<in> set (touched ?c sample_ACT)" by (simp add: touched_def IsRankCMD_def IsSbCMD_def)
  have fresh: "fresh_bank ?c (bk sample_channel x)" if "in_channel ?c x" for x
    using sample_channel_wf(2) that unfolding fresh_channel_def by blast
  have "abs_bank (bk ch ?x) = the (rb_step ACTIVATE 5 (abs_bank (bk sample_channel ?x)))"
    using ex touched sample_in_channel by (simp add: executed_def)
  then have "abs_bank (bk ch ?x) = RB_Open 5"
    using fresh [OF sample_in_channel] by (simp add: fresh_bank_def abs_bank_def)
  then have open_bank: "bank_state (bk ch ?x) = OPEN" "open_row (bk ch ?x) = 5"
    by (simp_all add: abs_bank_def split: State.splits)
  have time: "cmd_timing (bk ch ?x) = fold (raise_one 100) (same_bank (new_Timing ?c) ACTIVATE) (replicate 16 0)"
    using ex fresh [OF sample_in_channel] sample_in_channel
    by (simp add: executed_def fresh_bank_def raise_timing_def delay_row_def)
  have fits: "chan_fits ?c ch"
    using ex fresh by (auto simp: chan_fits_def executed_def acts_kept_def fresh_bank_def IsRefresh_def)
  have wf: "chan_wf ?c 2 ch" using ex by (simp add: executed_def)
  have "get_bank ch 0 0 0 = Inr (bk ch ?x)"
    by (rule get_bank_ok [OF _ sample_in_channel]) (use wf in \<open>simp add: chan_wf_def\<close>)
  then show thesis using that [OF run wf fits quiet] open_bank time by simp
qed

lemmas sample_timing = init_same_bank_def raise_one_def activate_to_activate_def activate_to_read_def
  activate_to_write_def activate_to_precharge_def activate_to_precharge_2_def IsGDDR_def IsHBM_def sample_Config_sel

lemma sample_run_2:
  obtains ch where "chan_run plain_Build sample_Config [(100, sample_ACT), (200, sample_read 5)] ch"
proof -
  let ?c = sample_Config and ?x = "(0, 0, 0) :: coord"
  obtain ch where run: "chan_run plain_Build ?c [(100, sample_ACT)] ch" and wf: "chan_wf ?c 2 ch" and fits: "chan_fits ?c ch"
    and quiet: "\<not> alert_n ch" and get: "get_bank ch 0 0 0 = Inr (bk ch ?x)"
    and open_bank: "bank_state (bk ch ?x) = OPEN" "open_row (bk ch ?x) = 5"
    and time: "cmd_timing (bk ch ?x) = fold (raise_one 100) (same_bank (new_Timing ?c) ACTIVATE) (replicate 16 0)"
    by (rule sample_open)
  have same: "mk_Command READ (addr (sample_read 5)) (hex_addr (sample_read 5)) = sample_read 5"
    by (simp add: sample_read_def)
  have "BankState_GetReadyCommand plain_Build ?c (bk ch ?x) (sample_read 5) 200 (shared ch) = Inr (sample_read 5, shared ch)"
    by (simp add: BankState_GetReadyCommand_def required_type_def is_rw_type_def open_bank vec_get_def time same sample_timing)
  then have query: "ChannelState_GetReadyCommand plain_Build ?c (sample_read 5) 200 ch = Inr (sample_read 5, ch)"
    using quiet by (simp add: ChannelState_GetReadyCommand_def IsRankCMD_def IsSbCMD_def IsValid_def get)
  have q: "query_post ?c 2 (sample_read 5) 200 ch (sample_read 5, ch)"
    using GetReadyCommand_post [OF sample_wf(1) sample_geom wf sample_accepts, of plain_Build 200] by (simp add: query)
  obtain ch2 where "UpdateTimingAndStates plain_Build ?c (new_Timing ?c) (sample_read 5) 200 ch = Inr ch2"
    using execute_succeeds [OF sample_wf(1) tables_ok_new_Timing sample_accepts fits q, of plain_Build ?c]
    by (auto simp: IsValid_def elim!: succeedsE)
  from chan_run.execute [OF run sample_accepts fits query _ _ this] that show thesis
    by (simp add: IsValid_def)
qed


theorem command_spacing_witness:
  "\<exists>ch. chan_run plain_Build sample_Config [(100, sample_ACT), (200, sample_read 5)] ch \<and> (100 :: u64) + to_u64 10 \<le> 200"
proof -
  obtain ch where run: "chan_run plain_Build sample_Config [(100, sample_ACT), (200, sample_read 5)] ch"
    by (rule sample_run_2)
  have "(READ, 10) \<in> set (delay_row (new_Timing sample_Config) sample_ACT (0, 0, 0))"
    by (simp add: delay_row_def init_same_bank_def activate_to_read_def IsGDDR_def IsHBM_def sample_Config_sel)
  moreover have "(0, 0, 0) \<in> set (checked sample_Config (sample_read 5))"
    by (simp add: checked_def touched_def IsRankCMD_def IsSbCMD_def)
  ultimately show ?thesis
    using command_spacing [OF run sample_wf(1) sample_geom, of 0 1 "(0, 0, 0)" 10] run by auto
qed

theorem activation_windows_respected_witness:
  "\<exists>ch. chan_run plain_Build sample_Config [(100, sample_ACT), (200, sample_read 5)] ch \<and>
     act_times 0 [(100, sample_ACT), (200, sample_read 5)] = [100] \<and>
     (\<forall>k. k + 4 < length (act_times 0 [(100, sample_ACT), (200, sample_read 5)]) \<longrightarrow>
        act_times 0 [(100, sample_ACT), (200, sample_read 5)] ! k + to_u64 (tFAW sample_Config) \<le>
        act_times 0 [(100, sample_ACT), (200, sample_read 5)] ! (k + 4))"
proof -
  obtain ch where run: "chan_run plain_Build sample_Config [(100, sample_ACT), (200, sample_read 5)] ch"
    by (rule sample_run_2)
  from activation_windows_respected [OF run sample_wf(1) sample_geom, of 0] run show ?thesis
    by (auto simp: sample_Config_sel act_times_def)
qed

end
