(* ===== verification/Queue_Search.thy ===== *)
theory Queue_Search
  imports Queue_Correct Channel_Windows
begin

text \<open>
  The search for a command to issue (\<open>GetFirstReadyInQueue\<close>, \<open>GetCommandToIssue\<close> and \<open>EraseRWCommand\<close> of
  \<open>DRAMsim3/src/command_queue.cc\<close>): it never fails, it serves a queued command whose bank is ready, writes
  stay behind older reads of the same location, a row with pending hits is not closed early, and exactly
  the issued access leaves its queue.
\<close>

section \<open>The answer to one queued command\<close>

lemma single_query_form:
  assumes "\<not> IsRankCMD cmd" and "\<not> IsSbCMD cmd" and "ChannelState_GetReadyCommand bo c cmd clk ch = Inr (cmd', ch')"
    and "IsValid cmd'"
  shows "\<exists>b t sh. required_type bo c b cmd clk (shared ch) = Inr (t, sh) \<and> cmd' = mk_Command t (addr cmd) (hex_addr cmd)"
proof -
  obtain b q sh where "BankState_GetReadyCommand bo c b cmd clk (shared ch) = Inr (q, sh)" "IsValid q" "cmd' = q"
    using assms by (auto simp: ChannelState_GetReadyCommand_def bind_res_eq_Inr Let_def split: if_splits)
  then show ?thesis using GetReadyCommand_Inr [of bo c b cmd clk "shared ch" q sh] by blast
qed

text \<open>The forced closure of a row open for too long turns only plain reads and writes into accesses of
  the same kind; the queues of a build with that option must hold no other types.\<close>

definition kind_safe :: "Build \<Rightarrow> Command \<Rightarrow> bool" where
  "kind_safe bo x \<longleftrightarrow> (ROWPRESS bo \<longrightarrow> cmd_type x \<in> {READ, WRITE})"

lemma required_type_cases:
  assumes "shared_wf nr sh" and "is_rw_type (cmd_type cmd)" and "required_type bo c b cmd clk sh = Inr (t, sh')"
  shows "t = cmd_type cmd \<or> ROWPRESS bo \<and> (\<exists>u. t = forced_closure_type u (cmd_type cmd)) \<or> \<not> is_rw_type t"
proof -
  have "\<not> is_rw_type u" if "GetPrechargeCmd bo n sh = Inr (u, s)" for u n s
    using GetPrechargeCmd_type [OF assms(1) that] by (auto simp: is_rw_type_def)
  moreover have "\<not> is_rw_type u" if "u \<in> {RFMsb, RFMab, ACTIVATE, SREF_EXIT}" for u
    using that by (auto simp: is_rw_type_def)
  ultimately show ?thesis
    using assms(2,3) by (cases "bank_state b") (auto simp: required_type_def Let_def bind_res_eq_Inr split: if_splits)
qed

lemma required_type_kind:
  assumes "is_rw_type (cmd_type cmd)" and "shared_wf nr sh" and "kind_safe bo cmd"
    and "required_type bo c b cmd clk sh = Inr (t, sh')" and "is_rw_type t"
  shows "IsRead (mk_Command t a h) = IsRead cmd"
proof -
  consider "t = cmd_type cmd" | u where "ROWPRESS bo" "t = forced_closure_type u (cmd_type cmd)"
    using required_type_cases [OF assms(2,1,4)] assms(5) by blast
  then show ?thesis
    using assms(3) by cases (auto simp: kind_safe_def IsRead_def forced_closure_type_def)
qed

lemma rw_request_accepts:
  assumes "rw_request c x"
  shows "chan_accepts c ch x" and "\<not> IsRankCMD x" and "\<not> IsSbCMD x"
  using assms by (auto simp: rw_request_def chan_accepts_def addr_ok_def in_channel_def is_rw_type_def IsRankCMD_def IsSbCMD_def)

lemma IsReadWrite_type: "IsReadWrite x \<longleftrightarrow> is_rw_type (cmd_type x)"
  by (auto simp: IsReadWrite_def IsRead_def IsWrite_def is_rw_type_def)

lemma queued_query:
  assumes "cfg_wf c" and "chan_wf c nr ch" and "rw_request c x" and "kind_safe bo x"
  shows "succeeds (ChannelState_GetReadyCommand bo c x clk ch) (\<lambda>(cmd, ch'). query_post c nr x clk ch (cmd, ch') \<and>
    (IsValid cmd \<longrightarrow> addr cmd = addr x \<and> hex_addr cmd = hex_addr x \<and> (IsReadWrite cmd \<longrightarrow> IsRead cmd = IsRead x)))"
proof -
  note x = rw_request_accepts [OF assms(3)]
  obtain cmd ch' where ans: "ChannelState_GetReadyCommand bo c x clk ch = Inr (cmd, ch')" "query_post c nr x clk ch (cmd, ch')"
    using single_query [OF assms(1,2) x, of bo clk] by (auto elim!: succeedsE)
  have "addr cmd = addr x \<and> hex_addr cmd = hex_addr x \<and> (IsReadWrite cmd \<longrightarrow> IsRead cmd = IsRead x)" if v: "IsValid cmd"
  proof -
    obtain b t sh where t: "required_type bo c b x clk (shared ch) = Inr (t, sh)" "cmd = mk_Command t (addr x) (hex_addr x)"
      using single_query_form [OF x(2,3) ans(1) v] by blast
    have "is_rw_type (cmd_type x)" "shared_wf nr (shared ch)" using assms(2,3) by (auto simp: rw_request_def chan_wf_def)
    from required_type_kind [OF this assms(4) t(1)] show ?thesis by (simp add: t(2) IsReadWrite_type)
  qed
  then show ?thesis using ans by simp
qed

section \<open>What a search leaves alone\<close>

definition chan_frame :: "Config \<Rightarrow> int \<Rightarrow> ChannelState \<Rightarrow> ChannelState \<Rightarrow> bool" where
  "chan_frame c nr ch ch' \<longleftrightarrow> chan_wf c nr ch' \<and> bk ch' = bk ch \<and> four_aw ch' = four_aw ch \<and>
     thirty_two_aw ch' = thirty_two_aw ch \<and> rank_is_sref ch' = rank_is_sref ch"

lemma chan_frame_refl: "chan_wf c nr ch \<Longrightarrow> chan_frame c nr ch ch"
  by (simp add: chan_frame_def)

lemma chan_frame_trans: "chan_frame c nr ch ch1 \<Longrightarrow> chan_frame c nr ch1 ch2 \<Longrightarrow> chan_frame c nr ch ch2"
  by (simp add: chan_frame_def)

lemma query_post_frame: "query_post c nr x clk ch (cmd, ch') \<Longrightarrow> chan_frame c nr ch ch'"
  by (simp add: query_post_def chan_frame_def)

text \<open>The outcome of a query depends on the framed part of the channel only.\<close>

lemma query_post_from:
  assumes "chan_frame c nr ch ch1"
  shows "query_post c nr x clk ch1 r \<longleftrightarrow> query_post c nr x clk ch r"
  using assms by (cases r) (simp add: chan_frame_def query_post_def bank_ready_def windows_ready_def)

lemma query_post_to:
  assumes "query_post c nr x clk ch (cmd, ch1)" and "chan_frame c nr ch ch2"
  shows "query_post c nr x clk ch (cmd, ch2)"
  using assms unfolding chan_frame_def query_post_def split_conv by blast

lemma shared_wf_count: "shared_wf nr sh \<Longrightarrow> shared_wf nr (count_stat n sh)"
  by (simp add: shared_wf_def)

lemma chan_frame_count:
  "chan_wf c nr ch \<Longrightarrow> chan_frame c nr ch (ch\<lparr>shared := count_stat n (shared ch)\<rparr>)"
  by (simp add: chan_frame_def chan_wf_def shared_wf_count)

section \<open>The search in one queue\<close>

text \<open>A row may be closed on behalf of a queued command when no older command of the queue uses the bank
  and no waiting command hits the open row, or the row has served four accesses.\<close>

definition may_close :: "Command list \<Rightarrow> Command \<Rightarrow> Command list \<Rightarrow> ChannelState \<Rightarrow> bool" where
  "may_close pre x post ch \<longleftrightarrow> (\<forall>p \<in> set pre. \<not> same_bank_cmd p x) \<and>
     ((\<forall>p \<in> set (x # post). same_bank_cmd p x \<longrightarrow> Row p \<noteq> open_row (bk ch (coord_of x))) \<or>
      4 \<le> row_hit_count (bk ch (coord_of x)))"

definition picked ::
  "Config \<Rightarrow> int \<Rightarrow> u64 \<Rightarrow> Command list \<Rightarrow> ChannelState \<Rightarrow> Command \<Rightarrow> ChannelState \<Rightarrow> bool" where
  "picked c nr clk queue ch cmd ch' \<longleftrightarrow> (\<exists>pre x post. queue = pre @ x # post \<and> query_post c nr x clk ch (cmd, ch') \<and>
     addr cmd = addr x \<and> hex_addr cmd = hex_addr x \<and> (IsReadWrite cmd \<longrightarrow> IsRead cmd = IsRead x) \<and>
     (IsWrite cmd \<longrightarrow> \<not> HasRWDependency pre x) \<and>
     (cmd_type cmd \<in> {PRECHARGE, PRECHARGE2} \<longrightarrow> may_close pre x post ch))"

lemma picked_source:
  assumes "picked c nr clk queue ch cmd ch'"
  obtains x where "x \<in> set queue" and "query_post c nr x clk ch (cmd, ch')" and "addr cmd = addr x"
    and "hex_addr cmd = hex_addr x" and "IsReadWrite cmd \<longrightarrow> IsRead cmd = IsRead x"
  using assms unfolding picked_def by (metis in_set_conv_decomp)

definition search_post ::
  "Config \<Rightarrow> int \<Rightarrow> u64 \<Rightarrow> Command list \<Rightarrow> ChannelState \<Rightarrow> Command \<times> ChannelState \<Rightarrow> bool" where
  "search_post c nr clk queue ch = (\<lambda>(cmd, ch'). chan_frame c nr ch ch' \<and> (IsValid cmd \<longrightarrow> picked c nr clk queue ch cmd ch'))"

lemma search_post_from: "chan_frame c nr ch ch1 \<Longrightarrow> search_post c nr clk queue ch1 r \<Longrightarrow> search_post c nr clk queue ch r"
  using query_post_from [of c nr ch ch1] chan_frame_trans [of c nr ch ch1]
  by (cases r) (simp add: search_post_def picked_def may_close_def chan_frame_def)

lemma ArbitratePrecharge_spec:
  assumes "chan_wf c nr ch" and "rw_request c x"
  shows "succeeds (ArbitratePrecharge pre x post ch) (\<lambda>(ok, ch'). chan_frame c nr ch ch' \<and> (ok \<longrightarrow> may_close pre x post ch))"
proof -
  have get: "get_bank ch (Rank x) (Bankgroup x) (Bank x) = Inr (bk ch (coord_of x))"
    using assms by (intro get_bank_ok) (auto simp: chan_wf_def rw_request_def)
  show ?thesis
    using chan_frame_refl [OF assms(1)] chan_frame_count [OF assms(1)]
    by (auto simp: ArbitratePrecharge_def OpenRow_def RowHitCount_def get may_close_def Let_def)
qed

lemma first_ready_spec:
  assumes "cfg_wf c" and "chan_wf c nr ch" and "\<forall>x \<in> set rest. rw_request c x \<and> kind_safe bo x"
  shows "succeeds (first_ready bo c clk prev rest ch) (search_post c nr clk (prev @ rest) ch)"
  using assms(2,3)
proof (induction rest arbitrary: prev ch)
  case Nil
  then show ?case by (simp add: search_post_def chan_frame_refl)
next
  case (Cons x rest)
  let ?post = "search_post c nr clk (prev @ x # rest) ch"
  have x: "rw_request c x" "kind_safe bo x" using Cons.prems(2) by auto
  have next_cmd: "succeeds (first_ready bo c clk (prev @ [x]) rest ch1) ?post" if fr: "chan_frame c nr ch ch1" for ch1
    using Cons.IH [of ch1 "prev @ [x]"] Cons.prems(2) fr search_post_from [OF fr]
    by (auto simp: chan_frame_def elim!: succeeds_mono)
  have done_with: "?post (cmd, ch2)"
    if q: "query_post c nr x clk ch (cmd, ch1)" and kept: "addr cmd = addr x" "hex_addr cmd = hex_addr x"
      "IsReadWrite cmd \<longrightarrow> IsRead cmd = IsRead x" and fr: "chan_frame c nr ch ch2"
      and dep: "IsWrite cmd \<longrightarrow> \<not> HasRWDependency prev x"
      and pre: "cmd_type cmd \<in> {PRECHARGE, PRECHARGE2} \<longrightarrow> may_close prev x rest ch" for cmd ch1 ch2
    using fr kept dep pre query_post_to [OF q fr] unfolding search_post_def picked_def by auto
  show ?case
  proof (simp only: first_ready.simps, rule succeeds_bindI [OF queued_query [OF assms(1) Cons.prems(1) x]], clarify)
    fix cmd ch1
    assume q: "query_post c nr x clk ch (cmd, ch1)"
      and v: "IsValid cmd \<longrightarrow> addr cmd = addr x \<and> hex_addr cmd = hex_addr x \<and> (IsReadWrite cmd \<longrightarrow> IsRead cmd = IsRead x)"
    have fr: "chan_frame c nr ch ch1" by (rule query_post_frame [OF q])
    then have wf1: "chan_wf c nr ch1" and same: "may_close prev x rest ch1 = may_close prev x rest ch"
      by (auto simp: chan_frame_def may_close_def)
    have close: "succeeds (bind_res (ArbitratePrecharge prev x rest ch1) (\<lambda>(ok, ch).
        if ok then Inr (cmd, ch) else first_ready bo c clk (prev @ [x]) rest ch)) ?post"
      if "IsValid cmd" "cmd_type cmd \<in> {PRECHARGE, PRECHARGE2}"
    proof (rule succeeds_bindI [OF ArbitratePrecharge_spec [OF wf1 x(1), of prev rest]], clarify)
      fix ok ch2
      assume fr2: "chan_frame c nr ch1 ch2" and ok: "ok \<longrightarrow> may_close prev x rest ch1"
      have "\<not> IsWrite cmd" using that(2) by (auto simp: IsWrite_def)
      then show "succeeds (if ok then Inr (cmd, ch2) else first_ready bo c clk (prev @ [x]) rest ch2) ?post"
        using next_cmd [OF chan_frame_trans [OF fr fr2]] done_with [OF q _ _ _ chan_frame_trans [OF fr fr2]] v ok same that(1) by auto
    qed
    show "succeeds (if \<not> IsValid cmd then first_ready bo c clk (prev @ [x]) rest ch1
       else if cmd_type cmd = PRECHARGE \<or> cmd_type cmd = PRECHARGE2 then
         bind_res (ArbitratePrecharge prev x rest ch1) (\<lambda>(ok, ch).
         if ok then Inr (cmd, ch) else first_ready bo c clk (prev @ [x]) rest ch)
       else if IsWrite cmd \<and> HasRWDependency prev x then first_ready bo c clk (prev @ [x]) rest ch1
       else Inr (cmd, ch1)) ?post"
      using next_cmd [OF fr] done_with [OF q _ _ _ fr] v close by auto
  qed
qed

section \<open>The search over the queues\<close>

lemma erase_first_remove1:
  "\<exists>x \<in> set xs. p x \<Longrightarrow> \<exists>y \<in> set xs. p y \<and> erase_first p xs = remove1 y xs"
proof (induction xs)
  case (Cons a xs)
  show ?case
  proof (cases "p a")
    case False
    then obtain y where "y \<in> set xs" "p y" "erase_first p xs = remove1 y xs" using Cons by auto
    then show ?thesis using False by (intro bexI [of _ y]) auto
  qed auto
qed simp

text \<open>The entry an access takes off its queue: the first of its address and kind.\<close>

abbreviation same_access :: "Command \<Rightarrow> Command \<Rightarrow> bool" where
  "same_access cmd \<equiv> \<lambda>z. hex_addr cmd = hex_addr z \<and> IsRead cmd = IsRead z"

lemma erase_first_split:
  "p x \<Longrightarrow> \<exists>a y b. pre @ x # post = a @ y # b \<and> p y \<and> set a \<subseteq> set pre \<and> erase_first p (pre @ x # post) = a @ b"
proof (induction pre)
  case Nil
  then show ?case by (intro exI [of _ "[]"] exI [of _ x] exI [of _ post]) simp
next
  case (Cons z pre)
  show ?case
  proof (cases "p z")
    case True
    then show ?thesis by (intro exI [of _ "[]"] exI [of _ z] exI [of _ "pre @ x # post"]) simp
  next
    case False
    obtain a y b where "pre @ x # post = a @ y # b" "p y" "set a \<subseteq> set pre" "erase_first p (pre @ x # post) = a @ b"
      using Cons by blast
    then show ?thesis using False by (intro exI [of _ "z # a"] exI [of _ y] exI [of _ b]) auto
  qed
qed

abbreviation blocked_at :: "CommandQueue \<Rightarrow> int \<Rightarrow> bool" where
  "blocked_at q n \<equiv> is_in_ref q \<and> n \<in> ref_q_indices q \<or> is_in_rfm q \<and> n \<in> rfm_q_indices q"

text \<open>The queue the search starts from moves on; an issued read or write takes its command off the queue
  it came from, and nothing else changes.\<close>

definition issue_post ::
  "Config \<Rightarrow> int \<Rightarrow> int \<Rightarrow> queue_ctx \<Rightarrow> Command \<times> queue_ctx \<Rightarrow> bool" where
  "issue_post c nr stop = (\<lambda>(q, ch) (cmd, (q', ch')). chan_frame c nr ch ch' \<and> queue_wf c q' \<and>
     (if IsValid cmd
      then \<exists>n < length (queues q). \<not> blocked_at q (int n) \<and> picked c nr (cq_clk q) (queues q ! n) ch cmd ch' \<and>
        (if IsReadWrite cmd
         then \<exists>y \<in> set (queues q ! n). hex_addr y = hex_addr cmd \<and> IsRead y = IsRead cmd \<and>
           q' = q\<lparr>queue_idx := int n, queues := (queues q)[n := remove1 y (queues q ! n)]\<rparr>
         else q' = q\<lparr>queue_idx := int n\<rparr>) \<and>
        (IsReadWrite cmd \<longrightarrow> queues q' = (queues q)[n := erase_first (same_access cmd) (queues q ! n)])
      else q' = q\<lparr>queue_idx := stop\<rparr>))"

lemma queue_wf_idx: "queue_wf c q \<Longrightarrow> 0 \<le> i \<Longrightarrow> i < num_queues q \<Longrightarrow> queue_wf c (q\<lparr>queue_idx := i\<rparr>)"
  by (simp add: queue_wf_def)

lemma GetNextQueue_spec:
  assumes "queue_wf c q"
  shows "\<exists>n < length (queues q). int n = (queue_idx q + 1) mod num_queues q \<and>
    GetNextQueue q = Inr (queues q ! n, q\<lparr>queue_idx := int n\<rparr>)"
proof -
  note wf = queue_wfD(1,5,6) [OF assms]
  let ?i = "if queue_idx q + 1 = num_queues q then 0 else queue_idx q + 1"
  have i: "0 \<le> ?i" "?i < int (length (queues q))" "?i = (queue_idx q + 1) mod num_queues q" using wf by auto
  then have "GetNextQueue q = Inr (queues q ! nat ?i, q\<lparr>queue_idx := ?i\<rparr>)"
    by (simp add: GetNextQueue_def Let_def vec_get_ok)
  then show ?thesis using i by (intro exI [of _ "nat ?i"]) simp
qed

lemma EraseRWCommand_spec:
  assumes "queue_wf c q" and "n < length (queues q)" and "x \<in> set (queues q ! n)" and "addr cmd = addr x"
    and "hex_addr cmd = hex_addr x" and "IsRead cmd = IsRead x"
  shows "\<exists>y \<in> set (queues q ! n). hex_addr y = hex_addr cmd \<and> IsRead y = IsRead cmd \<and>
    erase_first (same_access cmd) (queues q ! n) = remove1 y (queues q ! n) \<and> queue_wf c (q\<lparr>queues := (queues q)[n := remove1 y (queues q ! n)]\<rparr>) \<and>
    EraseRWCommand c cmd q = Inr (q\<lparr>queues := (queues q)[n := remove1 y (queues q ! n)]\<rparr>)"
proof -
  let ?l = "queues q ! n" and ?p = "\<lambda>z. hex_addr cmd = hex_addr z \<and> IsRead cmd = IsRead z"
  have "owned c q n x" using queue_wfD(4) [OF assms(1,2)] assms(3) by blast
  then have idx: "queue_of c q cmd = int n" using assms(4) by (simp add: owned_def)
  have ex: "\<exists>z \<in> set ?l. ?p z" using assms(3,5,6) by blast
  from erase_first_remove1 [of ?l ?p, OF ex]
  obtain y where y: "y \<in> set ?l" "?p y" "erase_first ?p ?l = remove1 y ?l" by blast
  have "length (remove1 y ?l) \<le> unat (queue_size q)"
    using queue_wfD(3) [OF assms(1,2)] by (simp add: length_remove1 y(1))
  then have "queue_wf c (q\<lparr>queues := (queues q)[n := remove1 y ?l]\<rparr>)"
    using queue_wfD(4) [OF assms(1,2)] set_remove1_subset [of y ?l]
    by (intro queue_wf_update [OF assms(1,2) _ _ refl]) blast+
  moreover have "EraseRWCommand c cmd q = Inr (q\<lparr>queues := (queues q)[n := remove1 y ?l]\<rparr>)"
    using assms(2) ex y(3) by (simp add: EraseRWCommand_def GetQueue_def idx vec_get_ok vec_set_ok Let_def)
  ultimately show ?thesis using y by auto
qed

lemma blocked_idx: "blocked (q\<lparr>queue_idx := i\<rparr>) = blocked_at q i"
  by (simp add: blocked_def)

lemma issue_post_from:
  assumes "issue_post c nr stop (q\<lparr>queue_idx := i\<rparr>, ch1) r" and "chan_frame c nr ch ch1"
  shows "issue_post c nr stop (q, ch) r"
proof -
  obtain cmd q' ch' where r: "r = (cmd, (q', ch'))" by (cases r) auto
  have pk: "picked c nr (cq_clk q) l ch cmd ch' = picked c nr (cq_clk q) l ch1 cmd ch'" for l
    using query_post_from [OF assms(2)] assms(2) by (simp add: picked_def may_close_def chan_frame_def)
  have fr: "chan_frame c nr ch ch'" if "chan_frame c nr ch1 ch'" using assms(2) that by (rule chan_frame_trans)
  show ?thesis
    using assms(1) fr by (cases "IsValid cmd"; cases "IsReadWrite cmd") (simp_all add: issue_post_def r pk)
qed

text \<open>The search visits the queues in turn, starting after the one it used last.\<close>

lemma issue_loop_spec:
  assumes "cfg_wf c" and "queue_wf c q" and "chan_wf c nr ch" and "\<forall>l \<in> set (queues q). \<forall>x \<in> set l. kind_safe bo x"
  shows "succeeds (issue_loop bo c k (q, ch)) (issue_post c nr ((queue_idx q + int k) mod num_queues q) (q, ch))"
  using assms(2-4)
proof (induction k arbitrary: q ch)
  case 0
  have "q\<lparr>queue_idx := queue_idx q\<rparr> = q" by simp
  then show ?case
    using queue_wfD(5,6) [OF "0.prems"(1)] "0.prems" by (simp add: issue_post_def chan_frame_refl)
next
  case (Suc k)
  note wf = Suc.prems(1)
  obtain n where n: "n < length (queues q)" "int n = (queue_idx q + 1) mod num_queues q"
    "GetNextQueue q = Inr (queues q ! n, q\<lparr>queue_idx := int n\<rparr>)"
    using GetNextQueue_spec [OF wf] by blast
  let ?q = "q\<lparr>queue_idx := int n\<rparr>" and ?stop = "(queue_idx q + int (Suc k)) mod num_queues q"
  have wf': "queue_wf c ?q" using n(1) queue_wfD(1) [OF wf] by (intro queue_wf_idx [OF wf]) auto
  have stop: "(queue_idx ?q + int k) mod num_queues ?q = ?stop"
    using mod_add_left_eq [of "queue_idx q + 1" "num_queues q" "int k"] by (simp add: n(2) ac_simps)
  have later: "succeeds (issue_loop bo c k (?q, ch1)) (issue_post c nr ?stop (q, ch))" if "chan_frame c nr ch ch1" for ch1
    using Suc.IH [OF wf', of ch1] Suc.prems(3) that issue_post_from [OF _ that] unfolding stop
    by (auto simp: chan_frame_def elim!: succeeds_mono)
  have safe: "\<forall>x \<in> set (queues q ! n). rw_request c x \<and> kind_safe bo x"
    using queue_wfD(4) [OF wf n(1)] Suc.prems(3) nth_mem [OF n(1)] unfolding owned_def by blast
  have step: "succeeds (bind_res (GetFirstReadyInQueue bo c (cq_clk ?q) (queues q ! n) ch) (\<lambda>(cmd, ch).
       if IsValid cmd then bind_res (if IsReadWrite cmd then EraseRWCommand c cmd ?q else Inr ?q) (\<lambda>q. Inr (cmd, (q, ch)))
       else issue_loop bo c k (?q, ch))) (issue_post c nr ?stop (q, ch))" if free: "\<not> blocked ?q"
  proof (unfold GetFirstReadyInQueue_def, rule succeeds_bindI [OF first_ready_spec [OF assms(1) Suc.prems(2) safe]], clarify)
    fix cmd ch1
    assume "search_post c nr (cq_clk ?q) ([] @ queues q ! n) ch (cmd, ch1)"
    then have fr: "chan_frame c nr ch ch1" and pk: "IsValid cmd \<longrightarrow> picked c nr (cq_clk q) (queues q ! n) ch cmd ch1"
      by (auto simp: search_post_def)
    show "succeeds (if IsValid cmd then bind_res (if IsReadWrite cmd then EraseRWCommand c cmd ?q else Inr ?q) (\<lambda>q. Inr (cmd, (q, ch1)))
       else issue_loop bo c k (?q, ch1)) (issue_post c nr ?stop (q, ch))"
    proof (cases "IsValid cmd")
      case True
      have free': "\<not> blocked_at q (int n)" using free unfolding blocked_idx .
      note found = fr True free' n(1) mp [OF pk True]
      show ?thesis
      proof (cases "IsReadWrite cmd")
        case rw: True
        obtain x where x: "x \<in> set (queues q ! n)" "addr cmd = addr x" "hex_addr cmd = hex_addr x" "IsRead cmd = IsRead x"
          using picked_source [OF found(5)] rw by blast
        obtain y where y: "y \<in> set (queues q ! n)" "hex_addr y = hex_addr cmd" "IsRead y = IsRead cmd"
          "erase_first (same_access cmd) (queues q ! n) = remove1 y (queues q ! n)" "queue_wf c (?q\<lparr>queues := (queues q)[n := remove1 y (queues q ! n)]\<rparr>)"
          "EraseRWCommand c cmd ?q = Inr (?q\<lparr>queues := (queues q)[n := remove1 y (queues q ! n)]\<rparr>)"
          using EraseRWCommand_spec [OF wf', of n x cmd] n(1) x by auto
        have "issue_post c nr ?stop (q, ch) (cmd, (?q\<lparr>queues := (queues q)[n := remove1 y (queues q ! n)]\<rparr>, ch1))"
          using found y(1-5) rw unfolding issue_post_def by auto
        then show ?thesis using True rw y(6) by simp
      next
        case False
        have "issue_post c nr ?stop (q, ch) (cmd, (?q, ch1))" using found wf' False unfolding issue_post_def by auto
        then show ?thesis using True False by simp
      qed
    next
      case False
      then show ?thesis using later [OF fr] by simp
    qed
  qed
  show ?case
    using later [OF chan_frame_refl [OF Suc.prems(2)]] step by (simp add: n(3))
qed

lemma GetCommandToIssue_post:
  assumes "cfg_wf c" and "queue_wf c q" and "chan_wf c nr ch" and "\<forall>l \<in> set (queues q). \<forall>x \<in> set l. kind_safe bo x"
  shows "succeeds (GetCommandToIssue bo c (q, ch)) (issue_post c nr (queue_idx q) (q, ch))"
proof -
  have "(queue_idx q + int (nat (num_queues q))) mod num_queues q = queue_idx q"
    using queue_wfD(5,6) [OF assms(2)] by simp
  then show ?thesis using issue_loop_spec [OF assms, of "nat (num_queues q)"] by (simp add: GetCommandToIssue_def)
qed

text \<open>C33. The search for a command to issue never fails. Without a ready command it has gone once round the
  queues and changes nothing in them. A command it returns belongs to a queued request of an unblocked
  queue and keeps its address; a read or write takes exactly one queued command of that address and kind
  off the queue, any other command leaves all queues as they are; banks and windows are untouched.\<close>

theorem GetCommandToIssue_serves:
  assumes "cfg_wf c" and "queue_wf c q" and "chan_wf c nr ch" and "\<forall>l \<in> set (queues q). \<forall>x \<in> set l. kind_safe bo x"
  shows "succeeds (GetCommandToIssue bo c (q, ch)) (\<lambda>(cmd, (q', ch')).
    queue_wf c q' \<and> chan_wf c nr ch' \<and> bk ch' = bk ch \<and>
    (if \<not> IsValid cmd then q' = q
     else \<exists>n < length (queues q). \<not> blocked_at q (int n) \<and>
       (\<exists>x \<in> set (queues q ! n). addr cmd = addr x \<and> hex_addr cmd = hex_addr x) \<and>
       (if IsReadWrite cmd
        then \<exists>y \<in> set (queues q ! n). hex_addr y = hex_addr cmd \<and> IsRead y = IsRead cmd \<and>
          queues q' = (queues q)[n := remove1 y (queues q ! n)]
        else queues q' = queues q)))"
proof (rule succeeds_mono [OF GetCommandToIssue_post [OF assms]], clarify)
  fix cmd q' ch'
  assume post: "issue_post c nr (queue_idx q) (q, ch) (cmd, (q', ch'))"
  have src: "\<exists>x \<in> set (queues q ! n). addr cmd = addr x \<and> hex_addr cmd = hex_addr x"
    if "picked c nr (cq_clk q) (queues q ! n) ch cmd ch'" for n
    using picked_source [OF that] by metis
  show "queue_wf c q' \<and> chan_wf c nr ch' \<and> bk ch' = bk ch \<and>
    (if \<not> IsValid cmd then q' = q
     else \<exists>n < length (queues q). \<not> blocked_at q (int n) \<and>
       (\<exists>x \<in> set (queues q ! n). addr cmd = addr x \<and> hex_addr cmd = hex_addr x) \<and>
       (if IsReadWrite cmd
        then \<exists>y \<in> set (queues q ! n). hex_addr y = hex_addr cmd \<and> IsRead y = IsRead cmd \<and>
          queues q' = (queues q)[n := remove1 y (queues q ! n)]
        else queues q' = queues q))"
  proof (cases "IsValid cmd")
    case True
    then obtain n where n: "n < length (queues q)" "\<not> blocked_at q (int n)" "picked c nr (cq_clk q) (queues q ! n) ch cmd ch'"
      "if IsReadWrite cmd then \<exists>y \<in> set (queues q ! n). hex_addr y = hex_addr cmd \<and> IsRead y = IsRead cmd \<and>
           q' = q\<lparr>queue_idx := int n, queues := (queues q)[n := remove1 y (queues q ! n)]\<rparr>
         else q' = q\<lparr>queue_idx := int n\<rparr>"
      using post unfolding issue_post_def by auto
    have "if IsReadWrite cmd then \<exists>y \<in> set (queues q ! n). hex_addr y = hex_addr cmd \<and> IsRead y = IsRead cmd \<and>
          queues q' = (queues q)[n := remove1 y (queues q ! n)] else queues q' = queues q"
      using n(4) by (auto split: if_splits)
    then show ?thesis
      using True n(1,2) src [OF n(3)] post unfolding issue_post_def chan_frame_def by auto
  qed (use post in \<open>auto simp: issue_post_def chan_frame_def\<close>)
qed

text \<open>The location of an access, as the check of dependencies compares it within a queue.\<close>

definition location :: "Command \<Rightarrow> int \<times> int \<times> int \<times> int" where
  "location x = (Row x, Column x, Bank x, Bankgroup x)"

text \<open>All commands of a bank wait in one queue.\<close>

lemma same_bank_same_queue:
  assumes "queue_wf c q" and "n < length (queues q)" and "x \<in> set (queues q ! n)"
    and "m < length (queues q)" and "p \<in> set (queues q ! m)" and "coord_of p = coord_of x"
  shows "m = n"
proof -
  have "queue_of c q x = int n" "queue_of c q p = int m"
    using queue_wfD(4) [OF assms(1,2)] queue_wfD(4) [OF assms(1,4)] assms(3,5) by (auto simp: owned_def)
  then show ?thesis using assms(6) by simp
qed

text \<open>C34. The search keeps the order of conflicting requests.  When a write is issued, the entry taken off the
  queue is a write of its address, and no entry in front of it is a read of the location written.  When a
  row is closed, some queued access waits for its bank, and either no queued access of any queue hits the open
  row or the row has already served four accesses.\<close>

theorem GetCommandToIssue_ordered:
  assumes "cfg_wf c" and "queue_wf c q" and "chan_wf c nr ch" and "\<forall>l \<in> set (queues q). \<forall>x \<in> set l. kind_safe bo x"
    and "GetCommandToIssue bo c (q, ch) = Inr (cmd, (q', ch'))" and "IsValid cmd"
  shows "(IsWrite cmd \<longrightarrow> (\<exists>n pre y post. n < length (queues q) \<and> queues q ! n = pre @ y # post \<and>
       queues q' = (queues q)[n := pre @ post] \<and> IsWrite y \<and> hex_addr y = hex_addr cmd \<and>
       (\<forall>p \<in> set pre. IsRead p \<longrightarrow> location p \<noteq> location cmd))) \<and>
    (cmd_type cmd \<in> {PRECHARGE, PRECHARGE2} \<longrightarrow>
       (\<exists>l \<in> set (queues q). \<exists>p \<in> set l. coord_of p = coord_of cmd) \<and>
       ((\<forall>l \<in> set (queues q). \<forall>p \<in> set l. coord_of p = coord_of cmd \<longrightarrow> Row p \<noteq> open_row (bk ch (coord_of cmd))) \<or>
        4 \<le> row_hit_count (bk ch (coord_of cmd))))"
proof -
  have "issue_post c nr (queue_idx q) (q, ch) (cmd, (q', ch'))" using GetCommandToIssue_post [OF assms(1-4)] assms(5) by simp
  then obtain n where n: "n < length (queues q)" "picked c nr (cq_clk q) (queues q ! n) ch cmd ch'"
    and out: "IsReadWrite cmd \<Longrightarrow> queues q' = (queues q)[n := erase_first (same_access cmd) (queues q ! n)]"
    using assms(6) by (cases "IsReadWrite cmd") (auto simp: issue_post_def)
  obtain pre x post where l: "queues q ! n = pre @ x # post" and x: "addr cmd = addr x" "hex_addr cmd = hex_addr x"
    "IsReadWrite cmd \<longrightarrow> IsRead cmd = IsRead x" and dep: "IsWrite cmd \<longrightarrow> \<not> HasRWDependency pre x"
    and close: "cmd_type cmd \<in> {PRECHARGE, PRECHARGE2} \<longrightarrow> may_close pre x post ch"
    using n(2) unfolding picked_def by blast
  have own: "owned c q n z" if "z \<in> set (queues q ! n)" for z using queue_wfD(4) [OF assms(2) n(1)] that by blast
  have 1: "\<exists>n pre y post. n < length (queues q) \<and> queues q ! n = pre @ y # post \<and>
       queues q' = (queues q)[n := pre @ post] \<and> IsWrite y \<and> hex_addr y = hex_addr cmd \<and>
       (\<forall>p \<in> set pre. IsRead p \<longrightarrow> location p \<noteq> location cmd)" if w: "IsWrite cmd"
  proof -
    have rw: "IsReadWrite cmd" "\<not> IsRead cmd" using w by (auto simp: IsReadWrite_def IsWrite_def IsRead_def)
    then obtain a y b where y: "queues q ! n = a @ y # b" "same_access cmd y" "set a \<subseteq> set pre"
      "queues q' = (queues q)[n := a @ b]"
      using erase_first_split [of "same_access cmd" x pre post] x out [OF rw(1)] unfolding l by metis
    have "is_rw_type (cmd_type y)" using own [of y] y(1) by (simp add: owned_def rw_request_def)
    then have "IsWrite y" using y(2) rw(2) by (auto simp: is_rw_type_def IsRead_def IsWrite_def)
    moreover have "\<forall>p \<in> set a. IsRead p \<longrightarrow> location p \<noteq> location cmd"
      using dep w y(3) x(1) by (auto simp: HasRWDependency_def location_def)
    ultimately show ?thesis using y n(1) by metis
  qed
  have coord: "coord_of cmd = coord_of x" using x(1) by simp
  have 2: "(\<exists>l \<in> set (queues q). \<exists>p \<in> set l. coord_of p = coord_of cmd) \<and>
       ((\<forall>l \<in> set (queues q). \<forall>p \<in> set l. coord_of p = coord_of cmd \<longrightarrow> Row p \<noteq> open_row (bk ch (coord_of cmd))) \<or>
        4 \<le> row_hit_count (bk ch (coord_of cmd)))" if "cmd_type cmd \<in> {PRECHARGE, PRECHARGE2}"
  proof -
    have xs: "x \<in> set (queues q ! n)" "queues q ! n \<in> set (queues q)" using l nth_mem [OF n(1)] by simp_all
    have "p \<in> set (x # post)" if ls: "ls \<in> set (queues q)" "p \<in> set ls" "coord_of p = coord_of x" for ls p
    proof -
      obtain m where "m < length (queues q)" "ls = queues q ! m" using ls(1) by (auto simp: in_set_conv_nth)
      then have "ls = pre @ x # post" using same_bank_same_queue [OF assms(2) n(1) xs(1)] ls(2,3) l by blast
      then show ?thesis using ls(2,3) close \<open>cmd_type cmd \<in> {PRECHARGE, PRECHARGE2}\<close>
        by (auto simp: may_close_def same_bank_cmd_def)
    qed
    then show ?thesis
      using close that xs unfolding coord may_close_def same_bank_cmd_def prod.inject by blast
  qed
  show ?thesis using 1 2 by blast
qed

section \<open>A search on the sample channel\<close>

definition waiting_queue :: CommandQueue where
  "waiting_queue = sample_queue\<lparr>queues := (queues sample_queue)[0 := [sample_read 5]], queue_idx := 7, cq_clk := 100\<rparr>"

lemma waiting_queue_wf: "queue_wf sample_Config waiting_queue"
proof -
  let ?q = "sample_queue\<lparr>queues := (queues sample_queue)[0 := [sample_read 5]]\<rparr>"
  have "owned sample_Config sample_queue 0 (sample_read 5)"
    using sample_read_request by (simp add: owned_def GetQueueIndex_def)
  then have "queue_wf sample_Config ?q"
    by (intro queue_wf_update [OF sample_queue_wf _ _ _ refl]) (simp_all add: sample_queue_def)
  then have "queue_wf sample_Config (?q\<lparr>queue_idx := 7\<rparr>)" by (rule queue_wf_idx) (simp_all add: sample_queue_def)
  then show ?thesis by (simp add: waiting_queue_def queue_wf_def owned_def GetQueueIndex_def)
qed

lemma waiting_queue_safe: "\<forall>l \<in> set (queues waiting_queue). \<forall>x \<in> set l. kind_safe bo x"
proof -
  have "set (queues waiting_queue) \<subseteq> {[], [sample_read 5]}" by (auto simp: waiting_queue_def sample_queue_def numeral_eq_Suc)
  then show ?thesis by (auto simp: kind_safe_def)
qed

theorem GetCommandToIssue_serves_witness:
  "succeeds (GetCommandToIssue plain_Build sample_Config (waiting_queue, sample_channel)) (\<lambda>(cmd, (q', ch')).
     queue_wf sample_Config q' \<and> bk ch' = bk sample_channel)"
  by (rule succeeds_mono [OF GetCommandToIssue_serves [OF sample_wf(1) waiting_queue_wf sample_channel_wf(1) waiting_queue_safe]]) auto

text \<open>With the row of the sample channel open: a waiting write to it is issued, and a waiting read of another
  row closes it.\<close>

definition sample_access :: "CommandType \<Rightarrow> int \<Rightarrow> Command" where
  "sample_access t r = mk_Command t (mk_Address 0 0 0 0 r 1) 64"

definition one_queue :: "Command \<Rightarrow> CommandQueue" where
  "one_queue x = sample_queue\<lparr>queues := (queues sample_queue)[0 := [x]], queue_idx := 7, cq_clk := 200\<rparr>"

abbreviation base_Build :: Build where
  "base_Build \<equiv> plain_Build\<lparr>USE_PRAC := 0\<rparr>"

lemma one_queue_sel:
  "num_queues (one_queue x) = 8" "cq_clk (one_queue x) = 200" "queues (one_queue x) = [[x], [], [], [], [], [], [], []]"
  "GetNextQueue (one_queue x) = Inr ([x], one_queue x\<lparr>queue_idx := 0\<rparr>)" "\<not> blocked (one_queue x\<lparr>queue_idx := 0\<rparr>)"
  by (simp_all add: one_queue_def sample_queue_def numeral_eq_Suc GetNextQueue_def vec_get_def blocked_def)

lemma one_queue_ok:
  assumes "t \<in> {READ, WRITE}" and "0 \<le> r" and "r < 16"
  shows "queue_wf sample_Config (one_queue (sample_access t r))"
    and "\<forall>l \<in> set (queues (one_queue (sample_access t r))). \<forall>x \<in> set l. kind_safe base_Build x"
proof -
  let ?x = "sample_access t r" and ?q = "sample_queue\<lparr>queues := (queues sample_queue)[0 := [sample_access t r]]\<rparr>"
  have "owned sample_Config sample_queue 0 ?x"
    using assms by (auto simp: owned_def GetQueueIndex_def sample_access_def rw_request_def in_channel_def is_rw_type_def sample_Config_sel)
  then have "queue_wf sample_Config ?q"
    by (intro queue_wf_update [OF sample_queue_wf _ _ _ refl]) (simp_all add: sample_queue_def)
  then have "queue_wf sample_Config (?q\<lparr>queue_idx := 7\<rparr>)" by (rule queue_wf_idx) (simp_all add: sample_queue_def)
  then show "queue_wf sample_Config (one_queue ?x)" by (simp add: one_queue_def queue_wf_def owned_def GetQueueIndex_def)
  show "\<forall>l \<in> set (queues (one_queue ?x)). \<forall>x \<in> set l. kind_safe base_Build x"
    by (simp add: one_queue_sel kind_safe_def)
qed

lemma open_queries:
  assumes "\<not> alert_n ch" and "get_bank ch 0 0 0 = Inr (bk ch (0, 0, 0))"
    and "bank_state (bk ch (0, 0, 0)) = OPEN" and "open_row (bk ch (0, 0, 0)) = 5"
    and "cmd_timing (bk ch (0, 0, 0)) = fold (raise_one 100) (same_bank (new_Timing sample_Config) ACTIVATE) (replicate 16 0)"
  shows "ChannelState_GetReadyCommand base_Build sample_Config (sample_access WRITE 5) 200 ch = Inr (sample_access WRITE 5, ch)"
    and "ChannelState_GetReadyCommand base_Build sample_Config (sample_access READ 9) 200 ch = Inr (sample_access PRECHARGE 9, ch)"
proof -
  have "BankState_GetReadyCommand base_Build sample_Config (bk ch (0, 0, 0)) (sample_access WRITE 5) 200 (shared ch) =
      Inr (sample_access WRITE 5, shared ch)"
    by (simp add: BankState_GetReadyCommand_def required_type_def is_rw_type_def assms(3-5) vec_get_def sample_access_def sample_timing)
  then show "ChannelState_GetReadyCommand base_Build sample_Config (sample_access WRITE 5) 200 ch = Inr (sample_access WRITE 5, ch)"
    using assms(1,2) by (simp add: ChannelState_GetReadyCommand_def IsRankCMD_def IsSbCMD_def IsValid_def sample_access_def)
  have "BankState_GetReadyCommand base_Build sample_Config (bk ch (0, 0, 0)) (sample_access READ 9) 200 (shared ch) =
      Inr (sample_access PRECHARGE 9, shared ch)"
    by (simp add: BankState_GetReadyCommand_def required_type_def is_rw_type_def assms(3-5) vec_get_def sample_access_def sample_timing
        GetPrechargeCmd_def)
  then show "ChannelState_GetReadyCommand base_Build sample_Config (sample_access READ 9) 200 ch = Inr (sample_access PRECHARGE 9, ch)"
    using assms(1,2) by (simp add: ChannelState_GetReadyCommand_def IsRankCMD_def IsSbCMD_def IsValid_def sample_access_def)
qed

theorem GetCommandToIssue_ordered_witness:
  "\<exists>ch qw chw qp chp. GetCommandToIssue base_Build sample_Config (one_queue (sample_access WRITE 5), ch) = Inr (sample_access WRITE 5, (qw, chw)) \<and>
     (\<exists>n pre y post. queues (one_queue (sample_access WRITE 5)) ! n = pre @ y # post \<and> IsWrite y \<and>
        queues qw = (queues (one_queue (sample_access WRITE 5)))[n := pre @ post]) \<and>
     GetCommandToIssue base_Build sample_Config (one_queue (sample_access READ 9), ch) = Inr (sample_access PRECHARGE 9, (qp, chp)) \<and>
     ((\<forall>l \<in> set (queues (one_queue (sample_access READ 9))). \<forall>p \<in> set l. coord_of p = (0, 0, 0) \<longrightarrow> Row p \<noteq> open_row (bk ch (0, 0, 0))) \<or>
      4 \<le> row_hit_count (bk ch (0, 0, 0)))"
proof -
  obtain ch where wf: "chan_wf sample_Config 2 ch" and s: "\<not> alert_n ch" "get_bank ch 0 0 0 = Inr (bk ch (0, 0, 0))"
    "bank_state (bk ch (0, 0, 0)) = OPEN" "open_row (bk ch (0, 0, 0)) = 5"
    "cmd_timing (bk ch (0, 0, 0)) = fold (raise_one 100) (same_bank (new_Timing sample_Config) ACTIVATE) (replicate 16 0)"
    by (rule sample_open)
  note q = open_queries [OF s]
  let ?w = "one_queue (sample_access WRITE 5)" and ?r = "one_queue (sample_access READ 9)"
  have acc: "cmd_type (sample_access t r) = t" "Rank (sample_access t r) = 0" "Bankgroup (sample_access t r) = 0" "Bank (sample_access t r) = 0"
    "Row (sample_access t r) = r" "hex_addr (sample_access t r) = 64" for t r by (simp_all add: sample_access_def)
  have w: "GetCommandToIssue base_Build sample_Config (?w, ch) =
      Inr (sample_access WRITE 5, (?w\<lparr>queue_idx := 0, queues := [[], [], [], [], [], [], [], []]\<rparr>, ch))"
    by (simp add: GetCommandToIssue_def one_queue_sel numeral_eq_Suc GetFirstReadyInQueue_def q [simplified numeral_eq_Suc] acc
        IsWrite_def IsReadWrite_def IsRead_def HasRWDependency_def IsValid_def EraseRWCommand_def GetQueue_def GetQueueIndex_def vec_get_def vec_set_def)
  have p: "GetCommandToIssue base_Build sample_Config (?r, ch) =
      Inr (sample_access PRECHARGE 9, (?r\<lparr>queue_idx := 0\<rparr>, ch\<lparr>shared := count_stat ''num_ondemand_pres'' (shared ch)\<rparr>))"
    by (simp add: GetCommandToIssue_def one_queue_sel numeral_eq_Suc GetFirstReadyInQueue_def q [simplified numeral_eq_Suc] acc
        IsWrite_def IsReadWrite_def IsRead_def IsValid_def ArbitratePrecharge_def OpenRow_def RowHitCount_def s)
  have valid: "IsValid (sample_access WRITE 5)" "IsWrite (sample_access WRITE 5)" "IsValid (sample_access PRECHARGE 9)"
    by (simp_all add: IsValid_def IsWrite_def acc)
  have "\<exists>n pre y post. queues ?w ! n = pre @ y # post \<and> IsWrite y \<and>
      queues (?w\<lparr>queue_idx := 0, queues := [[], [], [], [], [], [], [], []]\<rparr>) = (queues ?w)[n := pre @ post]"
    using GetCommandToIssue_ordered [OF sample_wf(1) one_queue_ok(1) wf one_queue_ok(2) w valid(1)] valid(2) by auto
  moreover have "(\<forall>l \<in> set (queues ?r). \<forall>p \<in> set l. coord_of p = (0, 0, 0) \<longrightarrow> Row p \<noteq> open_row (bk ch (0, 0, 0))) \<or>
      4 \<le> row_hit_count (bk ch (0, 0, 0))"
    using GetCommandToIssue_ordered [OF sample_wf(1) one_queue_ok(1) wf one_queue_ok(2) p valid(3)] acc by auto
  ultimately show ?thesis using w p by blast
qed

end
