(* ===== verification/Channel_Frame.thy ===== *)
theory Channel_Frame
  imports Channel_View Queue_Search
begin

text \<open>
  The bookkeeping of a channel under queries and updates: the pending refreshes and refresh-management
  commands keep naming banks of the channel, a query requests no refresh, and executing a command finishes
  pending refreshes only when it is one.
\<close>

abbreviation side :: "ChannelState \<Rightarrow> Command list \<times> Command list \<times> int list" where
  "side ch \<equiv> (refresh_q ch, rfm_q ch, rank_idle_cycles ch)"

interpretation side: timing_frame side
  by unfold_locales simp_all

lemma UpdateActivationTimes_side: "on_success (UpdateActivationTimes c i t ch) (\<lambda>ch'. side ch' = side ch)"
  by (auto simp: UpdateActivationTimes_def wp Let_def)

section \<open>Executing a command\<close>

definition side_kept :: "Command \<Rightarrow> ChannelState \<Rightarrow> ChannelState \<Rightarrow> bool" where
  "side_kept cmd ch ch' \<longleftrightarrow> set (refresh_q ch') \<subseteq> set (refresh_q ch) \<and> set (rfm_q ch') \<subseteq> set (rfm_q ch) \<and>
     rank_idle_cycles ch' = rank_idle_cycles ch \<and> (\<not> IsRefresh cmd \<longrightarrow> refresh_q ch' = refresh_q ch)"

lemma UpdateState_side: "on_success (ChannelState_UpdateState bo c cmd clk ch) (side_kept cmd ch)"
proof -
  have done_ops: "side_kept cmd ch (ResetAlert (RankNeedRFM i False ch1))" "side_kept cmd ch (BanksetNeedRFM i k False ch1)"
    "side_kept cmd ch ch1" "IsRefresh cmd \<Longrightarrow> side_kept cmd ch (ResetAlert (RankNeedRefresh i False ch1))"
    "IsRefresh cmd \<Longrightarrow> side_kept cmd ch (BanksetNeedRefresh i k False ch1)"
    "IsRefresh cmd \<Longrightarrow> side_kept cmd ch (BankNeedRefresh i j k False ch1)"
    "on_success (set_sref i v ch1) (side_kept cmd ch)" if "side ch1 = side ch" for i j k v ch1
    using that set_erase_first [of _ "refresh_q ch"] set_erase_first [of _ "rfm_q ch"]
    by (auto simp: side_kept_def RankNeedRFM_def BanksetNeedRFM_def RankNeedRefresh_def BanksetNeedRefresh_def
        BankNeedRefresh_def ResetAlert_def set_sref_def wp Let_def)
  have rank: "on_success (bind_res (fold_res (update_bank bo c cmd clk) xs ch) f) (side_kept cmd ch)"
    if "\<And>ch1. side ch1 = side ch \<Longrightarrow> on_success (f ch1) (side_kept cmd ch)" for f xs
    by (rule on_success_bindI [OF side.update_banks_view that])
  have one: "on_success (bind_res (update_bank bo c cmd clk x ch) f) (side_kept cmd ch)"
    if "\<And>ch1. side ch1 = side ch \<Longrightarrow> on_success (f ch1) (side_kept cmd ch)" for f x
    by (rule on_success_bindI [OF side.update_bank_view that])
  consider "IsRankCMD cmd" | "\<not> IsRankCMD cmd" "IsSbCMD cmd" | "\<not> IsRankCMD cmd" "\<not> IsSbCMD cmd" by blast
  then show ?thesis
  proof cases
    case 1
    then show ?thesis
      by (simp only: ChannelState_UpdateState_def if_True, intro rank) (use done_ops in \<open>simp del: on_success_bind split: if_split\<close>)
  next
    case 2
    then show ?thesis
      by (simp only: ChannelState_UpdateState_def if_True if_False, intro rank) (use done_ops in \<open>simp del: on_success_bind split: if_split\<close>)
  next
    case 3
    then show ?thesis
      by (simp only: ChannelState_UpdateState_def if_False, intro one) (use done_ops in \<open>simp del: on_success_bind split: if_split\<close>)
  qed
qed

lemma UpdateTimingAndStates_side: "on_success (UpdateTimingAndStates bo c tm cmd clk ch) (side_kept cmd ch)"
  unfolding UpdateTimingAndStates_def
proof (rule on_success_bindI [OF UpdateState_side])
  fix ch1 assume kept: "side_kept cmd ch ch1"
  have "on_success (ChannelState_UpdateTiming c tm cmd clk ch1) (\<lambda>ch'. side ch' = side ch1)"
    by (rule side.UpdateTiming_view) (use UpdateActivationTimes_side in blast)
  then show "on_success (ChannelState_UpdateTiming c tm cmd clk ch1) (side_kept cmd ch)"
    by (rule on_success_mono) (use kept in \<open>simp add: side_kept_def\<close>)
qed

section \<open>Queries\<close>

text \<open>The pending commands name banks of the channel; a refresh of a bank set needs one queue per bank.\<close>

definition pending_ok :: "Config \<Rightarrow> QueueStructure \<Rightarrow> ChannelState \<Rightarrow> bool" where
  "pending_ok c st ch \<longleftrightarrow>
     (\<forall>x \<in> set (refresh_q ch). addr_ok c x \<and> IsRefresh x \<and> (cmd_type x = REFsb \<longrightarrow> st = PER_BANK)) \<and>
     (\<forall>x \<in> set (rfm_q ch). addr_ok c x \<and> IsRFM x)"

lemma pending_ok_kept: "pending_ok c st ch \<Longrightarrow> side_kept cmd ch ch' \<Longrightarrow> pending_ok c st ch'"
  unfolding pending_ok_def side_kept_def by blast

definition query_kept :: "Config \<Rightarrow> QueueStructure \<Rightarrow> ChannelState \<Rightarrow> ChannelState \<Rightarrow> bool" where
  "query_kept c st ch ch' \<longleftrightarrow> refresh_q ch' = refresh_q ch \<and> rank_idle_cycles ch' = rank_idle_cycles ch \<and>
     (pending_ok c st ch \<longrightarrow> pending_ok c st ch')"

lemma query_kept_refl [simp]: "query_kept c st ch ch"
  by (simp add: query_kept_def)

lemma query_kept_trans: "query_kept c st ch ch1 \<Longrightarrow> query_kept c st ch1 ch2 \<Longrightarrow> query_kept c st ch ch2"
  by (simp add: query_kept_def)

lemma query_kept_shared [simp]:
  "query_kept c st ch (ch1\<lparr>shared := sh\<rparr>) = query_kept c st ch ch1"
  "query_kept c st (ch\<lparr>shared := sh\<rparr>) ch1 = query_kept c st ch ch1"
  by (simp_all add: query_kept_def pending_ok_def)

lemma scan_banks_kept:
  "on_success (scan_banks bo c cmd clk xs ready n ch) (\<lambda>(_, _, _, ch'). query_kept c st ch ch')"
proof (induction xs arbitrary: ready n ch)
  case (Cons x xs)
  obtain i j k where x: "x = (i, j, k)" by (cases x) auto
  have next_bank: "on_success (scan_banks bo c cmd clk xs r m (ch\<lparr>shared := sh\<rparr>)) (\<lambda>(_, _, _, ch'). query_kept c st ch ch')" for r m sh
    by (rule on_success_mono [OF Cons.IH]) (auto simp: query_kept_def pending_ok_def)
  show ?case
    unfolding x scan_banks.simps
    by (rule on_success_bindI [OF on_success_True], rule on_success_bindI [OF on_success_True])
      (use next_bank in \<open>auto simp: Let_def\<close>)
qed simp

lemma need_rfm_kept:
  assumes "0 \<le> i" and "i < ranks c"
  shows "query_kept c st ch (RankNeedRFM i True ch)"
    and "0 \<le> k \<Longrightarrow> k < banks_per_group c \<Longrightarrow> query_kept c st ch (BanksetNeedRFM i k True ch)"
  using assms
  by (auto simp: query_kept_def pending_ok_def RankNeedRFM_def BanksetNeedRFM_def Let_def addr_ok_def command_kind_defs)

lemma query_side:
  assumes "addr_ok c cmd"
  shows "on_success (ChannelState_GetReadyCommand bo c cmd clk ch) (\<lambda>(_, ch'). query_kept c st ch ch')"
proof -
  have scan: "on_success (bind_res (scan_banks bo c cmd clk xs invalid_Command 0 ch) (\<lambda>r. Inr (scan_result n r)))
      (\<lambda>(_, ch'). query_kept c st ch ch')" for xs n
    by (rule on_success_bindI [OF scan_banks_kept [where st = st]]) (auto simp: scan_result_def split: if_splits)
  have one: "on_success (bind_res (get_bank ch (Rank cmd) (Bankgroup cmd) (Bank cmd)) (\<lambda>b.
      bind_res (BankState_GetReadyCommand bo c b cmd clk (shared ch)) f)) (\<lambda>(_, ch'). query_kept c st ch ch')"
    if "\<And>ready sh. addr ready = addr cmd \<or> \<not> IsValid ready \<Longrightarrow> on_success (f (ready, sh)) (\<lambda>(_, ch'). query_kept c st ch ch')" for f
  proof (rule on_success_bindI [OF on_success_True], rule on_success_bindI)
    show "on_success (BankState_GetReadyCommand bo c b cmd clk (shared ch)) (\<lambda>(ready, sh). addr ready = addr cmd \<or> \<not> IsValid ready)" for b
      by (auto simp: on_success_iff BankState_GetReadyCommand_def bind_res_eq_Inr split: if_splits)
  qed (use that in auto)
  show ?thesis
  proof (cases "IsRankCMD cmd \<or> IsSbCMD cmd")
    case True
    then show ?thesis using scan by (auto simp: ChannelState_GetReadyCommand_def simp del: on_success_bind)
  next
    case False
    then have a: "0 \<le> Rank cmd" "Rank cmd < ranks c" "0 \<le> Bank cmd" "Bank cmd < banks_per_group c"
      using assms by (auto simp: addr_ok_def)
    have kept: "query_kept c st ch (RankNeedRFM (Rank cmd) True (ch\<lparr>shared := sh\<rparr>))"
      "query_kept c st ch (BanksetNeedRFM (Rank cmd) (Bank cmd) True (ch\<lparr>shared := sh\<rparr>))" for sh
      using need_rfm_kept [OF a(1,2), where st = st and ch = "ch\<lparr>shared := sh\<rparr>"] a(3,4) by simp_all
    show ?thesis
      unfolding ChannelState_GetReadyCommand_def using False
      by (simp del: on_success_bind, intro one) (use kept in \<open>auto simp: Let_def wp\<close>)
  qed
qed

section \<open>Searches\<close>

lemma ArbitratePrecharge_side:
  "on_success (ArbitratePrecharge prev cmd rest ch) (\<lambda>(_, ch'). query_kept c st ch ch')"
  unfolding ArbitratePrecharge_def
  by (auto simp: Let_def on_success_iff bind_res_eq_Inr split: if_splits)

lemma first_ready_side:
  "\<forall>x \<in> set rest. addr_ok c x \<Longrightarrow>
     on_success (first_ready bo c clk prev rest ch) (\<lambda>(_, ch'). query_kept c st ch ch')"
proof (induction rest arbitrary: prev ch)
  case (Cons x rest)
  have next_cmd: "on_success (first_ready bo c clk (prev @ [x]) rest ch1) (\<lambda>(_, ch'). query_kept c st ch ch')"
    if "query_kept c st ch ch1" for ch1
    by (rule on_success_mono [OF Cons.IH]) (use Cons.prems query_kept_trans [OF that] in auto)
  have close: "on_success (bind_res (ArbitratePrecharge prev x rest ch1) (\<lambda>(ok, ch).
      if ok then Inr (cmd, ch) else first_ready bo c clk (prev @ [x]) rest ch)) (\<lambda>(_, ch'). query_kept c st ch ch')"
    if "query_kept c st ch ch1" for ch1 cmd
    by (rule on_success_bindI [OF ArbitratePrecharge_side [where st = st and c = c]])
      (use next_cmd query_kept_trans [OF that] in auto)
  have x: "addr_ok c x" using Cons.prems by simp
  show ?case
    unfolding first_ready.simps
    by (rule on_success_bindI [OF query_side [OF x, where st = st]])
      (use next_cmd close in \<open>auto simp del: on_success_bind\<close>)
qed simp

lemma GetCommandToIssue_side:
  assumes "\<forall>l \<in> set (queues q). \<forall>x \<in> set l. addr_ok c x"
  shows "on_success (GetCommandToIssue bo c (q, ch)) (\<lambda>(_, (_, ch')). query_kept c st ch ch')"
proof -
  have "on_success (issue_loop bo c n (q, ch)) (\<lambda>(_, (_, ch')). query_kept c st ch ch')"
    if "\<forall>l \<in> set (queues q). \<forall>x \<in> set l. addr_ok c x" for n
    using that
  proof (induction n arbitrary: q ch)
    case (Suc n)
    have q: "on_success (GetNextQueue q) (\<lambda>(l, q' :: CommandQueue). l \<in> set (queues q) \<and> queues q' = queues q)"
      by (auto simp: GetNextQueue_def wp Let_def)
    show ?case
      unfolding issue_loop.simps
    proof (rule on_success_bindI [OF q], clarify)
      fix l and q' :: CommandQueue assume l: "l \<in> set (queues q)" "queues q' = queues q"
      have again: "on_success (issue_loop bo c n (q', ch1)) (\<lambda>(_, (_, ch')). query_kept c st ch ch')"
        if "query_kept c st ch ch1" for ch1
        by (rule on_success_mono [OF Suc.IH]) (use Suc.prems l query_kept_trans [OF that] in auto)
      have "on_success (bind_res (GetFirstReadyInQueue bo c (cq_clk q') l ch) (\<lambda>(cmd, ch).
          if IsValid cmd then bind_res (if IsReadWrite cmd then EraseRWCommand c cmd q' else Inr q') (\<lambda>q. Inr (cmd, (q, ch)))
          else issue_loop bo c n (q', ch))) (\<lambda>(_, (_, ch')). query_kept c st ch ch')"
        unfolding GetFirstReadyInQueue_def
        by (rule on_success_bindI [OF first_ready_side [where st = st]]) (use Suc.prems l again in auto)
      then show "on_success (if blocked q' then issue_loop bo c n (q', ch)
          else bind_res (GetFirstReadyInQueue bo c (cq_clk q') l ch) (\<lambda>(cmd, ch).
            if IsValid cmd then bind_res (if IsReadWrite cmd then EraseRWCommand c cmd q' else Inr q') (\<lambda>q. Inr (cmd, (q, ch)))
            else issue_loop bo c n (q', ch))) (\<lambda>(_, (_, ch')). query_kept c st ch ch')"
        using again [OF query_kept_refl] by (simp del: on_success_bind)
    qed
  qed simp
  with assms show ?thesis by (simp add: GetCommandToIssue_def)
qed

end
