(* ===== verification/Refresh_Correct.thy ===== *)
theory Refresh_Correct
  imports Queue_Search Refresh
begin

text \<open>
  Correctness of the refresh machinery: the queues a pending refresh blocks are those of the banks it
  refreshes, the round-robin pointer reaches every bank, and the schedule of the staggered policies.  The
  two policies that do not reach every rank or bank set are stated as they behave.
\<close>

section \<open>Blocking the queues of a refresh\<close>

lemma collect_quotients:
  assumes "0 < b" and "\<forall>x \<in> set xs. 0 \<le> x"
  shows "fold_res (\<lambda>x S. bind_res (quot_int x b) (\<lambda>r. Inr (if r = i then insert x S else S))) xs S =
    Inr (S \<union> {x \<in> set xs. x div b = (i :: int)})"
  using assms(2)
proof (induction xs arbitrary: S)
  case (Cons x xs)
  have "quot_int x b = Inr (x div b)" using Cons.prems assms(1) by (simp add: quot_int_def sdiv_nonneg)
  then show ?case using Cons by auto
qed simp

lemma rank_queue_indices_eq:
  assumes "geom_wf c"
  shows "rank_queue_indices c n i = Inr {x. 0 \<le> x \<and> x < n \<and> x div banks c = i}"
proof -
  have "0 < banks c" using assms by (simp add: geom_wf_def)
  then have "rank_queue_indices c n i = Inr ({} \<union> {x \<in> set [0..n - 1]. x div banks c = i})"
    unfolding rank_queue_indices_def by (intro collect_quotients) auto
  then show ?thesis by auto
qed

text \<open>With one queue per bank, the queues with numbers of a rank are the queues of its banks.\<close>

lemma rank_queues:
  assumes "geom_wf c" and "cq_structure q = PER_BANK" and "0 \<le> i" and "i < ranks c"
  shows "{x. 0 \<le> x \<and> x < banks c * ranks c \<and> x div banks c = i} =
    (\<lambda>(i, j, k). GetQueueIndex c q i j k) ` set (rank_coords c i)" (is "?A = ?f ` ?B")
proof
  have b: "0 < banks c" using assms(1) by (simp add: geom_wf_def)
  have idx: "GetQueueIndex c q i' j k = i' * banks c + (j * banks_per_group c + k)" for i' j k
    using assms(2) by (simp add: GetQueueIndex_def)
  have quot: "?f x div banks c = i" if in_rank: "x \<in> ?B" for x
  proof -
    obtain j k where x: "x = (i, j, k)" "in_channel c (i, j, k)"
      using in_rank assms(3,4) by (auto simp: set_rank_coords in_channel_def)
    then show ?thesis using queue_index_bound [OF assms(1) x(2)] b by (simp add: idx)
  qed
  have bij: "bij_betw ?f {x. in_channel c x} {0..<banks c * ranks c}"
    using assms(1,2) queue_index_bij by blast
  show "?f ` ?B \<subseteq> ?A"
    using quot bij_betwE [OF bij] rank_coords_in_channel [OF assms(3,4)] by fastforce
  show "?A \<subseteq> ?f ` ?B"
  proof
    fix n assume n: "n \<in> ?A"
    then obtain i' j k where x: "in_channel c (i', j, k)" "n = ?f (i', j, k)"
      using bij_betw_imp_surj_on [OF bij] by fastforce
    have "n div banks c = i'" using queue_index_bound [OF assms(1) x(1)] b by (simp add: x(2) idx)
    then show "n \<in> ?f ` ?B" using n x by (auto simp: set_rank_coords in_channel_def intro!: image_eqI [of _ _ "(i, j, k)"])
  qed
qed

text \<open>With one queue per bank, the preparation of a refresh blocks exactly the queues of the banks the
  refresh touches, for an all-bank, a same-bank and a per-bank refresh.\<close>

lemma GetRefQIndices_blocks:
  assumes "geom_wf c" and "queue_wf c q" and "cq_structure q = PER_BANK" and "addr_ok c ref" and "IsRefresh ref"
  shows "GetRefQIndices c ref q =
    Inr (q\<lparr>ref_q_indices := ref_q_indices q \<union> (\<lambda>(i, j, k). GetQueueIndex c q i j k) ` set (touched c ref)\<rparr>)"
proof -
  have n: "num_queues q = banks c * ranks c" using assms(2,3) by (simp add: queue_wf_def)
  have r: "0 \<le> Rank ref" "Rank ref < ranks c" using assms(4) by (simp_all add: addr_ok_def)
  consider "cmd_type ref = REFab" | "cmd_type ref = REFsb" | "cmd_type ref = REFRESH_BANK"
    using assms(5) by (auto simp: IsRefresh_def)
  then show ?thesis
  proof cases
    case 1
    then have "touched c ref = rank_coords c (Rank ref)" by (simp add: touched_def IsRankCMD_def)
    then show ?thesis
      using 1 rank_queues [OF assms(1,3) r] by (simp add: GetRefQIndices_def assms(3) rank_queue_indices_eq [OF assms(1)] n)
  next
    case 2
    then have "touched c ref = bankset_coords c (Rank ref) (Bank ref)" by (simp add: touched_def IsRankCMD_def IsSbCMD_def)
    moreover have "(\<lambda>(i, j, k). GetQueueIndex c q i j k) ` set (bankset_coords c (Rank ref) (Bank ref)) =
        bankset_queue_indices c q (Rank ref) (Bank ref)"
      by (simp add: bankset_coords_def bankset_queue_indices_def image_image)
    ultimately show ?thesis using 2 by (simp add: GetRefQIndices_def assms(3))
  next
    case 3
    then have "touched c ref = [coord_of ref]" by (simp add: touched_def IsRankCMD_def IsSbCMD_def)
    then show ?thesis using 3 by (simp add: GetRefQIndices_def)
  qed
qed

section \<open>The round-robin pointer\<close>

definition pointer_ok :: "Config \<Rightarrow> Refresh \<Rightarrow> bool" where
  "pointer_ok c r \<longleftrightarrow> in_channel c (next_rank r, next_bg r, next_bank r)"

text \<open>The pointer as a number: the bank group runs fastest, then the bank, then the rank.\<close>

definition pointer_pos :: "Config \<Rightarrow> Refresh \<Rightarrow> int" where
  "pointer_pos c r = (next_rank r * banks_per_group c + next_bank r) * bankgroups c + next_bg r"

lemma rem_int_next: "0 \<le> a \<Longrightarrow> a < b \<Longrightarrow> rem_int (a + 1) b = Inr (if a + 1 = b then 0 else a + 1)"
  by (simp add: rem_int_def smod_nonneg)

lemma advance_bg_pos:
  assumes "geom_wf c" and "pointer_ok c r"
  shows "succeeds (advance_bg c r) (\<lambda>r'. pointer_ok c r' \<and> rf_policy r' = rf_policy r \<and>
    pointer_pos c r' = (if pointer_pos c r + 1 = banks c * ranks c then 0 else pointer_pos c r + 1))"
proof -
  let ?i = "next_rank r" and ?j = "next_bg r" and ?k = "next_bank r" and ?n = "bankgroups c" and ?m = "banks_per_group c"
  have p: "0 \<le> ?i" "?i < ranks c" "0 \<le> ?j" "?j < ?n" "0 \<le> ?k" "?k < ?m" and b: "banks c = ?n * ?m"
    using assms by (auto simp: pointer_ok_def in_channel_def geom_wf_def)
  have full: "pointer_pos c r + 1 = banks c * ranks c \<longleftrightarrow> ?j + 1 = ?n \<and> ?k + 1 = ?m \<and> ?i + 1 = ranks c"
  proof
    assume "?j + 1 = ?n \<and> ?k + 1 = ?m \<and> ?i + 1 = ranks c"
    then have "?n = ?j + 1" "?m = ?k + 1" "ranks c = ?i + 1" by auto
    then show "pointer_pos c r + 1 = banks c * ranks c" unfolding pointer_pos_def b by (simp only:) (simp add: algebra_simps)
  next
    assume "pointer_pos c r + 1 = banks c * ranks c"
    then have "(?i * ?m + ?k) * ?n + ?j = ((ranks c - 1) * ?m + (?m - 1)) * ?n + (?n - 1)"
      by (simp add: pointer_pos_def b algebra_simps)
    then have "?i * ?m + ?k = (ranks c - 1) * ?m + (?m - 1)" "?j = ?n - 1"
      using mixed_radix_unique [of "?i * ?m + ?k" ?n ?j] p by auto
    then show "?j + 1 = ?n \<and> ?k + 1 = ?m \<and> ?i + 1 = ranks c"
      using mixed_radix_unique [of ?i ?m ?k "ranks c - 1" "?m - 1"] p by auto
  qed
  have carry: "?n * ?m = 1 + (?j + ?n * ?k)" if "?j + 1 = ?n" "?k + 1 = ?m"
    unfolding that(2) [symmetric] using that(1) by (simp add: algebra_simps)
  show ?thesis
    using p full carry
    by (simp add: advance_bg_def advance_bank_def advance_rank_def rem_int_next pointer_ok_def in_channel_def Let_def)
      (auto simp: pointer_pos_def algebra_simps)
qed

text \<open>The coordinate the pointer has at a given position, and that positions name the banks of the channel.\<close>

lemma pointer_pos_bij:
  assumes "geom_wf c"
  shows "bij_betw (\<lambda>(i, j, k). (i * banks_per_group c + k) * bankgroups c + j) {x. in_channel c x} {0..<banks c * ranks c}"
proof -
  let ?f = "\<lambda>(i, j, k). (i * banks_per_group c + k) * bankgroups c + j"
  let ?swap = "\<lambda>(i, j, k). (i, k, j)"
  let ?c = "c\<lparr>bankgroups := banks_per_group c, banks_per_group := bankgroups c\<rparr>"
  let ?q = "undefined\<lparr>cq_structure := PER_BANK\<rparr>"
  have g: "geom_wf ?c" using assms by (simp add: geom_wf_def ac_simps)
  have b: "banks c = bankgroups c * banks_per_group c" using assms by (simp add: geom_wf_def)
  have "bij_betw (\<lambda>(i, j, k). GetQueueIndex ?c ?q i j k) {x. in_channel ?c x} {0..<banks ?c * ranks ?c}"
    using g by (rule queue_index_bij) simp
  moreover have "bij_betw ?swap {x. in_channel c x} {x. in_channel ?c x}"
    by (rule bij_betw_byWitness [where f' = ?swap]) (auto simp: in_channel_def)
  ultimately have "bij_betw ((\<lambda>(i, j, k). GetQueueIndex ?c ?q i j k) \<circ> ?swap) {x. in_channel c x} {0..<banks c * ranks c}"
    by (auto intro: bij_betw_trans)
  moreover have "((\<lambda>(i, j, k). GetQueueIndex ?c ?q i j k) \<circ> ?swap) x = ?f x" for x
    by (cases x) (simp add: GetQueueIndex_def b algebra_simps)
  ultimately show ?thesis using bij_betw_cong [of "{x. in_channel c x}"] by blast
qed

text \<open>Per-bank refresh reaches every bank: each step moves the pointer to the next of the \<open>banks * ranks\<close>
  positions, after the last it starts again, and the positions are in bijection with the banks of the
  channel; so every run of that many refreshes names every bank exactly once.\<close>

lemma refresh_pointer_sweep:
  assumes "geom_wf c" and "rf_policy r = BANK_LEVEL_STAGGERED" and "pointer_ok c r"
  shows "succeeds (iter_res n (IterateNext c) r) (\<lambda>r'. pointer_ok c r' \<and>
      pointer_pos c r' = (pointer_pos c r + int n) mod (banks c * ranks c)) \<and>
    bij_betw (\<lambda>(i, j, k). (i * banks_per_group c + k) * bankgroups c + j) {x. in_channel c x} {0..<banks c * ranks c}"
proof
  let ?N = "banks c * ranks c"
  have range: "0 \<le> pointer_pos c r" "pointer_pos c r < ?N" if "pointer_ok c r" for r
    using bij_betwE [OF pointer_pos_bij [OF assms(1)]] that by (auto simp: pointer_ok_def pointer_pos_def)
  have "succeeds (iter_res n (IterateNext c) r) (\<lambda>r'. pointer_ok c r' \<and> rf_policy r' = BANK_LEVEL_STAGGERED \<and>
      pointer_pos c r' = (pointer_pos c r + int n) mod ?N)"
  proof (induction n)
    case 0
    then show ?case using assms range by simp
  next
    case (Suc n)
    show ?case unfolding iter_res_snoc
    proof (rule succeeds_bindI [OF Suc.IH], elim conjE)
      fix r1 assume r1: "pointer_ok c r1" "rf_policy r1 = BANK_LEVEL_STAGGERED" "pointer_pos c r1 = (pointer_pos c r + int n) mod ?N"
      have step: "(if pointer_pos c r1 + 1 = ?N then 0 else pointer_pos c r1 + 1) = (pointer_pos c r + int (Suc n)) mod ?N"
      proof -
        have "(pointer_pos c r + int (Suc n)) mod ?N = (pointer_pos c r1 + 1) mod ?N"
          unfolding r1(3) using mod_add_left_eq [of "pointer_pos c r + int n" ?N 1] by (simp add: ac_simps)
        then show ?thesis using range [OF r1(1)] by simp
      qed
      show "succeeds (IterateNext c r1) (\<lambda>r'. pointer_ok c r' \<and> rf_policy r' = BANK_LEVEL_STAGGERED \<and>
          pointer_pos c r' = (pointer_pos c r + int (Suc n)) mod ?N)"
        using advance_bg_pos [OF assms(1) r1(1)] r1(2) unfolding step by (auto simp: IterateNext_def elim!: succeeds_mono)
    qed
  qed
  then show "succeeds (iter_res n (IterateNext c) r) (\<lambda>r'. pointer_ok c r' \<and>
      pointer_pos c r' = (pointer_pos c r + int n) mod ?N)" by (auto elim!: succeeds_mono)
qed (rule pointer_pos_bij [OF assms(1)])

definition sample_bank_refresh :: Refresh where
  "sample_bank_refresh = \<lparr>rf_clk = 0, refresh_interval = 1950, rf_policy = BANK_LEVEL_STAGGERED, next_rank = 0, next_bg = 1, next_bank = 1\<rparr>"

section \<open>The two policies that skip\<close>

lemma advance_bank_parity:
  assumes "pointer_ok c r" and "even (banks_per_group c)"
  shows "succeeds (advance_bank c r) (\<lambda>r'. pointer_ok c r' \<and> rf_policy r' = rf_policy r \<and>
    (even (next_bank r') \<longleftrightarrow> odd (next_bank r)))"
proof -
  have p: "0 \<le> next_bank r" "next_bank r < banks_per_group c" "0 \<le> next_rank r" "next_rank r < ranks c"
    using assms(1) by (auto simp: pointer_ok_def in_channel_def)
  have "odd (next_bank r)" if "next_bank r + 1 = banks_per_group c"
    using assms(2) that by (metis even_plus_one_iff)
  then show ?thesis
    using p assms(1)
    by (auto simp: advance_bank_def advance_rank_def rem_int_next Let_def pointer_ok_def in_channel_def)
qed

text \<open>C35. Under the policy for bank sets and with a single bank group, the pointer only ever names banks of
  the same parity: the case falls through into the per-bank case and advances twice, so half of the bank
  sets are never refreshed.\<close>

theorem bankset_refresh_skips:
  assumes "geom_wf c" and "rf_policy r = BANKSET_LEVEL_STAGGERED" and "bankgroups c = 1" and "even (banks_per_group c)"
    and "pointer_ok c r"
  shows "succeeds (iter_res n (IterateNext c) r) (\<lambda>r'. pointer_ok c r' \<and> (even (next_bank r') \<longleftrightarrow> even (next_bank r)))"
proof -
  let ?I = "\<lambda>r'. pointer_ok c r' \<and> rf_policy r' = BANKSET_LEVEL_STAGGERED \<and> (even (next_bank r') \<longleftrightarrow> even (next_bank r))"
  have "succeeds (iter_res n (IterateNext c) r) ?I"
  proof (rule iter_res_succeeds)
    fix r1 assume r1: "?I r1"
    have again: "succeeds (advance_bg c r2) ?I"
      if r2: "pointer_ok c r2" "rf_policy r2 = rf_policy r1" "even (next_bank r2) \<longleftrightarrow> odd (next_bank r1)" for r2
    proof -
      have "next_bg r2 = 0" using r2(1) assms(3) by (auto simp: pointer_ok_def in_channel_def)
      then have same: "r2\<lparr>next_bg := 0\<rparr> = r2" and "next_bg r2 = 0" by (cases r2, simp)+
      then have "advance_bg c r2 = advance_bank c r2"
        using assms(3) by (simp add: advance_bg_def rem_int_def smod_nonneg Let_def same)
      then show ?thesis
        using advance_bank_parity [OF r2(1) assms(4)] r1 r2 by (auto elim!: succeeds_mono)
    qed
    show "succeeds (IterateNext c r1) ?I"
      using r1 again succeeds_bindI [OF advance_bank_parity [of c r1], of "advance_bg c" ?I] assms(4) by (auto simp: IterateNext_def)
  qed (use assms in simp)
  then show ?thesis by (auto elim!: succeeds_mono)
qed

theorem bankset_refresh_skips_witness:
  "succeeds (iter_res 7 (IterateNext (sample_Config\<lparr>bankgroups := 1, banks_per_group := 4\<rparr>))
       (sample_bank_refresh\<lparr>rf_policy := BANKSET_LEVEL_STAGGERED, next_bg := 0, next_bank := 0\<rparr>)) (\<lambda>r. even (next_bank r))"
proof -
  let ?c = "sample_Config\<lparr>bankgroups := 1, banks_per_group := 4\<rparr>"
  let ?r = "sample_bank_refresh\<lparr>rf_policy := BANKSET_LEVEL_STAGGERED, next_bg := 0, next_bank := 0\<rparr>"
  have "geom_wf ?c" "pointer_ok ?c ?r"
    by (simp_all add: geom_wf_def pointer_ok_def in_channel_def sample_bank_refresh_def sample_Config_sel)
  then show ?thesis using bankset_refresh_skips [of ?c ?r 7] by (auto simp: elim!: succeeds_mono)
qed

text \<open>Under the policy named simultaneous, a refresh that is due is requested for the first rank that is
  not in self refresh, and for no other.\<close>

lemma simultaneous_refreshes_one_rank:
  assumes "rf_policy r = RANK_LEVEL_SIMULTANEOUS" and "0 < n" and "n \<le> ranks c" and "int (length (rank_is_sref ch)) = ranks c"
    and "\<forall>i. 0 \<le> i \<and> i < n - 1 \<longrightarrow> rank_is_sref ch ! nat i" and "\<not> rank_is_sref ch ! nat (n - 1)"
  shows "InsertRefresh c (r, ch) = Inr (r, RankNeedRefresh (n - 1) True ch)"
proof -
  have "refresh_first_awake [k..ranks c - 1] ch = Inr (RankNeedRefresh (n - 1) True ch)" if "0 \<le> k" "k \<le> n - 1" for k
    using that(2,1)
  proof (induction k rule: int_le_induct)
    case base
    then show ?case
      using assms by (simp add: upto_rec1 IsRankSelfRefreshing_def vec_get_ok)
  next
    case (step k)
    then show ?case
      using assms by (subst upto_rec1) (auto simp: IsRankSelfRefreshing_def vec_get_ok)
  qed
  then show ?thesis using assms(1,2) by (simp add: InsertRefresh_def)
qed

section \<open>The staggered schedule\<close>

abbreviation rank_refresh :: "int \<Rightarrow> Command" where
  "rank_refresh i \<equiv> mk_Command REFab (mk_Address (-1) i (-1) (-1) (-1) (-1)) (-1)"

lemma word_multiple:
  assumes "T < 2 ^ 64" and "0 < d" and "d < 2 ^ 31"
  shows "(of_nat T :: u64) mod word_of_int d = 0 \<longleftrightarrow> T mod nat d = 0" and "(0 :: u64) < of_nat T \<longleftrightarrow> 0 < T"
    and "word_of_int d \<noteq> (0 :: u64)"
proof -
  have T: "unat (of_nat T :: u64) = T" using assms(1) by (simp add: unat_of_nat)
  have d: "unat (word_of_int d :: u64) = nat d" using to_u64_small [of d] assms(2,3) by (simp add: unat_eq_nat_uint)
  show "(of_nat T :: u64) mod word_of_int d = 0 \<longleftrightarrow> T mod nat d = 0"
    by (simp add: unat_eq_zero [symmetric] unat_mod_distrib T d del: unat_eq_zero)
  show "(0 :: u64) < of_nat T \<longleftrightarrow> 0 < T" by (simp add: word_less_nat_alt T)
  show "word_of_int d \<noteq> (0 :: u64)" using assms(2,3) by (rule to_u64_pos)
qed

lemma refreshes_due:
  assumes "0 < d"
  shows "(Suc T - 1) div d = (if 0 < T \<and> T mod d = 0 then Suc ((T - 1) div d) else (T - 1) div (d :: nat))"
  using assms by (cases T) (auto simp: div_Suc)

text \<open>Under the staggered policy with all ranks awake, the scheduler requests refreshes at a fixed rate in
  turn: after \<open>T\<close> cycles the requests made are one for every full interval of \<open>tREFI / ranks\<close> cycles before
  the last, for the ranks 0, 1, ... in order and around again.\<close>

lemma staggered_schedule:
  assumes "geom_wf c" and "refresh_policy c = RANK_LEVEL_STAGGERED" and "new_Refresh c = Inr r"
    and "0 < tREFI c div ranks c" and "0 \<le> tREFI c" and "tREFI c < 2 ^ 31" and "rank_is_sref ch = replicate (nat (ranks c)) False"
    and "T < 2 ^ 64"
  shows "succeeds (iter_res T (Refresh_ClockTick c) (r, ch)) (\<lambda>(r', ch'). refresh_q ch' =
    refresh_q ch @ map (\<lambda>k. rank_refresh (int k mod ranks c)) [0..<(T - 1) div nat (tREFI c div ranks c)])"
proof -
  let ?d = "tREFI c div ranks c"
  let ?n = "\<lambda>T. (T - 1) div nat ?d"
  have ranks: "0 < ranks c" using assms(1) by (simp add: geom_wf_def)
  have d: "?d < 2 ^ 31"
    using zdiv_mono2 [of "tREFI c" 1 "ranks c"] assms(5,6) ranks by simp
  have r: "r = \<lparr>rf_clk = 0, refresh_interval = ?d, rf_policy = RANK_LEVEL_STAGGERED, next_rank = 0, next_bg = 0, next_bank = 0\<rparr>"
    using assms(2,3,5) ranks by (simp add: new_Refresh_def quot_int_def sdiv_nonneg)
  let ?I = "\<lambda>T (r', ch'). rf_clk r' = of_nat T \<and> refresh_interval r' = ?d \<and> rf_policy r' = RANK_LEVEL_STAGGERED \<and>
    next_rank r' = int (?n T) mod ranks c \<and> rank_is_sref ch' = rank_is_sref ch \<and>
    refresh_q ch' = refresh_q ch @ map (\<lambda>k. rank_refresh (int k mod ranks c)) [0..<?n T]"
  have "succeeds (iter_res T (Refresh_ClockTick c) (r, ch)) (?I T)"
    using assms(8)
  proof (induction T)
    case 0
    then show ?case by (simp add: r)
  next
    case (Suc T)
    show ?case unfolding iter_res_snoc
    proof (rule succeeds_bindI [OF Suc.IH], use Suc.prems in simp, clarify)
      fix r1 :: Refresh and ch1 :: ChannelState
      assume I: "rf_clk r1 = of_nat T" "refresh_interval r1 = ?d" "rf_policy r1 = RANK_LEVEL_STAGGERED"
        "next_rank r1 = int (?n T) mod ranks c" "rank_is_sref ch1 = rank_is_sref ch"
        "refresh_q ch1 = refresh_q ch @ map (\<lambda>k. rank_refresh (int k mod ranks c)) [0..<?n T]"
      have T: "T < 2 ^ 64" using Suc.prems by simp
      note w = word_multiple [OF T assms(4) d]
      have nr: "0 \<le> next_rank r1" "next_rank r1 < ranks c" using I(4) ranks by simp_all
      have awake: "IsRankSelfRefreshing ch1 (next_rank r1) = Inr False"
        using nr by (simp add: IsRankSelfRefreshing_def I(5) assms(7) vec_get_def)
      have nxt: "rem_int (next_rank r1 + 1) (ranks c) = Inr (int (Suc (?n T)) mod ranks c)"
        using nr ranks unfolding I(4) by (simp add: rem_int_def smod_nonneg mod_add_right_eq ac_simps)
      have count: "?n (Suc T) = (if 0 < T \<and> T mod nat ?d = 0 then Suc (?n T) else ?n T)"
        using assms(4) by (intro refreshes_due) simp
      have rem: "rem_word (rf_clk r1) (to_u64 (refresh_interval r1)) = Inr (of_nat T mod word_of_int ?d)"
        using w(3) by (simp add: rem_word_def I(1,2))
      show "succeeds (Refresh_ClockTick c (r1, ch1)) (?I (Suc T))"
      proof (cases "0 < T \<and> T mod nat ?d = 0")
        case True
        then have "Refresh_ClockTick c (r1, ch1) =
            Inr (r1\<lparr>next_rank := int (Suc (?n T)) mod ranks c, rf_clk := rf_clk r1 + 1\<rparr>, RankNeedRefresh (next_rank r1) True ch1)"
          using w(1,2) I(1,3) awake nxt rem by (simp add: Refresh_ClockTick_def InsertRefresh_def IterateNext_def advance_rank_def)
        then show ?thesis
          using True I unfolding count by (simp add: RankNeedRefresh_def)
      next
        case False
        then have "\<not> (of_nat T mod word_of_int ?d = (0 :: u64) \<and> 0 < rf_clk r1)" using w(1,2) I(1) by auto
        then have "Refresh_ClockTick c (r1, ch1) = Inr (r1\<lparr>rf_clk := rf_clk r1 + 1\<rparr>, ch1)"
          using rem by (auto simp: Refresh_ClockTick_def)
        then show ?thesis using False I unfolding count by simp
      qed
    qed
  qed
  then show ?thesis by (auto elim!: succeeds_mono)
qed

end
