(* ===== verification/Controller_Correct.thy ===== *)
theory Controller_Correct
  imports Controller_Data Channel_Frame Refresh_Correct
begin

text \<open>
  Correctness of the controller (\<open>DRAMsim3/src/controller.cc\<close>): a well-formed controller completes every
  clock cycle without a fault, keeps its invariant and its accounting of transactions; the three
  situations in which the code does fail or lose an access are stated as they are.
\<close>

section \<open>The invariant\<close>

definition refresh_ok :: "Config \<Rightarrow> QueueStructure \<Rightarrow> Refresh \<Rightarrow> bool" where
  "refresh_ok c st r \<longleftrightarrow> pointer_ok c r \<and> to_u64 (refresh_interval r) \<noteq> 0 \<and>
     rf_policy r \<in> {RANK_LEVEL_SIMULTANEOUS, RANK_LEVEL_STAGGERED, BANKSET_LEVEL_STAGGERED, BANK_LEVEL_STAGGERED, NO_REFRESH} \<and>
     (rf_policy r = BANKSET_LEVEL_STAGGERED \<longrightarrow> st = PER_BANK)"

definition chan_ok :: "Config \<Rightarrow> QueueStructure \<Rightarrow> ChannelState \<Rightarrow> bool" where
  "chan_ok c st ch \<longleftrightarrow> chan_wf c (ranks c) ch \<and> pending_ok c st ch \<and>
     rank_is_sref ch = replicate (nat (ranks c)) False \<and> int (length (rank_idle_cycles ch)) = ranks c"

definition queue_ok :: "Build \<Rightarrow> Config \<Rightarrow> CommandQueue \<Rightarrow> bool" where
  "queue_ok bo c q \<longleftrightarrow> queue_wf c q \<and> (\<forall>l \<in> set (queues q). \<forall>x \<in> set l. kind_safe bo x)"

text \<open>Every rank is awake, the queues and the scheduler are well formed, the clocks agree, queues are
  blocked for a refresh only while one is waiting, and builds that close rows by force use plain accesses.\<close>

definition ctl_wf :: "Build \<Rightarrow> Config \<Rightarrow> Controller \<Rightarrow> bool" where
  "ctl_wf bo c t \<longleftrightarrow> chan_ok c (cq_structure (cmd_queue t)) (channel_state t) \<and> queue_ok bo c (cmd_queue t) \<and>
     refresh_ok c (cq_structure (cmd_queue t)) (refresh t) \<and> cq_clk (cmd_queue t) = ctl_clk t \<and>
     (is_in_ref (cmd_queue t) \<longrightarrow> refresh_q (channel_state t) \<noteq> []) \<and>
     (ROWPRESS bo \<longrightarrow> ctl_row_buf_policy t \<notin> {CLOSE_PAGE, SOFT_CLOSE_PAGE})"

section \<open>The refresh scheduler\<close>

lemma advance_ok:
  assumes "pointer_ok c r"
  shows "succeeds (advance_rank c r) (\<lambda>r'. pointer_ok c r' \<and> rf_policy r' = rf_policy r \<and> refresh_interval r' = refresh_interval r)"
    and "succeeds (advance_bank c r) (\<lambda>r'. pointer_ok c r' \<and> rf_policy r' = rf_policy r \<and> refresh_interval r' = refresh_interval r)"
    and "succeeds (advance_bg c r) (\<lambda>r'. pointer_ok c r' \<and> rf_policy r' = rf_policy r \<and> refresh_interval r' = refresh_interval r)"
  using assms
  by (auto simp: advance_rank_def advance_bank_def advance_bg_def pointer_ok_def in_channel_def rem_int_next Let_def)

lemma IterateNext_ok:
  assumes "refresh_ok c st r" and "rf_policy r \<notin> {RANK_LEVEL_SIMULTANEOUS, NO_REFRESH}"
  shows "succeeds (IterateNext c r) (refresh_ok c st)"
proof -
  have p: "pointer_ok c r" using assms(1) by (simp add: refresh_ok_def)
  have twice: "succeeds (bind_res (advance_bank c r) (advance_bg c))
      (\<lambda>r'. pointer_ok c r' \<and> rf_policy r' = rf_policy r \<and> refresh_interval r' = refresh_interval r)"
    by (rule succeeds_bindI [OF advance_ok(2) [OF p]]) (auto elim!: succeeds_mono [OF advance_ok(3)])
  have "succeeds (IterateNext c r) (\<lambda>r'. pointer_ok c r' \<and> rf_policy r' = rf_policy r \<and> refresh_interval r' = refresh_interval r)"
    using assms advance_ok [OF p] twice by (auto simp: IterateNext_def refresh_ok_def simp del: succeeds_bind)
  then show ?thesis using assms(1) by (auto simp: refresh_ok_def elim!: succeeds_mono)
qed

text \<open>A scheduler step appends at most refresh requests, for banks of the channel.\<close>

definition refresh_added :: "Config \<Rightarrow> QueueStructure \<Rightarrow> ChannelState \<Rightarrow> ChannelState \<Rightarrow> bool" where
  "refresh_added c st ch ch' \<longleftrightarrow> (\<exists>l. ch' = ch\<lparr>refresh_q := refresh_q ch @ l\<rparr>) \<and> chan_ok c st ch'"

lemma refresh_added_need:
  assumes "chan_ok c st ch" and "in_channel c (i, j, k)"
  shows "refresh_added c st ch (RankNeedRefresh i True ch)" and "refresh_added c st ch (BankNeedRefresh i j k True ch)"
    and "st = PER_BANK \<Longrightarrow> refresh_added c st ch (BanksetNeedRefresh i k True ch)" and "refresh_added c st ch ch"
proof -
  have wf: "chan_wf c (ranks c) (ch\<lparr>refresh_q := l\<rparr>) = chan_wf c (ranks c) ch" for l
    by (simp add: chan_wf_def chan_shape_def)
  show "refresh_added c st ch (RankNeedRefresh i True ch)" "refresh_added c st ch (BankNeedRefresh i j k True ch)"
    "st = PER_BANK \<Longrightarrow> refresh_added c st ch (BanksetNeedRefresh i k True ch)"
    using assms by (auto simp: refresh_added_def chan_ok_def wf RankNeedRefresh_def BankNeedRefresh_def
        BanksetNeedRefresh_def pending_ok_def addr_ok_def in_channel_def command_kind_defs)
  show "refresh_added c st ch ch" using assms(1) by (auto simp: refresh_added_def intro!: exI [of _ "[]"])
qed

lemma refresh_first_awake_ok:
  assumes "chan_ok c st ch" and "geom_wf c" and "set is \<subseteq> {0..<ranks c}"
  shows "succeeds (refresh_first_awake is ch) (refresh_added c st ch)"
proof (cases "is")
  case Nil
  then show ?thesis using refresh_added_need(4) [OF assms(1), of 0 0 0] assms(2) by (simp add: geom_wf_def in_channel_def)
next
  case (Cons i js)
  have i: "in_channel c (i, 0, 0)" using assms(2,3) Cons by (auto simp: geom_wf_def in_channel_def)
  then have "IsRankSelfRefreshing ch i = Inr False"
    using assms(1) by (simp add: IsRankSelfRefreshing_def chan_ok_def vec_get_def in_channel_def)
  then show ?thesis using refresh_added_need(1) [OF assms(1) i] Cons by simp
qed

abbreviation refresh_due :: "Refresh \<Rightarrow> bool" where
  "refresh_due r \<equiv> rf_clk r mod to_u64 (refresh_interval r) = 0 \<and> 0 < rf_clk r"

lemma InsertRefresh_ok:
  assumes "geom_wf c" and "refresh_ok c st r" and "chan_ok c st ch"
  shows "succeeds (InsertRefresh c (r, ch)) (\<lambda>(r', ch'). refresh_ok c st r' \<and> refresh_added c st ch ch')"
proof -
  have p: "in_channel c (next_rank r, next_bg r, next_bank r)" using assms(2) by (simp add: refresh_ok_def pointer_ok_def)
  have awake: "IsRankSelfRefreshing ch (next_rank r) = Inr False"
    using assms(3) p by (simp add: IsRankSelfRefreshing_def chan_ok_def vec_get_def in_channel_def)
  have stag: "succeeds (bind_res (IsRankSelfRefreshing ch (next_rank r)) (\<lambda>sref.
        let ch = (if \<not> sref then f ch else ch) in bind_res (IterateNext c r) (\<lambda>r. Inr (r, ch))))
      (\<lambda>(r', ch'). refresh_ok c st r' \<and> refresh_added c st ch ch')"
    if "refresh_added c st ch (f ch)" "rf_policy r \<notin> {RANK_LEVEL_SIMULTANEOUS, NO_REFRESH}" for f
    using IterateNext_ok [OF assms(2) that(2)] that(1) by (auto simp: awake elim!: succeeds_mono)
  have first: "succeeds (bind_res (refresh_first_awake [0..ranks c - 1] ch) (\<lambda>ch. Inr (r, ch)))
      (\<lambda>(r', ch'). refresh_ok c st r' \<and> refresh_added c st ch ch')"
    by (rule succeeds_bindI [OF refresh_first_awake_ok [OF assms(3,1)]]) (use assms(2) in auto)
  show ?thesis
    using assms(2) refresh_added_need [OF assms(3) p] stag [of "RankNeedRefresh (next_rank r) True"]
      stag [of "BanksetNeedRefresh (next_rank r) (next_bank r) True"]
      stag [of "BankNeedRefresh (next_rank r) (next_bg r) (next_bank r) True"] first
    by (auto simp: InsertRefresh_def refresh_ok_def Let_def simp del: succeeds_bind)
qed

lemma Refresh_ClockTick_ok:
  assumes "geom_wf c" and "refresh_ok c st r" and "chan_ok c st ch"
  shows "succeeds (Refresh_ClockTick c (r, ch)) (\<lambda>(r', ch'). refresh_ok c st r' \<and> refresh_added c st ch ch' \<and>
    (\<not> refresh_due r \<longrightarrow> ch' = ch))"
proof -
  have clk: "refresh_ok c st (r'\<lparr>rf_clk := n\<rparr>) = refresh_ok c st r'" for r' n by (simp add: refresh_ok_def pointer_ok_def)
  have rem: "rem_word (rf_clk r) (to_u64 (refresh_interval r)) = Inr (rf_clk r mod to_u64 (refresh_interval r))"
    using assms(2) by (simp add: rem_word_def refresh_ok_def)
  have keep: "refresh_added c st ch ch"
    using refresh_added_need(4) [OF assms(3)] assms(2) by (metis refresh_ok_def pointer_ok_def)
  show ?thesis
    using InsertRefresh_ok [OF assms] assms(2) keep
    by (auto simp: Refresh_ClockTick_def rem clk elim!: succeeds_mono)
qed

section \<open>The command of a cycle\<close>

lemma queue_ok_updates [simp]:
  "queue_ok bo c (q\<lparr>ref_q_indices := S\<rparr>) = queue_ok bo c q" "queue_ok bo c (q\<lparr>is_in_ref := v\<rparr>) = queue_ok bo c q"
  "queue_ok bo c (q\<lparr>rfm_q_indices := S\<rparr>) = queue_ok bo c q" "queue_ok bo c (q\<lparr>is_in_rfm := v\<rparr>) = queue_ok bo c q"
  by (simp_all add: queue_ok_def queue_wf_def)

lemma queued_updates [simp]:
  "queued (q\<lparr>ref_q_indices := S\<rparr>) = queued q" "queued (q\<lparr>is_in_ref := v\<rparr>) = queued q"
  "queued (q\<lparr>rfm_q_indices := S\<rparr>) = queued q" "queued (q\<lparr>is_in_rfm := v\<rparr>) = queued q"
  "queued (q\<lparr>queue_idx := i\<rparr>) = queued q" "queued (q\<lparr>cq_clk := n\<rparr>) = queued q"
  by (simp_all add: queued_def)

text \<open>The command chosen for a cycle answers a request the channel accepts; a read or write has left its
  queue; queues stay blocked for a refresh only while one is waiting that is not being issued.\<close>

definition chosen :: "Build \<Rightarrow> Config \<Rightarrow> queue_ctx \<Rightarrow> Command \<times> queue_ctx \<Rightarrow> bool" where
  "chosen bo c = (\<lambda>(q, ch) (cmd, (q', ch')).
     chan_frame c (ranks c) ch ch' \<and> query_kept c (cq_structure q) ch ch' \<and> queue_ok bo c q' \<and>
     cq_structure q' = cq_structure q \<and> cq_clk q' = cq_clk q \<and>
     (IsValid cmd \<longrightarrow> (\<exists>req. cmd_type req \<noteq> SREF_ENTER \<and> chan_accepts c ch req \<and> query_post c (ranks c) req (cq_clk q) ch (cmd, ch'))) \<and>
     queued q = (if IsReadWrite cmd then {#cmd_access cmd#} else {#}) + queued q' \<and>
     (is_in_ref q' \<longrightarrow> refresh_q ch \<noteq> [] \<and> \<not> IsRefresh cmd))"

lemma mset_concat_update:
  "n < length xs \<Longrightarrow> mset (concat (xs[n := l])) + mset (xs ! n) = mset (concat xs) + mset l"
proof (induction xs arbitrary: n)
  case (Cons x xs)
  then show ?case by (cases n) (auto simp: ac_simps)
qed simp

lemma all_update: "\<forall>l \<in> set xs. P l \<Longrightarrow> P y \<Longrightarrow> \<forall>l \<in> set (xs[n := y]). P l"
  by (auto dest: set_update_subset_insert [THEN subsetD])

lemma queued_remove:
  assumes "n < length (queues q)" and "y \<in> set (queues q ! n)"
  shows "queued q = add_mset (cmd_access y) (queued (q\<lparr>queues := (queues q)[n := remove1 y (queues q ! n)]\<rparr>))"
proof -
  have y: "mset (queues q ! n) = add_mset y (mset (remove1 y (queues q ! n)))" using assms(2) by simp
  have "mset (concat (queues q)) = add_mset y (mset (concat ((queues q)[n := remove1 y (queues q ! n)])))"
    using mset_concat_update [OF assms(1), of "remove1 y (queues q ! n)"] unfolding y by simp
  then show ?thesis by (simp add: queued_def)
qed

lemma IsReadWrite_invalid: "\<not> IsValid cmd \<Longrightarrow> \<not> IsReadWrite cmd \<and> \<not> IsRefresh cmd"
  by (auto simp: IsValid_def command_kind_defs IsReadWrite_def IsRead_def IsWrite_def)

lemma rw_answers_no_refresh: "is_rw_type t \<Longrightarrow> answers t u \<Longrightarrow> u \<notin> {REFab, REFsb, REFRESH_BANK}"
  by (auto simp: answers_def is_rw_type_def)

lemma GetCommandToIssue_chosen:
  assumes "cfg_wf c" and "queue_ok bo c q" and "chan_wf c (ranks c) ch" and "is_in_ref q \<longrightarrow> refresh_q ch \<noteq> []"
  shows "succeeds (GetCommandToIssue bo c (q, ch)) (chosen bo c (q, ch))"
proof -
  have q: "queue_wf c q" "\<forall>l \<in> set (queues q). \<forall>x \<in> set l. kind_safe bo x" using assms(2) by (auto simp: queue_ok_def)
  have own: "rw_request c x" if "n < length (queues q)" "x \<in> set (queues q ! n)" for n x
    using queue_wfD(4) [OF q(1) that(1)] that(2) by (auto simp: owned_def)
  have addrs: "\<forall>l \<in> set (queues q). \<forall>x \<in> set l. addr_ok c x"
    using own by (metis in_set_conv_nth rw_request_accepts(1) chan_accepts_def)
  have post: "chosen bo c (q, ch) (cmd, (q', ch'))"
    if p: "issue_post c (ranks c) (queue_idx q) (q, ch) (cmd, (q', ch'))" and k: "query_kept c (cq_structure q) ch ch'" for cmd q' ch'
  proof (cases "IsValid cmd")
    case False
    then have "q' = q\<lparr>queue_idx := queue_idx q\<rparr>" "chan_frame c (ranks c) ch ch'" using p by (auto simp: issue_post_def)
    then show ?thesis using assms(2,4) k IsReadWrite_invalid [OF False] False by (simp add: chosen_def)
  next
    case True
    then obtain n where n: "n < length (queues q)" "picked c (ranks c) (cq_clk q) (queues q ! n) ch cmd ch'"
      "if IsReadWrite cmd then \<exists>y \<in> set (queues q ! n). hex_addr y = hex_addr cmd \<and> IsRead y = IsRead cmd \<and>
           q' = q\<lparr>queue_idx := int n, queues := (queues q)[n := remove1 y (queues q ! n)]\<rparr>
         else q' = q\<lparr>queue_idx := int n\<rparr>" and fr: "chan_frame c (ranks c) ch ch'" "queue_wf c q'"
      using p unfolding issue_post_def by auto
    obtain x where x: "x \<in> set (queues q ! n)" "query_post c (ranks c) x (cq_clk q) ch (cmd, ch')"
      by (rule picked_source [OF n(2)])
    have acc: "chan_accepts c ch x" "cmd_type x \<noteq> SREF_ENTER"
      using own [OF n(1) x(1)] rw_request_accepts by (auto simp: rw_request_def is_rw_type_def)
    have "answers (cmd_type x) (cmd_type cmd)" using x(2) True by (simp add: query_post_def)
    then have noref: "\<not> IsRefresh cmd"
      using own [OF n(1) x(1)] rw_answers_no_refresh by (auto simp: rw_request_def IsRefresh_def)
    have safe: "queue_ok bo c q' \<and> queued q = (if IsReadWrite cmd then {#cmd_access cmd#} else {#}) + queued q' \<and>
        cq_structure q' = cq_structure q \<and> cq_clk q' = cq_clk q \<and> is_in_ref q' = is_in_ref q"
    proof (cases "IsReadWrite cmd")
      case rw: True
      then obtain y where y: "y \<in> set (queues q ! n)" "hex_addr y = hex_addr cmd" "IsRead y = IsRead cmd"
        "q' = q\<lparr>queue_idx := int n, queues := (queues q)[n := remove1 y (queues q ! n)]\<rparr>" using n(3) by auto
      have "set (remove1 y (queues q ! n)) \<subseteq> set (queues q ! n)" by (rule set_remove1_subset)
      then have "\<forall>l \<in> set (queues q'). \<forall>x \<in> set l. kind_safe bo x"
        using q(2) nth_mem [OF n(1)] unfolding y(4) by (simp, intro all_update) blast+
      moreover have "cmd_access y = cmd_access cmd" using y(2,3) by (simp add: cmd_access_def)
      moreover have "queued q' = queued (q\<lparr>queues := (queues q)[n := remove1 y (queues q ! n)]\<rparr>)" by (simp add: y(4) queued_def)
      ultimately show ?thesis using queued_remove [OF n(1) y(1)] fr(2) rw by (simp add: queue_ok_def y(4))
    next
      case False
      then show ?thesis using n(3) fr(2) q(2) by (simp add: queue_ok_def)
    qed
    then show ?thesis using fr(1) k x(2) acc noref assms(4) by (auto simp: chosen_def)
  qed
  show ?thesis
    using succeeds_conj [OF GetCommandToIssue_post [OF assms(1) q(1) assms(3) q(2)]
        GetCommandToIssue_side [OF addrs, of bo ch "cq_structure q"]] post
    by (auto elim!: succeeds_mono)
qed

lemma GetRefQIndices_ok:
  assumes "geom_wf c" and "cmd_type ref = REFsb \<longrightarrow> cq_structure q = PER_BANK"
  shows "\<exists>S. GetRefQIndices c ref q = Inr (q\<lparr>ref_q_indices := S\<rparr>)"
  using assms by (auto simp: GetRefQIndices_def rank_queue_indices_eq)

lemma GetRFMQIndices_ok:
  assumes "geom_wf c"
  shows "\<exists>S. GetRFMQIndices c rfm q = Inr (q\<lparr>rfm_q_indices := S\<rparr>)"
  using assms by (auto simp: GetRFMQIndices_def rank_queue_indices_eq)

text \<open>The answer of the channel to a pending maintenance command.\<close>

lemma maintenance_accepted:
  assumes "chan_ok c st ch" and "addr_ok c x" and "IsRefresh x \<or> IsRFM x"
  shows "chan_accepts c ch x" and "is_maintenance_type (cmd_type x)"
proof -
  show m: "is_maintenance_type (cmd_type x)" using assms(3) by (auto simp: command_kind_defs is_maintenance_type_def)
  have "\<not> rank_is_sref ch ! nat (Rank x)" using assms(1,2) by (auto simp: chan_ok_def addr_ok_def)
  then show "chan_accepts c ch x" using assms(2) m by (simp add: chan_accepts_def)
qed

lemma maintenance_query:
  assumes "cfg_wf c" and "geom_wf c" and "chan_ok c st ch" and "addr_ok c x" and "IsRefresh x \<or> IsRFM x"
  shows "succeeds (ChannelState_GetReadyCommand bo c x clk ch) (\<lambda>(cmd, ch'). query_post c (ranks c) x clk ch (cmd, ch') \<and>
    query_kept c st ch ch' \<and> \<not> IsReadWrite cmd \<and> (IsRefresh cmd \<longrightarrow> IsRefresh x))"
proof -
  note acc = maintenance_accepted [OF assms(3-5)]
  have wf: "chan_wf c (ranks c) ch" using assms(3) by (simp add: chan_ok_def)
  have kinds: "\<not> IsReadWrite cmd \<and> (IsRefresh cmd \<longrightarrow> IsRefresh x)" if q: "query_post c (ranks c) x clk ch (cmd, ch')" for cmd ch'
  proof (cases "IsValid cmd")
    case True
    then have a: "answers (cmd_type x) (cmd_type cmd)" using q by (simp add: query_post_def)
    have "\<not> is_rw_type (cmd_type x)" using acc(2) by (auto simp: is_maintenance_type_def is_rw_type_def)
    then have "cmd_type cmd \<in> {cmd_type x, PRECHARGE, PRECHARGE2}" using a by (simp add: answers_def)
    then show ?thesis using acc(2) by (auto simp: IsReadWrite_type IsRefresh_def is_maintenance_type_def is_rw_type_def)
  qed (use IsReadWrite_invalid in blast)
  show ?thesis
    using succeeds_conj [OF GetReadyCommand_post [OF assms(1,2) wf acc(1), of bo clk] query_side [OF assms(4), of bo clk ch st]] kinds
    by (auto elim!: succeeds_mono)
qed

definition prepared :: "Build \<Rightarrow> Config \<Rightarrow> queue_ctx \<Rightarrow> Command \<times> queue_ctx \<Rightarrow> bool" where
  "prepared bo c ctx r \<longleftrightarrow> chosen bo c ctx r \<and> \<not> IsReadWrite (fst r)"

lemma FinishRefresh_prepared:
  assumes "cfg_wf c" and "geom_wf c" and "chan_ok c (cq_structure q) ch" and "queue_ok bo c q"
    and "\<not> is_in_rfm q" and "refresh_q ch \<noteq> []"
  shows "succeeds (FinishRefresh bo c (q, ch)) (prepared bo c (q, ch))"
proof -
  let ?ref = "hd (refresh_q ch)"
  have ref: "addr_ok c ?ref" "IsRefresh ?ref" "cmd_type ?ref = REFsb \<longrightarrow> cq_structure q = PER_BANK"
    using assms(3,6) by (auto simp: chan_ok_def pending_ok_def)
  have pend: "PendingRefCommand ch = Inr ?ref" using assms(6) by (simp add: PendingRefCommand_def vec_get_def hd_conv_nth)
  obtain S where S: "GetRefQIndices c ?ref q = Inr (q\<lparr>ref_q_indices := S\<rparr>)" using GetRefQIndices_ok [OF assms(2) ref(3)] by blast
  note query = maintenance_query [OF assms(1-3) ref(1) disjI1 [OF ref(2)], of bo "cq_clk q"]
  have acc: "chan_accepts c ch ?ref" "cmd_type ?ref \<noteq> SREF_ENTER"
    using maintenance_accepted [OF assms(3) ref(1)] ref(2) by (auto simp: IsRefresh_def)
  have "succeeds (bind_res (ChannelState_GetReadyCommand bo c ?ref (cq_clk q1) ch) (\<lambda>(cmd, ch).
      Inr (cmd, (if IsRefresh cmd then q1\<lparr>ref_q_indices := {}, is_in_ref := False\<rparr> else q1, ch)))) (prepared bo c (q, ch))"
    if q1: "queue_ok bo c q1" "cq_structure q1 = cq_structure q" "cq_clk q1 = cq_clk q" "queued q1 = queued q" for q1
    using q1 acc assms(6)
    by (auto simp: prepared_def chosen_def intro: query_post_frame simp del: succeeds_bind intro!: succeeds_bindI [OF query])
  from this [of "q\<lparr>ref_q_indices := S, is_in_ref := True\<rparr>"] this [of q] show ?thesis
    using assms(4,5) by (simp add: FinishRefresh_def pend S del: succeeds_bind)
qed

lemma FinishRFM_prepared:
  assumes "cfg_wf c" and "geom_wf c" and "chan_ok c (cq_structure q) ch" and "queue_ok bo c q"
    and "\<not> is_in_ref q" and "rfm_q ch \<noteq> []"
  shows "succeeds (FinishRFM bo c (q, ch)) (prepared bo c (q, ch))"
proof -
  let ?rfm = "hd (rfm_q ch)"
  have rfm: "addr_ok c ?rfm" "IsRFM ?rfm" using assms(3,6) by (auto simp: chan_ok_def pending_ok_def)
  have pend: "PendingRFMCommand ch = Inr ?rfm" using assms(6) by (simp add: PendingRFMCommand_def vec_get_def hd_conv_nth)
  obtain S where S: "GetRFMQIndices c ?rfm q = Inr (q\<lparr>rfm_q_indices := S\<rparr>)" using GetRFMQIndices_ok [OF assms(2)] by blast
  note query = maintenance_query [OF assms(1-3) rfm(1) disjI2 [OF rfm(2)], of bo "cq_clk q"]
  have acc: "chan_accepts c ch ?rfm" "cmd_type ?rfm \<noteq> SREF_ENTER"
    using maintenance_accepted [OF assms(3) rfm(1)] rfm(2) by (auto simp: IsRFM_def)
  have "succeeds (bind_res (ChannelState_GetReadyCommand bo c ?rfm (cq_clk q1) ch) (\<lambda>(cmd, ch).
      Inr (cmd, (if IsRFM cmd then q1\<lparr>rfm_q_indices := {}, is_in_rfm := False\<rparr> else q1, ch)))) (prepared bo c (q, ch))"
    if q1: "queue_ok bo c q1" "cq_structure q1 = cq_structure q" "cq_clk q1 = cq_clk q" "queued q1 = queued q" "\<not> is_in_ref q1" for q1
    using q1 acc
    by (auto simp: prepared_def chosen_def intro: query_post_frame simp del: succeeds_bind intro!: succeeds_bindI [OF query])
  from this [of "q\<lparr>rfm_q_indices := S, is_in_rfm := True\<rparr>"] this [of q] show ?thesis
    using assms(4,5) by (simp add: FinishRFM_def pend S del: succeeds_bind)
qed

lemma chosen_trans:
  assumes "chosen bo c (q, ch) (cmd1, (q1, ch1))" and "\<not> IsReadWrite cmd1" and "chosen bo c (q1, ch1) (cmd, (q', ch'))"
  shows "chosen bo c (q, ch) (cmd, (q', ch'))"
proof -
  have fr: "chan_frame c (ranks c) ch ch1" "query_kept c (cq_structure q) ch ch1" "cq_structure q1 = cq_structure q"
    "cq_clk q1 = cq_clk q" "queued q1 = queued q"
    using assms(1,2) by (simp_all add: chosen_def)
  have acc: "chan_accepts c ch1 req = chan_accepts c ch req" for req
    using fr(1) by (simp add: chan_frame_def chan_accepts_def)
  show ?thesis
    using assms(3) fr acc query_post_from [OF fr(1)] chan_frame_trans [OF fr(1)] query_kept_trans [OF fr(2)]
    by (auto simp: chosen_def query_kept_def)
qed

lemma next_command_chosen:
  assumes "cfg_wf c" and "geom_wf c" and "chan_ok c (cq_structure (cmd_queue t)) (channel_state t)"
    and "queue_ok bo c (cmd_queue t)" and "is_in_ref (cmd_queue t) \<longrightarrow> refresh_q (channel_state t) \<noteq> []"
    and "is_in_rfm (cmd_queue t) \<longrightarrow> refresh_q (channel_state t) = []"
  shows "succeeds (next_command bo c t) (\<lambda>(cmd, t'). \<exists>q' ch'. t' = t\<lparr>cmd_queue := q', channel_state := ch'\<rparr> \<and>
    chosen bo c (cmd_queue t, channel_state t) (cmd, (q', ch')))"
proof -
  let ?q = "cmd_queue t" and ?ch = "channel_state t"
  have wf: "chan_wf c (ranks c) ?ch" using assms(3) by (simp add: chan_ok_def)
  have "prepared bo c (?q, ?ch) (invalid_Command, (?q, ?ch))"
    using assms(4,5) chan_frame_refl [OF wf] IsReadWrite_invalid [of invalid_Command] by (simp add: prepared_def chosen_def)
  then have first: "succeeds (if IsRefreshWaiting ?ch then FinishRefresh bo c (?q, ?ch)
      else if IsRFMWaiting ?ch then FinishRFM bo c (?q, ?ch) else Inr (invalid_Command, (?q, ?ch))) (prepared bo c (?q, ?ch))"
    using FinishRefresh_prepared [OF assms(1-4)] FinishRFM_prepared [OF assms(1-4)] assms(5,6)
    by (auto simp: IsRefreshWaiting_def IsRFMWaiting_def)
  have search: "succeeds (GetCommandToIssue bo c (q1, ch1)) (chosen bo c (?q, ?ch))"
    if "prepared bo c (?q, ?ch) (cmd, (q1, ch1))" for cmd q1 ch1
  proof -
    have c1: "chosen bo c (?q, ?ch) (cmd, (q1, ch1))" "\<not> IsReadWrite cmd" using that by (simp_all add: prepared_def)
    then have "queue_ok bo c q1" "chan_wf c (ranks c) ch1" "is_in_ref q1 \<longrightarrow> refresh_q ch1 \<noteq> []"
      by (auto simp: chosen_def chan_frame_def query_kept_def)
    from GetCommandToIssue_chosen [OF assms(1) this] show ?thesis
      using chosen_trans [OF c1] by (auto elim!: succeeds_mono)
  qed
  show ?thesis
    unfolding next_command_def
  proof (rule succeeds_bindI [OF first], clarify)
    fix cmd q1 ch1 assume p: "prepared bo c (?q, ?ch) (cmd, (q1, ch1))"
    have "succeeds (if \<not> IsValid cmd then GetCommandToIssue bo c (q1, ch1) else Inr (cmd, (q1, ch1))) (chosen bo c (?q, ?ch))"
      using search [OF p] p by (simp add: prepared_def)
    then show "succeeds (bind_res (if \<not> IsValid cmd then GetCommandToIssue bo c (q1, ch1) else Inr (cmd, (q1, ch1)))
        (\<lambda>(cmd, (q, ch)). Inr (cmd, t\<lparr>cmd_queue := q, channel_state := ch\<rparr>)))
        (\<lambda>(cmd, t'). \<exists>q' ch'. t' = t\<lparr>cmd_queue := q', channel_state := ch'\<rparr> \<and> chosen bo c (?q, ?ch) (cmd, (q', ch')))"
      by (rule succeeds_bindI) (clarify, simp only: succeeds_simps split_conv, blast)
  qed
qed

section \<open>Issuing the command\<close>

text \<open>The fields of the controller that hold the accounting and the scheduling state.\<close>

definition rest_same :: "Controller \<Rightarrow> Controller \<Rightarrow> bool" where
  "rest_same t t' \<longleftrightarrow> cmd_queue t' = cmd_queue t \<and> refresh t' = refresh t \<and> ctl_clk t' = ctl_clk t \<and>
     ctl_row_buf_policy t' = ctl_row_buf_policy t"

lemma on_stats_chan [simp]:
  "bk (channel_state (on_stats f t)) = bk (channel_state t)"
  "refresh_q (channel_state (on_stats f t)) = refresh_q (channel_state t)"
  "rank_is_sref (channel_state (on_stats f t)) = rank_is_sref (channel_state t)"
  "four_aw (channel_state (on_stats f t)) = four_aw (channel_state t)"
  "thirty_two_aw (channel_state (on_stats f t)) = thirty_two_aw (channel_state t)"
  "rfm_q (channel_state (on_stats f t)) = rfm_q (channel_state t)"
  "rank_idle_cycles (channel_state (on_stats f t)) = rank_idle_cycles (channel_state t)"
  by (simp_all add: on_stats_def Let_def bk_def)

lemma chan_wf_on_stats:
  assumes "chan_wf c nr (channel_state t)" and "stats_wf nr (f (ctl_stats t))"
  shows "chan_wf c nr (channel_state (on_stats f t))"
  using assms by (simp add: chan_wf_def chan_shape_def on_stats_def Let_def shared_wf_def bk_def)

lemma chan_wf_stats [simp]:
  "chan_wf c nr (channel_state t) \<Longrightarrow> chan_wf c nr (channel_state (on_stats (Increment n) t))"
  "chan_wf c nr (channel_state t) \<Longrightarrow> chan_wf c nr (channel_state (on_stats (AddValue n v) t))"
proof -
  assume wf: "chan_wf c nr (channel_state t)"
  then have "stats_wf nr (ctl_stats t)" by (simp add: chan_wf_def shared_wf_def)
  then show "chan_wf c nr (channel_state (on_stats (Increment n) t))" "chan_wf c nr (channel_state (on_stats (AddValue n v) t))"
    using wf by (auto intro: chan_wf_on_stats)
qed

lemma retire_pending_frame:
  "on_success (retire_pending c cmd t) (\<lambda>t'. rest_same t t' \<and>
     (chan_wf c nr (channel_state t) \<longrightarrow> chan_frame c nr (channel_state t) (channel_state t') \<and>
      query_kept c st (channel_state t) (channel_state t')))"
  by (auto simp: retire_pending_def complete_reads_def rest_same_def Let_def chan_frame_def query_kept_def pending_ok_def
      split: option.split)

lemma row_was_hit_ok:
  assumes "chan_wf c nr (channel_state t)" and "addr_ok c cmd" and "IsReadWrite cmd"
  shows "\<exists>v. row_was_hit t cmd = Inr v"
proof -
  have "in_channel c (coord_of cmd)"
    using assms(2,3) by (auto simp: addr_ok_def in_channel_def command_classes_disjoint)
  then have "get_bank (channel_state t) (Rank cmd) (Bankgroup cmd) (Bank cmd) = Inr (bk (channel_state t) (coord_of cmd))"
    using assms(1) by (intro get_bank_ok) (auto simp: chan_wf_def)
  then show ?thesis by (simp add: row_was_hit_def RowHitCount_def)
qed

lemma UpdateCommandStats_ok:
  assumes "chan_wf c nr (channel_state t)" and "addr_ok c cmd" and "IsValid cmd"
  shows "succeeds (UpdateCommandStats cmd t) (\<lambda>t'. rest_same t t' \<and> same_data t t' \<and>
    chan_frame c nr (channel_state t) (channel_state t') \<and> query_kept c st (channel_state t) (channel_state t'))"
proof -
  have "IsReadWrite cmd \<Longrightarrow> \<exists>v. row_was_hit t cmd = Inr v" using row_was_hit_ok [OF assms(1,2)] .
  then show ?thesis
    using assms(1,3)
    by (cases "cmd_type cmd")
      (auto simp: UpdateCommandStats_def IsReadWrite_def IsRead_def IsWrite_def IsValid_def rest_same_def chan_frame_def
        query_kept_def pending_ok_def Let_def intro!: same_dataI)
qed

lemma executed_awake:
  assumes "geom_wf c" and "chan_wf c nr ch" and "rank_is_sref ch = replicate (nat (ranks c)) False"
    and "executed c nr tm cmd clk ch ch'" and "cmd_type cmd \<noteq> SREF_ENTER"
    and "\<forall>x \<in> set (touched c cmd). rb_step (cmd_type cmd) (Row cmd) (abs_bank (bk ch x)) \<noteq> None"
  shows "rank_is_sref ch' = replicate (nat (ranks c)) False"
proof (rule nth_equalityI)
  have wf: "chan_wf c nr ch'" using assms(4) by (simp add: executed_def)
  show len: "length (rank_is_sref ch') = length (replicate (nat (ranks c)) False)"
    using wf by (auto simp: chan_wf_def chan_shape_def)
  fix n assume "n < length (rank_is_sref ch')"
  then have x: "in_channel c (int n, 0, 0)" using len assms(1) by (auto simp: in_channel_def geom_wf_def)
  let ?x = "(int n, 0, 0) :: coord"
  have "bank_state (bk ch ?x) \<noteq> SREF" using assms(2,3) x by (auto simp: chan_wf_def in_channel_def)
  then have "abs_bank (bk ch' ?x) \<noteq> RB_SelfRefresh"
    using assms(4,5,6) x rb_step_sref [of "cmd_type cmd" "Row cmd" "abs_bank (bk ch ?x)"]
    by (auto simp: executed_def abs_bank_sref split: if_splits)
  then have "\<not> rank_is_sref ch' ! nat (int n)"
    using wf x unfolding chan_wf_def by (metis abs_bank_sref)
  moreover have "n < nat (ranks c)" using x by (auto simp: in_channel_def)
  ultimately show "rank_is_sref ch' ! n = replicate (nat (ranks c)) False ! n" by simp
qed

text \<open>The state in which a chosen command is issued: the accounting lacks exactly the access that left its
  queue.\<close>

definition in_flight :: "Command \<Rightarrow> Controller \<Rightarrow> bool" where
  "in_flight cmd t \<longleftrightarrow> waiting t + (if IsReadWrite cmd then {#cmd_access cmd#} else {#}) = promised t \<and>
     distinct (map fst (pending_wr_q t)) \<and> (\<forall>e \<in> set (pending_rd_q t). access_of (snd e) = (fst e, False))"

lemma retire_pending_ok:
  assumes "in_flight cmd t"
  shows "succeeds (retire_pending c cmd t) (\<lambda>t'. accounted t' \<and> unanswered t' = unanswered t)"
proof (cases "IsReadWrite cmd")
  case True
  then show ?thesis using retire_pending_accounts [of cmd t c] assms by (simp add: in_flight_def)
next
  case False
  then show ?thesis using assms by (simp add: retire_pending_def in_flight_def accounted_def IsReadWrite_def)
qed

lemma IssueCommand_ok:
  assumes "cfg_wf c" and "geom_wf c" and "chan_ok c st ch" and "cmd_type req \<noteq> SREF_ENTER" and "chan_accepts c ch req"
    and "query_post c (ranks c) req (ctl_clk t) ch (cmd, channel_state t)" and "query_kept c st ch (channel_state t)"
    and "IsValid cmd" and "chan_fits c ch" and "in_flight cmd t"
  shows "succeeds (IssueCommand bo c (new_Timing c) cmd t) (\<lambda>t'. rest_same t t' \<and> accounted t' \<and>
    unanswered t' = unanswered t \<and> chan_ok c st (channel_state t') \<and>
    (\<not> IsRefresh cmd \<longrightarrow> refresh_q (channel_state t') = refresh_q ch))"
proof -
  have q: "chan_frame c (ranks c) ch (channel_state t)" "addr_ok c cmd" "answers (cmd_type req) (cmd_type cmd)"
    "\<forall>x \<in> set (touched c cmd). rb_step (cmd_type cmd) (Row cmd) (abs_bank (bk ch x)) \<noteq> None"
    using assms(6,8) query_post_frame [OF assms(6)] by (auto simp: query_post_def)
  have kind: "cmd_type cmd \<noteq> SREF_ENTER" using q(3) assms(4) by (auto simp: answers_def is_rw_type_def split: if_splits)
  have wf: "chan_wf c (ranks c) (channel_state t)" "chan_wf c (ranks c) ch" "rank_is_sref ch = replicate (nat (ranks c)) False"
    using q(1) assms(3) by (simp_all add: chan_frame_def chan_ok_def)
  have retire: "succeeds (retire_pending c cmd t) (\<lambda>t1. accounted t1 \<and> unanswered t1 = unanswered t \<and> rest_same t t1 \<and>
      chan_frame c (ranks c) ch (channel_state t1) \<and> query_kept c st ch (channel_state t1))"
    using succeeds_conj [OF retire_pending_ok [OF assms(10)] retire_pending_frame [of c cmd t "ranks c" st]] wf(1)
      chan_frame_trans [OF q(1)] query_kept_trans [OF assms(7)]
    by (auto elim!: succeeds_mono)
  have finish: "succeeds (UpdateTimingAndStates bo c (new_Timing c) cmd (ctl_clk t2) (channel_state t2)) (\<lambda>ch'. chan_ok c st ch' \<and>
      (\<not> IsRefresh cmd \<longrightarrow> refresh_q ch' = refresh_q ch))"
    if t2: "chan_frame c (ranks c) ch (channel_state t2)" "query_kept c st ch (channel_state t2)" "ctl_clk t2 = ctl_clk t" for t2
  proof -
    have "succeeds (UpdateTimingAndStates bo c (new_Timing c) cmd (ctl_clk t) (channel_state t2))
        (executed c (ranks c) (new_Timing c) cmd (ctl_clk t) ch)"
      using execute_succeeds [OF assms(1) tables_ok_new_Timing assms(5,9) query_post_to [OF assms(6) t2(1)] assms(8)] .
    from succeeds_conj [OF this UpdateTimingAndStates_side] show ?thesis
      unfolding t2(3)
    proof (rule succeeds_mono, elim conjE)
      fix ch' assume ex: "executed c (ranks c) (new_Timing c) cmd (ctl_clk t) ch ch'" and k: "side_kept cmd (channel_state t2) ch'"
      have "rank_is_sref ch' = replicate (nat (ranks c)) False" by (rule executed_awake [OF assms(2) wf(2,3) ex kind q(4)])
      moreover have "pending_ok c st ch'" using pending_ok_kept [OF _ k] t2(2) assms(3) by (simp add: query_kept_def chan_ok_def)
      ultimately show "chan_ok c st ch' \<and> (\<not> IsRefresh cmd \<longrightarrow> refresh_q ch' = refresh_q ch)"
        using ex k t2(2) assms(3) by (simp add: chan_ok_def executed_def side_kept_def query_kept_def)
    qed
  qed
  show ?thesis
    unfolding IssueCommand_def
  proof (rule succeeds_bindI [OF retire], elim conjE)
    fix t1 assume t1: "accounted t1" "unanswered t1 = unanswered t" "rest_same t t1"
      "chan_frame c (ranks c) ch (channel_state t1)" "query_kept c st ch (channel_state t1)"
    have "chan_wf c (ranks c) (channel_state t1)" using t1(4) by (simp add: chan_frame_def)
    note st = UpdateCommandStats_ok [OF this q(2) assms(8), of st]
    show "succeeds (bind_res (UpdateCommandStats cmd t1) (\<lambda>t. bind_res (UpdateTimingAndStates bo c (new_Timing c) cmd (ctl_clk t) (channel_state t))
        (\<lambda>ch. Inr (t\<lparr>channel_state := ch\<rparr>)))) (\<lambda>t'. rest_same t t' \<and> accounted t' \<and> unanswered t' = unanswered t \<and>
        chan_ok c st (channel_state t') \<and> (\<not> IsRefresh cmd \<longrightarrow> refresh_q (channel_state t') = refresh_q ch))"
    proof (rule succeeds_bindI [OF st], elim conjE)
      fix t2 assume t2: "rest_same t1 t2" "same_data t1 t2" "chan_frame c (ranks c) (channel_state t1) (channel_state t2)"
        "query_kept c st (channel_state t1) (channel_state t2)"
      have same: "accounted (t2\<lparr>channel_state := x\<rparr>) = accounted t1" "unanswered (t2\<lparr>channel_state := x\<rparr>) = unanswered t1" for x
        using same_dataD [OF t2(2)] by (simp_all add: accounted_def waiting_def promised_def unanswered_def)
      have "ctl_clk t2 = ctl_clk t" using t1(3) t2(1) by (simp add: rest_same_def)
      from finish [OF chan_frame_trans [OF t1(4) t2(3)] query_kept_trans [OF t1(5) t2(4)] this]
      show "succeeds (bind_res (UpdateTimingAndStates bo c (new_Timing c) cmd (ctl_clk t2) (channel_state t2))
          (\<lambda>ch. Inr (t2\<lparr>channel_state := ch\<rparr>))) (\<lambda>t'. rest_same t t' \<and> accounted t' \<and> unanswered t' = unanswered t \<and>
          chan_ok c st (channel_state t') \<and> (\<not> IsRefresh cmd \<longrightarrow> refresh_q (channel_state t') = refresh_q ch))"
        using t1(1-3) t2(1) same by (auto simp: rest_same_def elim!: succeeds_mono)
    qed
  qed
qed

section \<open>Counting the cycle\<close>

lemma all_idle_ok:
  assumes "chan_wf c nr ch" and "\<forall>x \<in> set xs. in_channel c x"
  shows "\<exists>v. all_idle ch xs = Inr v"
  using assms(2)
proof (induction xs)
  case (Cons x xs)
  obtain i j k where x: "x = (i, j, k)" by (cases x) auto
  have "get_bank ch i j k = Inr (bk ch (i, j, k))" using Cons.prems assms(1) x by (intro get_bank_ok) (auto simp: chan_wf_def)
  then show ?case using Cons x by (cases "IsRowOpen (bk ch (i, j, k))") auto
qed (metis all_idle.simps(1))

definition counted :: "Config \<Rightarrow> QueueStructure \<Rightarrow> Controller \<Rightarrow> Controller \<Rightarrow> bool" where
  "counted c st t t' \<longleftrightarrow> rest_same t t' \<and> same_data t t' \<and> chan_ok c st (channel_state t') \<and>
     refresh_q (channel_state t') = refresh_q (channel_state t)"

lemma counted_trans: "counted c st t t1 \<Longrightarrow> counted c st t1 t2 \<Longrightarrow> counted c st t t2"
  by (simp add: counted_def rest_same_def same_data_def)

lemma count_vec_ok:
  assumes "chan_ok c st (channel_state t)" and "0 \<le> i" and "i < ranks c"
    and "n \<in> {''sref_cycles'', ''all_bank_idle_cycles'', ''rank_active_cycles''}"
  shows "succeeds (bind_res (IncrementVec n i (ctl_stats t)) (\<lambda>st. Inr (on_stats (\<lambda>_. st) t))) (counted c st t)"
proof -
  have s: "stats_wf (ranks c) (ctl_stats t)" using assms(1) by (simp add: chan_ok_def chan_wf_def shared_wf_def)
  then have "vec_len_is (ctl_stats t) n (ranks c)" using assms(4) by (auto simp: stats_wf_def)
  from IncrementVec_stats_wf [OF s this assms(2,3)] show ?thesis
    by (rule succeeds_bindI)
      (use assms(1) in \<open>auto simp: counted_def rest_same_def chan_ok_def pending_ok_def intro!: same_dataI chan_wf_on_stats\<close>)
qed

lemma count_rank_cycle_ok:
  assumes "chan_ok c st (channel_state t)" and "0 \<le> i" and "i < ranks c"
  shows "succeeds (count_rank_cycle c i t) (counted c st t)"
proof -
  have ch: "chan_wf c (ranks c) (channel_state t)" "rank_is_sref (channel_state t) = replicate (nat (ranks c)) False"
    using assms(1) by (simp_all add: chan_ok_def)
  have awake: "IsRankSelfRefreshing (channel_state t) i = Inr False"
    using assms(2,3) ch(2) by (simp add: IsRankSelfRefreshing_def vec_get_def)
  obtain v where idle: "IsAllBankIdleInRank c (channel_state t) i = Inr v"
    using all_idle_ok [OF ch(1)] rank_coords_in_channel [OF assms(2,3)] unfolding IsAllBankIdleInRank_def by blast
  have idle_ok: "succeeds (bind_res (vec_upd (rank_idle_cycles (channel_state t1)) i f) (\<lambda>v.
      Inr (t1\<lparr>channel_state := (channel_state t1)\<lparr>rank_idle_cycles := v\<rparr>\<rparr>))) (counted c st t)"
    if "counted c st t t1" for f t1
    using that assms(2,3)
    by (auto simp: counted_def chan_ok_def rest_same_def same_data_def pending_ok_def waiting_def wp
        chan_wf_def chan_shape_def bk_def)
  have "succeeds (bind_res (bind_res (IncrementVec n i (ctl_stats t)) (\<lambda>st. Inr (on_stats (\<lambda>_. st) t))) (\<lambda>t.
      bind_res (vec_upd (rank_idle_cycles (channel_state t)) i f) (\<lambda>v.
      Inr (t\<lparr>channel_state := (channel_state t)\<lparr>rank_idle_cycles := v\<rparr>\<rparr>)))) (counted c st t)"
    if "n \<in> {''sref_cycles'', ''all_bank_idle_cycles'', ''rank_active_cycles''}" for n f
    by (rule succeeds_bindI [OF count_vec_ok [OF assms that] idle_ok])
  then show ?thesis by (simp add: count_rank_cycle_def awake idle Let_def del: succeeds_bind)
qed

lemma count_cycle_ok:
  assumes "chan_ok c st (channel_state t)"
  shows "succeeds (fold_res (count_rank_cycle c) [0..ranks c - 1] t) (counted c st t)"
proof (rule fold_res_succeeds)
  show "counted c st t t" using assms by (simp add: counted_def rest_same_def same_data_def)
  fix i t1 assume "i \<in> set [0..ranks c - 1]" and t1: "counted c st t t1"
  then have "succeeds (count_rank_cycle c i t1) (counted c st t1)" by (intro count_rank_cycle_ok) (auto simp: counted_def)
  then show "succeeds (count_rank_cycle c i t1) (counted c st t)" by (rule succeeds_mono) (rule counted_trans [OF t1])
qed

section \<open>Scheduling a transaction\<close>

text \<open>The address mapping decodes every address to a bank and a row of the channel.\<close>

definition mapping_ok :: "Config \<Rightarrow> bool" where
  "mapping_ok c \<longleftrightarrow> (\<forall>h. succeeds (AddressMapping c h) (\<lambda>a.
     in_channel c (rank a, bankgroup a, bank a) \<and> 0 \<le> row a \<and> row a < rows c))"

lemma same_row_pending_ok: "mapping_ok c \<Longrightarrow> \<exists>v. same_row_pending c a l = Inr v"
proof (induction l)
  case (Cons p l)
  obtain b where "AddressMapping c (trans_addr p) = Inr b" using Cons.prems by (auto simp: mapping_ok_def succeeds_iff)
  then show ?case using Cons by auto
qed (metis same_row_pending.simps(1))

lemma TransToCommand_ok:
  assumes "mapping_ok c" and "ROWPRESS bo \<longrightarrow> policy \<notin> {CLOSE_PAGE, SOFT_CLOSE_PAGE}"
  shows "succeeds (TransToCommand bo c policy tr rest) (\<lambda>cmd. rw_request c cmd \<and> kind_safe bo cmd \<and>
    cmd_access cmd = access_of tr \<and> IsWrite cmd = is_write tr)"
proof -
  obtain a where a: "AddressMapping c (trans_addr tr) = Inr a" "in_channel c (rank a, bankgroup a, bank a)"
    "0 \<le> row a" "row a < rows c"
    using assms(1) [unfolded mapping_ok_def, rule_format, of "trans_addr tr"] by (auto elim!: succeedsE)
  obtain v where v: "same_row_pending c a rest = Inr v" using same_row_pending_ok [OF assms(1)] by blast
  show ?thesis
    using a assms(2)
    by (auto simp: TransToCommand_def v Let_def rw_request_def is_rw_type_def kind_safe_def cmd_access_def access_of_def
        IsRead_def IsWrite_def)
qed

definition room :: "Config \<Rightarrow> CommandQueue \<Rightarrow> Command \<Rightarrow> bool" where
  "room c q cmd \<longleftrightarrow> length (queues q ! nat (queue_of c q cmd)) < unat (queue_size q)"

lemma WillAcceptCommand_room:
  assumes "geom_wf c" and "queue_wf c q" and "rw_request c cmd"
  shows "WillAcceptCommand c q (Rank cmd) (Bankgroup cmd) (Bank cmd) = Inr (room c q cmd)"
proof -
  have "in_channel c (coord_of cmd)" using assms(3) by (simp add: rw_request_def)
  note r = queue_index_range [OF assms(1,2) this]
  have "nat (queue_of c q cmd) < length (queues q)" using r by auto
  from size_u64_less [OF queue_wfD(3) [OF assms(2) this]] show ?thesis
    using r by (simp add: WillAcceptCommand_def GetQueue_def vec_get_ok room_def)
qed

lemma AddCommand_frame:
  "on_success (AddCommand c cmd q) (\<lambda>(_, q'). cq_structure q' = cq_structure q \<and> cq_clk q' = cq_clk q \<and> is_in_ref q' = is_in_ref q)"
  by (auto simp: AddCommand_def wp)

lemma AddCommand_queued:
  assumes "geom_wf c" and "queue_ok bo c q" and "rw_request c cmd" and "kind_safe bo cmd" and "room c q cmd"
  shows "succeeds (AddCommand c cmd q) (\<lambda>(_, q'). queue_ok bo c q' \<and> queued q' = add_mset (cmd_access cmd) (queued q) \<and>
    cq_structure q' = cq_structure q \<and> cq_clk q' = cq_clk q \<and> is_in_ref q' = is_in_ref q)"
proof -
  let ?n = "nat (queue_of c q cmd)"
  have q: "queue_wf c q" "\<forall>l \<in> set (queues q). \<forall>x \<in> set l. kind_safe bo x" using assms(2) by (simp_all add: queue_ok_def)
  have "in_channel c (coord_of cmd)" using assms(3) by (simp add: rw_request_def)
  then have n: "?n < length (queues q)" using queue_index_range [OF assms(1) q(1), of "Rank cmd" "Bankgroup cmd" "Bank cmd"] by auto
  have new: "queued q' = add_mset (cmd_access cmd) (queued q) \<and> (\<forall>l \<in> set (queues q'). \<forall>x \<in> set l. kind_safe bo x)"
    if e: "queues q' = (queues q)[?n := queues q ! ?n @ [cmd]]" for q'
  proof
    show "queued q' = add_mset (cmd_access cmd) (queued q)"
      using mset_concat_update [OF n, of "queues q ! ?n @ [cmd]"] by (simp add: queued_def e)
    show "\<forall>l \<in> set (queues q'). \<forall>x \<in> set l. kind_safe bo x"
      unfolding e using q(2) nth_mem [OF n] assms(4) by (intro all_update) auto
  qed
  show ?thesis
    using succeeds_conj [OF AddCommand_post [OF assms(1) q(1) assms(3)] AddCommand_frame [of c cmd q]] assms(5) new
    by (auto simp: Let_def room_def queue_ok_def elim!: succeeds_mono)
qed

text \<open>A scan takes one transaction of the list whose command its queue accepts, or leaves the list.\<close>

definition taken :: "Build \<Rightarrow> Config \<Rightarrow> CommandQueue \<Rightarrow> Transaction list \<Rightarrow> sched_result \<times> Transaction list \<Rightarrow> bool" where
  "taken bo c q l = (\<lambda>(r, qs). case r of
     Sched_Take cmd \<Rightarrow> rw_request c cmd \<and> kind_safe bo cmd \<and> room c q cmd \<and>
       image_mset access_of (mset l) = add_mset (cmd_access cmd) (image_mset access_of (mset qs))
   | _ \<Rightarrow> qs = l)"

lemma sched_scan_ok:
  assumes "geom_wf c" and "mapping_ok c" and "queue_wf c (cmd_queue t)"
    and "ROWPRESS bo \<longrightarrow> ctl_row_buf_policy t \<notin> {CLOSE_PAGE, SOFT_CLOSE_PAGE}"
  shows "succeeds (sched_scan bo c t prev l) (taken bo c (cmd_queue t) (prev @ l))"
proof (induction l arbitrary: prev)
  case (Cons tr l)
  show ?case
    unfolding sched_scan.simps
  proof (rule succeeds_bindI [OF TransToCommand_ok [OF assms(2,4)]], elim conjE)
    fix cmd assume cmd: "rw_request c cmd" "kind_safe bo cmd" "cmd_access cmd = access_of tr"
    show "succeeds (bind_res (WillAcceptCommand c (cmd_queue t) (Rank cmd) (Bankgroup cmd) (Bank cmd)) (\<lambda>ok.
        if ok then (if \<not> is_unified_queue t \<and> IsWrite cmd \<and> mm_count (pending_rd_q t) (trans_addr tr) > 0
          then Inr (Sched_Stop, prev @ tr # l) else Inr (Sched_Take cmd, prev @ l))
        else sched_scan bo c t (prev @ [tr]) l)) (taken bo c (cmd_queue t) (prev @ tr # l))"
      using cmd Cons.IH [of "prev @ [tr]"] by (simp add: WillAcceptCommand_room [OF assms(1,3) cmd(1)] taken_def)
  qed
qed (simp add: taken_def)

lemma start_write_drain_ok:
  assumes "chan_ok c st (channel_state t)"
  shows "counted c st t (start_write_drain bo t)"
proof -
  have "chan_wf c (ranks c) (channel_state (start_write_drain bo t))"
    using assms by (auto simp: start_write_drain_def Let_def chan_ok_def)
  moreover have "same_data t (start_write_drain bo t)"
    by (rule same_dataI) (simp_all add: start_write_drain_def Let_def)
  moreover have "rest_same t (start_write_drain bo t)" "side (channel_state (start_write_drain bo t)) = side (channel_state t)"
    "rank_is_sref (channel_state (start_write_drain bo t)) = rank_is_sref (channel_state t)"
    by (simp_all add: start_write_drain_def Let_def rest_same_def)
  ultimately show ?thesis using assms by (simp add: counted_def chan_ok_def pending_ok_def)
qed

lemma set_trans_source_frame [simp]:
  "cmd_queue (set_trans_source qs t) = cmd_queue t" "refresh (set_trans_source qs t) = refresh t"
  "ctl_clk (set_trans_source qs t) = ctl_clk t" "ctl_row_buf_policy (set_trans_source qs t) = ctl_row_buf_policy t"
  "channel_state (set_trans_source qs t) = channel_state t" "pending_rd_q (set_trans_source qs t) = pending_rd_q t"
  "pending_wr_q (set_trans_source qs t) = pending_wr_q t" "return_queue (set_trans_source qs t) = return_queue t"
  by (simp_all add: set_trans_source_def)

lemma waiting_taken:
  assumes "image_mset access_of (mset (trans_source t)) = add_mset a (image_mset access_of (mset qs))"
  shows "waiting t = add_mset a (waiting (set_trans_source qs t))"
  using assms by (simp add: waiting_def trans_source_def set_trans_source_def split: if_splits)

lemma ctl_wf_updates [simp]:
  "ctl_wf bo c (t\<lparr>write_draining := n\<rparr>) = ctl_wf bo c t" "accounted (t\<lparr>write_draining := n\<rparr>) = accounted t"
  "unanswered (t\<lparr>write_draining := n\<rparr>) = unanswered t" "waiting (t\<lparr>write_draining := n\<rparr>) = waiting t"
  "promised (t\<lparr>write_draining := n\<rparr>) = promised t"
  by (simp_all add: ctl_wf_def accounted_def waiting_def promised_def unanswered_def)

lemma waiting_with_queue: "waiting (t\<lparr>cmd_queue := q\<rparr>) + queued (cmd_queue t) = waiting t + queued q"
  by (simp add: waiting_def)

text \<open>Moving the taken command into its queue restores the accounting.\<close>

lemma schedule_taken:
  assumes "geom_wf c" and "ctl_wf bo c t" and "accounted t" and "taken bo c (cmd_queue t) (trans_source t) (Sched_Take cmd, qs)"
    and "t1 = set_trans_source qs t \<or> t1 = set_trans_source qs t\<lparr>write_draining := n\<rparr>"
  shows "succeeds (bind_res (AddCommand c cmd (cmd_queue t1)) (\<lambda>(_, q). Inr (t1\<lparr>cmd_queue := q\<rparr>)))
    (\<lambda>t'. ctl_wf bo c t' \<and> accounted t' \<and> unanswered t' = unanswered t \<and> ctl_clk t' = ctl_clk t)"
proof -
  have same: "cmd_queue t1 = cmd_queue t" "channel_state t1 = channel_state t" "refresh t1 = refresh t"
    "ctl_clk t1 = ctl_clk t" "ctl_row_buf_policy t1 = ctl_row_buf_policy t" "pending_rd_q t1 = pending_rd_q t"
    "pending_wr_q t1 = pending_wr_q t" "return_queue t1 = return_queue t" "waiting t1 = waiting (set_trans_source qs t)"
    using assms(5) by auto
  have q: "queue_ok bo c (cmd_queue t)" using assms(2) by (simp add: ctl_wf_def)
  have cmd: "rw_request c cmd" "kind_safe bo cmd" "room c (cmd_queue t) cmd"
    "waiting t = add_mset (cmd_access cmd) (waiting t1)"
    using assms(4) waiting_taken [of t "cmd_access cmd" qs] by (simp_all add: taken_def same(9))
  have "ctl_wf bo c (t1\<lparr>cmd_queue := q'\<rparr>) \<and> accounted (t1\<lparr>cmd_queue := q'\<rparr>) \<and> unanswered (t1\<lparr>cmd_queue := q'\<rparr>) = unanswered t \<and>
      ctl_clk (t1\<lparr>cmd_queue := q'\<rparr>) = ctl_clk t"
    if q': "queue_ok bo c q'" "queued q' = add_mset (cmd_access cmd) (queued (cmd_queue t))" "cq_structure q' = cq_structure (cmd_queue t)"
      "cq_clk q' = cq_clk (cmd_queue t)" "is_in_ref q' = is_in_ref (cmd_queue t)" for q'
  proof -
    have "waiting (t1\<lparr>cmd_queue := q'\<rparr>) = waiting t" using waiting_with_queue [where t = t1 and q = q'] cmd(4) q'(2) same(1) by simp
    then show ?thesis
      using assms(2,3) q' same(2-8) by (simp add: ctl_wf_def accounted_def promised_def unanswered_def)
  qed
  with AddCommand_queued [OF assms(1) q cmd(1-3)] show ?thesis by (auto simp: same(1) elim!: succeeds_mono)
qed

lemma ScheduleTransaction_ok:
  assumes "geom_wf c" and "mapping_ok c" and "ctl_wf bo c t" and "accounted t"
  shows "succeeds (ScheduleTransaction bo c t) (\<lambda>t'. ctl_wf bo c t' \<and> accounted t' \<and> unanswered t' = unanswered t \<and> ctl_clk t' = ctl_clk t)"
proof -
  let ?t = "start_write_drain bo t"
  have cnt: "counted c (cq_structure (cmd_queue t)) t ?t" using assms(3) by (intro start_write_drain_ok) (simp add: ctl_wf_def)
  have wf: "ctl_wf bo c ?t" "accounted ?t" "unanswered ?t = unanswered t" "ctl_clk ?t = ctl_clk t"
    using cnt assms(3,4) same_dataD [of t ?t] by (simp_all add: counted_def ctl_wf_def rest_same_def)
  have q: "queue_wf c (cmd_queue ?t)" "ROWPRESS bo \<longrightarrow> ctl_row_buf_policy ?t \<notin> {CLOSE_PAGE, SOFT_CLOSE_PAGE}"
    using wf(1) by (simp_all add: ctl_wf_def queue_ok_def)
  show ?thesis
    unfolding ScheduleTransaction_def Let_def
  proof (rule succeeds_bindI [OF sched_scan_ok [OF assms(1,2) q, of "[]"]], clarify)
    fix r qs assume r: "taken bo c (cmd_queue ?t) ([] @ trans_source ?t) (r, qs)"
    show "succeeds (case r of Sched_None \<Rightarrow> Inr ?t | Sched_Stop \<Rightarrow> Inr (?t\<lparr>write_draining := 0\<rparr>)
        | Sched_Take cmd \<Rightarrow>
           bind_res (AddCommand c cmd (cmd_queue (if \<not> is_unified_queue ?t \<and> IsWrite cmd
               then set_trans_source qs ?t\<lparr>write_draining := write_draining ?t - 1\<rparr> else set_trans_source qs ?t)))
             (\<lambda>(_, q). Inr ((if \<not> is_unified_queue ?t \<and> IsWrite cmd
               then set_trans_source qs ?t\<lparr>write_draining := write_draining ?t - 1\<rparr> else set_trans_source qs ?t)\<lparr>cmd_queue := q\<rparr>)))
       (\<lambda>t'. ctl_wf bo c t' \<and> accounted t' \<and> unanswered t' = unanswered t \<and> ctl_clk t' = ctl_clk t)"
    proof (cases r)
      case (Sched_Take cmd)
      then have "taken bo c (cmd_queue ?t) (trans_source ?t) (Sched_Take cmd, qs)" using r by simp
      note placed = schedule_taken [OF assms(1) wf(1,2) this, unfolded wf(3,4), where n = "write_draining ?t - 1"]
      show ?thesis
        unfolding Sched_Take sched_result.case by (rule placed) simp
    qed (use wf in simp_all)
  qed
qed

section \<open>A clock cycle\<close>

text \<open>The two situations outside the invariant: a refresh may not become due while queues are blocked for
  refresh management, and the activation statistics must fit their bins and rows.\<close>

definition tick_guard :: "Config \<Rightarrow> Controller \<Rightarrow> bool" where
  "tick_guard c t \<longleftrightarrow> chan_fits c (channel_state t) \<and>
     (is_in_rfm (cmd_queue t) \<longrightarrow> refresh_q (channel_state t) = [] \<and> \<not> refresh_due (refresh t))"

text \<open>The configurations the theorem is about.\<close>

definition ctl_config :: "Config \<Rightarrow> bool" where
  "ctl_config c \<longleftrightarrow> cfg_wf c \<and> geom_wf c \<and> mapping_ok c \<and> \<not> enable_self_refresh c \<and> \<not> enable_hbm_dual_cmd c"

lemma issue_chosen_ok:
  assumes "ctl_config c" and "chan_ok c (cq_structure (cmd_queue t)) (channel_state t)" and "queue_ok bo c (cmd_queue t)"
    and "refresh_ok c (cq_structure (cmd_queue t)) (refresh t)" and "cq_clk (cmd_queue t) = ctl_clk t"
    and "ROWPRESS bo \<longrightarrow> ctl_row_buf_policy t \<notin> {CLOSE_PAGE, SOFT_CLOSE_PAGE}" and "accounted t" and "chan_fits c (channel_state t)"
    and "chosen bo c (cmd_queue t, channel_state t) (cmd, (q', ch'))"
  shows "succeeds (issue_chosen bo c (new_Timing c) cmd (t\<lparr>cmd_queue := q', channel_state := ch'\<rparr>))
    (\<lambda>t'. ctl_wf bo c t' \<and> accounted t' \<and> unanswered t' = unanswered t \<and> ctl_clk t' = ctl_clk t)"
proof -
  let ?st = "cq_structure (cmd_queue t)" and ?t = "t\<lparr>cmd_queue := q', channel_state := ch'\<rparr>"
  have ch: "chan_frame c (ranks c) (channel_state t) ch'" "query_kept c ?st (channel_state t) ch'" "queue_ok bo c q'"
    "cq_structure q' = ?st" "cq_clk q' = ctl_clk t"
    "queued (cmd_queue t) = (if IsReadWrite cmd then {#cmd_access cmd#} else {#}) + queued q'"
    "is_in_ref q' \<longrightarrow> refresh_q (channel_state t) \<noteq> [] \<and> \<not> IsRefresh cmd"
    "IsValid cmd \<longrightarrow> (\<exists>req. cmd_type req \<noteq> SREF_ENTER \<and> chan_accepts c (channel_state t) req \<and>
       query_post c (ranks c) req (ctl_clk t) (channel_state t) (cmd, ch'))"
    using assms(9,5) by (auto simp: chosen_def)
  have w: "waiting ?t + (if IsReadWrite cmd then {#cmd_access cmd#} else {#}) = waiting t"
    using ch(6) by (simp add: waiting_def ac_simps)
  have fl: "in_flight cmd ?t" and un: "unanswered ?t = unanswered t"
    using w assms(7) by (simp_all add: in_flight_def accounted_def promised_def unanswered_def)
  have cfg: "cfg_wf c" "geom_wf c" "\<not> enable_hbm_dual_cmd c" using assms(1) by (simp_all add: ctl_config_def)
  show ?thesis
  proof (cases "IsValid cmd")
    case False
    have "chan_ok c ?st ch'" using ch(1,2) assms(2) by (simp add: chan_ok_def chan_frame_def query_kept_def)
    moreover have "accounted ?t" using fl IsReadWrite_invalid [OF False] by (simp add: in_flight_def accounted_def)
    ultimately show ?thesis using False ch assms(4-6) un by (simp add: issue_chosen_def ctl_wf_def query_kept_def)
  next
    case True
    then obtain req where req: "cmd_type req \<noteq> SREF_ENTER" "chan_accepts c (channel_state t) req"
      "query_post c (ranks c) req (ctl_clk ?t) (channel_state t) (cmd, channel_state ?t)" using ch(8) by auto
    have kept: "query_kept c ?st (channel_state t) (channel_state ?t)" using ch(2) by simp
    have "ctl_wf bo c t1 \<and> accounted t1 \<and> unanswered t1 = unanswered t \<and> ctl_clk t1 = ctl_clk t"
      if "rest_same ?t t1" "accounted t1" "unanswered t1 = unanswered ?t" "chan_ok c ?st (channel_state t1)"
        "\<not> IsRefresh cmd \<longrightarrow> refresh_q (channel_state t1) = refresh_q (channel_state t)" for t1
      using that ch(3-5,7) assms(4,6) un by (auto simp: ctl_wf_def rest_same_def)
    with IssueCommand_ok [OF cfg(1,2) assms(2) req kept True assms(8) fl, of bo] show ?thesis
      using True cfg(3) by (auto simp: issue_chosen_def issue_second_def elim!: succeeds_mono)
  qed
qed

lemma finish_cycle_ok:
  assumes "ctl_config c" and "ctl_wf bo c t" and "accounted t"
  shows "succeeds (finish_cycle bo c tm issued t) (\<lambda>t'. ctl_wf bo c t' \<and> accounted t' \<and>
    unanswered t' = unanswered t \<and> ctl_clk t' = ctl_clk t + 1)"
proof -
  let ?P = "\<lambda>t'. ctl_wf bo c t' \<and> accounted t' \<and> unanswered t' = unanswered t \<and> ctl_clk t' = ctl_clk t"
  have cfg: "geom_wf c" "mapping_ok c" "\<not> enable_self_refresh c" using assms(1) by (simp_all add: ctl_config_def)
  have "chan_ok c (cq_structure (cmd_queue t)) (channel_state t)" using assms(2) by (simp add: ctl_wf_def)
  then have count: "succeeds (fold_res (count_rank_cycle c) [0..ranks c - 1] t) ?P"
    by (rule succeeds_mono [OF count_cycle_ok]) (use assms in \<open>auto simp: counted_def rest_same_def ctl_wf_def same_dataD\<close>)
  have step: "ctl_wf bo c (on_stats (Increment n) (t1\<lparr>ctl_clk := ctl_clk t1 + 1, cmd_queue := CommandQueue_ClockTick (cmd_queue t1)\<rparr>)) \<and>
      accounted (on_stats (Increment n) (t1\<lparr>ctl_clk := ctl_clk t1 + 1, cmd_queue := CommandQueue_ClockTick (cmd_queue t1)\<rparr>)) \<and>
      unanswered (on_stats (Increment n) (t1\<lparr>ctl_clk := ctl_clk t1 + 1, cmd_queue := CommandQueue_ClockTick (cmd_queue t1)\<rparr>)) = unanswered t"
    if "?P t1" for t1 n
    using that
    by (simp add: ctl_wf_def CommandQueue_ClockTick_def queue_ok_def queue_wf_def owned_def GetQueueIndex_def chan_ok_def
        pending_ok_def accounted_def waiting_def promised_def unanswered_def)
  have "succeeds (bind_res (ScheduleTransaction bo c t1) (\<lambda>t. Inr (on_stats (Increment ''num_cycles'')
      (t\<lparr>ctl_clk := ctl_clk t + 1, cmd_queue := CommandQueue_ClockTick (cmd_queue t)\<rparr>))))
      (\<lambda>t'. ctl_wf bo c t' \<and> accounted t' \<and> unanswered t' = unanswered t \<and> ctl_clk t' = ctl_clk t + 1)" if "?P t1" for t1
    by (rule succeeds_bindI [OF ScheduleTransaction_ok [OF cfg(1,2), of bo t1]]) (use that step in auto)
  then show ?thesis
    unfolding finish_cycle_def by (intro succeeds_bindI [OF count]) (simp add: cfg(3) del: succeeds_bind)
qed

lemma Controller_ClockTick_ok:
  assumes "ctl_config c" and "ctl_wf bo c t" and "accounted t" and "tick_guard c t"
  shows "succeeds (Controller_ClockTick bo c (new_Timing c) t) (\<lambda>t'. ctl_wf bo c t' \<and> accounted t' \<and>
    unanswered t' = unanswered t \<and> ctl_clk t' = ctl_clk t + 1)"
proof -
  let ?q = "cmd_queue t" and ?ch = "channel_state t" and ?st = "cq_structure (cmd_queue t)"
  have cfg: "cfg_wf c" "geom_wf c" using assms(1) by (simp_all add: ctl_config_def)
  have wf: "chan_ok c ?st ?ch" "queue_ok bo c ?q" "refresh_ok c ?st (refresh t)" "cq_clk ?q = ctl_clk t"
    "is_in_ref ?q \<longrightarrow> refresh_q ?ch \<noteq> []" "ROWPRESS bo \<longrightarrow> ctl_row_buf_policy t \<notin> {CLOSE_PAGE, SOFT_CLOSE_PAGE}"
    using assms(2) by (auto simp: ctl_wf_def)
  show ?thesis
    unfolding Controller_ClockTick_def
  proof (rule succeeds_bindI [OF Refresh_ClockTick_ok [OF cfg(2) wf(3,1)]], clarify)
    fix r ch1 assume r: "refresh_ok c ?st r" and add: "refresh_added c ?st ?ch ch1" and idle: "\<not> refresh_due (refresh t) \<longrightarrow> ch1 = ?ch"
    let ?t1 = "t\<lparr>refresh := r, channel_state := ch1\<rparr>"
    obtain l where l: "ch1 = ?ch\<lparr>refresh_q := refresh_q ?ch @ l\<rparr>" "chan_ok c ?st ch1" using add by (auto simp: refresh_added_def)
    have fits: "chan_fits c ch1" using assms(4) by (simp add: tick_guard_def l(1) chan_fits_def)
    have t1: "accounted ?t1" "unanswered ?t1 = unanswered t"
      using assms(3) by (simp_all add: accounted_def waiting_def promised_def unanswered_def)
    have "is_in_rfm ?q \<longrightarrow> refresh_q ch1 = []" using idle assms(4) by (auto simp: tick_guard_def)
    then have chosen: "succeeds (next_command bo c ?t1) (\<lambda>(cmd, t'). \<exists>q' ch'. t' = ?t1\<lparr>cmd_queue := q', channel_state := ch'\<rparr> \<and>
        chosen bo c (?q, ch1) (cmd, (q', ch')))"
      using next_command_chosen [OF cfg(1,2), of ?t1 bo] l wf by auto
    show "succeeds (bind_res (next_command bo c ?t1) (\<lambda>(cmd, t).
        bind_res (issue_chosen bo c (new_Timing c) cmd t) (finish_cycle bo c (new_Timing c) (IsValid cmd))))
      (\<lambda>t'. ctl_wf bo c t' \<and> accounted t' \<and> unanswered t' = unanswered t \<and> ctl_clk t' = ctl_clk t + 1)"
    proof (rule succeeds_bindI [OF chosen], clarify)
      fix cmd q' ch' assume ch: "chosen bo c (?q, ch1) (cmd, (q', ch'))"
      have issue: "succeeds (issue_chosen bo c (new_Timing c) cmd (?t1\<lparr>cmd_queue := q', channel_state := ch'\<rparr>))
          (\<lambda>t'. ctl_wf bo c t' \<and> accounted t' \<and> unanswered t' = unanswered t \<and> ctl_clk t' = ctl_clk t)"
        using issue_chosen_ok [OF assms(1), of ?t1 bo cmd q' ch'] l(2) wf r fits t1 ch by simp
      show "succeeds (bind_res (issue_chosen bo c (new_Timing c) cmd (?t1\<lparr>cmd_queue := q', channel_state := ch'\<rparr>))
          (finish_cycle bo c (new_Timing c) (IsValid cmd)))
        (\<lambda>t'. ctl_wf bo c t' \<and> accounted t' \<and> unanswered t' = unanswered t \<and> ctl_clk t' = ctl_clk t + 1)"
        by (rule succeeds_bindI [OF issue]) (use finish_cycle_ok [OF assms(1)] in \<open>fastforce elim!: succeeds_mono\<close>)
    qed
  qed
qed

end
