(* ===== verification/Controller_Runs.thy ===== *)
theory Controller_Runs
  imports Controller_Correct
begin

text \<open>
  Runs of a controller from its construction: requests, answers and clock cycles in any order.  The
  interface of a request server gives the balance of requests and answers; the controller is its
  interpretation.  Two situations in which the code aborts are stated at the end.
\<close>

section \<open>Runs of a controller\<close>

text \<open>
  A server of requests as an interface: adding a request makes it pending, an answer removes the answered
  one, and a cycle in which the guard holds succeeds and keeps what is pending.  Every run then answers
  exactly its requests.
\<close>

inductive served ::
  "('s \<Rightarrow> bool) \<Rightarrow> (Transaction \<Rightarrow> 's \<Rightarrow> bool \<times> 's) \<Rightarrow> (u64 \<Rightarrow> 's \<Rightarrow> (u64 \<times> int) \<times> 's) \<Rightarrow> ('s \<Rightarrow> bool) \<Rightarrow> ('s \<Rightarrow> 's res) \<Rightarrow>
     access multiset \<Rightarrow> access multiset \<Rightarrow> 's \<Rightarrow> bool" for init add_op ret_op guard tick where
  start: "init s \<Longrightarrow> served init add_op ret_op guard tick {#} {#} s"
| request: "served init add_op ret_op guard tick reqs ans s \<Longrightarrow> add_op tr s = (ok, s') \<Longrightarrow>
    served init add_op ret_op guard tick (add_mset (access_of tr) reqs) ans s'"
| answer: "served init add_op ret_op guard tick reqs ans s \<Longrightarrow> ret_op clk s = (r, s') \<Longrightarrow>
    served init add_op ret_op guard tick reqs (answer_of r + ans) s'"
| cycle: "served init add_op ret_op guard tick reqs ans s \<Longrightarrow> guard s \<Longrightarrow> tick s = Inr s' \<Longrightarrow>
    served init add_op ret_op guard tick reqs ans s'"

locale request_server =
  fixes init :: "'s \<Rightarrow> bool" and wf :: "'s \<Rightarrow> bool" and pending :: "'s \<Rightarrow> access multiset"
    and add_op :: "Transaction \<Rightarrow> 's \<Rightarrow> bool \<times> 's" and ret_op :: "u64 \<Rightarrow> 's \<Rightarrow> (u64 \<times> int) \<times> 's"
    and guard :: "'s \<Rightarrow> bool" and tick :: "'s \<Rightarrow> 's res"
  assumes init_law: "init s \<Longrightarrow> wf s \<and> pending s = {#}"
    and add_law: "wf s \<Longrightarrow> add_op tr s = (ok, s') \<Longrightarrow> wf s' \<and> pending s' = add_mset (access_of tr) (pending s)"
    and ret_law: "wf s \<Longrightarrow> ret_op clk s = (r, s') \<Longrightarrow> wf s' \<and> pending s = answer_of r + pending s'"
    and tick_law: "wf s \<Longrightarrow> guard s \<Longrightarrow> succeeds (tick s) (\<lambda>s'. wf s' \<and> pending s' = pending s)"
begin

lemma balance:
  assumes "served init add_op ret_op guard tick reqs ans s"
  shows "wf s \<and> reqs = ans + pending s"
  using assms
proof induction
  case (start s)
  then show ?case using init_law by simp
next
  case (request reqs ans s tr ok s')
  then show ?case using add_law by fastforce
next
  case (answer reqs ans s clk r s')
  then show ?case using ret_law [of s clk r s'] by (simp add: ac_simps)
next
  case (cycle reqs ans s s')
  then show ?case using tick_law [of s] by simp
qed

lemma never_stuck:
  "served init add_op ret_op guard tick reqs ans s \<Longrightarrow> guard s \<Longrightarrow> \<exists>s'. tick s = Inr s'"
  using balance tick_law [of s] by (auto simp: succeeds_iff)

end

lemma ctl_wf_stats:
  assumes "ctl_wf bo c t" and "rest_same t t'"
    and "channel_state t' = channel_state (on_stats (Increment n) t) \<or> channel_state t' = channel_state (on_stats (AddValue n v) t) \<or>
      channel_state t' = channel_state (on_stats (AddValue n v) (on_stats (Increment m) t)) \<or> channel_state t' = channel_state t"
  shows "ctl_wf bo c t'"
proof -
  have "chan_wf c (ranks c) (channel_state t)" using assms(1) by (simp add: ctl_wf_def chan_ok_def)
  then have "chan_wf c (ranks c) (channel_state t') \<and> side (channel_state t') = side (channel_state t) \<and>
      rank_is_sref (channel_state t') = rank_is_sref (channel_state t)"
    using assms(3) by auto
  then show ?thesis using assms(1,2) by (simp add: ctl_wf_def chan_ok_def pending_ok_def rest_same_def)
qed

lemma ctl_wf_AddTransaction:
  assumes "ctl_wf bo c t" and "Controller_AddTransaction tr t = (ok, t')"
  shows "ctl_wf bo c t'"
proof (rule ctl_wf_stats [OF assms(1)])
  show "rest_same t t'" using assms(2) by (auto simp: Controller_AddTransaction_def Let_def rest_same_def split: if_splits)
  have "channel_state t' = channel_state (on_stats (AddValue ''interarrival_latency'' (u64_to_int (ctl_clk t - last_trans_clk t))) t)"
    using assms(2) by (auto simp: Controller_AddTransaction_def Let_def split: if_splits)
  then show "channel_state t' = channel_state (on_stats (Increment n) t) \<or>
      channel_state t' = channel_state (on_stats (AddValue ''interarrival_latency'' (u64_to_int (ctl_clk t - last_trans_clk t))) t) \<or>
      channel_state t' = channel_state (on_stats (AddValue ''interarrival_latency'' (u64_to_int (ctl_clk t - last_trans_clk t)))
        (on_stats (Increment m) t)) \<or> channel_state t' = channel_state t" for n m by blast
qed

lemma ctl_wf_ReturnDoneTrans:
  assumes "ctl_wf bo c t" and "ReturnDoneTrans clk t = (r, t')"
  shows "ctl_wf bo c t'"
proof -
  have frame: "rest_same t t'"
    using assms(2) by (auto simp: ReturnDoneTrans_def Let_def rest_same_def split: if_splits option.splits)
  consider "channel_state t' = channel_state t" | "channel_state t' = channel_state (on_stats (Increment ''num_writes_done'') t)"
    | v where "channel_state t' = channel_state (on_stats (AddValue ''read_latency'' v) (on_stats (Increment ''num_reads_done'') t))"
    using assms(2) by (auto simp: ReturnDoneTrans_def Let_def split: if_splits option.splits)
  then show ?thesis by cases (use ctl_wf_stats [OF assms(1) frame] in blast)+
qed

text \<open>A configuration the constructor turns into a well-formed controller.\<close>

definition ctl_setup :: "Build \<Rightarrow> Config \<Rightarrow> bool" where
  "ctl_setup bo c \<longleftrightarrow> ctl_config c \<and> queue_structure c \<in> {''PER_BANK'', ''PER_RANK''} \<and>
     refresh_policy c \<in> {RANK_LEVEL_SIMULTANEOUS, RANK_LEVEL_STAGGERED, BANKSET_LEVEL_STAGGERED, BANK_LEVEL_STAGGERED, NO_REFRESH} \<and>
     (refresh_policy c = BANKSET_LEVEL_STAGGERED \<longrightarrow> queue_structure c = ''PER_BANK'') \<and>
     succeeds (new_Refresh c) (\<lambda>r. to_u64 (refresh_interval r) \<noteq> 0) \<and>
     (ROWPRESS bo \<longrightarrow> row_buf_policy c \<notin> {CLOSE_PAGE, SOFT_CLOSE_PAGE})"

abbreviation pac_ok :: "Shared \<Rightarrow> bool" where
  "pac_ok sh \<equiv> pac_next_pre_cmd_is_valid sh \<longrightarrow> pac_next_pre_cmd sh \<in> {PRECHARGE, PRECHARGE2}"

lemma new_Controller_ok:
  assumes "ctl_setup bo c" and "pac_ok sh"
  shows "succeeds (new_Controller c m sh) (\<lambda>t. ctl_wf bo c t \<and> accounted t \<and> unanswered t = {#} \<and> tick_guard c t)"
proof -
  have cfg: "cfg_wf c" "geom_wf c" "queue_structure c \<in> {''PER_BANK'', ''PER_RANK''}"
    using assms(1) by (auto simp: ctl_setup_def ctl_config_def)
  have rk: "0 \<le> ranks c" using cfg(2) by (simp add: geom_wf_def)
  let ?sh = "sh\<lparr>simple_stats := new_SimpleStats (ranks c)\<rparr>"
  have sh: "shared_wf (ranks c) ?sh" using assms(2) new_SimpleStats_wf [OF rk] by (simp add: shared_wf_def)
  have idle: "on_success (new_ChannelState c m ?sh) (\<lambda>ch. int (length (rank_idle_cycles ch)) = ranks c)"
    using rk by (auto simp: new_ChannelState_def on_success_iff bind_res_eq_Inr)
  have chan: "succeeds (new_ChannelState c m ?sh) (\<lambda>ch. (\<forall>st. chan_ok c st ch) \<and> refresh_q ch = [] \<and> chan_fits c ch)"
    using succeeds_conj [OF new_ChannelState_fresh [OF cfg(1,2) sh, of m] idle]
    by (auto simp: chan_ok_def fresh_channel_def fresh_bank_def chan_fits_def pending_ok_def elim!: succeeds_mono)
  have queue: "succeeds (new_CommandQueue c) (\<lambda>q. queue_ok bo c q \<and> queued q = {#} \<and> cq_clk q = 0 \<and> \<not> is_in_ref q \<and> \<not> is_in_rfm q \<and>
      (queue_structure c = ''PER_BANK'' \<longrightarrow> cq_structure q = PER_BANK))"
    using new_CommandQueue_wf [OF cfg(2,3)] cfg(3) by (auto simp: new_CommandQueue_def queue_ok_def queued_def)
  have ref: "succeeds (new_Refresh c) (\<lambda>r. \<forall>st. (queue_structure c = ''PER_BANK'' \<longrightarrow> st = PER_BANK) \<longrightarrow> refresh_ok c st r)"
  proof -
    have a: "on_success (new_Refresh c) (\<lambda>r. rf_policy r = refresh_policy c \<and> next_rank r = 0 \<and> next_bg r = 0 \<and> next_bank r = 0)"
      by (auto simp: new_Refresh_def on_success_iff bind_res_eq_Inr)
    have b: "succeeds (new_Refresh c) (\<lambda>r. to_u64 (refresh_interval r) \<noteq> 0)" using assms(1) by (simp add: ctl_setup_def)
    have p: "in_channel c (0, 0, 0)" using cfg(2) by (simp add: in_channel_def geom_wf_def)
    show ?thesis
      by (rule succeeds_mono [OF succeeds_conj [OF b a]])
        (use assms(1) p in \<open>simp add: refresh_ok_def pointer_ok_def ctl_setup_def\<close>)
  qed
  have pol: "ROWPRESS bo \<longrightarrow> row_buf_policy c \<notin> {CLOSE_PAGE, SOFT_CLOSE_PAGE}" using assms(1) by (simp add: ctl_setup_def)
  show ?thesis
    unfolding new_Controller_def Let_def
    by (rule succeeds_bindI [OF chan], rule succeeds_bindI [OF queue], rule succeeds_bindI [OF ref])
      (use pol in \<open>simp add: ctl_wf_def accounted_def waiting_def promised_def unanswered_def tick_guard_def\<close>)
qed

definition ctl_start :: "Build \<Rightarrow> Config \<Rightarrow> Controller \<Rightarrow> bool" where
  "ctl_start bo c t \<longleftrightarrow> ctl_setup bo c \<and> (\<exists>m sh. pac_ok sh \<and> new_Controller c m sh = Inr t)"

definition ctl_inv :: "Build \<Rightarrow> Config \<Rightarrow> Controller \<Rightarrow> bool" where
  "ctl_inv bo c t \<longleftrightarrow> ctl_setup bo c \<and> ctl_wf bo c t \<and> accounted t"

interpretation ctl: request_server "ctl_start bo c" "ctl_inv bo c" unanswered Controller_AddTransaction ReturnDoneTrans
  "tick_guard c" "Controller_ClockTick bo c (new_Timing c)" for bo c
proof unfold_locales
  fix s assume "ctl_start bo c s"
  then obtain m sh where s: "ctl_setup bo c" "pac_ok sh" "new_Controller c m sh = Inr s" unfolding ctl_start_def by blast
  show "ctl_inv bo c s \<and> unanswered s = {#}"
    using new_Controller_ok [OF s(1,2), of m] s(1,3) by (simp add: ctl_inv_def)
next
  show "ctl_inv bo c s' \<and> unanswered s' = add_mset (access_of tr) (unanswered s)"
    if "ctl_inv bo c s" "Controller_AddTransaction tr s = (ok, s')" for s s' tr ok
    using that Controller_AddTransaction_accounts [of s tr] ctl_wf_AddTransaction [of bo c s tr ok s'] by (auto simp: ctl_inv_def)
  show "ctl_inv bo c s' \<and> unanswered s = answer_of r + unanswered s'"
    if "ctl_inv bo c s" "ReturnDoneTrans clk s = (r, s')" for s s' clk r
    using that ReturnDoneTrans_accounts [of s clk] ctl_wf_ReturnDoneTrans [of bo c s clk r s'] by (auto simp: ctl_inv_def)
  show "succeeds (Controller_ClockTick bo c (new_Timing c) s) (\<lambda>s'. ctl_inv bo c s' \<and> unanswered s' = unanswered s)"
    if "ctl_inv bo c s" "tick_guard c s" for s
    by (rule succeeds_mono [OF Controller_ClockTick_ok]) (use that in \<open>auto simp: ctl_inv_def ctl_setup_def\<close>)
qed

abbreviation ctl_run :: "Build \<Rightarrow> Config \<Rightarrow> access multiset \<Rightarrow> access multiset \<Rightarrow> Controller \<Rightarrow> bool" where
  "ctl_run bo c \<equiv> served (ctl_start bo c) Controller_AddTransaction ReturnDoneTrans (tick_guard c)
     (Controller_ClockTick bo c (new_Timing c))"


text \<open>C5. In every run of a controller from its construction a clock cycle completes without a fault (in
  particular neither call of \<open>exit(1)\<close> for a command without a pending transaction is reached, no index
  is out of range and no assertion fails), leaves the open accesses as they are and advances the clock;
  provided that no refresh becomes due while queues are blocked for refresh management, and that the
  activation statistics fit their bins.\<close>

theorem controller_cycle_completes:
  assumes "ctl_run bo c reqs ans t" and "tick_guard c t"
  shows "succeeds (Controller_ClockTick bo c (new_Timing c) t) (\<lambda>t'. unanswered t' = unanswered t \<and> ctl_clk t' = ctl_clk t + 1 \<and>
    waiting t' = promised t')"
proof -
  have "ctl_inv bo c t" using ctl.balance [OF assms(1)] by blast
  then have "ctl_config c" "ctl_wf bo c t" "accounted t" by (auto simp: ctl_inv_def ctl_setup_def)
  from Controller_ClockTick_ok [OF this assms(2)] show ?thesis by (rule succeeds_mono) (auto simp: accounted_def)
qed

section \<open>A run on the sample configuration\<close>

lemma sample_AddressMapping_total: "\<exists>A. AddressMapping sample_Config h = Inr A"
  by (simp add: AddressMapping_def sample_Config_sel addr_field_def shr_u64_def)

lemma sample_mapping_ok: "mapping_ok sample_Config"
  unfolding mapping_ok_def
proof
  fix h
  obtain A where A: "AddressMapping sample_Config h = Inr A" using sample_AddressMapping_total by blast
  have "\<not> mop_enabled sample_Config" by (simp add: sample_Config_sel)
  from AddressMapping_bounded [OF sample_SetAddressMapping this A]
  show "succeeds (AddressMapping sample_Config h) (\<lambda>a. in_channel sample_Config (rank a, bankgroup a, bank a) \<and> 0 \<le> row a \<and> row a < rows sample_Config)"
    by (simp add: A in_channel_def sample_Config_sel)
qed

lemma sample_setup: "ctl_setup plain_Build sample_Config"
  using sample_wf(1) sample_geom sample_mapping_ok
  by (simp add: ctl_setup_def ctl_config_def sample_Config_sel new_Refresh_def quot_int_def sdiv_nonneg)

lemma sample_start:
  obtains t where "ctl_start plain_Build sample_Config t" and "tick_guard sample_Config t"
proof -
  have "succeeds (new_Controller sample_Config 0 sample_Shared) (\<lambda>t. ctl_wf plain_Build sample_Config t \<and> accounted t \<and> unanswered t = {#} \<and>
      tick_guard sample_Config t)"
    by (rule new_Controller_ok [OF sample_setup]) (simp add: sample_Shared_def)
  then obtain t where "new_Controller sample_Config 0 sample_Shared = Inr t" "tick_guard sample_Config t" by (auto elim!: succeedsE)
  moreover from this(1) have "ctl_start plain_Build sample_Config t"
    unfolding ctl_start_def by (intro conjI sample_setup exI [of _ 0] exI [of _ sample_Shared]) (simp_all add: sample_Shared_def)
  ultimately show thesis by (intro that)
qed


theorem controller_cycle_completes_witness:
  "\<exists>t. ctl_run plain_Build sample_Config {#} {#} t \<and>
     succeeds (Controller_ClockTick plain_Build sample_Config (new_Timing sample_Config) t) (\<lambda>t'. ctl_clk t' = ctl_clk t + 1)"
proof -
  obtain t where t: "ctl_start plain_Build sample_Config t" "tick_guard sample_Config t" by (rule sample_start)
  then have run: "ctl_run plain_Build sample_Config {#} {#} t" by (intro served.start)
  from controller_cycle_completes [OF run t(2)] show ?thesis using run by (auto elim!: succeeds_mono)
qed

section \<open>Cycles that abort\<close>

text \<open>C36. A cycle in which a refresh becomes due while queues are blocked for refresh management ends in a
  failed assertion: the request for refresh management is not finished first.\<close>

theorem refresh_during_rfm_aborts:
  assumes "geom_wf c" and "refresh_ok c (cq_structure (cmd_queue t)) (refresh t)" and "chan_ok c (cq_structure (cmd_queue t)) (channel_state t)"
    and "is_in_rfm (cmd_queue t)" and "refresh_due (refresh t)" and "rf_policy (refresh t) = RANK_LEVEL_STAGGERED"
  shows "Controller_ClockTick bo c tm t = Inl AssertionFailed"
proof -
  let ?r = "refresh t" and ?ch = "channel_state t"
  have p: "0 \<le> next_rank ?r" "next_rank ?r < ranks c" using assms(2) by (auto simp: refresh_ok_def pointer_ok_def in_channel_def)
  have awake: "IsRankSelfRefreshing ?ch (next_rank ?r) = Inr False"
    using assms(3) p by (simp add: IsRankSelfRefreshing_def chan_ok_def vec_get_def)
  obtain r' where "IterateNext c ?r = Inr r'" using IterateNext_ok [OF assms(2)] assms(6) by (auto simp: succeeds_iff)
  then have "Refresh_ClockTick c (?r, ?ch) = Inr (r'\<lparr>rf_clk := rf_clk r' + 1\<rparr>, RankNeedRefresh (next_rank ?r) True ?ch)"
    using assms(2,5,6) by (simp add: Refresh_ClockTick_def rem_word_def refresh_ok_def InsertRefresh_def awake)
  moreover have "IsRefreshWaiting (RankNeedRefresh (next_rank ?r) True ?ch)" by (simp add: IsRefreshWaiting_def RankNeedRefresh_def)
  ultimately show ?thesis
    using assms(4) by (simp add: Controller_ClockTick_def next_command_def FinishRefresh_def)
qed


theorem refresh_during_rfm_aborts_witness:
  "\<exists>t. Controller_ClockTick plain_Build sample_Config (new_Timing sample_Config) t = Inl AssertionFailed"
proof -
  let ?r = "\<lparr>rf_clk = 3900, refresh_interval = 3900, rf_policy = RANK_LEVEL_STAGGERED, next_rank = 0, next_bg = 0, next_bank = 0\<rparr>"
  obtain t where t: "ctl_start plain_Build sample_Config t" by (rule sample_start)
  have "ctl_wf plain_Build sample_Config t" using ctl.init_law [OF t] by (simp add: ctl_inv_def)
  then have ch: "chan_ok sample_Config (cq_structure (cmd_queue t)) (channel_state t)" by (simp add: ctl_wf_def)
  have r: "refresh_ok sample_Config (cq_structure (cmd_queue t)) ?r"
    by (simp add: refresh_ok_def pointer_ok_def in_channel_def sample_Config_sel)
  show ?thesis
    using refresh_during_rfm_aborts [of sample_Config "t\<lparr>refresh := ?r, cmd_queue := (cmd_queue t)\<lparr>is_in_rfm := True\<rparr>\<rparr>"
        plain_Build "new_Timing sample_Config"] sample_geom ch r by auto
qed



end
