(* ===== verification/DRAM_Correct.thy ===== *)
theory DRAM_Correct
  imports DRAM_System Controller_Runs Memory_Backend
begin

text \<open>
  Correctness of the memory systems: routing agrees with the address mapping, a cycle returns exactly the
  completed transactions, and both the system of controllers and the ideal memory answer every request
  once.  The interface of a memory backend carries the balance of requests and answers; the two systems
  are its interpretations.
\<close>

section \<open>Routing\<close>

text \<open>The channel a transaction is routed to is the channel its address is decoded to.\<close>

lemma GetChannel_mapped:
  assumes "AddressMapping c h = Inr A"
  shows "GetChannel c h = Inr (channel A)"
proof -
  obtain x k where "shr_u64 h (shift_bits c) = Inr x" "addr_field x (ch_pos c) (ch_mask c) = Inr k" "channel A = k"
    using assms by (auto simp: AddressMapping_def bind_res_eq_Inr)
  then show ?thesis by (simp add: GetChannel_def)
qed

section \<open>Returning completed transactions\<close>

lemma erase_first_filter:
  "find p xs = Some x \<Longrightarrow> filter p xs = x # filter p (erase_first p xs) \<and> filter (\<lambda>y. \<not> p y) (erase_first p xs) = filter (\<lambda>y. \<not> p y) xs"
  by (induction xs) (auto split: if_splits)

abbreviation done_at :: "u64 \<Rightarrow> Transaction \<Rightarrow> bool" where
  "done_at clk r \<equiv> complete_cycle r \<le> clk"

lemma ReturnDoneTrans_cases:
  obtains (none_done) "filter (done_at clk) (return_queue t) = []" and "ReturnDoneTrans clk t = ((-1, -1), t)"
  | (one) r t' where "find (done_at clk) (return_queue t) = Some r"
      and "ReturnDoneTrans clk t = ((trans_addr r, of_bool (is_write r)), t')"
      and "return_queue t' = erase_first (done_at clk) (return_queue t)"
proof (cases "find (done_at clk) (return_queue t)")
  case None
  show ?thesis
  proof (rule none_done)
    show "filter (done_at clk) (return_queue t) = []" using None by (simp add: find_None_iff filter_empty_conv)
    show "ReturnDoneTrans clk t = ((-1, -1), t)" using None by (simp add: ReturnDoneTrans_def)
  qed
next
  case (Some r)
  then show ?thesis using one [of r] by (simp add: ReturnDoneTrans_def Let_def split: if_splits)
qed

text \<open>The loop that collects the answers of a controller in a cycle ends; it returns exactly the transactions
  completed by that cycle, each once and in the order they completed, and leaves the others in the queue.\<close>

lemma drain_done_result:
  "fst (drain_done clk t) = map access_of (filter (done_at clk) (return_queue t)) \<and>
   return_queue (snd (drain_done clk t)) = filter (\<lambda>r. \<not> done_at clk r) (return_queue t)"
proof (induction clk t rule: drain_done.induct)
  case (1 clk t)
  show ?case
  proof (cases clk t rule: ReturnDoneTrans_cases)
    case none_done
    then have "filter (\<lambda>r. \<not> done_at clk r) (return_queue t) = return_queue t" by (auto simp: filter_empty_conv filter_id_conv)
    then show ?thesis using none_done by (simp add: drain_done.simps)
  next
    case (one r t')
    then show ?thesis
      using 1 [OF one(2) [symmetric] refl] erase_first_filter [OF one(1)]
      by (cases "is_write r") (subst (1 2) drain_done.simps; simp add: access_of_def Let_def)+
  qed
qed

text \<open>What draining keeps of a controller.\<close>

lemma drain_done_keeps:
  "fst (drain_done clk t) = es \<Longrightarrow> snd (drain_done clk t) = t' \<Longrightarrow> ctl_wf bo c t \<Longrightarrow> accounted t \<Longrightarrow>
     ctl_wf bo c t' \<and> accounted t' \<and> unanswered t = mset es + unanswered t' \<and> rest_same t t' \<and>
     bk (channel_state t') = bk (channel_state t) \<and> refresh_q (channel_state t') = refresh_q (channel_state t)"
proof (induction clk t arbitrary: es rule: drain_done.induct)
  case (1 clk t)
  show ?case
  proof (cases clk t rule: ReturnDoneTrans_cases)
    case none_done
    then show ?thesis using "1.prems" by (simp add: drain_done.simps rest_same_def)
  next
    case (one r t1)
    let ?rest = "drain_done clk t1"
    have un: "accounted t1" "unanswered t = add_mset (access_of r) (unanswered t1)" "ctl_wf bo c t1"
      using ReturnDoneTrans_accounts [OF "1.prems"(4), of clk] ctl_wf_ReturnDoneTrans [OF "1.prems"(3) one(2)] one(2)
      by (auto simp: answer_of_def access_of_def)
    have same: "rest_same t t1 \<and> bk (channel_state t1) = bk (channel_state t) \<and> refresh_q (channel_state t1) = refresh_q (channel_state t)"
      using one(1,2) by (auto simp: ReturnDoneTrans_def Let_def rest_same_def split: if_splits)
    have res: "fst (drain_done clk t) = access_of r # fst ?rest" "snd (drain_done clk t) = snd ?rest"
      using one(2) by (cases "is_write r"; subst drain_done.simps; simp add: access_of_def Let_def)+
    have t': "snd ?rest = t'" and es: "es = access_of r # fst ?rest" using "1.prems"(1,2) res by simp_all
    have IH: "ctl_wf bo c t' \<and> accounted t' \<and> unanswered t1 = mset (fst ?rest) + unanswered t' \<and> rest_same t1 t' \<and>
        bk (channel_state t') = bk (channel_state t1) \<and> refresh_q (channel_state t') = refresh_q (channel_state t1)"
      using "1.IH" [OF one(2) [symmetric] refl] un t' by (cases "is_write r") auto
    show ?thesis using IH un(2) same es by (auto simp: rest_same_def)
  qed
qed

section \<open>The system of controllers\<close>

definition sys_setup :: "Build \<Rightarrow> Config \<Rightarrow> bool" where
  "sys_setup bo c \<longleftrightarrow> ctl_setup bo c \<and> \<not> IsHMC c \<and> to_u64 (epoch_period c) \<noteq> 0 \<and> 0 \<le> channels c \<and>
     (\<forall>h. succeeds (GetChannel c h) (\<lambda>k. 0 \<le> k \<and> k < channels c))"

definition sys_start :: "Build \<Rightarrow> Config \<Rightarrow> DRAMSystem \<Rightarrow> bool" where
  "sys_start bo c s \<longleftrightarrow> sys_setup bo c \<and> (\<exists>m sh. pac_ok sh \<and> new_JedecDRAMSystem c m sh = Inr s)"

definition ctl_good :: "Build \<Rightarrow> Config \<Rightarrow> Controller \<Rightarrow> bool" where
  "ctl_good bo c t \<longleftrightarrow> ctl_wf bo c t \<and> accounted t"

definition sys_inv :: "Build \<Rightarrow> Config \<Rightarrow> DRAMSystem \<Rightarrow> bool" where
  "sys_inv bo c s \<longleftrightarrow> sys_setup bo c \<and> int (length (ctrls s)) = channels c \<and> pac_ok (statics s) \<and> list_all (ctl_good bo c) (ctrls s)"

definition sys_guard :: "Config \<Rightarrow> DRAMSystem \<Rightarrow> bool" where
  "sys_guard c s \<longleftrightarrow> list_all (tick_guard c) (ctrls s)"

definition open_accesses :: "Controller list \<Rightarrow> access multiset" where
  "open_accesses ts = sum_list (map unanswered ts)"

lemma ctl_wf_pac: "ctl_wf bo c t \<Longrightarrow> pac_ok (statics_of t)"
  by (auto simp: ctl_wf_def chan_ok_def chan_wf_def shared_wf_def statics_of_def)

lemma with_statics_good:
  assumes "ctl_good bo c t" and "pac_ok sh"
  shows "ctl_good bo c (with_statics sh t)" and "unanswered (with_statics sh t) = unanswered t"
    and "tick_guard c (with_statics sh t) = tick_guard c t"
proof -
  have "chan_wf c nr ((channel_state t)\<lparr>shared := sh\<lparr>simple_stats := simple_stats (shared (channel_state t))\<rparr>\<rparr>)"
    if "chan_wf c nr (channel_state t)" for nr
    using that assms(2) by (intro chan_wf_shared) (auto simp: chan_wf_def shared_wf_def)
  then show "ctl_good bo c (with_statics sh t)"
    using assms(1) by (simp add: ctl_good_def ctl_wf_def chan_ok_def pending_ok_def with_statics_def Let_def accounted_def
        waiting_def promised_def)
  show "unanswered (with_statics sh t) = unanswered t" by (simp add: unanswered_def with_statics_def Let_def)
  show "tick_guard c (with_statics sh t) = tick_guard c t"
    by (simp add: tick_guard_def chan_fits_def with_statics_def Let_def bk_def)
qed

lemma tick_all_ok:
  assumes "ctl_config c" and "list_all (ctl_good bo c) ts" and "list_all (tick_guard c) ts" and "pac_ok sh"
  shows "succeeds (tick_all bo c (new_Timing c) ts sh) (\<lambda>(ts', sh'). length ts' = length ts \<and> list_all (ctl_good bo c) ts' \<and>
    pac_ok sh' \<and> open_accesses ts' = open_accesses ts)"
  using assms(2-4)
proof (induction ts arbitrary: sh)
  case Nil
  then show ?case by simp
next
  case (Cons t ts)
  note st = with_statics_good [of bo c t sh]
  have t: "ctl_wf bo c (with_statics sh t)" "accounted (with_statics sh t)" "tick_guard c (with_statics sh t)"
    using st Cons.prems by (simp_all add: ctl_good_def)
  have un: "unanswered (with_statics sh t) = unanswered t" using st(2) Cons.prems by simp
  show ?case
    unfolding tick_all.simps
  proof (rule succeeds_bindI [OF Controller_ClockTick_ok [OF assms(1) t]], elim conjE)
    fix t' assume t': "ctl_wf bo c t'" "accounted t'" "unanswered t' = unanswered (with_statics sh t)"
    have rest: "succeeds (tick_all bo c (new_Timing c) ts (statics_of t')) (\<lambda>(ts', sh'). length ts' = length ts \<and>
        list_all (ctl_good bo c) ts' \<and> pac_ok sh' \<and> open_accesses ts' = open_accesses ts)"
      using Cons.IH [of "statics_of t'"] Cons.prems ctl_wf_pac [OF t'(1)] by simp
    show "succeeds (bind_res (tick_all bo c (new_Timing c) ts (statics_of t')) (\<lambda>(ts', sh'). Inr (t' # ts', sh')))
      (\<lambda>(ts', sh'). length ts' = length (t # ts) \<and> list_all (ctl_good bo c) ts' \<and> pac_ok sh' \<and>
        open_accesses ts' = open_accesses (t # ts))"
      by (rule succeeds_bindI [OF rest]) (use t' un in \<open>auto simp: ctl_good_def open_accesses_def\<close>)
  qed
qed

lemma drain_all_ok:
  assumes "drain_all clk ts = (es, ts')" and "list_all (ctl_good bo c) ts" and "list_all (tick_guard c) ts"
  shows "length ts' = length ts \<and> list_all (ctl_good bo c) ts' \<and> list_all (tick_guard c) ts' \<and>
    open_accesses ts = mset es + open_accesses ts'"
  using assms
proof (induction ts arbitrary: es ts')
  case Nil
  then show ?case by (simp add: drain_all_def)
next
  case (Cons t ts)
  obtain es1 ts1 where rest: "drain_all clk ts = (es1, ts1)" by (cases "drain_all clk ts")
  let ?t = "snd (drain_done clk t)"
  have es: "es = fst (drain_done clk t) @ es1" "ts' = ?t # ts1"
    using Cons.prems(1) rest by (auto simp: drain_all_def Let_def)
  have t: "ctl_wf bo c ?t \<and> accounted ?t \<and> unanswered t = mset (fst (drain_done clk t)) + unanswered ?t \<and> rest_same t ?t \<and>
     bk (channel_state ?t) = bk (channel_state t) \<and> refresh_q (channel_state ?t) = refresh_q (channel_state t)"
    using drain_done_keeps [OF refl refl, of bo c t clk] Cons.prems(2) by (simp add: ctl_good_def)
  then have "tick_guard c ?t" using Cons.prems(3) by (simp add: tick_guard_def chan_fits_def rest_same_def)
  then show ?case
    using Cons.IH [OF rest] Cons.prems t by (simp add: es ctl_good_def open_accesses_def)
qed

lemma print_epoch_ok:
  assumes "ctl_good bo c t"
  shows "succeeds (Controller_PrintEpochStats t) (\<lambda>t'. ctl_good bo c t' \<and> unanswered t' = unanswered t)"
proof -
  let ?s = "Increment ''epoch_num'' (ctl_stats t)"
  have wf: "chan_wf c (ranks c) (channel_state t)" using assms by (simp add: ctl_good_def ctl_wf_def chan_ok_def)
  have s: "stats_wf (ranks c) ?s" "shape_ok ?s" using wf by (simp_all add: chan_wf_def shared_wf_def stats_wf_def)
  have "ctl_good bo c (on_stats (\<lambda>_. x) t) \<and> unanswered (on_stats (\<lambda>_. x) t) = unanswered t" if "stats_wf (ranks c) x" for x
  proof -
    have ch: "chan_wf c (ranks c) (channel_state (on_stats (\<lambda>_. x) t))" using wf that by (intro chan_wf_on_stats) auto
    have data: "same_data t (on_stats (\<lambda>_. x) t)" by (rule same_dataI) simp_all
    show ?thesis
      using assms ch same_dataD [OF data] by (simp add: ctl_good_def ctl_wf_def chan_ok_def pending_ok_def)
  qed
  with UpdateEpochStats_ok [OF s(2)] s(1) show ?thesis
    by (auto simp: Controller_PrintEpochStats_def SimpleStats_PrintEpochStats_def elim!: succeeds_mono)
qed

lemma print_epoch_all_ok:
  "list_all (ctl_good bo c) ts \<Longrightarrow>
     succeeds (print_epoch_all ts) (\<lambda>ts'. length ts' = length ts \<and> list_all (ctl_good bo c) ts' \<and> open_accesses ts' = open_accesses ts)"
proof (induction ts)
  case (Cons t ts)
  then have t: "ctl_good bo c t" "list_all (ctl_good bo c) ts" by simp_all
  show ?case
    unfolding print_epoch_all.simps
  proof (rule succeeds_bindI [OF print_epoch_ok [OF t(1)]], elim conjE)
    fix t' assume "ctl_good bo c t'" "unanswered t' = unanswered t"
    then show "succeeds (bind_res (print_epoch_all ts) (\<lambda>ts'. Inr (t' # ts')))
      (\<lambda>ts'. length ts' = length (t # ts) \<and> list_all (ctl_good bo c) ts' \<and> open_accesses ts' = open_accesses (t # ts))"
      by (intro succeeds_bindI [OF Cons.IH [OF t(2)]]) (auto simp: open_accesses_def)
  qed
qed simp
section \<open>The interface's laws for the two systems\<close>

lemma open_accesses_update:
  "i < length ts \<Longrightarrow> unanswered t = add_mset x (unanswered (ts ! i)) \<Longrightarrow> open_accesses (ts[i := t]) = add_mset x (open_accesses ts)"
proof (induction ts arbitrary: i)
  case (Cons t1 ts)
  then show ?case by (cases i) (auto simp: open_accesses_def)
qed simp

lemma new_controllers_ok:
  assumes "ctl_setup bo c" and "pac_ok sh" and "0 \<le> channels c"
  shows "succeeds (fold_res (\<lambda>_ (ts, sh). bind_res (new_Controller c m sh) (\<lambda>t. Inr (ts @ [t], statics_of t))) [0..channels c - 1] ([], sh))
    (\<lambda>(ts, sh). int (length ts) = channels c \<and> pac_ok sh \<and> list_all (ctl_good bo c) ts \<and> list_all (tick_guard c) ts \<and> open_accesses ts = {#})"
proof -
  define I where "I = (\<lambda>(n, ts, sh). length ts = n \<and> pac_ok sh \<and> list_all (ctl_good bo c) ts \<and> list_all (tick_guard c) ts \<and> open_accesses ts = {#})"
  define build where "build = (\<lambda>(_ :: int) (ts, sh). bind_res (new_Controller c m sh) (\<lambda>t. Inr (ts @ [t], statics_of t)))"
  have step: "succeeds (build x s) (\<lambda>s'. I (Suc n, s'))" if "I (n, s)" for x n s
  proof -
    obtain ts sh1 where s: "s = (ts, sh1)" by (cases s)
    have "succeeds (new_Controller c m sh1) (\<lambda>t. ctl_wf bo c t \<and> accounted t \<and> unanswered t = {#} \<and> tick_guard c t)"
      using that s by (intro new_Controller_ok [OF assms(1)]) (auto simp: I_def)
    then show ?thesis
      unfolding build_def s prod.case
      by (rule succeeds_bindI) (use that s ctl_wf_pac in \<open>auto simp: I_def ctl_good_def open_accesses_def\<close>)
  qed
  have all: "succeeds (fold_res build xs s) (\<lambda>s'. I (n + length xs, s'))" if "I (n, s)" for xs n s
    using that
  proof (induction xs arbitrary: n s)
    case (Cons x xs)
    show ?case unfolding fold_res.simps
      by (rule succeeds_bindI [OF step [OF Cons.prems]]) (use Cons.IH in \<open>fastforce elim!: succeeds_mono\<close>)
  qed simp
  have "I (0, [], sh)" using assms(2) by (simp add: I_def open_accesses_def)
  from all [OF this, of "[0..channels c - 1]"] show ?thesis
    unfolding build_def by (rule succeeds_mono) (use assms(3) in \<open>auto simp: I_def\<close>)
qed

lemma new_Jedec_ok:
  assumes "sys_setup bo c" and "pac_ok sh"
  shows "succeeds (new_JedecDRAMSystem c m sh) (\<lambda>s. sys_inv bo c s \<and> open_accesses (ctrls s) = {#} \<and> sys_guard c s \<and> sys_clk s = 0)"
proof -
  have c: "ctl_setup bo c" "0 \<le> channels c" "\<not> IsHMC c" using assms(1) by (auto simp: sys_setup_def)
  show ?thesis
    unfolding new_JedecDRAMSystem_def if_not_P [OF c(3)]
    by (rule succeeds_bindI [OF new_controllers_ok [OF c(1) assms(2) c(2)]]) (use assms(1) in \<open>auto simp: sys_inv_def sys_guard_def\<close>)
qed

lemma Jedec_AddTransaction_ok:
  assumes "sys_inv bo c s" and "Jedec_AddTransaction bo c a w s = Inr (ok, s')"
  shows "sys_inv bo c s' \<and> open_accesses (ctrls s') = add_mset (a, w) (open_accesses (ctrls s)) \<and> ok"
proof -
  obtain k where k: "0 \<le> k" "nat k < length (ctrls s)"
    and s': "s' = s\<lparr>ctrls := (ctrls s)[nat k := snd (Controller_AddTransaction (mk_Transaction a w) (ctrls s ! nat k))], last_req_clk := sys_clk s\<rparr>"
    and ok: ok
    using assms(2) by (auto simp: Jedec_AddTransaction_def Let_def bind_res_eq_Inr vec_get_Inr vec_set_Inr require_def split: if_splits)
  let ?t = "ctrls s ! nat k"
  obtain ok' t' where t': "Controller_AddTransaction (mk_Transaction a w) ?t = (ok', t')" by fastforce
  have good: "ctl_wf bo c ?t" "accounted ?t" using assms(1) k(2) by (auto simp: sys_inv_def list_all_length ctl_good_def)
  have un: "accounted t'" "unanswered t' = add_mset (a, w) (unanswered ?t)"
    using Controller_AddTransaction_accounts [OF good(2), of "mk_Transaction a w"] t' by (auto simp: access_of_def mk_Transaction_def)
  have "ctl_good bo c t'" using ctl_wf_AddTransaction [OF good(1) t'] un by (simp add: ctl_good_def)
  then show ?thesis
    using assms(1) k(2) un(2) ok by (auto simp: s' t' sys_inv_def list_all_length nth_list_update open_accesses_update)
qed

lemma Jedec_ClockTick_ok:
  assumes "sys_inv bo c s" and "sys_guard c s"
  shows "succeeds (Jedec_ClockTick bo c (new_Timing c) s) (\<lambda>(es, s'). sys_inv bo c s' \<and>
    open_accesses (ctrls s) = mset es + open_accesses (ctrls s') \<and> sys_clk s' = sys_clk s + 1)"
proof -
  obtain es ts where d: "drain_all (sys_clk s) (ctrls s) = (es, ts)" by fastforce
  have inv: "sys_setup bo c" "list_all (ctl_good bo c) (ctrls s)" "pac_ok (statics s)" "int (length (ctrls s)) = channels c"
    using assms(1) by (auto simp: sys_inv_def)
  have ts: "length ts = length (ctrls s)" "list_all (ctl_good bo c) ts" "list_all (tick_guard c) ts"
    "open_accesses (ctrls s) = mset es + open_accesses ts"
    using drain_all_ok [OF d inv(2)] assms(2) by (auto simp: sys_guard_def)
  have cfg: "ctl_config c" "to_u64 (epoch_period c) \<noteq> 0" using inv(1) by (auto simp: sys_setup_def ctl_setup_def)
  show ?thesis
    unfolding Jedec_ClockTick_def d Let_def prod.case
  proof (rule succeeds_bindI [OF tick_all_ok [OF cfg(1) ts(2,3) inv(3)]], clarify)
    fix ts1 sh1 assume t1: "length ts1 = length ts" "list_all (ctl_good bo c) ts1" "pac_ok sh1" "open_accesses ts1 = open_accesses ts"
    show "succeeds (bind_res (rem_word (sys_clk (s\<lparr>ctrls := ts1, statics := sh1, sys_clk := sys_clk s + 1\<rparr>)) (to_u64 (epoch_period c))) (\<lambda>m.
        bind_res (if m = 0 then Jedec_PrintEpochStats (s\<lparr>ctrls := ts1, statics := sh1, sys_clk := sys_clk s + 1\<rparr>)
          else Inr (s\<lparr>ctrls := ts1, statics := sh1, sys_clk := sys_clk s + 1\<rparr>)) (\<lambda>s. Inr (es, s))))
      (\<lambda>(es, s'). sys_inv bo c s' \<and> open_accesses (ctrls s) = mset es + open_accesses (ctrls s') \<and> sys_clk s' = sys_clk s + 1)"
      using cfg(2) inv ts t1 print_epoch_all_ok [OF t1(2)]
      by (auto simp: rem_word_def Jedec_PrintEpochStats_def sys_inv_def elim!: succeeds_mono)
  qed
qed

interpretation jedec: memory_backend "sys_start bo c" "sys_inv bo c" "\<lambda>s. open_accesses (ctrls s)" "Jedec_AddTransaction bo c"
  "sys_guard c" "Jedec_ClockTick bo c (new_Timing c)" for bo c
proof unfold_locales
  show "sys_inv bo c s \<and> open_accesses (ctrls s) = {#}" if start: "sys_start bo c s" for s
  proof -
    obtain m sh where "sys_setup bo c" "pac_ok sh" "new_JedecDRAMSystem c m sh = Inr s"
      using start unfolding sys_start_def by blast
    then show ?thesis using new_Jedec_ok [of bo c sh m] by simp
  qed
  show "sys_inv bo c s' \<and> open_accesses (ctrls s') = add_mset (a, w) (open_accesses (ctrls s))"
    if "sys_inv bo c s" "Jedec_AddTransaction bo c a w s = Inr (ok, s')" for s s' a w ok
    using Jedec_AddTransaction_ok [OF that] by simp
  show "succeeds (Jedec_ClockTick bo c (new_Timing c) s) (\<lambda>(es, s'). sys_inv bo c s' \<and>
      open_accesses (ctrls s) = mset es + open_accesses (ctrls s'))" if "sys_inv bo c s" "sys_guard c s" for s
    by (rule succeeds_mono [OF Jedec_ClockTick_ok [OF that]]) auto
qed
abbreviation sys_run :: "Build \<Rightarrow> Config \<Rightarrow> access multiset \<Rightarrow> access multiset \<Rightarrow> DRAMSystem \<Rightarrow> bool" where
  "sys_run bo c \<equiv> mem_run (sys_start bo c) (Jedec_AddTransaction bo c) (sys_guard c) (Jedec_ClockTick bo c (new_Timing c))"

text \<open>C6. In every run of the memory system from its construction, a clock cycle completes without a fault (under
  the guard of its controllers), the callbacks it makes are for accesses that were requested and not yet
  answered, and the accesses requested so far are those answered by a callback together with those open in
  one of the controllers: across the channels none is lost, answered twice or invented.\<close>

theorem system_answers_once:
  assumes "sys_run bo c reqs ans s" and "sys_guard c s"
  shows "reqs = ans + open_accesses (ctrls s) \<and>
    succeeds (Jedec_ClockTick bo c (new_Timing c) s) (\<lambda>(es, s'). mset es \<subseteq># open_accesses (ctrls s) \<and>
      open_accesses (ctrls s') = open_accesses (ctrls s) - mset es \<and> sys_clk s' = sys_clk s + 1)"
proof (rule conjI)
  have inv: "sys_inv bo c s" and "reqs = ans + open_accesses (ctrls s)" using jedec.balance [OF assms(1)] by auto
  then show "reqs = ans + open_accesses (ctrls s)" by simp
  show "succeeds (Jedec_ClockTick bo c (new_Timing c) s) (\<lambda>(es, s'). mset es \<subseteq># open_accesses (ctrls s) \<and>
      open_accesses (ctrls s') = open_accesses (ctrls s) - mset es \<and> sys_clk s' = sys_clk s + 1)"
    by (rule succeeds_mono [OF Jedec_ClockTick_ok [OF inv assms(2)]]) auto
qed

section \<open>The ideal memory\<close>

definition buffered :: "IdealDRAMSystem \<Rightarrow> access multiset" where
  "buffered s = image_mset access_of (mset (infinite_buffer_q s))"

lemma ideal_scan_balance:
  "image_mset access_of (mset q) = mset (fst (ideal_scan due q)) + image_mset access_of (mset (snd (ideal_scan due q)))"
  by (induction due q rule: ideal_scan.induct) (auto simp: access_of_def Let_def)

interpretation ideal: memory_backend "\<lambda>s. s = new_IdealDRAMSystem c" "\<lambda>_. True" buffered
  "\<lambda>a w s. Inr (Ideal_AddTransaction a w s)" "\<lambda>_. True" "\<lambda>s. Inr (Ideal_ClockTick s)" for c
  by unfold_locales (auto simp: new_IdealDRAMSystem_def buffered_def Ideal_AddTransaction_def Ideal_ClockTick_def access_of_def
      mk_Transaction_def Let_def ideal_scan_balance [symmetric])

abbreviation ideal_run :: "Config \<Rightarrow> access multiset \<Rightarrow> access multiset \<Rightarrow> IdealDRAMSystem \<Rightarrow> bool" where
  "ideal_run c \<equiv> mem_run (\<lambda>s. s = new_IdealDRAMSystem c) (\<lambda>a w s. Inr (Ideal_AddTransaction a w s)) (\<lambda>_. True)
     (\<lambda>s. Inr (Ideal_ClockTick s))"

text \<open>The ideal memory too answers each request once: in every run the requests made are the answers given
  together with the buffered requests.\<close>

lemma ideal_memory_answers_once:
  assumes "ideal_run c reqs ans s"
  shows "reqs = ans + buffered s"
  using ideal.balance [OF assms] by simp

lemma ideal_scan_all_due:
  "\<forall>x \<in> set q. due x \<Longrightarrow> length (fst (ideal_scan due q)) = (length q + 1) div 2"
  by (induction due q rule: ideal_scan.induct) (auto simp: Let_def)

text \<open>C40. The memory described as one of infinite bandwidth and fixed latency is not: in a cycle in which all
  \<open>n\<close> buffered requests have waited for the latency, only every second of them is answered, since the scan
  moves past the element that follows an erased one.\<close>

theorem ideal_memory_halves:
  assumes "\<forall>x \<in> set (infinite_buffer_q s). ideal_due s x"
  shows "length (fst (Ideal_ClockTick s)) = (length (infinite_buffer_q s) + 1) div 2"
  using ideal_scan_all_due [OF assms] by (simp add: Ideal_ClockTick_def Let_def)

theorem ideal_memory_halves_witness:
  "fst (Ideal_ClockTick \<lparr>ideal_clk = 10, latency = 10, infinite_buffer_q = [mk_Transaction 0 False, mk_Transaction 64 True]\<rparr>) = [(0, False)] \<and>
   length (fst (Ideal_ClockTick \<lparr>ideal_clk = 10, latency = 10, infinite_buffer_q = [mk_Transaction 0 False, mk_Transaction 64 True]\<rparr>)) = 1"
  using ideal_memory_halves [of "\<lparr>ideal_clk = 10, latency = 10, infinite_buffer_q = [mk_Transaction 0 False, mk_Transaction 64 True]\<rparr>"]
  by (simp add: ideal_due_def mk_Transaction_def Ideal_ClockTick_def)

lemma sample_sys_setup: "sys_setup plain_Build sample_Config"
proof -
  have "succeeds (GetChannel sample_Config h) (\<lambda>k. 0 \<le> k \<and> k < channels sample_Config)" for h
  proof -
    obtain A where A: "AddressMapping sample_Config h = Inr A" using sample_AddressMapping_total by blast
    have "\<not> mop_enabled sample_Config" by (simp add: sample_Config_sel)
    from AddressMapping_bounded [OF sample_SetAddressMapping this A] show ?thesis by (simp add: GetChannel_mapped [OF A] sample_Config_sel)
  qed
  then show ?thesis using sample_setup by (simp add: sys_setup_def IsHMC_def sample_Config_sel)
qed

lemma sample_sys_start: "\<exists>s. sys_start plain_Build sample_Config s \<and> sys_guard sample_Config s"
proof -
  have "succeeds (new_JedecDRAMSystem sample_Config 0 sample_Shared) (\<lambda>s. sys_inv plain_Build sample_Config s \<and>
      open_accesses (ctrls s) = {#} \<and> sys_guard sample_Config s \<and> sys_clk s = 0)"
    by (rule new_Jedec_ok [OF sample_sys_setup]) (simp add: sample_Shared_def)
  then obtain s where s: "new_JedecDRAMSystem sample_Config 0 sample_Shared = Inr s" "sys_guard sample_Config s" by (auto elim!: succeedsE)
  then have "sys_start plain_Build sample_Config s"
    unfolding sys_start_def by (intro conjI sample_sys_setup exI [of _ 0] exI [of _ sample_Shared]) (simp_all add: sample_Shared_def)
  then show ?thesis using s(2) by blast
qed

theorem system_answers_once_witness:
  "\<exists>s. sys_run plain_Build sample_Config {#} {#} s \<and> sys_guard sample_Config s \<and> open_accesses (ctrls s) = {#}"
proof -
  obtain s where s: "sys_start plain_Build sample_Config s" "sys_guard sample_Config s" using sample_sys_start by blast
  from s(1) have run: "sys_run plain_Build sample_Config {#} {#} s" by (rule mem_run.start)
  with s(2) system_answers_once [OF run s(2)] show ?thesis by auto
qed

end
