(* ===== verification/Simulator.thy ===== *)
theory Simulator
  imports Sim_Loop DRAM_Correct
begin

text \<open>
  The simulator on the DRAM system of \<open>DRAMsim3/src\<close>, which it reaches through \<open>memory_system.cc\<close>: the cores are a client of
  the memory backend, so the invariants of the loop hold for it.
\<close>

section \<open>The simulator on the DRAM system\<close>

text \<open>The operations of \<open>MemorySystem\<close> for a memory that is not an HMC.\<close>

definition jedec_ops :: "Build \<Rightarrow> Config \<Rightarrow> DRAMSystem mem_ops" where
  "jedec_ops bo c =
     \<lparr>will_accept = Jedec_WillAcceptTransaction bo c, add_trans = Jedec_AddTransaction bo c,
      clock_tick = Jedec_ClockTick bo c (new_Timing c)\<rparr>"

interpretation cores: core_memory "sys_start bo c" "sys_inv bo c" "\<lambda>s. open_accesses (ctrls s)" "Jedec_AddTransaction bo c"
  "sys_guard c" "Jedec_ClockTick bo c (new_Timing c)" "jedec_ops bo c" sys_clk for bo c
proof unfold_locales
  show "sys_clk s' = sys_clk s" if "Jedec_AddTransaction bo c a w s = Inr (ok, s')" for a w s ok s'
    using that by (auto simp: Jedec_AddTransaction_def Let_def bind_res_eq_Inr)
  show "sys_clk s' = sys_clk s + 1" if "Jedec_ClockTick bo c (new_Timing c) s = Inr (es, s')" for s es s'
    using that by (auto simp: Jedec_ClockTick_def Jedec_PrintEpochStats_def Let_def bind_res_eq_Inr split: prod.splits if_splits)
qed (simp_all add: jedec_ops_def)

lemma sys_start_clk: "sys_start bo c s \<Longrightarrow> sys_clk s = 0"
  by (auto simp: sys_start_def new_JedecDRAMSystem_def bind_res_eq_Inr split: if_splits)

abbreviation jedec_sim ::
  "Build \<Rightarrow> Config \<Rightarrow> 't gz_ops \<Rightarrow> 't \<Rightarrow> (u32 \<Rightarrow> nat \<Rightarrow> int) \<Rightarrow> bool \<Rightarrow> Params \<Rightarrow> nat \<Rightarrow> (DRAMSystem, 't) Sim \<Rightarrow> bool" where
  "jedec_sim bo c gz null sq do_wb P n st \<equiv> sim_run (sys_start bo c) (sys_guard c) (jedec_ops bo c) gz null sq do_wb P n st"

lemma jedec_sim_inv:
  assumes "jedec_sim bo c gz null sq do_wb P n st" and "sim_setup P"
  shows "sim_inv (sys_inv bo c) (\<lambda>s. open_accesses (ctrls s)) sys_clk P n st \<and> cycle st = word_of_nat n"
proof -
  have "(\<lambda>mm. sys_start bo c mm \<and> sys_clk mm = 0) = sys_start bo c" by (auto simp: fun_eq_iff sys_start_clk)
  then show ?thesis using cores.sim_run_inv [of bo c gz null sq do_wb P n st] assms by simp
qed


text \<open>C22. The clock of the memory runs at 2.4/4 of the clock of the cores: after \<open>n\<close> cycles of the simulator, \<open>sys_clk\<close> is \<open>n\<close> divided by
  the double nearest to 4/2.4, rounded up, and \<open>cycle\<close> is \<open>n\<close>.\<close>

theorem memory_clock_ratio:
  assumes "sim_setup P" and "jedec_sim bo c gz null sq do_wb P n st"
  shows "sys_clk (mainmem (memsys (nest st))) = word_of_nat ((n * 2 ^ 52 + 7505999378950826) div 7505999378950827) \<and> cycle st = word_of_nat n"
proof -
  obtain m where m: "sys_clk (mainmem (memsys (nest st))) = word_of_nat m" "0 \<le> int m * 7505999378950827 - int n * 2 ^ 52"
    "int m * 7505999378950827 - int n * 2 ^ 52 < 7505999378950827"
    using jedec_sim_inv [OF assms(2,1)] by (auto simp: sim_inv_def clock_ok_def CLOCK_SCALE_def leap_one_def)
  have lo: "n * 4503599627370496 \<le> m * 7505999378950827" using m(2) by simp
  have hi: "m * 7505999378950827 < n * 4503599627370496 + 7505999378950827" using m(3) by simp
  have "(n * 4503599627370496 + 7505999378950826) div 7505999378950827 = m"
  proof (rule div_nat_eqI)
    show "7505999378950827 * m \<le> n * 4503599627370496 + 7505999378950826" using hi by linarith
    show "n * 4503599627370496 + 7505999378950826 < 7505999378950827 * Suc m" using lo by simp
  qed
  then have "(n * 2 ^ 52 + 7505999378950826) div 7505999378950827 = m" by simp
  then show ?thesis using m(1) jedec_sim_inv [OF assms(2,1)] by simp
qed

section \<open>The sample run\<close>

abbreviation sample_sim :: "nat \<Rightarrow> (DRAMSystem, unit) Sim \<Rightarrow> bool" where
  "sample_sim \<equiv> jedec_sim plain_Build sample_Config sample_gz () (\<lambda>_ _. 1) True sample_Params"

lemma sample_cycle:
  "\<exists>st st1. sample_sim 0 st \<and> list_all (timely (mshr_of (nest st))) (mcore st) \<and>
     sim_cores (jedec_ops plain_Build sample_Config) sample_gz True sample_Params st = Inr (False, st1) \<and>
     sys_guard sample_Config (mainmem (memsys (nest st1)))"
proof -
  have same: "sample_Params\<lparr>LINESIZE := 64\<rparr> = sample_Params" by (simp add: sample_Params_def default_Params_def)
  obtain mm where mm: "sys_start plain_Build sample_Config mm" "sys_guard sample_Config mm" using sample_sys_start by blast
  obtain st st1 where st: "sim_new sample_gz () (\<lambda>_ _. 1) sample_Params mm = Inr st" "list_all (timely (mshr_of (nest st))) (mcore st)"
    "sim_cores (jedec_ops plain_Build sample_Config) sample_gz True sample_Params st = Inr (False, st1)" "mainmem (memsys (nest st1)) = mm"
    using sample_sim_new [of mm "jedec_ops plain_Build sample_Config" 64] unfolding same by (elim exE conjE) (rule that)
  have "sample_sim 0 st" by (rule sim_run.start) (fact mm(1) st(1))+
  then show ?thesis using st mm(2) by (intro exI [of _ st] exI [of _ st1]) simp
qed


theorem memory_clock_ratio_witness: "\<exists>st. sample_sim 1 st \<and> sys_clk (mainmem (memsys (nest st))) = 1 \<and> cycle st = 1"
proof -
  obtain st st1 where st: "sample_sim 0 st" "list_all (timely (mshr_of (nest st))) (mcore st)"
    "sim_cores (jedec_ops plain_Build sample_Config) sample_gz True sample_Params st = Inr (False, st1)"
    "sys_guard sample_Config (mainmem (memsys (nest st1)))" using sample_cycle by (elim exE conjE) (rule that)
  have "sim_inv (sys_inv plain_Build sample_Config) (\<lambda>s. open_accesses (ctrls s)) sys_clk sample_Params 0 st1"
    using cores.sim_cores_keeps [OF sample_sim_setup _ st(2), of plain_Build sample_Config sample_gz True]
      jedec_sim_inv [OF st(1) sample_sim_setup] st(3) by (simp add: on_success_iff sim_inv_def)
  then obtain st2 where "sim_memory (jedec_ops plain_Build sample_Config) sample_Params st1 = Inr st2"
    using cores.sim_memory_ok [OF sample_sim_setup _ st(4), of plain_Build 0] by (auto elim!: succeedsE)
  with st have "sample_sim (Suc 0) (st2\<lparr>cycle := cycle st2 + 1\<rparr>)" by (rule sim_run.step)
  then have run: "sample_sim 1 (st2\<lparr>cycle := cycle st2 + 1\<rparr>)" by simp
  from memory_clock_ratio [OF sample_sim_setup this] run show ?thesis by (intro exI [of _ "st2\<lparr>cycle := cycle st2 + 1\<rparr>"] conjI) simp_all
qed

end
