(* ===== verification/Native_DRAM.thy ===== *)
theory Native_DRAM
  imports Sim_Params MCache
begin

text \<open>
  The simulator's own DRAM model (\<open>src/drambank.h\<close>, \<open>drambank.cpp\<close>, \<open>dramchannel.h\<close>, \<open>dramchannel.cpp\<close>, \<open>dram.h\<close>,
  \<open>dram.cpp\<close>), which the build without \<open>DRAMSIM3\<close> uses.  The global \<open>cycle\<close> is an argument.  The code reaches a
  bank's channel through the global \<open>memsys\<close>; that is the channel whose loop runs the bank, so the operations
  take the channel.  A cycle returns the accesses it completes, in order: the code calls
  \<open>memsys_callback\<close> for the reads among them.  Printing is left out.
\<close>

section \<open>State\<close>

datatype DRAM_ReqType = DRAM_REQ_RD | DRAM_REQ_WB | DRAM_REQ_NRR | DRAM_REQ_REF | DRAM_REQ_RFM

datatype DRAM_BankStatusType = DRAM_BANK_BUSY | DRAM_BANK_READY

datatype DRAM_BankQEntryStatusType =
  DRAM_BANKQ_ENTRY_INVALID | DRAM_BANKQ_ENTRY_WAIT | DRAM_BANKQ_ENTRY_INSERVICE | DRAM_BANKQ_ENTRY_DONE

record DRAM_BankQ_Entry =
  q_status :: DRAM_BankQEntryStatusType
  reqtype :: DRAM_ReqType
  rowid :: u64
  lineaddr :: u64
  q_birth_time :: u64
  done_time :: u64
  service_delay :: u64
  wait_delay :: u64

record DRAM_Bank =
  bankid :: u32
  bank_channelid :: u32
  num_rows :: u32
  b_status :: DRAM_BankStatusType
  bankq :: "DRAM_BankQ_Entry list"
  row_valid :: bool
  open_row_id :: u64
  sleep_cycle :: u64
  rowbufopen_cycle :: u64
  rowbufclose_cycle :: u64
  RAA :: u32
  s_ACT :: u64
  s_REQ :: u64
  s_service_delay :: u64
  s_wait_delay :: u64

record DRAM_BusQ_Entry =
  bus_valid :: bool
  bus_reqtype :: DRAM_ReqType
  bus_lineaddr :: u64
  bus_ready_time :: u64

record DRAM_Channel =
  chan_id :: u32
  RFMAB :: bool
  RFMSB :: u32
  bank_list :: "DRAM_Bank list"
  dbusq :: "DRAM_BusQ_Entry list"
  dbusq_size :: u32
  tfaw_time :: u64
  tfaw_prev_time :: "u64 list"
  rdwr_time :: u64
  rdwr_prev_time :: u64
  num_banks :: u64
  chan_rows :: u64
  banks_in_bankgroup :: u64
  s_RFM :: u64
  s_bus_time :: u64

record DRAM =
  dram_channels :: "DRAM_Channel list"
  refmode :: u64
  memsize :: u64
  dram_banks :: u64
  rowbuf_size :: u64
  num_channels :: u64
  num_rowbufs :: u64
  lines_in_rowbuf :: u64
  rowbufs_in_mem :: u64
  rowbufs_in_bank :: u64
  lines_in_mem :: u64
  banks_in_channel :: u64
  refsb_ptr :: u64
  dram_banks_in_bankgroup :: u64
  last_trefi_cycle :: u64
  last_trefw_cycle :: u64
  num_trefi :: u64
  num_trefw :: u64

definition NUM_DRAM_BANK_ENTRIES :: nat where "NUM_DRAM_BANK_ENTRIES = 16"
definition NUM_DRAM_BUSQ_ENTRIES :: nat where "NUM_DRAM_BUSQ_ENTRIES = 128"
definition tFAW :: u64 where "tFAW = 12 * 4"

text \<open>The codes of the policies, as the parameters give them.\<close>

definition DRAM_SCHED_FCFS :: u64 where "DRAM_SCHED_FCFS = 0"
definition DRAM_SCHED_FRFCFS :: u64 where "DRAM_SCHED_FRFCFS = 1"
definition DRAM_REF_SB :: u64 where "DRAM_REF_SB = 1"
definition DRAM_REF_AB :: u64 where "DRAM_REF_AB = 2"
definition DRAM_RFM_SB :: u64 where "DRAM_RFM_SB = 1"
definition DRAM_RFM_AB :: u64 where "DRAM_RFM_AB = 2"
definition DRAM_MAP_COFFEELAKE :: u64 where "DRAM_MAP_COFFEELAKE = 0"
definition DRAM_MAP_SKYLAKE :: u64 where "DRAM_MAP_SKYLAKE = 1"
definition DRAM_MAP_MOP :: u64 where "DRAM_MAP_MOP = 2"
definition DRAM_MAP_ZEN :: u64 where "DRAM_MAP_ZEN = 3"

section \<open>Banks\<close>

text \<open>Under the closed-page policy each new bank overwrites the global \<open>DRAM_MAX_TOPEN\<close>.\<close>

definition closepage :: "Params \<Rightarrow> Params" where
  "closepage P = (if MEM_CLOSEPAGE P \<noteq> 0 then P\<lparr>DRAM_MAX_TOPEN := P_tRAS P\<rparr> else P)"

definition dram_bank_new :: "u32 \<Rightarrow> u32 \<Rightarrow> u32 \<Rightarrow> DRAM_Bank" where
  "dram_bank_new i ch rows =
     \<lparr>bankid = i, bank_channelid = ch, num_rows = rows, b_status = DRAM_BANK_READY, bankq = [], row_valid = False,
      open_row_id = 0, sleep_cycle = 0, rowbufopen_cycle = 0, rowbufclose_cycle = 0, RAA = 0, s_ACT = 0, s_REQ = 0,
      s_service_delay = 0, s_wait_delay = 0\<rparr>"

definition is_access :: "DRAM_ReqType \<Rightarrow> bool" where
  "is_access t \<longleftrightarrow> t = DRAM_REQ_RD \<or> t = DRAM_REQ_WB"

text \<open>The last three fields of a new entry are set before they are read.\<close>

definition dram_bank_insert :: "u64 \<Rightarrow> DRAM_ReqType \<Rightarrow> u64 \<Rightarrow> u64 \<Rightarrow> DRAM_Bank \<Rightarrow> (bool \<times> DRAM_Bank) res" where
  "dram_bank_insert cyc t row l b =
     bind_res (require AssertionFailed (row < ucast (num_rows b))) (\<lambda>_.
     if length (bankq b) = NUM_DRAM_BANK_ENTRIES then Inr (False, b)
     else
       let b = (if is_access t then b\<lparr>s_REQ := s_REQ b + 1\<rparr> else b) in
       Inr (True, b\<lparr>bankq := bankq b @ [\<lparr>q_status = DRAM_BANKQ_ENTRY_WAIT, reqtype = t, rowid = row, lineaddr = l,
         q_birth_time = cyc, done_time = 0, service_delay = 0, wait_delay = 0\<rparr>]\<rparr>))"

definition dram_bank_remove :: "nat \<Rightarrow> DRAM_Bank \<Rightarrow> DRAM_Bank res" where
  "dram_bank_remove index b =
     bind_res (require AssertionFailed (bankq b \<noteq> [])) (\<lambda>_.
     bind_res (vec_get (bankq b) (int index)) (\<lambda>e.
     bind_res (require AssertionFailed (q_status e = DRAM_BANKQ_ENTRY_DONE)) (\<lambda>_.
     Inr (b\<lparr>bankq := take index (bankq b) @ drop (Suc index) (bankq b)\<rparr>))))"

text \<open>The row buffer of an access: the delay until the row is open and whether it was activated.\<close>

definition open_row :: "Params \<Rightarrow> u64 \<Rightarrow> u64 \<Rightarrow> DRAM_Bank \<Rightarrow> u64 \<times> bool \<times> DRAM_Bank" where
  "open_row P cyc row b =
     (let (act_delay, b) =
        (if row_valid b \<and> rowbufclose_cycle b \<le> cyc then
           (let delta = cyc - rowbufclose_cycle b
            in (if delta < P_tPRE P then P_tPRE P - delta else 0, b\<lparr>row_valid := False\<rparr>))
         else (0, b))
      in if \<not> row_valid b then
           (let opened = cyc + act_delay
            in (act_delay + P_tACT P, True,
                b\<lparr>rowbufopen_cycle := opened, rowbufclose_cycle := opened + DRAM_MAX_TOPEN P, row_valid := True, open_row_id := row\<rparr>))
         else if open_row_id b \<noteq> row then
           (let delta = cyc - rowbufopen_cycle b;
                ras_delay = (if delta < P_tRAS P then P_tRAS P - delta else 0);
                opened = cyc + ras_delay + P_tPRE P
            in (ras_delay + P_tPRE P + P_tACT P, True,
                b\<lparr>rowbufopen_cycle := opened, rowbufclose_cycle := opened + DRAM_MAX_TOPEN P, row_valid := True, open_row_id := row\<rparr>))
         else (0, False, b))"

text \<open>A new activation: the counter, a request of refresh management, and a directed refresh with the probability of
  the parameter.  The code compares \<open>k / 2\<^sup>2\<^sup>0\<close> with \<open>1 / period\<close> in floating point; the quotient on the left is exact
  and further from the one on the right than the rounding error, so the comparison is the one of the integers.\<close>

definition request_rfm :: "Params \<Rightarrow> DRAM_Bank \<Rightarrow> DRAM_Channel \<Rightarrow> DRAM_Channel res" where
  "request_rfm P b ch =
     (if 0 < DRAM_RFM_POLICY P \<and> 3 * RFM_TH P \<le> ucast (RAA b) then
        let ch = (if DRAM_RFM_POLICY P = DRAM_RFM_AB then ch\<lparr>RFMAB := True\<rparr> else ch) in
        if DRAM_RFM_POLICY P = DRAM_RFM_SB then
          bind_res (div_word (bankid b) (ucast (banks_in_bankgroup ch))) (\<lambda>my_offset.
          bind_res (require UndefinedShift (my_offset < 32)) (\<lambda>_.
          Inr (ch\<lparr>RFMSB := or (RFMSB ch) (push_bit (unat my_offset) 1)\<rparr>)))
        else Inr ch
      else Inr ch)"

definition para_drfm :: "Params \<Rightarrow> DRAM_Bank \<Rightarrow> Rand \<Rightarrow> DRAM_Bank \<times> Rand" where
  "para_drfm P b r =
     (if MCPARA_DRFM_PERIOD P \<noteq> 0 then
        let (x, r) = rand r in
        if (x smod 2 ^ 20) * uint (MCPARA_DRFM_PERIOD P) < 2 ^ 20 then
          (b\<lparr>row_valid := False, sleep_cycle := sleep_cycle b + ucast (ucast (P_tPRE P + P_tDRFM P) :: u32)\<rparr>, r)
        else (b, r)
      else (b, r))"

definition dram_bank_service ::
  "Params \<Rightarrow> u64 \<Rightarrow> DRAM_ReqType \<Rightarrow> u64 \<Rightarrow> DRAM_Bank \<Rightarrow> DRAM_Channel \<Rightarrow> Rand \<Rightarrow> (u64 \<times> DRAM_Bank \<times> DRAM_Channel \<times> Rand) res" where
  "dram_bank_service P cyc t row b ch r =
     bind_res (require AssertionFailed (b_status b \<noteq> DRAM_BANK_BUSY)) (\<lambda>_.
     if is_access t then
       let (act_delay, new_act, b) = open_row P cyc row b;
           b = b\<lparr>b_status := DRAM_BANK_BUSY, sleep_cycle := cyc + act_delay + P_tRDRD P\<rparr>
       in if new_act then
            let b = b\<lparr>s_ACT := s_ACT b + 1, RAA := RAA b + 1\<rparr> in
            bind_res (request_rfm P b ch) (\<lambda>ch.
            let (b, r) = para_drfm P b r in Inr (act_delay, b, ch, r))
          else Inr (act_delay, b, ch, r)
     else Inr (0, b, ch, r))"

text \<open>The entry to serve: the oldest, or the oldest read that hits the open row.\<close>

definition row_hit :: "DRAM_Bank \<Rightarrow> DRAM_BankQ_Entry \<Rightarrow> bool" where
  "row_hit b e \<longleftrightarrow> reqtype e = DRAM_REQ_RD \<and> rowid e = open_row_id b"

definition dram_bank_schedule :: "Params \<Rightarrow> DRAM_Bank \<Rightarrow> nat res" where
  "dram_bank_schedule P b =
     bind_res (require AssertionFailed (bankq b \<noteq> [])) (\<lambda>_.
     if DRAM_SCHED_POLICY P = DRAM_SCHED_FCFS then Inr 0
     else if DRAM_SCHED_POLICY P = DRAM_SCHED_FRFCFS then
       if row_valid b then
         (case find_index (row_hit b) (bankq b) of Some ii \<Rightarrow> Inr ii | None \<Rightarrow> Inr 0)
       else Inr 0
     else Inl AssertionFailed)"

definition sub_sat :: "u32 \<Rightarrow> u64 \<Rightarrow> u32" where
  "sub_sat x n = (if n < ucast x then x - ucast n else 0)"

definition dram_bank_refresh :: "Params \<Rightarrow> u64 \<Rightarrow> DRAM_Bank \<Rightarrow> DRAM_Bank" where
  "dram_bank_refresh P in_cycle b =
     b\<lparr>b_status := DRAM_BANK_BUSY, sleep_cycle := in_cycle + P_tRFC P, row_valid := False, RAA := sub_sat (RAA b) (RFM_REFTH P)\<rparr>"

definition dram_bank_rfmab :: "Params \<Rightarrow> u64 \<Rightarrow> DRAM_Bank \<Rightarrow> DRAM_Bank" where
  "dram_bank_rfmab P in_cycle b =
     b\<lparr>b_status := DRAM_BANK_BUSY, sleep_cycle := in_cycle + P_tRFC P div 2, row_valid := False, RAA := sub_sat (RAA b) (RFM_TH P)\<rparr>"

definition dram_bank_rfmsb :: "Params \<Rightarrow> u64 \<Rightarrow> DRAM_Bank \<Rightarrow> DRAM_Bank" where
  "dram_bank_rfmsb P in_cycle b = dram_bank_rfmab P in_cycle b"

section \<open>Channels\<close>

definition dram_channel_insert_rdwrq :: "u32 \<Rightarrow> DRAM_ReqType \<Rightarrow> u64 \<Rightarrow> u64 \<Rightarrow> DRAM_Channel \<Rightarrow> DRAM_Channel res" where
  "dram_channel_insert_rdwrq i t l ready ch =
     bind_res (vec_get (dbusq ch) (uint i)) (\<lambda>e.
     bind_res (require AssertionFailed (\<not> bus_valid e)) (\<lambda>_.
     bind_res (vec_set (dbusq ch) (uint i) \<lparr>bus_valid = True, bus_reqtype = t, bus_lineaddr = l, bus_ready_time = ready\<rparr>) (\<lambda>es.
     Inr (ch\<lparr>dbusq := es, dbusq_size := dbusq_size ch + 1\<rparr>))))"

text \<open>The service of the chosen entry, which then waits for the bus.\<close>

definition bank_serve :: "Params \<Rightarrow> u64 \<Rightarrow> int \<Rightarrow> DRAM_Bank \<Rightarrow> DRAM_Channel \<times> Rand \<Rightarrow> (DRAM_Channel \<times> Rand) res" where
  "bank_serve P cyc i b = (\<lambda>(ch, r).
     bind_res (dram_bank_schedule P b) (\<lambda>index.
     bind_res (vec_get (bankq b) (int index)) (\<lambda>e.
     bind_res (require AssertionFailed (q_status e = DRAM_BANKQ_ENTRY_WAIT)) (\<lambda>_.
     bind_res (dram_bank_service P cyc (reqtype e) (rowid e) b ch r) (\<lambda>(bank_delay, b, ch, r).
     let e = e\<lparr>q_status := DRAM_BANKQ_ENTRY_DONE, done_time := cyc + bank_delay, service_delay := bank_delay,
               wait_delay := cyc - q_birth_time e\<rparr>;
         b = b\<lparr>bankq := (bankq b)[index := e]\<rparr>
     in bind_res
          (if is_access (reqtype e) then
             bind_res (dram_channel_insert_rdwrq (bankid b) (reqtype e) (lineaddr e) (done_time e) ch) (\<lambda>ch.
             Inr (b\<lparr>s_service_delay := s_service_delay b + bank_delay, s_wait_delay := s_wait_delay b + wait_delay e\<rparr>, ch))
           else Inr (b, ch)) (\<lambda>(b, ch).
        bind_res (dram_bank_remove index b) (\<lambda>b.
        bind_res (vec_set (bank_list ch) i b) (\<lambda>bs.
        Inr (ch\<lparr>bank_list := bs\<rparr>, r)))))))))"

definition dram_bank_cycle :: "Params \<Rightarrow> u64 \<Rightarrow> int \<Rightarrow> DRAM_Channel \<times> Rand \<Rightarrow> (DRAM_Channel \<times> Rand) res" where
  "dram_bank_cycle P cyc i = (\<lambda>(ch, r).
     bind_res (vec_get (bank_list ch) i) (\<lambda>b.
     if b_status b = DRAM_BANK_BUSY \<and> \<not> sleep_cycle b < cyc then Inr (ch, r)
     else
       let b = b\<lparr>b_status := DRAM_BANK_READY\<rparr> in
       bind_res (vec_set (bank_list ch) i b) (\<lambda>bs.
       let ch = ch\<lparr>bank_list := bs\<rparr> in
       if bankq b = [] then Inr (ch, r)
       else
         bind_res (vec_get (dbusq ch) (uint (bankid b))) (\<lambda>w.
         if bus_valid w then Inr (ch, r) else bank_serve P cyc i b (ch, r)))))"
definition dram_channel_get_rdwr_token :: "u64 \<Rightarrow> DRAM_Channel \<Rightarrow> bool \<times> DRAM_Channel" where
  "dram_channel_get_rdwr_token in_cycle ch =
     (if rdwr_time ch \<le> in_cycle - rdwr_prev_time ch then (True, ch\<lparr>rdwr_prev_time := in_cycle\<rparr>) else (False, ch))"

text \<open>Nothing calls the token of the activation window.\<close>

definition dram_channel_get_tfaw_token :: "u64 \<Rightarrow> DRAM_Channel \<Rightarrow> (bool \<times> DRAM_Channel) res" where
  "dram_channel_get_tfaw_token in_cycle ch =
     bind_res (vec_get (tfaw_prev_time ch) 0) (\<lambda>p.
     if tfaw_time ch \<le> in_cycle - p then Inr (True, ch\<lparr>tfaw_prev_time := tl (tfaw_prev_time ch) @ [in_cycle]\<rparr>)
     else Inr (False, ch))"

text \<open>The first transfer that is ready gets the bus if the token is there; then the scan ends.\<close>

definition bus_transfer :: "Params \<Rightarrow> u64 \<Rightarrow> int \<Rightarrow> DRAM_BusQ_Entry \<Rightarrow> DRAM_Channel \<Rightarrow> ((u64 \<times> bool) list \<times> DRAM_Channel) res" where
  "bus_transfer P cyc i e ch =
     bind_res (vec_set (dbusq ch) i (e\<lparr>bus_valid := False\<rparr>)) (\<lambda>es.
     bind_res (vec_upd (bank_list ch) i (\<lambda>b. b\<lparr>sleep_cycle := cyc + P_tRDRD P\<rparr>)) (\<lambda>bs.
     Inr ([(bus_lineaddr e, bus_reqtype e \<noteq> DRAM_REQ_RD)],
          ch\<lparr>dbusq := es, bank_list := bs, dbusq_size := dbusq_size ch - 1, s_bus_time := s_bus_time ch + (P_tCAS P + P_tRDRD P)\<rparr>)))"

fun rdwr_scan :: "Params \<Rightarrow> u64 \<Rightarrow> int list \<Rightarrow> DRAM_Channel \<Rightarrow> ((u64 \<times> bool) list \<times> DRAM_Channel) res" where
  "rdwr_scan P cyc [] ch = Inr ([], ch)"
| "rdwr_scan P cyc (i # is) ch =
     bind_res (vec_get (dbusq ch) i) (\<lambda>e.
     if bus_valid e \<and> bus_ready_time e \<le> cyc then
       let (token, ch) = dram_channel_get_rdwr_token cyc ch in
       if token then bus_transfer P cyc i e ch else Inr ([], ch)
     else rdwr_scan P cyc is ch)"

definition bus_order :: "u64 \<Rightarrow> u64 \<Rightarrow> int list" where
  "bus_order cyc n =
     (let offset = (ucast (cyc mod n) :: u32)
      in map (\<lambda>ii. uint (ucast (ucast (word_of_int ii + offset :: u32) mod n) :: u32)) [0..uint n - 1])"

definition dram_channel_schedule_rdwrq :: "Params \<Rightarrow> u64 \<Rightarrow> DRAM_Channel \<Rightarrow> ((u64 \<times> bool) list \<times> DRAM_Channel) res" where
  "dram_channel_schedule_rdwrq P cyc ch =
     bind_res (require DivisionByZero (num_banks ch \<noteq> 0)) (\<lambda>_. rdwr_scan P cyc (bus_order cyc (num_banks ch)) ch)"

text \<open>Refreshes and refresh management wait for all the banks they touch.\<close>

definition max_bank_ready :: "u64 \<Rightarrow> int list \<Rightarrow> DRAM_Bank list \<Rightarrow> u64 res" where
  "max_bank_ready cyc is bs =
     fold_res (\<lambda>i m. bind_res (vec_get bs i) (\<lambda>b. Inr (if m < sleep_cycle b then sleep_cycle b else m))) is cyc"

definition on_banks :: "u64 \<Rightarrow> int list \<Rightarrow> (u64 \<Rightarrow> DRAM_Bank \<Rightarrow> DRAM_Bank) \<Rightarrow> DRAM_Channel \<Rightarrow> DRAM_Channel res" where
  "on_banks cyc is f ch =
     bind_res (max_bank_ready cyc is (bank_list ch)) (\<lambda>m.
     bind_res (fold_res (\<lambda>i bs. vec_upd bs i (f m)) is (bank_list ch)) (\<lambda>bs.
     Inr (ch\<lparr>bank_list := bs\<rparr>)))"

definition dram_channel_rfmab :: "Params \<Rightarrow> u64 \<Rightarrow> DRAM_Channel \<Rightarrow> DRAM_Channel res" where
  "dram_channel_rfmab P cyc ch = on_banks cyc [0..uint (num_banks ch) - 1] (dram_bank_rfmab P) ch"

fun first_one :: "nat \<Rightarrow> nat \<Rightarrow> u32 \<Rightarrow> nat" where
  "first_one 0 ii val = 0"
| "first_one (Suc n) ii val = (if val mod 2 = 1 then ii else first_one n (Suc ii) (val div 2))"

definition group_banks :: "u64 \<Rightarrow> u64 \<Rightarrow> int list" where
  "group_banks g n =
     (let start = (ucast (g * n) :: u32); stop = (ucast (ucast start + n) :: u32) in [uint start..uint stop - 1])"

definition dram_channel_rfmsb :: "Params \<Rightarrow> u64 \<Rightarrow> DRAM_Channel \<Rightarrow> DRAM_Channel res" where
  "dram_channel_rfmsb P cyc ch =
     (let pos = first_one 32 0 (RFMSB ch); ch = ch\<lparr>RFMSB := RFMSB ch - push_bit pos 1\<rparr>
      in on_banks cyc (group_banks (word_of_nat pos) (banks_in_bankgroup ch)) (dram_bank_rfmsb P) ch)"

definition dram_channel_cycle :: "Params \<Rightarrow> u64 \<Rightarrow> DRAM_Channel \<times> Rand \<Rightarrow> ((u64 \<times> bool) list \<times> DRAM_Channel \<times> Rand) res" where
  "dram_channel_cycle P cyc = (\<lambda>(ch, r).
     bind_res (dram_channel_schedule_rdwrq P cyc ch) (\<lambda>(es, ch).
     bind_res (fold_res (dram_bank_cycle P cyc) [0..uint (num_banks ch) - 1] (ch, r)) (\<lambda>(ch, r).
     bind_res (if RFMAB ch then dram_channel_rfmab P cyc (ch\<lparr>RFMAB := False, s_RFM := s_RFM ch + 1\<rparr>) else Inr ch) (\<lambda>ch.
     bind_res (if RFMSB ch \<noteq> 0 then dram_channel_rfmsb P cyc (ch\<lparr>s_RFM := s_RFM ch + 1\<rparr>) else Inr ch) (\<lambda>ch.
     Inr (es, ch, r))))))"

definition dram_channel_insert :: "u64 \<Rightarrow> u32 \<Rightarrow> DRAM_ReqType \<Rightarrow> u64 \<Rightarrow> u64 \<Rightarrow> DRAM_Channel \<Rightarrow> (bool \<times> DRAM_Channel) res" where
  "dram_channel_insert cyc i t row l ch =
     bind_res (require AssertionFailed (ucast i < num_banks ch)) (\<lambda>_.
     bind_res (vec_get (bank_list ch) (uint i)) (\<lambda>b.
     bind_res (dram_bank_insert cyc t row l b) (\<lambda>(ok, b).
     bind_res (vec_set (bank_list ch) (uint i) b) (\<lambda>bs.
     Inr (ok, ch\<lparr>bank_list := bs\<rparr>)))))"

text \<open>The array \<open>bank\<close> has 32 elements.\<close>

definition dram_channel_new :: "Params \<Rightarrow> u32 \<Rightarrow> u32 \<Rightarrow> u32 \<Rightarrow> (DRAM_Channel \<times> Params) res" where
  "dram_channel_new P i nb rows =
     bind_res (div_word (ucast nb) (DRAM_BANKGROUPS P)) (\<lambda>bbg.
     bind_res (require OutOfBounds (nb \<le> 32)) (\<lambda>_.
     Inr (\<lparr>chan_id = i, RFMAB = False, RFMSB = 0,
           bank_list = map (\<lambda>ii. dram_bank_new (word_of_int ii) i (rows div nb)) [0..uint nb - 1],
           dbusq = replicate NUM_DRAM_BUSQ_ENTRIES \<lparr>bus_valid = False, bus_reqtype = DRAM_REQ_RD, bus_lineaddr = 0, bus_ready_time = 0\<rparr>,
           dbusq_size = 0, tfaw_time = tFAW, tfaw_prev_time = [0, 0, 0, 0], rdwr_time = P_tRDRD P, rdwr_prev_time = 0,
           num_banks = ucast nb, chan_rows = ucast rows, banks_in_bankgroup = bbg, s_RFM = 0, s_bus_time = 0\<rparr>,
          if nb = 0 then P else closepage P)))"

section \<open>The memory\<close>

text \<open>The array \<open>channel\<close> has 32 elements.  The parameters are returned: \<open>DRAM_MAX_TOPEN\<close> and \<open>tREFI\<close> are changed.\<close>

definition dram_new :: "Params \<Rightarrow> (DRAM \<times> Params) res" where
  "dram_new P =
     (let mem = MEM_SIZE_MB P * 1024 * 1024 in
      bind_res (div_word mem (MEM_PAGESIZE P)) (\<lambda>rowbufs.
      bind_res (div_word (MEM_PAGESIZE P) (LINESIZE P)) (\<lambda>lir.
      bind_res (div_word rowbufs (MEM_BANKS P)) (\<lambda>rib.
      bind_res (div_word (MEM_BANKS P) (MEM_CHANNELS P)) (\<lambda>bic.
      bind_res (fold_res (\<lambda>ii (chs, P).
          bind_res (require OutOfBounds (ii < 32)) (\<lambda>_.
          bind_res (dram_channel_new P (word_of_int ii) (ucast bic) (ucast (rowbufs div MEM_CHANNELS P))) (\<lambda>(ch, P). Inr (chs @ [ch], P))))
        [0..uint (MEM_CHANNELS P) - 1] ([], P)) (\<lambda>(chs, P).
      bind_res (div_word bic (DRAM_BANKGROUPS P)) (\<lambda>bbg.
      bind_res (if DRAM_REF_POLICY P = DRAM_REF_SB then bind_res (div_word (P_tREFI P) bbg) (\<lambda>t. Inr (P\<lparr>P_tREFI := t\<rparr>)) else Inr P) (\<lambda>P.
      Inr (\<lparr>dram_channels = chs, refmode = DRAM_REF_POLICY P, memsize = mem, dram_banks = MEM_BANKS P, rowbuf_size = MEM_PAGESIZE P,
            num_channels = MEM_CHANNELS P, num_rowbufs = rowbufs, lines_in_rowbuf = lir, rowbufs_in_mem = rowbufs, rowbufs_in_bank = rib,
            lines_in_mem = mem div LINESIZE P, banks_in_channel = bic, refsb_ptr = 0, dram_banks_in_bankgroup = bbg,
            last_trefi_cycle = 0, last_trefw_cycle = 0, num_trefi = 0, num_trefw = 0\<rparr>, P)))))))))"

text \<open>Row, bank and channel of a line.\<close>

definition dram_parseaddr :: "Params \<Rightarrow> DRAM \<Rightarrow> u64 \<Rightarrow> (u64 \<times> u64 \<times> u64) res" where
  "dram_parseaddr P d l =
     (if DRAM_MAP_POLICY P = DRAM_MAP_COFFEELAKE then
        bind_res (div_word l (lines_in_rowbuf d)) (\<lambda>global_row_id.
        bind_res (rem_word global_row_id (num_channels d)) (\<lambda>c.
        bind_res (rem_word (global_row_id div num_channels d) (banks_in_channel d)) (\<lambda>b.
        Inr (global_row_id div num_channels d div banks_in_channel d, b, c))))
      else if DRAM_MAP_POLICY P = DRAM_MAP_SKYLAKE then
        let linepair_id = l div 2 in
        bind_res (rem_word linepair_id (num_channels d)) (\<lambda>c.
        bind_res (div_word (linepair_id div num_channels d) (lines_in_rowbuf d div 2)) (\<lambda>shifted_addr2.
        bind_res (rem_word shifted_addr2 (banks_in_channel d)) (\<lambda>b.
        Inr (shifted_addr2 div banks_in_channel d, b, c))))
      else if DRAM_MAP_POLICY P = DRAM_MAP_MOP then
        bind_res (div_word l (DRAM_MOP_GANGSIZE P)) (\<lambda>gang_id.
        bind_res (rem_word gang_id (num_channels d)) (\<lambda>c.
        bind_res (rem_word (gang_id div num_channels d) (banks_in_channel d)) (\<lambda>b.
        bind_res (div_word (gang_id div num_channels d div banks_in_channel d) (lines_in_rowbuf d div DRAM_MOP_GANGSIZE P)) (\<lambda>row.
        Inr (row, b, c)))))
      else if DRAM_MAP_POLICY P = DRAM_MAP_ZEN then
        bind_res (rem_word l (num_channels d)) (\<lambda>c.
        let shifted_addr2 = l div num_channels d div 2 in
        bind_res (rem_word shifted_addr2 (banks_in_channel d)) (\<lambda>b.
        bind_res (div_word (shifted_addr2 div banks_in_channel d) (lines_in_rowbuf d div 2)) (\<lambda>row.
        Inr (row, b, c))))
      else Inl AssertionFailed)"

definition dram_insert :: "Params \<Rightarrow> u64 \<Rightarrow> u64 \<Rightarrow> bool \<Rightarrow> DRAM \<Rightarrow> (bool \<times> DRAM) res" where
  "dram_insert P cyc l wb d =
     bind_res (require AssertionFailed (l < lines_in_mem d)) (\<lambda>_.
     bind_res (dram_parseaddr P d l) (\<lambda>(row, b, c).
     bind_res (vec_get (dram_channels d) (uint c)) (\<lambda>ch.
     bind_res (dram_channel_insert cyc (ucast b) (if wb then DRAM_REQ_WB else DRAM_REQ_RD) row l ch) (\<lambda>(ok, ch).
     bind_res (vec_set (dram_channels d) (uint c) ch) (\<lambda>chs.
     Inr (ok, d\<lparr>dram_channels := chs\<rparr>))))))"

fun cycle_channels :: "Params \<Rightarrow> u64 \<Rightarrow> DRAM_Channel list \<Rightarrow> Rand \<Rightarrow> ((u64 \<times> bool) list \<times> DRAM_Channel list \<times> Rand) res" where
  "cycle_channels P cyc [] r = Inr ([], [], r)"
| "cycle_channels P cyc (ch # chs) r =
     bind_res (dram_channel_cycle P cyc (ch, r)) (\<lambda>(es, ch, r).
     bind_res (cycle_channels P cyc chs r) (\<lambda>(es', chs, r). Inr (es @ es', ch # chs, r)))"

fun refresh_channels :: "Params \<Rightarrow> u64 \<Rightarrow> int list \<Rightarrow> DRAM_Channel list \<Rightarrow> DRAM_Channel list res" where
  "refresh_channels P cyc is [] = Inr []"
| "refresh_channels P cyc is (ch # chs) =
     bind_res (on_banks cyc is (dram_bank_refresh P) ch) (\<lambda>ch. bind_res (refresh_channels P cyc is chs) (\<lambda>chs. Inr (ch # chs)))"

definition dram_refresh :: "Params \<Rightarrow> u64 \<Rightarrow> DRAM \<Rightarrow> DRAM res" where
  "dram_refresh P cyc d =
     bind_res
       (if refmode d = DRAM_REF_SB then
          bind_res (refresh_channels P cyc (group_banks (refsb_ptr d) (dram_banks_in_bankgroup d)) (dram_channels d)) (\<lambda>chs.
          bind_res (rem_word (refsb_ptr d + 1) (dram_banks_in_bankgroup d)) (\<lambda>p.
          Inr (d\<lparr>dram_channels := chs, refsb_ptr := p\<rparr>)))
        else Inr d) (\<lambda>d.
     if refmode d = DRAM_REF_AB then
       bind_res (div_word (dram_banks d) (num_channels d)) (\<lambda>n.
       bind_res (refresh_channels P cyc [0..uint n - 1] (dram_channels d)) (\<lambda>chs.
       Inr (d\<lparr>dram_channels := chs\<rparr>)))
     else Inr d)"

definition dram_cycle :: "Params \<Rightarrow> u64 \<Rightarrow> DRAM \<times> Rand \<Rightarrow> ((u64 \<times> bool) list \<times> DRAM \<times> Rand) res" where
  "dram_cycle P cyc = (\<lambda>(d, r).
     bind_res (cycle_channels P cyc (dram_channels d) r) (\<lambda>(es, chs, r).
     let d = d\<lparr>dram_channels := chs\<rparr>;
         d = (if P_tREFW P < cyc - last_trefw_cycle d then d\<lparr>last_trefw_cycle := cyc, num_trefw := num_trefw d + 1\<rparr> else d)
     in bind_res
          (if P_tREFI P < cyc - last_trefi_cycle d then
             dram_refresh P cyc (d\<lparr>last_trefi_cycle := cyc, num_trefi := num_trefi d + 1\<rparr>)
           else Inr d) (\<lambda>d.
        Inr (es, d, r))))"

end
