(* ===== verification/Native_Correct.thy ===== *)
theory Native_Correct
  imports Native_DRAM Memory_Backend
begin

text \<open>
  Correctness of the simulator's own DRAM model.  An access that a bank accepts waits in the queue of the bank and
  then in the slot of the bank in the bus queue; a cycle never faults and completes each access once.  The row
  buffer of a bank, the spacing of activations and of bus transfers, the addresses, and two flaws of the
  refreshes follow.
\<close>

section \<open>Invariant\<close>

definition entry_ok :: "DRAM_BankQ_Entry \<Rightarrow> bool" where
  "entry_ok e \<longleftrightarrow> q_status e = DRAM_BANKQ_ENTRY_WAIT \<and> is_access (reqtype e)"

definition bank_ok :: "nat \<Rightarrow> DRAM_Bank \<Rightarrow> bool" where
  "bank_ok i b \<longleftrightarrow> bankid b = word_of_nat i \<and> list_all entry_ok (bankq b)"

abbreviation nbanks :: "DRAM_Channel \<Rightarrow> nat" where "nbanks ch \<equiv> unat (num_banks ch)"
abbreviation group_size :: "DRAM_Channel \<Rightarrow> nat" where "group_size ch \<equiv> unat (banks_in_bankgroup ch)"

text \<open>A set bit of \<open>RFMSB\<close> names a group of existing banks.\<close>

definition rfm_ok :: "Params \<Rightarrow> DRAM_Channel \<Rightarrow> bool" where
  "rfm_ok P ch \<longleftrightarrow> (DRAM_RFM_POLICY P = DRAM_RFM_SB \<longrightarrow> 0 < group_size ch \<and> group_size ch dvd nbanks ch) \<and>
     (\<forall>k < 32. bit (RFMSB ch) k \<longrightarrow> (k + 1) * group_size ch \<le> nbanks ch)"

definition chan_wf :: "Params \<Rightarrow> DRAM_Channel \<Rightarrow> bool" where
  "chan_wf P ch \<longleftrightarrow> 0 < nbanks ch \<and> nbanks ch \<le> 32 \<and> length (bank_list ch) = nbanks ch \<and> length (dbusq ch) = NUM_DRAM_BUSQ_ENTRIES \<and>
     (\<forall>i < nbanks ch. bank_ok i (bank_list ch ! i)) \<and>
     (\<forall>i < NUM_DRAM_BUSQ_ENTRIES. bus_valid (dbusq ch ! i) \<longrightarrow> i < nbanks ch \<and> is_access (bus_reqtype (dbusq ch ! i))) \<and> rfm_ok P ch"

definition sched_ok :: "Params \<Rightarrow> bool" where
  "sched_ok P \<longleftrightarrow> DRAM_SCHED_POLICY P = DRAM_SCHED_FCFS \<or> DRAM_SCHED_POLICY P = DRAM_SCHED_FRFCFS"

text \<open>The accesses that wait.\<close>

definition bank_pending :: "DRAM_Bank \<Rightarrow> (u64 \<times> bool) multiset" where
  "bank_pending b = mset (map (\<lambda>e. (lineaddr e, reqtype e \<noteq> DRAM_REQ_RD)) (bankq b))"

definition bus_pending :: "DRAM_BusQ_Entry \<Rightarrow> (u64 \<times> bool) multiset" where
  "bus_pending e = (if bus_valid e then {#(bus_lineaddr e, bus_reqtype e \<noteq> DRAM_REQ_RD)#} else {#})"

definition chan_pending :: "DRAM_Channel \<Rightarrow> (u64 \<times> bool) multiset" where
  "chan_pending ch = sum_list (map bank_pending (bank_list ch)) + sum_list (map bus_pending (dbusq ch))"

section \<open>Serving a bank\<close>

lemma schedule_ok:
  assumes "sched_ok P" and "bankq b \<noteq> []"
  shows "succeeds (dram_bank_schedule P b) (\<lambda>k. k < length (bankq b))"
  using assms by (auto simp: dram_bank_schedule_def sched_ok_def dest!: find_index_Some split: option.splits)

text \<open>What the service of a bank leaves alone.\<close>

definition chan_kept :: "DRAM_Channel \<Rightarrow> DRAM_Channel \<Rightarrow> bool" where
  "chan_kept ch ch' \<longleftrightarrow> bank_list ch' = bank_list ch \<and> dbusq ch' = dbusq ch \<and> num_banks ch' = num_banks ch \<and>
     banks_in_bankgroup ch' = banks_in_bankgroup ch \<and> rdwr_time ch' = rdwr_time ch \<and> rdwr_prev_time ch' = rdwr_prev_time ch"

definition bank_kept :: "DRAM_Bank \<Rightarrow> DRAM_Bank \<Rightarrow> bool" where
  "bank_kept b b' \<longleftrightarrow> bankid b' = bankid b \<and> bankq b' = bankq b \<and> num_rows b' = num_rows b"

lemma open_row_kept: "bank_kept b (snd (snd (open_row P cyc row b)))"
  by (auto simp: open_row_def bank_kept_def Let_def)

lemma para_kept: "bank_kept b (fst (para_drfm P b r))"
  by (auto simp: para_drfm_def bank_kept_def Let_def split: prod.splits)

lemma request_rfm_ok:
  assumes "rfm_ok P ch" and "bankid b = word_of_nat i" and "i < nbanks ch" and "nbanks ch \<le> 32"
  shows "succeeds (request_rfm P b ch) (\<lambda>ch'. chan_kept ch ch' \<and> rfm_ok P ch')"
proof (cases "0 < DRAM_RFM_POLICY P \<and> 3 * RFM_TH P \<le> ucast (RAA b) \<and> DRAM_RFM_POLICY P = DRAM_RFM_SB")
  case False
  then show ?thesis using assms(1) by (auto simp: request_rfm_def Let_def chan_kept_def rfm_ok_def)
next
  case True
  let ?g = "ucast (banks_in_bankgroup ch) :: u32"
  have size: "0 < group_size ch" "group_size ch dvd nbanks ch" using assms(1) True by (auto simp: rfm_ok_def)
  then have le: "group_size ch \<le> 32" using assms(3,4) dvd_imp_le [OF size(2)] by simp
  then have g: "unat ?g = group_size ch" by (simp add: unsigned_ucast_eq take_bit_nat_eq_self)
  then have nz: "?g \<noteq> 0" using size(1) by auto
  let ?o = "bankid b div ?g"
  have o: "unat ?o = i div group_size ch"
    using assms(2-4) g by (simp add: unat_div unsigned_of_nat take_bit_nat_eq_self)
  have "i div group_size ch < nbanks ch div group_size ch"
    using size assms(3) by (auto elim!: dvdE simp: less_mult_imp_div_less mult.commute)
  then have top: "(i div group_size ch + 1) * group_size ch \<le> nbanks ch"
    using size(2) by (metis Suc_eq_plus1 Suc_leI dvd_div_mult_self mult_le_mono1)
  have small: "i div group_size ch < 32" using assms(3,4) by (meson div_le_dividend le_less_trans less_le_trans)
  then have sh: "?o < 32" using o by (simp add: word_less_nat_alt)
  let ?ch = "ch\<lparr>RFMSB := or (RFMSB ch) (push_bit (unat ?o) 1)\<rparr>"
  have "rfm_ok P ?ch"
    using assms(1) top o by (auto simp: rfm_ok_def bit_simps)
  moreover have "request_rfm P b ch = Inr ?ch"
    using True nz sh by (simp add: request_rfm_def div_word_def Let_def DRAM_RFM_SB_def DRAM_RFM_AB_def)
  ultimately show ?thesis by (simp add: chan_kept_def)
qed

lemma service_ok:
  assumes "rfm_ok P ch" and "bankid b = word_of_nat i" and "i < nbanks ch" and "nbanks ch \<le> 32" and "b_status b = DRAM_BANK_READY"
  shows "succeeds (dram_bank_service P cyc t row b ch r) (\<lambda>(delay, b', ch', r'). bank_kept b b' \<and> chan_kept ch ch' \<and> rfm_ok P ch')"
proof (cases "is_access t")
  case False
  then show ?thesis using assms(1,5) by (simp add: dram_bank_service_def bank_kept_def chan_kept_def)
next
  case True
  obtain delay act b1 where o: "open_row P cyc row b = (delay, act, b1)" by (cases "open_row P cyc row b") auto
  let ?b2 = "b1\<lparr>b_status := DRAM_BANK_BUSY, sleep_cycle := cyc + delay + P_tRDRD P\<rparr>"
  let ?b3 = "?b2\<lparr>s_ACT := s_ACT ?b2 + 1, RAA := RAA ?b2 + 1\<rparr>"
  have b1: "bank_kept b b1" using open_row_kept [of b P cyc row] o by simp
  then have "bankid ?b3 = word_of_nat i" using assms(2) by (simp add: bank_kept_def)
  then obtain ch1 where rq: "request_rfm P ?b3 ch = Inr ch1" "chan_kept ch ch1" "rfm_ok P ch1"
    using succeedsE [OF request_rfm_ok [OF assms(1) _ assms(3,4)]] by blast
  obtain b4 r4 where p: "para_drfm P ?b3 r = (b4, r4)" by fastforce
  have b4: "bank_kept b b4" using para_kept [of ?b3 P r] b1 p by (simp add: bank_kept_def)
  show ?thesis
  proof (cases act)
    case True
    then show ?thesis using \<open>is_access t\<close> assms(5) o rq p b4 by (simp add: dram_bank_service_def Let_def)
  next
    case False
    then show ?thesis using \<open>is_access t\<close> assms(1,5) o b1 by (simp add: dram_bank_service_def Let_def bank_kept_def chan_kept_def)
  qed
qed


text \<open>Taking an entry out of the queue.\<close>

lemma mset_take_out:
  "k < length xs \<Longrightarrow> mset xs = add_mset (xs ! k) (mset (take k xs @ drop (Suc k) xs))"
  by (subst id_take_nth_drop [of k xs]) simp_all

definition chan_step :: "Params \<Rightarrow> DRAM_Channel \<Rightarrow> DRAM_Channel \<Rightarrow> bool" where
  "chan_step P ch ch' \<longleftrightarrow> chan_wf P ch' \<and> num_banks ch' = num_banks ch \<and> banks_in_bankgroup ch' = banks_in_bankgroup ch \<and>
     chan_pending ch' = chan_pending ch"

lemma chan_step_refl: "chan_wf P ch \<Longrightarrow> chan_step P ch ch"
  by (simp add: chan_step_def)

lemma chan_step_trans: "chan_step P a b \<Longrightarrow> chan_step P b c \<Longrightarrow> chan_step P a c"
  by (simp add: chan_step_def)

text \<open>A bank is replaced by one with the same queue.\<close>

lemma chan_step_bank:
  assumes "chan_wf P ch" and "i < nbanks ch" and "bank_kept (bank_list ch ! i) b"
  shows "chan_step P ch (ch\<lparr>bank_list := (bank_list ch)[i := b]\<rparr>)"
proof -
  have len: "i < length (bank_list ch)" using assms(1,2) by (simp add: chan_wf_def)
  have ok: "\<forall>j < nbanks ch. bank_ok j (bank_list ch ! j)" using assms(1) by (simp add: chan_wf_def)
  have same: "bank_pending b = bank_pending (bank_list ch ! i)" "bank_ok i b"
    using assms(2,3) ok by (simp_all add: bank_kept_def bank_pending_def bank_ok_def)
  then have banks: "\<forall>j < nbanks ch. bank_ok j ((bank_list ch)[i := b] ! j)" using ok len by (metis nth_list_update)
  have "chan_pending (ch\<lparr>bank_list := (bank_list ch)[i := b]\<rparr>) = chan_pending ch"
    using sum_list_upd [OF len, of bank_pending b] same(1) by (simp add: chan_pending_def)
  moreover have "chan_wf P (ch\<lparr>bank_list := (bank_list ch)[i := b]\<rparr>)"
    using assms(1) banks by (simp add: chan_wf_def rfm_ok_def)
  ultimately show ?thesis by (simp add: chan_step_def)
qed

text \<open>An access moves from the queue of its bank to the bus.\<close>

lemma chan_step_serve:
  assumes "chan_wf P ch" and "i < nbanks ch" and "k < length (bankq (bank_list ch ! i))" and "\<not> bus_valid (dbusq ch ! i)"
    and "bankid b = word_of_nat i" and "bankq b = take k (bankq (bank_list ch ! i)) @ drop (Suc k) (bankq (bank_list ch ! i))"
    and "bus_valid w" and "bus_reqtype w = reqtype (bankq (bank_list ch ! i) ! k)" and "bus_lineaddr w = lineaddr (bankq (bank_list ch ! i) ! k)"
    and "bank_list ch' = (bank_list ch)[i := b]" and "dbusq ch' = (dbusq ch)[i := w]" and "num_banks ch' = num_banks ch"
    and "banks_in_bankgroup ch' = banks_in_bankgroup ch" and "rfm_ok P ch'"
  shows "chan_step P ch ch'"
proof -
  let ?b = "bank_list ch ! i"
  let ?e = "bankq ?b ! k"
  have len: "i < length (bank_list ch)" "i < length (dbusq ch)" "length (dbusq ch) = 128" using assms(1,2) by (auto simp: chan_wf_def NUM_DRAM_BUSQ_ENTRIES_def)
  have all: "list_all entry_ok (bankq ?b)" using assms(1,2) by (auto simp: chan_wf_def bank_ok_def)
  then have e: "is_access (reqtype ?e)" using assms(3) by (auto simp: list_all_length entry_ok_def)
  have q: "list_all entry_ok (bankq b)" using all assms(6) by (auto simp: list_all_iff dest: in_set_takeD in_set_dropD)
  have pb: "bank_pending ?b = add_mset (lineaddr ?e, reqtype ?e \<noteq> DRAM_REQ_RD) (bank_pending b)"
    using mset_take_out [OF assms(3)] assms(6) by (simp add: bank_pending_def)
  have pw: "bus_pending w = {#(lineaddr ?e, reqtype ?e \<noteq> DRAM_REQ_RD)#}" "bus_pending (dbusq ch ! i) = {#}"
    using assms(4,7-9) by (simp_all add: bus_pending_def)
  have "chan_pending ch' = chan_pending ch"
    using sum_list_upd [OF len(1), of bank_pending b] sum_list_upd [OF len(2), of bus_pending w] pb pw assms(10,11)
    by (simp add: chan_pending_def ac_simps)
  moreover have "bank_ok j (bank_list ch' ! j)" if "j < nbanks ch" for j
    using that assms(1,5,10) q len(1) by (cases "j = i") (auto simp: bank_ok_def chan_wf_def)
  moreover have "j < nbanks ch \<and> is_access (bus_reqtype (dbusq ch' ! j))" if "j < NUM_DRAM_BUSQ_ENTRIES" "bus_valid (dbusq ch' ! j)" for j
    using that assms(1,2,8,11) e len(2) by (cases "j = i") (auto simp: chan_wf_def)
  ultimately have "chan_wf P ch'" "chan_pending ch' = chan_pending ch"
    using assms(1,14) by (auto simp: chan_wf_def assms(10-13))
  then show ?thesis using assms(12,13) by (simp add: chan_step_def)
qed
lemma uint_bank: "i < 32 \<Longrightarrow> uint (word_of_nat i :: u32) = int i"
  by (simp add: uint_nat unsigned_of_nat take_bit_nat_eq_self)

lemma bank_serve_ok:
  assumes "chan_wf P ch" and "sched_ok P" and "i < nbanks ch" and "bank_list ch ! i = b" and "b_status b = DRAM_BANK_READY"
    and "bankq b \<noteq> []" and "\<not> bus_valid (dbusq ch ! i)"
  shows "succeeds (bank_serve P cyc (int i) b (ch, r)) (\<lambda>(ch', r'). chan_step P ch ch')"
proof -
  obtain k where k: "dram_bank_schedule P b = Inr k" "k < length (bankq b)" using succeedsE [OF schedule_ok [OF assms(2,6)]] by blast
  let ?e = "bankq b ! k"
  have wf: "nbanks ch \<le> 32" "rfm_ok P ch" "i < length (bank_list ch)" "i < length (dbusq ch)" "bankid b = word_of_nat i" "list_all entry_ok (bankq b)"
    using assms(1,3,4) by (auto simp: chan_wf_def bank_ok_def NUM_DRAM_BUSQ_ENTRIES_def)
  have e: "q_status ?e = DRAM_BANKQ_ENTRY_WAIT" "is_access (reqtype ?e)" using wf(6) k(2) by (auto simp: list_all_length entry_ok_def)
  obtain dl b1 ch1 r1 where s: "dram_bank_service P cyc (reqtype ?e) (rowid ?e) b ch r = Inr (dl, b1, ch1, r1)"
    "bank_kept b b1" "chan_kept ch ch1" "rfm_ok P ch1"
    using service_ok [OF wf(2,5) assms(3) wf(1) assms(5), of cyc "reqtype ?e" "rowid ?e" r] by (auto elim!: succeedsE)
  have u: "uint (bankid b1) = int i" using s(2) wf(1,5) assms(3) uint_bank [of i] by (simp add: bank_kept_def)
  let ?d = "?e\<lparr>q_status := DRAM_BANKQ_ENTRY_DONE, done_time := cyc + dl, service_delay := dl, wait_delay := cyc - q_birth_time ?e\<rparr>"
  let ?w = "\<lparr>bus_valid = True, bus_reqtype = reqtype ?e, bus_lineaddr = lineaddr ?e, bus_ready_time = cyc + dl\<rparr>"
  let ?b = "b1\<lparr>s_service_delay := s_service_delay b1 + dl, s_wait_delay := s_wait_delay b1 + (cyc - q_birth_time ?e),
    bankq := take k (bankq b) @ drop (Suc k) (bankq b)\<rparr>"
  let ?ch = "ch1\<lparr>dbusq := (dbusq ch)[i := ?w], dbusq_size := dbusq_size ch1 + 1, bank_list := (bank_list ch)[i := ?b]\<rparr>"
  have ins: "dram_channel_insert_rdwrq (bankid b1) (reqtype ?e) (lineaddr ?e) (cyc + dl) ch1 = Inr (ch1\<lparr>dbusq := (dbusq ch)[i := ?w], dbusq_size := dbusq_size ch1 + 1\<rparr>)"
    using s(3) u wf(4) assms(7) by (simp add: dram_channel_insert_rdwrq_def chan_kept_def vec_get_def vec_set_def)
  have "bank_serve P cyc (int i) b (ch, r) = Inr (?ch, r1)"
    using k e s(1-3) ins wf(3) assms(4,6)
    by (simp add: bank_serve_def vec_get_def vec_set_def Let_def bank_kept_def chan_kept_def dram_bank_remove_def)
  moreover have "chan_step P ch ?ch"
    by (rule chan_step_serve [OF assms(1,3), where k = k and b = ?b and w = ?w])
      (use k(2) assms(4,7) s(2-4) wf(5) in \<open>auto simp: bank_kept_def chan_kept_def rfm_ok_def\<close>)
  ultimately show ?thesis by simp
qed

lemma bank_cycle_ok:
  assumes "chan_wf P ch" and "sched_ok P" and "i < nbanks ch"
  shows "succeeds (dram_bank_cycle P cyc (int i) (ch, r)) (\<lambda>(ch', r'). chan_step P ch ch')"
proof -
  let ?b = "bank_list ch ! i"
  let ?r = "?b\<lparr>b_status := DRAM_BANK_READY\<rparr>"
  let ?ch = "ch\<lparr>bank_list := (bank_list ch)[i := ?r]\<rparr>"
  have wf: "i < length (bank_list ch)" "i < length (dbusq ch)" "bankid ?b = word_of_nat i" "nbanks ch \<le> 32"
    using assms(1,3) by (auto simp: chan_wf_def bank_ok_def NUM_DRAM_BUSQ_ENTRIES_def)
  have u: "uint (bankid ?r) = int i" using wf(3,4) assms(3) uint_bank [of i] by simp
  have st: "chan_step P ch ?ch" by (rule chan_step_bank [OF assms(1,3)]) (simp add: bank_kept_def)
  have pre: "chan_wf P ?ch" using st by (simp add: chan_step_def)
  have serve: "succeeds (bank_serve P cyc (int i) ?r (?ch, r)) (\<lambda>(ch', r'). chan_step P ch ch')"
    if "bankq ?b \<noteq> []" "\<not> bus_valid (dbusq ch ! i)"
    by (rule succeeds_mono [OF bank_serve_ok [OF pre assms(2), of i ?r cyc r]])
      (use that assms(3) wf st in \<open>auto intro: chan_step_trans\<close>)
  show ?thesis
    using serve st u wf chan_step_refl [OF assms(1)] by (auto simp: dram_bank_cycle_def vec_get_def vec_set_def Let_def)
qed

section \<open>The bus\<close>

definition bus_step :: "Params \<Rightarrow> u64 \<Rightarrow> DRAM_Channel \<Rightarrow> (u64 \<times> bool) list \<Rightarrow> DRAM_Channel \<Rightarrow> bool" where
  "bus_step P cyc ch es ch' \<longleftrightarrow> chan_wf P ch' \<and> num_banks ch' = num_banks ch \<and> banks_in_bankgroup ch' = banks_in_bankgroup ch \<and>
     chan_pending ch = mset es + chan_pending ch' \<and> rdwr_time ch' = rdwr_time ch \<and>
     (es = [] \<longrightarrow> rdwr_prev_time ch' = rdwr_prev_time ch) \<and>
     (es \<noteq> [] \<longrightarrow> length es = 1 \<and> rdwr_time ch \<le> cyc - rdwr_prev_time ch \<and> rdwr_prev_time ch' = cyc)"

lemma transfer_ok:
  assumes "chan_wf P ch" and "i < nbanks ch" and "bus_valid (dbusq ch ! i)"
  shows "succeeds (bus_transfer P cyc (int i) (dbusq ch ! i) ch) (\<lambda>(es, ch'). chan_wf P ch' \<and> num_banks ch' = num_banks ch \<and>
    banks_in_bankgroup ch' = banks_in_bankgroup ch \<and> chan_pending ch = mset es + chan_pending ch' \<and> rdwr_time ch' = rdwr_time ch \<and>
    length es = 1 \<and> rdwr_prev_time ch' = rdwr_prev_time ch)"
proof -
  let ?e = "dbusq ch ! i" and ?b = "(bank_list ch ! i)\<lparr>sleep_cycle := cyc + P_tRDRD P\<rparr>"
  let ?c = "ch\<lparr>dbusq := (dbusq ch)[i := ?e\<lparr>bus_valid := False\<rparr>]\<rparr>"
  have len: "i < length (bank_list ch)" "i < length (dbusq ch)" using assms(1,2) by (auto simp: chan_wf_def NUM_DRAM_BUSQ_ENTRIES_def)
  have "\<forall>j < NUM_DRAM_BUSQ_ENTRIES. bus_valid ((dbusq ch)[i := ?e\<lparr>bus_valid := False\<rparr>] ! j) \<longrightarrow>
      j < nbanks ch \<and> is_access (bus_reqtype ((dbusq ch)[i := ?e\<lparr>bus_valid := False\<rparr>] ! j))"
  proof (intro allI impI)
    fix j assume "j < NUM_DRAM_BUSQ_ENTRIES" "bus_valid ((dbusq ch)[i := ?e\<lparr>bus_valid := False\<rparr>] ! j)"
    then show "j < nbanks ch \<and> is_access (bus_reqtype ((dbusq ch)[i := ?e\<lparr>bus_valid := False\<rparr>] ! j))"
      using assms(1) len(2) by (cases "j = i") (auto simp: chan_wf_def)
  qed
  then have c: "chan_wf P ?c" using assms(1) by (simp add: chan_wf_def rfm_ok_def)
  have st: "chan_step P ?c (?c\<lparr>bank_list := (bank_list ?c)[i := ?b]\<rparr>)"
    by (rule chan_step_bank [OF c]) (use assms(2) in \<open>simp_all add: bank_kept_def\<close>)
  have "chan_pending ch = {#(bus_lineaddr ?e, bus_reqtype ?e \<noteq> DRAM_REQ_RD)#} + chan_pending ?c"
    using sum_list_upd [OF len(2), of bus_pending "?e\<lparr>bus_valid := False\<rparr>"] assms(3) by (simp add: chan_pending_def bus_pending_def)
  then show ?thesis
    using st len by (simp add: bus_transfer_def vec_set_def vec_upd_ok chan_step_def) (simp add: chan_wf_def rfm_ok_def chan_pending_def)
qed

lemma rdwr_scan_ok:
  assumes "chan_wf P ch" and "\<And>i. i \<in> set is \<Longrightarrow> 0 \<le> i \<and> nat i < nbanks ch"
  shows "succeeds (rdwr_scan P cyc is ch) (\<lambda>(es, ch'). bus_step P cyc ch es ch')"
  using assms(2)
proof (induction "is")
  case Nil
  then show ?case using assms(1) by (simp add: bus_step_def)
next
  case (Cons i "is")
  have i: "0 \<le> i" "nat i < nbanks ch" using Cons.prems [of i] by auto
  have len: "nat i < length (dbusq ch)" using assms(1) i(2) by (simp add: chan_wf_def NUM_DRAM_BUSQ_ENTRIES_def)
  let ?e = "dbusq ch ! nat i" and ?c = "ch\<lparr>rdwr_prev_time := cyc\<rparr>"
  have c: "chan_wf P ?c" "chan_pending ?c = chan_pending ch" using assms(1) by (simp_all add: chan_wf_def rfm_ok_def chan_pending_def)
  have tr: "succeeds (bus_transfer P cyc i ?e ?c) (\<lambda>(es, ch'). bus_step P cyc ch es ch')"
    if "bus_valid ?e" "rdwr_time ch \<le> cyc - rdwr_prev_time ch"
  proof -
    have "succeeds (bus_transfer P cyc (int (nat i)) (dbusq ?c ! nat i) ?c) (\<lambda>(es, ch'). bus_step P cyc ch es ch')"
      by (rule succeeds_mono [OF transfer_ok [OF c(1), of "nat i" cyc]]) (use that i(2) c(2) in \<open>auto simp: bus_step_def\<close>)
    then show ?thesis using i(1) by simp
  qed
  show ?case
    using tr Cons i len assms(1) by (auto simp: vec_get_def dram_channel_get_rdwr_token_def bus_step_def)
qed
lemma bus_order_range:
  assumes "0 < unat n" and "unat n \<le> 32" and "i \<in> set (bus_order cyc n)"
  shows "0 \<le> i \<and> nat i < unat n"
proof -
  obtain x :: u64 where i: "i = uint (ucast (x mod n) :: u32)" using assms(3) by (auto simp: bus_order_def Let_def)
  have "unat (x mod n) < unat n" using assms(1) by (simp add: unat_mod)
  moreover then have "unat (ucast (x mod n) :: u32) = unat (x mod n)" using assms(2) by (simp add: unsigned_ucast_eq take_bit_nat_eq_self)
  ultimately show ?thesis by (simp add: i flip: nat_uint_eq)
qed

lemma schedule_rdwrq_ok:
  assumes "chan_wf P ch"
  shows "succeeds (dram_channel_schedule_rdwrq P cyc ch) (\<lambda>(es, ch'). bus_step P cyc ch es ch')"
proof -
  have n: "0 < nbanks ch" "nbanks ch \<le> 32" using assms by (auto simp: chan_wf_def)
  then have "num_banks ch \<noteq> 0" by auto
  then show ?thesis
    unfolding dram_channel_schedule_rdwrq_def using rdwr_scan_ok [OF assms bus_order_range [OF n]] by simp
qed

section \<open>Refreshes\<close>

lemma on_banks_ok:
  assumes "chan_wf P ch" and "\<And>i. i \<in> set is \<Longrightarrow> 0 \<le> i \<and> nat i < nbanks ch" and "\<And>m b. bank_kept b (f m b)"
  shows "succeeds (on_banks cyc is f ch) (chan_step P ch)"
proof -
  have len: "length (bank_list ch) = nbanks ch" using assms(1) by (simp add: chan_wf_def)
  have rng: "0 \<le> i \<and> i < int (nbanks ch)" if "i \<in> set is" for i using assms(2) [OF that] by linarith
  have mx: "succeeds (max_bank_ready cyc is (bank_list ch)) (\<lambda>_. True)"
    unfolding max_bank_ready_def by (rule fold_res_succeeds) (use rng len in \<open>simp_all add: wp\<close>)
  have "succeeds (fold_res (\<lambda>i bs. vec_upd bs i (f m)) is (bank_list ch)) (\<lambda>bs. chan_step P ch (ch\<lparr>bank_list := bs\<rparr>))" for m
  proof (rule fold_res_succeeds)
    show "chan_step P ch (ch\<lparr>bank_list := bank_list ch\<rparr>)" using chan_step_refl [OF assms(1)] by simp
    fix i bs assume i: "i \<in> set is" and bs: "chan_step P ch (ch\<lparr>bank_list := bs\<rparr>)"
    have wf: "chan_wf P (ch\<lparr>bank_list := bs\<rparr>)" using bs by (simp add: chan_step_def)
    then have l: "length bs = nbanks ch" by (simp add: chan_wf_def)
    have "chan_step P (ch\<lparr>bank_list := bs\<rparr>) (ch\<lparr>bank_list := bs[nat i := f m (bs ! nat i)]\<rparr>)"
      using chan_step_bank [OF wf, of "nat i" "f m (bs ! nat i)"] assms(2) [OF i] assms(3) by simp
    then show "succeeds (vec_upd bs i (f m)) (\<lambda>bs. chan_step P ch (ch\<lparr>bank_list := bs\<rparr>))"
      using chan_step_trans [OF bs] rng [OF i] l by (simp add: wp)
  qed
  then show ?thesis
    unfolding on_banks_def by (intro succeeds_bindI [OF mx]) (auto intro: succeeds_bindI)
qed

lemma rfm_bank_kept: "bank_kept b (dram_bank_rfmab P m b)" "bank_kept b (dram_bank_rfmsb P m b)" "bank_kept b (dram_bank_refresh P m b)"
  by (simp_all add: bank_kept_def dram_bank_rfmab_def dram_bank_rfmsb_def dram_bank_refresh_def)

lemma all_banks_range: "i \<in> set [0..uint n - 1] \<Longrightarrow> 0 \<le> i \<and> nat i < unat n"
  by (auto simp flip: nat_uint_eq)

lemma first_one_bit:
  assumes "\<exists>j < n. bit val j"
  shows "ii \<le> first_one n ii val \<and> first_one n ii val < ii + n \<and> bit val (first_one n ii val - ii)"
  using assms
proof (induction n arbitrary: ii val)
  case (Suc n)
  have odd: "val mod 2 = 1 \<longleftrightarrow> bit val 0" by (simp add: bit_0 odd_iff_mod_2_eq_one)
  show ?case
  proof (cases "bit val 0")
    case True
    then show ?thesis using odd by simp
  next
    case False
    then obtain j where "j < n" "bit val (Suc j)" using Suc.prems by (metis less_Suc_eq_0_disj)
    then have "\<exists>j < n. bit (val div 2) j" by (auto simp: bit_Suc [symmetric])
    note ih = Suc.IH [OF this, of "Suc ii"]
    then have "Suc (first_one n (Suc ii) (val div 2) - Suc ii) = first_one n (Suc ii) (val div 2) - ii" by arith
    then show ?thesis using ih False odd by (auto simp: bit_Suc [symmetric])
  qed
qed simp

lemma group_banks_range:
  assumes "(unat g + 1) * unat n \<le> 32" and "i \<in> set (group_banks g n)"
  shows "0 \<le> i \<and> unat g * unat n \<le> nat i \<and> nat i < (unat g + 1) * unat n"
proof -
  have gn: "unat g * unat n \<le> 32" "unat g * unat n + unat n \<le> 32" using assms(1) by auto
  have "unat (g * n) = unat g * unat n" using gn unat_mult_lem [of g n] by simp
  then have s: "unat (ucast (g * n) :: u32) = unat g * unat n" using gn unat_ucast_small [of "g * n"] by simp
  then have "unat (ucast (ucast (g * n) :: u32) :: u64) = unat g * unat n" by (simp only: unat_widen)
  then have "unat (ucast (ucast (g * n) :: u32) + n) = unat g * unat n + unat n"
    using gn unat_add_lem [of "ucast (ucast (g * n) :: u32)" n] by simp
  then have t: "unat (ucast (ucast (ucast (g * n) :: u32) + n) :: u32) = unat g * unat n + unat n"
    using gn unat_ucast_small [of "ucast (ucast (g * n) :: u32) + n"] by simp
  have "uint (ucast (g * n) :: u32) \<le> i" "i < uint (ucast (ucast (ucast (g * n) :: u32) + n) :: u32)"
    using assms(2) by (auto simp: group_banks_def Let_def)
  then have "int (unat g * unat n) \<le> i" "i < int (unat g * unat n + unat n)" using s t by (metis uint_nat)+
  then show ?thesis by (simp only: distrib_right mult_1) linarith
qed
section \<open>A cycle of a channel\<close>

lemma chan_wf_more:
  assumes "chan_wf P ch"
  shows "chan_wf P (ch\<lparr>RFMAB := x, s_RFM := n\<rparr>)" and "chan_pending (ch\<lparr>RFMAB := x, s_RFM := n\<rparr>) = chan_pending ch"
    and "chan_wf P (ch\<lparr>s_RFM := n\<rparr>)" and "chan_pending (ch\<lparr>s_RFM := n\<rparr>) = chan_pending ch"
  using assms by (simp_all add: chan_wf_def rfm_ok_def chan_pending_def)

lemma rfmab_ok:
  assumes "chan_wf P ch"
  shows "succeeds (dram_channel_rfmab P cyc ch) (chan_step P ch)"
  unfolding dram_channel_rfmab_def by (rule on_banks_ok [OF assms all_banks_range]) (simp_all add: rfm_bank_kept)

lemma rfmsb_ok:
  assumes "chan_wf P ch" and "RFMSB ch \<noteq> 0"
  shows "succeeds (dram_channel_rfmsb P cyc ch) (chan_step P ch)"
proof -
  let ?p = "first_one 32 0 (RFMSB ch)"
  let ?ch = "ch\<lparr>RFMSB := RFMSB ch - push_bit ?p 1\<rparr>"
  have "\<exists>j < 32. bit (RFMSB ch) j" using assms(2) bit_eq_iff [of "RFMSB ch" 0] by (auto dest: bit_imp_le_length)
  from first_one_bit [OF this, of 0] have p: "?p < 32" "bit (RFMSB ch) ?p" by auto
  have wf: "rfm_ok P ch" "nbanks ch \<le> 32" using assms(1) by (auto simp: chan_wf_def)
  then have top: "(?p + 1) * group_size ch \<le> nbanks ch" using p by (auto simp: rfm_ok_def)
  have "and (not (RFMSB ch)) (push_bit ?p 1) = 0" by (rule bit_eqI) (use p(2) in \<open>auto simp: bit_simps\<close>)
  then have less: "bit (RFMSB ch - push_bit ?p 1) k \<Longrightarrow> bit (RFMSB ch) k" for k
    by (simp only: disjunctive_diff_eq_and_not bit_and_iff)
  then have "rfm_ok P ?ch" using wf(1) by (auto simp: rfm_ok_def)
  then have ch: "chan_wf P ?ch" "chan_step P ch ?ch" using assms(1) by (auto simp: chan_wf_def chan_step_def chan_pending_def)
  have u: "unat (word_of_nat ?p :: u64) = ?p" using p(1) by (simp add: unsigned_of_nat take_bit_nat_eq_self)
  have rng: "0 \<le> i \<and> nat i < nbanks ?ch" if "i \<in> set (group_banks (word_of_nat ?p) (banks_in_bankgroup ?ch))" for i
    using group_banks_range [of "word_of_nat ?p" "banks_in_bankgroup ch" i] that top wf(2) u by auto
  have "succeeds (on_banks cyc (group_banks (word_of_nat ?p) (banks_in_bankgroup ?ch)) (dram_bank_rfmsb P) ?ch) (chan_step P ?ch)"
    by (rule on_banks_ok [OF ch(1) rng]) (simp_all add: rfm_bank_kept)
  then show ?thesis
    unfolding dram_channel_rfmsb_def Let_def by (rule succeeds_mono) (rule chan_step_trans [OF ch(2)])
qed

lemma channel_cycle_ok:
  assumes "chan_wf P ch" and "sched_ok P"
  shows "succeeds (dram_channel_cycle P cyc (ch, r)) (\<lambda>(es, ch', r'). chan_wf P ch' \<and> num_banks ch' = num_banks ch \<and>
    banks_in_bankgroup ch' = banks_in_bankgroup ch \<and> chan_pending ch = mset es + chan_pending ch')"
proof -
  have turns: "succeeds (fold_res (dram_bank_cycle P cyc) [0..uint (num_banks ch1) - 1] (ch1, r)) (\<lambda>(ch2, r'). chan_step P ch1 ch2)"
    if "chan_wf P ch1" for ch1 and r :: Rand
  proof (rule fold_res_succeeds [where I = "\<lambda>(ch2, r'). chan_step P ch1 ch2"])
    show "case (ch1, r) of (ch2, r') \<Rightarrow> chan_step P ch1 ch2" using chan_step_refl [OF that] by simp
    fix i and s :: "DRAM_Channel \<times> Rand" assume i: "i \<in> set [0..uint (num_banks ch1) - 1]" and s: "case s of (ch2, r') \<Rightarrow> chan_step P ch1 ch2"
    obtain ch2 r' where s': "s = (ch2, r')" "chan_step P ch1 ch2" using s by (cases s) auto
    then have wf: "chan_wf P ch2" "nat i < nbanks ch2" "0 \<le> i" using all_banks_range [OF i] by (auto simp: chan_step_def)
    have "succeeds (dram_bank_cycle P cyc (int (nat i)) s) (\<lambda>(ch3, r'). chan_step P ch1 ch3)"
      unfolding s'(1) by (rule succeeds_mono [OF bank_cycle_ok [OF wf(1) assms(2) wf(2)]]) (use chan_step_trans [OF s'(2)] in auto)
    then show "succeeds (dram_bank_cycle P cyc i s) (\<lambda>(ch3, r'). chan_step P ch1 ch3)" using wf(3) by simp
  qed
  have ab: "succeeds (if RFMAB ch2 then dram_channel_rfmab P cyc (ch2\<lparr>RFMAB := False, s_RFM := s_RFM ch2 + 1\<rparr>) else Inr ch2) (chan_step P ch1)"
    if "chan_step P ch1 ch2" for ch1 ch2
    using that succeeds_mono [OF rfmab_ok [of P "ch2\<lparr>RFMAB := False, s_RFM := s_RFM ch2 + 1\<rparr>" cyc], of "chan_step P ch1"]
      chan_wf_more(1,2) [of P ch2, where x = False and n = "s_RFM ch2 + 1"] by (auto simp: chan_step_def)
  have sb: "succeeds (if RFMSB ch2 \<noteq> 0 then dram_channel_rfmsb P cyc (ch2\<lparr>s_RFM := s_RFM ch2 + 1\<rparr>) else Inr ch2) (chan_step P ch1)"
    if "chan_step P ch1 ch2" for ch1 ch2
    using that succeeds_mono [OF rfmsb_ok [of P "ch2\<lparr>s_RFM := s_RFM ch2 + 1\<rparr>" cyc], of "chan_step P ch1"]
      chan_wf_more(3,4) [of P ch2, where n = "s_RFM ch2 + 1"] by (auto simp: chan_step_def)
  show ?thesis
    unfolding dram_channel_cycle_def prod.case
    by (rule succeeds_bindI [OF schedule_rdwrq_ok [OF assms(1)]], clarify, rule succeeds_bindI [OF turns], simp add: bus_step_def,
        clarify, rule succeeds_bindI [OF ab], assumption, rule succeeds_bindI [OF sb], assumption)
      (auto simp: chan_step_def bus_step_def)
qed
section \<open>The whole memory\<close>

definition chan_fits :: "Params \<Rightarrow> DRAM \<Rightarrow> DRAM_Channel \<Rightarrow> bool" where
  "chan_fits P d ch \<longleftrightarrow> chan_wf P ch \<and>
     (refmode d = DRAM_REF_AB \<longrightarrow> unat (dram_banks d div num_channels d) \<le> nbanks ch) \<and>
     (refmode d = DRAM_REF_SB \<longrightarrow> unat (dram_banks_in_bankgroup d) * unat (dram_banks_in_bankgroup d) \<le> nbanks ch)"

definition dram_wf :: "Params \<Rightarrow> DRAM \<Rightarrow> bool" where
  "dram_wf P d \<longleftrightarrow> sched_ok P \<and> list_all (chan_fits P d) (dram_channels d) \<and> (refmode d = DRAM_REF_AB \<longrightarrow> num_channels d \<noteq> 0) \<and>
     (refmode d = DRAM_REF_SB \<longrightarrow> refsb_ptr d < dram_banks_in_bankgroup d)"

definition dram_pending :: "DRAM \<Rightarrow> (u64 \<times> bool) multiset" where
  "dram_pending d = sum_list (map chan_pending (dram_channels d))"

lemma chan_fits_wf: "chan_fits P d ch \<Longrightarrow> chan_wf P ch"
  by (simp add: chan_fits_def)

lemma chan_fits_same: "chan_fits P d ch \<Longrightarrow> chan_wf P ch' \<Longrightarrow> num_banks ch' = num_banks ch \<Longrightarrow> chan_fits P d ch'"
  by (simp add: chan_fits_def)

lemma chan_fits_upd [simp]:
  "chan_fits P (d\<lparr>dram_channels := chs\<rparr>) = chan_fits P d" "chan_fits P (d\<lparr>refsb_ptr := x\<rparr>) = chan_fits P d"
  "chan_fits P (d\<lparr>last_trefw_cycle := x\<rparr>) = chan_fits P d" "chan_fits P (d\<lparr>num_trefw := x\<rparr>) = chan_fits P d"
  "chan_fits P (d\<lparr>last_trefi_cycle := x\<rparr>) = chan_fits P d" "chan_fits P (d\<lparr>num_trefi := x\<rparr>) = chan_fits P d"
  by (simp_all add: chan_fits_def fun_eq_iff)

lemma cycle_channels_ok:
  assumes "list_all (chan_fits P d) chs" and "sched_ok P"
  shows "succeeds (cycle_channels P cyc chs r) (\<lambda>(es, chs', r'). list_all (chan_fits P d) chs' \<and>
    sum_list (map chan_pending chs) = mset es + sum_list (map chan_pending chs'))"
  using assms(1)
proof (induction chs arbitrary: r)
  case (Cons ch chs)
  have fit: "chan_fits P d ch" "chan_wf P ch" "list_all (chan_fits P d) chs" using Cons.prems chan_fits_wf by auto
  show ?case
    unfolding cycle_channels.simps
    by (rule succeeds_bindI [OF channel_cycle_ok [OF fit(2) assms(2)]], clarify, rule succeeds_bindI [OF Cons.IH [OF fit(3)]])
      (use chan_fits_same [OF fit(1)] in \<open>auto simp: ac_simps\<close>)
qed simp

lemma refresh_channels_ok:
  assumes "list_all (chan_fits P d) chs" and "\<And>ch i. chan_fits P d ch \<Longrightarrow> i \<in> set is \<Longrightarrow> 0 \<le> i \<and> nat i < nbanks ch"
  shows "succeeds (refresh_channels P cyc is chs) (\<lambda>chs'. list_all (chan_fits P d) chs' \<and> map chan_pending chs' = map chan_pending chs)"
  using assms(1)
proof (induction chs)
  case (Cons ch chs)
  have fit: "chan_fits P d ch" "chan_wf P ch" "list_all (chan_fits P d) chs" using Cons.prems chan_fits_wf by auto
  have "succeeds (on_banks cyc is (dram_bank_refresh P) ch) (chan_step P ch)"
    by (rule on_banks_ok [OF fit(2)]) (use assms(2) [OF fit(1)] in \<open>auto simp: rfm_bank_kept\<close>)
  from this show ?case
    unfolding refresh_channels.simps
    by (rule succeeds_bindI, intro succeeds_bindI [OF Cons.IH [OF fit(3)]]) (use chan_fits_same [OF fit(1)] in \<open>auto simp: chan_step_def\<close>)
qed simp

lemma dram_refresh_ok:
  assumes "dram_wf P d"
  shows "succeeds (dram_refresh P cyc d) (\<lambda>d'. dram_wf P d' \<and> dram_pending d' = dram_pending d)"
proof -
  let ?n = "dram_banks_in_bankgroup d"
  have wf: "sched_ok P" "list_all (chan_fits P d) (dram_channels d)" using assms by (auto simp: dram_wf_def)
  have new: "dram_wf P (d\<lparr>dram_channels := chs, refsb_ptr := p\<rparr>) \<and> dram_pending (d\<lparr>dram_channels := chs, refsb_ptr := p\<rparr>) = dram_pending d"
    if "list_all (chan_fits P d) chs" "map chan_pending chs = map chan_pending (dram_channels d)" "refmode d = DRAM_REF_SB \<longrightarrow> p < ?n" for chs p
    using that assms by (auto simp: dram_wf_def dram_pending_def)
  consider (sb) "refmode d = DRAM_REF_SB" | (ab) "refmode d = DRAM_REF_AB" "refmode d \<noteq> DRAM_REF_SB" | (none) "refmode d \<noteq> DRAM_REF_SB" "refmode d \<noteq> DRAM_REF_AB" by blast
  then show ?thesis
  proof cases
    case sb
    have ptr: "refsb_ptr d < ?n" "?n \<noteq> 0" "refmode d \<noteq> DRAM_REF_AB" using assms sb by (auto simp: dram_wf_def DRAM_REF_SB_def DRAM_REF_AB_def)
    have rng: "0 \<le> i \<and> nat i < nbanks ch" if ch: "chan_fits P d ch" and i: "i \<in> set (group_banks (refsb_ptr d) ?n)" for ch i
    proof -
      have "unat (refsb_ptr d) + 1 \<le> unat ?n" using ptr(1) by (simp add: word_less_nat_alt)
      then have "(unat (refsb_ptr d) + 1) * unat ?n \<le> unat ?n * unat ?n" by (rule mult_le_mono1)
      moreover have "unat ?n * unat ?n \<le> nbanks ch" "nbanks ch \<le> 32" using ch sb by (auto simp: chan_fits_def chan_wf_def)
      ultimately show ?thesis using group_banks_range [OF _ i] by (meson order.strict_trans2 order_trans)
    qed
    have "(refsb_ptr d + 1) mod ?n < ?n" using ptr(2) by (simp add: word_mod_less_divisor word_gt_0)
    moreover obtain chs where "refresh_channels P cyc (group_banks (refsb_ptr d) ?n) (dram_channels d) = Inr chs" "list_all (chan_fits P d) chs"
      "map chan_pending chs = map chan_pending (dram_channels d)"
      using succeedsE [OF refresh_channels_ok [OF wf(2) rng, of "group_banks (refsb_ptr d) ?n" cyc]] by blast
    ultimately show ?thesis using new [of chs "(refsb_ptr d + 1) mod ?n"] sb ptr(2,3) by (simp add: dram_refresh_def rem_word_def)
  next
    case ab
    have rng: "0 \<le> i \<and> nat i < nbanks ch" if ch: "chan_fits P d ch" and i: "i \<in> set [0..uint (dram_banks d div num_channels d) - 1]" for ch i
      using ch ab(1) all_banks_range [OF i] by (auto simp: chan_fits_def)
    have nz: "num_channels d \<noteq> 0" using assms ab by (simp add: dram_wf_def)
    obtain chs where "refresh_channels P cyc [0..uint (dram_banks d div num_channels d) - 1] (dram_channels d) = Inr chs"
      "list_all (chan_fits P d) chs" "map chan_pending chs = map chan_pending (dram_channels d)"
      using succeedsE [OF refresh_channels_ok [OF wf(2) rng, of "[0..uint (dram_banks d div num_channels d) - 1]" cyc]] by blast
    then show ?thesis using new [of chs "refsb_ptr d"] ab nz by (simp add: dram_refresh_def div_word_def)
  next
    case none
    then show ?thesis using assms by (simp add: dram_refresh_def)
  qed
qed

lemma dram_cycle_ok:
  assumes "dram_wf P d"
  shows "succeeds (dram_cycle P cyc (d, r)) (\<lambda>(es, d', r'). dram_wf P d' \<and> dram_pending d = mset es + dram_pending d')"
proof -
  have wf: "list_all (chan_fits P d) (dram_channels d)" "sched_ok P" using assms by (auto simp: dram_wf_def)
  have more: "dram_wf P (d\<lparr>dram_channels := chs, last_trefw_cycle := a, num_trefw := b\<rparr>)" "dram_wf P (d\<lparr>dram_channels := chs\<rparr>)"
    "dram_wf P (d\<lparr>dram_channels := chs, last_trefw_cycle := a, num_trefw := b, last_trefi_cycle := a', num_trefi := b'\<rparr>)"
    "dram_wf P (d\<lparr>dram_channels := chs, last_trefi_cycle := a', num_trefi := b'\<rparr>)"
    if "list_all (chan_fits P d) chs" for chs a b a' b'
    using that assms by (auto simp: dram_wf_def)
  have fin: "succeeds (let d = d\<lparr>dram_channels := chs\<rparr>;
         d = (if P_tREFW P < cyc - last_trefw_cycle d then d\<lparr>last_trefw_cycle := cyc, num_trefw := num_trefw d + 1\<rparr> else d)
     in bind_res
          (if P_tREFI P < cyc - last_trefi_cycle d then
             dram_refresh P cyc (d\<lparr>last_trefi_cycle := cyc, num_trefi := num_trefi d + 1\<rparr>)
           else Inr d) (\<lambda>d. Inr (es, d, r)))
    (\<lambda>(es', d', r'). dram_wf P d' \<and> dram_pending d = mset es' + dram_pending d')"
    if "list_all (chan_fits P d) chs" "sum_list (map chan_pending (dram_channels d)) = mset es + sum_list (map chan_pending chs)" for es chs r
    using that more [OF that(1)]
    by (auto simp: Let_def dram_pending_def intro!: succeeds_mono [OF dram_refresh_ok])
  show ?thesis
    unfolding dram_cycle_def prod.case
    by (rule succeeds_bindI [OF cycle_channels_ok [OF wf]], clarify, rule fin)
qed
section \<open>Requests\<close>

lemma uint_less_int: "uint x < int n \<longleftrightarrow> unat x < n"
  by (simp add: nat_less_iff flip: nat_uint_eq)

lemma bank_insert_law:
  assumes "dram_bank_insert cyc t row l b = Inr (ok, b')" and "bank_ok i b" and "is_access t"
  shows "if ok then bank_ok i b' \<and> bank_pending b' = add_mset (l, t \<noteq> DRAM_REQ_RD) (bank_pending b) else b' = b"
  using assms by (auto simp: dram_bank_insert_def Let_def bind_res_eq_Inr bank_ok_def bank_pending_def entry_ok_def split: if_splits)

lemma channel_insert_law:
  assumes "dram_channel_insert cyc i t row l ch = Inr (ok, ch')" and "chan_wf P ch" and "is_access t"
  shows "if ok then chan_wf P ch' \<and> num_banks ch' = num_banks ch \<and> chan_pending ch' = add_mset (l, t \<noteq> DRAM_REQ_RD) (chan_pending ch) else ch' = ch"
proof -
  let ?i = "unat i"
  obtain b where b: "dram_bank_insert cyc t row l (bank_list ch ! ?i) = Inr (ok, b)" "?i < length (bank_list ch)"
    "ch' = ch\<lparr>bank_list := (bank_list ch)[?i := b]\<rparr>"
    using assms(1) by (auto simp: dram_channel_insert_def bind_res_eq_Inr vec_get_Inr vec_set_Inr uint_less_int)
  have wf: "?i < nbanks ch" "bank_ok ?i (bank_list ch ! ?i)" using assms(2) b(2) by (auto simp: chan_wf_def)
  note law = bank_insert_law [OF b(1) wf(2) assms(3)]
  show ?thesis
  proof (cases ok)
    case True
    then have ok: "bank_ok ?i b" "bank_pending b = add_mset (l, t \<noteq> DRAM_REQ_RD) (bank_pending (bank_list ch ! ?i))" using law by auto
    have "bank_ok j ((bank_list ch)[?i := b] ! j)" if "j < nbanks ch" for j
      using that ok(1) assms(2) b(2) by (cases "j = ?i") (auto simp: chan_wf_def)
    then have "chan_wf P ch'" using assms(2) b(3) by (simp add: chan_wf_def rfm_ok_def)
    then show ?thesis
      using True b(3) ok(2) sum_list_upd [OF b(2), of bank_pending b] by (simp add: chan_pending_def)
  next
    case False
    then show ?thesis using law b(3) by simp
  qed
qed

lemma dram_insert_law:
  assumes "dram_insert P cyc l w d = Inr (ok, d')" and "dram_wf P d"
  shows "if ok then dram_wf P d' \<and> dram_pending d' = add_mset (l, w) (dram_pending d) else d' = d"
proof -
  obtain row i k ch' where ch: "dram_channel_insert cyc i (if w then DRAM_REQ_WB else DRAM_REQ_RD) row l (dram_channels d ! k) = Inr (ok, ch')"
    "k < length (dram_channels d)" "d' = d\<lparr>dram_channels := (dram_channels d)[k := ch']\<rparr>"
    using assms(1) by (auto simp: dram_insert_def bind_res_eq_Inr vec_get_Inr vec_set_Inr uint_less_int)
  have fit: "chan_fits P d (dram_channels d ! k)" using assms(2) ch(2) by (simp add: dram_wf_def list_all_length)
  have t: "is_access (if w then DRAM_REQ_WB else DRAM_REQ_RD)" "((if w then DRAM_REQ_WB else DRAM_REQ_RD) \<noteq> DRAM_REQ_RD) = w"
    by (auto simp: is_access_def)
  note law = channel_insert_law [OF ch(1) chan_fits_wf [OF fit] t(1)]
  show ?thesis
  proof (cases ok)
    case True
    then have "chan_fits P d ch'" "chan_pending ch' = add_mset (l, w) (chan_pending (dram_channels d ! k))"
      using law chan_fits_same [OF fit] t(2) by auto
    then show ?thesis
      using True assms(2) ch(2,3) sum_list_upd [OF ch(2), of chan_pending ch']
      by (auto simp: dram_wf_def dram_pending_def list_all_length nth_list_update)
  next
    case False
    then show ?thesis using law ch(3) by simp
  qed
qed

section \<open>Construction\<close>

text \<open>The parameters for which the arrays are large enough and the groups of banks exist.\<close>

abbreviation per_channel :: "Params \<Rightarrow> u64" where "per_channel P \<equiv> MEM_BANKS P div MEM_CHANNELS P"

definition native_setup :: "Params \<Rightarrow> bool" where
  "native_setup P \<longleftrightarrow> sched_ok P \<and> 0 < unat (per_channel P) \<and> unat (per_channel P) \<le> 32 \<and>
     (DRAM_RFM_POLICY P = DRAM_RFM_SB \<longrightarrow>
        0 < unat (per_channel P div DRAM_BANKGROUPS P) \<and> unat (per_channel P div DRAM_BANKGROUPS P) dvd unat (per_channel P)) \<and>
     (DRAM_REF_POLICY P = DRAM_REF_SB \<longrightarrow>
        unat (per_channel P div DRAM_BANKGROUPS P) * unat (per_channel P div DRAM_BANKGROUPS P) \<le> unat (per_channel P))"

lemma closepage_same [simp]:
  "sched_ok (closepage P) = sched_ok P" "DRAM_RFM_POLICY (closepage P) = DRAM_RFM_POLICY P" "chan_wf (closepage P) = chan_wf P"
  "DRAM_REF_POLICY (closepage P) = DRAM_REF_POLICY P" "DRAM_BANKGROUPS (closepage P) = DRAM_BANKGROUPS P" "MEM_BANKS (closepage P) = MEM_BANKS P"
  "MEM_CHANNELS (closepage P) = MEM_CHANNELS P" "P_tREFI (closepage P) = P_tREFI P"
  by (simp_all add: closepage_def sched_ok_def chan_wf_def rfm_ok_def fun_eq_iff)

lemma closepage_idem [simp]: "closepage (closepage P) = closepage P"
  by (simp add: closepage_def)

lemma trefi_same [simp]: "sched_ok (P\<lparr>P_tREFI := t\<rparr>) = sched_ok P" "chan_wf (P\<lparr>P_tREFI := t\<rparr>) = chan_wf P"
  by (simp_all add: sched_ok_def chan_wf_def rfm_ok_def fun_eq_iff)

lemma channel_new_ok:
  assumes "0 < unat n" and "unat n \<le> 32"
    and "DRAM_RFM_POLICY P = DRAM_RFM_SB \<longrightarrow> 0 < unat (ucast n div DRAM_BANKGROUPS P :: u64) \<and> unat (ucast n div DRAM_BANKGROUPS P :: u64) dvd unat n"
  shows "on_success (dram_channel_new P i n rows) (\<lambda>(ch, P'). chan_wf P ch \<and> nbanks ch = unat n \<and> chan_pending ch = {#} \<and> P' = closepage P)"
proof -
  let ?bs = "map (\<lambda>ii. dram_bank_new (word_of_int ii) i (rows div n)) [0..uint n - 1]"
  let ?es = "replicate NUM_DRAM_BUSQ_ENTRIES \<lparr>bus_valid = False, bus_reqtype = DRAM_REQ_RD, bus_lineaddr = 0, bus_ready_time = 0\<rparr>"
  have banks: "bank_ok j (?bs ! j)" if "j < unat n" for j
  proof -
    have "int j \<le> uint n - 1" using that by (simp add: zless_nat_eq_int_zless flip: nat_uint_eq)
    moreover have "j < length [0..uint n - 1]" using that by simp
    ultimately show ?thesis by (simp add: nth_upto bank_ok_def dram_bank_new_def)
  qed
  have nz: "n \<noteq> 0" "n \<le> 32" using assms(1,2) by (auto simp: word_le_nat_alt)
  have pend: "sum_list (map bank_pending ?bs) = {#}" "sum_list (map bus_pending ?es) = {#}"
    by (simp_all add: bank_pending_def dram_bank_new_def comp_def bus_pending_def NUM_DRAM_BUSQ_ENTRIES_def eval_nat_numeral)
  have "chan_wf P \<lparr>chan_id = i, RFMAB = False, RFMSB = 0, bank_list = ?bs, dbusq = ?es, dbusq_size = 0, tfaw_time = tFAW,
      tfaw_prev_time = [0, 0, 0, 0], rdwr_time = P_tRDRD P, rdwr_prev_time = 0, num_banks = ucast n, chan_rows = ucast rows,
      banks_in_bankgroup = ucast n div DRAM_BANKGROUPS P, s_RFM = 0, s_bus_time = 0\<rparr>"
    using assms banks by (simp add: chan_wf_def rfm_ok_def unat_widen NUM_DRAM_BUSQ_ENTRIES_def)
  then show ?thesis
    using nz pend by (simp add: dram_channel_new_def div_word_def chan_pending_def unat_widen del: map_map)
qed
lemma dram_new_ok:
  assumes "native_setup P"
  shows "on_success (dram_new P) (\<lambda>(d, P'). dram_wf P' d \<and> dram_pending d = {#})"
proof -
  let ?B = "per_channel P"
  have B: "0 < unat ?B" "unat ?B \<le> 32" "sched_ok P" using assms by (auto simp: native_setup_def)
  have w: "unat (ucast ?B :: u32) = unat ?B" using B(2) by (intro unat_ucast_small) simp
  then have ww: "(ucast (ucast ?B :: u32) :: u64) = ?B" by (simp only: word_unat_eq_iff unat_widen)
  define I where "I = (\<lambda>(chs, P'). (P' = P \<or> P' = closepage P) \<and>
    list_all (\<lambda>ch. chan_wf P ch \<and> nbanks ch = unat ?B \<and> chan_pending ch = {#}) chs)"
  have one: "on_success (dram_channel_new P' i (ucast ?B) rows) (\<lambda>(ch, P''). chan_wf P ch \<and> nbanks ch = unat ?B \<and> chan_pending ch = {#} \<and> P'' = closepage P)"
    if "P' = P \<or> P' = closepage P" for P' i rows
  proof -
    have "chan_wf P' = chan_wf P" "closepage P' = closepage P" "DRAM_BANKGROUPS P' = DRAM_BANKGROUPS P" "DRAM_RFM_POLICY P' = DRAM_RFM_POLICY P"
      using that by auto
    then show ?thesis using channel_new_ok [of "ucast ?B" P' i rows, unfolded w ww] assms by (simp add: native_setup_def)
  qed
  have all: "on_success (fold_res (\<lambda>ii (chs, P). bind_res (require OutOfBounds (ii < 32)) (\<lambda>_.
      bind_res (dram_channel_new P (word_of_int ii) (ucast ?B) (ucast (rowbufs div MEM_CHANNELS P))) (\<lambda>(ch, P). Inr (chs @ [ch], P)))) is ([], P)) I"
    for rowbufs "is"
  proof (rule fold_res_on_success)
    show "I ([], P)" by (simp add: I_def)
    fix ii s assume s: "I s"
    obtain chs P' where s': "s = (chs, P')" by (cases s)
    show "on_success (case s of (chs, P) \<Rightarrow> bind_res (require OutOfBounds (ii < 32)) (\<lambda>_.
      bind_res (dram_channel_new P (word_of_int ii) (ucast ?B) (ucast (rowbufs div MEM_CHANNELS P))) (\<lambda>(ch, P). Inr (chs @ [ch], P)))) I"
      unfolding s' prod.case
      by (rule on_success_bindI [OF on_success_True], rule on_success_bindI [OF one]) (use s s' in \<open>auto simp: I_def\<close>)
  qed
  have pend: "sum_list (map chan_pending chs) = {#}" if "I (chs, P')" for chs P'
  proof -
    have "list_all (\<lambda>ch. chan_pending ch = {#}) chs" using that by (auto simp: I_def list_all_iff)
    then show ?thesis by (induction chs) auto
  qed
  have fin: "dram_wf P'' \<lparr>dram_channels = chs, refmode = rm, memsize = a1, dram_banks = MEM_BANKS P', rowbuf_size = a2,
      num_channels = MEM_CHANNELS P', num_rowbufs = a3, lines_in_rowbuf = a4, rowbufs_in_mem = a5, rowbufs_in_bank = a6, lines_in_mem = a7,
      banks_in_channel = ?B, refsb_ptr = 0, dram_banks_in_bankgroup = ?B div DRAM_BANKGROUPS P', last_trefi_cycle = 0, last_trefw_cycle = 0,
      num_trefi = 0, num_trefw = 0\<rparr>"
    if "I (chs, P')" "MEM_CHANNELS P \<noteq> 0" "rm = DRAM_REF_POLICY P'" "sched_ok P'' = sched_ok P'" "chan_wf P'' = chan_wf P'"
      "rm = DRAM_REF_SB \<longrightarrow> ?B div DRAM_BANKGROUPS P' \<noteq> 0"
    for chs P' P'' rm a1 a2 a3 a4 a5 a6 a7
  proof -
    have P': "sched_ok P' = sched_ok P" "chan_wf P' = chan_wf P" "MEM_BANKS P' = MEM_BANKS P" "MEM_CHANNELS P' = MEM_CHANNELS P"
      "DRAM_BANKGROUPS P' = DRAM_BANKGROUPS P" "DRAM_REF_POLICY P' = DRAM_REF_POLICY P"
      using that(1) by (auto simp: I_def)
    have chs: "chan_wf P ch \<and> nbanks ch = unat ?B" if "ch \<in> set chs" for ch using that \<open>I (chs, P')\<close> by (auto simp: I_def list_all_iff)
    show ?thesis
      using B(3) chs that(2-6) assms P'
      by (auto simp: dram_wf_def chan_fits_def list_all_iff native_setup_def word_gt_0)
  qed
  show ?thesis
    unfolding dram_new_def Let_def
    by (rule on_success_bindI [OF on_success_True], rule on_success_bindI [OF on_success_True], rule on_success_bindI [OF on_success_True],
        rule on_success_bindI [where P = "\<lambda>b. b = ?B \<and> MEM_CHANNELS P \<noteq> 0"], simp add: div_word_def, clarify,
        rule on_success_bindI [OF all])
      (auto simp: div_word_def dram_pending_def wp intro!: fin pend)
qed

end
