(* ===== verification/Native_Sim.thy ===== *)
theory Native_Sim
  imports Sim_Loop Native_Correct
begin

text \<open>
  The simulator on its own DRAM model: the adapter (\<open>src/memsys.h\<close>, \<open>src/memsys.cpp\<close>) and the loop of the build without
  \<open>DRAMSIM3\<close>.  The adapter names lines where the one for DRAMsim3 names bytes; it is that adapter with a line size of
  one, so what holds for the cores on any memory backend holds here too.

  \<open>now\<close> is the global \<open>cycle\<close>, which the loop increments after each cycle of the memory.  The memory draws from
  \<open>nrand\<close>: the program has one sequence of random numbers, of which the memory and the cores see
  subsequences, and the sequences are arbitrary.
\<close>

section \<open>The adapter\<close>

record NativeMem =
  nd :: DRAM
  now :: u64
  nrand :: Rand

definition native_insert :: "Params \<Rightarrow> u64 \<Rightarrow> bool \<Rightarrow> NativeMem MemSys \<Rightarrow> (bool \<times> NativeMem MemSys) res" where
  "native_insert P l wb m =
     bind_res (dram_insert P (now (mainmem m)) l wb (nd (mainmem m))) (\<lambda>(ok, d).
     Inr (ok, m\<lparr>mainmem := (mainmem m)\<lparr>nd := d\<rparr>\<rparr>))"

definition native_memsys_access ::
  "Params \<Rightarrow> u64 \<Rightarrow> u32 \<Rightarrow> u32 \<Rightarrow> u64 \<Rightarrow> u64 \<Rightarrow> NativeMem MemSys \<Rightarrow> (bool \<times> NativeMem MemSys) res" where
  "native_memsys_access P l core robid inst wb m =
     bind_res (native_insert P l False m) (\<lambda>(retval, m).
     bind_res (if retval then memsys_mshr_insert l core robid inst m else Inr m) (\<lambda>m.
     bind_res (if wb \<noteq> 0 then bind_res (native_insert P wb True m) (\<lambda>(_, m). Inr m) else Inr m) (\<lambda>m.
     Inr (retval, m))))"

definition native_memsys_callback :: "u64 \<Rightarrow> NativeMem MemSys \<times> 't MCore list \<Rightarrow> (NativeMem MemSys \<times> 't MCore list) res" where
  "native_memsys_callback l = (\<lambda>(m, cs).
     case mshr m l of
       None \<Rightarrow> Inl AssertionFailed
     | Some e \<Rightarrow>
         bind_res (vec_get cs (uint (ms_coreid e))) (\<lambda>c.
         bind_res (mcore_rob_wakeup (ms_robid e) (ms_inst_num e) c) (\<lambda>c.
         bind_res (vec_set cs (uint (ms_coreid e)) c) (\<lambda>cs.
         Inr (m\<lparr>mshr := (mshr m)(l := None)\<rparr>, cs)))))"

definition native_memsys_cycle :: "Params \<Rightarrow> NativeMem MemSys \<times> 't MCore list \<Rightarrow> (NativeMem MemSys \<times> 't MCore list) res" where
  "native_memsys_cycle P = (\<lambda>(m, cs).
     bind_res (dram_cycle P (now (mainmem m)) (nd (mainmem m), nrand (mainmem m))) (\<lambda>(es, d, r).
     fold_res (\<lambda>(l, w) s. if w then Inr s else native_memsys_callback l s) es
       (m\<lparr>mainmem := \<lparr>nd = d, now = now (mainmem m) + 1, nrand = r\<rparr>\<rparr>, cs)))"

text \<open>The memory as a backend.\<close>

definition native_accepts :: "Params \<Rightarrow> NativeMem \<Rightarrow> u64 \<Rightarrow> bool \<Rightarrow> bool res" where
  "native_accepts P m l w = bind_res (dram_insert P (now m) l w (nd m)) (\<lambda>(ok, _). Inr ok)"

definition native_add :: "Params \<Rightarrow> u64 \<Rightarrow> bool \<Rightarrow> NativeMem \<Rightarrow> (bool \<times> NativeMem) res" where
  "native_add P l w m =
     bind_res (dram_insert P (now m) l w (nd m)) (\<lambda>(ok, d).
     bind_res (require AssertionFailed ok) (\<lambda>_. Inr (True, m\<lparr>nd := d\<rparr>)))"

definition native_tick :: "Params \<Rightarrow> NativeMem \<Rightarrow> ((u64 \<times> bool) list \<times> NativeMem) res" where
  "native_tick P m =
     bind_res (dram_cycle P (now m) (nd m, nrand m)) (\<lambda>(es, d, r). Inr (es, \<lparr>nd = d, now = now m + 1, nrand = r\<rparr>))"

definition native_ops :: "Params \<Rightarrow> NativeMem mem_ops" where
  "native_ops P = \<lparr>will_accept = native_accepts P, add_trans = native_add P, clock_tick = native_tick P\<rparr>"

abbreviation line_units :: "Params \<Rightarrow> Params" where
  "line_units P \<equiv> P\<lparr>LINESIZE := 1\<rparr>"

definition native_start :: "Params \<Rightarrow> NativeMem \<Rightarrow> bool" where
  "native_start P m \<longleftrightarrow> (\<exists>P0. native_setup P0 \<and> dram_new P0 = Inr (nd m, P)) \<and> now m = 0"

interpretation native: core_memory "native_start P" "\<lambda>m. dram_wf P (nd m)" "\<lambda>m. dram_pending (nd m)" "native_add P" "\<lambda>_. True"
  "native_tick P" "native_ops P" now for P
proof unfold_locales
  show "dram_wf P (nd m) \<and> dram_pending (nd m) = {#}" if "native_start P m" for m
    using that dram_new_ok by (fastforce simp: native_start_def on_success_iff)
  show "dram_wf P (nd m') \<and> dram_pending (nd m') = add_mset (l, w) (dram_pending (nd m))"
    if "dram_wf P (nd m)" "native_add P l w m = Inr (ok, m')" for m l w ok m'
    using that dram_insert_law [of P "now m" l w "nd m" True] by (auto simp: native_add_def bind_res_eq_Inr)
  show "succeeds (native_tick P m) (\<lambda>(es, m'). dram_wf P (nd m') \<and> dram_pending (nd m) = mset es + dram_pending (nd m'))"
    if "dram_wf P (nd m)" for m
    unfolding native_tick_def by (rule succeeds_bindI [OF dram_cycle_ok [OF that]]) auto
  show "now m' = now m" if "native_add P l w m = Inr (ok, m')" for l w m ok m'
    using that by (auto simp: native_add_def bind_res_eq_Inr)
  show "now m' = now m + 1" if "native_tick P m = Inr (es, m')" for m es m'
    using that by (auto simp: native_tick_def bind_res_eq_Inr)
qed (simp_all add: native_ops_def)

section \<open>The two adapters agree\<close>

lemma dram_insert_full:
  assumes "dram_insert P cyc l w d = Inr (False, d')"
  shows "d' = d"
  using assms
  by (auto simp: dram_insert_def dram_channel_insert_def dram_bank_insert_def Let_def bind_res_eq_Inr vec_get_Inr vec_set_Inr split: if_splits)

lemma native_cycle_agrees:
  fixes cs :: "'t MCore list"
  shows "native_memsys_cycle P (m, cs) = memsys_cycle (native_ops P) (line_units P) (m, cs)"
proof -
  have "native_memsys_callback l s = memsys_callback (line_units P) l s" for l and s :: "NativeMem MemSys \<times> 't MCore list"
    by (cases s) (simp add: native_memsys_callback_def memsys_callback_def Let_def)
  then have cb: "(\<lambda>(l, w) s. if w then Inr s else native_memsys_callback l s) =
      (\<lambda>(l, w) (s :: NativeMem MemSys \<times> 't MCore list). if w then Inr s else memsys_callback (line_units P) l s)" by (auto simp: fun_eq_iff)
  show ?thesis
    by (auto simp: native_memsys_cycle_def memsys_cycle_def memsys_answers_def native_ops_def native_tick_def bind_res_assoc cb
        intro!: bind_res_cong)
qed

text \<open>C9. The adapter of the build without DRAMsim3 is the one of the other build on the operations of the simulator's own memory, with lines as
  the unit of addresses: an access, and a cycle with its callbacks, have the same result on every state, faults included.\<close>

theorem native_adapter_agrees:
  "native_memsys_access P l core robid inst wb m = memsys_access (native_ops P) (line_units P) l core robid inst wb m \<and>
   native_memsys_cycle P (m, cs) = memsys_cycle (native_ops P) (line_units P) (m, cs)"
proof -
  have two: "bind_res (native_accepts P (mainmem m) l w) (\<lambda>ok. bind_res (if ok then bind_res (native_add P l w (mainmem m)) (\<lambda>(_, mm). f (m\<lparr>mainmem := mm\<rparr>)) else Inr m) (\<lambda>m. g ok m)) =
      bind_res (native_insert P l w m) (\<lambda>(ok, m). bind_res (if ok then f m else Inr m) (\<lambda>m. g ok m))" for m l w f and g :: "bool \<Rightarrow> NativeMem MemSys \<Rightarrow> 'x res"
  proof (cases "dram_insert P (now (mainmem m)) l w (nd (mainmem m))")
    case (Inr x)
    then show ?thesis
      using dram_insert_full [of P "now (mainmem m)" l w "nd (mainmem m)"] by (cases x) (auto simp: native_accepts_def native_add_def native_insert_def)
  qed (simp add: native_accepts_def native_insert_def)
  have wb: "bind_res (native_accepts P (mainmem m) wb True) (\<lambda>wok. if wok then bind_res (native_add P wb True (mainmem m)) (\<lambda>(_, mm). Inr (m\<lparr>mainmem := mm\<rparr>)) else Inr m) =
      bind_res (native_insert P wb True m) (\<lambda>(_, m). Inr m)" for m
    using two [of m wb True Inr "\<lambda>_. Inr"] by (simp add: bind_res_def split: sum.splits prod.splits if_splits)
  have "native_memsys_access P l core robid inst wb m = memsys_access (native_ops P) (line_units P) l core robid inst wb m"
    by (simp add: native_memsys_access_def memsys_access_def native_ops_def Let_def wb cong: if_cong) (rule two [symmetric])
  then show ?thesis using native_cycle_agrees ..
qed
section \<open>Runs\<close>

text \<open>The memory phase of the build without DRAMsim3: the memory runs in every cycle.\<close>

definition native_memory :: "Params \<Rightarrow> (NativeMem, 't) Sim \<Rightarrow> (NativeMem, 't) Sim res" where
  "native_memory P st =
     bind_res (native_memsys_cycle P (memsys (nest st), mcore st)) (\<lambda>(m, cs).
     Inr (st\<lparr>nest := (nest st)\<lparr>memsys := m\<rparr>, mcore := cs\<rparr>))"

abbreviation native_cores :: "'t gz_ops \<Rightarrow> bool \<Rightarrow> Params \<Rightarrow> (NativeMem, 't) Sim \<Rightarrow> (bool \<times> (NativeMem, 't) Sim) res" where
  "native_cores gz do_wb P \<equiv> sim_cores (native_ops P) gz do_wb (line_units P)"

definition native_step :: "'t gz_ops \<Rightarrow> bool \<Rightarrow> Params \<Rightarrow> (NativeMem, 't) Sim \<Rightarrow> (bool \<times> (NativeMem, 't) Sim) res" where
  "native_step gz do_wb P st =
     bind_res (native_cores gz do_wb P st) (\<lambda>(d, st).
     bind_res (native_memory P st) (\<lambda>st. Inr (d, st\<lparr>cycle := cycle st + 1\<rparr>)))"

inductive native_run :: "'t gz_ops \<Rightarrow> 't \<Rightarrow> (u32 \<Rightarrow> nat \<Rightarrow> int) \<Rightarrow> bool \<Rightarrow> Params \<Rightarrow> (NativeMem, 't) Sim \<Rightarrow> bool"
  for gz null sq do_wb P where
  start: "native_start P mm \<Longrightarrow> sim_new gz null sq P mm = Inr st \<Longrightarrow> native_run gz null sq do_wb P st"
| step: "native_run gz null sq do_wb P st \<Longrightarrow> list_all (timely (mshr_of (nest st))) (mcore st) \<Longrightarrow>
    native_step gz do_wb P st = Inr (d, st') \<Longrightarrow> native_run gz null sq do_wb P st'"

abbreviation native_ok :: "Params \<Rightarrow> (NativeMem, 't) Sim \<Rightarrow> bool" where
  "native_ok P \<equiv> sim_ok (\<lambda>m. dram_wf P (nd m)) (\<lambda>m. dram_pending (nd m)) (line_units P)"

lemma line_units_setup: "sim_setup P \<Longrightarrow> sim_setup (line_units P)"
  by (simp add: sim_setup_def params_ok_def)

text \<open>The invariant of the start does not depend on the line size: no line is open yet.\<close>

lemma start_line_units:
  assumes "sim_ok good pend P st" and "mshr_of (nest st) = Map.empty" and "LINESIZE P \<noteq> 0"
  shows "sim_ok good pend (line_units P) st"
proof -
  have rob: "rob_ok (line_units P) = rob_ok P" "live (line_units P) = live P" by (simp_all add: rob_ok_def live_def rob_slot_def fun_eq_iff)
  have "x * 1 \<le> x * unat (LINESIZE P)" for x using assms(3) by (intro mult_le_mono2) (simp add: unat_gt_0 Suc_leI)
  note le = order_trans [OF this]
  have os: "os_inv (line_units P) os" if "os_inv P os" for os
    using that le [of "length (ipt os) * unat (lines_in_page os)" "2 ^ 64"] by (simp add: os_inv_def)
  have "mem_inv good pend P m \<Longrightarrow> mshr m = Map.empty \<Longrightarrow> mem_inv good pend (line_units P) m" for m by (auto simp: mem_inv_def)
  moreover have "line_ok P l \<Longrightarrow> line_ok (line_units P) l" for l using unsigned_less [of l, where ?'a = nat] by (simp add: line_ok_def)
  ultimately show ?thesis using assms(1,2) by (auto simp: sim_ok_def nest_inv_def os cores_inv_def core_inv_def core_ok_def rob)
qed

lemma native_run_ok:
  assumes "native_run gz null sq do_wb P st" and "sim_setup P"
  shows "native_ok P st"
  using assms(1)
proof induction
  case (start mm st)
  have "sim_inv (\<lambda>m. dram_wf P (nd m)) (\<lambda>m. dram_pending (nd m)) now P 0 st"
    using native.sim_new_inv [OF assms(2) start(1), of gz null sq] start by (auto simp: on_success_iff native_start_def)
  moreover have "mshr_of (nest st) = Map.empty" "LINESIZE P \<noteq> 0"
    using start(2) by (auto simp: sim_new_def memsys_new_def bind_res_eq_Inr)
  ultimately show ?case using start_line_units by (auto simp: sim_inv_def)
next
  case (step st d st')
  from step.hyps(3) obtain st1 st2 where st1: "native_cores gz do_wb P st = Inr (d, st1)" and st2: "native_memory P st1 = Inr st2"
    and st': "st' = st2\<lparr>cycle := cycle st2 + 1\<rparr>" by (auto simp: native_step_def bind_res_eq_Inr)
  have "native_ok P st1"
    using native.sim_cores_keeps [OF line_units_setup [OF assms(2)] step.IH step.hyps(2), of gz do_wb] st1 by (simp add: on_success_iff)
  then have "native_ok P st2"
    using native.answers_phase [of "line_units P" P st1] st2 line_units_setup [OF assms(2)]
    by (auto simp: native_memory_def bind_res_eq_Inr native_cycle_agrees sim_setup_def)
  then show ?case using st' by (simp add: sim_ok_def)
qed

text \<open>C8. In every run of the build without DRAMsim3 too, the memory phase of a cycle succeeds: no bank or bus slot is used twice, each answer
  to a read finds its MSHR entry and the instruction that waits; and afterwards the open reads are the lines of the MSHR.\<close>

theorem native_answers_find_instructions:
  assumes "sim_setup P" and "native_run gz null sq do_wb P st" and "list_all (timely (mshr_of (nest st))) (mcore st)"
    and "native_cores gz do_wb P st = Inr (d, st1)"
  shows "\<exists>st2. native_memory P st1 = Inr st2 \<and>
    filter_mset (\<lambda>x. \<not> snd x) (dram_pending (nd (mainmem (memsys (nest st2))))) =
      image_mset (\<lambda>l. (l, False)) (mset_set (dom (mshr_of (nest st2)))) \<and>
    (\<forall>l e. mshr_of (nest st2) l = Some e \<longrightarrow> unat (ms_coreid e) < length (mcore st2) \<and>
       rob_inst_num (rob_entries (rob (mcore st2 ! unat (ms_coreid e))) ! unat (ms_robid e)) = ms_inst_num e)"
proof -
  have "native_ok P st1"
    using native.sim_cores_keeps [OF line_units_setup [OF assms(1)] native_run_ok [OF assms(2,1)] assms(3), of gz do_wb] assms(4)
    by (simp add: on_success_iff)
  then obtain m cs where m: "memsys_cycle (native_ops P) (line_units P) (memsys (nest st1), mcore st1) = Inr (m, cs)"
    "native_ok P (st1\<lparr>nest := (nest st1)\<lparr>memsys := m\<rparr>, mcore := cs\<rparr>)"
    using native.answers_phase [of "line_units P" P st1] line_units_setup [OF assms(1)] by (auto simp: sim_setup_def elim!: succeedsE)
  then have "mem_inv (\<lambda>m. dram_wf P (nd m)) (\<lambda>m. dram_pending (nd m)) (line_units P) m" "cores_inv (line_units P) (mshr m) cs"
    by (auto simp: sim_ok_def nest_inv_def)
  moreover have "native_memory P st1 = Inr (st1\<lparr>nest := (nest st1)\<lparr>memsys := m\<rparr>, mcore := cs\<rparr>)"
    using m(1) by (simp add: native_memory_def native_cycle_agrees)
  ultimately show ?thesis by (auto simp: mem_inv_def cores_inv_def core_inv_def core_ok_def)
qed

section \<open>A sample run\<close>

lemma sample_native_setup: "native_setup sample_Params"
  by (simp add: native_setup_def sched_ok_def sample_Params_def default_Params_def DRAM_SCHED_FRFCFS_def DRAM_RFM_SB_def DRAM_REF_SB_def)

lemma sample_channel: "\<exists>ch. dram_channel_new sample_Params i 32 rows = Inr (ch, sample_Params)"
  by (simp add: dram_channel_new_def div_word_def sample_Params_def default_Params_def closepage_def)

lemma sample_dram_new: "\<exists>d. dram_new sample_Params = Inr (d, sample_Params)"
proof -
  obtain ch :: "u32 \<Rightarrow> u32 \<Rightarrow> DRAM_Channel" where ch: "dram_channel_new sample_Params i 32 rows = Inr (ch i rows, sample_Params)" for i rows
    using sample_channel by metis
  have two: "[0..1] = [0, 1::int]" by (simp add: upto_rec1)
  have "MEM_BANKS sample_Params div MEM_CHANNELS sample_Params = 32" "MEM_CHANNELS sample_Params = 2" "DRAM_BANKGROUPS sample_Params = 8"
    "MEM_PAGESIZE sample_Params \<noteq> 0" "LINESIZE sample_Params \<noteq> 0" "MEM_BANKS sample_Params \<noteq> 0" "DRAM_REF_POLICY sample_Params = 2"
    by (simp_all add: sample_Params_def default_Params_def)
  then show ?thesis by (simp add: dram_new_def div_word_def Let_def two ch DRAM_REF_SB_def)
qed

abbreviation sample_native :: "(NativeMem, unit) Sim \<Rightarrow> bool" where
  "sample_native \<equiv> native_run sample_gz () (\<lambda>_ _. 1) True sample_Params"

theorem native_answers_find_instructions_witness:
  "\<exists>st st1 st2. sample_native st \<and> native_cores sample_gz True sample_Params st = Inr (False, st1) \<and> native_memory sample_Params st1 = Inr st2"
proof -
  obtain d where d: "dram_new sample_Params = Inr (d, sample_Params)" using sample_dram_new by blast
  let ?mm = "\<lparr>nd = d, now = 0, nrand = srand (\<lambda>_ _. 1) 1\<rparr>"
  have start: "native_start sample_Params ?mm" using d sample_native_setup by (auto simp: native_start_def)
  obtain st st1 where st: "sim_new sample_gz () (\<lambda>_ _. 1) sample_Params ?mm = Inr st" "list_all (timely (mshr_of (nest st))) (mcore st)"
    "native_cores sample_gz True sample_Params st = Inr (False, st1)"
    using sample_sim_new [of ?mm "native_ops sample_Params" 1] by (elim exE conjE) (rule that)
  have run: "sample_native st" by (rule native_run.start) (fact start st(1))+
  from native_answers_find_instructions [OF sample_sim_setup run st(2,3)] obtain st2 where "native_memory sample_Params st1 = Inr st2"
    by (elim exE conjE) (rule that)
  then show ?thesis using run st(3) by (intro exI [of _ st] exI [of _ st1] exI [of _ st2] conjI)
qed

end
