(* ===== verification/Native_Rows.thy ===== *)
theory Native_Rows
  imports Native_Sim
begin

text \<open>
  Rows of the simulator's own DRAM model: two activations of a bank are at least a row cycle apart unless a refresh
  closed the row in between; the mapping of addresses; the banks that same-bank refresh reaches.
\<close>

section \<open>Opening rows\<close>

abbreviation row_time :: "Params \<Rightarrow> nat" where
  "row_time P \<equiv> unat (P_tRAS P) + unat (P_tPRE P) + unat (P_tACT P) + unat (P_tRDRD P) + unat (DRAM_MAX_TOPEN P)"

text \<open>The open row of a bank, and the transfer of its last access that waits for the bus.\<close>

definition row_ok :: "Params \<Rightarrow> u64 \<Rightarrow> DRAM_Bank \<Rightarrow> DRAM_BusQ_Entry \<Rightarrow> bool" where
  "row_ok P cyc b e \<longleftrightarrow> row_valid b \<longrightarrow>
     unat (rowbufclose_cycle b) = unat (rowbufopen_cycle b) + unat (DRAM_MAX_TOPEN P) \<and>
     (if b_status b = DRAM_BANK_BUSY then rowbufopen_cycle b \<le> sleep_cycle b else rowbufopen_cycle b \<le> cyc) \<and>
     (bus_valid e \<longrightarrow> rowbufopen_cycle b \<le> bus_ready_time e)"

text \<open>One cycle of a bank: no activation, or one that keeps its distance from the row that was open.\<close>

definition row_kept :: "DRAM_Bank \<Rightarrow> DRAM_Bank \<Rightarrow> bool" where
  "row_kept b b' \<longleftrightarrow> s_ACT b' = s_ACT b \<and> rowbufopen_cycle b' = rowbufopen_cycle b \<and> (row_valid b' \<longrightarrow> row_valid b)"

definition spaced :: "Params \<Rightarrow> DRAM_Bank \<Rightarrow> DRAM_Bank \<Rightarrow> bool" where
  "spaced P b b' \<longleftrightarrow> row_kept b b' \<or>
     (row_valid b \<longrightarrow> unat (rowbufopen_cycle b) + unat (P_tRAS P) + unat (P_tPRE P) \<le> unat (rowbufopen_cycle b'))"

lemma row_kept_refl [simp]: "row_kept b b"
  by (simp add: row_kept_def)

lemma spaced_kept: "spaced P b b1 \<Longrightarrow> row_kept b1 b' \<Longrightarrow> spaced P b b'"
  and kept_spaced: "row_kept b b1 \<Longrightarrow> row_valid b1 = row_valid b \<Longrightarrow> spaced P b1 b' \<Longrightarrow> spaced P b b'"
  by (auto simp: spaced_def row_kept_def)

lemma open_row_times:
  assumes "open_row P cyc row b = (delay, act, b')" and "row_ok P cyc b e" and "b_status b = DRAM_BANK_READY"
    and "P_tRAS P \<le> DRAM_MAX_TOPEN P" and "unat cyc + row_time P < 2 ^ 64"
  shows "unat (rowbufclose_cycle b') = unat (rowbufopen_cycle b') + unat (DRAM_MAX_TOPEN P) \<and> row_valid b' \<and>
    unat (rowbufopen_cycle b') \<le> unat cyc + unat delay \<and> unat delay \<le> unat (P_tRAS P) + unat (P_tPRE P) + unat (P_tACT P) \<and>
    (act \<longrightarrow> row_valid b \<longrightarrow> unat (rowbufopen_cycle b) + unat (P_tRAS P) + unat (P_tPRE P) \<le> unat (rowbufopen_cycle b')) \<and>
    (\<not> act \<longrightarrow> row_valid b \<and> rowbufopen_cycle b' = rowbufopen_cycle b) \<and> s_ACT b' = s_ACT b"
proof -
  have add: "unat (x + y) = unat x + unat y" if "unat x + unat y < 2 ^ 64" for x y :: u64
    using that unat_add_lem [of x y] by simp
  have max: "unat (P_tRAS P) \<le> unat (DRAM_MAX_TOPEN P)" using assms(4) by (simp add: word_le_nat_alt)
  have valid: "unat (rowbufclose_cycle b) = unat (rowbufopen_cycle b) + unat (DRAM_MAX_TOPEN P)" "unat (rowbufopen_cycle b) \<le> unat cyc" if "row_valid b"
    using assms(2,3) that by (auto simp: row_ok_def word_le_nat_alt)
  consider (closed) "row_valid b" "rowbufclose_cycle b \<le> cyc" | (empty) "\<not> row_valid b"
    | (conflict) "row_valid b" "\<not> rowbufclose_cycle b \<le> cyc" "open_row_id b \<noteq> row"
    | (hit) "row_valid b" "\<not> rowbufclose_cycle b \<le> cyc" "open_row_id b = row" by blast
  then show ?thesis
  proof cases
    case closed
    define pre where "pre = (if cyc - rowbufclose_cycle b < P_tPRE P then P_tPRE P - (cyc - rowbufclose_cycle b) else 0)"
    have pre: "unat (rowbufclose_cycle b) + unat (P_tPRE P) \<le> unat cyc + unat pre" "unat pre \<le> unat (P_tPRE P)"
      using closed(2) by (auto simp: pre_def unat_sub word_less_nat_alt word_le_nat_alt)
    have "unat (cyc + pre) = unat cyc + unat pre" "unat (pre + P_tACT P) = unat pre + unat (P_tACT P)"
      "unat (cyc + pre + DRAM_MAX_TOPEN P) = unat (cyc + pre) + unat (DRAM_MAX_TOPEN P)"
      using pre assms(5) by (simp_all add: add)
    then show ?thesis
      using assms(1) closed pre valid(1) max by (auto simp: open_row_def Let_def pre_def [symmetric])
  next
    case empty
    have "unat (cyc + DRAM_MAX_TOPEN P) = unat cyc + unat (DRAM_MAX_TOPEN P)" using assms(5) by (intro add) simp
    then show ?thesis using assms(1) empty by (auto simp: open_row_def)
  next
    case conflict
    define ras where "ras = (if cyc - rowbufopen_cycle b < P_tRAS P then P_tRAS P - (cyc - rowbufopen_cycle b) else 0)"
    have ras: "unat (rowbufopen_cycle b) + unat (P_tRAS P) \<le> unat cyc + unat ras" "unat ras \<le> unat (P_tRAS P)"
      using valid(2) [OF conflict(1)] by (auto simp: ras_def unat_sub word_less_nat_alt word_le_nat_alt)
    have "unat (cyc + ras) = unat cyc + unat ras" "unat (ras + P_tPRE P) = unat ras + unat (P_tPRE P)"
      "unat (cyc + ras + P_tPRE P) = unat (cyc + ras) + unat (P_tPRE P)" "unat (ras + P_tPRE P + P_tACT P) = unat (ras + P_tPRE P) + unat (P_tACT P)"
      "unat (cyc + ras + P_tPRE P + DRAM_MAX_TOPEN P) = unat (cyc + ras + P_tPRE P) + unat (DRAM_MAX_TOPEN P)"
      using ras assms(5) by (simp_all add: add)
    then show ?thesis using assms(1) conflict ras by (auto simp: open_row_def Let_def ras_def [symmetric])
  next
    case hit
    then show ?thesis using assms(1) valid by (auto simp: open_row_def)
  qed
qed

section \<open>Cycles of banks\<close>

text \<open>The time that is left, and the parameters.\<close>

definition rows_in_time :: "Params \<Rightarrow> u64 \<Rightarrow> bool" where
  "rows_in_time P cyc \<longleftrightarrow> P_tRAS P \<le> DRAM_MAX_TOPEN P \<and> unat cyc + row_time P + 1 < 2 ^ 64"

lemma service_rows:
  assumes "dram_bank_service P cyc t row b ch r = Inr (dl, b1, ch1, r1)" and "is_access t" and "row_ok P cyc b e" and "rows_in_time P cyc"
  shows "b_status b1 = DRAM_BANK_BUSY \<and> (bus_ready_time e' = cyc + dl \<longrightarrow> row_ok P cyc b1 e') \<and> spaced P b b1"
proof -
  obtain dl' act b0 where o: "open_row P cyc row b = (dl', act, b0)" by (cases "open_row P cyc row b") auto
  have ready: "b_status b = DRAM_BANK_READY" using assms(1) by (cases "b_status b") (auto simp: dram_bank_service_def require_def)
  have b0: "unat (rowbufclose_cycle b0) = unat (rowbufopen_cycle b0) + unat (DRAM_MAX_TOPEN P)" "row_valid b0"
    "unat (rowbufopen_cycle b0) \<le> unat cyc + unat dl'" "unat dl' \<le> unat (P_tRAS P) + unat (P_tPRE P) + unat (P_tACT P)"
    "act \<longrightarrow> row_valid b \<longrightarrow> unat (rowbufopen_cycle b) + unat (P_tRAS P) + unat (P_tPRE P) \<le> unat (rowbufopen_cycle b0)"
    "\<not> act \<longrightarrow> row_valid b \<and> rowbufopen_cycle b0 = rowbufopen_cycle b" "s_ACT b0 = s_ACT b"
    using open_row_times [OF o assms(3) ready] assms(4) by (auto simp: rows_in_time_def)
  have time: "unat (cyc + dl') = unat cyc + unat dl'" using b0(4) assms(4) unat_add_lem [of cyc dl'] by (simp add: rows_in_time_def)
  have "unat (cyc + dl' + P_tRDRD P) = unat cyc + unat dl' + unat (P_tRDRD P)"
    using b0(4) assms(4) time unat_add_lem [of "cyc + dl'" "P_tRDRD P"] by (simp add: rows_in_time_def)
  then have sleep: "rowbufopen_cycle b0 \<le> cyc + dl' + P_tRDRD P" "rowbufopen_cycle b0 \<le> cyc + dl'" using b0(3) time by (simp_all add: word_le_nat_alt)
  let ?b = "b0\<lparr>b_status := DRAM_BANK_BUSY, sleep_cycle := cyc + dl' + P_tRDRD P\<rparr>"
  have para: "s_ACT (fst (para_drfm P x r)) = s_ACT x \<and> rowbufopen_cycle (fst (para_drfm P x r)) = rowbufopen_cycle x \<and> b_status (fst (para_drfm P x r)) = b_status x \<and>
      (row_valid (fst (para_drfm P x r)) \<longrightarrow> fst (para_drfm P x r) = x)" for x
    by (auto simp: para_drfm_def Let_def split: prod.splits)
  obtain p r2 where pa: "para_drfm P (?b\<lparr>s_ACT := s_ACT ?b + 1, RAA := RAA ?b + 1\<rparr>) r = (p, r2)" by fastforce
  have "dl = dl' \<and> (if act then b1 = fst (para_drfm P (?b\<lparr>s_ACT := s_ACT ?b + 1, RAA := RAA ?b + 1\<rparr>) r) else b1 = ?b)"
    using assms(1,2) o pa by (auto simp: dram_bank_service_def Let_def bind_res_eq_Inr split: if_splits)
  then show ?thesis
    using b0 sleep para [of "?b\<lparr>s_ACT := s_ACT ?b + 1, RAA := RAA ?b + 1\<rparr>"] by (auto simp: row_ok_def spaced_def row_kept_def split: if_splits)
qed

text \<open>A turn of a bank changes its own row and bus slot only.\<close>

definition bank_turn :: "Params \<Rightarrow> u64 \<Rightarrow> nat \<Rightarrow> DRAM_Channel \<Rightarrow> DRAM_Channel \<Rightarrow> bool" where
  "bank_turn P cyc i ch ch' \<longleftrightarrow> num_banks ch' = num_banks ch \<and> (\<exists>b e. bank_list ch' = (bank_list ch)[i := b] \<and> dbusq ch' = (dbusq ch)[i := e] \<and>
     row_ok P cyc b e \<and> spaced P (bank_list ch ! i) b)"

lemma serve_rows:
  assumes "bank_serve P cyc (int i) b (ch, r) = Inr (ch', r')" and "chan_wf P ch" and "i < nbanks ch" and "bank_list ch ! i = b"
    and "row_ok P cyc b (dbusq ch ! i)" and "rows_in_time P cyc"
  shows "bank_turn P cyc i ch ch'"
proof -
  have wf: "nbanks ch \<le> 32" "i < length (bank_list ch)" "i < length (dbusq ch)" "bankid b = word_of_nat i" "list_all entry_ok (bankq b)" "rfm_ok P ch"
    using assms(2,3,4) by (auto simp: chan_wf_def bank_ok_def NUM_DRAM_BUSQ_ENTRIES_def)
  obtain k dl b1 ch1 r1 where k: "k < length (bankq b)"
    and s: "dram_bank_service P cyc (reqtype (bankq b ! k)) (rowid (bankq b ! k)) b ch r = Inr (dl, b1, ch1, r1)"
    and rest: "bind_res (dram_channel_insert_rdwrq (bankid b1) (reqtype (bankq b ! k)) (lineaddr (bankq b ! k)) (cyc + dl) ch1) (\<lambda>ch.
        bind_res (dram_bank_remove k (b1\<lparr>bankq := (bankq b1)[k := (bankq b ! k)\<lparr>q_status := DRAM_BANKQ_ENTRY_DONE, done_time := cyc + dl, service_delay := dl,
          wait_delay := cyc - q_birth_time (bankq b ! k)\<rparr>], s_service_delay := s_service_delay b1 + dl,
          s_wait_delay := s_wait_delay b1 + (cyc - q_birth_time (bankq b ! k))\<rparr>)) (\<lambda>b.
        bind_res (vec_set (bank_list ch) (int i) b) (\<lambda>bs. Inr (ch\<lparr>bank_list := bs\<rparr>, r1)))) = Inr (ch', r')"
    using assms(1) wf(5)
    by (auto simp: bank_serve_def bind_res_eq_Inr vec_get_Inr Let_def list_all_length entry_ok_def bind_res_assoc split: if_splits)
  have e: "is_access (reqtype (bankq b ! k))" using wf(5) k by (auto simp: list_all_length entry_ok_def)
  have ready: "b_status b = DRAM_BANK_READY" using s by (cases "b_status b") (auto simp: dram_bank_service_def require_def)
  have kept: "bank_kept b b1" "chan_kept ch ch1"
    using service_ok [OF wf(6,4) assms(3) wf(1) ready, of cyc "reqtype (bankq b ! k)" "rowid (bankq b ! k)" r] s by auto
  have u: "uint (bankid b1) = int i" using kept(1) wf(1,4) assms(3) uint_bank [of i] by (simp add: bank_kept_def)
  obtain b2 w where new: "bank_list ch' = (bank_list ch)[i := b2]" "dbusq ch' = (dbusq ch)[i := w]" "num_banks ch' = num_banks ch" "bus_ready_time w = cyc + dl"
    "row_valid b2 = row_valid b1" "s_ACT b2 = s_ACT b1" "rowbufopen_cycle b2 = rowbufopen_cycle b1" "rowbufclose_cycle b2 = rowbufclose_cycle b1"
    "sleep_cycle b2 = sleep_cycle b1" "b_status b2 = b_status b1"
    using rest kept(2) u by (auto simp: dram_channel_insert_rdwrq_def bind_res_eq_Inr vec_get_Inr vec_set_Inr dram_bank_remove_def chan_kept_def)
  have "row_ok P cyc b2 w \<and> spaced P b b2"
    using service_rows [OF s e assms(5,6), of w] new by (auto simp: row_ok_def spaced_def row_kept_def)
  then show ?thesis using new assms(4) by (auto simp: bank_turn_def)
qed

lemma bank_cycle_rows:
  assumes "dram_bank_cycle P cyc (int i) (ch, r) = Inr (ch', r')" and "chan_wf P ch" and "i < nbanks ch"
    and "row_ok P cyc (bank_list ch ! i) (dbusq ch ! i)" and "rows_in_time P cyc"
  shows "bank_turn P cyc i ch ch'"
proof -
  let ?b = "bank_list ch ! i"
  let ?r = "?b\<lparr>b_status := DRAM_BANK_READY\<rparr>"
  let ?ch = "ch\<lparr>bank_list := (bank_list ch)[i := ?r]\<rparr>"
  have len: "i < length (bank_list ch)" "i < length (dbusq ch)" using assms(2,3) by (auto simp: chan_wf_def NUM_DRAM_BUSQ_ENTRIES_def)
  have same: "bank_turn P cyc i ch ch" if "ch' = ch"
    using assms(4) len unfolding bank_turn_def by (intro conjI exI [of _ ?b] exI [of _ "dbusq ch ! i"]) (simp_all add: spaced_def)
  show ?thesis
  proof (cases "b_status ?b = DRAM_BANK_BUSY \<and> \<not> sleep_cycle ?b < cyc")
    case True
    then show ?thesis using assms(1) len same by (auto simp: dram_bank_cycle_def vec_get_def)
  next
    case False
    have ok: "row_ok P cyc ?r (dbusq ch ! i)" using assms(4) False by (auto simp: row_ok_def split: if_splits)
    have wf: "chan_wf P ?ch" using chan_step_bank [OF assms(2,3), of ?r] by (simp add: bank_kept_def chan_step_def)
    have quiet: "bank_turn P cyc i ch ?ch"
      using ok len unfolding bank_turn_def by (intro conjI exI [of _ ?r] exI [of _ "dbusq ch ! i"]) (simp_all add: spaced_def row_kept_def)
    have serve: "bank_turn P cyc i ch ch'" if "bank_serve P cyc (int i) ?r (?ch, r) = Inr (ch', r')"
    proof -
      have "bank_turn P cyc i ?ch ch'" using serve_rows [OF that wf] assms(3,5) ok len by simp
      moreover have "spaced P ?r b = spaced P ?b b" for b by (simp add: spaced_def row_kept_def)
      ultimately show ?thesis using len by (auto simp: bank_turn_def)
    qed
    show ?thesis
      using assms(1) False len serve quiet by (auto simp: dram_bank_cycle_def vec_get_def vec_set_def Let_def bind_res_eq_Inr split: if_splits)
  qed
qed

section \<open>Cycles of channels\<close>

definition rows_ok :: "Params \<Rightarrow> u64 \<Rightarrow> DRAM_Channel \<Rightarrow> bool" where
  "rows_ok P cyc ch \<longleftrightarrow> (\<forall>j < nbanks ch. row_ok P cyc (bank_list ch ! j) (dbusq ch ! j))"

text \<open>Nothing is activated.\<close>

definition rows_quiet :: "DRAM_Channel \<Rightarrow> DRAM_Channel \<Rightarrow> bool" where
  "rows_quiet ch ch' \<longleftrightarrow> num_banks ch' = num_banks ch \<and> (\<forall>j < nbanks ch. row_kept (bank_list ch ! j) (bank_list ch' ! j))"

definition rows_spaced :: "Params \<Rightarrow> DRAM_Channel \<Rightarrow> DRAM_Channel \<Rightarrow> bool" where
  "rows_spaced P ch ch' \<longleftrightarrow> num_banks ch' = num_banks ch \<and> (\<forall>j < nbanks ch. spaced P (bank_list ch ! j) (bank_list ch' ! j))"

text \<open>A transfer on the bus frees the slot of a bank whose row is open by then.\<close>

lemma transfer_rows:
  assumes "bus_transfer P cyc (int i) (dbusq ch ! i) ch = Inr (es, ch')" and "rows_ok P cyc ch" and "chan_wf P ch" and "i < nbanks ch"
    and "bus_valid (dbusq ch ! i)" and "bus_ready_time (dbusq ch ! i) \<le> cyc" and "rows_in_time P cyc"
  shows "rows_ok P cyc ch' \<and> num_banks ch' = num_banks ch \<and> (\<forall>j < nbanks ch. row_kept (bank_list ch ! j) (bank_list ch' ! j) \<and> row_valid (bank_list ch' ! j) = row_valid (bank_list ch ! j))"
proof -
  let ?b = "bank_list ch ! i"
  let ?b' = "?b\<lparr>sleep_cycle := cyc + P_tRDRD P\<rparr>" and ?e' = "(dbusq ch ! i)\<lparr>bus_valid := False\<rparr>"
  have len: "i < length (bank_list ch)" "i < length (dbusq ch)" "length (bank_list ch) = nbanks ch" "nbanks ch \<le> length (dbusq ch)"
    using assms(3,4) by (auto simp: chan_wf_def NUM_DRAM_BUSQ_ENTRIES_def)
  have ch': "bank_list ch' = (bank_list ch)[i := ?b']" "dbusq ch' = (dbusq ch)[i := ?e']" "num_banks ch' = num_banks ch"
    using assms(1) by (auto simp: bus_transfer_def bind_res_eq_Inr vec_set_Inr vec_upd_Inr)
  have old: "row_ok P cyc ?b (dbusq ch ! i)" using assms(2,4) by (simp add: rows_ok_def)
  have "unat (cyc + P_tRDRD P) = unat cyc + unat (P_tRDRD P)" using assms(7) unat_add_lem [of cyc "P_tRDRD P"] by (simp add: rows_in_time_def)
  then have late: "cyc \<le> cyc + P_tRDRD P" by (simp add: word_le_nat_alt)
  have "rowbufopen_cycle ?b \<le> cyc" if "row_valid ?b" using old assms(5,6) that by (auto simp: row_ok_def)
  then have new: "row_ok P cyc ?b' ?e'" using old late by (auto simp: row_ok_def split: if_splits)
  have "rows_ok P cyc ch'"
    unfolding rows_ok_def
  proof (intro allI impI)
    fix j assume "j < nbanks ch'"
    then show "row_ok P cyc (bank_list ch' ! j) (dbusq ch' ! j)" using new assms(2) ch' len by (cases "j = i") (auto simp: rows_ok_def)
  qed
  moreover have "row_kept (bank_list ch ! j) (bank_list ch' ! j) \<and> row_valid (bank_list ch' ! j) = row_valid (bank_list ch ! j)" for j
    using ch' len by (cases "j = i") (auto simp: row_kept_def)
  ultimately show ?thesis using ch'(3) by simp
qed

definition bus_turn :: "Params \<Rightarrow> u64 \<Rightarrow> DRAM_Channel \<Rightarrow> DRAM_Channel \<Rightarrow> bool" where
  "bus_turn P cyc ch ch' \<longleftrightarrow> rows_ok P cyc ch' \<and> num_banks ch' = num_banks ch \<and>
     (\<forall>j < nbanks ch. row_kept (bank_list ch ! j) (bank_list ch' ! j) \<and> row_valid (bank_list ch' ! j) = row_valid (bank_list ch ! j))"

lemma rdwr_scan_rows:
  assumes "rdwr_scan P cyc is ch = Inr (es, ch')" and "rows_ok P cyc ch" and "chan_wf P ch" and "rows_in_time P cyc"
    and "\<And>i. i \<in> set is \<Longrightarrow> 0 \<le> i \<and> nat i < nbanks ch"
  shows "bus_turn P cyc ch ch'"
  using assms(1,5)
proof (induction "is")
  case Nil
  then show ?case using assms(2) by (simp add: bus_turn_def)
next
  case (Cons i "is")
  have i: "0 \<le> i" "nat i < nbanks ch" using Cons.prems(2) [of i] by auto
  have tok: "rows_ok P cyc (ch\<lparr>rdwr_prev_time := x\<rparr>)" "chan_wf P (ch\<lparr>rdwr_prev_time := x\<rparr>)" for x
    using assms(2,3) by (simp_all add: rows_ok_def chan_wf_def rfm_ok_def)
  have go: "bus_turn P cyc ch ch'" if "bus_transfer P cyc i (dbusq ch ! nat i) (ch\<lparr>rdwr_prev_time := x\<rparr>) = Inr (es, ch')"
    "bus_valid (dbusq ch ! nat i)" "bus_ready_time (dbusq ch ! nat i) \<le> cyc" for x
    using transfer_rows [of P cyc "nat i" "ch\<lparr>rdwr_prev_time := x\<rparr>" es ch'] that tok assms(4) i by (simp add: bus_turn_def)
  have idle: "bus_turn P cyc ch ch" using assms(2) by (simp add: bus_turn_def)
  show ?case
    using Cons.prems(1) Cons.IH Cons.prems(2) go idle i
    by (auto simp: bind_res_eq_Inr vec_get_Inr dram_channel_get_rdwr_token_def Let_def split: if_splits)
qed

text \<open>The turns of all banks.\<close>

lemma bank_turns_rows:
  assumes "fold_res (dram_bank_cycle P cyc) (map int is) (ch, r) = Inr (ch', r')" and "rows_ok P cyc ch" and "chan_wf P ch" and "sched_ok P" and "rows_in_time P cyc"
    and "distinct is" and "\<And>i. i \<in> set is \<Longrightarrow> i < nbanks ch"
  shows "rows_ok P cyc ch' \<and> chan_wf P ch' \<and> num_banks ch' = num_banks ch \<and>
    (\<forall>j < nbanks ch. if j \<in> set is then spaced P (bank_list ch ! j) (bank_list ch' ! j) else bank_list ch' ! j = bank_list ch ! j)"
  using assms(1-3,6,7)
proof (induction "is" arbitrary: ch r)
  case (Cons i "is")
  obtain ch1 r1 where 1: "dram_bank_cycle P cyc (int i) (ch, r) = Inr (ch1, r1)" "fold_res (dram_bank_cycle P cyc) (map int is) (ch1, r1) = Inr (ch', r')"
    using Cons.prems(1) by (auto simp: bind_res_eq_Inr)
  have i: "i < nbanks ch" using Cons.prems(5) by simp
  have wf1: "chan_wf P ch1" "num_banks ch1 = num_banks ch" using bank_cycle_ok [OF Cons.prems(3) assms(4) i, of cyc r] 1(1) by (auto simp: chan_step_def)
  have "bank_turn P cyc i ch ch1" using bank_cycle_rows [OF 1(1) Cons.prems(3) i _ assms(5)] Cons.prems(2) i by (simp add: rows_ok_def)
  then obtain b e where t: "bank_list ch1 = (bank_list ch)[i := b]" "dbusq ch1 = (dbusq ch)[i := e]" "row_ok P cyc b e" "spaced P (bank_list ch ! i) b"
    by (auto simp: bank_turn_def)
  have len: "i < length (bank_list ch)" "i < length (dbusq ch)" "nbanks ch \<le> length (dbusq ch)" "length (bank_list ch) = nbanks ch"
    using Cons.prems(3) i by (auto simp: chan_wf_def NUM_DRAM_BUSQ_ENTRIES_def)
  have rows1: "rows_ok P cyc ch1"
    unfolding rows_ok_def
  proof (intro allI impI)
    fix j assume "j < nbanks ch1"
    then show "row_ok P cyc (bank_list ch1 ! j) (dbusq ch1 ! j)" using t Cons.prems(2) len wf1(2) by (cases "j = i") (auto simp: rows_ok_def)
  qed
  have IH: "rows_ok P cyc ch' \<and> chan_wf P ch' \<and> num_banks ch' = num_banks ch1 \<and>
      (\<forall>j < nbanks ch1. if j \<in> set is then spaced P (bank_list ch1 ! j) (bank_list ch' ! j) else bank_list ch' ! j = bank_list ch1 ! j)"
    by (rule Cons.IH [OF 1(2) rows1 wf1(1)]) (use Cons.prems(4,5) wf1(2) in auto)
  have "if j \<in> set (i # is) then spaced P (bank_list ch ! j) (bank_list ch' ! j) else bank_list ch' ! j = bank_list ch ! j" if "j < nbanks ch" for j
  proof -
    have "if j \<in> set is then spaced P (bank_list ch1 ! j) (bank_list ch' ! j) else bank_list ch' ! j = bank_list ch1 ! j" using IH that wf1(2) by simp
    then show ?thesis using t(1,4) len(1) Cons.prems(4) by (cases "j = i") (auto split: if_splits)
  qed
  then show ?case using IH wf1(2) by simp
qed simp

text \<open>Refreshes and refresh management close rows.\<close>

lemma on_banks_rows:
  assumes "on_banks cyc is f ch = Inr ch'" and "rows_ok P k ch" and "nbanks ch = length (bank_list ch)"
    and "\<And>m b. \<not> row_valid (f m b) \<and> s_ACT (f m b) = s_ACT b \<and> rowbufopen_cycle (f m b) = rowbufopen_cycle b"
  shows "rows_ok P k ch' \<and> rows_quiet ch ch' \<and> dbusq ch' = dbusq ch"
proof -
  obtain m bs where bs: "fold_res (\<lambda>i bs. vec_upd bs i (f m)) is (bank_list ch) = Inr bs" "ch' = ch\<lparr>bank_list := bs\<rparr>"
    using assms(1) by (auto simp: on_banks_def bind_res_eq_Inr)
  have "length bs = length xs \<and> (\<forall>j < length xs. row_kept (xs ! j) (bs ! j) \<and> (bs ! j = xs ! j \<or> \<not> row_valid (bs ! j)))"
    if "fold_res (\<lambda>i bs. vec_upd bs i (f m)) is xs = Inr bs" for "is" xs
    using that
  proof (induction "is" arbitrary: xs)
    case (Cons i "is")
    let ?ys = "xs[nat i := f m (xs ! nat i)]"
    have i: "0 \<le> i" "i < int (length xs)" "fold_res (\<lambda>i bs. vec_upd bs i (f m)) is ?ys = Inr bs" using Cons.prems by (auto simp: bind_res_eq_Inr vec_upd_Inr)
    note IH = Cons.IH [OF i(3)]
    have "row_kept (xs ! j) (bs ! j) \<and> (bs ! j = xs ! j \<or> \<not> row_valid (bs ! j))" if "j < length xs" for j
    proof (cases "j = nat i")
      case True
      have "row_kept (f m (xs ! j)) (bs ! j)" using IH i True that by auto
      then show ?thesis using assms(4) [of m "xs ! j"] by (auto simp: row_kept_def)
    next
      case False
      then show ?thesis using IH that by auto
    qed
    then show ?case using IH by simp
  qed simp
  from this [OF bs(1)] show ?thesis
    using assms(2,3) bs(2) by (auto simp: rows_ok_def rows_quiet_def row_ok_def)
qed

lemma closing_ops:
  "\<not> row_valid (dram_bank_refresh P m b) \<and> s_ACT (dram_bank_refresh P m b) = s_ACT b \<and> rowbufopen_cycle (dram_bank_refresh P m b) = rowbufopen_cycle b"
  "\<not> row_valid (dram_bank_rfmab P m b) \<and> s_ACT (dram_bank_rfmab P m b) = s_ACT b \<and> rowbufopen_cycle (dram_bank_rfmab P m b) = rowbufopen_cycle b"
  "\<not> row_valid (dram_bank_rfmsb P m b) \<and> s_ACT (dram_bank_rfmsb P m b) = s_ACT b \<and> rowbufopen_cycle (dram_bank_rfmsb P m b) = rowbufopen_cycle b"
  by (simp_all add: dram_bank_refresh_def dram_bank_rfmab_def dram_bank_rfmsb_def)

lemma rows_spaced_quiet: "rows_spaced P ch ch1 \<Longrightarrow> rows_quiet ch1 ch' \<Longrightarrow> rows_spaced P ch ch'"
  by (auto simp: rows_spaced_def rows_quiet_def intro: spaced_kept)

lemma banks_upto: "[0..uint n - 1] = map int [0..<unat n]"
proof (rule nth_equalityI)
  fix i assume "i < length [0..uint n - 1]"
  then have "i < unat n" "int i \<le> uint n - 1" by (simp_all add: zless_nat_eq_int_zless flip: nat_uint_eq)
  then show "[0..uint n - 1] ! i = map int [0..<unat n] ! i" by (simp add: nth_upto)
qed simp

lemma channel_cycle_rows:
  assumes "dram_channel_cycle P cyc (ch, r) = Inr (es, ch', r')" and "rows_ok P cyc ch" and "chan_wf P ch" and "sched_ok P" and "rows_in_time P cyc"
  shows "rows_ok P cyc ch' \<and> rows_spaced P ch ch'"
proof -
  obtain ch1 ch2 r2 ch3 where 1: "dram_channel_schedule_rdwrq P cyc ch = Inr (es, ch1)"
    and 2: "fold_res (dram_bank_cycle P cyc) [0..uint (num_banks ch1) - 1] (ch1, r) = Inr (ch2, r2)"
    and 3: "(if RFMAB ch2 then dram_channel_rfmab P cyc (ch2\<lparr>RFMAB := False, s_RFM := s_RFM ch2 + 1\<rparr>) else Inr ch2) = Inr ch3"
    and 4: "(if RFMSB ch3 \<noteq> 0 then dram_channel_rfmsb P cyc (ch3\<lparr>s_RFM := s_RFM ch3 + 1\<rparr>) else Inr ch3) = Inr ch'"
    using assms(1) by (auto simp: dram_channel_cycle_def bind_res_eq_Inr)
  have n: "0 < nbanks ch" "nbanks ch \<le> 32" using assms(3) by (auto simp: chan_wf_def)
  have "rdwr_scan P cyc (bus_order cyc (num_banks ch)) ch = Inr (es, ch1)" using 1 by (simp add: dram_channel_schedule_rdwrq_def bind_res_eq_Inr require_def split: if_splits)
  from rdwr_scan_rows [OF this assms(2,3,5) bus_order_range [OF n]] have t1: "bus_turn P cyc ch ch1" .
  have wf1: "chan_wf P ch1" using schedule_rdwrq_ok [OF assms(3), of cyc] 1 by (auto simp: bus_step_def)
  have t2: "rows_ok P cyc ch2 \<and> chan_wf P ch2 \<and> num_banks ch2 = num_banks ch1 \<and>
      (\<forall>j < nbanks ch1. if j \<in> set [0..<nbanks ch1] then spaced P (bank_list ch1 ! j) (bank_list ch2 ! j) else bank_list ch2 ! j = bank_list ch1 ! j)"
    using 2 t1 by (intro bank_turns_rows [OF _ _ wf1 assms(4,5)]) (simp_all add: banks_upto bus_turn_def)
  have s2: "rows_spaced P ch ch2" using t1 t2 by (auto simp: rows_spaced_def bus_turn_def intro: kept_spaced)
  have t3: "rows_ok P cyc ch3 \<and> rows_quiet ch2 ch3 \<and> chan_wf P ch3"
  proof (cases "RFMAB ch2")
    case True
    let ?c = "ch2\<lparr>RFMAB := False, s_RFM := s_RFM ch2 + 1\<rparr>"
    have c: "chan_wf P ?c" "rows_ok P cyc ?c" using t2 chan_wf_more by (auto simp: rows_ok_def)
    have "on_banks cyc [0..uint (num_banks ?c) - 1] (dram_bank_rfmab P) ?c = Inr ch3" using 3 True by (simp add: dram_channel_rfmab_def)
    from on_banks_rows [OF this c(2) _ closing_ops(2)] have "rows_ok P cyc ch3 \<and> rows_quiet ?c ch3" using c(1) by (simp add: chan_wf_def)
    moreover have "chan_wf P ch3" using rfmab_ok [OF c(1), of cyc] 3 True by (simp add: chan_step_def)
    ultimately show ?thesis by (simp add: rows_quiet_def)
  qed (use 3 t2 in \<open>simp add: rows_quiet_def\<close>)
  have t4: "rows_ok P cyc ch' \<and> rows_quiet ch3 ch'"
  proof (cases "RFMSB ch3 = 0")
    case False
    let ?c = "ch3\<lparr>s_RFM := s_RFM ch3 + 1\<rparr>"
    obtain x "is" where on: "on_banks cyc is (dram_bank_rfmsb P) (?c\<lparr>RFMSB := x\<rparr>) = Inr ch'" using 4 False by (auto simp: dram_channel_rfmsb_def Let_def)
    have "rows_ok P cyc (?c\<lparr>RFMSB := x\<rparr>)" "nbanks (?c\<lparr>RFMSB := x\<rparr>) = length (bank_list (?c\<lparr>RFMSB := x\<rparr>))"
      using t3 by (simp_all add: rows_ok_def chan_wf_def)
    from on_banks_rows [OF on this closing_ops(3)] show ?thesis by (simp add: rows_quiet_def)
  qed (use 4 t3 in \<open>simp add: rows_quiet_def\<close>)
  show ?thesis using t3 t4 s2 rows_spaced_quiet by blast
qed

section \<open>Runs of the memory\<close>

lemma cycle_channels_rows:
  assumes "cycle_channels P cyc chs r = Inr (es, chs', r')" and "list_all (rows_ok P cyc) chs" and "list_all (chan_wf P) chs" and "sched_ok P" and "rows_in_time P cyc"
  shows "list_all (rows_ok P cyc) chs' \<and> list_all2 (rows_spaced P) chs chs' \<and> list_all (chan_wf P) chs'"
  using assms(1-3)
proof (induction chs arbitrary: r es chs')
  case (Cons ch chs)
  obtain es1 ch1 r1 es2 chs2 where 1: "dram_channel_cycle P cyc (ch, r) = Inr (es1, ch1, r1)" "cycle_channels P cyc chs r1 = Inr (es2, chs2, r')" "chs' = ch1 # chs2"
    using Cons.prems(1) by (auto simp: bind_res_eq_Inr)
  have "rows_ok P cyc ch1 \<and> rows_spaced P ch ch1" using channel_cycle_rows [OF 1(1) _ _ assms(4,5)] Cons.prems(2,3) by simp
  moreover have "chan_wf P ch1" using channel_cycle_ok [OF _ assms(4), of ch cyc r] Cons.prems(3) 1(1) by auto
  ultimately show ?case using Cons.IH [OF 1(2)] Cons.prems(2,3) 1(3) by simp
qed simp

lemma refresh_channels_rows:
  assumes "refresh_channels P cyc is chs = Inr chs'" and "list_all (rows_ok P k) chs" and "list_all (chan_wf P) chs"
  shows "list_all (rows_ok P k) chs' \<and> list_all2 rows_quiet chs chs'"
  using assms
proof (induction chs arbitrary: chs')
  case (Cons ch chs)
  obtain ch1 chs2 where 1: "on_banks cyc is (dram_bank_refresh P) ch = Inr ch1" "refresh_channels P cyc is chs = Inr chs2" "chs' = ch1 # chs2"
    using Cons.prems(1) by (auto simp: bind_res_eq_Inr)
  have c: "rows_ok P k ch" "nbanks ch = length (bank_list ch)" using Cons.prems(2,3) by (simp_all add: chan_wf_def)
  have "rows_ok P k ch1 \<and> rows_quiet ch ch1" using on_banks_rows [OF 1(1) c closing_ops(1)] by simp
  then show ?case using Cons.IH [OF 1(2)] Cons.prems(2,3) 1(3) by simp
qed simp

definition dram_rows :: "Params \<Rightarrow> u64 \<Rightarrow> DRAM \<Rightarrow> bool" where
  "dram_rows P cyc d \<longleftrightarrow> list_all (rows_ok P cyc) (dram_channels d)"

lemma quiet_refl: "list_all2 rows_quiet chs chs"
  by (rule list_all2_refl) (simp add: rows_quiet_def)

lemma dram_refresh_rows:
  assumes "dram_refresh P cyc d = Inr d'" and "list_all (rows_ok P k) (dram_channels d)" and "list_all (chan_wf P) (dram_channels d)"
  shows "list_all (rows_ok P k) (dram_channels d') \<and> list_all2 rows_quiet (dram_channels d) (dram_channels d')"
proof -
  have "(\<exists>is. refresh_channels P cyc is (dram_channels d) = Inr (dram_channels d')) \<or> dram_channels d' = dram_channels d"
    using assms(1) by (cases "refmode d = DRAM_REF_SB"; cases "refmode d = DRAM_REF_AB")
      (auto simp: dram_refresh_def bind_res_eq_Inr DRAM_REF_SB_def DRAM_REF_AB_def, blast+)
  then show ?thesis using refresh_channels_rows assms(2,3) quiet_refl by auto
qed

lemma spaced_quiet_channels: "list_all2 (rows_spaced P) xs ys \<Longrightarrow> list_all2 rows_quiet ys zs \<Longrightarrow> list_all2 (rows_spaced P) xs zs"
  by (rule list_all2_trans [of "rows_spaced P" rows_quiet]) (auto intro: rows_spaced_quiet)

lemma dram_cycle_rows:
  assumes "dram_cycle P cyc (d, r) = Inr (es, d', r')" and "dram_rows P cyc d" and "dram_wf P d" and "rows_in_time P cyc"
  shows "dram_rows P cyc d' \<and> list_all2 (rows_spaced P) (dram_channels d) (dram_channels d')"
proof -
  define tick where "tick chs = (let d = d\<lparr>dram_channels := chs\<rparr>
    in if P_tREFW P < cyc - last_trefw_cycle d then d\<lparr>last_trefw_cycle := cyc, num_trefw := num_trefw d + 1\<rparr> else d)" for chs
  have t: "dram_channels (tick chs) = chs" for chs by (simp add: tick_def Let_def)
  obtain chs where c: "cycle_channels P cyc (dram_channels d) r = Inr (es, chs, r')"
    and d': "(if P_tREFI P < cyc - last_trefi_cycle (tick chs) then
        dram_refresh P cyc ((tick chs)\<lparr>last_trefi_cycle := cyc, num_trefi := num_trefi (tick chs) + 1\<rparr>) else Inr (tick chs)) = Inr d'"
    using assms(1) unfolding dram_cycle_def prod.case Let_def tick_def [unfolded Let_def, symmetric] by (auto simp: bind_res_eq_Inr)
  have wf: "list_all (chan_wf P) (dram_channels d)" "sched_ok P" using assms(3) by (auto simp: dram_wf_def chan_fits_def list_all_length)
  have 1: "list_all (rows_ok P cyc) chs \<and> list_all2 (rows_spaced P) (dram_channels d) chs \<and> list_all (chan_wf P) chs"
    using cycle_channels_rows [OF c _ wf assms(4)] assms(2) by (simp add: dram_rows_def)
  have "list_all (rows_ok P cyc) (dram_channels d') \<and> list_all2 rows_quiet chs (dram_channels d')"
  proof (cases "P_tREFI P < cyc - last_trefi_cycle (tick chs)")
    case True
    then have "dram_refresh P cyc ((tick chs)\<lparr>last_trefi_cycle := cyc, num_trefi := num_trefi (tick chs) + 1\<rparr>) = Inr d'" using d' by simp
    from dram_refresh_rows [OF this, of cyc] show ?thesis using 1 by (simp add: t)
  qed (use d' 1 quiet_refl t in auto)
  then show ?thesis using 1 spaced_quiet_channels by (auto simp: dram_rows_def)
qed

lemma dram_insert_rows:
  assumes "dram_insert P cyc l w d = Inr (ok, d')" and "dram_rows P k d"
  shows "dram_rows P k d'"
proof -
  obtain i c t row ch' where ch: "dram_channel_insert cyc i t row l (dram_channels d ! c) = Inr (ok, ch')" "c < length (dram_channels d)"
    "d' = d\<lparr>dram_channels := (dram_channels d)[c := ch']\<rparr>"
    using assms(1) by (auto simp: dram_insert_def bind_res_eq_Inr vec_get_Inr vec_set_Inr uint_less_int)
  let ?ch = "dram_channels d ! c"
  obtain b where b: "dram_bank_insert cyc t row l (bank_list ?ch ! unat i) = Inr (ok, b)" "ch' = ?ch\<lparr>bank_list := (bank_list ?ch)[unat i := b]\<rparr>"
    "unat i < length (bank_list ?ch)"
    using ch(1) by (auto simp: dram_channel_insert_def bind_res_eq_Inr vec_get_Inr vec_set_Inr uint_less_int)
  have same: "row_ok P k b e = row_ok P k (bank_list ?ch ! unat i) e" for e
    using b(1) by (auto simp: dram_bank_insert_def Let_def row_ok_def bind_res_eq_Inr split: if_splits)
  have old: "rows_ok P k ?ch" using assms(2) ch(2) by (simp add: dram_rows_def list_all_length)
  have "row_ok P k (bank_list ch' ! j) (dbusq ch' ! j)" if "j < nbanks ch'" for j
    using old that same b(2,3) by (cases "j = unat i") (auto simp: rows_ok_def)
  then have "rows_ok P k ch'" by (simp add: rows_ok_def)
  then show ?thesis using assms(2) ch(2,3) by (auto simp: dram_rows_def list_all_length nth_list_update)
qed

lemma dram_rows_later:
  assumes "dram_rows P k d" and "k \<le> k'"
  shows "dram_rows P k' d"
  using assms by (auto simp: dram_rows_def rows_ok_def row_ok_def list_all_length split: if_splits intro: order_trans)

lemma dram_new_rows:
  assumes "dram_new P0 = Inr (d, P)"
  shows "dram_rows P k d"
proof -
  define I where "I = (\<lambda>(chs, _ :: Params). list_all (rows_ok P k) chs)"
  have new: "rows_ok P k ch" if "dram_channel_new P1 i n rows = Inr (ch, P2)" for P1 i n rows ch P2
    using that by (auto simp: dram_channel_new_def div_word_def bind_res_eq_Inr rows_ok_def row_ok_def require_def banks_upto dram_bank_new_def unat_widen split: if_splits)
  have "on_success (fold_res (\<lambda>ii (chs, P). bind_res (require OutOfBounds (ii < 32)) (\<lambda>_.
      bind_res (dram_channel_new P (word_of_int ii) n (ucast (rows div MEM_CHANNELS P))) (\<lambda>(ch, P). Inr (chs @ [ch], P)))) is ([], P0)) I" for n rows "is"
  proof (rule fold_res_on_success)
    fix ii s assume "I s"
    then show "on_success (case s of (chs, P) \<Rightarrow> bind_res (require OutOfBounds (ii < 32)) (\<lambda>_.
        bind_res (dram_channel_new P (word_of_int ii) n (ucast (rows div MEM_CHANNELS P))) (\<lambda>(ch, P). Inr (chs @ [ch], P)))) I"
      using new by (cases s) (auto simp: on_success_iff bind_res_eq_Inr I_def)
  qed (simp add: I_def)
  then show ?thesis
    using assms by (auto simp: dram_new_def Let_def bind_res_eq_Inr I_def dram_rows_def on_success_iff) blast
qed

text \<open>Runs in which the cycles stay clear of the end of the 64-bit counter.\<close>

abbreviation native_mem_run :: "Params \<Rightarrow> (u64 \<times> bool) multiset \<Rightarrow> (u64 \<times> bool) multiset \<Rightarrow> NativeMem \<Rightarrow> bool" where
  "native_mem_run P \<equiv> mem_run (native_start P) (native_add P) (\<lambda>m. rows_in_time P (now m)) (native_tick P)"

lemma native_mem_run_rows:
  assumes "native_mem_run P reqs ans m"
  shows "dram_wf P (nd m) \<and> dram_rows P (now m) (nd m)"
  using assms
proof induction
  case (start m)
  then obtain P0 where P0: "native_setup P0" "dram_new P0 = Inr (nd m, P)" by (auto simp: native_start_def)
  then show ?case using dram_new_ok [of P0] dram_new_rows by (auto simp: on_success_iff)
next
  case (request reqs ans m a w ok m')
  then show ?case using native.add_law [of P m a w ok m'] dram_insert_rows by (auto simp: native_add_def bind_res_eq_Inr)
next
  case (cycle reqs ans m es m')
  obtain d r where c: "dram_cycle P (now m) (nd m, nrand m) = Inr (es, d, r)" and m': "m' = \<lparr>nd = d, now = now m + 1, nrand = r\<rparr>"
    using cycle.hyps(3) by (auto simp: native_tick_def bind_res_eq_Inr)
  have rows: "dram_rows P (now m) d" using dram_cycle_rows [OF c] cycle.IH cycle.hyps(2) by simp
  have "unat (now m + 1) = unat (now m) + 1" using cycle.hyps(2) unat_add_lem [of "now m" 1] by (simp add: rows_in_time_def)
  then have "now m \<le> now m + 1" by (simp add: word_le_nat_alt)
  moreover have "dram_wf P d" using dram_cycle_ok [of P "nd m" "now m" "nrand m"] cycle.IH c by simp
  ultimately show ?case using dram_rows_later [OF rows] m' by simp
qed

text \<open>C11. In every run of the simulator's own memory, when a cycle activates a row in a bank that has a row open, the new activation is at least
  \<open>tRAS + tPRE\<close> cycles after the old one (for a page-open limit of at least \<open>tRAS\<close> and a counter that does not wrap around), also when the
  old row was closed early or is still opening.\<close>

theorem activation_spacing:
  assumes "native_mem_run P reqs ans m" and "rows_in_time P (now m)" and "native_tick P m = Inr (es, m')"
    and "k < length (dram_channels (nd m))" and "j < nbanks (dram_channels (nd m) ! k)"
    and "row_valid (bank_list (dram_channels (nd m) ! k) ! j)"
    and "s_ACT (bank_list (dram_channels (nd m') ! k) ! j) \<noteq> s_ACT (bank_list (dram_channels (nd m) ! k) ! j)"
  shows "unat (rowbufopen_cycle (bank_list (dram_channels (nd m) ! k) ! j)) + unat (P_tRAS P) + unat (P_tPRE P)
    \<le> unat (rowbufopen_cycle (bank_list (dram_channels (nd m') ! k) ! j))"
proof -
  obtain r where c: "dram_cycle P (now m) (nd m, nrand m) = Inr (es, nd m', r)" using assms(3) by (auto simp: native_tick_def bind_res_eq_Inr)
  have "list_all2 (rows_spaced P) (dram_channels (nd m)) (dram_channels (nd m'))"
    using dram_cycle_rows [OF c] native_mem_run_rows [OF assms(1)] assms(2) by simp
  then have "rows_spaced P (dram_channels (nd m) ! k) (dram_channels (nd m') ! k)" using assms(4) by (simp add: list_all2_conv_all_nth)
  then show ?thesis using assms(5-7) by (auto simp: rows_spaced_def spaced_def row_kept_def)
qed

section \<open>A sample run with a conflict\<close>

text \<open>A memory of one bank: line 0 opens its row, and line 128 is in the next one.\<close>

definition tiny_Params :: Params where
  "tiny_Params = default_Params\<lparr>MEM_SIZE_MB := 1, MEM_CHANNELS := 1, MEM_BANKS := 1, DRAM_BANKGROUPS := 1, DRAM_REF_POLICY := 0, DRAM_SCHED_POLICY := 0,
     DRAM_MAP_POLICY := 0, P_tRAS := 2, P_tPRE := 1, P_tACT := 0, P_tRDRD := 0\<rparr>"

definition tiny_run :: "(NativeMem \<times> (u64 \<times> bool) list \<times> NativeMem) res" where
  "tiny_run =
     bind_res (dram_new tiny_Params) (\<lambda>(d, _).
     bind_res (native_add tiny_Params 0 False \<lparr>nd = d, now = 0, nrand = srand (\<lambda>_ _. 1) 1\<rparr>) (\<lambda>(_, m).
     bind_res (native_add tiny_Params 128 False m) (\<lambda>(_, m).
     bind_res (native_tick tiny_Params m) (\<lambda>(_, m).
     bind_res (native_tick tiny_Params m) (\<lambda>(_, m).
     bind_res (native_tick tiny_Params m) (\<lambda>(es, m'). Inr (m, es, m')))))))"

definition bank0 :: "NativeMem \<Rightarrow> DRAM_Bank" where
  "bank0 m = bank_list (dram_channels (nd m) ! 0) ! 0"

lemma tiny_run_result:
  "case tiny_run of Inl _ \<Rightarrow> False | Inr (m, es, m') \<Rightarrow>
     row_valid (bank0 m) \<and> s_ACT (bank0 m) = 1 \<and> s_ACT (bank0 m') = 2 \<and> rowbufopen_cycle (bank0 m) = 0 \<and> rowbufopen_cycle (bank0 m') = 3 \<and>
     now m = 2 \<and> length (dram_channels (nd m)) = 1 \<and> num_banks (dram_channels (nd m) ! 0) = 1"
  by code_simp

lemma tiny_dram_new: "\<exists>d. dram_new tiny_Params = Inr (d, tiny_Params)"
proof -
  have one: "[0..0] = [0::int]" by simp
  have P: "MEM_BANKS tiny_Params = 1" "MEM_CHANNELS tiny_Params = 1" "DRAM_BANKGROUPS tiny_Params = 1" "MEM_PAGESIZE tiny_Params \<noteq> 0" "LINESIZE tiny_Params \<noteq> 0"
    "DRAM_REF_POLICY tiny_Params = 0" "MEM_CLOSEPAGE tiny_Params = 0"
    by (simp_all add: tiny_Params_def default_Params_def)
  show ?thesis by (simp add: dram_new_def div_word_def Let_def P one dram_channel_new_def closepage_def DRAM_REF_SB_def)
qed

lemma tiny_setup: "native_setup tiny_Params" and tiny_time: "n \<le> 10 \<Longrightarrow> rows_in_time tiny_Params (word_of_nat n)"
proof -
  show "native_setup tiny_Params"
    by (simp add: native_setup_def sched_ok_def tiny_Params_def default_Params_def DRAM_SCHED_FCFS_def DRAM_RFM_SB_def DRAM_REF_SB_def)
  have "unat (word_of_nat n :: u64) \<le> 10" if "n \<le> 10" using that by (simp add: unsigned_of_nat take_bit_nat_eq_self)
  then show "n \<le> 10 \<Longrightarrow> rows_in_time tiny_Params (word_of_nat n)"
    by (fastforce simp: rows_in_time_def tiny_Params_def default_Params_def)
qed

theorem activation_spacing_witness:
  "\<exists>ans m es m'. native_mem_run tiny_Params {#(128, False), (0, False)#} ans m \<and> native_tick tiny_Params m = Inr (es, m') \<and>
     row_valid (bank0 m) \<and> s_ACT (bank0 m') = 2 \<and> unat (rowbufopen_cycle (bank0 m)) + 2 + 1 \<le> unat (rowbufopen_cycle (bank0 m'))"
proof -
  obtain d where d: "dram_new tiny_Params = Inr (d, tiny_Params)" using tiny_dram_new by blast
  define m0 where "m0 = \<lparr>nd = d, now = 0, nrand = srand (\<lambda>_ _. 1) 1\<rparr>"
  obtain o1 m1 o2 m2 e1 m3 e2 m4 es m' where s: "native_add tiny_Params 0 False m0 = Inr (o1, m1)" "native_add tiny_Params 128 False m1 = Inr (o2, m2)"
    "native_tick tiny_Params m2 = Inr (e1, m3)" "native_tick tiny_Params m3 = Inr (e2, m4)" "native_tick tiny_Params m4 = Inr (es, m')"
    and run: "tiny_run = Inr (m4, es, m')"
    using tiny_run_result d by (auto simp: tiny_run_def m0_def bind_res_def split: sum.splits)
  have facts: "row_valid (bank0 m4)" "s_ACT (bank0 m4) = 1" "s_ACT (bank0 m') = 2" "now m4 = 2" "length (dram_channels (nd m4)) = 1"
    "num_banks (dram_channels (nd m4) ! 0) = 1" using tiny_run_result [unfolded run] by simp_all
  have now: "now m0 = 0" "now m1 = 0" "now m2 = 0" "now m3 = 1" using s(1-3) by (auto simp: m0_def native_add_def native_tick_def bind_res_eq_Inr)
  have "native_start tiny_Params m0" using d tiny_setup by (auto simp: native_start_def m0_def)
  then have "native_mem_run tiny_Params {#} {#} m0" by (rule mem_run.start)
  then have "native_mem_run tiny_Params {#(0, False)#} {#} m1" by (rule mem_run.request) (rule s(1))
  from mem_run.request [OF this s(2)] have "native_mem_run tiny_Params {#(128, False), (0, False)#} {#} m2" .
  from mem_run.cycle [OF this _ s(3)] have "native_mem_run tiny_Params {#(128, False), (0, False)#} (mset e1) m3" using tiny_time [of 0] now by simp
  from mem_run.cycle [OF this _ s(4)] have r: "native_mem_run tiny_Params {#(128, False), (0, False)#} (mset e2 + mset e1) m4" using tiny_time [of 1] now by simp
  have "unat (rowbufopen_cycle (bank0 m4)) + unat (P_tRAS tiny_Params) + unat (P_tPRE tiny_Params) \<le> unat (rowbufopen_cycle (bank0 m'))"
    unfolding bank0_def by (rule activation_spacing [OF r _ s(5)]) (use facts tiny_time [of 2] in \<open>simp_all add: bank0_def\<close>)
  then show ?thesis using r s(5) facts by (intro exI [of _ "mset e2 + mset e1"] exI [of _ m4] exI [of _ es] exI [of _ m'] conjI) (simp_all add: tiny_Params_def default_Params_def)
qed

section \<open>Addresses\<close>

text \<open>A memory without remainders: rows of each bank, banks of each channel, channels and lines of a row.\<close>

definition even_geometry :: "Params \<Rightarrow> nat \<Rightarrow> nat \<Rightarrow> nat \<Rightarrow> nat \<Rightarrow> bool" where
  "even_geometry P R B C L \<longleftrightarrow> 0 < R \<and> 0 < B \<and> 0 < C \<and> 0 < L \<and> even L \<and> R * B * C < 2 ^ 32 \<and> unat (MEM_CHANNELS P) = C \<and> unat (MEM_BANKS P) = B * C \<and>
     0 < unat (LINESIZE P) \<and> unat (MEM_PAGESIZE P) = L * unat (LINESIZE P) \<and>
     unat (MEM_SIZE_MB P * 1024 * 1024) = R * B * C * unat (MEM_PAGESIZE P) \<and> DRAM_MAP_POLICY P \<in> {DRAM_MAP_COFFEELAKE, DRAM_MAP_SKYLAKE, DRAM_MAP_MOP, DRAM_MAP_ZEN} \<and>
     0 < unat (DRAM_MOP_GANGSIZE P) \<and> unat (DRAM_MOP_GANGSIZE P) dvd L"

definition chan_geom :: "nat \<Rightarrow> nat \<Rightarrow> DRAM_Channel \<Rightarrow> bool" where
  "chan_geom R B ch \<longleftrightarrow> length (bank_list ch) = B \<and> (\<forall>j < B. unat (num_rows (bank_list ch ! j)) = R)"

definition dram_geom :: "nat \<Rightarrow> nat \<Rightarrow> nat \<Rightarrow> nat \<Rightarrow> DRAM \<Rightarrow> bool" where
  "dram_geom R B C L d \<longleftrightarrow> unat (num_channels d) = C \<and> unat (banks_in_channel d) = B \<and> unat (lines_in_rowbuf d) = L \<and> unat (lines_in_mem d) = R * B * C * L \<and>
     length (dram_channels d) = C \<and> list_all (chan_geom R B) (dram_channels d)"

lemma channel_new_geom:
  assumes "dram_channel_new P i n rows = Inr (ch, P')" and "unat n = B" and "unat rows = R * B" and "0 < B"
  shows "chan_geom R B ch \<and> P' \<in> {P, closepage P}"
proof -
  have "unat (rows div n) = R" using assms(2-4) by (simp add: unat_div)
  then show ?thesis
    using assms by (auto simp: dram_channel_new_def div_word_def bind_res_eq_Inr require_def banks_upto dram_bank_new_def chan_geom_def split: if_splits)
qed

lemma even_geometry_same:
  "even_geometry (closepage P) = even_geometry P" "even_geometry (P\<lparr>P_tREFI := t\<rparr>) = even_geometry P"
  by (simp_all add: even_geometry_def closepage_def fun_eq_iff)

lemma new_channels_geom:
  assumes "fold_res (\<lambda>ii (chs, P). bind_res (require OutOfBounds (ii < 32)) (\<lambda>_. bind_res (dram_channel_new P (word_of_int ii) n (ucast (rows div MEM_CHANNELS P)))
      (\<lambda>(ch, P). Inr (chs @ [ch], P)))) is (chs0, P1) = Inr (chs, P')"
    and "P1 \<in> {P, closepage P}" and "unat n = B" and "unat (ucast (rows div MEM_CHANNELS P) :: u32) = R * B" and "0 < B" and "list_all (chan_geom R B) chs0"
  shows "list_all (chan_geom R B) chs \<and> length chs = length chs0 + length is \<and> P' \<in> {P, closepage P}"
  using assms(1,2,6)
proof (induction "is" arbitrary: chs0 P1)
  case (Cons ii "is")
  obtain ch P2 where 1: "dram_channel_new P1 (word_of_int ii) n (ucast (rows div MEM_CHANNELS P1)) = Inr (ch, P2)"
    and 2: "fold_res (\<lambda>ii (chs, P). bind_res (require OutOfBounds (ii < 32)) (\<lambda>_. bind_res (dram_channel_new P (word_of_int ii) n (ucast (rows div MEM_CHANNELS P)))
      (\<lambda>(ch, P). Inr (chs @ [ch], P)))) is (chs0 @ [ch], P2) = Inr (chs, P')"
    using Cons.prems(1) by (auto simp: bind_res_eq_Inr)
  have "MEM_CHANNELS P1 = MEM_CHANNELS P" using Cons.prems(2) by auto
  then have "chan_geom R B ch \<and> P2 \<in> {P1, closepage P1}" using channel_new_geom [OF 1 assms(3)] assms(4,5) by simp
  then show ?case using Cons.IH [OF 2] Cons.prems(2,3) by auto
qed simp

lemma dram_new_geom:
  assumes "even_geometry P0 R B C L"
  shows "on_success (dram_new P0) (\<lambda>(d, P). dram_geom R B C L d \<and> even_geometry P R B C L)"
proof -
  have g: "0 < R" "0 < B" "0 < C" "0 < L" "R * B * C < 2 ^ 32" "unat (MEM_CHANNELS P0) = C" "unat (MEM_BANKS P0) = B * C" "0 < unat (LINESIZE P0)"
    "unat (MEM_PAGESIZE P0) = L * unat (LINESIZE P0)" "unat (MEM_SIZE_MB P0 * 1024 * 1024) = R * B * C * unat (MEM_PAGESIZE P0)"
    using assms by (auto simp: even_geometry_def)
  let ?mem = "MEM_SIZE_MB P0 * 1024 * 1024"
  let ?rows = "?mem div MEM_PAGESIZE P0" and ?bic = "MEM_BANKS P0 div MEM_CHANNELS P0"
  have rows: "unat ?rows = R * B * C" and bic: "unat ?bic = B" and line: "unat (MEM_PAGESIZE P0 div LINESIZE P0) = L" and lim: "unat (?mem div LINESIZE P0) = R * B * C * L"
    using g by (simp_all add: unat_div)
  have per: "unat (?rows div MEM_CHANNELS P0) = R * B" using rows g(3,6) by (simp add: unat_div)
  have "R * B * 1 \<le> R * B * C" "1 * B \<le> R * B" using g(1,3) by (intro mult_le_mono; simp)+
  then have "R * B < 2 ^ 32" "B < 2 ^ 32" using g(5) by linarith+
  then have small: "unat (ucast (?rows div MEM_CHANNELS P0) :: u32) = R * B" "unat (ucast ?bic :: u32) = B"
    using unat_ucast_small [of "?rows div MEM_CHANNELS P0"] unat_ucast_small [of ?bic] unfolding per bic by blast+
  have "MEM_PAGESIZE P0 \<noteq> 0" "LINESIZE P0 \<noteq> 0" "MEM_BANKS P0 \<noteq> 0" "MEM_CHANNELS P0 \<noteq> 0" using g by auto
  then have div: "div_word x (MEM_PAGESIZE P0) = Inr (x div MEM_PAGESIZE P0)" "div_word x (LINESIZE P0) = Inr (x div LINESIZE P0)"
    "div_word x (MEM_BANKS P0) = Inr (x div MEM_BANKS P0)" "div_word x (MEM_CHANNELS P0) = Inr (x div MEM_CHANNELS P0)" for x
    by (simp_all add: div_word_def)
  have all: "on_success (fold_res (\<lambda>ii (chs, P). bind_res (require OutOfBounds (ii < 32)) (\<lambda>_. bind_res (dram_channel_new P (word_of_int ii) (ucast ?bic)
      (ucast (?rows div MEM_CHANNELS P))) (\<lambda>(ch, P). Inr (chs @ [ch], P)))) [0..uint (MEM_CHANNELS P0) - 1] ([], P0))
      (\<lambda>(chs, P1). list_all (chan_geom R B) chs \<and> length chs = C \<and> (P1 = P0 \<or> P1 = closepage P0))"
    unfolding on_success_iff
  proof (intro allI impI, clarify)
    fix chs P1 assume "fold_res (\<lambda>ii (chs, P). bind_res (require OutOfBounds (ii < 32)) (\<lambda>_. bind_res (dram_channel_new P (word_of_int ii) (ucast ?bic)
      (ucast (?rows div MEM_CHANNELS P))) (\<lambda>(ch, P). Inr (chs @ [ch], P)))) [0..uint (MEM_CHANNELS P0) - 1] ([], P0) = Inr (chs, P1)"
    from new_channels_geom [OF this _ small(2,1) g(2)] show "list_all (chan_geom R B) chs \<and> length chs = C \<and> (P1 = P0 \<or> P1 = closepage P0)"
      using g(6) by simp
  qed
  have fin: "dram_geom R B C L \<lparr>dram_channels = chs, refmode = a0, memsize = a1, dram_banks = a2, rowbuf_size = a3,
      num_channels = MEM_CHANNELS P1, num_rowbufs = a4, lines_in_rowbuf = MEM_PAGESIZE P0 div LINESIZE P0, rowbufs_in_mem = a5, rowbufs_in_bank = a6,
      lines_in_mem = ?mem div LINESIZE P1, banks_in_channel = ?bic, refsb_ptr = 0, dram_banks_in_bankgroup = a7, last_trefi_cycle = 0, last_trefw_cycle = 0,
      num_trefi = 0, num_trefw = 0\<rparr> \<and> even_geometry P1 R B C L"
    if "list_all (chan_geom R B) chs" "length chs = C" "P2 = P0 \<or> P2 = closepage P0" "P1 = P2 \<or> (\<exists>t. P1 = P2\<lparr>P_tREFI := t\<rparr>)"
    for chs P1 P2 a0 a1 a2 a3 a4 a5 a6 a7
  proof -
    have "MEM_CHANNELS P1 = MEM_CHANNELS P0" "LINESIZE P1 = LINESIZE P0" using that(3,4) by (auto simp: closepage_def)
    moreover have "even_geometry P1 R B C L" using that(3,4) assms by (auto simp: even_geometry_same)
    ultimately show ?thesis using that(1,2) g(6) bic line lim by (simp add: dram_geom_def)
  qed
  show ?thesis
    unfolding dram_new_def Let_def div bind_res_simps
  proof (rule on_success_bindI [OF all], simp only: split_paired_all prod.case, elim conjE)
    fix chs P2 assume P2: "list_all (chan_geom R B) chs" "length chs = C" "P2 = P0 \<or> P2 = closepage P0"
    note f = fin [OF P2]
    show "on_success (bind_res (div_word ?bic (DRAM_BANKGROUPS P2)) (\<lambda>bbg.
        bind_res (if DRAM_REF_POLICY P2 = DRAM_REF_SB then bind_res (div_word (P_tREFI P2) bbg) (\<lambda>t. Inr (P2\<lparr>P_tREFI := t\<rparr>)) else Inr P2) (\<lambda>P.
        Inr (\<lparr>dram_channels = chs, refmode = DRAM_REF_POLICY P, memsize = ?mem, dram_banks = MEM_BANKS P, rowbuf_size = MEM_PAGESIZE P,
            num_channels = MEM_CHANNELS P, num_rowbufs = ?rows, lines_in_rowbuf = MEM_PAGESIZE P0 div LINESIZE P0, rowbufs_in_mem = ?rows,
            rowbufs_in_bank = ?rows div MEM_BANKS P0, lines_in_mem = ?mem div LINESIZE P, banks_in_channel = ?bic, refsb_ptr = 0,
            dram_banks_in_bankgroup = bbg, last_trefi_cycle = 0, last_trefw_cycle = 0, num_trefi = 0, num_trefw = 0\<rparr>, P))))
      (\<lambda>(d, P). dram_geom R B C L d \<and> even_geometry P R B C L)"
      by (rule on_success_bindI [OF on_success_True], rule on_success_bindI [where P = "\<lambda>P1. P1 = P2 \<or> (\<exists>t. P1 = P2\<lparr>P_tREFI := t\<rparr>)"],
          simp add: div_word_def require_def, blast) (simp only: on_success_simps prod.case f)
  qed
qed

text \<open>The divisions of the four mappings.\<close>

lemma line_digits:
  fixes l :: nat
  assumes "L div M * M = L" and "l < R * B * C * L"
  shows "l div M div C div B div (L div M) < R" and "l div M div C div (L div M) div B < R" and "l div C div M div B div (L div M) < R"
proof -
  have "l < R * (B * C * (L div M * M))" using assms by (simp only: assms(1) mult.assoc)
  then have "l div (B * C * (L div M * M)) < R" by (rule less_mult_imp_div_less)
  then show "l div M div C div B div (L div M) < R" "l div M div C div (L div M) div B < R" "l div C div M div B div (L div M) < R"
    by (simp_all only: div_mult2_eq [symmetric] mult.commute mult.left_commute mult.assoc)
qed

text \<open>C26. In a new memory without remainders every mapping policy sends each line of the memory to an existing channel, bank and row: for a line
  below the number of lines the row is below the number of rows of the bank it is sent to, so no assertion of the insertion fails.\<close>

theorem parseaddr_in_range:
  assumes "dram_new P0 = Inr (d, P)" and "even_geometry P0 R B C L" and "l < lines_in_mem d"
  shows "\<exists>row b c. dram_parseaddr P d l = Inr (row, b, c) \<and> unat c < length (dram_channels d) \<and>
    unat b < length (bank_list (dram_channels d ! unat c)) \<and> unat row < unat (num_rows (bank_list (dram_channels d ! unat c) ! unat b))"
proof -
  have geom: "dram_geom R B C L d" "even_geometry P R B C L" using dram_new_geom [OF assms(2)] assms(1) by simp_all
  have d: "unat (num_channels d) = C" "unat (banks_in_channel d) = B" "unat (lines_in_rowbuf d) = L" "length (dram_channels d) = C" and l: "unat l < R * B * C * L"
    and ch: "c < C \<Longrightarrow> b < B \<Longrightarrow> length (bank_list (dram_channels d ! c)) = B \<and> unat (num_rows (bank_list (dram_channels d ! c) ! b)) = R" for c b
    using geom(1) assms(3) by (auto simp: dram_geom_def chan_geom_def list_all_length word_less_nat_alt)
  have P: "0 < R" "0 < B" "0 < C" "0 < L" "even L" "0 < unat (DRAM_MOP_GANGSIZE P)" "unat (DRAM_MOP_GANGSIZE P) dvd L"
    and policy: "DRAM_MAP_POLICY P \<in> {DRAM_MAP_COFFEELAKE, DRAM_MAP_SKYLAKE, DRAM_MAP_MOP, DRAM_MAP_ZEN}"
    using geom(2) by (auto simp: even_geometry_def)
  have nz: "num_channels d \<noteq> 0" "banks_in_channel d \<noteq> 0" "lines_in_rowbuf d \<noteq> 0" "DRAM_MOP_GANGSIZE P \<noteq> 0" using d P by auto
  let ?G = "unat (DRAM_MOP_GANGSIZE P)"
  have half: "0 < L div 2" "L div 2 * 2 = L" "0 < L div ?G" "L div ?G * ?G = L" using P by (auto elim!: evenE dest: dvd_div_mult_self dvd_imp_le simp: div_greater_zero_iff)
  have nz2: "lines_in_rowbuf d div 2 \<noteq> 0" "lines_in_rowbuf d div DRAM_MOP_GANGSIZE P \<noteq> 0" using half d(3) by (auto simp: unat_div word_unat_eq_iff)
  note by_line = line_digits [OF _ l]
  have by_row: "unat l div L div C div B < R" using by_line(1) [of L] P(4) by simp
  have "\<exists>row b c. dram_parseaddr P d l = Inr (row, b, c) \<and> unat c < C \<and> unat b < B \<and> unat row < R"
    using policy
    by (elim insertE emptyE) (simp_all add: dram_parseaddr_def Let_def div_word_def rem_word_def require_def nz nz2 unat_div unat_mod d P by_row half by_line [of 2, OF half(2)] by_line [of ?G, OF half(4)])
  then show ?thesis using ch d(4) by metis
qed
lemma default_dram_new: "case dram_new default_Params of Inl _ \<Rightarrow> False | Inr (d, _) \<Rightarrow> lines_in_mem d = 2 ^ 29"
  by code_simp

theorem parseaddr_in_range_witness:
  "\<exists>d P row b c. dram_new default_Params = Inr (d, P) \<and> dram_parseaddr P d (2 ^ 29 - 1) = Inr (row, b, c) \<and> unat c < length (dram_channels d)"
proof -
  obtain d P where new: "dram_new default_Params = Inr (d, P)" and lines: "lines_in_mem d = 2 ^ 29"
    using default_dram_new by (auto split: sum.splits)
  have "even_geometry default_Params 65536 32 2 128"
    by (simp add: even_geometry_def default_Params_def DRAM_MAP_ZEN_def)
  from parseaddr_in_range [OF new this, of "2 ^ 29 - 1"] show ?thesis using new lines by auto
qed
section \<open>Same-bank refresh\<close>

lemma on_banks_others:
  assumes "on_banks cyc is f ch = Inr ch'" and "int j \<notin> set is"
  shows "bank_list ch' ! j = bank_list ch ! j"
proof -
  have "bs ! j = xs ! j" if "fold_res (\<lambda>i bs. vec_upd bs i (f m)) is xs = Inr bs" for m xs bs
    using that assms(2)
  proof (induction "is" arbitrary: xs)
    case (Cons i "is")
    have "bs ! j = xs[nat i := f m (xs ! nat i)] ! j" and "0 \<le> i"
      using Cons.IH [of "xs[nat i := f m (xs ! nat i)]"] Cons.prems by (auto simp: bind_res_eq_Inr vec_upd_Inr)
    then show ?case using Cons.prems(2) by auto
  qed simp
  then show ?thesis using assms(1) by (auto simp: on_banks_def bind_res_eq_Inr)
qed

lemma cycle_channels_length: "cycle_channels P cyc chs r = Inr (es, chs', r') \<Longrightarrow> length chs' = length chs"
  by (induction chs arbitrary: r es chs' r') (auto simp: bind_res_eq_Inr)

lemma refresh_channels_others:
  assumes "refresh_channels P cyc is chs = Inr chs'" and "int j \<notin> set is" and "k < length chs"
  shows "bank_list (chs' ! k) ! j = bank_list (chs ! k) ! j"
  using assms(1,3)
proof (induction chs arbitrary: chs' k)
  case (Cons ch chs)
  then show ?case using on_banks_others [OF _ assms(2)] by (cases k) (auto simp: bind_res_eq_Inr)
qed simp

text \<open>A refresh of a well-formed memory in same-bank mode stays below the square of the group size.\<close>

lemma refresh_below_square:
  assumes "dram_wf P d" and "refmode d = DRAM_REF_SB" and "dram_refresh P cyc d = Inr d'" and "k < length (dram_channels d)"
    and "unat (dram_banks_in_bankgroup d) * unat (dram_banks_in_bankgroup d) \<le> j"
  shows "bank_list (dram_channels d' ! k) ! j = bank_list (dram_channels d ! k) ! j"
proof -
  let ?n = "unat (dram_banks_in_bankgroup d)" and ?p = "unat (refsb_ptr d)"
  have "chan_fits P d (dram_channels d ! k)" using assms(1,4) by (simp add: dram_wf_def list_all_length)
  then have small: "?n * ?n \<le> 32" using assms(2) by (auto simp: chan_fits_def chan_wf_def)
  have "?p + 1 \<le> ?n" using assms(1,2) by (auto simp: dram_wf_def word_less_nat_alt)
  then have top: "(?p + 1) * ?n \<le> ?n * ?n" by (rule mult_le_mono1)
  have out: "int j \<notin> set (group_banks (refsb_ptr d) (dram_banks_in_bankgroup d))"
    using group_banks_range [of "refsb_ptr d" "dram_banks_in_bankgroup d" "int j"] top small assms(5) by auto
  have "refmode d \<noteq> DRAM_REF_AB" using assms(2) by (simp add: DRAM_REF_SB_def DRAM_REF_AB_def)
  then obtain chs p where "refresh_channels P cyc (group_banks (refsb_ptr d) (dram_banks_in_bankgroup d)) (dram_channels d) = Inr chs"
    and d': "d' = d\<lparr>dram_channels := chs, refsb_ptr := p\<rparr>"
    using assms(2,3) by (auto simp: dram_refresh_def bind_res_eq_Inr)
  from refresh_channels_others [OF this(1) out assms(4)] show ?thesis by (simp add: d')
qed

text \<open>A cycle of the memory is a cycle of its channels, with at most a refresh after it.\<close>

lemma cycle_below_square:
  assumes "dram_wf P d" and "refmode d = DRAM_REF_SB" and "dram_cycle P cyc (d, r) = Inr (es, d', r')" and "k < length (dram_channels d)"
    and "unat (dram_banks_in_bankgroup d) * unat (dram_banks_in_bankgroup d) \<le> j"
  shows "\<exists>chs. cycle_channels P cyc (dram_channels d) r = Inr (es, chs, r') \<and>
    bank_list (dram_channels d' ! k) ! j = bank_list (chs ! k) ! j"
proof -
  define tick where "tick chs = (let d = d\<lparr>dram_channels := chs\<rparr>
    in if P_tREFW P < cyc - last_trefw_cycle d then d\<lparr>last_trefw_cycle := cyc, num_trefw := num_trefw d + 1\<rparr> else d)" for chs
  obtain chs where c: "cycle_channels P cyc (dram_channels d) r = Inr (es, chs, r')"
    and d': "(if P_tREFI P < cyc - last_trefi_cycle (tick chs) then
        dram_refresh P cyc ((tick chs)\<lparr>last_trefi_cycle := cyc, num_trefi := num_trefi (tick chs) + 1\<rparr>) else Inr (tick chs)) = Inr d'"
    using assms(3) unfolding dram_cycle_def prod.case Let_def tick_def [unfolded Let_def, symmetric] by (auto simp: bind_res_eq_Inr)
  let ?t = "(tick chs)\<lparr>last_trefi_cycle := cyc, num_trefi := num_trefi (tick chs) + 1\<rparr>"
  have fits: "list_all (chan_fits P d) chs" using cycle_channels_ok [of P d "dram_channels d" cyc r] assms(1) c by (simp add: dram_wf_def)
  have t: "dram_channels (tick chs) = chs" "refmode (tick chs) = DRAM_REF_SB" "dram_banks_in_bankgroup (tick chs) = dram_banks_in_bankgroup d"
    "dram_wf P ?t" using assms(1,2) fits by (auto simp: tick_def Let_def dram_wf_def)
  have len: "length chs = length (dram_channels d)" using cycle_channels_length [OF c] .
  have "bank_list (dram_channels d' ! k) ! j = bank_list (chs ! k) ! j"
  proof (cases "P_tREFI P < cyc - last_trefi_cycle (tick chs)")
    case True
    then show ?thesis using refresh_below_square [OF t(4), of cyc d' k j] d' assms(4,5) t(1-3) len by simp
  qed (use d' t in auto)
  then show ?thesis using c by blast
qed

text \<open>C38. The pointer of same-bank refresh runs modulo the banks of a group, not the groups.  So in every run of the memory from its
  construction in this refresh mode, the pointer stays below the number of banks of a group, and the banks of a channel from the square of
  that number on are never refreshed: the cycle of the memory leaves each of them as the cycle of its channel left it, also when a refresh is
  due.\<close>

theorem same_bank_refresh_skips:
  assumes "mem_run (native_start P) (native_add P) (\<lambda>_. True) (native_tick P) reqs ans m" and "refmode (nd m) = DRAM_REF_SB"
    and "native_tick P m = Inr (es, m')" and "k < length (dram_channels (nd m))"
    and "unat (dram_banks_in_bankgroup (nd m)) * unat (dram_banks_in_bankgroup (nd m)) \<le> j"
  shows "refsb_ptr (nd m) < dram_banks_in_bankgroup (nd m) \<and>
    (\<exists>chs. cycle_channels P (now m) (dram_channels (nd m)) (nrand m) = Inr (es, chs, nrand m') \<and>
       bank_list (dram_channels (nd m') ! k) ! j = bank_list (chs ! k) ! j)"
proof -
  have wf: "dram_wf P (nd m)" using native.balance [OF assms(1)] by simp
  have c: "dram_cycle P (now m) (nd m, nrand m) = Inr (es, nd m', nrand m')" using assms(3) by (auto simp: native_tick_def bind_res_eq_Inr)
  show ?thesis using cycle_below_square [OF wf assms(2) c assms(4,5)] wf assms(2) by (simp add: dram_wf_def)
qed

text \<open>One channel of eight banks in four groups of two, refreshed every second cycle: the third cycle refreshes bank 0 and its group, and
  no cycle ever reaches bank 4.\<close>

definition same_bank_Params :: Params where
  "same_bank_Params = tiny_Params\<lparr>MEM_BANKS := 8, DRAM_BANKGROUPS := 4, DRAM_REF_POLICY := 1, P_tREFI := 2\<rparr>"

definition same_bank_run :: "(NativeMem \<times> Params \<times> (u64 \<times> bool) list \<times> NativeMem) res" where
  "same_bank_run =
     bind_res (dram_new same_bank_Params) (\<lambda>(d, P).
     bind_res (native_tick P \<lparr>nd = d, now = 0, nrand = srand (\<lambda>_ _. 1) 1\<rparr>) (\<lambda>(_, m).
     bind_res (native_tick P m) (\<lambda>(_, m).
     bind_res (native_tick P m) (\<lambda>(es, m'). Inr (m, P, es, m')))))"

lemma same_bank_run_result:
  "case same_bank_run of Inl _ \<Rightarrow> False | Inr (m, P, es, m') \<Rightarrow>
     refmode (nd m) = DRAM_REF_SB \<and> dram_banks_in_bankgroup (nd m) = 2 \<and> length (dram_channels (nd m)) = 1 \<and>
     b_status (bank_list (dram_channels (nd m) ! 0) ! 0) = DRAM_BANK_READY \<and> b_status (bank_list (dram_channels (nd m') ! 0) ! 0) = DRAM_BANK_BUSY"
  by code_simp

theorem same_bank_refresh_skips_witness:
  "\<exists>P ans m es m' chs. mem_run (native_start P) (native_add P) (\<lambda>_. True) (native_tick P) {#} ans m \<and> native_tick P m = Inr (es, m') \<and>
     b_status (bank_list (dram_channels (nd m) ! 0) ! 0) = DRAM_BANK_READY \<and> b_status (bank_list (dram_channels (nd m') ! 0) ! 0) = DRAM_BANK_BUSY \<and>
     cycle_channels P (now m) (dram_channels (nd m)) (nrand m) = Inr (es, chs, nrand m') \<and>
     bank_list (dram_channels (nd m') ! 0) ! 4 = bank_list (chs ! 0) ! 4"
proof -
  obtain d P e1 m1 e2 m2 es m' where d: "dram_new same_bank_Params = Inr (d, P)" and
    s: "native_tick P \<lparr>nd = d, now = 0, nrand = srand (\<lambda>_ _. 1) 1\<rparr> = Inr (e1, m1)" "native_tick P m1 = Inr (e2, m2)" "native_tick P m2 = Inr (es, m')"
    and run: "same_bank_run = Inr (m2, P, es, m')"
    using same_bank_run_result by (auto simp: same_bank_run_def bind_res_def split: sum.splits)
  note facts = same_bank_run_result [unfolded run, simplified]
  have "native_setup same_bank_Params"
    by (simp add: native_setup_def sched_ok_def same_bank_Params_def tiny_Params_def default_Params_def DRAM_SCHED_FCFS_def DRAM_RFM_SB_def DRAM_REF_SB_def)
  then have "native_start P \<lparr>nd = d, now = 0, nrand = srand (\<lambda>_ _. 1) 1\<rparr>" using d by (auto simp: native_start_def)
  then have "mem_run (native_start P) (native_add P) (\<lambda>_. True) (native_tick P) {#} {#} \<lparr>nd = d, now = 0, nrand = srand (\<lambda>_ _. 1) 1\<rparr>"
    by (rule mem_run.start)
  from mem_run.cycle [OF mem_run.cycle [OF this TrueI s(1)] TrueI s(2)]
  have r: "mem_run (native_start P) (native_add P) (\<lambda>_. True) (native_tick P) {#} (mset e2 + (mset e1 + {#})) m2" .
  from same_bank_refresh_skips [OF r _ s(3), of 0 4] facts r s(3) show ?thesis by (simp, blast)
qed

end
