(* ===== verification/HMC_System.thy ===== *)
theory HMC_System
  imports DRAM_System
begin

text \<open>
  The memory cube (\<open>DRAMsim3/src/hmc.h\<close>, \<open>hmc.cc\<close>) and the choice between it and the JEDEC system
  (\<open>memory_system.cc\<close>).  Requests enter through links, cross to the quadrants and their vaults (one controller
  each), and the responses cross back; the two crossbars run on a logic clock that is faster than the DRAM
  clock.  The callbacks of a cycle are the list it returns, as for the other memory systems.
  \<open>HMCMemorySystem\<close> extends the record of its base class.  A request and a response are values here: the code holds
  each in one queue at a time, by pointer.
\<close>

section \<open>Packets\<close>

datatype HMCReqType =
   RD0  | RD16  | RD32  | RD48  | RD64  | RD80  | RD96  | RD112  | RD128  | RD256  | WR0  | WR16  | WR32  | WR48
   | WR64  | WR80  | WR96  | WR112  | WR128  | WR256  | P_WR16  | P_WR32  | P_WR48  | P_WR64  | P_WR80  | P_WR96
   | P_WR112  | P_WR128  | P_WR256  | ADD8  | ADD16  | P_2ADD8  | P_ADD16  | ADDS8R  | ADDS16R  | INC8  | P_INC8
   | XOR16  | OR16  | NOR16  | AND16  | NAND16  | CASGT8  | CASGT16  | CASLT8  | CASLT16  | CASEQ8  | CASZERO16
   | EQ8  | EQ16  | BWR  | P_BWR  | BWR8R  | SWAP16  | HMCReq_SIZE

datatype HMCRespType = NONE | RD_RS | WR_RS | ERR | HMCResp_SIZE

text \<open>The sizes of the packets, in flits of 16 bytes.\<close>

fun req_flits :: "HMCReqType \<Rightarrow> int res" where
  "req_flits RD0 = Inr 0"
| "req_flits RD16 = Inr 1"
| "req_flits RD32 = Inr 1"
| "req_flits RD48 = Inr 1"
| "req_flits RD64 = Inr 1"
| "req_flits RD80 = Inr 1"
| "req_flits RD96 = Inr 1"
| "req_flits RD112 = Inr 1"
| "req_flits RD128 = Inr 1"
| "req_flits RD256 = Inr 1"
| "req_flits WR0 = Inr 0"
| "req_flits WR16 = Inr 2"
| "req_flits WR32 = Inr 3"
| "req_flits WR48 = Inr 4"
| "req_flits WR64 = Inr 5"
| "req_flits WR80 = Inr 6"
| "req_flits WR96 = Inr 7"
| "req_flits WR112 = Inr 8"
| "req_flits WR128 = Inr 9"
| "req_flits WR256 = Inr 17"
| "req_flits P_WR16 = Inr 2"
| "req_flits P_WR32 = Inr 3"
| "req_flits P_WR48 = Inr 4"
| "req_flits P_WR64 = Inr 5"
| "req_flits P_WR80 = Inr 6"
| "req_flits P_WR96 = Inr 7"
| "req_flits P_WR112 = Inr 8"
| "req_flits P_WR128 = Inr 9"
| "req_flits P_WR256 = Inr 17"
| "req_flits ADD8 = Inr 2"
| "req_flits ADD16 = Inr 2"
| "req_flits P_2ADD8 = Inr 2"
| "req_flits P_ADD16 = Inr 2"
| "req_flits ADDS8R = Inr 2"
| "req_flits ADDS16R = Inr 2"
| "req_flits INC8 = Inr 1"
| "req_flits P_INC8 = Inr 1"
| "req_flits XOR16 = Inr 2"
| "req_flits OR16 = Inr 2"
| "req_flits NOR16 = Inr 2"
| "req_flits AND16 = Inr 2"
| "req_flits NAND16 = Inr 2"
| "req_flits CASGT8 = Inr 2"
| "req_flits CASGT16 = Inr 2"
| "req_flits CASLT8 = Inr 2"
| "req_flits CASLT16 = Inr 2"
| "req_flits CASEQ8 = Inr 2"
| "req_flits CASZERO16 = Inr 2"
| "req_flits EQ8 = Inr 2"
| "req_flits EQ16 = Inr 2"
| "req_flits BWR = Inr 2"
| "req_flits P_BWR = Inr 2"
| "req_flits BWR8R = Inr 2"
| "req_flits SWAP16 = Inr 2"
| "req_flits HMCReq_SIZE = Inl AbruptExit"

fun resp_packet :: "HMCReqType \<Rightarrow> (HMCRespType \<times> int) res" where
  "resp_packet RD0 = Inr (RD_RS, 0)"
| "resp_packet RD16 = Inr (RD_RS, 2)"
| "resp_packet RD32 = Inr (RD_RS, 3)"
| "resp_packet RD48 = Inr (RD_RS, 4)"
| "resp_packet RD64 = Inr (RD_RS, 5)"
| "resp_packet RD80 = Inr (RD_RS, 6)"
| "resp_packet RD96 = Inr (RD_RS, 7)"
| "resp_packet RD112 = Inr (RD_RS, 8)"
| "resp_packet RD128 = Inr (RD_RS, 9)"
| "resp_packet RD256 = Inr (RD_RS, 17)"
| "resp_packet WR0 = Inr (WR_RS, 0)"
| "resp_packet WR16 = Inr (WR_RS, 1)"
| "resp_packet WR32 = Inr (WR_RS, 1)"
| "resp_packet WR48 = Inr (WR_RS, 1)"
| "resp_packet WR64 = Inr (WR_RS, 1)"
| "resp_packet WR80 = Inr (WR_RS, 1)"
| "resp_packet WR96 = Inr (WR_RS, 1)"
| "resp_packet WR112 = Inr (WR_RS, 1)"
| "resp_packet WR128 = Inr (WR_RS, 1)"
| "resp_packet WR256 = Inr (WR_RS, 1)"
| "resp_packet P_WR16 = Inr (NONE, 0)"
| "resp_packet P_WR32 = Inr (NONE, 0)"
| "resp_packet P_WR48 = Inr (NONE, 0)"
| "resp_packet P_WR64 = Inr (NONE, 0)"
| "resp_packet P_WR80 = Inr (NONE, 0)"
| "resp_packet P_WR96 = Inr (NONE, 0)"
| "resp_packet P_WR112 = Inr (NONE, 0)"
| "resp_packet P_WR128 = Inr (NONE, 0)"
| "resp_packet P_WR256 = Inr (NONE, 0)"
| "resp_packet ADD8 = Inr (WR_RS, 1)"
| "resp_packet ADD16 = Inr (WR_RS, 1)"
| "resp_packet P_2ADD8 = Inr (NONE, 0)"
| "resp_packet P_ADD16 = Inr (NONE, 0)"
| "resp_packet ADDS8R = Inr (RD_RS, 2)"
| "resp_packet ADDS16R = Inr (RD_RS, 2)"
| "resp_packet INC8 = Inr (WR_RS, 1)"
| "resp_packet P_INC8 = Inr (NONE, 0)"
| "resp_packet XOR16 = Inr (RD_RS, 2)"
| "resp_packet OR16 = Inr (RD_RS, 2)"
| "resp_packet NOR16 = Inr (RD_RS, 2)"
| "resp_packet AND16 = Inr (RD_RS, 2)"
| "resp_packet NAND16 = Inr (RD_RS, 2)"
| "resp_packet CASGT8 = Inr (RD_RS, 2)"
| "resp_packet CASGT16 = Inr (RD_RS, 2)"
| "resp_packet CASLT8 = Inr (RD_RS, 2)"
| "resp_packet CASLT16 = Inr (RD_RS, 2)"
| "resp_packet CASEQ8 = Inr (RD_RS, 2)"
| "resp_packet CASZERO16 = Inr (RD_RS, 2)"
| "resp_packet EQ8 = Inr (WR_RS, 1)"
| "resp_packet EQ16 = Inr (WR_RS, 1)"
| "resp_packet BWR = Inr (WR_RS, 1)"
| "resp_packet P_BWR = Inr (NONE, 0)"
| "resp_packet BWR8R = Inr (RD_RS, 2)"
| "resp_packet SWAP16 = Inr (RD_RS, 2)"
| "resp_packet HMCReq_SIZE = Inl AbruptExit"

text \<open>The enumerators from \<open>WR0\<close> to \<open>P_WR256\<close>.\<close>

definition is_write_req :: "HMCReqType \<Rightarrow> bool" where
  "is_write_req t \<longleftrightarrow>
     t \<in> set [WR0, WR16, WR32, WR48, WR64, WR80, WR96, WR112, WR128, WR256,
              P_WR16, P_WR32, P_WR48, P_WR64, P_WR80, P_WR96, P_WR112, P_WR128, P_WR256]"

text \<open>Links and exit times are set when a packet enters a queue.\<close>

record HMCRequest =
  hr_type :: HMCReqType
  mem_operand :: u64
  hr_link :: int
  hr_quad :: int
  hr_vault :: int
  hr_flits :: int
  hr_is_write :: bool
  hr_exit_time :: u64

record HMCResponse =
  resp_id :: u64
  rs_type :: HMCRespType
  rs_link :: int
  rs_quad :: int
  rs_flits :: int
  rs_exit_time :: u64

definition new_HMCRequest :: "HMCReqType \<Rightarrow> u64 \<Rightarrow> int \<Rightarrow> HMCRequest res" where
  "new_HMCRequest t hex vault =
     bind_res (req_flits t) (\<lambda>f.
     Inr \<lparr>hr_type = t, mem_operand = hex, hr_link = 0, hr_quad = vault smod 4, hr_vault = vault, hr_flits = f,
          hr_is_write = is_write_req t, hr_exit_time = 0\<rparr>)"

definition new_HMCResponse :: "u64 \<Rightarrow> HMCReqType \<Rightarrow> int \<Rightarrow> int \<Rightarrow> HMCResponse res" where
  "new_HMCResponse i t dest_link src_quad =
     bind_res (resp_packet t) (\<lambda>(rt, f).
     Inr \<lparr>resp_id = i, rs_type = rt, rs_link = dest_link, rs_quad = src_quad, rs_flits = f, rs_exit_time = 0\<rparr>)"

section \<open>State\<close>

text \<open>The table of responses is a multimap; equal keys keep the order of insertion and \<open>find\<close> returns the first.\<close>

record HMCMemorySystem = DRAMSystem +
  logic_clk :: u64
  ps_per_dram :: u64
  ps_per_logic :: u64
  logic_ps :: u64
  dram_ps :: u64
  next_link :: int
  links :: int
  queue_depth :: u64
  resp_lookup_table :: "(u64 \<times> HMCResponse) list"
  link_req_queues :: "HMCRequest list list"
  link_resp_queues :: "HMCResponse list list"
  quad_req_queues :: "HMCRequest list list"
  quad_resp_queues :: "HMCResponse list list"
  link_busy :: "int list"
  quad_busy :: "int list"
  link_age_counter :: "int list"
  quad_age_counter :: "int list"

text \<open>The logic clock in picoseconds.  The quotient is computed in floating point and truncated, which is the
  quotient of the integers; converting an infinite or negative quotient is undefined.\<close>

definition SetClockRatio :: "Config \<Rightarrow> (u64 \<times> u64) res" where
  "SetClockRatio c =
     bind_res (quot_int 128 (link_width c)) (\<lambda>link_cycles_per_flit.
     bind_res (quot_int (link_speed c) link_cycles_per_flit) (\<lambda>logic_speed.
     bind_res (quot_int 1000000 logic_speed) (\<lambda>q.
     bind_res (require OutOfBounds (0 \<le> q)) (\<lambda>_.
     let per_dram = 800; per_logic = to_u64 q
     in Inr (per_dram, if per_dram < per_logic then per_dram else per_logic)))))"

definition new_HMCMemorySystem :: "Config \<Rightarrow> u64 \<Rightarrow> Shared \<Rightarrow> HMCMemorySystem res" where
  "new_HMCMemorySystem c m sh =
     bind_res (require AbruptExit (IsHMC c)) (\<lambda>_.
     bind_res (SetClockRatio c) (\<lambda>(per_dram, per_logic).
     bind_res (fold_res (\<lambda>_ (ts, sh).
       bind_res (new_Controller c m sh) (\<lambda>t. Inr (ts @ [t], statics_of t))) [0..channels c - 1] ([], sh)) (\<lambda>(ts, sh).
     Inr \<lparr>sys_clk = 0, last_req_clk = 0, ctrls = ts, statics = sh,
          logic_clk = 0, ps_per_dram = per_dram, ps_per_logic = per_logic, logic_ps = 0, dram_ps = 0,
          next_link = 0, links = num_links c, queue_depth = to_u64 (xbar_queue_depth c), resp_lookup_table = [],
          link_req_queues = replicate (nat (num_links c)) [], link_resp_queues = replicate (nat (num_links c)) [],
          quad_req_queues = replicate 4 [], quad_resp_queues = replicate 4 [],
          link_busy = replicate (nat (num_links c)) 0, quad_busy = [0, 0, 0, 0],
          link_age_counter = replicate (nat (num_links c)) 0, quad_age_counter = [0, 0, 0, 0]\<rparr>)))"

section \<open>Requests\<close>

definition has_room :: "HMCMemorySystem \<Rightarrow> 'a list \<Rightarrow> bool" where
  "has_room h q \<longleftrightarrow> int (length q) < uint (queue_depth h)"

definition HMC_WillAcceptTransaction :: "HMCMemorySystem \<Rightarrow> u64 \<Rightarrow> bool \<Rightarrow> bool" where
  "HMC_WillAcceptTransaction h hex is_w \<longleftrightarrow> list_ex (has_room h) (link_req_queues h)"

definition IterateNextLink :: "HMCMemorySystem \<Rightarrow> HMCMemorySystem res" where
  "IterateNextLink h = bind_res (rem_int (next_link h + 1) (links h)) (\<lambda>k. Inr (h\<lparr>next_link := k\<rparr>))"

definition InsertReqToLink :: "HMCRequest \<Rightarrow> int \<Rightarrow> HMCMemorySystem \<Rightarrow> (bool \<times> HMCMemorySystem) res" where
  "InsertReqToLink req link h =
     bind_res (vec_get (link_req_queues h) link) (\<lambda>q.
     if has_room h q then
       let req = req\<lparr>hr_link := link\<rparr> in
       bind_res (vec_set (link_req_queues h) link (q @ [req])) (\<lambda>qs.
       bind_res (new_HMCResponse (mem_operand req) (hr_type req) link (hr_quad req)) (\<lambda>resp.
       bind_res (vec_set (link_age_counter h) link 1) (\<lambda>ages.
       Inr (True, h\<lparr>link_req_queues := qs, resp_lookup_table := resp_lookup_table h @ [(resp_id resp, resp)],
                    link_age_counter := ages, last_req_clk := sys_clk h\<rparr>))))
     else Inr (False, h))"

text \<open>The loop over the other links; \<open>None\<close> if it does not end.\<close>

partial_function (option) try_links :: "HMCRequest \<Rightarrow> int \<Rightarrow> HMCMemorySystem \<Rightarrow> (bool \<times> HMCMemorySystem) res option" where
  "try_links req start_link h =
     (if start_link = next_link h then Some (Inr (False, h))
      else case bind_res (InsertReqToLink req (next_link h) h) (\<lambda>(ok, h). bind_res (IterateNextLink h) (\<lambda>h. Inr (ok, h))) of
          Inl e \<Rightarrow> Some (Inl e)
        | Inr (ok, h) \<Rightarrow> if ok then Some (Inr (True, h)) else try_links req start_link h)"

definition or_diverges :: "'a res option \<Rightarrow> 'a res" where
  "or_diverges x = (case x of None \<Rightarrow> Inl Diverges | Some r \<Rightarrow> r)"

definition InsertHMCReq :: "HMCRequest \<Rightarrow> HMCMemorySystem \<Rightarrow> (bool \<times> HMCMemorySystem) res" where
  "InsertHMCReq req h =
     bind_res (InsertReqToLink req (next_link h) h) (\<lambda>(is_inserted, h1).
     bind_res (IterateNextLink h1) (\<lambda>h1.
     if is_inserted then Inr (True, h1) else or_diverges (try_links req (next_link h) h1)))"

definition block_req_type :: "int \<Rightarrow> bool \<Rightarrow> HMCReqType res" where
  "block_req_type sz is_w =
     (if is_w then
        if sz = 0 then Inr WR0 else if sz = 32 then Inr WR32 else if sz = 64 then Inr WR64
        else if sz = 128 then Inr WR128 else if sz = 256 then Inr WR256 else Inl AbruptExit
      else
        if sz = 0 then Inr RD0 else if sz = 32 then Inr RD32 else if sz = 64 then Inr RD64
        else if sz = 128 then Inr RD128 else if sz = 256 then Inr RD256 else Inl AbruptExit)"

definition HMC_AddTransaction :: "Config \<Rightarrow> u64 \<Rightarrow> bool \<Rightarrow> HMCMemorySystem \<Rightarrow> (bool \<times> HMCMemorySystem) res" where
  "HMC_AddTransaction c hex is_w h =
     bind_res (block_req_type (block_size c) is_w) (\<lambda>t.
     bind_res (GetChannel c hex) (\<lambda>vault.
     bind_res (new_HMCRequest t hex vault) (\<lambda>req. InsertHMCReq req h)))"

section \<open>Crossbars\<close>

text \<open>The order in which the inputs of a crossbar are served: the positions with packets, from a rotating start,
  each put before the first position smaller than its own age.\<close>

fun age_insert :: "int \<Rightarrow> int \<Rightarrow> int list \<Rightarrow> int list" where
  "age_insert age pos [] = [pos]"
| "age_insert age pos (it # its) = (if age > it then pos # it # its else it # age_insert age pos its)"

definition BuildAgeQueue :: "u64 \<Rightarrow> int list \<Rightarrow> int list res" where
  "BuildAgeQueue clk ages =
     bind_res (rem_word clk (to_u64 (int (length ages)))) (\<lambda>start_pos.
     Inr (fold (\<lambda>i q.
       let pos = (i + uint start_pos) mod int (length ages); age = ages ! nat pos
       in if age > 0 then age_insert age pos q else q) [0..int (length ages) - 1] []))"

text \<open>One input of a crossbar: the queues at the inputs and outputs, the busy counts of the outputs and the ages of
  the inputs.  \<open>room\<close> tests a queue, \<open>dest\<close> and \<open>flits\<close> read a packet and \<open>leave\<close> sets its exit time.\<close>

type_synonym 'a xbar = "'a list list \<times> 'a list list \<times> int list \<times> int list"

definition xbar_move :: "('a list \<Rightarrow> bool) \<Rightarrow> ('a \<Rightarrow> int) \<Rightarrow> ('a \<Rightarrow> int) \<Rightarrow> ('a \<Rightarrow> 'a) \<Rightarrow> int \<Rightarrow> 'a xbar \<Rightarrow> 'a xbar res" where
  "xbar_move room dest flits leave src = (\<lambda>(ins, outs, busy, ages).
     bind_res (vec_get ins src) (\<lambda>q.
     case q of
       [] \<Rightarrow> Inl OutOfBounds
     | p # rest \<Rightarrow>
         bind_res (vec_get outs (dest p)) (\<lambda>out.
         bind_res (vec_get busy (dest p)) (\<lambda>b.
         if room out \<and> b \<le> 0 then
           bind_res (vec_set ins src rest) (\<lambda>ins.
           bind_res (vec_set outs (dest p) (out @ [leave p])) (\<lambda>outs.
           bind_res (vec_set busy (dest p) (flits p)) (\<lambda>busy.
           bind_res (vec_set ages src (if rest = [] then 0 else 1)) (\<lambda>ages.
           Inr (ins, outs, busy, ages)))))
         else bind_res (vec_upd ages src (\<lambda>a. a + 1)) (\<lambda>ages. Inr (ins, outs, busy, ages))))))"

definition drain_busy :: "int list \<Rightarrow> int list" where
  "drain_busy = map (\<lambda>i. if i > 0 then i - 2 else i)"

definition xbar_drain ::
  "u64 \<Rightarrow> ('a list \<Rightarrow> bool) \<Rightarrow> ('a \<Rightarrow> int) \<Rightarrow> ('a \<Rightarrow> int) \<Rightarrow> ('a \<Rightarrow> 'a) \<Rightarrow> 'a xbar \<Rightarrow> 'a xbar res" where
  "xbar_drain clk room dest flits leave = (\<lambda>(ins, outs, busy, ages).
     bind_res (BuildAgeQueue clk ages) (\<lambda>age_queue.
     fold_res (xbar_move room dest flits leave) age_queue (ins, outs, drain_busy busy, ages)))"

text \<open>The first request of a quadrant goes to its vault.\<close>

definition InsertReqToDRAM :: "HMCRequest \<Rightarrow> HMCMemorySystem \<Rightarrow> HMCMemorySystem res" where
  "InsertReqToDRAM req h =
     bind_res (vec_upd (ctrls h) (hr_vault req)
       (\<lambda>t. snd (Controller_AddTransaction (mk_Transaction (mem_operand req) (hr_is_write req)) t))) (\<lambda>ts.
     Inr (h\<lparr>ctrls := ts\<rparr>))"

definition drain_quad :: "Build \<Rightarrow> int \<Rightarrow> HMCMemorySystem \<Rightarrow> HMCMemorySystem res" where
  "drain_quad bo i h =
     bind_res (vec_get (quad_req_queues h) i) (\<lambda>q.
     case q of
       [] \<Rightarrow> Inr h
     | req # rest \<Rightarrow>
         bind_res (vec_get (quad_resp_queues h) i) (\<lambda>rq.
         if has_room h rq \<and> hr_exit_time req \<le> logic_clk h then
           bind_res (vec_get (ctrls h) (hr_vault req)) (\<lambda>t.
           if Controller_WillAcceptTransaction bo t (hr_is_write req) then
             bind_res (InsertReqToDRAM req h) (\<lambda>h.
             bind_res (vec_set (quad_req_queues h) i rest) (\<lambda>qs. Inr (h\<lparr>quad_req_queues := qs\<rparr>)))
           else Inr h)
         else Inr h))"

definition DrainRequests :: "Build \<Rightarrow> HMCMemorySystem \<Rightarrow> HMCMemorySystem res" where
  "DrainRequests bo h =
     bind_res (fold_res (drain_quad bo) [0..3] h) (\<lambda>h.
     bind_res (xbar_drain (logic_clk h) (has_room h) hr_quad hr_flits
         (\<lambda>req. req\<lparr>hr_exit_time := logic_clk h + to_u64 (hr_flits req)\<rparr>)
         (link_req_queues h, quad_req_queues h, quad_busy h, link_age_counter h)) (\<lambda>(lqs, qqs, busy, ages).
     Inr (h\<lparr>link_req_queues := lqs, quad_req_queues := qqs, quad_busy := busy, link_age_counter := ages\<rparr>)))"

text \<open>The first response of a link leaves the cube; it is reported as a read or as a write.\<close>

definition drain_link :: "int \<Rightarrow> (u64 \<times> bool) list \<times> HMCMemorySystem \<Rightarrow> ((u64 \<times> bool) list \<times> HMCMemorySystem) res" where
  "drain_link i = (\<lambda>(es, h).
     bind_res (vec_get (link_resp_queues h) i) (\<lambda>q.
     case q of
       [] \<Rightarrow> Inr (es, h)
     | resp # rest \<Rightarrow>
         if rs_exit_time resp \<le> logic_clk h then
           bind_res (vec_set (link_resp_queues h) i rest) (\<lambda>qs.
           Inr (es @ [(resp_id resp, rs_type resp \<noteq> RD_RS)], h\<lparr>link_resp_queues := qs\<rparr>))
         else Inr (es, h)))"

definition DrainResponses :: "HMCMemorySystem \<Rightarrow> ((u64 \<times> bool) list \<times> HMCMemorySystem) res" where
  "DrainResponses h =
     bind_res (fold_res drain_link [0..links h - 1] ([], h)) (\<lambda>(es, h).
     bind_res (xbar_drain (logic_clk h) (has_room h) rs_link rs_flits
         (\<lambda>resp. resp\<lparr>rs_exit_time := logic_clk h + to_u64 (rs_flits resp)\<rparr>)
         (quad_resp_queues h, link_resp_queues h, link_busy h, quad_age_counter h)) (\<lambda>(qqs, lqs, busy, ages).
     Inr (es, h\<lparr>quad_resp_queues := qqs, link_resp_queues := lqs, link_busy := busy, quad_age_counter := ages\<rparr>)))"

section \<open>A cycle\<close>

definition VaultCallback :: "u64 \<Rightarrow> HMCMemorySystem \<Rightarrow> HMCMemorySystem res" where
  "VaultCallback req_id h =
     (case find (\<lambda>x. fst x = req_id) (resp_lookup_table h) of
        None \<Rightarrow> Inl OutOfBounds
      | Some (_, resp) \<Rightarrow>
          bind_res (vec_upd (quad_resp_queues h) (rs_quad resp) (\<lambda>q. q @ [resp])) (\<lambda>qs.
          bind_res (vec_set (quad_age_counter h) (rs_quad resp) 1) (\<lambda>ages.
          Inr (h\<lparr>resp_lookup_table := erase_first (\<lambda>x. fst x = req_id) (resp_lookup_table h),
                 quad_resp_queues := qs, quad_age_counter := ages\<rparr>))))"

definition DRAMClockTick :: "Build \<Rightarrow> Config \<Rightarrow> Timing \<Rightarrow> HMCMemorySystem \<Rightarrow> HMCMemorySystem res" where
  "DRAMClockTick bo c tm h =
     (let (es, ts) = drain_all (sys_clk h) (ctrls h) in
      bind_res (fold_res (\<lambda>(a, _). VaultCallback a) es (h\<lparr>ctrls := ts\<rparr>)) (\<lambda>h.
      bind_res (tick_all bo c tm (ctrls h) (statics h)) (\<lambda>(ts, sh).
      let h = h\<lparr>ctrls := ts, statics := sh, sys_clk := sys_clk h + 1\<rparr> in
      bind_res (rem_word (sys_clk h) (to_u64 (epoch_period c))) (\<lambda>m.
      if m = 0 then bind_res (print_epoch_all (ctrls h)) (\<lambda>ts. Inr (h\<lparr>ctrls := ts\<rparr>)) else Inr h))))"

definition logic_tick :: "HMCMemorySystem \<Rightarrow> HMCMemorySystem" where
  "logic_tick h = h\<lparr>logic_ps := logic_ps h + ps_per_logic h, logic_clk := logic_clk h + 1\<rparr>"

definition logic_cycle :: "Build \<Rightarrow> HMCMemorySystem \<Rightarrow> ((u64 \<times> bool) list \<times> HMCMemorySystem) res" where
  "logic_cycle bo h =
     bind_res (DrainResponses h) (\<lambda>(es, h).
     bind_res (DrainRequests bo h) (\<lambda>h. Inr (es, logic_tick h)))"

partial_function (option) logic_loop ::
  "Build \<Rightarrow> (u64 \<times> bool) list \<Rightarrow> HMCMemorySystem \<Rightarrow> ((u64 \<times> bool) list \<times> HMCMemorySystem) res option" where
  "logic_loop bo es h =
     (if logic_ps h < dram_ps h + ps_per_dram h then
        case logic_cycle bo h of
          Inl e \<Rightarrow> Some (Inl e)
        | Inr (es', h) \<Rightarrow> logic_loop bo (es @ es') h
      else Some (Inr (es, h)))"

definition HMC_ClockTick :: "Build \<Rightarrow> Config \<Rightarrow> Timing \<Rightarrow> HMCMemorySystem \<Rightarrow> ((u64 \<times> bool) list \<times> HMCMemorySystem) res" where
  "HMC_ClockTick bo c tm h =
     bind_res
       (if dram_ps h = logic_ps h then
          bind_res (DrainResponses h) (\<lambda>(es, h).
          bind_res (DRAMClockTick bo c tm h) (\<lambda>h.
          bind_res (DrainRequests bo h) (\<lambda>h. Inr (es, logic_tick h))))
        else bind_res (DRAMClockTick bo c tm h) (\<lambda>h. Inr ([], h))) (\<lambda>(es, h).
     bind_res (or_diverges (logic_loop bo es h)) (\<lambda>(es, h).
     Inr (es, h\<lparr>dram_ps := dram_ps h + ps_per_dram h\<rparr>)))"

section \<open>The choice of the memory system\<close>

datatype MemorySystem = Jedec DRAMSystem | Cube HMCMemorySystem

definition new_MemorySystem :: "Config \<Rightarrow> u64 \<Rightarrow> Shared \<Rightarrow> MemorySystem res" where
  "new_MemorySystem c m sh =
     (if IsHMC c then bind_res (new_HMCMemorySystem c m sh) (\<lambda>h. Inr (Cube h))
      else bind_res (new_JedecDRAMSystem c m sh) (\<lambda>s. Inr (Jedec s)))"

fun MemorySystem_WillAcceptTransaction :: "Build \<Rightarrow> Config \<Rightarrow> MemorySystem \<Rightarrow> u64 \<Rightarrow> bool \<Rightarrow> bool res" where
  "MemorySystem_WillAcceptTransaction bo c (Jedec s) hex is_w = Jedec_WillAcceptTransaction bo c s hex is_w"
| "MemorySystem_WillAcceptTransaction bo c (Cube h) hex is_w = Inr (HMC_WillAcceptTransaction h hex is_w)"

fun MemorySystem_AddTransaction :: "Build \<Rightarrow> Config \<Rightarrow> u64 \<Rightarrow> bool \<Rightarrow> MemorySystem \<Rightarrow> (bool \<times> MemorySystem) res" where
  "MemorySystem_AddTransaction bo c hex is_w (Jedec s) = bind_res (Jedec_AddTransaction bo c hex is_w s) (\<lambda>(ok, s). Inr (ok, Jedec s))"
| "MemorySystem_AddTransaction bo c hex is_w (Cube h) = bind_res (HMC_AddTransaction c hex is_w h) (\<lambda>(ok, h). Inr (ok, Cube h))"

fun MemorySystem_ClockTick :: "Build \<Rightarrow> Config \<Rightarrow> Timing \<Rightarrow> MemorySystem \<Rightarrow> ((u64 \<times> bool) list \<times> MemorySystem) res" where
  "MemorySystem_ClockTick bo c tm (Jedec s) = bind_res (Jedec_ClockTick bo c tm s) (\<lambda>(es, s). Inr (es, Jedec s))"
| "MemorySystem_ClockTick bo c tm (Cube h) = bind_res (HMC_ClockTick bo c tm h) (\<lambda>(es, h). Inr (es, Cube h))"

fun MemorySystem_ResetStats :: "MemorySystem \<Rightarrow> MemorySystem" where
  "MemorySystem_ResetStats (Jedec s) = Jedec (Jedec_ResetStats s)"
| "MemorySystem_ResetStats (Cube h) = Cube (h\<lparr>ctrls := map Controller_ResetStats (ctrls h)\<rparr>)"

end
