(* ===== verification/CPU_Front.thy ===== *)
theory CPU_Front
  imports HMC_System
begin

text \<open>
  The processors of the stand-alone DRAM simulator (\<open>DRAMsim3/src/cpu.h\<close>, \<open>cpu.cc\<close>) and their main programs
  (\<open>main.cc\<close>, \<open>covert_channel.cc\<close>).  Each owns a memory system, runs it for one cycle and offers it requests.  The
  callbacks of these processors do nothing; the answers of a cycle are returned as for the memory systems.
  A random engine is the sequence of its draws and a position in it.
\<close>

section \<open>Requests\<close>

record CPU =
  memory_system :: MemorySystem
  cpu_clk :: u64

text \<open>A request that is made only if the memory accepts it.\<close>

definition offer :: "Build \<Rightarrow> Config \<Rightarrow> u64 \<Rightarrow> bool \<Rightarrow> MemorySystem \<Rightarrow> (bool \<times> MemorySystem) res" where
  "offer bo c a w ms =
     bind_res (MemorySystem_WillAcceptTransaction bo c ms a w) (\<lambda>ok.
     if ok then bind_res (MemorySystem_AddTransaction bo c a w ms) (\<lambda>(_, ms). Inr (True, ms)) else Inr (False, ms))"

record Gen =
  gen_seq :: "nat \<Rightarrow> u64"
  gen_pos :: nat

definition draw :: "Gen \<Rightarrow> u64 \<times> Gen" where
  "draw g = (gen_seq g (gen_pos g), g\<lparr>gen_pos := Suc (gen_pos g)\<rparr>)"

section \<open>Random requests\<close>

record RandomCPU = CPU +
  last_addr :: u64
  last_write :: bool
  rc_gen :: Gen
  rc_get_next :: bool

text \<open>\<open>last_addr_\<close> is not initialised; the first cycle sets it.\<close>

definition new_RandomCPU :: "u64 \<Rightarrow> Gen \<Rightarrow> MemorySystem \<Rightarrow> RandomCPU" where
  "new_RandomCPU a g ms = \<lparr>memory_system = ms, cpu_clk = 0, last_addr = a, last_write = False, rc_gen = g, rc_get_next = True\<rparr>"

definition random_next :: "RandomCPU \<Rightarrow> RandomCPU" where
  "random_next p =
     (if rc_get_next p then
        let (a, g) = draw (rc_gen p); (x, g) = draw g
        in p\<lparr>last_addr := a, last_write := (x mod 3 = 0), rc_gen := g\<rparr>
      else p)"

definition RandomCPU_ClockTick :: "Build \<Rightarrow> Config \<Rightarrow> Timing \<Rightarrow> RandomCPU \<Rightarrow> ((u64 \<times> bool) list \<times> RandomCPU) res" where
  "RandomCPU_ClockTick bo c tm p =
     bind_res (MemorySystem_ClockTick bo c tm (memory_system p)) (\<lambda>(es, ms).
     let p = random_next p in
     bind_res (offer bo c (last_addr p) (last_write p) ms) (\<lambda>(ok, ms).
     Inr (es, p\<lparr>memory_system := ms, rc_get_next := ok, cpu_clk := cpu_clk p + 1\<rparr>)))"

section \<open>Streams\<close>

record StreamCPU = CPU +
  addr_a :: u64
  addr_b :: u64
  addr_c :: u64
  st_offset :: u64
  st_gen :: Gen
  inserted_a :: bool
  inserted_b :: bool
  inserted_c :: bool

definition array_size :: u64 where "array_size = 2 * 2 ^ 20"
definition stride :: u64 where "stride = 64"

definition new_StreamCPU :: "u64 \<times> u64 \<times> u64 \<Rightarrow> Gen \<Rightarrow> MemorySystem \<Rightarrow> StreamCPU" where
  "new_StreamCPU = (\<lambda>(a, b, x) g ms.
     \<lparr>memory_system = ms, cpu_clk = 0, addr_a = a, addr_b = b, addr_c = x, st_offset = 0, st_gen = g,
      inserted_a = False, inserted_b = False, inserted_c = False\<rparr>)"

definition stream_arrays :: "StreamCPU \<Rightarrow> StreamCPU" where
  "stream_arrays p =
     (if st_offset p \<ge> array_size \<or> cpu_clk p = 0 then
        let (a, g) = draw (st_gen p); (b, g) = draw g; (x, g) = draw g
        in p\<lparr>addr_a := a, addr_b := b, addr_c := x, st_offset := 0, st_gen := g\<rparr>
      else p)"

definition stream_insert :: "Build \<Rightarrow> Config \<Rightarrow> bool \<Rightarrow> u64 \<Rightarrow> bool \<Rightarrow> MemorySystem \<Rightarrow> (bool \<times> MemorySystem) res" where
  "stream_insert bo c inserted a w ms = (if \<not> inserted then offer bo c a w ms else Inr (inserted, ms))"

definition stream_next :: "StreamCPU \<Rightarrow> StreamCPU" where
  "stream_next p =
     (if inserted_a p \<and> inserted_b p \<and> inserted_c p then
        p\<lparr>st_offset := st_offset p + stride, inserted_a := False, inserted_b := False, inserted_c := False\<rparr>
      else p)"

definition StreamCPU_ClockTick :: "Build \<Rightarrow> Config \<Rightarrow> Timing \<Rightarrow> StreamCPU \<Rightarrow> ((u64 \<times> bool) list \<times> StreamCPU) res" where
  "StreamCPU_ClockTick bo c tm p =
     bind_res (MemorySystem_ClockTick bo c tm (memory_system p)) (\<lambda>(es, ms).
     let p = stream_arrays p in
     bind_res (stream_insert bo c (inserted_a p) (addr_a p + st_offset p) False ms) (\<lambda>(a, ms).
     bind_res (stream_insert bo c (inserted_b p) (addr_b p + st_offset p) False ms) (\<lambda>(b, ms).
     bind_res (stream_insert bo c (inserted_c p) (addr_c p + st_offset p) True ms) (\<lambda>(x, ms).
     let p = stream_next (p\<lparr>memory_system := ms, inserted_a := a, inserted_b := b, inserted_c := x\<rparr>) in
     Inr (es, p\<lparr>cpu_clk := cpu_clk p + 1\<rparr>)))))"
section \<open>Traces\<close>

text \<open>A trace file is the list of its records (address, operation and cycle), and whether white space follows the
  last one.  Reading the last record of a file that ends with it meets the end of the file.  A read past the last
  record fails: it sets the end-of-file flag and changes no number, and the operation is the empty string.\<close>

record TraceFile =
  tf_records :: "(u64 \<times> string \<times> u64) list"
  tf_space :: bool
  tf_eof :: bool

definition write_types :: "string list" where
  "write_types = [''WRITE'', ''write'', ''P_MEM_WR'', ''BOFF'']"

fun read_Transaction :: "TraceFile \<Rightarrow> Transaction \<Rightarrow> Transaction \<times> TraceFile" where
  "read_Transaction f t =
     (case tf_records f of
        [] \<Rightarrow> (t\<lparr>is_write := False\<rparr>, f\<lparr>tf_eof := True\<rparr>)
      | (a, mem_op, cyc) # rs \<Rightarrow>
          (t\<lparr>trans_addr := a, added_cycle := cyc, is_write := mem_op \<in> set write_types\<rparr>,
           f\<lparr>tf_records := rs, tf_eof := (rs = [] \<and> \<not> tf_space f)\<rparr>))"

record TraceBasedCPU = CPU +
  trace_file :: TraceFile
  tb_trans :: Transaction
  tb_get_next :: bool

definition new_TraceBasedCPU :: "Transaction \<Rightarrow> TraceFile option \<Rightarrow> MemorySystem \<Rightarrow> TraceBasedCPU res" where
  "new_TraceBasedCPU t file ms =
     (case file of
        None \<Rightarrow> Inl AbruptExit
      | Some f \<Rightarrow> Inr \<lparr>memory_system = ms, cpu_clk = 0, trace_file = f, tb_trans = t, tb_get_next = True\<rparr>)"

definition trace_read :: "TraceBasedCPU \<Rightarrow> TraceBasedCPU" where
  "trace_read p =
     (if tb_get_next p then
        let (t, f) = read_Transaction (trace_file p) (tb_trans p)
        in p\<lparr>tb_get_next := False, tb_trans := t, trace_file := f\<rparr>
      else p)"

definition TraceBasedCPU_ClockTick :: "Build \<Rightarrow> Config \<Rightarrow> Timing \<Rightarrow> TraceBasedCPU \<Rightarrow> ((u64 \<times> bool) list \<times> TraceBasedCPU) res" where
  "TraceBasedCPU_ClockTick bo c tm p =
     bind_res (MemorySystem_ClockTick bo c tm (memory_system p)) (\<lambda>(es, ms).
     bind_res
       (if \<not> tf_eof (trace_file p) then
          let p = trace_read p in
          if added_cycle (tb_trans p) \<le> cpu_clk p then
            bind_res (offer bo c (trans_addr (tb_trans p)) (is_write (tb_trans p)) ms) (\<lambda>(ok, ms).
            Inr (p\<lparr>memory_system := ms, tb_get_next := ok\<rparr>))
          else Inr (p\<lparr>memory_system := ms\<rparr>)
        else Inr (p\<lparr>memory_system := ms\<rparr>)) (\<lambda>p.
     Inr (es, p\<lparr>cpu_clk := cpu_clk p + 1\<rparr>)))"

section \<open>The covert channel\<close>

record CovChCPU = CPU +
  cc_gen :: Gen
  ref_window :: u64
  ref_window_idx :: u64
  prev_window_idx :: u64
  send_init :: bool
  send_addr :: u64
  send_row_idx :: u64
  send_window_reqs :: u64
  last_send_req_clk :: u64
  send_limit :: u64
  send_req_dist :: u64
  send0_limit :: u64
  send0_req_dist :: u64
  send1_limit :: u64
  send1_req_dist :: u64
  recv_addr :: u64
  recv_row_idx :: u64
  recv_window_reqs :: u64
  last_recv_req_clk :: u64
  recv_limit :: u64
  recv_req_dist :: u64

definition warmup_idx :: u64 where "warmup_idx = 2"
definition send_init_reqs :: "u64 list" where "send_init_reqs = [70, 42, 48, 16, 16]"
definition spill_buffer :: u64 where "spill_buffer = 300"
definition recv_footer :: u64 where "recv_footer = 150"
definition row_offset :: u64 where "row_offset = 512 * 1024"
definition max_rows :: u64 where "max_rows = 100"

text \<open>The addresses and windows that have no initial value are set by \<open>Init\<close> and by the first cycle.\<close>

definition new_CovChCPU :: "Gen \<Rightarrow> MemorySystem \<Rightarrow> CovChCPU" where
  "new_CovChCPU g ms =
     \<lparr>memory_system = ms, cpu_clk = 0, cc_gen = g, ref_window = 0, ref_window_idx = 0, prev_window_idx = -1, send_init = False, send_addr = 0,
      send_row_idx = 0, send_window_reqs = 0, last_send_req_clk = 0, send_limit = 0, send_req_dist = 0, send0_limit = 0, send0_req_dist = 0,
      send1_limit = 0, send1_req_dist = 0, recv_addr = 0, recv_row_idx = 0, recv_window_reqs = 0, last_recv_req_clk = 0, recv_limit = 0,
      recv_req_dist = 0\<rparr>"

definition CovChCPU_Init :: "Config \<Rightarrow> CovChCPU \<Rightarrow> CovChCPU res" where
  "CovChCPU_Init c p =
     (let ch_mask = xor (push_bit 13 1) (-1); size_mask = push_bit 35 1 - 1;
          (x, g) = draw (cc_gen p); base_addr = and (and x ch_mask) size_mask;
          recv = and base_addr (xor (push_bit 14 0x1F) (-1)) in
      bind_res (AddressMapping c recv) (\<lambda>_.
      let rlimit = to_u64 (ref_raa_decrement c); time = to_u64 (tREFI c - tRFC c) - spill_buffer in
      bind_res (div_word (time - recv_footer) rlimit) (\<lambda>rdist.
      let send = and base_addr (xor (push_bit 14 0x0F) (-1)) in
      bind_res (AddressMapping c send) (\<lambda>_.
      bind_res (div_word time (to_u64 (ref_raa_decrement c))) (\<lambda>sdist0.
      let limit1 = to_u64 (rfm_raa_decrement c + ref_raa_decrement c) in
      bind_res (div_word (time - recv_footer - rdist * 2) limit1) (\<lambda>sdist1.
      Inr (p\<lparr>cc_gen := g, recv_addr := recv, recv_limit := rlimit, recv_req_dist := rdist, send_init := False, send_addr := send,
             send0_limit := to_u64 (ref_raa_decrement c), send0_req_dist := sdist0, send1_limit := limit1, send1_req_dist := sdist1\<rparr>)))))))"

definition new_window :: "CovChCPU \<Rightarrow> bool" where
  "new_window p \<longleftrightarrow> prev_window_idx p \<noteq> ref_window_idx p"

text \<open>The first part of the sender tells whether it returns early.\<close>

definition send_warmup :: "CovChCPU \<Rightarrow> (bool \<times> CovChCPU) res" where
  "send_warmup p =
     (if \<not> send_init p then
        if ref_window_idx p - warmup_idx \<ge> 5 then Inr (False, p\<lparr>send_init := True\<rparr>)
        else bind_res (vec_get send_init_reqs (uint (ref_window_idx p - warmup_idx))) (\<lambda>n. Inr (send_window_reqs p \<ge> n, p))
      else Inr (False, p))"

definition send_bit :: "CovChCPU \<Rightarrow> CovChCPU" where
  "send_bit p =
     (if new_window p then
        let (x, g) = draw (cc_gen p); p = p\<lparr>cc_gen := g\<rparr>
        in if x mod 2 = 0 then p\<lparr>send_limit := send0_limit p, send_req_dist := send0_req_dist p\<rparr>
           else p\<lparr>send_limit := send1_limit p, send_req_dist := send1_req_dist p\<rparr>
      else p)"

definition send_waits :: "Config \<Rightarrow> CovChCPU \<Rightarrow> bool" where
  "send_waits c p \<longleftrightarrow>
     send_window_reqs p \<ge> send_limit p \<or> ref_window p < spill_buffer + to_u64 (tRFC c) \<or> cpu_clk p - last_send_req_clk p < send_req_dist p"

definition send_request :: "Build \<Rightarrow> Config \<Rightarrow> CovChCPU \<Rightarrow> CovChCPU res" where
  "send_request bo c p =
     bind_res (offer bo c (send_addr p + send_row_idx p * row_offset) False (memory_system p)) (\<lambda>(ok, ms).
     let p = p\<lparr>memory_system := ms\<rparr> in
     Inr (if ok then p\<lparr>send_row_idx := (send_row_idx p + 1) mod max_rows, send_window_reqs := send_window_reqs p + 1,
                       last_send_req_clk := cpu_clk p\<rparr>
          else p))"

definition TickSend :: "Build \<Rightarrow> Config \<Rightarrow> CovChCPU \<Rightarrow> CovChCPU res" where
  "TickSend bo c p =
     (let p = (if new_window p then p\<lparr>send_window_reqs := 0\<rparr> else p) in
      bind_res (send_warmup p) (\<lambda>(stop, p).
      if stop then Inr p
      else if send_init p then
        let p = send_bit p in if send_waits c p then Inr p else send_request bo c p
      else send_request bo c p))"

definition recv_request :: "Build \<Rightarrow> Config \<Rightarrow> CovChCPU \<Rightarrow> CovChCPU res" where
  "recv_request bo c p =
     bind_res (offer bo c (recv_addr p + recv_row_idx p * row_offset) False (memory_system p)) (\<lambda>(ok, ms).
     let p = p\<lparr>memory_system := ms\<rparr> in
     Inr (if ok then p\<lparr>recv_row_idx := (recv_row_idx p + 1) mod max_rows, recv_window_reqs := recv_window_reqs p + 1,
                       last_recv_req_clk := cpu_clk p\<rparr>
          else p))"

definition TickRecv :: "Build \<Rightarrow> Config \<Rightarrow> CovChCPU \<Rightarrow> CovChCPU res" where
  "TickRecv bo c p =
     (let p = (if new_window p then p\<lparr>recv_window_reqs := 0\<rparr> else p) in
      if \<not> send_init p then Inr p
      else if ref_window p < spill_buffer + to_u64 (tRFC c) then Inr p
      else if cpu_clk p - last_recv_req_clk p < recv_req_dist p then Inr p
      else if recv_window_reqs p \<ge> to_u64 (ref_raa_decrement c) then Inr p
      else recv_request bo c p)"

definition CovChCPU_ClockTick :: "Build \<Rightarrow> Config \<Rightarrow> Timing \<Rightarrow> CovChCPU \<Rightarrow> ((u64 \<times> bool) list \<times> CovChCPU) res" where
  "CovChCPU_ClockTick bo c tm p =
     bind_res (MemorySystem_ClockTick bo c tm (memory_system p)) (\<lambda>(es, ms).
     bind_res (rem_word (cpu_clk p) (to_u64 (tREFI c))) (\<lambda>w.
     let p = p\<lparr>memory_system := ms, ref_window := w, ref_window_idx := cpu_clk p div to_u64 (tREFI c)\<rparr> in
     bind_res
       (if cpu_clk p < to_u64 (tREFI c) * warmup_idx then Inr p
        else bind_res (TickSend bo c p) (TickRecv bo c)) (\<lambda>p.
     Inr (es, p\<lparr>prev_window_idx := ref_window_idx p, cpu_clk := cpu_clk p + 1\<rparr>))))"

section \<open>The main programs\<close>

datatype FrontEnd = Random_CPU RandomCPU | Stream_CPU StreamCPU | Trace_CPU TraceBasedCPU | CovCh_CPU CovChCPU

fun CPU_ClockTick :: "Build \<Rightarrow> Config \<Rightarrow> Timing \<Rightarrow> FrontEnd \<Rightarrow> ((u64 \<times> bool) list \<times> FrontEnd) res" where
  "CPU_ClockTick bo c tm (Random_CPU p) = bind_res (RandomCPU_ClockTick bo c tm p) (\<lambda>(es, p). Inr (es, Random_CPU p))"
| "CPU_ClockTick bo c tm (Stream_CPU p) = bind_res (StreamCPU_ClockTick bo c tm p) (\<lambda>(es, p). Inr (es, Stream_CPU p))"
| "CPU_ClockTick bo c tm (Trace_CPU p) = bind_res (TraceBasedCPU_ClockTick bo c tm p) (\<lambda>(es, p). Inr (es, Trace_CPU p))"
| "CPU_ClockTick bo c tm (CovCh_CPU p) = bind_res (CovChCPU_ClockTick bo c tm p) (\<lambda>(es, p). Inr (es, CovCh_CPU p))"

text \<open>The processor that \<open>main.cc\<close> builds from the options \<open>-t\<close> and \<open>-s\<close>, and the one of \<open>covert_channel.cc\<close>.  \<open>open_file\<close> opens a file;
  \<open>t\<close> and the addresses \<open>a\<close>, \<open>b\<close> and \<open>x\<close> are the contents of the members without initial value.\<close>

definition choose_cpu ::
  "(string \<Rightarrow> TraceFile option) \<Rightarrow> string \<Rightarrow> string \<Rightarrow> Transaction \<Rightarrow> u64 \<times> u64 \<times> u64 \<Rightarrow> Gen \<Rightarrow> MemorySystem \<Rightarrow> FrontEnd res" where
  "choose_cpu open_file trace_name stream_type t = (\<lambda>(a, b, x) g ms.
     if trace_name \<noteq> [] then bind_res (new_TraceBasedCPU t (open_file trace_name) ms) (\<lambda>p. Inr (Trace_CPU p))
     else if stream_type = ''stream'' \<or> stream_type = ''s'' then Inr (Stream_CPU (new_StreamCPU (a, b, x) g ms))
     else Inr (Random_CPU (new_RandomCPU a g ms)))"

definition covert_cpu :: "Config \<Rightarrow> Gen \<Rightarrow> MemorySystem \<Rightarrow> FrontEnd res" where
  "covert_cpu c g ms = bind_res (CovChCPU_Init c (new_CovChCPU g ms)) (\<lambda>p. Inr (CovCh_CPU p))"

fun run_cycles :: "Build \<Rightarrow> Config \<Rightarrow> Timing \<Rightarrow> nat \<Rightarrow> FrontEnd \<Rightarrow> ((u64 \<times> bool) list \<times> FrontEnd) res" where
  "run_cycles bo c tm 0 p = Inr ([], p)"
| "run_cycles bo c tm (Suc n) p =
     bind_res (CPU_ClockTick bo c tm p) (\<lambda>(es, p).
     bind_res (run_cycles bo c tm n p) (\<lambda>(es', p). Inr (es @ es', p)))"

end
