(* ===== verification/HMC_Correct.thy ===== *)
theory HMC_Correct
  imports HMC_System DRAM_Correct
begin

text \<open>
  Correctness of the memory cube: every packet that enters a crossbar leaves it once, the table of responses
  holds one response for every request that is on its way to a vault or open in it, so each answer of a vault
  finds its response and each request is answered by one callback; a cycle ends, and the two clocks keep
  their ratio.
\<close>

section \<open>Queues\<close>

definition held :: "'a list list \<Rightarrow> 'a multiset" where
  "held qs = sum_list (map mset qs)"

lemma held_Cons [simp]: "held [] = {#}" "held (q # qs) = mset q + held qs"
  by (simp_all add: held_def)

lemma held_replicate [simp]: "held (replicate n []) = {#}"
  by (induction n) simp_all

lemma held_pop:
  assumes "i < length qs" and "qs ! i = p # rest"
  shows "held qs = add_mset p (held (qs[i := rest]))"
  using sum_list_upd [OF assms(1), of mset rest] assms(2) by (simp add: held_def)

lemma held_push: "i < length qs \<Longrightarrow> held (qs[i := qs ! i @ [p]]) = add_mset p (held qs)"
  using sum_list_upd [of i qs mset "qs ! i @ [p]"] by (simp add: held_def)

lemma held_nth: "i < length qs \<Longrightarrow> p \<in> set (qs ! i) \<Longrightarrow> p \<in># held qs"
proof (induction qs arbitrary: i)
  case (Cons q qs)
  then show ?case by (cases i) auto
qed simp

lemma has_room_less: "has_room h q \<longleftrightarrow> length q < unat (queue_depth h)"
  by (simp add: has_room_def zless_nat_eq_int_zless flip: nat_uint_eq)

section \<open>The order of the inputs\<close>

lemma age_insert_mset: "mset (age_insert a p q) = add_mset p (mset q)"
  by (induction q) auto

definition turn :: "nat \<Rightarrow> int \<Rightarrow> int \<Rightarrow> int" where
  "turn n s i = (i + s) mod int n"

lemma turns_all:
  assumes "0 < n"
  shows "inj_on (turn n s) {0..<int n}" and "turn n s ` {0..<int n} = {0..<int n}"
proof -
  show inj: "inj_on (turn n s) {0..<int n}"
  proof (rule inj_onI)
    fix x y assume x: "x \<in> {0..<int n}" and y: "y \<in> {0..<int n}" and eq: "turn n s x = turn n s y"
    have "int n dvd (x + s) - (y + s)" using eq by (simp add: turn_def mod_eq_dvd_iff)
    then have "x mod int n = y mod int n" by (simp add: mod_eq_dvd_iff)
    then show "x = y" using x y by simp
  qed
  have "turn n s ` {0..<int n} \<subseteq> {0..<int n}" using assms by (auto simp: turn_def)
  then show "turn n s ` {0..<int n} = {0..<int n}" using inj by (intro endo_inj_surj) simp_all
qed

text \<open>The inputs with packets are served, each once.\<close>

lemma BuildAgeQueue_ok:
  assumes "ages \<noteq> []" and "length ages < 2 ^ 64"
  shows "succeeds (BuildAgeQueue clk ages) (\<lambda>q. distinct q \<and> set q = {i. 0 \<le> i \<and> i < int (length ages) \<and> 0 < ages ! nat i})"
proof -
  let ?n = "length ages"
  have "uint (to_u64 (int ?n)) = int ?n" using assms(2) by (simp add: uint_nat unsigned_of_nat take_bit_nat_eq_self)
  then have nz: "to_u64 (int ?n) \<noteq> 0" using assms(1) by (metis length_0_conv of_nat_eq_0_iff unsigned_0)
  define f where "f = (\<lambda>s i q. let pos = (i + s) mod int ?n; age = ages ! nat pos in if age > 0 then age_insert age pos q else q)"
  have "mset (fold (f s) xs q) = mset (filter (\<lambda>i. 0 < ages ! nat i) (map (turn ?n s) xs)) + mset q" for s xs q
    by (induction xs arbitrary: q) (auto simp: f_def Let_def turn_def age_insert_mset)
  then have all: "mset (fold (f s) [0..int ?n - 1] []) = mset (filter (\<lambda>i. 0 < ages ! nat i) (map (turn ?n s) [0..int ?n - 1]))" for s by simp
  have "distinct (map (turn ?n s) [0..int ?n - 1])" "set (map (turn ?n s) [0..int ?n - 1]) = {0..<int ?n}" for s
    using turns_all [of ?n s] assms(1) by (auto simp: distinct_map atLeastLessThan_def atLeastAtMost_def lessThan_def atMost_def intro: inj_on_subset)
  then have "distinct (fold (f s) [0..int ?n - 1] []) \<and> set (fold (f s) [0..int ?n - 1] []) = {i. 0 \<le> i \<and> i < int ?n \<and> 0 < ages ! nat i}" for s
    using mset_eq_imp_distinct_iff [OF all [of s]] mset_eq_setD [OF all [of s]] by auto
  then show ?thesis using nz by (simp add: BuildAgeQueue_def wp f_def)
qed

section \<open>Crossbars\<close>

text \<open>A crossbar is well formed if its packets have outputs, the ages mark the inputs with packets and no output
  holds more than its depth.\<close>

definition xbar_ok :: "('a \<Rightarrow> int) \<Rightarrow> nat \<Rightarrow> nat \<Rightarrow> nat \<Rightarrow> 'a xbar \<Rightarrow> bool" where
  "xbar_ok dest depth n m = (\<lambda>(ins, outs, busy, ages).
     length ins = n \<and> length ages = n \<and> length outs = m \<and> length busy = m \<and> (\<forall>p \<in># held ins. 0 \<le> dest p \<and> dest p < int m) \<and>
     (\<forall>i < n. 0 \<le> ages ! i \<and> (0 < ages ! i \<longleftrightarrow> ins ! i \<noteq> [])) \<and> (\<forall>i < m. length (outs ! i) \<le> depth))"

locale crossbar =
  fixes room :: "'a list \<Rightarrow> bool" and dest :: "'a \<Rightarrow> int" and flits :: "'a \<Rightarrow> int" and leave :: "'a \<Rightarrow> 'a"
    and depth :: nat and view :: "'a \<Rightarrow> 'b"
  assumes leave_view: "view (leave p) = view p" and room_depth: "room q \<Longrightarrow> length q < depth"
begin

definition kept :: "'a xbar \<Rightarrow> 'a xbar \<Rightarrow> bool" where
  "kept = (\<lambda>(ins, outs, _, _) (ins', outs', _, _). held ins' \<subseteq># held ins \<and>
     length ins' = length ins \<and> (\<forall>i < length ins. length (ins' ! i) \<le> length (ins ! i)) \<and>
     image_mset view (held ins') + image_mset view (held outs') = image_mset view (held ins) + image_mset view (held outs))"

lemma kept_refl: "kept x x"
  by (simp add: kept_def split: prod.splits)

lemma kept_trans: "kept x y \<Longrightarrow> kept y z \<Longrightarrow> kept x z"
  by (fastforce simp: kept_def split: prod.splits intro: subset_mset.order_trans order_trans)

lemma move_ok:
  assumes "xbar_ok dest depth n m (ins, outs, busy, ages)" and "i < n" and "ins ! i \<noteq> []"
  shows "succeeds (xbar_move room dest flits leave (int i) (ins, outs, busy, ages)) (\<lambda>(ins', outs', busy', ages').
    xbar_ok dest depth n m (ins', outs', busy', ages') \<and> kept (ins, outs, busy, ages) (ins', outs', busy', ages') \<and>
    (\<forall>j < n. j \<noteq> i \<longrightarrow> ins' ! j = ins ! j))"
proof -
  obtain p rest where q: "ins ! i = p # rest" using assms(3) by (cases "ins ! i") auto
  have wf: "length ins = n" "length ages = n" "length outs = m" "length busy = m" "\<forall>p \<in># held ins. 0 \<le> dest p \<and> dest p < int m"
    "\<forall>j < n. 0 \<le> ages ! j \<and> (0 < ages ! j \<longleftrightarrow> ins ! j \<noteq> [])" "\<forall>j < m. length (outs ! j) \<le> depth"
    using assms(1) by (auto simp: xbar_ok_def)
  have in_p: "p \<in># held ins" using held_nth [of i ins p] assms(2) wf(1) q by simp
  then have d: "0 \<le> dest p" "dest p < int m" using wf(5) by auto
  then have d': "nat (dest p) < m" by simp
  let ?ins = "ins[i := rest]" and ?outs = "outs[nat (dest p) := outs ! nat (dest p) @ [leave p]]"
  have pop: "held ins = add_mset p (held ?ins)" using held_pop [of i ins p rest] assms(2) wf(1) q by simp
  have push: "held ?outs = add_mset (leave p) (held outs)" using held_push [of "nat (dest p)" outs "leave p"] d' wf(3) by simp
  have moved: "xbar_ok dest depth n m (?ins, ?outs, busy[nat (dest p) := flits p], ages[i := if rest = [] then 0 else 1])"
    if "room (outs ! nat (dest p))"
  proof -
    have "\<forall>j < m. length (?outs ! j) \<le> depth" using wf(3,7) d' room_depth [OF that] by (auto simp: nth_list_update)
    moreover have "\<forall>j < n. 0 \<le> ages[i := if rest = [] then 0 else 1] ! j \<and> (0 < ages[i := if rest = [] then 0 else 1] ! j \<longleftrightarrow> ?ins ! j \<noteq> [])"
      using wf(1,2,6) assms(2) by (auto simp: nth_list_update)
    ultimately show ?thesis using wf(1-5) pop by (simp add: xbar_ok_def)
  qed
  have kept: "kept (ins, outs, busy, ages) (?ins, ?outs, b, a)" for b a using pop push q wf(1) assms(2) by (simp add: kept_def leave_view nth_list_update)
  have stalled: "xbar_ok dest depth n m (ins, outs, busy, ages[i := ages ! i + 1])"
    using wf assms(2,3) by (auto simp: xbar_ok_def nth_list_update)
  show ?thesis
    unfolding xbar_move_def prod.case
    using moved kept stalled kept_refl d d' wf assms(2) q by (simp add: wp vec_upd_def kept_def)
qed

lemma moves_ok:
  assumes "xbar_ok dest depth n m x" and "distinct is" and "\<And>i. i \<in> set is \<Longrightarrow> 0 \<le> i \<and> nat i < n \<and> fst x ! nat i \<noteq> []"
  shows "succeeds (fold_res (xbar_move room dest flits leave) is x) (\<lambda>y. xbar_ok dest depth n m y \<and> kept x y)"
  using assms
proof (induction "is" arbitrary: x)
  case (Cons i "is")
  obtain ins outs busy ages where x: "x = (ins, outs, busy, ages)" by (cases x) auto
  have i: "0 \<le> i" "nat i < n" "ins ! nat i \<noteq> []" using Cons.prems(3) [of i] x by auto
  have move: "succeeds (xbar_move room dest flits leave i x) (\<lambda>y. xbar_ok dest depth n m y \<and> kept x y \<and> (\<forall>j < n. j \<noteq> nat i \<longrightarrow> fst y ! j = ins ! j))"
    using move_ok [of n m ins outs busy ages "nat i"] Cons.prems(1) i x by (auto elim!: succeeds_mono)
  show ?case
    unfolding fold_res.simps
  proof (rule succeeds_bindI [OF move], elim conjE)
    fix y assume y: "xbar_ok dest depth n m y" "kept x y" "\<forall>j < n. j \<noteq> nat i \<longrightarrow> fst y ! j = ins ! j"
    have "0 \<le> k \<and> nat k < n \<and> fst y ! nat k \<noteq> []" if "k \<in> set is" for k
    proof -
      have k: "0 \<le> k" "nat k < n" "ins ! nat k \<noteq> []" using Cons.prems(3) [of k] that x by auto
      moreover have "nat k \<noteq> nat i" using Cons.prems(2) that k(1) i(1) by (auto simp: nat_eq_iff)
      ultimately show ?thesis using y(3) by simp
    qed
    then show "succeeds (fold_res (xbar_move room dest flits leave) is y) (\<lambda>z. xbar_ok dest depth n m z \<and> kept x z)"
      using Cons.IH [OF y(1)] Cons.prems(2) kept_trans [OF y(2)] by (auto elim!: succeeds_mono)
  qed
qed (simp add: kept_refl)

lemma drain_ok:
  assumes "xbar_ok dest depth n m (ins, outs, busy, ages)" and "0 < n" and "n < 2 ^ 64"
  shows "succeeds (xbar_drain clk room dest flits leave (ins, outs, busy, ages)) (\<lambda>y. xbar_ok dest depth n m y \<and> kept (ins, outs, busy, ages) y)"
proof -
  let ?x = "(ins, outs, drain_busy busy, ages)"
  have x: "xbar_ok dest depth n m ?x" using assms(1) by (simp add: xbar_ok_def drain_busy_def)
  have n: "length ages = n" "\<forall>i < n. 0 < ages ! i \<longleftrightarrow> ins ! i \<noteq> []" using assms(1) by (auto simp: xbar_ok_def)
  then have q: "succeeds (BuildAgeQueue clk ages) (\<lambda>q. distinct q \<and> set q = {i. 0 \<le> i \<and> i < int (length ages) \<and> 0 < ages ! nat i})"
    using assms(2,3) by (intro BuildAgeQueue_ok) auto
  show ?thesis
    unfolding xbar_drain_def prod.case
  proof (rule succeeds_bindI [OF q], elim conjE)
    fix q assume q: "distinct q" "set q = {i. 0 \<le> i \<and> i < int (length ages) \<and> 0 < ages ! nat i}"
    show "succeeds (fold_res (xbar_move room dest flits leave) q ?x) (\<lambda>y. xbar_ok dest depth n m y \<and> kept (ins, outs, busy, ages) y)"
      by (rule succeeds_mono [OF moves_ok [OF x q(1)]]) (use q(2) n in \<open>auto simp: kept_def\<close>)
  qed
qed

end

interpretation req_xbar: crossbar "has_room h" hr_quad hr_flits "\<lambda>req. req\<lparr>hr_exit_time := logic_clk h + to_u64 (hr_flits req)\<rparr>"
  "unat (queue_depth h)" "\<lambda>req. req\<lparr>hr_exit_time := 0\<rparr>" for h
  by unfold_locales (simp_all add: has_room_less)

interpretation resp_xbar: crossbar "has_room h" rs_link rs_flits "\<lambda>resp. resp\<lparr>rs_exit_time := logic_clk h + to_u64 (rs_flits resp)\<rparr>"
  "unat (queue_depth h)" "\<lambda>resp. resp\<lparr>rs_exit_time := 0\<rparr>" for h
  by unfold_locales (simp_all add: has_room_less)
section \<open>Invariant\<close>

definition req_ok :: "Config \<Rightarrow> HMCRequest \<Rightarrow> bool" where
  "req_ok c r \<longleftrightarrow> 0 \<le> hr_vault r \<and> hr_vault r < channels c \<and> 0 \<le> hr_quad r \<and> hr_quad r < 4"

definition resp_ok :: "int \<Rightarrow> HMCResponse \<Rightarrow> bool" where
  "resp_ok n r \<longleftrightarrow> 0 \<le> rs_quad r \<and> rs_quad r < 4 \<and> 0 \<le> rs_link r \<and> rs_link r < n"

definition callback_of :: "HMCResponse \<Rightarrow> u64 \<times> bool" where
  "callback_of r = (resp_id r, rs_type r \<noteq> RD_RS)"

text \<open>The requests that a vault has not answered, by their addresses, and the responses not yet reported.\<close>

definition on_way :: "HMCMemorySystem \<Rightarrow> u64 multiset" where
  "on_way h = image_mset mem_operand (held (link_req_queues h)) + image_mset mem_operand (held (quad_req_queues h)) +
     image_mset fst (open_accesses (ctrls h))"

definition hmc_pending :: "HMCMemorySystem \<Rightarrow> (u64 \<times> bool) multiset" where
  "hmc_pending h = image_mset (\<lambda>x. callback_of (snd x)) (mset (resp_lookup_table h)) + image_mset callback_of (held (quad_resp_queues h)) +
     image_mset callback_of (held (link_resp_queues h))"

definition hmc_setup :: "Build \<Rightarrow> Config \<Rightarrow> bool" where
  "hmc_setup bo c \<longleftrightarrow> ctl_setup bo c \<and> IsHMC c \<and> to_u64 (epoch_period c) \<noteq> 0 \<and> 0 \<le> channels c \<and>
     (\<forall>a. succeeds (GetChannel c a) (\<lambda>k. 0 \<le> k \<and> k < channels c)) \<and> 0 < num_links c \<and> num_links c < 2 ^ 31 \<and>
     block_size c \<in> {0, 32, 64, 128, 256} \<and> succeeds (SetClockRatio c) (\<lambda>(_, l). 0 < l)"

abbreviation depth_of :: "HMCMemorySystem \<Rightarrow> nat" where "depth_of h \<equiv> unat (queue_depth h)"

text \<open>The request crossbar, the response crossbar and the table; \<open>X\<close> are answers of vaults that were taken and not yet matched.\<close>

definition req_side :: "Config \<Rightarrow> HMCMemorySystem \<Rightarrow> bool" where
  "req_side c h \<longleftrightarrow>
     xbar_ok hr_quad (depth_of h) (nat (num_links c)) 4 (link_req_queues h, quad_req_queues h, quad_busy h, link_age_counter h) \<and>
     (\<forall>r \<in># held (link_req_queues h) + held (quad_req_queues h). req_ok c r) \<and>
     (\<forall>i < nat (num_links c). length (link_req_queues h ! i) \<le> depth_of h)"

definition resp_side :: "Config \<Rightarrow> HMCMemorySystem \<Rightarrow> bool" where
  "resp_side c h \<longleftrightarrow>
     xbar_ok rs_link (depth_of h) 4 (nat (num_links c)) (quad_resp_queues h, link_resp_queues h, link_busy h, quad_age_counter h) \<and>
     (\<forall>x \<in> set (resp_lookup_table h). fst x = resp_id (snd x) \<and> resp_ok (num_links c) (snd x))"

definition hmc_core :: "Build \<Rightarrow> Config \<Rightarrow> u64 multiset \<Rightarrow> HMCMemorySystem \<Rightarrow> bool" where
  "hmc_core bo c X h \<longleftrightarrow> hmc_setup bo c \<and> links h = num_links c \<and> 0 \<le> next_link h \<and> next_link h < num_links c \<and>
     int (length (ctrls h)) = channels c \<and> pac_ok (statics h) \<and> list_all (ctl_good bo c) (ctrls h) \<and>
     req_side c h \<and> resp_side c h \<and> mset (map fst (resp_lookup_table h)) = on_way h + X"

definition clocks :: "HMCMemorySystem \<Rightarrow> u64 \<times> u64 \<times> u64 \<times> u64 \<times> u64 \<times> u64" where
  "clocks h = (sys_clk h, logic_clk h, ps_per_dram h, ps_per_logic h, logic_ps h, dram_ps h)"

section \<open>Requests\<close>

definition put_req :: "HMCRequest \<Rightarrow> HMCRespType \<Rightarrow> int \<Rightarrow> int \<Rightarrow> HMCMemorySystem \<Rightarrow> HMCMemorySystem" where
  "put_req req rt f k h =
     h\<lparr>link_req_queues := (link_req_queues h)[nat k := link_req_queues h ! nat k @ [req\<lparr>hr_link := k\<rparr>]],
       resp_lookup_table := resp_lookup_table h @ [(mem_operand req,
         \<lparr>resp_id = mem_operand req, rs_type = rt, rs_link = k, rs_quad = hr_quad req, rs_flits = f, rs_exit_time = 0\<rparr>)],
       link_age_counter := (link_age_counter h)[nat k := 1], last_req_clk := sys_clk h\<rparr>"

lemma InsertReqToLink_result:
  assumes "0 \<le> k" and "k < int (length (link_req_queues h))" and "length (link_age_counter h) = length (link_req_queues h)"
    and "resp_packet (hr_type req) = Inr (rt, f)"
  shows "InsertReqToLink req k h = Inr (if has_room h (link_req_queues h ! nat k) then (True, put_req req rt f k h) else (False, h))"
  using assms by (simp add: InsertReqToLink_def put_req_def new_HMCResponse_def vec_get_ok vec_set_ok Let_def)

lemma next_link_irrelevant:
  "has_room (h\<lparr>next_link := x\<rparr>) = has_room h" "put_req req rt f k (h\<lparr>next_link := x\<rparr>) = (put_req req rt f k h)\<lparr>next_link := x\<rparr>"
  by (simp_all add: has_room_def put_req_def fun_eq_iff)

text \<open>The links are tried in turn, from the next one on.\<close>

definition free_link :: "HMCMemorySystem \<Rightarrow> int \<Rightarrow> int list \<Rightarrow> int option" where
  "free_link h s is = find (\<lambda>k. has_room h (link_req_queues h ! nat k)) (map (turn (length (link_req_queues h)) s) is)"

definition inserted :: "HMCRequest \<Rightarrow> HMCRespType \<Rightarrow> int \<Rightarrow> HMCMemorySystem \<Rightarrow> int option \<Rightarrow> bool \<times> HMCMemorySystem" where
  "inserted req rt f h k =
     (case k of None \<Rightarrow> (False, h)
      | Some k \<Rightarrow> (True, (put_req req rt f k h)\<lparr>next_link := (k + 1) mod int (length (link_req_queues h))\<rparr>))"

lemma turn_next: "(turn n s j + 1) mod int n = turn n s (j + 1)"
  by (simp add: turn_def mod_simps ac_simps)

lemma try_links_result:
  assumes "0 < length (link_req_queues h)" and "length (link_age_counter h) = length (link_req_queues h)" and "links h = int (length (link_req_queues h))"
    and "resp_packet (hr_type req) = Inr (rt, f)" and "next_link h = s" and "0 \<le> s" and "s < links h" and "1 \<le> j" and "j \<le> links h"
  shows "try_links req s (h\<lparr>next_link := turn (length (link_req_queues h)) s j\<rparr>) = Some (Inr (inserted req rt f h (free_link h s [j..links h - 1])))"
  using assms(8,9)
proof (induction "nat (links h - j)" arbitrary: j)
  case 0
  have "turn (length (link_req_queues h)) s j = s" using 0 assms(3,6,7) by (simp add: turn_def)
  moreover have "h\<lparr>next_link := s\<rparr> = h" using assms(5) by (cases h) simp
  moreover have "[j..links h - 1] = []" using 0 by simp
  ultimately show ?case by (subst try_links.simps) (simp add: assms(5) free_link_def inserted_def)
next
  case (Suc d)
  let ?n = "length (link_req_queues h)" and ?k = "turn (length (link_req_queues h)) s j"
  have k: "0 \<le> ?k" "?k < int ?n" using assms(1) by (simp_all add: turn_def)
  have j: "j < links h" using Suc.hyps(2) by simp
  have ne: "?k \<noteq> s"
  proof
    assume "?k = s"
    then have "turn ?n s j = turn ?n s 0" using assms(3,6,7) by (simp add: turn_def)
    then show False using inj_onD [OF turns_all(1) [OF assms(1)], of s j 0] Suc.prems j assms(1,3) by auto
  qed
  have ins: "InsertReqToLink req ?k (h\<lparr>next_link := ?k\<rparr>) =
      Inr (if has_room h (link_req_queues h ! nat ?k) then (True, (put_req req rt f ?k h)\<lparr>next_link := ?k\<rparr>) else (False, h\<lparr>next_link := ?k\<rparr>))"
    using InsertReqToLink_result [of ?k "h\<lparr>next_link := ?k\<rparr>" req rt f] k assms(2,4) by (simp add: next_link_irrelevant)
  have next_k: "(?k + 1) smod int ?n = (?k + 1) mod int ?n" using k assms(1) by (intro smod_nonneg) auto
  have rec: "[j..links h - 1] = j # [j + 1..links h - 1]" using j by (simp add: upto_rec1)
  have more: "try_links req s (h\<lparr>next_link := turn ?n s (j + 1)\<rparr>) = Some (Inr (inserted req rt f h (free_link h s [j + 1..links h - 1])))"
    using Suc.hyps(1) [of "j + 1"] Suc.hyps(2) Suc.prems j by simp
  show ?case
    using ne ins rec more next_k assms(1,3)
    by (subst try_links.simps) (simp add: IterateNextLink_def rem_int_def put_req_def free_link_def inserted_def turn_next)
qed

lemma InsertHMCReq_result:
  assumes "0 < length (link_req_queues h)" and "length (link_age_counter h) = length (link_req_queues h)" and "links h = int (length (link_req_queues h))"
    and "resp_packet (hr_type req) = Inr (rt, f)" and "0 \<le> next_link h" and "next_link h < links h"
  shows "InsertHMCReq req h = Inr (inserted req rt f h (free_link h (next_link h) [0..links h - 1]))"
proof -
  let ?s = "next_link h" and ?n = "length (link_req_queues h)"
  have s: "turn ?n ?s 0 = ?s" using assms(3,5,6) by (simp add: turn_def)
  have next_s: "(?s + 1) smod int ?n = turn ?n ?s 1" using assms(5) assms(1) by (simp add: smod_nonneg turn_def ac_simps)
  have rec: "[0..links h - 1] = 0 # [1..links h - 1]" using assms(1,3) by (simp add: upto_rec1)
  have rest: "try_links req ?s (h\<lparr>next_link := turn ?n ?s 1\<rparr>) = Some (Inr (inserted req rt f h (free_link h ?s [1..links h - 1])))"
    using try_links_result [OF assms(1-4) refl assms(5,6), of 1] assms(1,3) by simp
  have mod_s: "(?s + 1) mod int ?n = turn ?n ?s 1" by (simp add: turn_def ac_simps)
  show ?thesis
    using InsertReqToLink_result [of ?s h req rt f] assms rest rec next_s s mod_s
    by (simp add: InsertHMCReq_def IterateNextLink_def rem_int_def put_req_def free_link_def inserted_def or_diverges_def)
qed

text \<open>A packet enters an input of a crossbar or leaves one of its outputs.\<close>

lemma xbar_put:
  assumes "xbar_ok dest d n m (ins, outs, busy, ages)" and "i < n" and "0 \<le> dest p" and "dest p < int m"
  shows "xbar_ok dest d n m (ins[i := ins ! i @ [p]], outs, busy, ages[i := 1])"
proof -
  have "length ins = n" "length ages = n" using assms(1) by (auto simp: xbar_ok_def)
  then show ?thesis using assms held_push [of i ins p] by (auto simp: xbar_ok_def nth_list_update)
qed

lemma xbar_take:
  assumes "xbar_ok dest d n m (ins, outs, busy, ages)" and "i < m" and "outs ! i = p # rest"
  shows "xbar_ok dest d n m (ins, outs[i := rest], busy, ages)"
proof -
  have "length rest \<le> d" using assms by (auto simp: xbar_ok_def)
  then show ?thesis using assms by (auto simp: xbar_ok_def nth_list_update)
qed

lemma put_req_ok:
  assumes "hmc_core bo c X h" and "req_ok c req" and "0 \<le> k" and "k < num_links c" and "has_room h (link_req_queues h ! nat k)"
  shows "hmc_core bo c X (put_req req rt f k h) \<and> hmc_pending (put_req req rt f k h) = add_mset (mem_operand req, rt \<noteq> RD_RS) (hmc_pending h)"
proof -
  let ?h = "put_req req rt f k h" and ?r = "req\<lparr>hr_link := k\<rparr>"
  have side: "req_side c h" "resp_side c h" "mset (map fst (resp_lookup_table h)) = on_way h + X" using assms(1) by (auto simp: hmc_core_def)
  have len: "nat k < length (link_req_queues h)" "length (link_req_queues h) = nat (num_links c)" "nat k < nat (num_links c)"
    using side(1) assms(3,4) by (auto simp: req_side_def xbar_ok_def)
  have push: "held (link_req_queues ?h) = add_mset ?r (held (link_req_queues h))" using held_push [OF len(1)] by (simp add: put_req_def)
  have room: "length (link_req_queues h ! nat k) < depth_of h" using assms(5) by (simp add: has_room_less)
  have x: "xbar_ok hr_quad (depth_of h) (nat (num_links c)) 4 (link_req_queues ?h, quad_req_queues h, quad_busy h, link_age_counter ?h)"
    using xbar_put [of hr_quad "depth_of h" "nat (num_links c)" 4 _ _ _ _ "nat k" ?r] side(1) assms(2) len(3)
    by (simp add: req_side_def put_req_def req_ok_def)
  have same: "quad_req_queues ?h = quad_req_queues h" "quad_busy ?h = quad_busy h" "queue_depth ?h = queue_depth h" "ctrls ?h = ctrls h"
    "quad_resp_queues ?h = quad_resp_queues h" "link_resp_queues ?h = link_resp_queues h"
    by (simp_all add: put_req_def)
  have cap: "\<forall>i < nat (num_links c). length (link_req_queues ?h ! i) \<le> depth_of h"
    using side(1) room len by (auto simp: put_req_def req_side_def nth_list_update)
  have "req_side c ?h" using x cap side(1) assms(2) by (auto simp: req_side_def same push req_ok_def)
  moreover have "resp_side c ?h" using side(2) assms(2-4) by (auto simp: resp_side_def put_req_def resp_ok_def req_ok_def)
  moreover have "mset (map fst (resp_lookup_table ?h)) = on_way ?h + X" using side(3) by (simp add: on_way_def same push) (simp add: put_req_def)
  moreover have "hmc_pending ?h = add_mset (mem_operand req, rt \<noteq> RD_RS) (hmc_pending h)"
    by (simp add: hmc_pending_def put_req_def callback_of_def)
  ultimately show ?thesis using assms(1) by (simp add: hmc_core_def put_req_def)
qed

lemma block_packet:
  assumes "sz \<in> {0, 32, 64, 128, 256}"
  shows "\<exists>t f rt g. block_req_type sz w = Inr t \<and> req_flits t = Inr f \<and> resp_packet t = Inr (rt, g) \<and> (rt \<noteq> RD_RS) = w \<and> is_write_req t = w"
  using assms by (auto simp: block_req_type_def is_write_req_def)

lemma core_links:
  assumes "hmc_core bo c X h"
  shows "0 < length (link_req_queues h)" and "length (link_age_counter h) = length (link_req_queues h)" and "links h = int (length (link_req_queues h))"
    and "0 \<le> next_link h" and "next_link h < links h" and "0 < num_links c" and "links h = num_links c"
  using assms by (auto simp: hmc_core_def req_side_def xbar_ok_def hmc_setup_def)

lemma free_link_Some:
  assumes "hmc_core bo c X h" and "free_link h s is = Some k"
  shows "0 \<le> k" and "k < num_links c" and "has_room h (link_req_queues h ! nat k)"
  using assms(2) core_links(1,3,7) [OF assms(1)] by (auto simp: free_link_def turn_def find_Some_iff)

text \<open>Together the links are tried in all positions.\<close>

lemma free_link_all:
  assumes "hmc_core bo c X h"
  shows "free_link h s [0..links h - 1] = None \<longleftrightarrow> \<not> list_ex (has_room h) (link_req_queues h)"
proof -
  let ?n = "length (link_req_queues h)"
  have "set [0..links h - 1] = {0..<int ?n}" using core_links(3) [OF assms] by auto
  then have "set (map (turn ?n s) [0..links h - 1]) = {0..<int ?n}" using turns_all(2) core_links(1) [OF assms] by simp
  then have "free_link h s [0..links h - 1] = None \<longleftrightarrow> (\<forall>k \<in> {0..<int ?n}. \<not> has_room h (link_req_queues h ! nat k))"
    unfolding free_link_def find_None_iff by blast
  also have "\<dots> \<longleftrightarrow> (\<forall>i < ?n. \<not> has_room h (link_req_queues h ! i))" by (auto dest: bspec [of _ _ "int _"])
  finally show ?thesis by (simp add: list_ex_length)
qed

lemma HMC_AddTransaction_ok:
  assumes "hmc_core bo c X h"
  shows "succeeds (HMC_AddTransaction c a w h) (\<lambda>(ok, h'). hmc_core bo c X h' \<and> clocks h' = clocks h \<and> ok = HMC_WillAcceptTransaction h a w \<and>
    (if ok then hmc_pending h' = add_mset (a, w) (hmc_pending h) else h' = h))"
proof -
  have cfg: "block_size c \<in> {0, 32, 64, 128, 256}" "succeeds (GetChannel c a) (\<lambda>k. 0 \<le> k \<and> k < channels c)"
    using assms by (auto simp: hmc_core_def hmc_setup_def)
  obtain t f rt g where t: "block_req_type (block_size c) w = Inr t" "req_flits t = Inr f" "resp_packet t = Inr (rt, g)" "(rt \<noteq> RD_RS) = w"
    using block_packet [OF cfg(1), of w] by blast
  obtain v where v: "GetChannel c a = Inr v" "0 \<le> v" "v < channels c" using succeedsE [OF cfg(2)] by auto
  let ?req = "\<lparr>hr_type = t, mem_operand = a, hr_link = 0, hr_quad = v smod 4, hr_vault = v, hr_flits = f, hr_is_write = is_write_req t, hr_exit_time = 0\<rparr>"
  let ?k = "free_link h (next_link h) [0..links h - 1]"
  have add: "HMC_AddTransaction c a w h = Inr (inserted ?req rt g h ?k)"
    using t v InsertHMCReq_result [OF core_links(1-3) [OF assms], of ?req rt g] core_links(4,5) [OF assms]
    by (simp add: HMC_AddTransaction_def new_HMCRequest_def)
  have req: "req_ok c ?req" using v by (simp add: req_ok_def smod_nonneg)
  show ?thesis
  proof (cases ?k)
    case None
    then show ?thesis using add assms free_link_all [OF assms] by (simp add: inserted_def HMC_WillAcceptTransaction_def)
  next
    case (Some k)
    note at_k = free_link_Some [OF assms Some]
    have put: "hmc_core bo c X (put_req ?req rt g k h)" "hmc_pending (put_req ?req rt g k h) = add_mset (a, w) (hmc_pending h)"
      using put_req_ok [OF assms req at_k, of rt g] t(4) by auto
    have n: "0 \<le> (k + 1) mod int (length (link_req_queues h))" "(k + 1) mod int (length (link_req_queues h)) < num_links c"
      using core_links(1,3,7) [OF assms] by simp_all
    have "hmc_core bo c X ((put_req ?req rt g k h)\<lparr>next_link := x\<rparr>)" if "0 \<le> x" "x < num_links c" for x
      using put(1) that by (simp add: hmc_core_def req_side_def resp_side_def on_way_def)
    moreover have "hmc_pending ((put_req ?req rt g k h)\<lparr>next_link := x\<rparr>) = add_mset (a, w) (hmc_pending h)" for x
      using put(2) by (simp add: hmc_pending_def)
    moreover have "list_ex (has_room h) (link_req_queues h)" using free_link_all [OF assms] Some by (metis option.distinct(1))
    moreover have "clocks ((put_req ?req rt g k h)\<lparr>next_link := x\<rparr>) = clocks h" for x by (simp add: clocks_def put_req_def)
    ultimately show ?thesis using add Some n by (simp add: inserted_def HMC_WillAcceptTransaction_def)
  qed
qed

section \<open>Draining\<close>

text \<open>What a drain keeps: the invariant, the clocks and, for the requests, the responses not yet reported.\<close>

lemma drain_quad_ok:
  assumes "hmc_core bo c X h" and "0 \<le> i" and "i < 4"
  shows "succeeds (drain_quad bo i h) (\<lambda>h'. hmc_core bo c X h' \<and> clocks h' = clocks h \<and> hmc_pending h' = hmc_pending h)"
proof -
  have side: "req_side c h" "resp_side c h" "list_all (ctl_good bo c) (ctrls h)" "int (length (ctrls h)) = channels c"
    using assms(1) by (auto simp: hmc_core_def)
  have len: "length (quad_req_queues h) = 4" "length (quad_resp_queues h) = 4" using side(1,2) by (auto simp: req_side_def resp_side_def xbar_ok_def)
  have i: "i < int (length (quad_req_queues h))" "i < int (length (quad_resp_queues h))" "nat i < 4" using assms(2,3) len by auto
  show ?thesis
  proof (cases "quad_req_queues h ! nat i")
    case Nil
    then show ?thesis using assms i by (simp add: drain_quad_def vec_get_ok)
  next
    case (Cons req rest)
    have pop: "held (quad_req_queues h) = add_mset req (held ((quad_req_queues h)[nat i := rest]))"
      using Cons i(3) len(1) by (intro held_pop) simp_all
    then have v: "0 \<le> hr_vault req" "hr_vault req < int (length (ctrls h))" using side(1,4) by (auto simp: req_side_def req_ok_def)
    then have v': "nat (hr_vault req) < length (ctrls h)" by simp
    let ?t = "ctrls h ! nat (hr_vault req)" and ?tr = "mk_Transaction (mem_operand req) (hr_is_write req)"
    let ?ts = "(ctrls h)[nat (hr_vault req) := snd (Controller_AddTransaction ?tr ?t)]"
    let ?h = "h\<lparr>ctrls := ?ts, quad_req_queues := (quad_req_queues h)[nat i := rest]\<rparr>"
    obtain ok t' where t': "Controller_AddTransaction ?tr ?t = (ok, t')" by fastforce
    have good: "ctl_wf bo c ?t" "accounted ?t" using side(3) v' by (auto simp: list_all_length ctl_good_def)
    have un: "accounted t'" "unanswered t' = add_mset (mem_operand req, hr_is_write req) (unanswered ?t)"
      using Controller_AddTransaction_accounts [OF good(2), of ?tr] t' by (auto simp: access_of_def mk_Transaction_def)
    have "ctl_good bo c t'" using ctl_wf_AddTransaction [OF good(1) t'] un by (simp add: ctl_good_def)
    then have ts: "list_all (ctl_good bo c) ?ts" using side(3) v' t' by (auto simp: list_all_length nth_list_update)
    have acc: "open_accesses ?ts = add_mset (mem_operand req, hr_is_write req) (open_accesses (ctrls h))"
      using open_accesses_update [OF v' un(2)] t' by simp
    have "on_way ?h = on_way h" using pop acc by (simp add: on_way_def)
    moreover have "req_side c ?h"
      using side(1) xbar_take [of hr_quad "depth_of h" "nat (num_links c)" 4 _ "quad_req_queues h" _ _ "nat i" req rest] Cons i(3) pop by (auto simp: req_side_def)
    moreover have "resp_side c ?h" using side(2) by (simp add: resp_side_def)
    ultimately have core: "hmc_core bo c X ?h" using assms(1) ts by (simp add: hmc_core_def)
    have "clocks ?h = clocks h" "hmc_pending ?h = hmc_pending h" by (simp_all add: clocks_def hmc_pending_def)
    then show ?thesis
      using core assms Cons i v by (simp add: drain_quad_def InsertReqToDRAM_def vec_get_ok vec_set_ok vec_upd_def)
  qed
qed

lemma core_count:
  assumes "hmc_core bo c X h"
  shows "0 < nat (num_links c)" and "nat (num_links c) < 2 ^ 64"
  using assms by (auto simp: hmc_core_def hmc_setup_def)

lemma image_mset_view:
  assumes "image_mset v A = image_mset v B" and "\<And>x. f (v x) = f x"
  shows "image_mset f A = image_mset f B"
proof -
  have "image_mset f A = image_mset f (image_mset v A)" for A using assms(2) by (simp add: image_mset.compositionality comp_def)
  then show ?thesis using assms(1) by metis
qed

lemma all_in_view:
  assumes "image_mset v A = image_mset v B" and "\<And>x. P (v x) = P x" and "\<forall>x \<in># B. P x"
  shows "\<forall>x \<in># A. P x"
proof
  fix x assume "x \<in># A"
  then have "v x \<in># image_mset v B" using assms(1) by (metis image_eqI set_image_mset)
  then obtain y where "y \<in># B" "v y = v x" by auto
  then show "P x" using assms(2,3) by metis
qed

lemma DrainRequests_ok:
  assumes "hmc_core bo c X h"
  shows "succeeds (DrainRequests bo h) (\<lambda>h'. hmc_core bo c X h' \<and> clocks h' = clocks h \<and> hmc_pending h' = hmc_pending h)"
proof -
  have quads: "succeeds (fold_res (drain_quad bo) [0..3] h) (\<lambda>h'. hmc_core bo c X h' \<and> clocks h' = clocks h \<and> hmc_pending h' = hmc_pending h)"
  proof (rule fold_res_succeeds)
    fix i h1 assume "i \<in> set [0..3]" and h1: "hmc_core bo c X h1 \<and> clocks h1 = clocks h \<and> hmc_pending h1 = hmc_pending h"
    then show "succeeds (drain_quad bo i h1) (\<lambda>h'. hmc_core bo c X h' \<and> clocks h' = clocks h \<and> hmc_pending h' = hmc_pending h)"
      using drain_quad_ok [of bo c X h1 i] by (auto elim!: succeeds_mono)
  qed (use assms in simp)
  let ?move = "\<lambda>h. \<lambda>req. req\<lparr>hr_exit_time := logic_clk h + to_u64 (hr_flits req)\<rparr>"
  show ?thesis
    unfolding DrainRequests_def
  proof (rule succeeds_bindI [OF quads], elim conjE)
    fix h1 assume h1: "hmc_core bo c X h1" "clocks h1 = clocks h" "hmc_pending h1 = hmc_pending h"
    let ?x = "(link_req_queues h1, quad_req_queues h1, quad_busy h1, link_age_counter h1)"
    have side: "req_side c h1" using h1(1) by (simp add: hmc_core_def)
    have drain: "succeeds (xbar_drain (logic_clk h1) (has_room h1) hr_quad hr_flits (?move h1) ?x)
        (\<lambda>y. xbar_ok hr_quad (depth_of h1) (nat (num_links c)) 4 y \<and> req_xbar.kept ?x y)"
      using side core_count [OF h1(1)] by (intro req_xbar.drain_ok) (auto simp: req_side_def)
    have result: "hmc_core bo c X h2 \<and> clocks h2 = clocks h1 \<and> hmc_pending h2 = hmc_pending h1"
      if y: "xbar_ok hr_quad (depth_of h1) (nat (num_links c)) 4 (lqs, qqs, busy, ages)" "req_xbar.kept ?x (lqs, qqs, busy, ages)"
        and h2: "h2 = h1\<lparr>link_req_queues := lqs, quad_req_queues := qqs, quad_busy := busy, link_age_counter := ages\<rparr>" for lqs qqs busy ages h2
    proof -
      have k: "image_mset (\<lambda>req. req\<lparr>hr_exit_time := 0\<rparr>) (held lqs + held qqs) =
          image_mset (\<lambda>req. req\<lparr>hr_exit_time := 0\<rparr>) (held (link_req_queues h1) + held (quad_req_queues h1))"
        using y(2) by (simp add: req_xbar.kept_def)
      have "image_mset mem_operand (held lqs + held qqs) = image_mset mem_operand (held (link_req_queues h1) + held (quad_req_queues h1))"
        by (rule image_mset_view [OF k]) simp
      moreover have "\<forall>r \<in># held lqs + held qqs. req_ok c r"
        by (rule all_in_view [OF k]) (use side in \<open>auto simp: req_side_def req_ok_def\<close>)
      moreover have "\<forall>i < nat (num_links c). length (lqs ! i) \<le> depth_of h1"
        using y(2) side by (fastforce simp: req_xbar.kept_def req_side_def xbar_ok_def intro: order_trans)
      ultimately show ?thesis
        using h1(1) y(1) by (simp add: h2 hmc_core_def req_side_def resp_side_def on_way_def clocks_def hmc_pending_def)
    qed
    show "succeeds (bind_res (xbar_drain (logic_clk h1) (has_room h1) hr_quad hr_flits (?move h1) ?x) (\<lambda>(lqs, qqs, busy, ages).
        Inr (h1\<lparr>link_req_queues := lqs, quad_req_queues := qqs, quad_busy := busy, link_age_counter := ages\<rparr>)))
      (\<lambda>h'. hmc_core bo c X h' \<and> clocks h' = clocks h \<and> hmc_pending h' = hmc_pending h)"
      by (rule succeeds_bindI [OF drain]) (use result h1 in auto)
  qed
qed

text \<open>Responses leave the cube; they are the callbacks of the cycle.\<close>

definition reported :: "Build \<Rightarrow> Config \<Rightarrow> u64 multiset \<Rightarrow> HMCMemorySystem \<Rightarrow> (u64 \<times> bool) list \<Rightarrow> HMCMemorySystem \<Rightarrow> bool" where
  "reported bo c X h es h' \<longleftrightarrow> hmc_core bo c X h' \<and> clocks h' = clocks h \<and> ctrls h' = ctrls h \<and> hmc_pending h = mset es + hmc_pending h'"

lemma drain_link_ok:
  assumes "reported bo c X h es h1" and "0 \<le> i" and "i < num_links c"
  shows "succeeds (drain_link i (es, h1)) (\<lambda>(es', h'). reported bo c X h es' h')"
proof -
  have core: "hmc_core bo c X h1" using assms(1) by (simp add: reported_def)
  then have side: "resp_side c h1" by (simp add: hmc_core_def)
  then have len: "length (link_resp_queues h1) = nat (num_links c)" by (simp add: resp_side_def xbar_ok_def)
  then have i: "i < int (length (link_resp_queues h1))" "nat i < nat (num_links c)" using assms(2,3) by auto
  show ?thesis
  proof (cases "link_resp_queues h1 ! nat i")
    case Nil
    then show ?thesis using assms i by (simp add: drain_link_def vec_get_ok)
  next
    case (Cons resp rest)
    let ?h = "h1\<lparr>link_resp_queues := (link_resp_queues h1)[nat i := rest]\<rparr>"
    have pop: "held (link_resp_queues h1) = add_mset resp (held ((link_resp_queues h1)[nat i := rest]))"
      using Cons i(2) len by (intro held_pop) simp_all
    have "resp_side c ?h"
      using side xbar_take [of rs_link "depth_of h1" 4 "nat (num_links c)" _ "link_resp_queues h1" _ _ "nat i" resp rest] Cons i(2)
      by (auto simp: resp_side_def)
    then have "hmc_core bo c X ?h" using core by (simp add: hmc_core_def req_side_def on_way_def)
    moreover have "hmc_pending h1 = add_mset (callback_of resp) (hmc_pending ?h)" using pop by (simp add: hmc_pending_def)
    ultimately have "reported bo c X h (es @ [callback_of resp]) ?h" using assms(1) by (simp add: reported_def clocks_def)
    then show ?thesis using assms i Cons by (simp add: drain_link_def vec_get_ok vec_set_ok callback_of_def)
  qed
qed

lemma DrainResponses_ok:
  assumes "hmc_core bo c X h"
  shows "succeeds (DrainResponses h) (\<lambda>(es, h'). reported bo c X h es h')"
proof -
  have n: "links h = num_links c" using core_links(7) [OF assms] .
  have all: "succeeds (fold_res drain_link [0..links h - 1] ([], h)) (\<lambda>(es, h'). reported bo c X h es h')"
  proof (rule fold_res_succeeds)
    show "case ([], h) of (es, h') \<Rightarrow> reported bo c X h es h'" using assms by (simp add: reported_def)
    fix i s assume i: "i \<in> set [0..links h - 1]" and s: "case s of (es, h') \<Rightarrow> reported bo c X h es h'"
    then show "succeeds (drain_link i s) (\<lambda>(es, h'). reported bo c X h es h')" using n by (cases s) (auto intro!: drain_link_ok)
  qed
  let ?move = "\<lambda>h. \<lambda>resp. resp\<lparr>rs_exit_time := logic_clk h + to_u64 (rs_flits resp)\<rparr>"
  show ?thesis
    unfolding DrainResponses_def
  proof (rule succeeds_bindI [OF all], clarify)
    fix es h1 assume h1: "reported bo c X h es h1"
    let ?x = "(quad_resp_queues h1, link_resp_queues h1, link_busy h1, quad_age_counter h1)"
    have side: "resp_side c h1" "hmc_core bo c X h1" using h1 unfolding reported_def by (auto simp: hmc_core_def)
    have drain: "succeeds (xbar_drain (logic_clk h1) (has_room h1) rs_link rs_flits (?move h1) ?x)
        (\<lambda>y. xbar_ok rs_link (depth_of h1) 4 (nat (num_links c)) y \<and> resp_xbar.kept ?x y)"
      using side by (intro resp_xbar.drain_ok) (auto simp: resp_side_def)
    have result: "reported bo c X h es (h1\<lparr>quad_resp_queues := qqs, link_resp_queues := lqs, link_busy := busy, quad_age_counter := ages\<rparr>)"
      if y: "xbar_ok rs_link (depth_of h1) 4 (nat (num_links c)) (qqs, lqs, busy, ages)" "resp_xbar.kept ?x (qqs, lqs, busy, ages)" for qqs lqs busy ages
    proof -
      have k: "image_mset (\<lambda>resp. resp\<lparr>rs_exit_time := 0\<rparr>) (held qqs + held lqs) =
          image_mset (\<lambda>resp. resp\<lparr>rs_exit_time := 0\<rparr>) (held (quad_resp_queues h1) + held (link_resp_queues h1))"
        using y(2) by (simp add: resp_xbar.kept_def)
      have "image_mset callback_of (held qqs + held lqs) = image_mset callback_of (held (quad_resp_queues h1) + held (link_resp_queues h1))"
        by (rule image_mset_view [OF k]) (simp add: callback_of_def)
      then show ?thesis
        using h1 y(1) by (auto simp: reported_def hmc_core_def req_side_def resp_side_def on_way_def clocks_def hmc_pending_def add.assoc)
    qed
    show "succeeds (bind_res (xbar_drain (logic_clk h1) (has_room h1) rs_link rs_flits (?move h1) ?x) (\<lambda>(qqs, lqs, busy, ages).
        Inr (es, h1\<lparr>quad_resp_queues := qqs, link_resp_queues := lqs, link_busy := busy, quad_age_counter := ages\<rparr>)))
      (\<lambda>(es, h'). reported bo c X h es h')"
      by (rule succeeds_bindI [OF drain]) (use result in auto)
  qed
qed

section \<open>The vaults\<close>

definition matched :: "Build \<Rightarrow> Config \<Rightarrow> u64 multiset \<Rightarrow> HMCMemorySystem \<Rightarrow> HMCMemorySystem \<Rightarrow> bool" where
  "matched bo c X h h' \<longleftrightarrow> hmc_core bo c X h' \<and> clocks h' = clocks h \<and> ctrls h' = ctrls h \<and> hmc_pending h' = hmc_pending h"

text \<open>The answer of a vault finds its response.\<close>

lemma VaultCallback_ok:
  assumes "hmc_core bo c (add_mset a X) h"
  shows "succeeds (VaultCallback a h) (matched bo c X h)"
proof -
  have side: "resp_side c h" "mset (map fst (resp_lookup_table h)) = on_way h + add_mset a X" using assms by (auto simp: hmc_core_def)
  have "a \<in># mset (map fst (resp_lookup_table h))" using side(2) by simp
  then have "find (\<lambda>x. fst x = a) (resp_lookup_table h) \<noteq> None" by (auto simp: find_None_iff)
  then obtain k resp where f: "find (\<lambda>x. fst x = a) (resp_lookup_table h) = Some (k, resp)" by (cases "find (\<lambda>x. fst x = a) (resp_lookup_table h)") auto
  then have k: "k = a" "(k, resp) \<in> set (resp_lookup_table h)" using find_member [OF f] by auto
  then have q: "0 \<le> rs_quad resp" "rs_quad resp < 4" "0 \<le> rs_link resp" "rs_link resp < int (nat (num_links c))"
    using side(1) by (auto simp: resp_side_def resp_ok_def)
  let ?tab = "erase_first (\<lambda>x. fst x = a) (resp_lookup_table h)" and ?q = "nat (rs_quad resp)"
  let ?h = "h\<lparr>resp_lookup_table := ?tab, quad_resp_queues := (quad_resp_queues h)[?q := quad_resp_queues h ! ?q @ [resp]],
      quad_age_counter := (quad_age_counter h)[?q := 1]\<rparr>"
  have tab: "mset (resp_lookup_table h) = add_mset (k, resp) (mset ?tab)" by (rule mset_erase_first [OF f])
  have sub: "set ?tab \<subseteq> set (resp_lookup_table h)" by (rule set_erase_first)
  have len: "length (quad_resp_queues h) = 4" "length (quad_age_counter h) = 4" using side(1) by (auto simp: resp_side_def xbar_ok_def)
  have push: "held (quad_resp_queues ?h) = add_mset resp (held (quad_resp_queues h))" using held_push [of ?q "quad_resp_queues h" resp] q len by simp
  have "resp_side c ?h"
    using side(1) sub xbar_put [of rs_link "depth_of h" 4 "nat (num_links c)" "quad_resp_queues h" _ _ _ ?q resp] q by (auto simp: resp_side_def)
  moreover have "mset (map fst ?tab) = on_way ?h + X"
  proof -
    have "add_mset a (mset (map fst ?tab)) = mset (map fst (resp_lookup_table h))" using tab k(1) by simp
    then show ?thesis using side(2) by (simp add: on_way_def)
  qed
  ultimately have core: "hmc_core bo c X ?h" using assms by (simp add: hmc_core_def req_side_def)
  have "hmc_pending ?h = hmc_pending h" using tab push by (simp add: hmc_pending_def)
  then have "matched bo c X h ?h" using core by (simp add: matched_def clocks_def)
  then show ?thesis using f q len by (simp add: VaultCallback_def vec_upd_def vec_get_ok vec_set_ok)
qed

lemma callbacks_ok:
  assumes "hmc_core bo c (mset (map fst es)) h"
  shows "succeeds (fold_res (\<lambda>(a, _). VaultCallback a) es h) (matched bo c {#} h)"
  using assms
proof (induction es arbitrary: h)
  case Nil
  then show ?case by (simp add: matched_def)
next
  case (Cons e es)
  obtain a w where e: "e = (a, w)" by (cases e)
  have one: "succeeds (VaultCallback a h) (matched bo c (mset (map fst es)) h)" using VaultCallback_ok Cons.prems e by simp
  show ?case
    unfolding fold_res.simps e prod.case
  proof (rule succeeds_bindI [OF one])
    fix h1 assume h1: "matched bo c (mset (map fst es)) h h1"
    then have "hmc_core bo c (mset (map fst es)) h1" by (simp add: matched_def)
    then have "succeeds (fold_res (\<lambda>(a, _). VaultCallback a) es h1) (matched bo c {#} h1)" by (rule Cons.IH)
    then show "succeeds (fold_res (\<lambda>(a, _). VaultCallback a) es h1) (matched bo c {#} h)"
      by (rule succeeds_mono) (use h1 in \<open>simp add: matched_def\<close>)
  qed
qed

definition dram_ticked :: "HMCMemorySystem \<Rightarrow> HMCMemorySystem \<Rightarrow> bool" where
  "dram_ticked h h' \<longleftrightarrow> hmc_pending h' = hmc_pending h \<and> clocks h' = clocks (h\<lparr>sys_clk := sys_clk h + 1\<rparr>)"

lemma core_ctrls:
  assumes "hmc_core bo c X h" and "length ts = length (ctrls h)" and "list_all (ctl_good bo c) ts" and "pac_ok sh"
    and "image_mset fst (open_accesses (ctrls h)) + X = image_mset fst (open_accesses ts) + Y"
  shows "hmc_core bo c Y (h\<lparr>ctrls := ts, statics := sh, sys_clk := k\<rparr>)" and "hmc_core bo c Y (h\<lparr>ctrls := ts\<rparr>)"
  using assms by (auto simp: hmc_core_def req_side_def resp_side_def on_way_def add.assoc)

lemma DRAMClockTick_ok:
  assumes "hmc_core bo c {#} h" and "list_all (tick_guard c) (ctrls h)"
  shows "succeeds (DRAMClockTick bo c (new_Timing c) h) (\<lambda>h'. hmc_core bo c {#} h' \<and> dram_ticked h h')"
proof -
  obtain es ts where d: "drain_all (sys_clk h) (ctrls h) = (es, ts)" by fastforce
  have core: "list_all (ctl_good bo c) (ctrls h)" "pac_ok (statics h)" "ctl_config c" "to_u64 (epoch_period c) \<noteq> 0"
    using assms(1) by (auto simp: hmc_core_def hmc_setup_def ctl_setup_def)
  have ts: "length ts = length (ctrls h)" "list_all (ctl_good bo c) ts" "list_all (tick_guard c) ts" "open_accesses (ctrls h) = mset es + open_accesses ts"
    using drain_all_ok [OF d core(1) assms(2)] by auto
  have h0: "hmc_core bo c (mset (map fst es)) (h\<lparr>ctrls := ts\<rparr>)"
    using core_ctrls(2) [OF assms(1) ts(1,2) core(2)] ts(4) by simp
  show ?thesis
    unfolding DRAMClockTick_def d Let_def prod.case
  proof (rule succeeds_bindI [OF callbacks_ok [OF h0]])
    fix h1 assume "matched bo c {#} (h\<lparr>ctrls := ts\<rparr>) h1"
    then have h1: "hmc_core bo c {#} h1" "clocks h1 = clocks h" "ctrls h1 = ts" "hmc_pending h1 = hmc_pending h"
      by (auto simp: matched_def clocks_def hmc_pending_def)
    have sh: "pac_ok (statics h1)" using h1(1) by (simp add: hmc_core_def)
    have tick: "succeeds (tick_all bo c (new_Timing c) (ctrls h1) (statics h1)) (\<lambda>(ts', sh'). length ts' = length ts \<and> list_all (ctl_good bo c) ts' \<and>
        pac_ok sh' \<and> open_accesses ts' = open_accesses ts)"
      using tick_all_ok [OF core(3) ts(2,3) sh] by (simp add: h1(3))
    show "succeeds (bind_res (tick_all bo c (new_Timing c) (ctrls h1) (statics h1)) (\<lambda>(ts, sh).
        bind_res (rem_word (sys_clk (h1\<lparr>ctrls := ts, statics := sh, sys_clk := sys_clk h1 + 1\<rparr>)) (to_u64 (epoch_period c))) (\<lambda>m.
        if m = 0 then bind_res (print_epoch_all (ctrls (h1\<lparr>ctrls := ts, statics := sh, sys_clk := sys_clk h1 + 1\<rparr>)))
            (\<lambda>ts'. Inr (h1\<lparr>ctrls := ts, statics := sh, sys_clk := sys_clk h1 + 1, ctrls := ts'\<rparr>))
        else Inr (h1\<lparr>ctrls := ts, statics := sh, sys_clk := sys_clk h1 + 1\<rparr>)))) (\<lambda>h'. hmc_core bo c {#} h' \<and> dram_ticked h h')"
    proof (rule succeeds_bindI [OF tick], clarify)
      fix ts2 sh2 assume t2: "length ts2 = length ts" "list_all (ctl_good bo c) ts2" "pac_ok sh2" "open_accesses ts2 = open_accesses ts"
      let ?h = "h1\<lparr>ctrls := ts2, statics := sh2, sys_clk := sys_clk h1 + 1\<rparr>"
      have h2: "hmc_core bo c {#} ?h" using core_ctrls(1) [OF h1(1) _ t2(2,3), of "{#}"] t2(1,4) h1(3) by simp
      have ticked: "dram_ticked h (?h\<lparr>ctrls := ts3\<rparr>)" "dram_ticked h ?h" for ts3
        using h1(2,4) by (auto simp: dram_ticked_def clocks_def hmc_pending_def)
      have print: "succeeds (print_epoch_all ts2) (\<lambda>ts3. hmc_core bo c {#} (?h\<lparr>ctrls := ts3\<rparr>))"
        by (rule succeeds_mono [OF print_epoch_all_ok [OF t2(2)]]) (use core_ctrls(2) [OF h2 _ _ t2(3), of _ "{#}"] in auto)
      show "succeeds (bind_res (rem_word (sys_clk ?h) (to_u64 (epoch_period c))) (\<lambda>m.
          if m = 0 then bind_res (print_epoch_all (ctrls ?h)) (\<lambda>ts'. Inr (?h\<lparr>ctrls := ts'\<rparr>)) else Inr ?h))
        (\<lambda>h'. hmc_core bo c {#} h' \<and> dram_ticked h h')"
        using print h2 ticked core(4) by (auto simp: rem_word_def elim!: succeeds_mono)
    qed
  qed
qed

section \<open>Clocks\<close>

text \<open>The logic clock is ahead of the DRAM clock by less than one of its own cycles.\<close>

definition clock_ok :: "HMCMemorySystem \<Rightarrow> bool" where
  "clock_ok h \<longleftrightarrow> ps_per_dram h = 800 \<and> 0 < ps_per_logic h \<and> ps_per_logic h \<le> 800 \<and>
     unat (dram_ps h) \<le> unat (logic_ps h) \<and> unat (logic_ps h) < unat (dram_ps h) + unat (ps_per_logic h)"

definition hmc_inv :: "Build \<Rightarrow> Config \<Rightarrow> HMCMemorySystem \<Rightarrow> bool" where
  "hmc_inv bo c h \<longleftrightarrow> hmc_core bo c {#} h \<and> clock_ok h"

text \<open>A cycle needs the guard of its controllers, and time before the counters of picoseconds wrap around (half a year).\<close>

definition hmc_guard :: "Config \<Rightarrow> HMCMemorySystem \<Rightarrow> bool" where
  "hmc_guard c h \<longleftrightarrow> list_all (tick_guard c) (ctrls h) \<and> unat (dram_ps h) + 1600 < 2 ^ 64"

lemma logic_tick_core: "hmc_core bo c X (logic_tick h) = hmc_core bo c X h" "hmc_pending (logic_tick h) = hmc_pending h"
  by (simp_all add: logic_tick_def hmc_core_def req_side_def resp_side_def on_way_def hmc_pending_def)

lemma logic_tick_clocks: "clocks (logic_tick h) =
    (sys_clk h, logic_clk h + 1, ps_per_dram h, ps_per_logic h, logic_ps h + ps_per_logic h, dram_ps h)"
  by (simp add: clocks_def logic_tick_def)

lemma logic_cycle_ok:
  assumes "hmc_core bo c {#} h"
  shows "succeeds (logic_cycle bo h) (\<lambda>(es, h'). hmc_core bo c {#} h' \<and> hmc_pending h = mset es + hmc_pending h' \<and> clocks h' = clocks (logic_tick h))"
  unfolding logic_cycle_def
proof (rule succeeds_bindI [OF DrainResponses_ok [OF assms]], clarify)
  fix es h1 assume "reported bo c {#} h es h1"
  then have h1: "hmc_core bo c {#} h1" "clocks h1 = clocks h" "hmc_pending h = mset es + hmc_pending h1" by (auto simp: reported_def)
  show "succeeds (bind_res (DrainRequests bo h1) (\<lambda>h. Inr (es, logic_tick h)))
    (\<lambda>(es, h'). hmc_core bo c {#} h' \<and> hmc_pending h = mset es + hmc_pending h' \<and> clocks h' = clocks (logic_tick h))"
    by (rule succeeds_bindI [OF DrainRequests_ok [OF h1(1)]]) (use h1 in \<open>auto simp: logic_tick_core\<close>, auto simp: logic_tick_def clocks_def)
qed

text \<open>The loop of logic cycles runs until the logic clock has passed the next edge of the DRAM clock.\<close>

definition caught_up :: "HMCMemorySystem \<Rightarrow> nat \<Rightarrow> HMCMemorySystem \<Rightarrow> bool" where
  "caught_up h k h' \<longleftrightarrow> sys_clk h' = sys_clk h \<and> ps_per_dram h' = ps_per_dram h \<and> ps_per_logic h' = ps_per_logic h \<and> dram_ps h' = dram_ps h \<and>
     logic_clk h' = logic_clk h + word_of_nat k \<and> unat (logic_ps h') = unat (logic_ps h) + k * unat (ps_per_logic h) \<and>
     unat (dram_ps h) + 800 \<le> unat (logic_ps h') \<and> unat (logic_ps h') < unat (dram_ps h) + 800 + unat (ps_per_logic h)"

lemma logic_loop_ok:
  assumes "hmc_core bo c {#} h" and "ps_per_dram h = 800" and "0 < ps_per_logic h" and "ps_per_logic h \<le> 800" and "unat (dram_ps h) + 1600 < 2 ^ 64"
    and "unat (logic_ps h) < unat (dram_ps h) + 800 + unat (ps_per_logic h)"
  shows "\<exists>es' h' k. logic_loop bo es h = Some (Inr (es @ es', h')) \<and> hmc_core bo c {#} h' \<and> hmc_pending h = mset es' + hmc_pending h' \<and> caught_up h k h'"
  using assms
proof (induction "unat (dram_ps h) + 800 - unat (logic_ps h)" arbitrary: h es rule: less_induct)
  case less
  let ?g = "unat (ps_per_logic h)"
  have g: "0 < ?g" "?g \<le> 800" using less.prems(3,4) by (simp_all add: unat_gt_0 word_le_nat_alt word_less_nat_alt)
  have edge: "unat (dram_ps h + 800) = unat (dram_ps h) + 800" using less.prems(5) unat_add_lem [of "dram_ps h" 800] by simp
  show ?case
  proof (cases "logic_ps h < dram_ps h + ps_per_dram h")
    case False
    then have "logic_loop bo es h = Some (Inr (es @ [], h))" by (subst logic_loop.simps) simp
    moreover have "unat (dram_ps h) + 800 \<le> unat (logic_ps h)" using False edge less.prems(2) by (simp add: word_less_nat_alt)
    then have "caught_up h 0 h" using less.prems(6) by (simp add: caught_up_def)
    ultimately show ?thesis using less.prems(1) by (intro exI [of _ "[]"] exI [of _ h] exI [of _ 0]) simp
  next
    case True
    obtain es1 h1 where 1: "logic_cycle bo h = Inr (es1, h1)" "hmc_core bo c {#} h1" "hmc_pending h = mset es1 + hmc_pending h1"
      "clocks h1 = clocks (logic_tick h)"
      using logic_cycle_ok [OF less.prems(1)] by (auto elim!: succeedsE)
    have before: "unat (logic_ps h) < unat (dram_ps h) + 800" using True edge less.prems(2) by (simp add: word_less_nat_alt)
    have lps: "unat (logic_ps h + ps_per_logic h) = unat (logic_ps h) + ?g"
      using before g less.prems(5) unat_add_lem [of "logic_ps h" "ps_per_logic h"] by simp
    have clk: "sys_clk h1 = sys_clk h" "ps_per_dram h1 = ps_per_dram h" "ps_per_logic h1 = ps_per_logic h" "dram_ps h1 = dram_ps h"
      "logic_clk h1 = logic_clk h + 1" "logic_ps h1 = logic_ps h + ps_per_logic h"
      using 1(4) by (auto simp: clocks_def logic_tick_def)
    have "\<exists>es' h' k. logic_loop bo (es @ es1) h1 = Some (Inr ((es @ es1) @ es', h')) \<and> hmc_core bo c {#} h' \<and>
        hmc_pending h1 = mset es' + hmc_pending h' \<and> caught_up h1 k h'"
      using less.prems g before by (intro less.hyps) (simp_all add: 1(2) clk lps)
    then obtain es2 h2 k where 2: "logic_loop bo (es @ es1) h1 = Some (Inr ((es @ es1) @ es2, h2))" "hmc_core bo c {#} h2"
      "hmc_pending h1 = mset es2 + hmc_pending h2" "caught_up h1 k h2" by blast
    have "logic_loop bo es h = Some (Inr (es @ (es1 @ es2), h2))" using True 1(1) 2(1) by (subst logic_loop.simps) simp
    moreover have "caught_up h (Suc k) h2" using 2(4) by (simp add: caught_up_def clk lps algebra_simps)
    ultimately show ?thesis
      using 1(3) 2(2,3) by (intro exI [of _ "es1 @ es2"] exI [of _ h2] exI [of _ "Suc k"]) (simp add: ac_simps)
  qed
qed

text \<open>A cycle of the cube: it ends, and the logic clock advances by a number of whole cycles.\<close>

definition hmc_ticked :: "HMCMemorySystem \<Rightarrow> HMCMemorySystem \<Rightarrow> bool" where
  "hmc_ticked h h' \<longleftrightarrow> sys_clk h' = sys_clk h + 1 \<and> ps_per_logic h' = ps_per_logic h \<and> unat (dram_ps h') = unat (dram_ps h) + 800 \<and>
     (\<exists>k. logic_clk h' = logic_clk h + word_of_nat k \<and> unat (logic_ps h') = unat (logic_ps h) + k * unat (ps_per_logic h))"

lemma HMC_ClockTick_ok:
  assumes "hmc_inv bo c h" and "hmc_guard c h"
  shows "succeeds (HMC_ClockTick bo c (new_Timing c) h) (\<lambda>(es, h'). hmc_inv bo c h' \<and> hmc_pending h = mset es + hmc_pending h' \<and> hmc_ticked h h')"
proof -
  have core: "hmc_core bo c {#} h" "clock_ok h" "list_all (tick_guard c) (ctrls h)" "unat (dram_ps h) + 1600 < 2 ^ 64"
    using assms by (auto simp: hmc_inv_def hmc_guard_def)
  have g: "0 < unat (ps_per_logic h)" "unat (ps_per_logic h) \<le> 800" using core(2) by (auto simp: clock_ok_def unat_gt_0 word_le_nat_alt word_less_nat_alt)
  have lps: "unat (logic_ps h + ps_per_logic h) = unat (logic_ps h) + unat (ps_per_logic h)"
    using core(2,4) g unat_add_lem [of "logic_ps h" "ps_per_logic h"] by (simp add: clock_ok_def)
  define first where "first = (if dram_ps h = logic_ps h then
      bind_res (DrainResponses h) (\<lambda>(es, h). bind_res (DRAMClockTick bo c (new_Timing c) h) (\<lambda>h. bind_res (DrainRequests bo h) (\<lambda>h. Inr (es, logic_tick h))))
    else bind_res (DRAMClockTick bo c (new_Timing c) h) (\<lambda>h. Inr ([], h)))"
  define ok where "ok = (\<lambda>(es, h'). hmc_core bo c {#} h' \<and> hmc_pending h = mset es + hmc_pending h' \<and>
      (\<exists>j. clocks h' = (sys_clk h + 1, logic_clk h + word_of_nat j, ps_per_dram h, ps_per_logic h, logic_ps h + word_of_nat j * ps_per_logic h, dram_ps h) \<and>
        j \<le> 1 \<and> (j = 1 \<longrightarrow> dram_ps h = logic_ps h)))"
  have "succeeds first ok"
  proof (cases "dram_ps h = logic_ps h")
    case True
    have "succeeds (bind_res (DrainResponses h) (\<lambda>(es, h). bind_res (DRAMClockTick bo c (new_Timing c) h) (\<lambda>h. bind_res (DrainRequests bo h) (\<lambda>h. Inr (es, logic_tick h))))) ok"
    proof (rule succeeds_bindI [OF DrainResponses_ok [OF core(1)]], clarify)
      fix es h1 assume "reported bo c {#} h es h1"
      then have h1: "hmc_core bo c {#} h1" "clocks h1 = clocks h" "ctrls h1 = ctrls h" "hmc_pending h = mset es + hmc_pending h1" by (auto simp: reported_def)
      have dram: "succeeds (DRAMClockTick bo c (new_Timing c) h1) (\<lambda>h'. hmc_core bo c {#} h' \<and> dram_ticked h1 h')"
        using DRAMClockTick_ok [OF h1(1)] h1(3) core(3) by simp
      show "succeeds (bind_res (DRAMClockTick bo c (new_Timing c) h1) (\<lambda>h. bind_res (DrainRequests bo h) (\<lambda>h. Inr (es, logic_tick h)))) ok"
      proof (rule succeeds_bindI [OF dram], elim conjE)
        fix h2 assume h2: "hmc_core bo c {#} h2" "dram_ticked h1 h2"
        show "succeeds (bind_res (DrainRequests bo h2) (\<lambda>h. Inr (es, logic_tick h))) ok"
          by (rule succeeds_bindI [OF DrainRequests_ok [OF h2(1)]])
            (use h1 h2 True in \<open>auto simp: ok_def logic_tick_core logic_tick_clocks dram_ticked_def intro!: exI [of _ 1]\<close>, auto simp: clocks_def)
      qed
    qed
    then show ?thesis using True by (simp add: first_def)
  next
    case False
    have "succeeds (bind_res (DRAMClockTick bo c (new_Timing c) h) (\<lambda>h. Inr ([], h))) ok"
      by (rule succeeds_bindI [OF DRAMClockTick_ok [OF core(1,3)]]) (auto simp: ok_def dram_ticked_def clocks_def intro!: exI [of _ 0])
    then show ?thesis using False by (simp add: first_def)
  qed
  then obtain es1 h1 where f: "first = Inr (es1, h1)" "ok (es1, h1)" by (auto elim!: succeedsE)
  from f(2) obtain j where h1: "hmc_core bo c {#} h1" "hmc_pending h = mset es1 + hmc_pending h1" "sys_clk h1 = sys_clk h + 1"
    "logic_clk h1 = logic_clk h + word_of_nat j" "ps_per_dram h1 = ps_per_dram h" "ps_per_logic h1 = ps_per_logic h"
    "logic_ps h1 = logic_ps h + word_of_nat j * ps_per_logic h" "dram_ps h1 = dram_ps h" "j \<le> 1" "j = 1 \<longrightarrow> dram_ps h = logic_ps h"
    by (auto simp: ok_def clocks_def)
  have j: "unat (logic_ps h1) = unat (logic_ps h) + j * unat (ps_per_logic h)" using h1(7,9) lps by (auto simp: le_Suc_eq)
  have "\<exists>es' h' k. logic_loop bo es1 h1 = Some (Inr (es1 @ es', h')) \<and> hmc_core bo c {#} h' \<and> hmc_pending h1 = mset es' + hmc_pending h' \<and> caught_up h1 k h'"
    using core(2,4) g h1(1,9,10) j by (intro logic_loop_ok) (auto simp: clock_ok_def h1(5,6,8) le_Suc_eq)
  then obtain es2 h2 k where 2: "logic_loop bo es1 h1 = Some (Inr (es1 @ es2, h2))" "hmc_core bo c {#} h2" "hmc_pending h1 = mset es2 + hmc_pending h2"
    "caught_up h1 k h2" by blast
  let ?h = "h2\<lparr>dram_ps := dram_ps h2 + ps_per_dram h2\<rparr>"
  have dps: "unat (dram_ps h + 800) = unat (dram_ps h) + 800" using core(4) unat_add_lem [of "dram_ps h" 800] by simp
  have "hmc_core bo c {#} ?h" using 2(2) by (simp add: hmc_core_def req_side_def resp_side_def on_way_def)
  moreover have "clock_ok ?h" using 2(4) core(2) dps by (auto simp: caught_up_def clock_ok_def h1)
  moreover have "hmc_pending h = mset (es1 @ es2) + hmc_pending ?h" using h1(2) 2(3) by (simp add: hmc_pending_def ac_simps)
  moreover have "hmc_ticked h ?h"
    using 2(4) j dps core(2) unfolding hmc_ticked_def by (auto simp: caught_up_def clock_ok_def h1 algebra_simps intro!: exI [of _ "j + k"])
  ultimately show ?thesis
    using f(1) 2(1) by (simp add: HMC_ClockTick_def first_def [symmetric] or_diverges_def hmc_inv_def)
qed

section \<open>Construction and runs\<close>

lemma new_HMC_ok:
  assumes "hmc_setup bo c" and "pac_ok sh"
  shows "succeeds (new_HMCMemorySystem c m sh) (\<lambda>h. hmc_inv bo c h \<and> hmc_pending h = {#} \<and> hmc_guard c h \<and>
    sys_clk h = 0 \<and> logic_clk h = 0 \<and> dram_ps h = 0 \<and> logic_ps h = 0)"
proof -
  have c: "ctl_setup bo c" "0 \<le> channels c" "IsHMC c" "0 < num_links c" using assms(1) by (auto simp: hmc_setup_def)
  obtain l where l: "SetClockRatio c = Inr (800, l)" "0 < l" "l \<le> 800"
    using assms(1) by (auto simp: hmc_setup_def SetClockRatio_def Let_def wp bind_res_eq_Inr quot_int_def require_def split: if_splits)
  show ?thesis
    unfolding new_HMCMemorySystem_def l(1) require_def if_P [OF c(3)] bind_res_simps prod.case
  proof (rule succeeds_bindI [OF new_controllers_ok [OF c(1) assms(2) c(2)]], clarify)
    fix ts sh1 assume ts: "int (length ts) = channels c" "pac_ok sh1" "list_all (ctl_good bo c) ts" "list_all (tick_guard c) ts" "open_accesses ts = {#}"
    let ?n = "nat (num_links c)"
    let ?h = "\<lparr>sys_clk = 0, last_req_clk = 0, ctrls = ts, statics = sh1, logic_clk = 0, ps_per_dram = 800, ps_per_logic = l, logic_ps = 0, dram_ps = 0,
          next_link = 0, links = num_links c, queue_depth = to_u64 (xbar_queue_depth c), resp_lookup_table = [],
          link_req_queues = replicate ?n [], link_resp_queues = replicate ?n [], quad_req_queues = replicate 4 [], quad_resp_queues = replicate 4 [],
          link_busy = replicate ?n 0, quad_busy = [0, 0, 0, 0], link_age_counter = replicate ?n 0, quad_age_counter = [0, 0, 0, 0]\<rparr> :: HMCMemorySystem"
    have four: "[0, 0, 0, 0 :: int] = replicate 4 0" by (simp add: eval_nat_numeral)
    have empty: "xbar_ok dest d n1 n2 (replicate n1 [], replicate n2 [], replicate n2 0, replicate n1 0)" for dest :: "'x \<Rightarrow> int" and d n1 n2
      by (simp add: xbar_ok_def)
    have "req_side c ?h" "resp_side c ?h" using empty by (simp_all add: req_side_def resp_side_def four)
    then have "hmc_core bo c {#} ?h" using assms(1) c(4) ts by (simp add: hmc_core_def on_way_def)
    moreover have "clock_ok ?h" using l(2,3) by (simp add: clock_ok_def unat_gt_0 word_less_nat_alt)
    moreover have "hmc_pending ?h = {#}" by (simp add: hmc_pending_def)
    moreover have "hmc_guard c ?h" using ts(4) by (simp add: hmc_guard_def)
    ultimately show "succeeds (Inr ?h) (\<lambda>h. hmc_inv bo c h \<and> hmc_pending h = {#} \<and> hmc_guard c h \<and>
        sys_clk h = 0 \<and> logic_clk h = 0 \<and> dram_ps h = 0 \<and> logic_ps h = 0)"
      by (simp add: hmc_inv_def)
  qed
qed

definition hmc_start :: "Build \<Rightarrow> Config \<Rightarrow> HMCMemorySystem \<Rightarrow> bool" where
  "hmc_start bo c h \<longleftrightarrow> hmc_setup bo c \<and> (\<exists>m sh. pac_ok sh \<and> new_HMCMemorySystem c m sh = Inr h)"

text \<open>The requests that are accepted.\<close>

definition hmc_add :: "Config \<Rightarrow> u64 \<Rightarrow> bool \<Rightarrow> HMCMemorySystem \<Rightarrow> (bool \<times> HMCMemorySystem) res" where
  "hmc_add c a w h = bind_res (HMC_AddTransaction c a w h) (\<lambda>(ok, h). bind_res (require AssertionFailed ok) (\<lambda>_. Inr (ok, h)))"

lemma hmc_start_ok:
  assumes "hmc_start bo c h"
  shows "hmc_inv bo c h" and "hmc_pending h = {#}" and "hmc_guard c h" and "sys_clk h = 0" and "logic_clk h = 0" and "dram_ps h = 0" and "logic_ps h = 0"
proof -
  obtain m sh where "hmc_setup bo c" "pac_ok sh" "new_HMCMemorySystem c m sh = Inr h" using assms unfolding hmc_start_def by blast
  with new_HMC_ok [of bo c sh m] show "hmc_inv bo c h" "hmc_pending h = {#}" "hmc_guard c h" "sys_clk h = 0" "logic_clk h = 0" "dram_ps h = 0" "logic_ps h = 0"
    by simp_all
qed

lemma hmc_add_ok:
  assumes "hmc_inv bo c h" and "hmc_add c a w h = Inr (ok, h')"
  shows "hmc_inv bo c h'" and "hmc_pending h' = add_mset (a, w) (hmc_pending h)" and "clocks h' = clocks h"
proof -
  have *: "hmc_core bo c {#} h" "clock_ok h" using assms(1) by (auto simp: hmc_inv_def)
  have "hmc_core bo c {#} h' \<and> clocks h' = clocks h \<and> hmc_pending h' = add_mset (a, w) (hmc_pending h)"
    using HMC_AddTransaction_ok [OF *(1), of a w] assms(2) by (auto simp: hmc_add_def bind_res_eq_Inr require_def split: if_splits)
  then show "hmc_inv bo c h'" "hmc_pending h' = add_mset (a, w) (hmc_pending h)" "clocks h' = clocks h"
    using *(2) by (auto simp: hmc_inv_def clock_ok_def clocks_def)
qed

interpretation hmc: memory_backend "hmc_start bo c" "hmc_inv bo c" hmc_pending "hmc_add c" "hmc_guard c" "HMC_ClockTick bo c (new_Timing c)" for bo c
proof unfold_locales
  show "hmc_inv bo c h \<and> hmc_pending h = {#}" if "hmc_start bo c h" for h using hmc_start_ok [OF that] by simp
  show "hmc_inv bo c h' \<and> hmc_pending h' = add_mset (a, w) (hmc_pending h)" if "hmc_inv bo c h" "hmc_add c a w h = Inr (ok, h')" for h a w ok h'
    using hmc_add_ok [OF that] by simp
  show "succeeds (HMC_ClockTick bo c (new_Timing c) h) (\<lambda>(es, h'). hmc_inv bo c h' \<and> hmc_pending h = mset es + hmc_pending h')"
    if "hmc_inv bo c h" "hmc_guard c h" for h
    by (rule succeeds_mono [OF HMC_ClockTick_ok [OF that]]) auto
qed

abbreviation hmc_run :: "Build \<Rightarrow> Config \<Rightarrow> access multiset \<Rightarrow> access multiset \<Rightarrow> HMCMemorySystem \<Rightarrow> bool" where
  "hmc_run bo c \<equiv> mem_run (hmc_start bo c) (hmc_add c) (hmc_guard c) (HMC_ClockTick bo c (new_Timing c))"

text \<open>C10. In every run of the memory cube from its construction, a clock cycle ends without a fault (under its guard): the loop of
  logic cycles stops, no crossbar takes a packet from an empty queue, and each answer of a vault finds its response in
  the table.  The accesses requested so far are those reported by a callback together with those whose response is
  outstanding, and the responses in the table belong one to one to the requests in the crossbar or open in a vault.\<close>

theorem cube_answers_once:
  assumes "hmc_run bo c reqs ans h" and "hmc_guard c h"
  shows "reqs = ans + hmc_pending h \<and> mset (map fst (resp_lookup_table h)) = on_way h \<and>
    succeeds (HMC_ClockTick bo c (new_Timing c) h) (\<lambda>(es, h'). mset es \<subseteq># hmc_pending h \<and> hmc_pending h' = hmc_pending h - mset es \<and> sys_clk h' = sys_clk h + 1)"
proof -
  have inv: "hmc_inv bo c h" "reqs = ans + hmc_pending h" using hmc.balance [OF assms(1)] by auto
  have "succeeds (HMC_ClockTick bo c (new_Timing c) h) (\<lambda>(es, h'). mset es \<subseteq># hmc_pending h \<and> hmc_pending h' = hmc_pending h - mset es \<and> sys_clk h' = sys_clk h + 1)"
    by (rule succeeds_mono [OF HMC_ClockTick_ok [OF inv(1) assms(2)]]) (auto simp: hmc_ticked_def)
  then show ?thesis using inv by (auto simp: hmc_inv_def hmc_core_def)
qed


text \<open>C24. In every run of the memory cube, after \<open>n\<close> cycles of the DRAM clock (800 ps each) the logic clock has made exactly \<open>n * 800\<close>
  divided by its own period cycles, rounded up.\<close>

theorem cube_clock_ratio:
  assumes "hmc_run bo c reqs ans h"
  shows "\<exists>n. sys_clk h = word_of_nat n \<and> unat (dram_ps h) = 800 * n \<and>
    logic_clk h = word_of_nat ((800 * n + unat (ps_per_logic h) - 1) div unat (ps_per_logic h))"
proof -
  have "\<exists>n k. sys_clk h = word_of_nat n \<and> unat (dram_ps h) = 800 * n \<and> logic_clk h = word_of_nat k \<and> unat (logic_ps h) = k * unat (ps_per_logic h)"
    using assms
  proof induction
    case (start h)
    then show ?case using hmc_start_ok [OF start] by (intro exI [of _ 0]) simp
  next
    case (request reqs ans h a w ok h')
    have "clocks h' = clocks h" using hmc_add_ok(3) hmc.balance request.hyps by blast
    then show ?case using request.IH by (simp add: clocks_def)
  next
    case (cycle reqs ans h es h')
    obtain n k where nk: "sys_clk h = word_of_nat n" "unat (dram_ps h) = 800 * n" "logic_clk h = word_of_nat k" "unat (logic_ps h) = k * unat (ps_per_logic h)"
      using cycle.IH by blast
    have "hmc_ticked h h'" using HMC_ClockTick_ok [of bo c h] hmc.balance [OF cycle.hyps(1)] cycle.hyps(2,3) by auto
    then obtain j where "sys_clk h' = sys_clk h + 1" "unat (dram_ps h') = unat (dram_ps h) + 800" "ps_per_logic h' = ps_per_logic h"
      "logic_clk h' = logic_clk h + word_of_nat j" "unat (logic_ps h') = unat (logic_ps h) + j * unat (ps_per_logic h)" by (auto simp: hmc_ticked_def)
    then show ?case using nk by (intro exI [of _ "Suc n"] exI [of _ "k + j"]) (simp add: algebra_simps)
  qed
  then obtain n k where nk: "sys_clk h = word_of_nat n" "unat (dram_ps h) = 800 * n" "logic_clk h = word_of_nat k" "unat (logic_ps h) = k * unat (ps_per_logic h)" by blast
  have ok: "clock_ok h" using hmc.balance [OF assms] by (simp add: hmc_inv_def)
  let ?g = "unat (ps_per_logic h)"
  have g: "0 < ?g" "800 * n \<le> k * ?g" "k * ?g < 800 * n + ?g" using ok nk by (auto simp: clock_ok_def unat_gt_0 word_less_nat_alt)
  have "(800 * n + ?g - 1) div ?g = k"
    using g by (intro div_nat_eqI) (auto simp: mult.commute)
  then show ?thesis using nk by auto
qed

text \<open>C25. In every run of the memory cube, a packet of any type but the sentinel is put into the first link with room, from the next link on in
  circular order, and the next link becomes the one after it; the table gets its response.  If every link is full the packet is refused
  and nothing changes.\<close>

theorem InsertHMCReq_round_robin:
  assumes "hmc_run bo c reqs ans h" and "resp_packet (hr_type req) = Inr (rt, f)"
  shows "InsertHMCReq req h = Inr
    (case find (\<lambda>k. length (link_req_queues h ! nat k) < unat (queue_depth h)) (map (\<lambda>i. (i + next_link h) mod links h) [0..links h - 1]) of
       None \<Rightarrow> (False, h)
     | Some k \<Rightarrow> (True, h\<lparr>next_link := (k + 1) mod links h,
         link_req_queues := (link_req_queues h)[nat k := link_req_queues h ! nat k @ [req\<lparr>hr_link := k\<rparr>]],
         resp_lookup_table := resp_lookup_table h @ [(mem_operand req,
           \<lparr>resp_id = mem_operand req, rs_type = rt, rs_link = k, rs_quad = hr_quad req, rs_flits = f, rs_exit_time = 0\<rparr>)],
         link_age_counter := (link_age_counter h)[nat k := 1], last_req_clk := sys_clk h\<rparr>))"
proof -
  have core: "hmc_core bo c {#} h" using hmc.balance [OF assms(1)] by (simp add: hmc_inv_def)
  have turn: "turn (length (link_req_queues h)) s = (\<lambda>i. (i + s) mod links h)" for s
    using core_links(3) [OF core] by (simp add: turn_def fun_eq_iff)
  show ?thesis
    unfolding InsertHMCReq_result [OF core_links(1-3) [OF core] assms(2) core_links(4,5) [OF core]] inserted_def free_link_def turn
      core_links(3) [OF core, symmetric] has_room_less put_req_def
    by (simp split: option.split)
qed

lemma age_insert_front: "\<forall>it \<in> set q. it < age \<Longrightarrow> age_insert age pos q = pos # q"
  by (cases q) auto

lemma age_fold_front:
  assumes "\<forall>p \<in> set ps. 0 < f p \<longrightarrow> n \<le> f p" and "\<forall>p \<in> set ps. p < n" and "\<forall>p \<in> set q. p < n"
  shows "fold (\<lambda>p q. if 0 < f p then age_insert (f p) p q else q) ps q = rev (filter (\<lambda>p. 0 < f p) ps) @ q"
  using assms
proof (induction ps arbitrary: q)
  case (Cons p ps)
  have "age_insert (f p) p q = p # q" if "0 < f p" using Cons.prems that by (intro age_insert_front) fastforce
  then show ?case using Cons.IH [of q] Cons.IH [of "p # q"] Cons.prems by simp
qed simp

text \<open>C39. The order of a crossbar is meant to put the oldest input first, but \<open>BuildAgeQueue\<close> compares an age with a position.  Once every
  waiting input has waited for at least as many cycles as there are inputs, the ages no longer matter: the inputs are served in the reverse of
  the round-robin order, and the input whose turn it is comes last.\<close>

theorem age_queue_ignores_age:
  assumes "0 < length ages" and "length ages < 2 ^ 64" and "\<forall>i < length ages. 0 < ages ! i \<longrightarrow> int (length ages) \<le> ages ! i"
  shows "BuildAgeQueue clk ages =
    Inr (rev (filter (\<lambda>pos. 0 < ages ! nat pos) (map (\<lambda>i. (i + uint clk) mod int (length ages)) [0..int (length ages) - 1])))"
proof -
  let ?n = "int (length ages)"
  let ?pos = "\<lambda>i. (i + uint clk) mod ?n"
  have n: "0 < ?n" "?n < 2 ^ 64" using assms(1,2) by simp_all
  have u: "uint (to_u64 ?n) = ?n" using n by (simp add: unsigned_of_nat take_bit_nat_eq_self)
  have start: "(i + uint (clk mod to_u64 ?n)) mod ?n = ?pos i" for i by (simp only: uint_mod u mod_add_right_eq)
  have nz: "to_u64 ?n \<noteq> 0" using u n(1) by (metis order_less_irrefl uint_0_eq)
  have in_range: "0 \<le> ?pos i \<and> ?pos i < ?n" for i using n(1) by simp
  then have age: "\<forall>p \<in> set (map ?pos [0..?n - 1]). 0 < ages ! nat p \<longrightarrow> ?n \<le> ages ! nat p" using assms(3) by (auto simp: nat_less_iff)
  have "fold (\<lambda>i q. let pos = ?pos i; age = ages ! nat pos in if 0 < age then age_insert age pos q else q) [0..?n - 1] [] =
      fold (\<lambda>p q. if 0 < ages ! nat p then age_insert (ages ! nat p) p q else q) (map ?pos [0..?n - 1]) []"
    by (simp add: fold_map o_def Let_def)
  also have "\<dots> = rev (filter (\<lambda>p. 0 < ages ! nat p) (map ?pos [0..?n - 1])) @ []"
  proof (rule age_fold_front [OF age])
    show "\<forall>p \<in> set (map ?pos [0..?n - 1]). p < ?n" using in_range by (simp only: set_map ball_simps) blast
    show "\<forall>p \<in> set []. p < ?n" by simp
  qed
  finally show ?thesis using nz by (simp only: BuildAgeQueue_def rem_word_def start require_def if_True if_False not_True_eq_False bind_res_simps simp_thms append_Nil2)
qed

theorem age_queue_ignores_age_witness: "BuildAgeQueue 5 [1000, 4, 0, 7] = Inr [0, 3, 1]"
proof -
  have four: "[0..3] = [0, 1, 2, 3::int]" by (simp add: upto_rec1)
  have "\<forall>i < length [1000, 4, 0, 7]. 0 < [1000, 4, 0, 7::int] ! i \<longrightarrow> int (length [1000, 4, 0, 7::int]) \<le> [1000, 4, 0, 7] ! i"
    by (simp add: less_Suc_eq numeral_eq_Suc)
  then show ?thesis using age_queue_ignores_age [of "[1000, 4, 0, 7]" 5] by (simp add: four)
qed

section \<open>A sample cube\<close>

definition sample_cube :: Config where
  "sample_cube = sample_Config\<lparr>protocol := HMC\<rparr>"

lemma sample_cube_setup: "hmc_setup plain_Build sample_cube"
proof -
  have map: "AddressMapping sample_cube = AddressMapping sample_Config" by (simp add: fun_eq_iff AddressMapping_def sample_cube_def cong: if_cong)
  have chan: "GetChannel sample_cube a = GetChannel sample_Config a" for a by (simp add: GetChannel_def sample_cube_def)
  have "mapping_ok sample_cube" using sample_mapping_ok unfolding mapping_ok_def map by (simp add: sample_cube_def in_channel_def)
  moreover have "cfg_wf sample_cube" "geom_wf sample_cube" using sample_wf(1) sample_geom by (simp_all add: cfg_wf_def geom_wf_def sample_cube_def)
  ultimately have "ctl_setup plain_Build sample_cube"
    by (simp add: ctl_setup_def ctl_config_def sample_cube_def sample_Config_sel new_Refresh_def quot_int_def sdiv_nonneg)
  moreover have "succeeds (GetChannel sample_Config a) (\<lambda>k. 0 \<le> k \<and> k < channels sample_cube)" for a
    using sample_sys_setup by (simp add: sys_setup_def sample_cube_def)
  moreover have "succeeds (SetClockRatio sample_cube) (\<lambda>(_, l). 0 < l)"
    by (simp add: SetClockRatio_def quot_int_def sdiv_nonneg sample_cube_def sample_Config_sel Let_def)
  ultimately show ?thesis by (simp add: hmc_setup_def chan IsHMC_def) (simp add: sample_cube_def sample_Config_sel)
qed

lemma sample_cube_start: "\<exists>h. hmc_start plain_Build sample_cube h \<and> links h = 4 \<and> queue_depth h = 16 \<and> ps_per_logic h = 533"
proof -
  have "succeeds (new_HMCMemorySystem sample_cube 0 sample_Shared) (\<lambda>h. hmc_inv plain_Build sample_cube h)"
    by (rule succeeds_mono [OF new_HMC_ok [OF sample_cube_setup]]) (simp_all add: sample_Shared_def)
  then obtain h where h: "new_HMCMemorySystem sample_cube 0 sample_Shared = Inr h" by (auto elim!: succeedsE)
  have "SetClockRatio sample_cube = Inr (800, 533)"
    by (simp add: SetClockRatio_def quot_int_def sdiv_nonneg sample_cube_def sample_Config_sel Let_def)
  then have "links h = 4 \<and> queue_depth h = 16 \<and> ps_per_logic h = 533"
    using h by (auto simp: new_HMCMemorySystem_def bind_res_eq_Inr sample_cube_def sample_Config_sel)
  moreover have "hmc_start plain_Build sample_cube h"
    unfolding hmc_start_def using h by (intro conjI sample_cube_setup exI [of _ 0] exI [of _ sample_Shared]) (simp_all add: sample_Shared_def)
  ultimately show ?thesis by blast
qed

text \<open>A cube with one request.\<close>

lemma sample_cube_request:
  "\<exists>h. hmc_run plain_Build sample_cube {#(64, False)#} {#} h \<and> hmc_guard sample_cube h \<and> links h = 4 \<and> ps_per_logic h = 533"
proof -
  obtain h where h: "hmc_start plain_Build sample_cube h" "links h = 4" "queue_depth h = 16" "ps_per_logic h = 533" using sample_cube_start by blast
  have core: "hmc_core plain_Build sample_cube {#} h" and guard: "hmc_guard sample_cube h" using hmc_start_ok [OF h(1)] by (simp_all add: hmc_inv_def)
  obtain m sh where new: "new_HMCMemorySystem sample_cube m sh = Inr h" using h(1) by (auto simp: hmc_start_def)
  have qs: "link_req_queues h = replicate 4 []" using new by (auto simp: new_HMCMemorySystem_def bind_res_eq_Inr sample_cube_def sample_Config_sel)
  have room: "HMC_WillAcceptTransaction h 64 False" using h(3) by (simp add: HMC_WillAcceptTransaction_def qs has_room_def list_ex_iff)
  obtain h' where h': "HMC_AddTransaction sample_cube 64 False h = Inr (True, h')" "clocks h' = clocks h" "hmc_core plain_Build sample_cube {#} h'"
    using HMC_AddTransaction_ok [OF core, of 64 False] room by (auto elim!: succeedsE)
  have ctl: "ctrls h' = ctrls h"
    using h'(1) by (auto simp: HMC_AddTransaction_def bind_res_eq_Inr InsertHMCReq_result [OF core_links(1-3) [OF core] _ core_links(4,5) [OF core]] new_HMCRequest_def block_req_type_def sample_cube_def sample_Config_sel inserted_def put_req_def split: option.splits)
  have "hmc_run plain_Build sample_cube {#} {#} h" using h(1) by (rule mem_run.start)
  then have "hmc_run plain_Build sample_cube {#(64, False)#} {#} h'" by (rule mem_run.request) (simp add: hmc_add_def h'(1))
  moreover have "links h' = 4" using core_links(7) [OF h'(3)] core_links(7) [OF core] h(2) by simp
  moreover have "ps_per_logic h' = 533" "dram_ps h' = dram_ps h" using h'(2) h(4) by (simp_all add: clocks_def)
  ultimately show ?thesis using guard ctl by (auto simp: hmc_guard_def)
qed

theorem cube_answers_once_witness:
  "\<exists>h. hmc_run plain_Build sample_cube {#(64, False)#} {#} h \<and> hmc_guard sample_cube h \<and> hmc_pending h = {#(64, False)#}"
proof -
  obtain h where h: "hmc_run plain_Build sample_cube {#(64, False)#} {#} h" "hmc_guard sample_cube h" using sample_cube_request by blast
  with cube_answers_once [OF this] show ?thesis by auto
qed


theorem cube_clock_ratio_witness:
  "\<exists>h n. hmc_run plain_Build sample_cube {#(64, False)#} {#} h \<and> sys_clk h = word_of_nat n \<and> logic_clk h = word_of_nat ((532 + 800 * n) div 533)"
proof -
  obtain h where h: "hmc_run plain_Build sample_cube {#(64, False)#} {#} h" "ps_per_logic h = 533" using sample_cube_request by blast
  with cube_clock_ratio [OF h(1)] show ?thesis by auto
qed

theorem InsertHMCReq_round_robin_witness:
  "\<exists>h r. hmc_run plain_Build sample_cube {#(64, False)#} {#} h \<and> InsertHMCReq
     \<lparr>hr_type = RD64, mem_operand = 128, hr_link = 0, hr_quad = 1, hr_vault = 1, hr_flits = 1, hr_is_write = False, hr_exit_time = 0\<rparr> h = Inr r"
proof -
  let ?req = "\<lparr>hr_type = RD64, mem_operand = 128, hr_link = 0, hr_quad = 1, hr_vault = 1, hr_flits = 1, hr_is_write = False, hr_exit_time = 0\<rparr>"
  obtain h where h: "hmc_run plain_Build sample_cube {#(64, False)#} {#} h" using sample_cube_request by blast
  have "resp_packet (hr_type ?req) = Inr (RD_RS, 5)" by simp
  from InsertHMCReq_round_robin [OF h this] h show ?thesis by blast
qed

end
