(* ===== verification/CPU_Correct.thy ===== *)
theory CPU_Correct
  imports CPU_Front HMC_Correct
begin

text \<open>
  The processors of the stand-alone simulator as clients of a memory backend.  The memory system that
  \<open>MemorySystem\<close> chooses is a backend, whichever it is; an offered request is either made or refused without
  effect.  From this each processor is shown to make exactly the requests it is meant to make, and none twice.
\<close>

section \<open>The chosen memory system as a backend\<close>

fun ms_start :: "Build \<Rightarrow> Config \<Rightarrow> MemorySystem \<Rightarrow> bool" where
  "ms_start bo c (Jedec s) = sys_start bo c s"
| "ms_start bo c (Cube h) = hmc_start bo c h"

fun ms_inv :: "Build \<Rightarrow> Config \<Rightarrow> MemorySystem \<Rightarrow> bool" where
  "ms_inv bo c (Jedec s) = sys_inv bo c s"
| "ms_inv bo c (Cube h) = hmc_inv bo c h"

fun ms_pending :: "MemorySystem \<Rightarrow> access multiset" where
  "ms_pending (Jedec s) = open_accesses (ctrls s)"
| "ms_pending (Cube h) = hmc_pending h"

fun ms_guard :: "Config \<Rightarrow> MemorySystem \<Rightarrow> bool" where
  "ms_guard c (Jedec s) = sys_guard c s"
| "ms_guard c (Cube h) = hmc_guard c h"

text \<open>The requests that are accepted.\<close>

definition ms_add :: "Build \<Rightarrow> Config \<Rightarrow> u64 \<Rightarrow> bool \<Rightarrow> MemorySystem \<Rightarrow> (bool \<times> MemorySystem) res" where
  "ms_add bo c a w ms = bind_res (MemorySystem_AddTransaction bo c a w ms) (\<lambda>(ok, ms). bind_res (require AssertionFailed ok) (\<lambda>_. Inr (ok, ms)))"

text \<open>A client that asks before it makes a request.\<close>

locale offering = memory_backend init wf pending add_op guard tick
  for init :: "'s \<Rightarrow> bool" and wf :: "'s \<Rightarrow> bool" and pending :: "'s \<Rightarrow> (u64 \<times> bool) multiset"
    and add_op :: "u64 \<Rightarrow> bool \<Rightarrow> 's \<Rightarrow> (bool \<times> 's) res" and guard :: "'s \<Rightarrow> bool"
    and tick :: "'s \<Rightarrow> ((u64 \<times> bool) list \<times> 's) res" +
  fixes offer_op :: "u64 \<Rightarrow> bool \<Rightarrow> 's \<Rightarrow> (bool \<times> 's) res"
  assumes offer_law: "wf s \<Longrightarrow> succeeds (offer_op a w s) (\<lambda>(ok, s'). if ok then add_op a w s = Inr (True, s') else s' = s)"
begin

lemma offer_run:
  assumes "mem_run init add_op guard tick reqs ans s"
  shows "succeeds (offer_op a w s) (\<lambda>(ok, s'). mem_run init add_op guard tick (if ok then add_mset (a, w) reqs else reqs) ans s')"
  using offer_law [of s a w] conjunct1 [OF balance [OF assms]] mem_run.request [OF assms, of a w True] assms
  by (auto elim!: succeeds_mono)

lemma tick_run:
  assumes "mem_run init add_op guard tick reqs ans s" and "guard s"
  shows "succeeds (tick s) (\<lambda>(es, s'). mem_run init add_op guard tick reqs (mset es + ans) s')"
proof -
  obtain es s' where "tick s = Inr (es, s')" using tick_law [of s] balance [OF assms(1)] assms(2) by (auto elim!: succeedsE)
  then show ?thesis using mem_run.cycle [OF assms] by simp
qed

end

lemma jedec_offer:
  assumes "sys_inv bo c s"
  shows "succeeds (Jedec_WillAcceptTransaction bo c s a w) (\<lambda>ok. ok \<longrightarrow> succeeds (Jedec_AddTransaction bo c a w s) (\<lambda>(ok, s'). ok))"
proof -
  have "succeeds (GetChannel c a) (\<lambda>k. 0 \<le> k \<and> k < int (length (ctrls s)))" using assms by (simp add: sys_inv_def sys_setup_def)
  then obtain k where k: "GetChannel c a = Inr k" "0 \<le> k" "k < int (length (ctrls s))" by (auto elim!: succeedsE)
  then have v: "vec_get (ctrls s) k = Inr (ctrls s ! nat k)" "vec_set (ctrls s) k t = Inr ((ctrls s)[nat k := t])" for t
    by (simp_all add: vec_get_Inr vec_set_Inr)
  show ?thesis by (simp add: Jedec_WillAcceptTransaction_def Jedec_AddTransaction_def k(1) v Let_def)
qed

interpretation ms: offering "ms_start bo c" "ms_inv bo c" ms_pending "ms_add bo c" "ms_guard c" "MemorySystem_ClockTick bo c (new_Timing c)" "offer bo c" for bo c
proof unfold_locales
  show "ms_inv bo c ms \<and> ms_pending ms = {#}" if "ms_start bo c ms" for ms
    using that jedec.init_law hmc.init_law by (cases ms) auto
  show "ms_inv bo c ms' \<and> ms_pending ms' = add_mset (a, w) (ms_pending ms)" if inv: "ms_inv bo c ms" and add: "ms_add bo c a w ms = Inr (ok, ms')" for ms a w ok ms'
  proof (cases ms)
    case (Jedec s)
    then show ?thesis using inv add jedec.add_law by (fastforce simp: ms_add_def bind_res_eq_Inr)
  next
    case (Cube h)
    obtain h' where "hmc_add c a w h = Inr (True, h')" "ms' = Cube h'" using add [unfolded Cube] by (auto simp: ms_add_def hmc_add_def bind_res_eq_Inr)
    then show ?thesis using hmc.add_law [of bo c h a w True h'] inv Cube by simp
  qed
  show "succeeds (MemorySystem_ClockTick bo c (new_Timing c) ms) (\<lambda>(es, ms'). ms_inv bo c ms' \<and> ms_pending ms = mset es + ms_pending ms')"
    if "ms_inv bo c ms" "ms_guard c ms" for ms
  proof (cases ms)
    case (Jedec s)
    then show ?thesis using jedec.tick_law [of bo c s] that by (auto elim!: succeeds_mono)
  next
    case (Cube h)
    then show ?thesis using hmc.tick_law [of bo c h] that by (auto elim!: succeeds_mono)
  qed
  show "succeeds (offer bo c a w ms) (\<lambda>(ok, ms'). if ok then ms_add bo c a w ms = Inr (True, ms') else ms' = ms)" if inv: "ms_inv bo c ms" for ms a w
  proof (cases ms)
    case (Jedec s)
    obtain ok where ok: "Jedec_WillAcceptTransaction bo c s a w = Inr ok" "ok \<longrightarrow> (\<exists>s'. Jedec_AddTransaction bo c a w s = Inr (True, s'))"
      using jedec_offer [of bo c s a w] inv Jedec by (auto simp: succeeds_iff)
    then show ?thesis using Jedec by (auto simp: offer_def ms_add_def)
  next
    case (Cube h)
    have "hmc_core bo c {#} h" using inv Cube by (simp add: hmc_inv_def)
    from HMC_AddTransaction_ok [OF this, of a w] obtain ok h' where "HMC_AddTransaction c a w h = Inr (ok, h')" "ok = HMC_WillAcceptTransaction h a w"
      by (auto elim!: succeedsE)
    then show ?thesis using Cube by (simp add: offer_def ms_add_def)
  qed
qed

abbreviation ms_run :: "Build \<Rightarrow> Config \<Rightarrow> access multiset \<Rightarrow> access multiset \<Rightarrow> MemorySystem \<Rightarrow> bool" where
  "ms_run bo c \<equiv> mem_run (ms_start bo c) (ms_add bo c) (ms_guard c) (MemorySystem_ClockTick bo c (new_Timing c))"

section \<open>Runs of a processor\<close>

fun memory_of :: "FrontEnd \<Rightarrow> MemorySystem" where
  "memory_of (Random_CPU p) = memory_system p"
| "memory_of (Stream_CPU p) = memory_system p"
| "memory_of (Trace_CPU p) = memory_system p"
| "memory_of (CovCh_CPU p) = memory_system p"

inductive cpu_run :: "Build \<Rightarrow> Config \<Rightarrow> FrontEnd \<Rightarrow> nat \<Rightarrow> access multiset \<Rightarrow> FrontEnd \<Rightarrow> bool" for bo c p0 where
  start: "cpu_run bo c p0 0 {#} p0"
| cycle: "cpu_run bo c p0 n ans p \<Longrightarrow> ms_guard c (memory_of p) \<Longrightarrow> CPU_ClockTick bo c (new_Timing c) p = Inr (es, p') \<Longrightarrow>
    cpu_run bo c p0 (Suc n) (mset es + ans) p'"

text \<open>An invariant of the cycles of one kind of processor holds in its runs.\<close>

lemma cpu_run_invariant:
  assumes "cpu_run bo c (K p0) n ans f" and "I 0 {#} p0"
    and "\<And>n ans p. I n ans p \<Longrightarrow> ms_guard c (memory_of (K p)) \<Longrightarrow> on_success (T p) (\<lambda>(es, p'). I (Suc n) (mset es + ans) p')"
    and "\<And>p. CPU_ClockTick bo c (new_Timing c) (K p) = bind_res (T p) (\<lambda>(es, p). Inr (es, K p))"
  shows "\<exists>p. f = K p \<and> I n ans p"
  using assms(1)
proof induction
  case (cycle n ans f es f')
  then obtain p where p: "f = K p" "I n ans p" by blast
  then obtain es' p' where "T p = Inr (es', p')" "I (Suc n) (mset es' + ans) p'" using assms(3) [of n ans p] cycle.hyps(2,3) by (auto simp: assms(4) bind_res_eq_Inr on_success_iff)
  then show ?case using cycle.hyps(3) p(1) by (auto simp: assms(4))
qed (use assms(2) in blast)

text \<open>The first requests of a sequence.\<close>

definition first_of :: "(nat \<Rightarrow> access) \<Rightarrow> nat \<Rightarrow> access multiset" where
  "first_of f k = mset (map f [0..<k])"

lemma first_of_simps [simp]: "first_of f 0 = {#}" "first_of f (Suc k) = add_mset (f k) (first_of f k)"
proof -
  show "first_of f (Suc k) = add_mset (f k) (first_of f k)" unfolding first_of_def upt_Suc by simp
qed (simp add: first_of_def)

section \<open>Random requests\<close>

definition random_access :: "Gen \<Rightarrow> nat \<Rightarrow> access" where
  "random_access g i = (gen_seq g (gen_pos g + 2 * i), gen_seq g (gen_pos g + 2 * i + 1) mod 3 = 0)"

definition random_inv :: "Build \<Rightarrow> Config \<Rightarrow> Gen \<Rightarrow> nat \<Rightarrow> access multiset \<Rightarrow> RandomCPU \<Rightarrow> bool" where
  "random_inv bo c g n ans p \<longleftrightarrow> (\<exists>k \<le> n. ms_run bo c (first_of (random_access g) k) ans (memory_system p) \<and> gen_seq (rc_gen p) = gen_seq g \<and>
     gen_pos (rc_gen p) = gen_pos g + 2 * (k + of_bool (\<not> rc_get_next p)) \<and> (\<not> rc_get_next p \<longrightarrow> (last_addr p, last_write p) = random_access g k))"

lemma random_step:
  assumes "random_inv bo c g n ans p" and "ms_guard c (memory_system p)"
  shows "succeeds (RandomCPU_ClockTick bo c (new_Timing c) p) (\<lambda>(es, p'). random_inv bo c g (Suc n) (mset es + ans) p')"
proof -
  obtain k where k: "k \<le> n" "ms_run bo c (first_of (random_access g) k) ans (memory_system p)" "gen_seq (rc_gen p) = gen_seq g"
    "gen_pos (rc_gen p) = gen_pos g + 2 * (k + of_bool (\<not> rc_get_next p))" "\<not> rc_get_next p \<longrightarrow> (last_addr p, last_write p) = random_access g k"
    using assms(1) by (auto simp: random_inv_def)
  let ?q = "random_next p"
  have q: "(last_addr ?q, last_write ?q) = random_access g k" "gen_seq (rc_gen ?q) = gen_seq g" "gen_pos (rc_gen ?q) = gen_pos g + 2 * Suc k"
    using k(3-5) by (auto simp: random_next_def draw_def random_access_def)
  obtain es ms where tick: "MemorySystem_ClockTick bo c (new_Timing c) (memory_system p) = Inr (es, ms)"
    and run: "ms_run bo c (first_of (random_access g) k) (mset es + ans) ms"
    using ms.tick_run [OF k(2) assms(2)] by (auto elim!: succeedsE)
  obtain ok ms' where off: "offer bo c (last_addr ?q) (last_write ?q) ms = Inr (ok, ms')"
    and run': "ms_run bo c (if ok then add_mset (random_access g k) (first_of (random_access g) k) else first_of (random_access g) k) (mset es + ans) ms'"
    using ms.offer_run [OF run, of "last_addr ?q" "last_write ?q"] unfolding q(1) by (auto elim!: succeedsE)
  have "random_inv bo c g (Suc n) (mset es + ans) (?q\<lparr>memory_system := ms', rc_get_next := ok, cpu_clk := cpu_clk ?q + 1\<rparr>)"
    unfolding random_inv_def using run' q k(1) by (intro exI [of _ "if ok then Suc k else k"]) (auto split: if_splits)
  then show ?thesis by (simp add: RandomCPU_ClockTick_def tick Let_def off)
qed

text \<open>In every run of the random processor, on either memory system, the requests made so far are the first draws of the engine, two
  draws each, in any order: none is skipped, and one that the memory refuses is offered again.  Each is answered or still
  pending, and the next cycle ends without a fault under the guard of the memory.\<close>

lemma random_cpu_requests:
  assumes "ms_start bo c ms" and "cpu_run bo c (Random_CPU (new_RandomCPU a g ms)) n ans (Random_CPU p)"
  shows "\<exists>k \<le> n. first_of (random_access g) k = ans + ms_pending (memory_system p) \<and>
      gen_pos (rc_gen p) = gen_pos g + 2 * (k + of_bool (\<not> rc_get_next p)) \<and>
      (ms_guard c (memory_system p) \<longrightarrow> succeeds (RandomCPU_ClockTick bo c (new_Timing c) p) (\<lambda>_. True))"
proof -
  have "ms_run bo c {#} {#} ms" using assms(1) by (rule mem_run.start)
  then have "random_inv bo c g 0 {#} (new_RandomCPU a g ms)" by (simp add: random_inv_def new_RandomCPU_def)
  from cpu_run_invariant [where I = "random_inv bo c g" and K = Random_CPU and T = "RandomCPU_ClockTick bo c (new_Timing c)", OF assms(2) this] succeeds_on_success [OF random_step]
  have inv: "random_inv bo c g n ans p" by simp
  then show ?thesis using ms.balance random_step [OF inv] by (fastforce simp: random_inv_def elim!: succeeds_mono)
qed
section \<open>Streams\<close>

definition offset_of :: "nat \<Rightarrow> u64" where
  "offset_of e = word_of_nat (64 * (e mod 32768))"

lemma unat_u64_of_nat: "m < 2 ^ 64 \<Longrightarrow> unat (word_of_nat m :: u64) = m"
  by (simp add: unsigned_of_nat take_bit_nat_eq_self)

lemma offset_of_small: "\<not> array_size \<le> offset_of e"
proof -
  have lt: "64 * (e mod 32768) < 64 * 32768" by (intro mult_strict_left_mono mod_less_divisor) simp_all
  then have "unat (offset_of e) = 64 * (e mod 32768)" unfolding offset_of_def by (intro unat_u64_of_nat) simp
  moreover have "unat array_size = 64 * 32768" by (simp add: array_size_def)
  ultimately show ?thesis unfolding word_le_nat_alt using lt by linarith
qed

lemma offset_of_Suc: "Suc (e mod 32768) \<noteq> 32768 \<Longrightarrow> offset_of (Suc e) = offset_of e + stride"
  and offset_of_last: "Suc (e mod 32768) = 32768 \<Longrightarrow> offset_of e + stride = array_size"
  and offset_of_first: "e mod 32768 = 0 \<Longrightarrow> offset_of e = 0"
proof -
  have step: "offset_of e + stride = word_of_nat (64 * Suc (e mod 32768))" by (simp add: offset_of_def stride_def)
  show "offset_of (Suc e) = offset_of e + stride" if "Suc (e mod 32768) \<noteq> 32768"
    unfolding step using that by (simp add: offset_of_def mod_Suc)
  show "offset_of e + stride = array_size" if "Suc (e mod 32768) = 32768" unfolding step that by (simp add: array_size_def)
  show "offset_of e = 0" if "e mod 32768 = 0" unfolding offset_of_def that by simp
qed

text \<open>The accesses of an element: two reads and a write, 32768 elements for each set of arrays.\<close>

definition stream_access :: "Gen \<Rightarrow> nat \<Rightarrow> access \<times> access \<times> access" where
  "stream_access g e =
     (let q = gen_pos g + 3 * (e div 32768); off = offset_of e
      in ((gen_seq g q + off, False), (gen_seq g (q + 1) + off, False), (gen_seq g (q + 2) + off, True)))"

definition element_sent :: "Gen \<Rightarrow> nat \<Rightarrow> bool \<Rightarrow> bool \<Rightarrow> bool \<Rightarrow> access multiset" where
  "element_sent g e a b x = (case stream_access g e of (ra, rb, wc) \<Rightarrow>
     (if a then {#ra#} else {#}) + (if b then {#rb#} else {#}) + (if x then {#wc#} else {#}))"

definition elements_sent :: "Gen \<Rightarrow> nat \<Rightarrow> access multiset" where
  "elements_sent g e = sum_list (map (\<lambda>i. element_sent g i True True True) [0..<e])"

lemma elements_sent_simps [simp]: "elements_sent g 0 = {#}" "elements_sent g (Suc e) = elements_sent g e + element_sent g e True True True"
  by (simp_all add: elements_sent_def)

text \<open>Between two elements of a set of arrays, and before a new set.\<close>

definition arrays_ready :: "Gen \<Rightarrow> nat \<Rightarrow> StreamCPU \<Rightarrow> bool" where
  "arrays_ready g e p \<longleftrightarrow> gen_seq (st_gen p) = gen_seq g \<and> gen_pos (st_gen p) = gen_pos g + 3 * (e div 32768 + 1) \<and>
     st_offset p = offset_of e \<and>
     stream_access g e = ((addr_a p + st_offset p, False), (addr_b p + st_offset p, False), (addr_c p + st_offset p, True))"

definition arrays_done :: "Gen \<Rightarrow> nat \<Rightarrow> StreamCPU \<Rightarrow> bool" where
  "arrays_done g e p \<longleftrightarrow> gen_seq (st_gen p) = gen_seq g \<and> gen_pos (st_gen p) = gen_pos g + 3 * (e div 32768) \<and> e mod 32768 = 0 \<and>
     (st_offset p = array_size \<or> cpu_clk p = 0) \<and> \<not> inserted_a p \<and> \<not> inserted_b p \<and> \<not> inserted_c p"

lemma stream_arrays_ready:
  assumes "arrays_done g e p \<or> arrays_ready g e p \<and> cpu_clk p \<noteq> 0"
  shows "arrays_ready g e (stream_arrays p)"
  using assms
proof (elim disjE conjE)
  assume "arrays_done g e p"
  then show ?thesis by (auto simp: arrays_done_def arrays_ready_def stream_arrays_def draw_def stream_access_def offset_of_first Let_def)
next
  assume "arrays_ready g e p" "cpu_clk p \<noteq> 0"
  then show ?thesis using offset_of_small [of e] by (auto simp: arrays_ready_def stream_arrays_def)
qed

lemma stream_arrays_same [simp]:
  "memory_system (stream_arrays p) = memory_system p" "inserted_a (stream_arrays p) = inserted_a p" "inserted_b (stream_arrays p) = inserted_b p"
  "inserted_c (stream_arrays p) = inserted_c p" "cpu_clk (stream_arrays p) = cpu_clk p"
  by (simp_all add: stream_arrays_def draw_def)

text \<open>The next element, or the end of the arrays.\<close>

lemma arrays_advance:
  assumes "arrays_ready g e p"
  shows "arrays_done g (Suc e) (p\<lparr>st_offset := st_offset p + stride, inserted_a := False, inserted_b := False, inserted_c := False, cpu_clk := t\<rparr>) \<or>
    arrays_ready g (Suc e) (p\<lparr>st_offset := st_offset p + stride, inserted_a := False, inserted_b := False, inserted_c := False, cpu_clk := t\<rparr>)"
proof -
  have off: "st_offset p = offset_of e" using assms by (simp add: arrays_ready_def)
  show ?thesis
  proof (cases "Suc (e mod 32768) = 32768")
    case True
    then have "Suc e mod 32768 = 0" "Suc e div 32768 = e div 32768 + 1" by (simp_all add: mod_Suc div_Suc)
    then show ?thesis using assms offset_of_last [OF True] by (simp add: arrays_ready_def arrays_done_def)
  next
    case False
    then have same: "Suc e div 32768 = e div 32768" by (simp add: div_Suc mod_Suc)
    have "stream_access g (Suc e) = ((addr_a p + (st_offset p + stride), False), (addr_b p + (st_offset p + stride), False), (addr_c p + (st_offset p + stride), True))"
      using assms unfolding arrays_ready_def stream_access_def Let_def same offset_of_Suc [OF False] by auto
    then show ?thesis using assms unfolding arrays_ready_def same offset_of_Suc [OF False] by simp
  qed
qed

definition stream_inv :: "Build \<Rightarrow> Config \<Rightarrow> Gen \<Rightarrow> nat \<Rightarrow> access multiset \<Rightarrow> StreamCPU \<Rightarrow> bool" where
  "stream_inv bo c g n ans p \<longleftrightarrow> cpu_clk p = word_of_nat n \<and> (\<exists>e \<le> n.
     ms_run bo c (elements_sent g e + element_sent g e (inserted_a p) (inserted_b p) (inserted_c p)) ans (memory_system p) \<and>
     (arrays_done g e p \<or> arrays_ready g e p \<and> cpu_clk p \<noteq> 0) \<and> \<not> (inserted_a p \<and> inserted_b p \<and> inserted_c p))"

lemma stream_insert_run:
  assumes "ms_run bo c (F done) ans ms" and "F True = add_mset (a, w) (F False)"
  shows "succeeds (stream_insert bo c done a w ms) (\<lambda>(done', ms'). ms_run bo c (F done') ans ms')"
proof (cases "done")
  case False
  then have "ms_run bo c (F False) ans ms" using assms(1) by simp
  from ms.offer_run [OF this, of a w] show ?thesis
    using False assms(2) by (auto simp: stream_insert_def elim!: succeeds_mono split: if_splits)
qed (use assms(1) in \<open>simp add: stream_insert_def\<close>)

text \<open>The three requests of an element, one after the other.\<close>

lemma element_sent_add:
  assumes "stream_access g e = (ra, rb, wc)"
  shows "E + element_sent g e True b x = add_mset ra (E + element_sent g e False b x)"
    and "E + element_sent g e a True x = add_mset rb (E + element_sent g e a False x)"
    and "E + element_sent g e a b True = add_mset wc (E + element_sent g e a b False)"
  by (simp_all add: element_sent_def assms)

lemma stream_step:
  assumes inv: "stream_inv bo c g n ans p" and guard: "ms_guard c (memory_system p)" and n: "Suc n < 2 ^ 64"
  shows "succeeds (StreamCPU_ClockTick bo c (new_Timing c) p) (\<lambda>(es, p'). stream_inv bo c g (Suc n) (mset es + ans) p')"
proof -
  let ?sent = "\<lambda>e a b x. elements_sent g e + element_sent g e a b x"
  obtain e where e: "e \<le> n" "ms_run bo c (?sent e (inserted_a p) (inserted_b p) (inserted_c p)) ans (memory_system p)"
    "arrays_done g e p \<or> arrays_ready g e p \<and> cpu_clk p \<noteq> 0" and clk: "cpu_clk p = word_of_nat n"
    using inv by (auto simp: stream_inv_def)
  define q where "q = stream_arrays p"
  have q: "arrays_ready g e q" "inserted_a q = inserted_a p" "inserted_b q = inserted_b p" "inserted_c q = inserted_c p" "cpu_clk q = word_of_nat n"
    using stream_arrays_ready [OF e(3)] clk by (simp_all add: q_def)
  have acc: "stream_access g e = ((addr_a q + st_offset q, False), (addr_b q + st_offset q, False), (addr_c q + st_offset q, True))"
    using q(1) by (simp add: arrays_ready_def)
  note add = element_sent_add [OF acc, where E = "elements_sent g e"]
  obtain es ms0 where tick: "MemorySystem_ClockTick bo c (new_Timing c) (memory_system p) = Inr (es, ms0)"
    and r0: "ms_run bo c (?sent e (inserted_a q) (inserted_b q) (inserted_c q)) (mset es + ans) ms0"
    using ms.tick_run [OF e(2) guard] q by (auto elim!: succeedsE)
  obtain a ms1 where i1: "stream_insert bo c (inserted_a q) (addr_a q + st_offset q) False ms0 = Inr (a, ms1)"
    and r1: "ms_run bo c (?sent e a (inserted_b q) (inserted_c q)) (mset es + ans) ms1"
    using stream_insert_run [where F = "\<lambda>a. ?sent e a (inserted_b q) (inserted_c q)", OF r0 add(1)] by (auto elim!: succeedsE)
  obtain b ms2 where i2: "stream_insert bo c (inserted_b q) (addr_b q + st_offset q) False ms1 = Inr (b, ms2)"
    and r2: "ms_run bo c (?sent e a b (inserted_c q)) (mset es + ans) ms2"
    using stream_insert_run [where F = "\<lambda>b. ?sent e a b (inserted_c q)", OF r1 add(2)] by (auto elim!: succeedsE)
  obtain x ms3 where i3: "stream_insert bo c (inserted_c q) (addr_c q + st_offset q) True ms2 = Inr (x, ms3)"
    and r3: "ms_run bo c (?sent e a b x) (mset es + ans) ms3"
    using stream_insert_run [where F = "\<lambda>x. ?sent e a b x", OF r2 add(3)] by (auto elim!: succeedsE)
  let ?q = "q\<lparr>memory_system := ms3, inserted_a := a, inserted_b := b, inserted_c := x\<rparr>"
  have clk': "cpu_clk q + 1 = word_of_nat (Suc n)" using q(5) by simp
  have nz: "(word_of_nat (Suc n) :: u64) \<noteq> 0" using unat_u64_of_nat [OF n] unat_0 by (metis nat.distinct(1))
  have rdy: "arrays_ready g e ?q" using q(1) by (simp add: arrays_ready_def)
  have "stream_inv bo c g (Suc n) (mset es + ans) (stream_next ?q\<lparr>cpu_clk := word_of_nat (Suc n)\<rparr>)"
  proof (cases "a \<and> b \<and> x")
    case True
    have "element_sent g (Suc e) False False False = {#}" by (simp add: element_sent_def split: prod.split)
    then show ?thesis
      using True arrays_advance [OF rdy, of "word_of_nat (Suc n)"] r3 e(1) nz unfolding stream_inv_def
      by (intro conjI exI [of _ "Suc e"]) (simp_all add: stream_next_def)
  next
    case False
    then have "stream_next ?q = ?q" by (auto simp: stream_next_def)
    then show ?thesis
      using False rdy r3 e(1) nz unfolding stream_inv_def by (intro conjI exI [of _ e]) (simp_all add: arrays_ready_def)
  qed
  moreover have "cpu_clk (stream_next ?q) + 1 = word_of_nat (Suc n)" using clk' by (simp add: stream_next_def)
  ultimately show ?thesis using i1 i2 i3 by (simp add: StreamCPU_ClockTick_def tick Let_def q_def [symmetric] add.commute)
qed

text \<open>C28. In every run of the stream processor, on either memory system, each element of the three arrays is read twice and written once, in order of the
  elements: the requests made so far are all those of the first elements and some of those of the current one, as its flags say.  Each is
  answered or still pending, and the next cycle ends without a fault under the guard of the memory.\<close>

theorem stream_cpu_requests:
  assumes "ms_start bo c ms" and "cpu_run bo c (Stream_CPU (new_StreamCPU junk g ms)) n ans (Stream_CPU p)" and "Suc n < 2 ^ 64"
  shows "\<exists>e \<le> n. elements_sent g e + element_sent g e (inserted_a p) (inserted_b p) (inserted_c p) = ans + ms_pending (memory_system p) \<and>
    \<not> (inserted_a p \<and> inserted_b p \<and> inserted_c p) \<and>
    (ms_guard c (memory_system p) \<longrightarrow> succeeds (StreamCPU_ClockTick bo c (new_Timing c) p) (\<lambda>_. True))"
proof -
  let ?I = "\<lambda>n ans p. n < 2 ^ 64 \<longrightarrow> stream_inv bo c g n ans p"
  have "ms_run bo c {#} {#} ms" using assms(1) by (rule mem_run.start)
  then have "?I 0 {#} (new_StreamCPU junk g ms)"
    by (cases junk) (simp add: stream_inv_def new_StreamCPU_def arrays_done_def element_sent_def split: prod.split)
  from cpu_run_invariant [where I = ?I and K = Stream_CPU and T = "StreamCPU_ClockTick bo c (new_Timing c)", OF assms(2) this] stream_step
  have inv: "stream_inv bo c g n ans p" using assms(3) by (fastforce simp: on_success_iff succeeds_iff)
  then show ?thesis using ms.balance stream_step [OF inv _ assms(3)] by (fastforce simp: stream_inv_def elim!: succeeds_mono)
qed
section \<open>Traces\<close>

definition record_access :: "u64 \<times> string \<times> u64 \<Rightarrow> access" where
  "record_access = (\<lambda>(a, mem_op, _). (a, mem_op \<in> set write_types))"

definition made :: "(u64 \<times> string \<times> u64) list \<Rightarrow> access multiset" where
  "made rs = mset (map record_access rs)"

text \<open>What has been requested when the end of the file is met: with white space at the end the last address may be
  read once more, without it the last record may be missing.\<close>

definition trace_made :: "(u64 \<times> string \<times> u64) list \<Rightarrow> bool \<Rightarrow> bool \<Rightarrow> access multiset \<Rightarrow> bool" where
  "trace_made rs space eof reqs \<longleftrightarrow>
     (if \<not> eof then \<exists>k \<le> length rs. reqs = made (take k rs)
      else if space then reqs = made rs \<or> reqs = add_mset (fst (last rs), False) (made rs)
      else reqs = made rs \<or> reqs = made (butlast rs))"

definition trace_at :: "(u64 \<times> string \<times> u64) list \<Rightarrow> nat \<Rightarrow> TraceBasedCPU \<Rightarrow> bool" where
  "trace_at rs k p \<longleftrightarrow> \<not> tf_eof (trace_file p) \<and> (tf_space (trace_file p) \<or> tf_records (trace_file p) \<noteq> []) \<and>
     (if tb_get_next p then k \<le> length rs \<and> tf_records (trace_file p) = drop k rs \<and> (0 < k \<longrightarrow> trans_addr (tb_trans p) = fst (rs ! (k - 1)))
      else k < length rs \<and> tf_records (trace_file p) = drop (Suc k) rs \<and> trans_addr (tb_trans p) = fst (rs ! k) \<and>
           record_access (rs ! k) = (trans_addr (tb_trans p), is_write (tb_trans p)))"

definition trace_inv :: "Build \<Rightarrow> Config \<Rightarrow> (u64 \<times> string \<times> u64) list \<Rightarrow> bool \<Rightarrow> nat \<Rightarrow> access multiset \<Rightarrow> TraceBasedCPU \<Rightarrow> bool" where
  "trace_inv bo c rs space n ans p \<longleftrightarrow> tf_space (trace_file p) = space \<and> (\<exists>reqs. ms_run bo c reqs ans (memory_system p) \<and>
     (if tf_eof (trace_file p) then trace_made rs space True reqs else \<exists>k. trace_at rs k p \<and> reqs = made (take k rs)))"

text \<open>After a record is read: the access to be made next, and what its making gives.\<close>

lemma trace_read_next:
  assumes "trace_at rs k p" and "rs \<noteq> []"
  defines "q \<equiv> trace_read p"
  shows "tf_space (trace_file q) = tf_space (trace_file p) \<and>
    (if tf_eof (trace_file q) then
       trace_made rs (tf_space (trace_file q)) True (made (take k rs)) \<and>
       trace_made rs (tf_space (trace_file q)) True (add_mset (trans_addr (tb_trans q), is_write (tb_trans q)) (made (take k rs)))
     else trace_at rs k (q\<lparr>tb_get_next := False\<rparr>) \<and> trace_at rs (Suc k) (q\<lparr>tb_get_next := True\<rparr>) \<and> \<not> tb_get_next q \<and>
       made (take (Suc k) rs) = add_mset (trans_addr (tb_trans q), is_write (tb_trans q)) (made (take k rs)))"
proof -
  have step: "made (take (Suc k) rs) = add_mset (record_access (rs ! k)) (made (take k rs))" if "k < length rs"
    using that by (simp add: made_def take_Suc_conv_app_nth)
  show ?thesis
  proof (cases "tb_get_next p")
    case False
    then have "q = p" by (simp add: q_def trace_read_def)
    then show ?thesis using assms(1) False step by (auto simp: trace_at_def)
  next
    case next_rec: True
    then have at: "k \<le> length rs" "tf_records (trace_file p) = drop k rs" "0 < k \<longrightarrow> trans_addr (tb_trans p) = fst (rs ! (k - 1))"
      "\<not> tf_eof (trace_file p)" "tf_space (trace_file p) \<or> drop k rs \<noteq> []" using assms(1) by (auto simp: trace_at_def)
    show ?thesis
    proof (cases "k = length rs")
      case True
      then have "trans_addr (tb_trans p) = fst (last rs)" using at(3) assms(2) by (simp add: last_conv_nth)
      then show ?thesis using at(2,5) next_rec True by (simp add: q_def trace_read_def trace_made_def)
    next
      case False
      then have k: "k < length rs" using at(1) by simp
      obtain a m t where r: "rs ! k = (a, m, t)" by (cases "rs ! k")
      have rec: "tf_records (trace_file p) = (a, m, t) # drop (Suc k) rs" using at(2) Cons_nth_drop_Suc [OF k] r by simp
      have "take k rs = butlast rs" if "drop (Suc k) rs = []"
      proof -
        have "k = length rs - 1" using that k by simp
        then show ?thesis by (simp add: butlast_conv_take)
      qed
      moreover have "take (Suc k) rs = rs" if "drop (Suc k) rs = []" using that by simp
      ultimately show ?thesis
        using next_rec rec k step r at(4) by (auto simp: q_def trace_read_def trace_made_def trace_at_def record_access_def)
    qed
  qed
qed

lemma trace_invI:
  assumes "ms_run bo c reqs ans (memory_system p)" and "tf_space (trace_file p) = space"
    and "if tf_eof (trace_file p) then trace_made rs space True reqs else trace_at rs k p \<and> reqs = made (take k rs)"
  shows "trace_inv bo c rs space n ans p"
  using assms unfolding trace_inv_def by (intro conjI exI [of _ reqs]) (auto split: if_splits)

lemma trace_at_same [simp]: "trace_at rs k (p\<lparr>memory_system := m, cpu_clk := t\<rparr>) = trace_at rs k p"
  "trace_at rs k (p\<lparr>memory_system := m, tb_get_next := b, cpu_clk := t\<rparr>) = trace_at rs k (p\<lparr>tb_get_next := b\<rparr>)"
  by (simp_all add: trace_at_def)

lemma trace_step:
  assumes inv: "trace_inv bo c rs space n ans p" and guard: "ms_guard c (memory_system p)" and "rs \<noteq> []"
  shows "succeeds (TraceBasedCPU_ClockTick bo c (new_Timing c) p) (\<lambda>(es, p'). trace_inv bo c rs space (Suc n) (mset es + ans) p')"
proof -
  obtain reqs where reqs: "ms_run bo c reqs ans (memory_system p)" and space: "tf_space (trace_file p) = space"
    and st: "if tf_eof (trace_file p) then trace_made rs space True reqs else \<exists>k. trace_at rs k p \<and> reqs = made (take k rs)"
    using inv by (auto simp: trace_inv_def)
  obtain es ms where tick: "MemorySystem_ClockTick bo c (new_Timing c) (memory_system p) = Inr (es, ms)" and run: "ms_run bo c reqs (mset es + ans) ms"
    using ms.tick_run [OF reqs guard] by (auto elim!: succeedsE)
  show ?thesis
  proof (cases "tf_eof (trace_file p)")
    case True
    then show ?thesis using st run space by (auto simp: TraceBasedCPU_ClockTick_def tick trace_inv_def)
  next
    case False
    then obtain k where k: "trace_at rs k p" "reqs = made (take k rs)" using st by auto
    define q where "q = trace_read p"
    note q = trace_read_next [OF k(1) assms(3), folded q_def]
    obtain ok ms' where off: "offer bo c (trans_addr (tb_trans q)) (is_write (tb_trans q)) ms = Inr (ok, ms')"
      and run': "ms_run bo c (if ok then add_mset (trans_addr (tb_trans q), is_write (tb_trans q)) reqs else reqs) (mset es + ans) ms'"
      using ms.offer_run [OF run, of "trans_addr (tb_trans q)" "is_write (tb_trans q)"] by (auto elim!: succeedsE)
    have made: "trace_inv bo c rs space (Suc n) (mset es + ans) (q\<lparr>memory_system := ms', tb_get_next := ok, cpu_clk := cpu_clk q + 1\<rparr>)"
      by (rule trace_invI [where reqs = "if ok then add_mset (trans_addr (tb_trans q), is_write (tb_trans q)) reqs else reqs" and k = "if ok then Suc k else k"])
        (use q run' k(2) space in \<open>auto split: if_splits\<close>)
    have stay: "trace_at rs k (q\<lparr>tb_get_next := False\<rparr>) = trace_at rs k q" if "\<not> tb_get_next q" using that by (simp add: trace_at_def)
    have waits: "trace_inv bo c rs space (Suc n) (mset es + ans) (q\<lparr>memory_system := ms, cpu_clk := cpu_clk q + 1\<rparr>)"
      by (intro trace_invI [where reqs = reqs and k = k]) (use q run k(2) space stay in \<open>auto split: if_splits\<close>)
    show ?thesis using made waits False off by (simp add: TraceBasedCPU_ClockTick_def tick Let_def q_def [symmetric])
  qed
qed

text \<open>C27. In every run of the trace processor on a file with at least one record, on either memory system, the requests made before the end of
  the file is met are those of the first records, each once and with the operation of its record.  Afterwards they are those of
  the whole file, except that a file with white space after its last record may have its last address read once more, and a file without may
  lack its last record.  Each request is answered or still pending, and the next cycle ends without a fault under the guard of the memory.\<close>

theorem trace_cpu_requests:
  assumes "ms_start bo c ms" and "new_TraceBasedCPU t (Some f) ms = Inr p0" and "cpu_run bo c (Trace_CPU p0) n ans (Trace_CPU p)"
    and "tf_records f \<noteq> []" and "\<not> tf_eof f"
  shows "trace_made (tf_records f) (tf_space f) (tf_eof (trace_file p)) (ans + ms_pending (memory_system p)) \<and>
    (ms_guard c (memory_system p) \<longrightarrow> succeeds (TraceBasedCPU_ClockTick bo c (new_Timing c) p) (\<lambda>_. True))"
proof -
  let ?I = "trace_inv bo c (tf_records f) (tf_space f)"
  have p0: "p0 = \<lparr>memory_system = ms, cpu_clk = 0, trace_file = f, tb_trans = t, tb_get_next = True\<rparr>" using assms(2) by (simp add: new_TraceBasedCPU_def)
  have "ms_run bo c {#} {#} ms" using assms(1) by (rule mem_run.start)
  then have "?I 0 {#} p0" using assms(4,5) by (intro trace_invI [where reqs = "{#}" and k = 0]) (simp_all add: p0 trace_at_def made_def)
  from cpu_run_invariant [where I = ?I and K = Trace_CPU and T = "TraceBasedCPU_ClockTick bo c (new_Timing c)", OF assms(3) this]
    succeeds_on_success [OF trace_step [OF _ _ assms(4)]]
  have inv: "?I n ans p" by simp
  then obtain reqs where run: "ms_run bo c reqs ans (memory_system p)" and reqs: "if tf_eof (trace_file p) then trace_made (tf_records f) (tf_space f) True reqs
      else \<exists>k. trace_at (tf_records f) k p \<and> reqs = made (take k (tf_records f))"
    by (auto simp: trace_inv_def)
  have "trace_made (tf_records f) (tf_space f) (tf_eof (trace_file p)) reqs"
    using reqs by (auto simp: trace_made_def trace_at_def split: if_splits intro: less_imp_le_nat)
  then show ?thesis using ms.balance [OF run] trace_step [OF inv _ assms(4)] by (auto elim!: succeeds_mono)
qed

text \<open>Both ends of a trace: a last record without white space after it is lost if it is not due when it is read, and with white space the last
  address is read again.\<close>

lemma trace_last_record_lost:
  assumes "tf_records (trace_file p) = [(a, mem_op, cyc)]" and "\<not> tf_space (trace_file p)" and "\<not> tf_eof (trace_file p)" and "tb_get_next p"
    and "\<not> cyc \<le> cpu_clk p" and "TraceBasedCPU_ClockTick bo c tm p = Inr (es, p')"
  shows "tf_eof (trace_file p') \<and> MemorySystem_ClockTick bo c tm (memory_system p) = Inr (es, memory_system p')"
  using assms by (auto simp: TraceBasedCPU_ClockTick_def trace_read_def Let_def bind_res_eq_Inr)

lemma trace_last_address_again:
  assumes "tf_records (trace_file p) = []" and "\<not> tf_eof (trace_file p)" and "tb_get_next p" and "added_cycle (tb_trans p) \<le> cpu_clk p"
    and "TraceBasedCPU_ClockTick bo c tm p = Inr (es, p')"
  shows "\<exists>ms. MemorySystem_ClockTick bo c tm (memory_system p) = Inr (es, ms) \<and>
    offer bo c (trans_addr (tb_trans p)) False ms = Inr (tb_get_next p', memory_system p') \<and> tf_eof (trace_file p')"
  using assms by (auto simp: TraceBasedCPU_ClockTick_def trace_read_def Let_def bind_res_eq_Inr)

section \<open>The covert channel\<close>


















section \<open>Sample runs\<close>

definition sample_Gen :: Gen where
  "sample_Gen = \<lparr>gen_seq = (\<lambda>i. word_of_nat (64 * i)), gen_pos = 0\<rparr>"

lemma sample_memory: "\<exists>ms. ms_start plain_Build sample_Config ms \<and> ms_guard sample_Config ms"
  using sample_sys_start by (metis ms_start.simps(1) ms_guard.simps(1))

theorem stream_cpu_requests_witness:
  "\<exists>ms ans p e. ms_start plain_Build sample_Config ms \<and> cpu_run plain_Build sample_Config (Stream_CPU (new_StreamCPU (0, 0, 0) sample_Gen ms)) 1 ans (Stream_CPU p) \<and>
     e \<le> 1 \<and> elements_sent sample_Gen e + element_sent sample_Gen e (inserted_a p) (inserted_b p) (inserted_c p) = ans + ms_pending (memory_system p)"
proof -
  obtain ms where ms: "ms_start plain_Build sample_Config ms" "ms_guard sample_Config ms" using sample_memory by blast
  let ?p = "new_StreamCPU (0, 0, 0) sample_Gen ms"
  have run: "cpu_run plain_Build sample_Config (Stream_CPU ?p) 0 {#} (Stream_CPU ?p)" by (rule cpu_run.start)
  have guard: "ms_guard sample_Config (memory_system ?p)" using ms(2) by (simp add: new_StreamCPU_def)
  obtain es p where "StreamCPU_ClockTick plain_Build sample_Config (new_Timing sample_Config) ?p = Inr (es, p)"
    using stream_cpu_requests [OF ms(1) run] guard by (auto simp: succeeds_iff)
  then have "cpu_run plain_Build sample_Config (Stream_CPU ?p) 1 (mset es + {#}) (Stream_CPU p)" using cpu_run.cycle [OF run] guard by simp
  with ms stream_cpu_requests [OF ms(1) this] show ?thesis by (simp del: One_nat_def) blast
qed

text \<open>A trace of one write, with a line feed at its end.\<close>

definition sample_Trace :: TraceFile where
  "sample_Trace = \<lparr>tf_records = [(64, ''WRITE'', 0)], tf_space = True, tf_eof = False\<rparr>"

theorem trace_cpu_requests_witness:
  "\<exists>ms p0 ans p. ms_start plain_Build sample_Config ms \<and> new_TraceBasedCPU (mk_Transaction 0 False) (Some sample_Trace) ms = Inr p0 \<and>
     cpu_run plain_Build sample_Config (Trace_CPU p0) 1 ans (Trace_CPU p) \<and>
     trace_made [(64, ''WRITE'', 0)] True (tf_eof (trace_file p)) (ans + ms_pending (memory_system p))"
proof -
  obtain ms where ms: "ms_start plain_Build sample_Config ms" "ms_guard sample_Config ms" using sample_memory by blast
  obtain p0 where p0: "new_TraceBasedCPU (mk_Transaction 0 False) (Some sample_Trace) ms = Inr p0" "memory_system p0 = ms"
    by (simp add: new_TraceBasedCPU_def)
  have run: "cpu_run plain_Build sample_Config (Trace_CPU p0) 0 {#} (Trace_CPU p0)" by (rule cpu_run.start)
  note requests = trace_cpu_requests [OF ms(1) p0(1)]
  have f: "tf_records sample_Trace = [(64, ''WRITE'', 0)]" "tf_space sample_Trace" "\<not> tf_eof sample_Trace" by (simp_all add: sample_Trace_def)
  obtain es p where "TraceBasedCPU_ClockTick plain_Build sample_Config (new_Timing sample_Config) p0 = Inr (es, p)"
    using requests [OF run] f ms(2) p0(2) by (auto simp: succeeds_iff)
  then have "cpu_run plain_Build sample_Config (Trace_CPU p0) 1 (mset es + {#}) (Trace_CPU p)" using cpu_run.cycle [OF run] ms(2) p0(2) by simp
  with ms p0 requests [OF this] f show ?thesis by (intro exI [of _ ms] exI [of _ p0] exI [of _ "mset es + {#}"] exI [of _ p]) simp
qed


end
