(* ===== verification/Spec2Isabelle.thy ===== *)
theory Spec2Isabelle
  imports Pending_Queue MCache_LRU Simulator Native_Rows CPU_Correct
begin

text \<open>
  A verification development of the simulator of this repository: the trace-driven processor simulator
  (\<open>src\<close>: cores, last-level cache, page table) on the cycle-level DRAM model (\<open>DRAMsim3/src\<close>, with the
  repository's extensions for refresh management, per-row activation counting and alerts).

  \<^bold>\<open>The program.\<close>  The main program reads the parameters, builds the page table, the shared cache, the memory and
  the cores, and then runs cycles.  In a cycle each core has one turn: it retires instructions from its reorder
  buffer, retries a request that memory refused, and issues instructions of its trace; an access is translated
  by the page table and looked up in the cache, and a miss enters the MSHR and is sent to memory.  Three out of
  about five cycles also run the memory, whose callbacks wake the instructions that wait.

  A memory system owns one controller per channel.  A client adds transactions (an address and a
  direction); \<open>JedecDRAMSystem\<close> routes each to the controller of its channel.  A clock cycle first returns the
  completed transactions through callbacks and then ticks every controller.  A tick of a controller lets the
  refresh scheduler post refreshes, picks a command (a pending refresh or refresh-management command, or one
  from the command queues), issues it to the channel state, schedules a waiting transaction into the command
  queues and counts statistics.  The channel state holds a state machine per bank, the earliest issue time of
  every command type per bank, the activation windows, the queues of pending refreshes and the alert signal.
  The banks hold the row-activation counters (MOAT, PAC, MOPAC) that raise alerts.

  \<open>MemorySystem\<close> chooses between that system and the memory cube \<open>HMCMemorySystem\<close>.  In the cube the controllers are
  vaults: a request enters through one of several links, crosses to one of four quadrants and from there to its
  vault, and the response crosses back; the crossbars run on a faster logic clock, several cycles of which fall
  into one DRAM cycle.

  Without the macro \<open>DRAMSIM3\<close> the simulator uses a smaller DRAM model of its own, which runs in every cycle: a
  queue per bank, one slot per bank for the data bus of the channel, a token that spaces the transfers, and
  refreshes of groups of banks.

  \<^bold>\<open>Which theory models what.\<close>  Definitions carry the names of the C++ functions, with the class in front where
  several classes have one of that name.
  \<^item> \<open>Prelude\<close>: results (\<open>error + 'a\<close>: exits, failed assertions, exceptions, indices out of range, undefined
    shifts and divisions by zero are errors), the predicate transformers \<open>succeeds\<close> and \<open>on_success\<close>, vectors,
    machine integers.
  \<^item> \<open>Common\<close>: \<open>common.h\<close>, \<open>common.cc\<close> (addresses, commands, transactions, helpers).
  \<^item> \<open>Simple_Stats\<close>, \<open>Stats_Epoch\<close>: \<open>simple_stats.h\<close>, \<open>simple_stats.cc\<close> (integer statistics, epoch roll-over).
  \<^item> \<open>Configuration\<close>: \<open>configuration.h\<close>, \<open>configuration.cc\<close>; the INI reader is a parameter.
  \<^item> \<open>Timing_Tables\<close>: \<open>timing.h\<close>, \<open>timing.cc\<close>.
  \<^item> \<open>Bank_State\<close>: \<open>bankstate.h\<close>, \<open>bankstate.cc\<close>; the static variables and the random engine are the record
    \<open>Shared\<close>, passed along.
  \<^item> \<open>Channel_State\<close>: \<open>channel_state.h\<close>, \<open>channel_state.cc\<close>.
  \<^item> \<open>Command_Queue\<close>, \<open>Refresh\<close>: \<open>command_queue.h\<close>, \<open>command_queue.cc\<close>, \<open>refresh.h\<close>, \<open>refresh.cc\<close>.
  \<^item> \<open>Controller\<close>: \<open>controller.h\<close>, \<open>controller.cc\<close>.
  \<^item> \<open>DRAM_System\<close>: \<open>dram_system.h\<close>, \<open>dram_system.cc\<close> (the JEDEC system and the ideal memory).
  \<^item> \<open>HMC_System\<close>: \<open>hmc.h\<close>, \<open>hmc.cc\<close>, \<open>memory_system.cc\<close>; \<open>HMCMemorySystem\<close> extends the record of the base class.
  \<^item> \<open>CPU_Front\<close>: \<open>cpu.h\<close>, \<open>cpu.cc\<close>, \<open>main.cc\<close>, \<open>covert_channel.cc\<close>, the clients of the stand-alone DRAM simulator.
  \<^item> \<open>Sim_Params\<close>: \<open>src/params.h\<close>.  \<open>MCache\<close>: \<open>src/mcache.h\<close>, \<open>src/mcache.cpp\<close>.  \<open>OS_Pages\<close>: \<open>src/os.h\<close>, \<open>src/os.cpp\<close>.
  \<^item> \<open>MCore\<close>: \<open>src/mcore.h\<close>, \<open>src/mcore.cpp\<close>, \<open>src/memsys_dramsim3.h\<close>, \<open>src/memsys_dramsim3.cpp\<close>; what the cores
    share is the record \<open>Nest\<close>, zlib and the memory are records of operations.
  \<^item> \<open>Sim_Loop\<close>: \<open>src/sim.cpp\<close>.  \<open>Simulator\<close>: \<open>memory_system.cc\<close>, through which it uses the DRAM model.
  \<^item> \<open>Native_DRAM\<close>: \<open>src/drambank.h\<close>, \<open>drambank.cpp\<close>, \<open>dramchannel.h\<close>, \<open>dramchannel.cpp\<close>, \<open>dram.h\<close>, \<open>dram.cpp\<close>.
    \<open>Native_Sim\<close>: \<open>src/memsys.h\<close>, \<open>src/memsys.cpp\<close> and the loop of the build without \<open>DRAMSIM3\<close>.

  \<^bold>\<open>What is shown.\<close>
  \<^item> \<open>Bank_Correct\<close>, \<open>Bank_Progress\<close>, \<open>Bank_Counters\<close>: a bank refines the automaton of a row buffer; the command
    it declares ready can be executed and brings the request closer; the counters of refresh management and
    the alerts of the trackers.
  \<^item> \<open>Channel_Timing\<close>, \<open>Channel_Progress\<close>, \<open>Channel_Protocol\<close>, \<open>Activation_Window\<close>, \<open>Channel_View\<close>,
    \<open>Channel_Windows\<close>: the update of the issue times by the position of a bank, the spacing of any two commands
    of a run, the activation windows, and that every accepted request is answered.
  \<^item> \<open>Pending_Queue\<close>, \<open>Channel_Frame\<close>: the queues of pending refresh commands as sets of requests, and what the
    operations of a channel leave alone.
  \<^item> \<open>Queue_Correct\<close>, \<open>Queue_Search\<close>, \<open>Refresh_Correct\<close>: capacity and ownership of the command queues, the choice
    of the next command, the refresh schedule.
  \<^item> \<open>Controller_Data\<close>, \<open>Controller_Correct\<close>, \<open>Controller_Runs\<close>: the accesses waiting in the queues are those pending,
    a cycle completes without a fault, and in every run each request is answered once.
  \<^item> \<open>Memory_Backend\<close>, \<open>DRAM_Correct\<close>: the same for the whole memory system and for the ideal memory, as two
    interpretations of one interface of memory backends.
  \<^item> \<open>HMC_Correct\<close>: the cube is another memory backend: one lemma about a crossbar, used for requests and
    for responses, gives that no packet is lost; the responses in the table belong to the requests on their way,
    the two clocks keep their ratio, and requests enter the links in turn.  The order of service does not follow
    the ages.
  \<^item> \<open>CPU_Correct\<close>: whichever memory \<open>MemorySystem\<close> chooses, a client that asks before it makes a request is understood, so
    each processor of the stand-alone simulator makes the requests it is meant to make: the draws of its engine, the
    elements of its arrays, the records of its trace up to the last one; the covert channel keeps its limits.
  \<^item> \<open>MCache_Correct\<close>, \<open>MCache_LRU\<close>: well-formed caches, what an installation evicts, the victim of each policy,
    and that the LRU cache refines lists ordered by recency.  \<open>OS_Pages\<close>: translation is injective and stable.
    \<open>Sim_Params\<close>: rendered settings are read back.
  \<^item> \<open>MCore_Correct\<close>: on any memory backend, the reorder buffer stays a ring whose count never underflows, the
    outstanding reads are the lines of the MSHR, and each entry names the instruction that waits for it.
  \<^item> \<open>Sim_Loop\<close>, \<open>Simulator\<close>: the cores take turns; the cores interpreted on the DRAM system, where in every run each answer
    finds its instruction and the memory clock keeps its ratio.
  \<^item> \<open>Native_Correct\<close>, \<open>Native_Sim\<close>: no bank, bus slot or refresh of the simulator's own DRAM model faults and no access is
    lost; that model is a memory backend too, the cores are interpreted on it, and its adapter is the
    other adapter with lines as the unit of addresses.  \<open>Native_Rows\<close>: activations of a bank keep their distance,
    every line of the memory has a place, and which banks same-bank refresh never reaches.

  \<^bold>\<open>Interfaces.\<close>  Locales state what a component relies on (the views of a channel that its update leaves alone,
  the request server, a crossbar, the memory backend, the cores and the clients that offer requests); each is interpreted on the definitions of the model, and the
  properties rest on those interpretations.

  \<^bold>\<open>Bounds.\<close>  \<open>uint64_t\<close> and \<open>uint32_t\<close> are words and wrap; \<open>int\<close> is an unbounded integer, with the conversions to
  and from words written out, where the values are small.  All loops are structural recursions or recursions
  with a measure, except the main loop and two loops of the cube (over the links and over the cycles of the logic
  clock), which are partial functions; those of the cube are proved to return.  No fuel is used.  A guard (\<open>tick_guard\<close>) stands for the two conditions under which a cycle of the
  code does abort: a refresh that becomes due while queues are blocked for refresh management, and more
  activations in a refresh interval than the statistics have bins.  \<open>timely\<close> is the condition under which a core
  does not retire an instruction that still waits while it sleeps: that takes five million cycles.  \<open>hmc_guard\<close> adds
  that the picosecond counters of the cube do not wrap, and \<open>rows_in_time\<close> that the cycle counter of the
  simulator's own DRAM model does not.  The doubles of the
  main loop are exact and kept as integers in units of their last place.

  \<^bold>\<open>Not modelled.\<close>  Output (text, JSON, traces), floating-point statistics and the thermal solver (numerical code
  on a sparse-matrix library); the characters of configuration and trace files, which enter as the values they hold; the parsing of the command lines of
  the stand-alone simulator and the other vendored headers.
\<close>

end
